(* ===== verification/C_Lib.thy ===== *)
theory C_Lib
  imports Prelude
begin

text \<open>
  The part of the C language and its library the sources use on strings and integers:
  \<^verbatim>\<open>snprintf("%s")\<close> into a fixed buffer, \<^verbatim>\<open>strstr\<close>, \<^verbatim>\<open>strchr\<close>, \<^verbatim>\<open>isspace\<close>,
  \<^verbatim>\<open>strtol\<close> in base 10 on a 64-bit \<^verbatim>\<open>long\<close>, the conversion of a \<^verbatim>\<open>long\<close> to a 32-bit
  \<^verbatim>\<open>int\<close>, and the decimal conversions \<^verbatim>\<open>%d\<close>, \<^verbatim>\<open>%ld\<close> and \<^verbatim>\<open>%zu\<close>.
\<close>

section \<open>Buffers\<close>

text \<open>
  \<open>cstring bs\<close> is the C string at the start of the byte buffer \<open>bs\<close>.
  \<open>buf n s\<close> is what \<^verbatim>\<open>snprintf(b, n, "%s", s)\<close> leaves in \<^verbatim>\<open>char b[n]\<close>.
\<close>

definition cstring :: "string \<Rightarrow> string" where
  "cstring bs = takeWhile (\<lambda>c. c \<noteq> NUL) bs"

definition is_cstring :: "string \<Rightarrow> bool" where
  "is_cstring s \<longleftrightarrow> NUL \<notin> set s"

definition buf :: "nat \<Rightarrow> string \<Rightarrow> string" where
  "buf n s = take (n - 1) s"

lemma cstring_id [simp]: "is_cstring s \<Longrightarrow> cstring s = s"
  unfolding cstring_def is_cstring_def by (induction s) auto

lemma is_cstring_cstring [simp]: "is_cstring (cstring s)"
  unfolding is_cstring_def cstring_def by (auto dest: set_takeWhileD)

lemma buf_id [simp]: "length s < n \<Longrightarrow> buf n s = s"
  by (simp add: buf_def)

lemma length_buf: "0 < n \<Longrightarrow> length (buf n s) < n"
  by (auto simp: buf_def)

lemma buf_buf [simp]: "buf n (buf n s) = buf n s"
  by (simp add: buf_def)

section \<open>Searching\<close>

text \<open>\<open>strstr h p\<close> is the suffix of \<open>h\<close> from the first occurrence of \<open>p\<close> on.\<close>

fun strstr :: "string \<Rightarrow> string \<Rightarrow> string option" where
  "strstr [] p = (if p = [] then Some [] else None)"
| "strstr (c # cs) p = (if prefix p (c # cs) then Some (c # cs) else strstr cs p)"

abbreviation strchr :: "string \<Rightarrow> char \<Rightarrow> bool" where
  "strchr s c \<equiv> c \<in> set s"

lemma strstr_SomeD: "strstr h p = Some r \<Longrightarrow> prefix p r \<and> suffix r h"
  by (induction h) (auto split: if_splits simp: suffix_Cons)

lemma strstr_None_iff: "strstr h p = None \<longleftrightarrow> \<not> sublist p h"
  by (induction h) (auto simp: sublist_Cons_right)

lemma strstr_append_skip:
  assumes "\<And>a b. h = a @ b \<Longrightarrow> b \<noteq> [] \<Longrightarrow> \<not> prefix p (b @ r)"
  shows "strstr (h @ r) p = strstr r p"
  using assms
proof (induction h)
  case Nil
  then show ?case by simp
next
  case (Cons c h)
  have "\<not> prefix p ((c # h) @ r)"
    using Cons.prems[of "[]" "c # h"] by simp
  moreover have "strstr (h @ r) p = strstr r p"
    by (rule Cons.IH) (use Cons.prems in \<open>metis append_Cons\<close>)
  ultimately show ?case by simp
qed

lemma strstr_prefix: "prefix p r \<Longrightarrow> strstr r p = Some r"
  by (cases r) auto

section \<open>Integers\<close>

text \<open>\<open>int32 x\<close> is the value of \<^verbatim>\<open>(int)x\<close>: two's complement on 32 bits.\<close>

definition int32 :: "int \<Rightarrow> int" where
  "int32 x = (x + 2147483648) mod 4294967296 - 2147483648"

definition INT_MAX :: int where "INT_MAX = 2147483647"
definition INT_MIN :: int where "INT_MIN = -2147483648"
definition LONG_MAX :: int where "LONG_MAX = 9223372036854775807"
definition LONG_MIN :: int where "LONG_MIN = -9223372036854775808"

lemma int32_range: "INT_MIN \<le> int32 x \<and> int32 x \<le> INT_MAX"
proof -
  have "0 \<le> (x + 2147483648) mod 4294967296" "(x + 2147483648) mod 4294967296 < 4294967296"
    by simp_all
  then show ?thesis by (simp add: int32_def INT_MIN_def INT_MAX_def)
qed

lemma int32_id: "INT_MIN \<le> x \<Longrightarrow> x \<le> INT_MAX \<Longrightarrow> int32 x = x"
  by (simp add: int32_def INT_MIN_def INT_MAX_def)

definition is_space :: "char \<Rightarrow> bool" where
  "is_space c \<longleftrightarrow> c = SPACE \<or> (9 \<le> (of_char c :: nat) \<and> (of_char c :: nat) \<le> 13)"

definition is_digit :: "char \<Rightarrow> bool" where
  "is_digit c \<longleftrightarrow> 48 \<le> (of_char c :: nat) \<and> (of_char c :: nat) \<le> 57"

definition digit_val :: "char \<Rightarrow> nat" where
  "digit_val c = of_char c - 48"

definition digit_char :: "nat \<Rightarrow> char" where
  "digit_char d = ''0123456789'' ! d"

fun read_digits :: "nat \<Rightarrow> string \<Rightarrow> nat" where
  "read_digits acc [] = acc"
| "read_digits acc (c # cs) =
     (if is_digit c then read_digits (10 * acc + digit_val c) cs else acc)"

definition starts_digit :: "string \<Rightarrow> bool" where
  "starts_digit s \<longleftrightarrow> (case s of [] \<Rightarrow> False | c # _ \<Rightarrow> is_digit c)"

definition clamp_long :: "int \<Rightarrow> int" where
  "clamp_long v = max LONG_MIN (min LONG_MAX v)"

text \<open>
  \<open>strtol s\<close> is \<^verbatim>\<open>strtol(s, &end, 10)\<close>: \<open>None\<close> when no digits were converted
  (\<^verbatim>\<open>end == s\<close>), otherwise the value, saturated to the range of \<^verbatim>\<open>long\<close>.
\<close>

definition strtol :: "string \<Rightarrow> int option" where
  "strtol s =
     (let t = dropWhile is_space s in
      case t of
        [] \<Rightarrow> None
      | c # cs \<Rightarrow>
          if c = CHR ''-'' then
            (if starts_digit cs then Some (clamp_long (- int (read_digits 0 cs))) else None)
          else if c = CHR ''+'' then
            (if starts_digit cs then Some (clamp_long (int (read_digits 0 cs))) else None)
          else if is_digit c then Some (clamp_long (int (read_digits 0 t)))
          else None)"

section \<open>Decimal output\<close>

fun show_nat :: "nat \<Rightarrow> string" where
  "show_nat n = (if n < 10 then [digit_char n] else show_nat (n div 10) @ [digit_char (n mod 10)])"

declare show_nat.simps [simp del]

definition show_int :: "int \<Rightarrow> string" where
  "show_int i = (if i < 0 then CHR ''-'' # show_nat (nat (- i)) else show_nat (nat i))"

lemma digit_char_cases: "d < 10 \<Longrightarrow> d \<in> {0, 1, 2, 3, 4, 5, 6, 7, 8, 9 :: nat}"
  by auto

lemma digit_char_props:
  assumes "d < 10"
  shows "is_digit (digit_char d)" and "digit_val (digit_char d) = d"
  using digit_char_cases [OF assms]
  by (auto simp: is_digit_def digit_val_def digit_char_def)

lemma read_digits_append:
  "list_all is_digit s \<Longrightarrow> read_digits acc (s @ t) = read_digits (read_digits acc s) t"
  by (induction s arbitrary: acc) auto

lemma show_nat_digits: "list_all is_digit (show_nat n)"
proof (induction n rule: show_nat.induct)
  case (1 n)
  then show ?case
    by (subst show_nat.simps) (simp add: digit_char_props)
qed

lemma show_nat_nonempty [simp]: "show_nat n \<noteq> []"
  by (subst show_nat.simps) simp

lemma read_digits_show_nat: "read_digits 0 (show_nat n) = n"
proof (induction n rule: show_nat.induct)
  case (1 n)
  show ?case
  proof (cases "n < 10")
    case True
    then show ?thesis by (subst show_nat.simps) (simp add: digit_char_props)
  next
    case False
    then have "read_digits 0 (show_nat (n div 10) @ [digit_char (n mod 10)]) = n"
      using "1" by (simp add: read_digits_append show_nat_digits digit_char_props)
    with False show ?thesis by (subst show_nat.simps) simp
  qed
qed

lemma read_digits_stop:
  assumes "list_all is_digit s" and "\<not> starts_digit t"
  shows "read_digits acc (s @ t) = read_digits acc s"
  using assms by (induction s arbitrary: acc) (auto simp: starts_digit_def split: list.splits)

lemma show_nat_starts_digit: "starts_digit (show_nat n @ t)"
  using show_nat_digits [of n] show_nat_nonempty [of n]
  by (cases "show_nat n") (auto simp: starts_digit_def)

lemma digit_not_space: "is_digit c \<Longrightarrow> \<not> is_space c \<and> c \<noteq> CHR ''-'' \<and> c \<noteq> CHR ''+''"
  by (auto simp: is_digit_def is_space_def)

text \<open>Printing a \<^verbatim>\<open>long\<close> and reading it back is the identity.\<close>

lemma strtol_show_int:
  assumes "LONG_MIN \<le> i" and "i \<le> LONG_MAX" and "\<not> starts_digit t"
  shows "strtol (show_int i @ t) = Some i"
proof -
  have clamp: "clamp_long i = i" using assms(1,2) by (simp add: clamp_long_def)
  have rd: "read_digits 0 (show_nat n @ t) = n" for n
    using read_digits_stop [OF show_nat_digits assms(3)] by (simp add: read_digits_show_nat)
  show ?thesis
  proof (cases "i < 0")
    case True
    then show ?thesis
      using clamp by (simp add: strtol_def show_int_def is_space_def show_nat_starts_digit rd)
  next
    case False
    obtain c cs where c: "show_nat (nat i) = c # cs" and d: "is_digit c"
      using show_nat_digits [of "nat i"] show_nat_nonempty [of "nat i"]
      by (cases "show_nat (nat i)") auto
    have "dropWhile is_space (show_nat (nat i) @ t) = show_nat (nat i) @ t"
      using c d digit_not_space by simp
    with False c d clamp rd [of "nat i"] digit_not_space [OF d]
    show ?thesis by (simp add: strtol_def show_int_def)
  qed
qed

definition atol :: "string \<Rightarrow> int" where
  "atol s = (case strtol s of None \<Rightarrow> 0 | Some v \<Rightarrow> v)"

lemma atol_show_int: "LONG_MIN \<le> i \<Longrightarrow> i \<le> LONG_MAX \<Longrightarrow> atol (show_int i) = i"
  using strtol_show_int [of i "[]"] by (simp add: atol_def starts_digit_def)

definition ULLONG_MAX :: nat where "ULLONG_MAX = 18446744073709551615"

text \<open>\<^verbatim>\<open>strtoull(s, NULL, 10)\<close>: a minus sign negates modulo \<open>2 ^ 64\<close>, too large a value saturates.\<close>

definition strtoull :: "string \<Rightarrow> nat" where
  "strtoull s =
     (let t = dropWhile is_space s in
      case t of
        [] \<Rightarrow> 0
      | c # cs \<Rightarrow>
          if c = CHR ''-'' then
            (let v = read_digits 0 cs in
             if ULLONG_MAX < v then ULLONG_MAX else (ULLONG_MAX + 1 - v) mod (ULLONG_MAX + 1))
          else min ULLONG_MAX (read_digits 0 (if c = CHR ''+'' then cs else t)))"

lemma strtoull_show_nat:
  assumes "n \<le> ULLONG_MAX"
  shows "strtoull (show_nat n) = n"
proof -
  obtain c cs where c: "show_nat n = c # cs" and d: "is_digit c"
    using show_nat_digits [of n] show_nat_nonempty [of n] by (cases "show_nat n") auto
  have "dropWhile is_space (show_nat n) = show_nat n" using c d digit_not_space by simp
  with c digit_not_space [OF d] read_digits_show_nat [of n] assms show ?thesis
    by (simp add: strtoull_def)
qed

lemma length_show_nat: "n < 10 ^ Suc k \<Longrightarrow> length (show_nat n) \<le> Suc k"
proof (induction k arbitrary: n)
  case 0
  then show ?case by (subst show_nat.simps) simp
next
  case (Suc k)
  then have "n div 10 < 10 ^ Suc k" by simp
  with Suc.IH show ?case by (subst show_nat.simps) simp
qed

lemma length_show_int:
  assumes "LONG_MIN \<le> i" and "i \<le> LONG_MAX"
  shows "length (show_int i) \<le> 20"
proof -
  have "nat (- i) < 10 ^ Suc 18" "nat i < 10 ^ Suc 18"
    using assms by (auto simp: LONG_MIN_def LONG_MAX_def)
  from length_show_nat [OF this(1)] length_show_nat [OF this(2)] show ?thesis
    by (auto simp: show_int_def)
qed

definition long_range :: "int \<Rightarrow> bool" where
  "long_range i \<longleftrightarrow> LONG_MIN \<le> i \<and> i \<le> LONG_MAX"

definition int_range :: "int \<Rightarrow> bool" where
  "int_range i \<longleftrightarrow> INT_MIN \<le> i \<and> i \<le> INT_MAX"

lemma int32_fits: "int_range i \<Longrightarrow> int32 i = i"
  by (simp add: int_range_def int32_id)

lemma int_range_long: "int_range i \<Longrightarrow> long_range i"
  by (simp add: int_range_def long_range_def INT_MIN_def INT_MAX_def LONG_MIN_def LONG_MAX_def)

lemma length_show_size: "n \<le> ULLONG_MAX \<Longrightarrow> length (show_nat n) \<le> 20"
  using length_show_nat [of n 19] by (simp add: ULLONG_MAX_def)

lemma length_show_long: "long_range i \<Longrightarrow> length (show_int i) \<le> 20"
  using length_show_int [of i] by (simp add: long_range_def)

section \<open>Reading lines\<close>

text \<open>
  \<^verbatim>\<open>fgets(line, n, fp)\<close> on a non-empty rest of a file: the line, with its newline if it
  fits, and what remains.
\<close>

definition fgets :: "nat \<Rightarrow> string \<Rightarrow> string \<times> string" where
  "fgets n s =
     (let k = min (n - 1) (case find_index (\<lambda>c. c = NEWLINE) s of None \<Rightarrow> length s | Some i \<Rightarrow> i + 1)
      in (take k s, drop k s))"

lemma fgets_line:
  assumes "NEWLINE \<notin> set l" and "length l + 1 < n"
  shows "fgets n (l @ NEWLINE # s) = (l @ [NEWLINE], s)"
proof -
  have "find_index (\<lambda>c. c = NEWLINE) l = None" using assms(1) by (auto simp: find_index_None_iff)
  then have "find_index (\<lambda>c. c = NEWLINE) (l @ NEWLINE # s) = Some (length l)"
    by (simp add: find_index_append)
  moreover have "min (n - 1) (length l + 1) = length l + 1" using assms(2) by simp
  ultimately show ?thesis by (simp add: fgets_def)
qed

lemma fgets_shorter: "s \<noteq> [] \<Longrightarrow> 1 < n \<Longrightarrow> length (snd (fgets n s)) < length s"
  by (auto simp: fgets_def Let_def split: option.splits)

lemma digit_chars: "c \<in> set (show_nat n) \<Longrightarrow> is_digit c"
  using show_nat_digits [of n] by (auto simp: list_all_iff)

lemma show_nat_plain: "NEWLINE \<notin> set (show_nat n) \<and> NUL \<notin> set (show_nat n) \<and> CHR '':'' \<notin> set (show_nat n)"
  by (auto dest!: digit_chars simp: is_digit_def)

lemma show_int_plain: "NEWLINE \<notin> set (show_int n) \<and> NUL \<notin> set (show_int n) \<and> CHR '':'' \<notin> set (show_int n)"
  by (auto simp: show_int_def show_nat_plain)

end
