(* ===== verification/Common_Json.thy ===== *)
theory Common_Json
  imports C_Lib
begin

text \<open>
  \<^verbatim>\<open>common/json_util.c\<close>: the string-search reader and the escaping writer of the
  protocol's JSON messages. Failure (\<^verbatim>\<open>-1\<close>) is \<open>None\<close>; an output buffer of \<open>n\<close> bytes is
  the argument \<open>n\<close>, and the value returned is the string written to it.

  The lemmas relate both readers to one unbounded decoder, the writer to one escaping
  function, and show that reading a key of a message written with escaped values gives
  back the value, whatever bytes the other values contain.
\<close>

section \<open>Reading\<close>

definition string_pattern :: "string \<Rightarrow> string" where
  "string_pattern key = QUOTE # key @ QUOTE # CHR '':'' # [QUOTE]"

definition int_pattern :: "string \<Rightarrow> string" where
  "int_pattern key = QUOTE # key @ QUOTE # [CHR '':'']"

definition unescape_char :: "char \<Rightarrow> char" where
  "unescape_char next =
     (if next = CHR ''n'' then NEWLINE
      else if next = CHR ''r'' then RETURN
      else if next = CHR ''t'' then TAB
      else next)"

fun get_string_loop :: "nat \<Rightarrow> string \<Rightarrow> string \<Rightarrow> string option" where
  "get_string_loop out_size out [] = None"
| "get_string_loop out_size out (c # p) =
     (if c = BACKSLASH then
        (case p of
           [] \<Rightarrow> None
         | next # p' \<Rightarrow>
             if out_size \<le> length out + 1 then None
             else get_string_loop out_size (out @ [unescape_char next]) p')
      else if c = QUOTE then (if out_size \<le> length out then None else Some out)
      else if out_size \<le> length out + 1 then None
      else get_string_loop out_size (out @ [c]) p)"

definition json_get_string :: "string \<Rightarrow> string \<Rightarrow> nat \<Rightarrow> string option" where
  "json_get_string json key out_size =
     (if out_size = 0 then None
      else if 128 \<le> length (string_pattern key) then None
      else case strstr json (string_pattern key) of
        None \<Rightarrow> None
      | Some m \<Rightarrow> get_string_loop out_size [] (drop (length (string_pattern key)) m))"

text \<open>The two passes of \<^verbatim>\<open>json_get_string_alloc\<close>: measure, then decode.\<close>

fun alloc_measure :: "nat \<Rightarrow> string \<Rightarrow> nat option" where
  "alloc_measure len [] = None"
| "alloc_measure len (c # scan) =
     (if c = BACKSLASH then
        (case scan of [] \<Rightarrow> None | _ # scan' \<Rightarrow> alloc_measure (len + 1) scan')
      else if c = QUOTE then Some len
      else alloc_measure (len + 1) scan)"

fun alloc_decode :: "string \<Rightarrow> string \<Rightarrow> string option" where
  "alloc_decode out [] = None"
| "alloc_decode out (c # p) =
     (if c = BACKSLASH then
        (case p of [] \<Rightarrow> None | next # p' \<Rightarrow> alloc_decode (out @ [unescape_char next]) p')
      else if c = QUOTE then Some out
      else alloc_decode (out @ [c]) p)"

definition json_get_string_alloc :: "string \<Rightarrow> string \<Rightarrow> string option" where
  "json_get_string_alloc json key =
     (if 128 \<le> length (string_pattern key) then None
      else case strstr json (string_pattern key) of
        None \<Rightarrow> None
      | Some m \<Rightarrow>
          let p = drop (length (string_pattern key)) m in
          case alloc_measure 0 p of None \<Rightarrow> None | Some len \<Rightarrow> alloc_decode [] p)"

definition json_get_int :: "string \<Rightarrow> string \<Rightarrow> int option" where
  "json_get_int json key =
     (if 128 \<le> length (int_pattern key) then None
      else case strstr json (int_pattern key) of
        None \<Rightarrow> None
      | Some m \<Rightarrow>
          let start = dropWhile is_space (drop (length (int_pattern key)) m) in
          map_option int32 (strtol start))"

section \<open>Writing\<close>

definition escape_char :: "char \<Rightarrow> string" where
  "escape_char c =
     (if c = QUOTE then [BACKSLASH, QUOTE]
      else if c = BACKSLASH then [BACKSLASH, BACKSLASH]
      else if c = NEWLINE then [BACKSLASH, CHR ''n'']
      else if c = RETURN then [BACKSLASH, CHR ''r'']
      else if c = TAB then [BACKSLASH, CHR ''t'']
      else [c])"

fun escape_loop :: "nat \<Rightarrow> string \<Rightarrow> string \<Rightarrow> string option" where
  "escape_loop dst_size dst [] = (if dst_size \<le> length dst then None else Some dst)"
| "escape_loop dst_size dst (c # p) =
     (if dst_size \<le> length dst + length (escape_char c) then None
      else escape_loop dst_size (dst @ escape_char c) p)"

definition escape_value :: "nat \<Rightarrow> string \<Rightarrow> string option" where
  "escape_value dst_size src = escape_loop dst_size [] src"

definition json_escape_string :: "nat \<Rightarrow> string \<Rightarrow> string option" where
  "json_escape_string buf_size val = escape_value buf_size val"

fun escape_length_loop :: "nat \<Rightarrow> string \<Rightarrow> nat" where
  "escape_length_loop len [] = len"
| "escape_length_loop len (c # p) =
     (if c = QUOTE \<or> c = BACKSLASH \<or> c = NEWLINE \<or> c = RETURN \<or> c = TAB
      then escape_length_loop (len + 2) p
      else escape_length_loop (len + 1) p)"

definition escape_length :: "string \<Rightarrow> nat" where
  "escape_length src = escape_length_loop 0 src"

definition json_escape_dup :: "string \<Rightarrow> string option" where
  "json_escape_dup val = escape_value (escape_length val + 1) val"

definition json_format_string :: "nat \<Rightarrow> string \<Rightarrow> string \<Rightarrow> string option" where
  "json_format_string buf_size key val =
     (case escape_value 128 key of
        None \<Rightarrow> None
      | Some key_escaped \<Rightarrow>
          (case escape_value 1024 val of
             None \<Rightarrow> None
           | Some value_escaped \<Rightarrow>
               let out = CHR ''{'' # QUOTE # key_escaped @ QUOTE # CHR '':'' # QUOTE
                           # value_escaped @ QUOTE # ''}'' in
               if buf_size \<le> length out then None else Some out))"

section \<open>Reference functions\<close>

text \<open>The unbounded decoder and the escaping function the code implements.\<close>

fun decode :: "string \<Rightarrow> string option" where
  "decode [] = None"
| "decode (c # p) =
     (if c = BACKSLASH then
        (case p of [] \<Rightarrow> None | next # p' \<Rightarrow> map_option (Cons (unescape_char next)) (decode p'))
      else if c = QUOTE then Some []
      else map_option (Cons c) (decode p))"

definition escape :: "string \<Rightarrow> string" where
  "escape s = concat (map escape_char s)"

lemma escape_simps [simp]:
  "escape [] = []" "escape (c # s) = escape_char c @ escape s" "escape (s @ t) = escape s @ escape t"
  by (simp_all add: escape_def)

lemma escape_char_cases:
  obtains (plain) "escape_char c = [c]" "c \<noteq> QUOTE" "c \<noteq> BACKSLASH"
  | (escaped) d where "escape_char c = [BACKSLASH, d]" "unescape_char d = c"
proof (cases "c = QUOTE \<or> c = BACKSLASH \<or> c = NEWLINE \<or> c = RETURN \<or> c = TAB")
  case True
  then have "\<exists>d. escape_char c = [BACKSLASH, d] \<and> unescape_char d = c"
    by (auto simp: escape_char_def unescape_char_def)
  with escaped show ?thesis by blast
next
  case False
  with plain show ?thesis by (simp add: escape_char_def)
qed

lemma escape_char_len: "0 < length (escape_char c) \<and> length (escape_char c) \<le> 2"
  by (auto simp: escape_char_def)

lemma length_escape: "length s \<le> length (escape s) \<and> length (escape s) \<le> 2 * length s"
proof (induction s)
  case (Cons c s)
  then show ?case using escape_char_len [of c] by (cases "escape_char c") auto
qed simp

lemma escape_loop_eq:
  "escape_loop n dst s = (if length dst + length (escape s) < n then Some (dst @ escape s) else None)"
proof (induction s arbitrary: dst)
  case (Cons c s)
  then show ?case using escape_char_len [of c] by auto
qed auto

lemma escape_value_eq: "escape_value n s = (if length (escape s) < n then Some (escape s) else None)"
  by (simp add: escape_value_def escape_loop_eq)

lemma escape_length_eq: "escape_length s = length (escape s)"
proof -
  have "escape_length_loop n s = n + length (escape s)" for n
    by (induction s arbitrary: n) (auto simp: escape_char_def)
  then show ?thesis by (simp add: escape_length_def)
qed

lemma json_escape_dup_total [simp, json_simps]: "json_escape_dup s = Some (escape s)"
  by (simp add: json_escape_dup_def escape_value_eq escape_length_eq)

lemma json_escape_string_eq [json_simps]:
  "json_escape_string n s = (if length (escape s) < n then Some (escape s) else None)"
  by (simp add: json_escape_string_def escape_value_eq)

lemma get_string_loop_eq:
  "get_string_loop n out p =
     (case decode p of None \<Rightarrow> None | Some s \<Rightarrow> if length out + length s < n then Some (out @ s) else None)"
  by (induction n out p rule: get_string_loop.induct) (auto split: option.splits list.splits)

lemma alloc_decode_eq: "alloc_decode out p = map_option ((@) out) (decode p)"
  by (induction out p rule: alloc_decode.induct)
    (auto split: list.splits simp: option.map_comp comp_def)

lemma alloc_measure_eq: "alloc_measure len p = map_option (\<lambda>s. len + length s) (decode p)"
  by (induction len p rule: alloc_measure.induct)
    (auto split: list.splits simp: option.map_comp comp_def)

lemma decode_escape: "decode (escape s @ QUOTE # r) = Some s"
proof (induction s)
  case (Cons c s)
  then show ?case by (cases c rule: escape_char_cases) simp_all
qed simp

section \<open>Messages with escaped values\<close>

datatype json_val = JStr string | JInt int

fun val_text :: "json_val \<Rightarrow> string" where
  "val_text (JStr s) = QUOTE # escape s @ [QUOTE]"
| "val_text (JInt i) = show_int i"

definition member_text :: "string \<times> json_val \<Rightarrow> string" where
  "member_text kv = QUOTE # fst kv @ QUOTE # CHR '':'' # val_text (snd kv)"

fun members_text :: "(string \<times> json_val) list \<Rightarrow> string" where
  "members_text [] = []"
| "members_text [kv] = member_text kv"
| "members_text (kv # kvs) = member_text kv @ CHR '','' # members_text kvs"

definition json_object :: "(string \<times> json_val) list \<Rightarrow> string" where
  "json_object kvs = CHR ''{'' # members_text kvs @ ''}''"

definition plain_key :: "string \<Rightarrow> bool" where
  "plain_key k \<longleftrightarrow> k \<noteq> [] \<and> length k < 120 \<and>
     (\<forall>c \<in> set k. c \<notin> {QUOTE, BACKSLASH, CHR '':'', CHR '','', CHR ''}''})"

text \<open>
  \<open>key_start k p\<close>: the text \<open>p\<close> begins with the quoted key \<open>k\<close> and a colon, the common
  part of both search patterns.
\<close>

definition key_start :: "string \<Rightarrow> string \<Rightarrow> bool" where
  "key_start k p \<longleftrightarrow> prefix (int_pattern k) p"

lemma string_pattern_key_start: "prefix (string_pattern k) p \<Longrightarrow> key_start k p"
proof -
  have "string_pattern k = int_pattern k @ [QUOTE]"
    by (simp add: string_pattern_def int_pattern_def)
  then show "prefix (string_pattern k) p \<Longrightarrow> key_start k p"
    by (metis append_prefixD key_start_def)
qed

lemma escape_quote_tail: "escape s = a @ QUOTE # t \<Longrightarrow> \<exists>s2. t = escape s2"
proof (induction s arbitrary: a)
  case Nil
  then show ?case by simp
next
  case (Cons c s)
  show ?case
  proof (cases c rule: escape_char_cases)
    case plain
    with Cons show ?thesis by (cases a) auto
  next
    case (escaped d)
    with Cons.prems have eq: "BACKSLASH # d # escape s = a @ QUOTE # t" by simp
    then obtain a' where a: "a = BACKSLASH # a'" and eq': "d # escape s = a' @ QUOTE # t"
      by (cases a) auto
    show ?thesis
    proof (cases a')
      case Nil
      with eq' show ?thesis by auto
    next
      case (Cons x a'')
      with eq' Cons.IH [of a''] show ?thesis by simp
    qed
  qed
qed

lemma quoted_key_in_escaped:
  assumes "\<forall>c \<in> set k. c \<noteq> QUOTE \<and> c \<noteq> BACKSLASH"
    and "prefix (k @ QUOTE # CHR '':'' # q) (escape s @ QUOTE # r)"
  shows "prefix [CHR '':''] r"
  using assms
proof (induction s arbitrary: k)
  case Nil
  then show ?case
  proof (cases k)
    case (Cons c k')
    with Nil show ?thesis by simp
  next
    case emp: Nil
    with Nil show ?thesis by (cases r) auto
  qed
next
  case (Cons c s)
  show ?case
  proof (cases c rule: escape_char_cases)
    case plain
    with Cons.prems obtain k' where "k = c # k'" by (cases k) auto
    with Cons plain show ?thesis by auto
  next
    case (escaped d)
    with Cons.prems show ?thesis by (cases k) auto
  qed
qed

lemma digit_not_quote: "is_digit c \<Longrightarrow> c \<noteq> QUOTE"
  by (auto simp: is_digit_def)

lemma val_text_no_key:
  assumes k: "plain_key k" and r: "prefix [CHR '',''] r \<or> prefix [CHR ''}''] r"
    and vt: "val_text v = a @ b" and b: "b \<noteq> []"
  shows "\<not> key_start k (b @ r)"
proof
  assume ks: "key_start k (b @ r)"
  then obtain t where bt: "b = QUOTE # t"
    using b by (cases b) (auto simp: key_start_def int_pattern_def)
  with ks have pre: "prefix (k @ QUOTE # [CHR '':'']) (t @ r)"
    by (simp add: key_start_def int_pattern_def)
  have noesc: "\<forall>c \<in> set k. c \<noteq> QUOTE \<and> c \<noteq> BACKSLASH" and "k \<noteq> []"
    using k by (auto simp: plain_key_def)
  then obtain c k' where kc: "k = c # k'" by (cases k) auto
  have c: "c \<noteq> CHR '',''" "c \<noteq> CHR ''}''" using k kc by (auto simp: plain_key_def)
  show False
  proof (cases v)
    case (JInt i)
    have "\<forall>x \<in> set (show_int i). x \<noteq> QUOTE"
      using show_nat_digits [of "nat i"] show_nat_digits [of "nat (- i)"]
      by (auto simp: show_int_def list_all_iff dest: digit_not_quote)
    with JInt vt bt show False by auto
  next
    case (JStr s)
    have "t = [] \<or> (\<exists>s2. t = escape s2 @ [QUOTE])"
    proof (cases a)
      case Nil
      with JStr vt bt show ?thesis by auto
    next
      case (Cons x a')
      with JStr vt bt have "escape s @ [QUOTE] = a' @ QUOTE # t" by auto
      then show ?thesis
      proof (cases t rule: rev_cases)
        case (snoc t' y)
        with \<open>escape s @ [QUOTE] = a' @ QUOTE # t\<close> have "escape s = a' @ QUOTE # t'" "y = QUOTE"
          by (simp_all flip: append_Cons append_assoc)
        with snoc show ?thesis using escape_quote_tail by blast
      qed simp
    qed
    then show False
    proof
      assume "t = []"
      with pre kc c r show False by (cases r) auto
    next
      assume "\<exists>s2. t = escape s2 @ [QUOTE]"
      with pre quoted_key_in_escaped [OF noesc, of "[]"] have "prefix [CHR '':''] r"
        by auto
      with r show False by (cases r) auto
    qed
  qed
qed

lemma member_no_other_key:
  assumes k: "plain_key k" and k': "plain_key k'" and ne: "k' \<noteq> k"
    and r: "prefix [CHR '',''] r \<or> prefix [CHR ''}''] r"
    and m: "member_text (k', v) = a @ b" and b: "b \<noteq> []"
  shows "\<not> key_start k (b @ r)"
proof
  assume ks: "key_start k (b @ r)"
  have q: "QUOTE \<notin> set k" "QUOTE \<notin> set k'" "k \<noteq> []" "CHR '':'' \<notin> set k"
    using k k' by (auto simp: plain_key_def)
  obtain t where bt: "b = QUOTE # t"
    using b ks by (cases b) (auto simp: key_start_def int_pattern_def)
  with ks have pre: "prefix (k @ QUOTE # [CHR '':'']) (t @ r)"
    by (simp add: key_start_def int_pattern_def)
  have m': "QUOTE # k' @ QUOTE # CHR '':'' # val_text v = a @ QUOTE # t"
    using m bt by (simp add: member_text_def)
  show False
  proof (cases a)
    case Nil
    with m' have t: "t = k' @ QUOTE # CHR '':'' # val_text v" by simp
    with pre obtain z where "k @ QUOTE # CHR '':'' # z = k' @ QUOTE # CHR '':'' # val_text v @ r"
      by (auto simp: prefix_def)
    with q(1,2) have "k = k'" by (blast dest: first_split_unique)
    with ne show False by simp
  next
    case (Cons x a')
    with m' have eq: "k' @ QUOTE # CHR '':'' # val_text v = a' @ QUOTE # t" by auto
    then consider "a' = k'" "t = CHR '':'' # val_text v"
      | w where "CHR '':'' # val_text v = w @ QUOTE # t"
      using split_after_first [OF eq q(2)] by blast
    then show False
    proof cases
      case 1
      with pre q(3,4) show False by (cases k) auto
    next
      case (2 w)
      then obtain w' where "val_text v = w' @ QUOTE # t" by (cases w) auto
      from val_text_no_key [OF k r this] ks bt show False by simp
    qed
  qed
qed

lemma strstr_member_skip:
  assumes "plain_key k" and "plain_key k'" and "k' \<noteq> k"
    and "prefix [CHR '',''] r \<or> prefix [CHR ''}''] r"
    and "\<And>p. prefix pat p \<Longrightarrow> key_start k p"
  shows "strstr (member_text (k', v) @ r) pat = strstr r pat"
  by (rule strstr_append_skip) (use member_no_other_key [OF assms(1-4)] assms(5) in blast)

lemma strstr_member_int_skip:
  assumes "plain_key k" and "prefix [CHR '',''] r \<or> prefix [CHR ''}''] r"
  shows "strstr (member_text (k, JInt i) @ r) (string_pattern k) = strstr r (string_pattern k)"
proof (rule strstr_append_skip)
  fix a b
  assume m: "member_text (k, JInt i) = a @ b" and b: "b \<noteq> []"
  have "\<forall>x \<in> set (show_int i). x \<noteq> QUOTE"
    using show_nat_digits [of "nat i"] show_nat_digits [of "nat (- i)"]
    by (auto simp: show_int_def list_all_iff dest: digit_not_quote)
  moreover have "show_int i \<noteq> []" by (simp add: show_int_def)
  ultimately obtain d ds where ds: "show_int i = d # ds" "d \<noteq> QUOTE"
    by (cases "show_int i") auto
  show "\<not> prefix (string_pattern k) (b @ r)"
  proof (cases a)
    case Nil
    with m ds show ?thesis by (auto simp: member_text_def string_pattern_def)
  next
    case (Cons x a')
    have k: "QUOTE \<notin> set k" "k \<noteq> []" "CHR '':'' \<notin> set k"
      using assms(1) by (auto simp: plain_key_def)
    show ?thesis
    proof
      assume pre: "prefix (string_pattern k) (b @ r)"
      then obtain t where bt: "b = QUOTE # t"
        using b by (cases b) (auto simp: string_pattern_def)
      from m Cons bt have "k @ QUOTE # CHR '':'' # show_int i = a' @ QUOTE # t"
        by (auto simp: member_text_def)
      moreover have "QUOTE \<notin> set (CHR '':'' # show_int i)"
        using \<open>\<forall>x \<in> set (show_int i). x \<noteq> QUOTE\<close> by auto
      ultimately have "t = CHR '':'' # show_int i"
        using append_Cons_eq_iff [of QUOTE k "CHR '':'' # show_int i" a' t] k(1) by auto
      with pre bt k show False by (cases k) (auto simp: string_pattern_def)
    qed
  qed
qed

lemma members_text_Cons:
  "kvs \<noteq> [] \<Longrightarrow> members_text (kv # kvs) = member_text kv @ CHR '','' # members_text kvs"
  by (cases kvs) auto

lemma strstr_skip_char: "c \<noteq> QUOTE \<Longrightarrow> strstr (c # h) (QUOTE # p) = strstr h (QUOTE # p)"
  by simp

lemma pattern_quote: "\<exists>p. string_pattern k = QUOTE # p" "\<exists>p. int_pattern k = QUOTE # p"
  by (simp_all add: string_pattern_def int_pattern_def)

text \<open>Where the search of a key of an object stops.\<close>

lemma members_tail: "\<exists>r. members_text (kv # kvs) @ ''}'' = member_text kv @ r \<and>
    (prefix [CHR '',''] r \<or> prefix [CHR ''}''] r) \<and>
    strstr r (QUOTE # p) = strstr (members_text kvs @ ''}'') (QUOTE # p)"
proof (cases kvs)
  case Nil
  then show ?thesis by (intro exI [of _ "''}''"]) simp
next
  case (Cons a list)
  then show ?thesis
    by (intro exI [of _ "CHR '','' # members_text kvs @ ''}''"]) (simp add: members_text_Cons)
qed

lemma strstr_members_string:
  assumes "\<forall>kv \<in> set kvs. plain_key (fst kv)" and "plain_key k"
    and "map_of kvs k = Some (JStr s)"
  shows "\<exists>r. strstr (members_text kvs @ ''}'') (string_pattern k)
    = Some (string_pattern k @ escape s @ QUOTE # r)"
  using assms
proof (induction kvs)
  case Nil
  then show ?case by simp
next
  case (Cons kv kvs)
  obtain p where p: "string_pattern k = QUOTE # p" using pattern_quote by blast
  obtain r where r: "members_text (kv # kvs) @ ''}'' = member_text kv @ r"
    "prefix [CHR '',''] r \<or> prefix [CHR ''}''] r"
    "strstr r (QUOTE # p) = strstr (members_text kvs @ ''}'') (QUOTE # p)"
    using members_tail by blast
  obtain k' v where kv: "kv = (k', v)" by (cases kv)
  show ?case
  proof (cases "k' = k")
    case True
    with Cons.prems kv have "v = JStr s" by simp
    with True kv r(1) have "members_text (kv # kvs) @ ''}'' = string_pattern k @ escape s @ QUOTE # r"
      by (simp add: member_text_def string_pattern_def)
    then show ?thesis by (metis prefixI strstr_prefix)
  next
    case False
    have "strstr (member_text (k', v) @ r) (string_pattern k) = strstr r (string_pattern k)"
      by (rule strstr_member_skip [OF Cons.prems(2) _ False r(2)])
        (use Cons.prems kv string_pattern_key_start in auto)
    moreover have "\<exists>r. strstr (members_text kvs @ ''}'') (string_pattern k)
        = Some (string_pattern k @ escape s @ QUOTE # r)"
      by (rule Cons.IH) (use Cons.prems kv False in auto)
    ultimately show ?thesis using r(1,3) kv p by simp
  qed
qed

lemma strstr_members_int:
  assumes "\<forall>kv \<in> set kvs. plain_key (fst kv)" and "plain_key k"
    and "map_of kvs k = Some (JInt i)"
  shows "\<exists>r. strstr (members_text kvs @ ''}'') (int_pattern k)
    = Some (int_pattern k @ show_int i @ r) \<and> \<not> starts_digit r"
  using assms
proof (induction kvs)
  case Nil
  then show ?case by simp
next
  case (Cons kv kvs)
  obtain p where p: "int_pattern k = QUOTE # p" using pattern_quote by blast
  obtain r where r: "members_text (kv # kvs) @ ''}'' = member_text kv @ r"
    "prefix [CHR '',''] r \<or> prefix [CHR ''}''] r"
    "strstr r (QUOTE # p) = strstr (members_text kvs @ ''}'') (QUOTE # p)"
    using members_tail by blast
  obtain k' v where kv: "kv = (k', v)" by (cases kv)
  show ?case
  proof (cases "k' = k")
    case True
    with Cons.prems kv have "v = JInt i" by simp
    with True kv r(1) have "members_text (kv # kvs) @ ''}'' = int_pattern k @ show_int i @ r"
      by (simp add: member_text_def int_pattern_def)
    moreover have "\<not> starts_digit r"
      using r(2) by (cases r) (auto simp: starts_digit_def is_digit_def)
    ultimately show ?thesis by (metis prefixI strstr_prefix)
  next
    case False
    have "strstr (member_text (k', v) @ r) (int_pattern k) = strstr r (int_pattern k)"
      by (rule strstr_member_skip [OF Cons.prems(2) _ False r(2)])
        (use Cons.prems kv in \<open>auto simp: key_start_def\<close>)
    moreover have "\<exists>r. strstr (members_text kvs @ ''}'') (int_pattern k)
        = Some (int_pattern k @ show_int i @ r) \<and> \<not> starts_digit r"
      by (rule Cons.IH) (use Cons.prems kv False in auto)
    ultimately show ?thesis using r(1,3) kv p by simp
  qed
qed

lemma strstr_members_missing:
  assumes "\<forall>kv \<in> set kvs. plain_key (fst kv)" and "plain_key k"
    and "\<And>s. (k, JStr s) \<notin> set kvs"
  shows "strstr (members_text kvs @ ''}'') (string_pattern k) = None"
  using assms
proof (induction kvs)
  case Nil
  then show ?case by (simp add: string_pattern_def)
next
  case (Cons kv kvs)
  obtain p where p: "string_pattern k = QUOTE # p" using pattern_quote by blast
  obtain r where r: "members_text (kv # kvs) @ ''}'' = member_text kv @ r"
    "prefix [CHR '',''] r \<or> prefix [CHR ''}''] r"
    "strstr r (QUOTE # p) = strstr (members_text kvs @ ''}'') (QUOTE # p)"
    using members_tail by blast
  obtain k' v where kv: "kv = (k', v)" by (cases kv)
  have IH: "strstr (members_text kvs @ ''}'') (string_pattern k) = None"
    by (rule Cons.IH) (use Cons.prems in auto)
  have "strstr (member_text (k', v) @ r) (string_pattern k) = strstr r (string_pattern k)"
  proof (cases "k' = k")
    case True
    then obtain i where "v = JInt i" using Cons.prems(3) kv by (cases v) auto
    with True strstr_member_int_skip [OF Cons.prems(2) r(2)] show ?thesis by simp
  next
    case False
    show ?thesis
      by (rule strstr_member_skip [OF Cons.prems(2) _ False r(2)])
        (use Cons.prems kv string_pattern_key_start in auto)
  qed
  with IH r(1,3) kv p show ?case by simp
qed

section \<open>Reading back a written message\<close>

text \<open>\<open>json_ok kvs\<close>: the keys of the message are plain, as all keys in the sources are.\<close>

definition json_ok :: "(string \<times> json_val) list \<Rightarrow> bool" where
  "json_ok kvs \<longleftrightarrow> list_all (\<lambda>kv. plain_key (fst kv)) kvs"

lemma plain_key_patterns:
  "plain_key k \<Longrightarrow> \<not> 128 \<le> length (string_pattern k)" "plain_key k \<Longrightarrow> \<not> 128 \<le> length (int_pattern k)"
  by (auto simp: plain_key_def string_pattern_def int_pattern_def)

lemma strstr_json_object:
  "strstr (json_object kvs) (string_pattern k) = strstr (members_text kvs @ ''}'') (string_pattern k)"
  "strstr (json_object kvs) (int_pattern k) = strstr (members_text kvs @ ''}'') (int_pattern k)"
  by (simp_all add: json_object_def string_pattern_def int_pattern_def)

lemma json_get_string_object:
  assumes "json_ok kvs" and "plain_key k" and "map_of kvs k = Some (JStr s)"
  shows "json_get_string (json_object kvs) k n = (if length s < n then Some s else None)"
proof -
  obtain r where "strstr (members_text kvs @ ''}'') (string_pattern k)
      = Some (string_pattern k @ escape s @ QUOTE # r)"
    using strstr_members_string [of kvs k s] assms by (auto simp: json_ok_def list_all_iff)
  then show ?thesis
    using plain_key_patterns [OF assms(2)]
    by (simp add: json_get_string_def strstr_json_object get_string_loop_eq decode_escape)
qed

lemma json_get_string_alloc_object:
  assumes "json_ok kvs" and "plain_key k" and "map_of kvs k = Some (JStr s)"
  shows "json_get_string_alloc (json_object kvs) k = Some s"
proof -
  obtain r where "strstr (members_text kvs @ ''}'') (string_pattern k)
      = Some (string_pattern k @ escape s @ QUOTE # r)"
    using strstr_members_string [of kvs k s] assms by (auto simp: json_ok_def list_all_iff)
  then show ?thesis
    using plain_key_patterns [OF assms(2)]
    by (simp add: json_get_string_alloc_def strstr_json_object alloc_measure_eq alloc_decode_eq
        decode_escape)
qed

lemma json_get_string_missing:
  assumes "json_ok kvs" and "plain_key k" and "\<And>s. (k, JStr s) \<notin> set kvs"
  shows "json_get_string (json_object kvs) k n = None"
  using strstr_members_missing [of kvs k] assms
  by (simp add: json_get_string_def strstr_json_object json_ok_def list_all_iff)

lemma json_get_int_object:
  assumes "json_ok kvs" and "plain_key k" and "map_of kvs k = Some (JInt i)"
    and "LONG_MIN \<le> i" and "i \<le> LONG_MAX"
  shows "json_get_int (json_object kvs) k = Some (int32 i)"
proof -
  obtain r where r: "strstr (members_text kvs @ ''}'') (int_pattern k)
      = Some (int_pattern k @ show_int i @ r)" "\<not> starts_digit r"
    using strstr_members_int [of kvs k i] assms by (auto simp: json_ok_def list_all_iff)
  have "dropWhile is_space (show_int i @ r) = show_int i @ r"
  proof (cases "i < 0")
    case True
    then show ?thesis by (simp add: show_int_def is_space_def)
  next
    case False
    then show ?thesis
      using show_nat_digits [of "nat i"] show_nat_nonempty [of "nat i"] digit_not_space
      by (cases "show_nat (nat i)") (auto simp: show_int_def)
  qed
  with r strtol_show_int [OF assms(4,5) r(2)] plain_key_patterns [OF assms(2)]
  show ?thesis by (simp add: json_get_int_def strstr_json_object)
qed

lemma json_get_string_short: "json_get_string json k n = Some s \<Longrightarrow> length s < n"
  by (auto simp: json_get_string_def get_string_loop_eq split: if_splits option.splits)

end
