(* ===== verification/Common_Net.thy ===== *)
theory Common_Net
  imports C_Lib
begin

text \<open>
  \<^verbatim>\<open>common/net_proto.c\<close>: length-prefixed messages over a byte stream. The kernel's
  answers to successive \<^verbatim>\<open>send\<close> and \<^verbatim>\<open>recv\<close> calls are a list of \<open>io_res\<close>: interrupted
  (\<^verbatim>\<open>EINTR\<close>), failed, or at most \<open>m\<close> bytes moved. An exhausted list means that the call
  blocks. Bytes in flight are a \<open>string\<close>, oldest first.

  The locale \<open>framing\<close> is the contract of a framed channel; \<open>net\<close> interprets it on
  \<open>net_recv_json\<close>, so whole sequences of messages arrive intact under any chunking.
  \<^verbatim>\<open>net_listen\<close>, \<^verbatim>\<open>net_connect\<close> and \<^verbatim>\<open>net_close\<close> are in the theory \<open>Common_Sock\<close>.
\<close>

section \<open>Partial sends and receives\<close>

datatype io_res = Intr | IoErr | Moved nat

datatype send_result = SendOk string "io_res list" | SendFail string | SendBlocked string

fun send_all :: "io_res list \<Rightarrow> string \<Rightarrow> string \<Rightarrow> send_result" where
  "send_all sched out [] = SendOk out sched"
| "send_all [] out (b # bs) = SendBlocked out"
| "send_all (Intr # sched) out (b # bs) = send_all sched out (b # bs)"
| "send_all (IoErr # sched) out (b # bs) = SendFail out"
| "send_all (Moved m # sched) out (b # bs) =
     (let sent = min m (length (b # bs)) in
      if sent = 0 then SendFail out
      else send_all sched (out @ take sent (b # bs)) (drop sent (b # bs)))"

datatype recv_result = RecvOk string string "io_res list" | RecvFail | RecvBlocked

fun recv_all :: "io_res list \<Rightarrow> string \<Rightarrow> string \<Rightarrow> nat \<Rightarrow> recv_result" where
  "recv_all sched q got 0 = RecvOk got q sched"
| "recv_all [] q got (Suc n) = RecvBlocked"
| "recv_all (Intr # sched) q got (Suc n) = recv_all sched q got (Suc n)"
| "recv_all (IoErr # sched) q got (Suc n) = RecvFail"
| "recv_all (Moved m # sched) q got (Suc n) =
     (let recvd = min m (min (Suc n) (length q)) in
      if recvd = 0 then RecvFail
      else recv_all sched (drop recvd q) (got @ take recvd q) (Suc n - recvd))"

section \<open>Frames\<close>

text \<open>\<open>be32 n\<close>: the four bytes of \<^verbatim>\<open>htonl(n)\<close> in memory order, and their value.\<close>

definition be32 :: "nat \<Rightarrow> string" where
  "be32 n = [char_of (n div 16777216), char_of (n div 65536), char_of (n div 256), char_of n]"

definition be32_val :: "string \<Rightarrow> nat" where
  "be32_val bs = fold (\<lambda>b acc. acc * 256 + of_char b) bs 0"

definition net_send_json :: "io_res list \<Rightarrow> string \<Rightarrow> send_result" where
  "net_send_json sched json =
     (let len = length json mod 4294967296 in
      case send_all sched [] (be32 len) of
        SendOk out sched' \<Rightarrow> send_all sched' out (take len json)
      | r \<Rightarrow> r)"

text \<open>
  \<open>NetOverrun\<close>: the buffer of \<^verbatim>\<open>malloc(len + 1)\<close>, whose size is computed in 32 bits, was
  smaller than what was written to it.
\<close>

datatype net_result = NetOk string string "io_res list" | NetFail | NetBlocked | NetOverrun

definition net_recv_json :: "(nat \<Rightarrow> bool) \<Rightarrow> io_res list \<Rightarrow> string \<Rightarrow> net_result" where
  "net_recv_json mem sched q =
     (case recv_all sched q [] 4 of
        RecvFail \<Rightarrow> NetFail
      | RecvBlocked \<Rightarrow> NetBlocked
      | RecvOk hdr q' sched' \<Rightarrow>
          let len = be32_val hdr; size = (len + 1) mod 4294967296 in
          if \<not> mem size then NetFail
          else case recv_all sched' q' [] len of
            RecvFail \<Rightarrow> NetFail
          | RecvBlocked \<Rightarrow> NetBlocked
          | RecvOk data q'' sched'' \<Rightarrow>
              if size < len + 1 then NetOverrun else NetOk (cstring data) q'' sched'')"

definition frame :: "string \<Rightarrow> string" where
  "frame json = be32 (length json) @ json"

text \<open>\<open>credit sched\<close>: how many calls move at least one byte before a failure.\<close>

fun credit :: "io_res list \<Rightarrow> nat" where
  "credit [] = 0"
| "credit (Intr # s) = credit s"
| "credit (IoErr # s) = 0"
| "credit (Moved m # s) = (if m = 0 then 0 else Suc (credit s))"

section \<open>Byte order\<close>

lemma be32_roundtrip: "n < 4294967296 \<Longrightarrow> be32_val (be32 n) = n"
proof -
  assume n: "n < 4294967296"
  have q: "n div 65536 = n div 256 div 256" "n div 16777216 = n div 256 div 256 div 256"
    by (simp_all flip: div_mult2_eq)
  have "n div 256 div 256 div 256 < 256" using n by simp
  then have "n div 256 div 256 div 256 mod 256 = n div 256 div 256 div 256" by simp
  then have "be32_val (be32 n) = ((n div 256 div 256 div 256 * 256 + n div 256 div 256 mod 256) * 256
      + n div 256 mod 256) * 256 + n mod 256"
    by (simp add: be32_def be32_val_def q)
  then show ?thesis by simp
qed

lemma length_be32 [simp]: "length (be32 n) = 4"
  by (simp add: be32_def)

lemma be32_val_bound: "length bs = 4 \<Longrightarrow> be32_val bs < 4294967296"
proof -
  assume "length bs = 4"
  then obtain a b c d where bs: "bs = [a, b, c, d]"
    by (auto simp: numeral_eq_Suc length_Suc_conv)
  have "be32_val bs = 16777216 * of_char a + 65536 * of_char b + 256 * of_char c + of_char d"
    by (simp add: bs be32_val_def)
  moreover have "of_char a \<le> (255::nat)" "of_char b \<le> (255::nat)" "of_char c \<le> (255::nat)"
    "of_char d \<le> (255::nat)"
    using nat_of_char_less_256 [of a] nat_of_char_less_256 [of b] nat_of_char_less_256 [of c]
      nat_of_char_less_256 [of d] by linarith+
  ultimately show ?thesis by linarith
qed

section \<open>Delivery under any chunking\<close>

lemma send_all_ok:
  "length bs \<le> credit sched \<Longrightarrow>
    \<exists>sched'. send_all sched out bs = SendOk (out @ bs) sched' \<and>
      credit sched \<le> credit sched' + length bs"
proof (induction sched out bs rule: send_all.induct)
  case (5 m sched out b bs)
  define sent where "sent = min m (length (b # bs))"
  have pos: "0 < sent" and "0 < m" using "5.prems" by (auto simp: sent_def split: if_splits)
  have "length (drop sent (b # bs)) \<le> credit sched"
    using "5.prems" pos \<open>0 < m\<close> by auto
  with "5.IH" [OF sent_def] pos obtain s' where
    "send_all sched (out @ take sent (b # bs)) (drop sent (b # bs))
      = SendOk ((out @ take sent (b # bs)) @ drop sent (b # bs)) s'"
    "credit sched \<le> credit s' + length (drop sent (b # bs))" by auto
  moreover have "send_all (Moved m # sched) out (b # bs) =
      send_all sched (out @ take sent (b # bs)) (drop sent (b # bs))"
    using pos by (simp only: send_all.simps Let_def sent_def [symmetric]) simp
  ultimately show ?case using pos \<open>0 < m\<close> by auto
qed auto

lemma recv_all_ok:
  "n \<le> credit sched \<Longrightarrow> n \<le> length q \<Longrightarrow>
    \<exists>sched'. recv_all sched q got n = RecvOk (got @ take n q) (drop n q) sched' \<and>
      credit sched \<le> credit sched' + n"
proof (induction sched q got n rule: recv_all.induct)
  case (5 m sched q got n)
  define recvd where "recvd = min m (min (Suc n) (length q))"
  have pos: "0 < recvd" and m: "0 < m" and le: "recvd \<le> Suc n" "recvd \<le> length q"
    using "5.prems" by (auto simp: recvd_def split: if_splits)
  have "Suc n - recvd \<le> credit sched" "Suc n - recvd \<le> length (drop recvd q)"
    using "5.prems" pos m le by auto
  with "5.IH" [OF recvd_def] pos obtain s' where s':
    "recv_all sched (drop recvd q) (got @ take recvd q) (Suc n - recvd)
      = RecvOk ((got @ take recvd q) @ take (Suc n - recvd) (drop recvd q))
          (drop (Suc n - recvd) (drop recvd q)) s'"
    "credit sched \<le> credit s' + (Suc n - recvd)" by auto
  have "take recvd q @ take (Suc n - recvd) (drop recvd q) = take (Suc n) q"
    using le by (simp add: take_add [symmetric])
  moreover have "recv_all (Moved m # sched) q got (Suc n) =
      recv_all sched (drop recvd q) (got @ take recvd q) (Suc n - recvd)"
    using pos by (simp only: recv_all.simps Let_def recvd_def [symmetric]) simp
  ultimately show ?case using s' pos m le by auto
qed auto

lemma net_send_json_ok:
  assumes "length json < 4294967296" and "length (frame json) \<le> credit sched"
  shows "\<exists>sched'. net_send_json sched json = SendOk (frame json) sched'"
proof -
  have "length (be32 (length json)) \<le> credit sched" using assms(2) by (simp add: frame_def)
  from send_all_ok [OF this, of "[]"] obtain s1 where
    s1: "send_all sched [] (be32 (length json)) = SendOk (be32 (length json)) s1"
    and c1: "credit sched \<le> credit s1 + 4" by auto
  have "length json \<le> credit s1" using assms(2) c1 by (simp add: frame_def)
  from send_all_ok [OF this, of "be32 (length json)"] obtain s2 where
    "send_all s1 (be32 (length json)) json = SendOk (frame json) s2"
    by (auto simp: frame_def)
  with s1 assms(1) show ?thesis by (simp add: net_send_json_def)
qed

section \<open>The contract of a framed channel\<close>

text \<open>\<open>recv_list recv n s q\<close>: receive \<open>n\<close> messages one after the other.\<close>

fun recv_list :: "('s \<Rightarrow> 'b list \<Rightarrow> ('m \<times> 'b list \<times> 's) option) \<Rightarrow> nat \<Rightarrow> 's \<Rightarrow> 'b list
    \<Rightarrow> ('m list \<times> 'b list \<times> 's) option" where
  "recv_list recv 0 s q = Some ([], q, s)"
| "recv_list recv (Suc n) s q =
     (case recv s q of
        None \<Rightarrow> None
      | Some (m, q', s') \<Rightarrow>
          (case recv_list recv n s' q' of
             None \<Rightarrow> None
           | Some (ms, q'', s'') \<Rightarrow> Some (m # ms, q'', s'')))"

locale framing =
  fixes enc :: "'m \<Rightarrow> 'b list"
    and recv :: "'s \<Rightarrow> 'b list \<Rightarrow> ('m \<times> 'b list \<times> 's) option"
    and budget :: "'s \<Rightarrow> nat"
    and ok :: "'m \<Rightarrow> bool"
  assumes recv_enc: "ok m \<Longrightarrow> length (enc m) \<le> budget s \<Longrightarrow>
    \<exists>s'. recv s (enc m @ r) = Some (m, r, s') \<and> budget s \<le> budget s' + length (enc m)"
begin

lemma recv_sequence:
  "list_all ok ms \<Longrightarrow> length (concat (map enc ms)) \<le> budget s \<Longrightarrow>
    \<exists>s'. recv_list recv (length ms) s (concat (map enc ms) @ r) = Some (ms, r, s')"
proof (induction ms arbitrary: s)
  case Nil
  then show ?case by simp
next
  case (Cons m ms)
  from Cons.prems recv_enc [of m s "concat (map enc ms) @ r"] obtain s' where
    s': "recv s (enc m @ concat (map enc ms) @ r) = Some (m, concat (map enc ms) @ r, s')"
    and b: "budget s \<le> budget s' + length (enc m)" by auto
  from Cons.prems b have "length (concat (map enc ms)) \<le> budget s'" by simp
  with Cons.IH Cons.prems s' show ?case by fastforce
qed

end

definition net_recv_opt :: "(nat \<Rightarrow> bool) \<Rightarrow> io_res list \<Rightarrow> string
    \<Rightarrow> (string \<times> string \<times> io_res list) option" where
  "net_recv_opt mem sched q =
     (case net_recv_json mem sched q of NetOk m q' s' \<Rightarrow> Some (m, q', s') | _ \<Rightarrow> None)"

definition sendable :: "(nat \<Rightarrow> bool) \<Rightarrow> string \<Rightarrow> bool" where
  "sendable mem m \<longleftrightarrow> is_cstring m \<and> length m < 4294967295 \<and> mem (length m + 1)"

lemma net_recv_json_frame:
  assumes "sendable mem m" and "length (frame m) \<le> credit sched"
  shows "\<exists>sched'. net_recv_json mem sched (frame m @ r) = NetOk m r sched' \<and>
    credit sched \<le> credit sched' + length (frame m)"
proof -
  have m: "length m < 4294967295" "mem (length m + 1)" "is_cstring m"
    using assms(1) by (auto simp: sendable_def)
  have "4 \<le> credit sched" "4 \<le> length (frame m @ r)"
    using assms(2) by (simp_all add: frame_def)
  from recv_all_ok [OF this, of "[]"] obtain s1 where
    s1: "recv_all sched (frame m @ r) [] 4 = RecvOk (be32 (length m)) (m @ r) s1"
    and c1: "credit sched \<le> credit s1 + 4" by (auto simp: frame_def)
  have "length m \<le> credit s1" using assms(2) c1 by (simp add: frame_def)
  from recv_all_ok [OF this, of "m @ r" "[]"] obtain s2 where
    s2: "recv_all s1 (m @ r) [] (length m) = RecvOk m r s2"
    and c2: "credit s1 \<le> credit s2 + length m" by auto
  have "net_recv_json mem sched (frame m @ r) = NetOk m r s2"
    using s1 s2 m by (simp add: net_recv_json_def be32_roundtrip Let_def)
  with c1 c2 show ?thesis by (auto simp: frame_def)
qed

interpretation net: framing frame "net_recv_opt mem" credit "sendable mem" for mem
proof unfold_locales
  fix m s r
  assume "sendable mem m" and "length (frame m) \<le> credit s"
  from net_recv_json_frame [OF this, of r]
  show "\<exists>s'. net_recv_opt mem s (frame m @ r) = Some (m, r, s') \<and>
      credit s \<le> credit s' + length (frame m)"
    by (auto simp: net_recv_opt_def)
qed

end
