(* ===== verification/SS_Text.thy ===== *)
theory SS_Text
  imports C_Lib
begin

text \<open>
  The text routines of the storage server (\<^verbatim>\<open>ss/ss_main.c\<close>, second half): file name
  validation, splitting a document into sentences and a sentence into words, joining
  them again, and counting words. Buffers are assumed to be allocated.

  The lemmas give the shape of what splitting produces (\<open>is_sentence\<close>, \<open>sentences_ok\<close>,
  \<open>is_word\<close>), the round trips of joining and splitting, and that a document keeps every
  non-blank character in order.
\<close>

section \<open>Definitions\<close>

definition is_blank :: "char \<Rightarrow> bool" where
  "is_blank c \<longleftrightarrow> (of_char c :: nat) \<le> 32"

definition is_sentence_delim_char :: "char \<Rightarrow> bool" where
  "is_sentence_delim_char c \<longleftrightarrow> c = CHR ''.'' \<or> c = CHR ''!'' \<or> c = CHR ''?''"

fun valid_filename_loop :: "bool \<Rightarrow> string \<Rightarrow> bool" where
  "valid_filename_loop first [] = True"
| "valid_filename_loop first (c # p) =
     (if c = CHR ''.'' \<and> (first \<or> prefix ''.'' p) then False
      else if c = CHR ''/'' \<or> c = BACKSLASH then False
      else if (of_char c :: nat) < 32 \<or> 126 < (of_char c :: nat) then False
      else valid_filename_loop False p)"

definition valid_filename :: "string \<Rightarrow> bool" where
  "valid_filename name \<longleftrightarrow> name \<noteq> [] \<and> valid_filename_loop True name"

definition trim_spaces :: "string \<Rightarrow> string" where
  "trim_spaces s = dropWhile is_blank (rev (dropWhile is_blank (rev s)))"

function split_words :: "string \<Rightarrow> string list" where
  "split_words p =
     (let start = dropWhile is_blank p in
      if start = [] then []
      else takeWhile (\<lambda>c. \<not> is_blank c) start
             # split_words (dropWhile (\<lambda>c. \<not> is_blank c) start))"
  by pat_completeness auto
termination
proof (relation "measure length")
  fix p x :: string
  assume x: "x = dropWhile is_blank p" "x \<noteq> []"
  from x(2) obtain c cs where c: "x = c # cs" by (meson list.exhaust)
  moreover have "\<not> is_blank c" using x c by (metis hd_dropWhile list.sel(1))
  ultimately have "length (dropWhile (\<lambda>c. \<not> is_blank c) x) < length x"
    by (simp add: le_imp_less_Suc length_dropWhile_le)
  also have "length x \<le> length p" using x by (simp add: length_dropWhile_le)
  finally show "(dropWhile (\<lambda>c. \<not> is_blank c) x, p) \<in> measure length" by simp
qed simp

declare split_words.simps [simp del]

definition push_nonempty :: "string list \<Rightarrow> string \<Rightarrow> string list" where
  "push_nonempty out buffer =
     (let t = trim_spaces buffer in if t \<noteq> [] then out @ [t] else out)"

fun split_sentences_loop :: "string list \<Rightarrow> string \<Rightarrow> string \<Rightarrow> string list" where
  "split_sentences_loop out buffer [] =
     (if buffer \<noteq> [] then push_nonempty out buffer else out)"
| "split_sentences_loop out buffer (c # p) =
     (let c = (if c = NEWLINE \<or> c = RETURN then SPACE else c); buffer = buffer @ [c] in
      if c = CHR ''.'' \<or> c = CHR ''!'' \<or> c = CHR ''?''
      then split_sentences_loop (push_nonempty out buffer) [] p
      else split_sentences_loop out buffer p)"

definition split_sentences :: "string \<Rightarrow> string list" where
  "split_sentences txt = split_sentences_loop [] [] txt"

fun join_words :: "string list \<Rightarrow> string" where
  "join_words [] = []"
| "join_words [w] = w"
| "join_words (w # ws) = w @ SPACE # join_words ws"

fun join_sentences :: "string list \<Rightarrow> string" where
  "join_sentences [] = []"
| "join_sentences [s] = s"
| "join_sentences (s # ss) = s @ NEWLINE # join_sentences ss"

fun count_words_loop :: "bool \<Rightarrow> nat \<Rightarrow> string \<Rightarrow> nat" where
  "count_words_loop in_word cnt [] = cnt"
| "count_words_loop in_word cnt (c # p) =
     (if is_blank c then count_words_loop False cnt p
      else if \<not> in_word then count_words_loop True (cnt + 1) p
      else count_words_loop True cnt p)"

definition count_words_in_text :: "string \<Rightarrow> nat" where
  "count_words_in_text txt = count_words_loop False 0 txt"

section \<open>Names\<close>

lemma valid_filename_loop_chars:
  "valid_filename_loop b s \<Longrightarrow> c \<in> set s \<Longrightarrow>
    c \<noteq> CHR ''/'' \<and> c \<noteq> BACKSLASH \<and> 32 \<le> (of_char c :: nat) \<and> (of_char c :: nat) \<le> 126"
  by (induction b s rule: valid_filename_loop.induct) (auto split: if_splits)

lemma valid_filename_loop_dots:
  "valid_filename_loop b s \<Longrightarrow> \<not> sublist ''..'' s"
  by (induction b s rule: valid_filename_loop.induct)
    (auto split: if_splits simp: sublist_Cons_right)

lemma valid_filename_chars:
  assumes "valid_filename name"
  shows "CHR ''/'' \<notin> set name" and "NUL \<notin> set name" and "NEWLINE \<notin> set name"
    and "\<not> sublist ''..'' name" and "name \<noteq> []" and "hd name \<noteq> CHR ''.''"
proof -
  have v: "valid_filename_loop True name" and ne: "name \<noteq> []"
    using assms by (auto simp: valid_filename_def)
  show "CHR ''/'' \<notin> set name" "NUL \<notin> set name" "NEWLINE \<notin> set name"
    using valid_filename_loop_chars [OF v] by fastforce+
  show "\<not> sublist ''..'' name" by (rule valid_filename_loop_dots [OF v])
  show "name \<noteq> []" by (rule ne)
  show "hd name \<noteq> CHR ''.''" using v ne by (cases name) (auto split: if_splits)
qed

section \<open>Words\<close>

definition is_word :: "string \<Rightarrow> bool" where
  "is_word w \<longleftrightarrow> w \<noteq> [] \<and> (\<forall>c \<in> set w. \<not> is_blank c)"

lemma split_words_Nil [simp]: "split_words [] = []"
  by (simp add: split_words.simps)

lemma split_words_blank: "is_blank c \<Longrightarrow> split_words (c # p) = split_words p"
  by (subst (1 2) split_words.simps) simp

lemma split_words_all_blank: "\<forall>c \<in> set p. is_blank c \<Longrightarrow> split_words p = []"
  by (induction p) (simp_all add: split_words_blank)

lemma split_words_word:
  assumes "is_word w" and "p = [] \<or> is_blank (hd p)"
  shows "split_words (w @ p) = w # split_words p"
proof -
  obtain c cs where w: "w = c # cs" "\<not> is_blank c"
    using assms(1) by (cases w) (auto simp: is_word_def)
  have "dropWhile is_blank (w @ p) = w @ p" using w by simp
  moreover have "takeWhile (\<lambda>c. \<not> is_blank c) (w @ p) = w"
    using assms by (cases p) (auto simp: is_word_def takeWhile_append)
  moreover have "dropWhile (\<lambda>c. \<not> is_blank c) (w @ p) = p"
    using assms by (cases p) (auto simp: is_word_def dropWhile_append)
  ultimately show ?thesis using w by (subst split_words.simps) simp
qed

lemma split_words_is_word: "w \<in> set (split_words p) \<Longrightarrow> is_word w"
proof (induction p rule: split_words.induct)
  case (1 p)
  define start where "start = dropWhile is_blank p"
  show ?case
  proof (cases "start = []")
    case True
    with "1.prems" show ?thesis by (subst (asm) split_words.simps) (simp add: start_def)
  next
    case False
    then have "\<not> is_blank (hd start)" unfolding start_def by (metis hd_dropWhile)
    with False have "is_word (takeWhile (\<lambda>c. \<not> is_blank c) start)"
      by (cases start) (auto simp: is_word_def dest: set_takeWhileD)
    moreover have "split_words p =
        takeWhile (\<lambda>c. \<not> is_blank c) start # split_words (dropWhile (\<lambda>c. \<not> is_blank c) start)"
      using False by (subst split_words.simps) (simp add: start_def Let_def)
    ultimately show ?thesis using "1.IH" [OF start_def False] "1.prems" by auto
  qed
qed

lemma join_words_Cons: "ws \<noteq> [] \<Longrightarrow> join_words (w # ws) = w @ SPACE # join_words ws"
  by (cases ws) auto

lemma split_join_words: "\<forall>w \<in> set ws. is_word w \<Longrightarrow> split_words (join_words ws) = ws"
proof (induction ws)
  case Nil
  then show ?case by simp
next
  case (Cons w ws)
  show ?case
  proof (cases "ws = []")
    case True
    then show ?thesis using split_words_word [of w "[]"] Cons.prems by simp
  next
    case False
    have "split_words (w @ SPACE # join_words ws) = w # split_words (SPACE # join_words ws)"
      by (rule split_words_word) (use Cons.prems in \<open>auto simp: is_blank_def\<close>)
    with False Cons show ?thesis by (simp add: join_words_Cons split_words_blank is_blank_def)
  qed
qed

lemma split_words_cases:
  obtains (Nil) "\<forall>c \<in> set p. is_blank c" "split_words p = []"
  | (Cons) bs w r where "p = bs @ w @ r" "\<forall>c \<in> set bs. is_blank c" "is_word w"
      "r = [] \<or> is_blank (hd r)" "split_words p = w # split_words r"
proof -
  define start where "start = dropWhile is_blank p"
  show ?thesis
  proof (cases "start = []")
    case True
    then have b: "\<forall>c \<in> set p. is_blank c" by (simp add: start_def)
    with split_words_all_blank Nil show ?thesis by blast
  next
    case False
    define w where "w = takeWhile (\<lambda>c. \<not> is_blank c) start"
    define r where "r = dropWhile (\<lambda>c. \<not> is_blank c) start"
    have "p = takeWhile is_blank p @ w @ r" by (simp add: w_def r_def start_def)
    moreover have "\<forall>c \<in> set (takeWhile is_blank p). is_blank c" by (auto dest: set_takeWhileD)
    moreover have sw: "split_words p = w # split_words r"
      using False by (subst split_words.simps) (simp add: start_def w_def r_def Let_def)
    moreover have "is_word w" using sw split_words_is_word by (metis list.set_intros(1))
    moreover have "r = [] \<or> is_blank (hd r)" unfolding r_def by (metis hd_dropWhile)
    ultimately show ?thesis using Cons by blast
  qed
qed

lemma count_words_loop_skip:
  "\<forall>c \<in> set w. \<not> is_blank c \<Longrightarrow> count_words_loop True n (w @ r) = count_words_loop True n r"
  by (induction w) auto

lemma count_words_loop_blanks:
  "\<forall>c \<in> set bs. is_blank c \<Longrightarrow> count_words_loop False n (bs @ r) = count_words_loop False n r"
  by (induction bs) auto

lemma count_words_loop_eq: "count_words_loop False n p = n + length (split_words p)"
proof (induction p arbitrary: n rule: length_induct)
  case (1 p)
  show ?case
  proof (cases p rule: split_words_cases)
    case Nil
    then show ?thesis using count_words_loop_blanks [of p n "[]"] by simp
  next
    case (Cons bs w r)
    obtain c cs where w: "w = c # cs" using Cons(3) by (cases w) (auto simp: is_word_def)
    have "count_words_loop False n p = count_words_loop False n (w @ r)"
      using Cons by (simp add: count_words_loop_blanks)
    also have "\<dots> = count_words_loop True (n + 1) r"
      using Cons(3) w by (auto simp: is_word_def count_words_loop_skip)
    also have "\<dots> = count_words_loop False (n + 1) r"
      using Cons(4) by (cases r) auto
    also have "\<dots> = n + 1 + length (split_words r)"
      using "1.IH" Cons w by auto
    finally show ?thesis using Cons by simp
  qed
qed

lemma count_words_split: "count_words_in_text p = length (split_words p)"
  by (simp add: count_words_in_text_def count_words_loop_eq)

section \<open>Sentences\<close>

text \<open>
  \<open>is_sentence s\<close>: a trimmed, non-empty piece of text without line breaks in which a
  delimiter can only be the last character. \<open>sentences_ok\<close>: a list of sentences in which
  all but the last are closed by a delimiter, the shape in which a document is read back.
\<close>

definition is_sentence :: "string \<Rightarrow> bool" where
  "is_sentence s \<longleftrightarrow> s \<noteq> [] \<and> trim_spaces s = s \<and>
     (\<forall>c \<in> set s. c \<noteq> NEWLINE \<and> c \<noteq> RETURN) \<and>
     (\<forall>c \<in> set (butlast s). \<not> is_sentence_delim_char c)"

definition closed_sentence :: "string \<Rightarrow> bool" where
  "closed_sentence s \<longleftrightarrow> s \<noteq> [] \<and> is_sentence_delim_char (last s)"

definition sentences_ok :: "string list \<Rightarrow> bool" where
  "sentences_ok ss \<longleftrightarrow> (\<forall>s \<in> set ss. is_sentence s) \<and> (\<forall>s \<in> set (butlast ss). closed_sentence s)"

definition norm_char :: "char \<Rightarrow> char" where
  "norm_char c = (if c = NEWLINE \<or> c = RETURN then SPACE else c)"

lemma delim_not_blank: "is_sentence_delim_char c \<Longrightarrow> \<not> is_blank c"
  by (auto simp: is_sentence_delim_char_def is_blank_def)

lemma norm_char_delim [simp]: "is_sentence_delim_char (norm_char c) = is_sentence_delim_char c"
  by (auto simp: is_sentence_delim_char_def norm_char_def)

lemma norm_char_blank [simp]: "is_blank (norm_char c) = is_blank c"
  by (auto simp: is_blank_def norm_char_def)

lemma split_loop_Cons:
  "split_sentences_loop out b (c # p) =
     (if is_sentence_delim_char c then split_sentences_loop (push_nonempty out (b @ [norm_char c])) [] p
      else split_sentences_loop out (b @ [norm_char c]) p)"
  by (simp add: Let_def is_sentence_delim_char_def norm_char_def)

declare split_sentences_loop.simps(2) [simp del]

lemma push_nonempty_append: "push_nonempty (out @ xs) b = out @ push_nonempty xs b"
  by (simp add: push_nonempty_def Let_def)

lemma split_loop_out:
  "split_sentences_loop out b p = out @ split_sentences_loop [] b p"
proof (induction p arbitrary: out b)
  case Nil
  then show ?case using push_nonempty_append [of out "[]" b] by simp
next
  case (Cons c p)
  show ?case
  proof (cases "is_sentence_delim_char c")
    case True
    have "split_sentences_loop (push_nonempty out (b @ [norm_char c])) [] p
        = push_nonempty out (b @ [norm_char c]) @ split_sentences_loop [] [] p"
      by (rule Cons)
    also have "\<dots> = out @ push_nonempty [] (b @ [norm_char c]) @ split_sentences_loop [] [] p"
      using push_nonempty_append [of out "[]"] by simp
    also have "\<dots> = out @ split_sentences_loop (push_nonempty [] (b @ [norm_char c])) [] p"
      by (simp only: Cons [of "push_nonempty [] (b @ [norm_char c])" "[]"])
    finally show ?thesis using True by (simp only: split_loop_Cons if_True)
  next
    case False
    then show ?thesis by (simp only: split_loop_Cons if_False Cons [of out "b @ [norm_char c]"])
  qed
qed

lemma split_loop_open:
  "\<forall>c \<in> set s. \<not> is_sentence_delim_char c \<Longrightarrow>
    split_sentences_loop out b (s @ p) = split_sentences_loop out (b @ map norm_char s) p"
proof (induction s arbitrary: b)
  case (Cons c s)
  then show ?case by (simp only: append_Cons split_loop_Cons if_False) simp
qed simp

lemma split_loop_delim:
  "is_sentence_delim_char d \<Longrightarrow> split_sentences_loop out b (d # p) =
    push_nonempty out (b @ [d]) @ split_sentences_loop [] [] p"
  by (simp only: split_loop_Cons split_loop_out [of "push_nonempty out (b @ [norm_char d])"] if_True)
    (auto simp: norm_char_def is_sentence_delim_char_def)

lemma trim_snoc: "\<not> is_blank d \<Longrightarrow> trim_spaces (b @ [d]) = dropWhile is_blank b @ [d]"
  by (auto simp: trim_spaces_def dropWhile_append)

lemma trim_Cons_blank: "is_blank c \<Longrightarrow> trim_spaces s = s \<Longrightarrow> trim_spaces (c # s) = s"
proof -
  assume c: "is_blank c" and s: "trim_spaces s = s"
  show "trim_spaces (c # s) = s"
  proof (cases s rule: rev_cases)
    case Nil
    with c show ?thesis by (simp add: trim_spaces_def)
  next
    case (snoc t d)
    have "\<not> is_blank d"
    proof
      assume "is_blank d"
      then have "length (trim_spaces s) \<le> length t"
        using snoc by (simp add: trim_spaces_def) (metis length_dropWhile_le length_rev le_trans)
      with s snoc show False by simp
    qed
    with s snoc c trim_snoc [of d t] trim_snoc [of d "c # t"] show ?thesis by simp
  qed
qed

lemma push_nonempty_sentence:
  "is_sentence s \<Longrightarrow> push_nonempty out s = out @ [s]"
  "is_sentence s \<Longrightarrow> is_blank c \<Longrightarrow> push_nonempty out (c # s) = out @ [s]"
  by (simp_all add: push_nonempty_def Let_def is_sentence_def trim_Cons_blank)

lemma map_norm_id: "\<forall>c \<in> set s. c \<noteq> NEWLINE \<and> c \<noteq> RETURN \<Longrightarrow> map norm_char s = s"
  by (induction s) (auto simp: norm_char_def)

lemma split_loop_closed:
  assumes "is_sentence s" and "closed_sentence s" and "b = [] \<or> b = [SPACE]"
  shows "split_sentences_loop [] b (s @ p) = s # split_sentences_loop [] [] p"
proof -
  obtain t d where s: "s = t @ [d]"
    using assms(2) by (cases s rule: rev_cases) (auto simp: closed_sentence_def)
  have d: "is_sentence_delim_char d" and t: "\<forall>c \<in> set t. \<not> is_sentence_delim_char c"
    and n: "map norm_char t = t"
    using assms s by (auto simp: closed_sentence_def is_sentence_def map_norm_id)
  have "split_sentences_loop [] b (t @ d # p) = push_nonempty [] ((b @ t) @ [d]) @ split_sentences_loop [] [] p"
    using split_loop_open [OF t] n split_loop_delim [OF d] by simp
  moreover have "push_nonempty [] ((b @ t) @ [d]) = [s]"
    using assms(1,3) s push_nonempty_sentence [of s] by (auto simp: is_blank_def)
  ultimately show ?thesis using s by simp
qed

lemma split_loop_last:
  assumes "is_sentence s" and "b = [] \<or> b = [SPACE]"
  shows "split_sentences_loop [] b s = [s]"
proof (cases "closed_sentence s")
  case True
  then show ?thesis using split_loop_closed [OF assms(1) True assms(2), of "[]"] by simp
next
  case False
  have "\<forall>c \<in> set s. \<not> is_sentence_delim_char c"
    using assms(1) False by (cases s rule: rev_cases) (auto simp: is_sentence_def closed_sentence_def)
  moreover have "map norm_char s = s" using assms(1) by (simp add: is_sentence_def map_norm_id)
  ultimately have "split_sentences_loop [] b (s @ []) = split_sentences_loop [] (b @ s) []"
    by (simp only: split_loop_open)
  moreover have "push_nonempty [] (b @ s) = [s]" "s \<noteq> []"
    using assms push_nonempty_sentence [of s] by (auto simp: is_blank_def is_sentence_def)
  ultimately show ?thesis by simp
qed

lemma join_sentences_Cons: "ss \<noteq> [] \<Longrightarrow> join_sentences (s # ss) = s @ NEWLINE # join_sentences ss"
  by (cases ss) auto

lemma split_loop_newline:
  "split_sentences_loop [] [] (NEWLINE # p) = split_sentences_loop [] [SPACE] p"
  by (simp add: split_loop_Cons norm_char_def is_sentence_delim_char_def)

lemma split_join_sentences_loop:
  "sentences_ok ss \<Longrightarrow> b = [] \<or> b = [SPACE] \<Longrightarrow> ss \<noteq> [] \<Longrightarrow>
    split_sentences_loop [] b (join_sentences ss) = ss"
proof (induction ss arbitrary: b)
  case Nil
  then show ?case by simp
next
  case (Cons s ss)
  show ?case
  proof (cases "ss = []")
    case True
    then show ?thesis using Cons.prems split_loop_last by (simp add: sentences_ok_def)
  next
    case False
    have s: "is_sentence s" "closed_sentence s" and ok: "sentences_ok ss"
      using Cons.prems False by (auto simp: sentences_ok_def)
    have "split_sentences_loop [] b (s @ NEWLINE # join_sentences ss)
        = s # split_sentences_loop [] [SPACE] (join_sentences ss)"
      using split_loop_closed [OF s Cons.prems(2)] split_loop_newline by simp
    with Cons.IH [OF ok _ False] False show ?thesis by (simp add: join_sentences_Cons)
  qed
qed

lemma split_join_sentences: "sentences_ok ss \<Longrightarrow> split_sentences (join_sentences ss) = ss"
  by (cases "ss = []") (simp_all add: split_sentences_def split_join_sentences_loop)

section \<open>What splitting produces\<close>

lemma set_trim: "set (trim_spaces s) \<subseteq> set s"
  by (auto simp: trim_spaces_def dest!: set_dropWhileD)

lemma trim_cases:
  obtains (blank) "\<forall>c \<in> set s. is_blank c" "trim_spaces s = []"
  | (core) bs t d cs where "s = bs @ t @ d # cs" "\<forall>c \<in> set bs. is_blank c" "\<not> is_blank d"
      "\<forall>c \<in> set cs. is_blank c" "t = [] \<or> \<not> is_blank (hd t)" "trim_spaces s = t @ [d]"
proof -
  define u where "u = rev (dropWhile is_blank (rev s))"
  have s: "s = u @ rev (takeWhile is_blank (rev s))"
    unfolding u_def by (metis rev_append rev_rev_ident takeWhile_dropWhile_id)
  have tail: "\<forall>c \<in> set (rev (takeWhile is_blank (rev s))). is_blank c"
    by (auto dest: set_takeWhileD)
  show ?thesis
  proof (cases u rule: rev_cases)
    case Nil
    then have "\<forall>c \<in> set s. is_blank c" by (simp add: u_def)
    moreover have "trim_spaces s = []" using Nil by (simp add: trim_spaces_def flip: u_def)
    ultimately show ?thesis by (rule blank)
  next
    case (snoc v d)
    have d: "\<not> is_blank d"
      using hd_dropWhile [of is_blank "rev s"] snoc unfolding u_def
      by (metis list.sel(1) rev.simps(1) rev_eq_Cons_iff rev_is_Nil_conv rev_rev_ident snoc_eq_iff_butlast)
    have t: "trim_spaces s = dropWhile is_blank v @ [d]"
      using snoc d by (simp add: trim_spaces_def dropWhile_append flip: u_def)
    have h: "dropWhile is_blank v = [] \<or> \<not> is_blank (hd (dropWhile is_blank v))"
      by (metis hd_dropWhile)
    have b: "\<forall>c \<in> set (takeWhile is_blank v). is_blank c" by (auto dest: set_takeWhileD)
    have "s = takeWhile is_blank v @ dropWhile is_blank v @ d # rev (takeWhile is_blank (rev s))"
      using s snoc by (metis append.assoc append_Cons append_Nil takeWhile_dropWhile_id)
    from core [OF this b d tail h t] show ?thesis .
  qed
qed

lemma trim_idem: "trim_spaces (trim_spaces s) = trim_spaces s"
proof (cases s rule: trim_cases)
  case blank
  have "trim_spaces [] = []" by (simp add: trim_spaces_def)
  with blank show ?thesis by simp
next
  case (core bs t d cs)
  then have "dropWhile is_blank t = t" by (cases t) auto
  with core show ?thesis by (simp add: trim_snoc)
qed

definition nonblank :: "string \<Rightarrow> string" where
  "nonblank s = filter (\<lambda>c. \<not> is_blank c) s"

lemma nonblank_Nil [simp]: "nonblank [] = []"
  by (simp add: nonblank_def)

lemma nonblank_append [simp]: "nonblank (a @ b) = nonblank a @ nonblank b"
  by (simp add: nonblank_def)

lemma nonblank_blanks: "\<forall>c \<in> set bs. is_blank c \<Longrightarrow> nonblank bs = []"
  by (simp add: nonblank_def filter_empty_conv)

lemma nonblank_trim: "nonblank (trim_spaces s) = nonblank s"
proof (cases s rule: trim_cases)
  case blank
  then show ?thesis using nonblank_blanks [of s] by (simp add: nonblank_def)
next
  case (core bs t d cs)
  have "nonblank (d # cs) = [d]" using core(3,4) nonblank_blanks [of cs] by (simp add: nonblank_def)
  with core nonblank_blanks [of bs] show ?thesis by (simp add: nonblank_def)
qed

lemma nonblank_push: "concat (map nonblank (push_nonempty out b)) = concat (map nonblank out) @ nonblank b"
  using nonblank_trim [of b] by (auto simp: push_nonempty_def Let_def nonblank_def)

lemma nonblank_norm: "nonblank [norm_char c] = nonblank [c]"
  by (auto simp: nonblank_def norm_char_def is_blank_def)

lemma split_loop_nonblank:
  "concat (map nonblank (split_sentences_loop out b p))
    = concat (map nonblank out) @ nonblank b @ nonblank p"
proof (induction p arbitrary: out b)
  case Nil
  then show ?case using nonblank_push [of out b] by simp
next
  case (Cons c p)
  have c: "nonblank (c # p) = nonblank [c] @ nonblank p"
    using nonblank_append [of "[c]" p] by simp
  show ?case
    by (cases "is_sentence_delim_char c")
      (simp_all add: split_loop_Cons Cons nonblank_push nonblank_norm c)
qed

lemma nonblank_join: "nonblank (join_sentences ss) = concat (map nonblank ss)"
proof (induction ss rule: join_sentences.induct)
  case (3 s v va)
  have "nonblank (NEWLINE # x) = nonblank x" for x by (simp add: nonblank_def is_blank_def)
  with "3" show ?case by simp
qed (simp_all add: nonblank_def)

lemma split_sentences_nonblank: "nonblank (join_sentences (split_sentences p)) = nonblank p"
  using split_loop_nonblank [of "[]" "[]" p] by (simp add: nonblank_join split_sentences_def)

lemma sentences_ok_Cons:
  "sentences_ok (s # ss) \<longleftrightarrow> is_sentence s \<and> (ss \<noteq> [] \<longrightarrow> closed_sentence s) \<and> sentences_ok ss"
  by (auto simp: sentences_ok_def)

lemma push_nonempty_open:
  assumes "\<forall>c \<in> set b. \<not> is_sentence_delim_char c \<and> c \<noteq> NEWLINE \<and> c \<noteq> RETURN"
  shows "sentences_ok (push_nonempty [] b)"
proof -
  have "c \<in> set b" if "c \<in> set (butlast (trim_spaces b))" for c
    using that set_trim [of b] by (auto dest: in_set_butlastD)
  moreover have "c \<in> set b" if "c \<in> set (trim_spaces b)" for c
    using that set_trim [of b] by blast
  ultimately show ?thesis
    using assms by (simp add: push_nonempty_def Let_def sentences_ok_def is_sentence_def trim_idem)
qed

lemma push_nonempty_closed:
  assumes "\<forall>c \<in> set b. \<not> is_sentence_delim_char c \<and> c \<noteq> NEWLINE \<and> c \<noteq> RETURN"
    and "is_sentence_delim_char d"
  shows "\<exists>s. push_nonempty [] (b @ [d]) = [s] \<and> is_sentence s \<and> closed_sentence s"
proof -
  have t: "trim_spaces (b @ [d]) = dropWhile is_blank b @ [d]"
    using assms(2) by (simp add: trim_snoc delim_not_blank)
  have d: "d \<noteq> NEWLINE" "d \<noteq> RETURN" using assms(2) by (auto simp: is_sentence_delim_char_def)
  have "is_sentence (trim_spaces (b @ [d]))" "closed_sentence (trim_spaces (b @ [d]))"
    using assms d trim_idem [of "b @ [d]"]
    by (auto simp: t is_sentence_def closed_sentence_def dest: set_dropWhileD)
  then show ?thesis by (auto simp: push_nonempty_def Let_def t)
qed

lemma split_loop_ok:
  "\<forall>c \<in> set b. \<not> is_sentence_delim_char c \<and> c \<noteq> NEWLINE \<and> c \<noteq> RETURN \<Longrightarrow>
    sentences_ok (split_sentences_loop [] b p)"
proof (induction p arbitrary: b)
  case Nil
  then show ?case using push_nonempty_open by (simp add: sentences_ok_def)
next
  case (Cons c p)
  have n: "norm_char c \<noteq> NEWLINE" "norm_char c \<noteq> RETURN" by (auto simp: norm_char_def)
  show ?case
  proof (cases "is_sentence_delim_char c")
    case True
    then obtain s where "push_nonempty [] (b @ [c]) = [s]" "is_sentence s" "closed_sentence s"
      using push_nonempty_closed [OF Cons.prems] by blast
    moreover have "sentences_ok (split_sentences_loop [] [] p)" by (rule Cons.IH) simp
    ultimately show ?thesis using True by (simp add: split_loop_delim sentences_ok_Cons)
  next
    case False
    then show ?thesis
      using Cons.IH [of "b @ [norm_char c]"] Cons.prems n by (simp add: split_loop_Cons)
  qed
qed

lemma split_sentences_ok: "sentences_ok (split_sentences p)"
  unfolding split_sentences_def by (rule split_loop_ok) simp

lemma split_join_split: "split_sentences (join_sentences (split_sentences p)) = split_sentences p"
  by (rule split_join_sentences [OF split_sentences_ok])

end
