(* ===== verification/Common_Props.thy ===== *)
theory Common_Props
  imports Common_Json Common_Net SS_Text
begin

text \<open>
  What the shared layers promise to the servers: messages survive quoting and framing,
  the text of a document survives being split and joined, and a valid file name stays
  inside its directory.
\<close>

text \<open>C33: Reading back a message. In a message built from plain keys, with string values quoted by
  \<^verbatim>\<open>json_escape_dup\<close> and integers in decimal, every string is read back unchanged by
  \<^verbatim>\<open>json_get_string\<close> when the buffer has room for it and by \<^verbatim>\<open>json_get_string_alloc\<close> always, and every
  integer by \<^verbatim>\<open>json_get_int\<close>, whatever quotes, backslashes or look-alike keys the other values hold.\<close>

theorem json_message_roundtrip:
  assumes "json_ok kvs" and "plain_key k"
  shows "(\<forall>s. map_of kvs k = Some (JStr s) \<longrightarrow>
      json_escape_dup s = Some (escape s) \<and>
      json_get_string (json_object kvs) k n = (if length s < n then Some s else None) \<and>
      json_get_string_alloc (json_object kvs) k = Some s) \<and>
    (\<forall>i. map_of kvs k = Some (JInt i) \<and> LONG_MIN \<le> i \<and> i \<le> LONG_MAX \<longrightarrow>
      json_get_int (json_object kvs) k = Some (int32 i))"
  using json_get_string_object [OF assms] json_get_string_alloc_object [OF assms] json_get_int_object [OF assms]
  by simp

definition demo_message :: "(string \<times> json_val) list" where
  "demo_message = [(''text'', JStr ''say \"file\":\"x\"''), (''file'', JStr ''f''), (''index'', JInt 7)]"

theorem json_message_roundtrip_witness:
  "json_get_string (json_object demo_message) ''file'' 128 = Some ''f'' \<and>
   json_get_string_alloc (json_object demo_message) ''text'' = Some ''say \"file\":\"x\"'' \<and>
   json_get_int (json_object demo_message) ''index'' = Some (int32 7)"
proof -
  have ok: "json_ok demo_message" "plain_key ''file''" "plain_key ''text''" "plain_key ''index''" by code_simp+
  have m: "map_of demo_message ''file'' = Some (JStr ''f'')"
    "map_of demo_message ''text'' = Some (JStr ''say \"file\":\"x\"'')" "map_of demo_message ''index'' = Some (JInt 7)"
    by code_simp+
  show ?thesis
    using json_message_roundtrip [OF ok(1,2), of 128] json_message_roundtrip [OF ok(1,3), of 128]
      json_message_roundtrip [OF ok(1,4), of 128] m by (simp add: LONG_MIN_def LONG_MAX_def)
qed

text \<open>C34: Framing. However the network cuts the byte stream into pieces and however often calls are interrupted,
  as long as bytes keep moving, \<^verbatim>\<open>net_send_json\<close> writes the frame of a message, and receiving as many messages as were sent returns exactly these
  messages in order and leaves what follows them in the stream.\<close>

theorem message_stream:
  assumes "list_all (sendable mem) ms" and "length (concat (map frame ms)) \<le> credit sched"
  shows "(\<forall>m \<in> set ms. \<forall>s. length (frame m) \<le> credit s \<longrightarrow> (\<exists>s'. net_send_json s m = SendOk (frame m) s')) \<and>
    (\<exists>sched'. recv_list (net_recv_opt mem) (length ms) sched (concat (map frame ms) @ r) = Some (ms, r, sched'))"
proof
  have "length m < 4294967296" if "m \<in> set ms" for m
    using assms(1) that by (fastforce simp: list_all_iff sendable_def)
  then show "\<forall>m \<in> set ms. \<forall>s. length (frame m) \<le> credit s \<longrightarrow> (\<exists>s'. net_send_json s m = SendOk (frame m) s')"
    using net_send_json_ok by blast
  show "\<exists>sched'. recv_list (net_recv_opt mem) (length ms) sched (concat (map frame ms) @ r) = Some (ms, r, sched')"
    using assms by (rule net.recv_sequence)
qed

theorem message_stream_witness:
  "\<exists>sched'. recv_list (net_recv_opt (\<lambda>_. True)) 2 (Intr # replicate 12 (Moved 1)) (frame ''ab'' @ frame ''cd'') =
     Some ([''ab'', ''cd''], [], sched')"
proof -
  have "list_all (sendable (\<lambda>_. True)) [''ab'', ''cd'']" by (simp add: sendable_def is_cstring_def)
  moreover have "length (concat (map frame [''ab'', ''cd''])) \<le> credit (Intr # replicate 12 (Moved 1))"
    by (simp add: frame_def numeral_eq_Suc)
  ultimately have "\<exists>sched'. recv_list (net_recv_opt (\<lambda>_. True)) (length [''ab'', ''cd'']) (Intr # replicate 12 (Moved 1))
      (concat (map frame [''ab'', ''cd'']) @ []) = Some ([''ab'', ''cd''], [], sched')"
    by (rule message_stream [THEN conjunct2])
  moreover have "length [''ab'', ''cd''] = 2" "concat (map frame [''ab'', ''cd'']) @ [] = frame ''ab'' @ frame ''cd''" by simp_all
  ultimately show ?thesis by (simp only:)
qed

text \<open>C35: The text of a document. Splitting a text into sentences and joining them again loses nothing but blanks,
  and from then on the sentences are stable: they are trimmed, only the last may lack its
  delimiter, and splitting the stored text gives the same sentences. Within a sentence, splitting gives
  words, joined words split into themselves, and the word count is the number of words.\<close>

theorem document_reparse:
  "split_sentences (join_sentences (split_sentences p)) = split_sentences p \<and>
   sentences_ok (split_sentences p) \<and>
   nonblank (join_sentences (split_sentences p)) = nonblank p \<and>
   split_words (join_words (split_words p)) = split_words p \<and>
   count_words_in_text p = length (split_words p)"
  using split_join_split split_sentences_ok split_sentences_nonblank count_words_split
    split_join_words [of "split_words p"] split_words_is_word by blast

text \<open>File names. A name that \<^verbatim>\<open>valid_filename\<close> accepts has no path separator, no two dots in a row, no leading dot
  and only printable characters, so the files the server derives from it lie in its own directories and
  its lines in the metadata stay single lines.\<close>

theorem filename_confined:
  assumes "valid_filename name"
  shows "name \<noteq> [] \<and> CHR ''/'' \<notin> set name \<and> \<not> sublist ''..'' name \<and> hd name \<noteq> CHR ''.'' \<and>
    (\<forall>c \<in> set name. 32 \<le> (of_char c :: nat) \<and> (of_char c :: nat) \<le> 126)"
  using valid_filename_chars [OF assms] valid_filename_loop_chars [of True name] assms
  by (simp add: valid_filename_def)

theorem filename_confined_witness: "valid_filename ''a.txt'' \<and> CHR ''/'' \<notin> set ''a.txt''"
proof -
  have v: "valid_filename ''a.txt''" by code_simp
  show ?thesis using filename_confined [OF v] v by blast
qed

end
