(* ===== verification/Common_Error.thy ===== *)
theory Common_Error
  imports Prelude
begin

text \<open>
  \<^verbatim>\<open>common/error.h\<close> and \<^verbatim>\<open>common/error.c\<close>: the error codes of the protocol with
  their names and default messages, and the values of \<^verbatim>\<open>errno\<close> the sources set or test.
\<close>

datatype error_code_t =
    ERR_OK | ERR_NOAUTH | ERR_NOTFOUND | ERR_LOCKED | ERR_BADREQ | ERR_CONFLICT
  | ERR_UNAVAILABLE | ERR_INTERNAL | ERR_EXISTS | ERR_PERM | ERR_TIMEOUT

datatype errno =
    ENOENT | EACCES | EEXIST | ENOTDIR | EINVAL | EBUSY | EAGAIN | ENOSPC | ENOMEM
  | ENAMETOOLONG | EMSGSIZE | EOTHER

fun error_code_name :: "error_code_t \<Rightarrow> string" where
  "error_code_name ERR_OK = ''OK''"
| "error_code_name ERR_NOAUTH = ''ERR_NOAUTH''"
| "error_code_name ERR_NOTFOUND = ''ERR_NOTFOUND''"
| "error_code_name ERR_LOCKED = ''ERR_LOCKED''"
| "error_code_name ERR_BADREQ = ''ERR_BADREQ''"
| "error_code_name ERR_CONFLICT = ''ERR_CONFLICT''"
| "error_code_name ERR_UNAVAILABLE = ''ERR_UNAVAILABLE''"
| "error_code_name ERR_INTERNAL = ''ERR_INTERNAL''"
| "error_code_name ERR_EXISTS = ''ERR_EXISTS''"
| "error_code_name ERR_PERM = ''ERR_PERM''"
| "error_code_name ERR_TIMEOUT = ''ERR_TIMEOUT''"

fun error_code_message :: "error_code_t \<Rightarrow> string" where
  "error_code_message ERR_OK = ''success''"
| "error_code_message ERR_NOAUTH = ''authentication or authorization failure''"
| "error_code_message ERR_NOTFOUND = ''resource not found''"
| "error_code_message ERR_LOCKED = ''resource is locked''"
| "error_code_message ERR_BADREQ = ''invalid request''"
| "error_code_message ERR_CONFLICT = ''conflict''"
| "error_code_message ERR_UNAVAILABLE = ''service unavailable''"
| "error_code_message ERR_INTERNAL = ''internal error''"
| "error_code_message ERR_EXISTS = ''resource already exists''"
| "error_code_message ERR_PERM = ''operation not permitted''"
| "error_code_message ERR_TIMEOUT = ''operation timed out''"

text \<open>
  The result of an operation that returns \<^verbatim>\<open>-1\<close> on failure: \<open>Fail (Some e)\<close> when the
  operation sets \<^verbatim>\<open>errno\<close> to \<open>e\<close>, \<open>Fail None\<close> when it returns without setting it.
\<close>

datatype 'a res = Fail "errno option" | Ok 'a

definition errno_of :: "errno \<Rightarrow> errno option \<Rightarrow> errno" where
  "errno_of stale e = (case e of None \<Rightarrow> stale | Some e \<Rightarrow> e)"

text \<open>A reply's code field identifies the error: the names are pairwise different.\<close>

lemma error_code_name_inj: "error_code_name a = error_code_name b \<Longrightarrow> a = b"
  by (cases a; cases b) simp_all

end
