(* ===== verification/Disk.thy ===== *)
theory Disk
  imports C_Lib Common_Error
begin

text \<open>
  The part of the file system the storage server uses. The disk maps paths to file
  contents. \<open>env\<close> collects what the operating system decides during one operation:
  whether memory is granted, whether an existing file can be read, and whether and how
  writing a path fails. \<open>load_text\<close> and \<open>store_text_atomic\<close> are the functions of
  \<^verbatim>\<open>ss/ss_main.c\<close>.

  The locale \<open>text_store\<close> is the contract of a store with atomic replacement; it carries
  the pattern of all document updates of the server, save the old text as undo text and
  then write the new one.
\<close>

type_synonym disk = "path \<Rightarrow> string option"

datatype io_fault = NoFault | OpenFault | WriteFault | RenameFault

record env =
  mem_ok :: "nat \<Rightarrow> bool"
  rd_ok :: "path \<Rightarrow> bool"
  wr_fault :: "path \<Rightarrow> io_fault"
  wr_kept :: "path \<Rightarrow> nat"

definition good_env :: env where
  "good_env = \<lparr>mem_ok = (\<lambda>_. True), rd_ok = (\<lambda>_. True), wr_fault = (\<lambda>_. NoFault), wr_kept = (\<lambda>_. 0)\<rparr>"

definition load_text :: "env \<Rightarrow> disk \<Rightarrow> path \<Rightarrow> string option" where
  "load_text env d p =
     (case d p of
        None \<Rightarrow> None
      | Some bytes \<Rightarrow> if rd_ok env p then Some (cstring bytes) else None)"

definition tmp_path :: "path \<Rightarrow> path" where
  "tmp_path p = buf 512 (p @ ''.tmp'')"

definition store_text_atomic :: "env \<Rightarrow> disk \<Rightarrow> path \<Rightarrow> string \<Rightarrow> disk \<times> bool" where
  "store_text_atomic env d p content =
     (case wr_fault env p of
        OpenFault \<Rightarrow> (d, False)
      | WriteFault \<Rightarrow> (d(tmp_path p := None), False)
      | RenameFault \<Rightarrow> (d(tmp_path p := None), False)
      | NoFault \<Rightarrow> (d(tmp_path p := None, p := Some content), True))"

text \<open>
  \<^verbatim>\<open>fopen(p, "w")\<close> followed by \<^verbatim>\<open>fprintf\<close> and \<^verbatim>\<open>fclose\<close>, whose results the code does not check: when writing fails, \<open>wr_kept\<close>
  characters are in the file, and the caller is not told.
\<close>

definition write_file :: "env \<Rightarrow> disk \<Rightarrow> path \<Rightarrow> string \<Rightarrow> (disk \<times> bool)" where
  "write_file env d p content =
     (case wr_fault env p of
        OpenFault \<Rightarrow> (d, False)
      | WriteFault \<Rightarrow> (d(p := Some (take (wr_kept env p) content)), True)
      | _ \<Rightarrow> (d(p := Some content), True))"

lemma write_file_eq:
  "write_file env d p content =
     (if wr_fault env p = OpenFault then (d, False)
      else (d(p := Some (if wr_fault env p = WriteFault then take (wr_kept env p) content else content)), True))"
  by (simp add: write_file_def split: io_fault.split)

definition unlink :: "disk \<Rightarrow> path \<Rightarrow> disk" where
  "unlink d p = d(p := None)"

section \<open>The contract of the store\<close>

locale text_store =
  fixes load :: "'d \<Rightarrow> path \<Rightarrow> string option"
    and store :: "'d \<Rightarrow> path \<Rightarrow> string \<Rightarrow> 'd \<times> bool"
    and scratch :: "path \<Rightarrow> path"
    and readable :: "path \<Rightarrow> bool"
  assumes store_ok: "store d p c = (d', True) \<Longrightarrow> is_cstring c \<Longrightarrow> readable p \<Longrightarrow> load d' p = Some c"
    and store_fail: "store d p c = (d', False) \<Longrightarrow> scratch p \<noteq> p \<Longrightarrow> load d' p = load d p"
    and store_frame: "store d p c = (d', b) \<Longrightarrow> q \<noteq> p \<Longrightarrow> q \<noteq> scratch p \<Longrightarrow> load d' q = load d q"
begin

text \<open>\<open>apart p q\<close>: neither path is the other's scratch file.\<close>

definition apart :: "path \<Rightarrow> path \<Rightarrow> bool" where
  "apart p q \<longleftrightarrow> p \<noteq> q \<and> scratch p \<noteq> q \<and> scratch q \<noteq> p \<and> scratch p \<noteq> p \<and> scratch q \<noteq> q"

definition save_pair :: "'d \<Rightarrow> path \<Rightarrow> string \<Rightarrow> path \<Rightarrow> string \<Rightarrow> 'd \<times> bool" where
  "save_pair d u old p new =
     (case store d u old of (d1, False) \<Rightarrow> (d1, False) | (d1, True) \<Rightarrow> store d1 p new)"

lemma save_pair_ok:
  assumes "save_pair d u old p new = (d', True)" and "apart u p"
    and "is_cstring old" "is_cstring new" "readable u" "readable p"
  shows "load d' u = Some old" and "load d' p = Some new"
proof -
  obtain d1 where d1: "store d u old = (d1, True)" and d': "store d1 p new = (d', True)"
    using assms(1) by (auto simp: save_pair_def split: prod.splits bool.splits)
  have "load d' u = load d1 u"
    by (rule store_frame [OF d']) (use assms(2) in \<open>auto simp: apart_def\<close>)
  with store_ok [OF d1] assms show "load d' u = Some old" by simp
  show "load d' p = Some new" using store_ok [OF d'] assms by simp
qed

lemma save_pair_fail:
  assumes "save_pair d u old p new = (d', False)" and "apart u p"
  shows "load d' p = load d p"
proof (cases "store d u old")
  case (Pair d1 b)
  have d1: "load d1 p = load d p"
    by (rule store_frame [OF Pair]) (use assms(2) in \<open>auto simp: apart_def\<close>)
  show ?thesis
  proof (cases b)
    case True
    with Pair assms(1) have "store d1 p new = (d', False)" by (simp add: save_pair_def)
    from store_fail [OF this] assms(2) d1 show ?thesis by (simp add: apart_def)
  next
    case False
    with Pair assms(1) d1 show ?thesis by (simp add: save_pair_def)
  qed
qed

lemma save_pair_frame:
  assumes "save_pair d u old p new = (d', b)" and "q \<notin> {u, p, scratch u, scratch p}"
  shows "load d' q = load d q"
proof (cases "store d u old")
  case (Pair d1 c)
  have "load d1 q = load d q" by (rule store_frame [OF Pair]) (use assms(2) in auto)
  moreover have "load d' q = load d1 q"
  proof (cases c)
    case True
    with Pair assms(1) have "store d1 p new = (d', b)" by (simp add: save_pair_def)
    from store_frame [OF this] assms(2) show ?thesis by simp
  next
    case False
    with Pair assms(1) show ?thesis by (simp add: save_pair_def)
  qed
  ultimately show ?thesis by simp
qed

end

interpretation disk: text_store "load_text env" "store_text_atomic env" tmp_path "rd_ok env" for env
  by unfold_locales
    (auto simp: store_text_atomic_def load_text_def split: io_fault.splits if_splits)

lemma load_text_cstring: "load_text env d p = Some c \<Longrightarrow> is_cstring c"
  by (auto simp: load_text_def split: option.splits if_splits)

end
