(* ===== verification/Common_Array.thy ===== *)
theory Common_Array
  imports Prelude
begin

text \<open>
  \<^verbatim>\<open>common/array.c\<close>: the growable array that holds the storage server's file table,
  ticket tables, sentence locks, active users and the replication queue.

  \<open>items\<close> holds the \<^verbatim>\<open>len\<close> live elements of \<^verbatim>\<open>data\<close>; slots between \<^verbatim>\<open>len\<close> and
  \<open>cap\<close> are never read. \<^verbatim>\<open>realloc\<close> is the parameter \<open>mem\<close>, which says whether a
  request for that many bytes is granted; \<^verbatim>\<open>size_t\<close> is \<open>nat\<close>, since a live array has
  fewer than \<open>2 ^ 63\<close> bytes. Failure (\<^verbatim>\<open>-1\<close>) is \<open>None\<close>.

  The locale \<open>dyn_array\<close> states what the clients rely on; its lemmas are the client-side
  facts, and the interpretation \<open>arr\<close> discharges the laws for the model.
\<close>

section \<open>The array\<close>

record 'a array =
  items :: "'a list"
  cap :: nat
  elem_size :: nat

definition array_init :: "nat \<Rightarrow> 'a array" where
  "array_init esz = \<lparr>items = [], cap = 0, elem_size = esz\<rparr>"

definition array_free :: "'a array \<Rightarrow> 'a array" where
  "array_free arr = arr\<lparr>items := [], cap := 0\<rparr>"

text \<open>The loop \<^verbatim>\<open>while (new_cap < min_capacity) new_cap *= 2\<close>; it starts at 8 or more.\<close>

function grow_loop :: "nat \<Rightarrow> nat \<Rightarrow> nat" where
  "grow_loop new_cap min_capacity =
     (if 0 < new_cap \<and> new_cap < min_capacity then grow_loop (new_cap * 2) min_capacity
      else new_cap)"
  by pat_completeness auto
termination
  by (relation "measure (\<lambda>(c, m). m - c)") auto

declare grow_loop.simps [simp del]

definition array_grow :: "(nat \<Rightarrow> bool) \<Rightarrow> 'a array \<Rightarrow> nat \<Rightarrow> 'a array option" where
  "array_grow mem arr min_capacity =
     (if min_capacity \<le> cap arr then Some arr
      else
        let new_cap = grow_loop (if cap arr \<noteq> 0 then cap arr * 2 else 8) min_capacity in
        if mem (new_cap * elem_size arr) then Some (arr\<lparr>cap := new_cap\<rparr>) else None)"

definition array_reserve :: "(nat \<Rightarrow> bool) \<Rightarrow> 'a array \<Rightarrow> nat \<Rightarrow> 'a array option" where
  "array_reserve mem arr capacity = array_grow mem arr capacity"

definition array_get :: "'a array \<Rightarrow> nat \<Rightarrow> 'a option" where
  "array_get arr index =
     (if index < length (items arr) then Some (items arr ! index) else None)"

definition array_push :: "(nat \<Rightarrow> bool) \<Rightarrow> 'a array \<Rightarrow> 'a \<Rightarrow> 'a array option" where
  "array_push mem arr val =
     (case array_grow mem arr (length (items arr) + 1) of
        None \<Rightarrow> None
      | Some arr' \<Rightarrow> Some (arr'\<lparr>items := items arr' @ [val]\<rparr>))"

definition array_insert :: "(nat \<Rightarrow> bool) \<Rightarrow> 'a array \<Rightarrow> nat \<Rightarrow> 'a \<Rightarrow> 'a array option" where
  "array_insert mem arr index val =
     (if length (items arr) < index then None
      else case array_grow mem arr (length (items arr) + 1) of
        None \<Rightarrow> None
      | Some arr' \<Rightarrow> Some (arr'\<lparr>items := insert_at index val (items arr')\<rparr>))"

definition array_remove :: "'a array \<Rightarrow> nat \<Rightarrow> 'a array" where
  "array_remove arr index =
     (if length (items arr) \<le> index then arr
      else arr\<lparr>items := remove_at index (items arr)\<rparr>)"

text \<open>
  The expiry loop of both ticket tables,
  \<^verbatim>\<open>while (i < len) if (expired(get(i))) remove(i); else i++;\<close>.
\<close>

function array_prune_loop :: "('a \<Rightarrow> bool) \<Rightarrow> nat \<Rightarrow> 'a array \<Rightarrow> 'a array" where
  "array_prune_loop p i arr =
     (case array_get arr i of
        None \<Rightarrow> arr
      | Some x \<Rightarrow>
          if p x then array_prune_loop p i (array_remove arr i)
          else array_prune_loop p (Suc i) arr)"
  by pat_completeness auto
termination
  by (relation "measure (\<lambda>(p, i, arr). length (items arr) - i)")
    (auto simp: array_get_def array_remove_def length_remove_at split: if_splits)

declare array_prune_loop.simps [simp del]

definition array_wf :: "'a array \<Rightarrow> bool" where
  "array_wf arr \<longleftrightarrow> length (items arr) \<le> cap arr"

section \<open>Capacity\<close>

lemma grow_loop_ge: "0 < c \<Longrightarrow> m \<le> grow_loop c m \<and> c \<le> grow_loop c m"
proof (induction c m rule: grow_loop.induct)
  case (1 c m)
  then show ?case
    by (subst (1 2) grow_loop.simps) auto
qed

lemma grow_loop_le: "0 < c \<Longrightarrow> c \<le> m \<Longrightarrow> grow_loop c m < 2 * m \<or> grow_loop c m = c"
proof (induction c m rule: grow_loop.induct)
  case (1 c m)
  show ?case
  proof (cases "c < m")
    case True
    then have eq: "grow_loop c m = grow_loop (c * 2) m"
      using "1.prems" by (subst grow_loop.simps) simp
    show ?thesis
    proof (cases "c * 2 \<le> m")
      case True
      then show ?thesis using "1" \<open>c < m\<close> eq by auto
    next
      case False
      then have "grow_loop (c * 2) m = c * 2" by (subst grow_loop.simps) simp
      then show ?thesis using eq \<open>c < m\<close> by simp
    qed
  next
    case False
    then show ?thesis by (subst (1 2) grow_loop.simps) simp
  qed
qed

lemma array_grow_cap: "array_grow mem arr m = Some arr' \<Longrightarrow> m \<le> cap arr' \<and> cap arr \<le> cap arr'"
  using grow_loop_ge [of "cap arr * 2" m] grow_loop_ge [of 8 m]
  by (auto simp: array_grow_def Let_def split: if_splits)

lemma array_grow_items [array_simps]:
  "array_grow mem arr m = Some arr' \<Longrightarrow> items arr' = items arr"
  by (auto simp: array_grow_def Let_def split: if_splits)

lemma array_grow_elem_size: "array_grow mem arr m = Some arr' \<Longrightarrow> elem_size arr' = elem_size arr"
  by (auto simp: array_grow_def Let_def split: if_splits)

section \<open>The interface of the clients\<close>

locale dyn_array =
  fixes view :: "'r \<Rightarrow> 'a list"
    and get :: "'r \<Rightarrow> nat \<Rightarrow> 'a option"
    and push :: "'r \<Rightarrow> 'a \<Rightarrow> 'r option"
    and ins :: "'r \<Rightarrow> nat \<Rightarrow> 'a \<Rightarrow> 'r option"
    and rem :: "'r \<Rightarrow> nat \<Rightarrow> 'r"
  assumes get_view: "get r i = (if i < length (view r) then Some (view r ! i) else None)"
    and push_view: "push r x = Some r' \<Longrightarrow> view r' = view r @ [x]"
    and ins_view: "ins r i x = Some r' \<Longrightarrow> i \<le> length (view r) \<and> view r' = insert_at i x (view r)"
    and rem_view: "i < length (view r) \<Longrightarrow> view (rem r i) = remove_at i (view r)"
begin

lemma push_get: "push r x = Some r' \<Longrightarrow> get r' (length (view r)) = Some x"
  by (auto simp: get_view dest: push_view)

lemma push_get_other:
  "push r x = Some r' \<Longrightarrow> i < length (view r) \<Longrightarrow> get r' i = get r i"
  by (auto simp: get_view nth_append dest: push_view)

lemma ins_get: "ins r i x = Some r' \<Longrightarrow> get r' i = Some x"
  by (auto simp: get_view insert_at_def nth_append dest!: ins_view)

lemma ins_rem: "ins r i x = Some r' \<Longrightarrow> view (rem r' i) = view r"
  using ins_view [of r i x r'] rem_view [of i r'] by (simp add: remove_at_insert_at)

lemma rem_found_distinct:
  assumes "distinct (map f (view r))" and "find_index (\<lambda>x. f x = k) (view r) = Some i"
  shows "view (rem r i) = filter (\<lambda>x. f x \<noteq> k) (view r)"
proof -
  from assms(2) have i: "i < length (view r)" and k: "f (view r ! i) = k"
    by (auto dest: find_index_SomeD)
  have "remove_at i xs = filter (\<lambda>x. f x \<noteq> k) xs"
    if "distinct (map f xs)" "i < length xs" "f (xs ! i) = k" for xs :: "'a list" and i
    using that
  proof (induction xs arbitrary: i)
    case Nil
    then show ?case by simp
  next
    case (Cons x xs)
    show ?case
    proof (cases i)
      case 0
      then have "filter (\<lambda>y. f y \<noteq> k) xs = xs"
        using Cons.prems 0 by (auto simp: filter_id_conv image_iff)
      with 0 Cons.prems show ?thesis by simp
    next
      case (Suc j)
      then have "f x \<noteq> k"
        using Cons.prems by (auto simp: image_iff)
      with Suc Cons show ?thesis by simp
    qed
  qed
  with assms(1) i k show ?thesis by (simp add: rem_view)
qed

end

interpretation arr: dyn_array items array_get "array_push mem" "array_insert mem" array_remove
  for mem
  by unfold_locales
    (auto simp: array_get_def array_push_def array_insert_def array_remove_def
      dest: array_grow_items split: option.splits if_splits)

section \<open>Invariant and failure\<close>

lemma array_wf_init: "array_wf (array_init n)"
  by (simp add: array_wf_def array_init_def)

lemma array_push_wf:
  assumes "array_push mem arr x = Some arr'"
  shows "array_wf arr'"
proof -
  from assms obtain a where g: "array_grow mem arr (length (items arr) + 1) = Some a"
    and arr': "arr' = a\<lparr>items := items a @ [x]\<rparr>"
    by (auto simp: array_push_def split: option.splits)
  from array_grow_cap [OF g] array_grow_items [OF g] arr' show ?thesis
    by (simp add: array_wf_def)
qed

lemma array_insert_wf:
  assumes "array_insert mem arr i x = Some arr'"
  shows "array_wf arr'"
proof -
  from assms obtain a where g: "array_grow mem arr (length (items arr) + 1) = Some a"
    and arr': "arr' = a\<lparr>items := insert_at i x (items a)\<rparr>" and "i \<le> length (items arr)"
    by (auto simp: array_insert_def split: option.splits if_splits)
  with array_grow_cap [OF g] array_grow_items [OF g] show ?thesis
    by (simp add: array_wf_def)
qed

lemma array_remove_wf: "array_wf arr \<Longrightarrow> array_wf (array_remove arr i)"
  by (auto simp: array_wf_def array_remove_def length_remove_at)

lemma array_push_mem: "(\<And>n. mem n) \<Longrightarrow> \<exists>arr'. array_push mem arr x = Some arr'"
  by (auto simp: array_push_def array_grow_def Let_def)

lemma array_insert_mem:
  "(\<And>n. mem n) \<Longrightarrow> i \<le> length (items arr) \<Longrightarrow> \<exists>arr'. array_insert mem arr i x = Some arr'"
  by (auto simp: array_insert_def array_grow_def Let_def)

lemma items_array_remove [array_simps]:
  "items (array_remove arr i) = (if i < length (items arr) then remove_at i (items arr) else items arr)"
  by (simp add: array_remove_def)

section \<open>The expiry loop is a filter\<close>

lemma array_prune_loop_items:
  "items (array_prune_loop p i arr) = take i (items arr) @ filter (\<lambda>x. \<not> p x) (drop i (items arr))"
proof (induction p i arr rule: array_prune_loop.induct)
  case (1 p i arr)
  show ?case
  proof (cases "i < length (items arr)")
    case False
    then show ?thesis
      by (subst array_prune_loop.simps) (simp add: array_get_def)
  next
    case True
    then have get: "array_get arr i = Some (items arr ! i)" by (simp add: array_get_def)
    have drop: "drop i (items arr) = items arr ! i # drop (Suc i) (items arr)"
      using True by (simp add: Cons_nth_drop_Suc)
    show ?thesis
    proof (cases "p (items arr ! i)")
      case p: True
      have "items (array_remove arr i) = take i (items arr) @ drop (Suc i) (items arr)"
        using True by (simp add: items_array_remove remove_at_def)
      with "1.IH"(1) [OF get p] p True drop show ?thesis
        by (subst array_prune_loop.simps) (simp add: get)
    next
      case np: False
      with "1.IH"(2) [OF get np] True drop show ?thesis
        by (subst array_prune_loop.simps) (simp add: get take_Suc_conv_app_nth)
    qed
  qed
qed

lemma array_prune_items [array_simps]:
  "items (array_prune_loop p 0 arr) = filter (\<lambda>x. \<not> p x) (items arr)"
  by (simp add: array_prune_loop_items)

end
