(* ===== verification/Tables.thy ===== *)
theory Tables
  imports Prelude
begin

text \<open>
  The contract of a table of named entries: what a lookup returns after an insertion of
  a fresh name and after a removal, and when an insertion is refused. The storage
  server's sorted array and the name manager's hash table both provide it; \<open>fits\<close> says
  for which numbers of entries there is room for one more (always in the first, below
  the capacity in the second). The consequences are proved once here: a run of
  insertions and removals behaves like the same run on a finite map.
\<close>

datatype 'e table_op = Add 'e | Del name

fun map_op :: "(nat \<Rightarrow> bool) \<Rightarrow> ('e \<Rightarrow> name) \<Rightarrow> 'e table_op \<Rightarrow> (name \<Rightarrow> 'e option) \<Rightarrow> (name \<Rightarrow> 'e option)" where
  "map_op fits key (Add e) m = (if m (key e) = None \<and> fits (card (dom m)) then m(key e := Some e) else m)"
| "map_op fits key (Del n) m = m(n := None)"

locale name_table =
  fixes inv :: "'s \<Rightarrow> bool"
    and lookup :: "'s \<Rightarrow> name \<Rightarrow> 'e option"
    and add :: "'s \<Rightarrow> 'e \<Rightarrow> 's"
    and del :: "'s \<Rightarrow> name \<Rightarrow> 's"
    and key :: "'e \<Rightarrow> name"
    and good :: "'e \<Rightarrow> bool"
    and fits :: "nat \<Rightarrow> bool"
  assumes lookup_key: "inv s \<Longrightarrow> lookup s n = Some e \<Longrightarrow> key e = n"
    and add_inv: "inv s \<Longrightarrow> good e \<Longrightarrow> inv (add s e)"
    and add_lookup: "inv s \<Longrightarrow> good e \<Longrightarrow> lookup s (key e) = None \<Longrightarrow> fits (card (dom (lookup s))) \<Longrightarrow>
      lookup (add s e) n = (if n = key e then Some e else lookup s n)"
    and add_refused: "inv s \<Longrightarrow> good e \<Longrightarrow> lookup s (key e) \<noteq> None \<or> \<not> fits (card (dom (lookup s))) \<Longrightarrow> add s e = s"
    and del_inv: "inv s \<Longrightarrow> inv (del s m)"
    and del_lookup: "inv s \<Longrightarrow> lookup (del s m) n = (if n = m then None else lookup s n)"
begin

primrec step :: "'e table_op \<Rightarrow> 's \<Rightarrow> 's" where
  "step (Add e) s = add s e"
| "step (Del n) s = del s n"

primrec op_good :: "'e table_op \<Rightarrow> bool" where
  "op_good (Add e) = good e"
| "op_good (Del n) = True"

lemma step_inv: "inv s \<Longrightarrow> op_good x \<Longrightarrow> inv (step x s)"
  by (cases x) (auto simp: add_inv del_inv)

lemma step_refines: "inv s \<Longrightarrow> op_good x \<Longrightarrow> lookup (step x s) = map_op fits key x (lookup s)"
  by (cases x) (auto simp: add_lookup add_refused del_lookup fun_eq_iff)

lemma run_inv: "inv s \<Longrightarrow> list_all op_good xs \<Longrightarrow> inv (fold step xs s)"
  by (induction xs arbitrary: s) (auto simp: step_inv)

lemma run_refines:
  "inv s \<Longrightarrow> list_all op_good xs \<Longrightarrow> lookup (fold step xs s) = fold (map_op fits key) xs (lookup s)"
  by (induction xs arbitrary: s) (auto simp: step_inv step_refines)

lemma add_del_restores:
  "inv s \<Longrightarrow> good e \<Longrightarrow> lookup s (key e) = None \<Longrightarrow> lookup (del (add s e) (key e)) = lookup s"
  by (cases "fits (card (dom (lookup s)))") (auto simp: fun_eq_iff del_lookup add_inv add_lookup add_refused)

end

end
