(* ===== verification/SS_State.thy ===== *)
theory SS_State
  imports SS_Text Disk Common_Array Tables
begin

text \<open>
  \<^verbatim>\<open>ss/ss_state.h\<close> and \<^verbatim>\<open>ss/ss_state.c\<close>: the storage server's table of files, an array
  sorted by name with binary search, and the per-file metadata on disk. Pointers into the
  table are indices. \<^verbatim>\<open>time(NULL)\<close> is the argument \<open>now\<close>.

  The lemmas show that the binary searches find what a linear search finds, that the
  table stays sorted, and that it implements the contract \<open>name_table\<close>; and that metadata
  written to disk is read back.
\<close>

definition SS_NAME_MAX :: nat where "SS_NAME_MAX = 128"
definition SS_USER_MAX :: nat where "SS_USER_MAX = 64"

record ss_file =
  sf_name :: string
  sf_owner :: string
  data_path :: path
  meta_path :: path
  undo_path :: path
  sf_created :: time_t
  sf_modified :: time_t
  sf_last_access :: time_t
  sf_last_access_user :: string
  sf_word_count :: nat
  sf_char_count :: nat
  lock_active :: bool
  lock_user :: string
  lock_sentence :: int

record ss_state =
  storage_dir :: path
  files_dir :: path
  meta_dir :: path
  undo_dir :: path
  checkpoints_dir :: path
  ss_files :: "ss_file array"

section \<open>Search\<close>

function insert_pos_loop :: "ss_file list \<Rightarrow> name \<Rightarrow> nat \<Rightarrow> nat \<Rightarrow> nat" where
  "insert_pos_loop fs name lo hi =
     (if lo < hi then
        let mid = lo + (hi - lo) div 2 in
        if sf_name (fs ! mid) < name then insert_pos_loop fs name (mid + 1) hi
        else insert_pos_loop fs name lo mid
      else lo)"
  by pat_completeness auto
termination
  by (relation "measure (\<lambda>(fs, name, lo, hi). hi - lo)") auto

declare insert_pos_loop.simps [simp del]

definition insert_sorted :: "env \<Rightarrow> ss_state \<Rightarrow> ss_file \<Rightarrow> ss_state option" where
  "insert_sorted env st file =
     (let fs = items (ss_files st);
          lo = insert_pos_loop fs (sf_name file) 0 (length fs) in
      case array_insert (mem_ok env) (ss_files st) lo file of
        None \<Rightarrow> None
      | Some arr \<Rightarrow> Some (st\<lparr>ss_files := arr\<rparr>))"

function find_loop :: "ss_file list \<Rightarrow> name \<Rightarrow> nat \<Rightarrow> nat \<Rightarrow> bool \<times> nat" where
  "find_loop fs name lo hi =
     (if lo < hi then
        let mid = lo + (hi - lo) div 2; cand = sf_name (fs ! mid) in
        if cand = name then (True, mid)
        else if cand < name then find_loop fs name (mid + 1) hi
        else find_loop fs name lo mid
      else (False, lo))"
  by pat_completeness auto
termination
  by (relation "measure (\<lambda>(fs, name, lo, hi). hi - lo)") auto

declare find_loop.simps [simp del]

text \<open>The file found, if any, and \<^verbatim>\<open>*index_out\<close>.\<close>

definition ss_state_find :: "ss_state \<Rightarrow> name \<Rightarrow> ss_file option \<times> nat" where
  "ss_state_find st name =
     (let fs = items (ss_files st) in
      case find_loop fs name 0 (length fs) of
        (True, mid) \<Rightarrow> (Some (fs ! mid), mid)
      | (False, lo) \<Rightarrow> (None, lo))"

section \<open>Metadata\<close>

definition fill_paths :: "ss_state \<Rightarrow> name \<Rightarrow> ss_file \<Rightarrow> ss_file" where
  "fill_paths st name file = file
     \<lparr>data_path := buf 512 (files_dir st @ ''/'' @ name),
      meta_path := buf 512 (meta_dir st @ ''/'' @ name @ ''.meta''),
      undo_path := buf 512 (undo_dir st @ ''/'' @ name @ ''.undo'')\<rparr>"

definition meta_line :: "string \<Rightarrow> string \<Rightarrow> string" where
  "meta_line key val = key @ '':'' @ val @ [NEWLINE]"

definition meta_text :: "ss_file \<Rightarrow> string" where
  "meta_text f =
     meta_line ''owner'' (sf_owner f) @
     meta_line ''created'' (show_int (sf_created f)) @
     meta_line ''modified'' (show_int (sf_modified f)) @
     meta_line ''last_access'' (show_int (sf_last_access f)) @
     meta_line ''last_access_user'' (sf_last_access_user f) @
     meta_line ''word_count'' (show_nat (sf_word_count f)) @
     meta_line ''char_count'' (show_nat (sf_char_count f))"

definition write_meta_file :: "env \<Rightarrow> disk \<Rightarrow> ss_file \<Rightarrow> disk \<times> bool" where
  "write_meta_file env d file = write_file env d (meta_path file) (meta_text file)"

definition ss_state_save_meta :: "env \<Rightarrow> disk \<Rightarrow> ss_file \<Rightarrow> disk \<times> bool" where
  "ss_state_save_meta env d file = write_meta_file env d file"

section \<open>Adding and removing files\<close>

definition new_ss_file :: "ss_state \<Rightarrow> time_t \<Rightarrow> name \<Rightarrow> name \<Rightarrow> ss_file" where
  "new_ss_file st now name owner =
     fill_paths st name
       \<lparr>sf_name = buf SS_NAME_MAX name, sf_owner = buf SS_USER_MAX owner,
        data_path = [], meta_path = [], undo_path = [],
        sf_created = now, sf_modified = now, sf_last_access = now,
        sf_last_access_user = buf SS_USER_MAX owner,
        sf_word_count = 0, sf_char_count = 0,
        lock_active = False, lock_user = [], lock_sentence = -1\<rparr>"

definition ss_state_add :: "env \<Rightarrow> time_t \<Rightarrow> ss_state \<Rightarrow> disk \<Rightarrow> name \<Rightarrow> name
    \<Rightarrow> unit res \<times> ss_state \<times> disk" where
  "ss_state_add env now st d name owner =
     (case ss_state_find st name of
        (Some _, idx) \<Rightarrow> (Fail (Some EEXIST), st, d)
      | (None, idx) \<Rightarrow>
          let file = new_ss_file st now name owner in
          (case insert_sorted env st file of
             None \<Rightarrow> (Fail None, st, d)
           | Some st1 \<Rightarrow>
               (case write_file env d (data_path file) [] of
                  (d1, False) \<Rightarrow>
                    (Fail None, st1\<lparr>ss_files := array_remove (ss_files st1) idx\<rparr>, d1)
                | (d1, True) \<Rightarrow>
                    (case array_get (ss_files st1) idx of
                       None \<Rightarrow> (Fail None, st1, d1)
                     | Some slot \<Rightarrow>
                         (case write_meta_file env d1 slot of
                            (d2, False) \<Rightarrow>
                              (Fail None, st1\<lparr>ss_files := array_remove (ss_files st1) idx\<rparr>,
                               unlink d2 (data_path file))
                          | (d2, True) \<Rightarrow> (Ok (), st1, d2))))))"

definition ss_state_remove :: "ss_state \<Rightarrow> disk \<Rightarrow> name \<Rightarrow> unit res \<times> ss_state \<times> disk" where
  "ss_state_remove st d name =
     (case ss_state_find st name of
        (None, idx) \<Rightarrow> (Fail (Some ENOENT), st, d)
      | (Some file, idx) \<Rightarrow>
          (Ok (), st\<lparr>ss_files := array_remove (ss_files st) idx\<rparr>,
           unlink (unlink (unlink d (data_path file)) (meta_path file)) (undo_path file)))"

text \<open>
  Writing through a pointer obtained from \<^verbatim>\<open>ss_state_find\<close>: the handlers update the entry
  in place and leave the state alone when the file is gone.
\<close>

definition ss_state_modify :: "ss_state \<Rightarrow> name \<Rightarrow> (ss_file \<Rightarrow> ss_file) \<Rightarrow> ss_state" where
  "ss_state_modify st name f =
     (case ss_state_find st name of
        (None, _) \<Rightarrow> st
      | (Some file, idx) \<Rightarrow>
          st\<lparr>ss_files := (ss_files st)\<lparr>items := (items (ss_files st))[idx := f file]\<rparr>\<rparr>)"

section \<open>The sorted table\<close>

definition names_sorted :: "ss_file list \<Rightarrow> bool" where
  "names_sorted fs \<longleftrightarrow> sorted_wrt (<) (map sf_name fs)"

definition ss_inv :: "ss_state \<Rightarrow> bool" where
  "ss_inv st \<longleftrightarrow> names_sorted (items (ss_files st)) \<and> array_wf (ss_files st)"

definition ss_lookup :: "ss_state \<Rightarrow> name \<Rightarrow> ss_file option" where
  "ss_lookup st n = map_of (map (\<lambda>f. (sf_name f, f)) (items (ss_files st))) n"

text \<open>No operation of the table changes the directories.\<close>

definition same_dirs :: "ss_state \<Rightarrow> ss_state \<Rightarrow> bool" where
  "same_dirs a b \<longleftrightarrow> a\<lparr>ss_files := array_init 0\<rparr> = b\<lparr>ss_files := array_init 0\<rparr>"

lemma names_sorted_nth:
  "names_sorted fs \<Longrightarrow> i < j \<Longrightarrow> j < length fs \<Longrightarrow> sf_name (fs ! i) < sf_name (fs ! j)"
  by (auto simp: names_sorted_def sorted_wrt_iff_nth_less)

lemma names_sorted_distinct: "names_sorted fs \<Longrightarrow> distinct (map sf_name fs)"
  by (simp add: names_sorted_def strict_sorted_iff)

text \<open>
  Both loops stop at the only index that has the smaller names before it and the
  others after it.
\<close>

definition is_insert_pos :: "ss_file list \<Rightarrow> name \<Rightarrow> nat \<Rightarrow> bool" where
  "is_insert_pos fs name i \<longleftrightarrow> i \<le> length fs \<and> (\<forall>j < i. sf_name (fs ! j) < name) \<and>
     (\<forall>j. i \<le> j \<longrightarrow> j < length fs \<longrightarrow> name \<le> sf_name (fs ! j))"

lemma smaller_upto:
  assumes "names_sorted fs" and "m < length fs" and "sf_name (fs ! m) < name" and "j < m + 1"
  shows "sf_name (fs ! j) < name"
proof (cases "j = m")
  case False
  with assms have "sf_name (fs ! j) < sf_name (fs ! m)" by (intro names_sorted_nth) auto
  from order.strict_trans [OF this assms(3)] show ?thesis .
qed (use assms in simp)

lemma larger_from:
  assumes "names_sorted fs" and "m \<le> j" and "j < length fs"
  shows "sf_name (fs ! m) \<le> sf_name (fs ! j)"
proof (cases "j = m")
  case False
  with assms have "sf_name (fs ! m) < sf_name (fs ! j)" by (intro names_sorted_nth) auto
  then show ?thesis by (rule less_imp_le)
qed simp

lemma insert_pos_loop_correct:
  assumes "names_sorted fs" and "hi \<le> length fs" and "lo \<le> hi"
    and "\<forall>j < lo. sf_name (fs ! j) < name"
    and "\<forall>j. hi \<le> j \<longrightarrow> j < length fs \<longrightarrow> name \<le> sf_name (fs ! j)"
  shows "is_insert_pos fs name (insert_pos_loop fs name lo hi)"
  using assms
proof (induction fs name lo hi rule: insert_pos_loop.induct)
  case (1 fs name lo hi)
  show ?case
  proof (cases "lo < hi")
    case False
    then show ?thesis
      using "1.prems" by (subst insert_pos_loop.simps) (auto simp: is_insert_pos_def)
  next
    case True
    define mid where "mid = lo + (hi - lo) div 2"
    have mid: "lo \<le> mid" "mid < hi" using True by (auto simp: mid_def)
    show ?thesis
    proof (cases "sf_name (fs ! mid) < name")
      case less: True
      have "\<forall>j < mid + 1. sf_name (fs ! j) < name"
        using smaller_upto [OF "1.prems"(1) _ less] mid "1.prems"(2) by simp
      with "1.IH"(1) [OF True mid_def less] "1.prems" mid True less show ?thesis
        by (subst insert_pos_loop.simps) (simp add: Let_def flip: mid_def)
    next
      case ge: False
      have "\<forall>j. mid \<le> j \<longrightarrow> j < length fs \<longrightarrow> name \<le> sf_name (fs ! j)"
        using larger_from [OF "1.prems"(1)] ge by (meson leI order.trans)
      with "1.IH"(2) [OF True mid_def ge] "1.prems" mid True ge show ?thesis
        by (subst insert_pos_loop.simps) (simp add: Let_def flip: mid_def)
    qed
  qed
qed

lemma find_loop_correct:
  assumes "names_sorted fs" and "hi \<le> length fs" and "lo \<le> hi"
    and "\<forall>j < lo. sf_name (fs ! j) < name"
    and "\<forall>j. hi \<le> j \<longrightarrow> j < length fs \<longrightarrow> name < sf_name (fs ! j)"
  shows "case find_loop fs name lo hi of
      (True, i) \<Rightarrow> i < length fs \<and> sf_name (fs ! i) = name
    | (False, i) \<Rightarrow> is_insert_pos fs name i \<and> name \<notin> sf_name ` set fs"
  using assms
proof (induction fs name lo hi rule: find_loop.induct)
  case (1 fs name lo hi)
  show ?case
  proof (cases "lo < hi")
    case False
    with "1.prems" have "lo = hi" by simp
    have "sf_name (fs ! j) \<noteq> name" if "j < length fs" for j
      using "1.prems"(4,5) that \<open>lo = hi\<close> less_irrefl not_le by blast
    then have "name \<notin> sf_name ` set fs" by (metis imageE in_set_conv_nth)
    moreover have "is_insert_pos fs name lo"
      using "1.prems" \<open>lo = hi\<close> by (auto simp: is_insert_pos_def less_imp_le)
    ultimately show ?thesis using False by (subst find_loop.simps) simp
  next
    case True
    define mid where "mid = lo + (hi - lo) div 2"
    have mid: "lo \<le> mid" "mid < hi" using True by (auto simp: mid_def)
    consider (eq) "sf_name (fs ! mid) = name" | (less) "sf_name (fs ! mid) < name"
      | (greater) "name < sf_name (fs ! mid)" using linorder_less_linear by blast
    then show ?thesis
    proof cases
      case eq
      then show ?thesis using True mid "1.prems"(2)
        by (subst find_loop.simps) (simp add: Let_def flip: mid_def)
    next
      case less
      have "\<forall>j < mid + 1. sf_name (fs ! j) < name"
        using smaller_upto [OF "1.prems"(1) _ less] mid "1.prems"(2) by simp
      with "1.IH"(1) [OF True mid_def refl] less "1.prems" mid True show ?thesis
        by (subst find_loop.simps) (simp add: Let_def flip: mid_def)
    next
      case greater
      have "\<forall>j. mid \<le> j \<longrightarrow> j < length fs \<longrightarrow> name < sf_name (fs ! j)"
        using larger_from [OF "1.prems"(1)] greater by (meson less_le_trans)
      moreover have ne: "sf_name (fs ! mid) \<noteq> name" "\<not> sf_name (fs ! mid) < name"
        using greater less_irrefl order.asym by blast+
      ultimately show ?thesis using "1.IH"(2) [OF True mid_def refl ne] "1.prems" mid True
        by (subst find_loop.simps) (simp add: Let_def ne flip: mid_def)
    qed
  qed
qed


lemma is_insert_pos_unique: "is_insert_pos fs n i \<Longrightarrow> is_insert_pos fs n j \<Longrightarrow> i = j"
proof (rule ccontr)
  assume i: "is_insert_pos fs n i" and j: "is_insert_pos fs n j" and "i \<noteq> j"
  then consider "i < j" | "j < i" by linarith
  then show False
  proof cases
    case 1
    with i j have "n \<le> sf_name (fs ! i)" "sf_name (fs ! i) < n"
      by (auto simp: is_insert_pos_def)
    then show False using leD by blast
  next
    case 2
    with i j have "n \<le> sf_name (fs ! j)" "sf_name (fs ! j) < n"
      by (auto simp: is_insert_pos_def)
    then show False using leD by blast
  qed
qed

lemma names_sorted_insert:
  assumes "names_sorted fs" and "is_insert_pos fs (sf_name f) i" and "sf_name f \<notin> sf_name ` set fs"
  shows "names_sorted (insert_at i f fs)"
proof -
  have less: "sf_name x < sf_name f" if "x \<in> set (take i fs)" for x
    using that assms(2) by (auto simp: in_set_conv_nth is_insert_pos_def)
  have "sf_name f \<le> sf_name x" if x: "x \<in> set (drop i fs)" for x
  proof -
    from x obtain j where "j < length fs - i" "x = fs ! (i + j)"
      using assms(2) by (auto simp: in_set_conv_nth is_insert_pos_def)
    with assms(2) show ?thesis by (simp add: is_insert_pos_def)
  qed
  then have greater: "sf_name f < sf_name x" if "x \<in> set (drop i fs)" for x
    using that assms(3) in_set_dropD [OF that] by (metis image_eqI order_le_imp_less_or_eq)
  have "sorted_wrt (<) (map sf_name (take i fs @ drop i fs))"
    using assms(1) by (simp add: names_sorted_def)
  with less greater show ?thesis
    by (fastforce simp: names_sorted_def insert_at_def sorted_wrt_append
        simp del: append_take_drop_id intro: order.strict_trans)
qed

lemma names_sorted_remove: "names_sorted fs \<Longrightarrow> names_sorted (remove_at i fs)"
proof -
  assume "names_sorted fs"
  then have s: "sorted_wrt (<) (map sf_name (take i fs @ drop i fs))"
    by (simp add: names_sorted_def)
  have "set (drop (Suc i) fs) \<subseteq> set (drop i fs)" by (rule set_drop_subset_set_drop) simp
  moreover have "sorted_wrt (<) (map sf_name (drop (Suc i) fs))"
    using \<open>names_sorted fs\<close> by (simp add: names_sorted_def sorted_wrt_drop flip: drop_map)
  ultimately show ?thesis
    using s unfolding names_sorted_def remove_at_def map_append sorted_wrt_append by auto
qed

section \<open>The searches agree with a linear search\<close>

lemma find_loop_top:
  assumes "names_sorted fs"
  shows "case find_loop fs name 0 (length fs) of
      (True, i) \<Rightarrow> i < length fs \<and> sf_name (fs ! i) = name
    | (False, i) \<Rightarrow> is_insert_pos fs name i \<and> name \<notin> sf_name ` set fs"
  by (rule find_loop_correct [OF assms]) auto

lemma insert_pos_top:
  "names_sorted fs \<Longrightarrow> is_insert_pos fs name (insert_pos_loop fs name 0 (length fs))"
  by (rule insert_pos_loop_correct) auto

lemma ss_lookup_None_iff: "ss_lookup st n = None \<longleftrightarrow> n \<notin> sf_name ` set (items (ss_files st))"
  by (auto simp: ss_lookup_def map_of_eq_None_iff image_iff)

lemma ss_lookup_nth:
  assumes "ss_inv st" and "i < length (items (ss_files st))"
  shows "ss_lookup st (sf_name (items (ss_files st) ! i)) = Some (items (ss_files st) ! i)"
  using assms names_sorted_distinct [of "items (ss_files st)"]
  by (auto simp: ss_lookup_def ss_inv_def comp_def intro!: map_of_is_SomeI)

lemma ss_lookup_SomeD:
  "ss_lookup st n = Some f \<Longrightarrow> sf_name f = n \<and> f \<in> set (items (ss_files st))"
  by (auto simp: ss_lookup_def dest: map_of_SomeD)

lemma ss_state_find_cases:
  assumes "ss_inv st"
  obtains (found) f i where "ss_state_find st n = (Some f, i)" "i < length (items (ss_files st))"
      "f = items (ss_files st) ! i" "sf_name f = n" "ss_lookup st n = Some f"
  | (absent) i where "ss_state_find st n = (None, i)"
      "is_insert_pos (items (ss_files st)) n i" "ss_lookup st n = None"
proof (cases "find_loop (items (ss_files st)) n 0 (length (items (ss_files st)))")
  case (Pair b i)
  have top: "case (b, i) of
      (True, i) \<Rightarrow> i < length (items (ss_files st)) \<and> sf_name (items (ss_files st) ! i) = n
    | (False, i) \<Rightarrow> is_insert_pos (items (ss_files st)) n i \<and> n \<notin> sf_name ` set (items (ss_files st))"
    using find_loop_top [of "items (ss_files st)" n] assms Pair by (simp add: ss_inv_def)
  show ?thesis
  proof (cases b)
    case True
    with top have i: "i < length (items (ss_files st))" "sf_name (items (ss_files st) ! i) = n" by auto
    then show ?thesis
      using found [of "items (ss_files st) ! i" i] ss_lookup_nth [OF assms i(1)] Pair True
      by (simp add: ss_state_find_def)
  next
    case False
    with top absent [of i] Pair show ?thesis
      by (simp add: ss_state_find_def ss_lookup_None_iff)
  qed
qed

lemma ss_state_find_lookup: "ss_inv st \<Longrightarrow> fst (ss_state_find st n) = ss_lookup st n"
  by (erule ss_state_find_cases [where n = n]) auto


section \<open>Insertion and removal\<close>

lemma same_dirs_refl [simp]: "same_dirs st st"
  by (simp add: same_dirs_def)

lemma same_dirs_trans: "same_dirs a b \<Longrightarrow> same_dirs b c \<Longrightarrow> same_dirs a c"
  by (simp add: same_dirs_def)

lemma same_dirs_update [simp]: "same_dirs (st\<lparr>ss_files := arr\<rparr>) b = same_dirs st b"
  by (simp add: same_dirs_def)

lemma insert_sorted_at:
  assumes "ss_inv st" and "ss_state_find st (sf_name f) = (None, i)"
    and "insert_sorted env st f = Some st'"
  shows "items (ss_files st') = insert_at i f (items (ss_files st))" and "ss_inv st'"
    and "i \<le> length (items (ss_files st))" and "same_dirs st' st"
proof -
  have pos: "is_insert_pos (items (ss_files st)) (sf_name f) i" and abs: "ss_lookup st (sf_name f) = None"
    using assms(1,2) by (auto elim!: ss_state_find_cases [where n = "sf_name f"])
  have eq: "insert_pos_loop (items (ss_files st)) (sf_name f) 0 (length (items (ss_files st))) = i"
    using insert_pos_top pos assms(1) by (auto simp: ss_inv_def intro: is_insert_pos_unique)
  obtain arr where arr: "array_insert (mem_ok env) (ss_files st) i f = Some arr"
    and st': "st' = st\<lparr>ss_files := arr\<rparr>"
    using assms(3) by (auto simp: insert_sorted_def eq Let_def split: option.splits)
  from arr.ins_view [OF arr] st'
  show it: "items (ss_files st') = insert_at i f (items (ss_files st))"
    and "i \<le> length (items (ss_files st))" by simp_all
  show "ss_inv st'"
    using it names_sorted_insert [OF _ pos] abs assms(1) array_insert_wf [OF arr] st'
    by (auto simp: ss_inv_def ss_lookup_None_iff)
  show "same_dirs st' st" by (simp add: st')
qed

lemma ss_lookup_insert:
  assumes "items (ss_files st') = insert_at i f (items (ss_files st))" and "ss_inv st'"
    and "i \<le> length (items (ss_files st))"
  shows "ss_lookup st' n = (if n = sf_name f then Some f else ss_lookup st n)"
proof -
  let ?fs = "items (ss_files st)"
  have d: "distinct (map sf_name (take i ?fs @ f # drop i ?fs))"
    using names_sorted_distinct [of "items (ss_files st')"] assms(1,2)
    by (simp add: ss_inv_def insert_at_def del: map_append)
  have "ss_lookup st n = map_of (map (\<lambda>f. (sf_name f, f)) (take i ?fs @ drop i ?fs)) n"
    by (simp add: ss_lookup_def)
  moreover have "map_of (map (\<lambda>f. (sf_name f, f)) (take i ?fs @ drop i ?fs)) (sf_name f) = None"
    using d by (auto simp: map_of_eq_None_iff image_iff simp del: append_take_drop_id)
  ultimately show ?thesis
    by (auto simp: ss_lookup_def assms(1) insert_at_def map_add_def
        simp del: append_take_drop_id split: option.splits)
qed

lemma ss_lookup_remove:
  assumes "ss_inv st" and "i < length (items (ss_files st))"
    and "items (ss_files st') = remove_at i (items (ss_files st))"
  shows "ss_lookup st' n = (if n = sf_name (items (ss_files st) ! i) then None else ss_lookup st n)"
proof -
  let ?fs = "items (ss_files st)"
  have dist: "distinct (map sf_name ?fs)" using names_sorted_distinct assms(1) by (simp add: ss_inv_def)
  have split: "?fs = take i ?fs @ ?fs ! i # drop (Suc i) ?fs" using assms(2) by (rule id_take_nth_drop)
  have d: "distinct (map sf_name (take i ?fs @ ?fs ! i # drop (Suc i) ?fs))" using dist split by simp
  have "ss_lookup st n = map_of (map (\<lambda>f. (sf_name f, f)) (take i ?fs @ ?fs ! i # drop (Suc i) ?fs)) n"
    using split by (simp add: ss_lookup_def)
  moreover have "map_of (map (\<lambda>f. (sf_name f, f)) (take i ?fs @ drop (Suc i) ?fs)) (sf_name (?fs ! i)) = None"
    using d by (auto simp: map_of_eq_None_iff image_iff simp del: append_take_drop_id)
  ultimately show ?thesis
    by (auto simp: ss_lookup_def assms(3) remove_at_def map_add_def split: option.splits)
qed

lemma ss_inv_remove: "ss_inv st \<Longrightarrow> ss_inv (st\<lparr>ss_files := array_remove (ss_files st) i\<rparr>)"
  by (auto simp: ss_inv_def items_array_remove names_sorted_remove array_remove_wf)

lemma sf_name_new [simp]: "sf_name (new_ss_file st now n o') = buf SS_NAME_MAX n"
  by (simp add: new_ss_file_def fill_paths_def)


text \<open>What \<^verbatim>\<open>ss_state_add\<close> does, branch by branch.\<close>

lemma ss_state_add_exists:
  "ss_inv st \<Longrightarrow> ss_lookup st n \<noteq> None \<Longrightarrow> ss_state_add env now st d n o' = (Fail (Some EEXIST), st, d)"
  by (erule ss_state_find_cases [where n = n]) (auto simp: ss_state_add_def)

lemma ss_state_add_cases:
  assumes "ss_inv st" and "length n < SS_NAME_MAX" and "ss_lookup st n = None"
    and "ss_state_add env now st d n o' = (r, st', d')"
  obtains (ok) "r = Ok ()" "ss_inv st'" "same_dirs st' st"
      "\<And>m. ss_lookup st' m = (if m = n then Some (new_ss_file st now n o') else ss_lookup st m)"
      "d' = fst (write_meta_file env (d(data_path (new_ss_file st now n o') := Some [])) (new_ss_file st now n o'))"
  | (fail) "r = Fail None" "ss_inv st'" "same_dirs st' st"
      "items (ss_files st') = items (ss_files st)"
      "d' = d \<or> d' = d(data_path (new_ss_file st now n o') := None)"
proof -
  let ?f = "new_ss_file st now n o'"
  have nm: "sf_name ?f = n" using assms(2) by simp
  obtain i where i: "ss_state_find st n = (None, i)"
    using assms(1,3) by (auto elim!: ss_state_find_cases [where n = n])
  show ?thesis
  proof (cases "insert_sorted env st ?f")
    case None
    with assms(1,4) i fail show ?thesis by (simp add: ss_state_add_def)
  next
    case (Some st1)
    note ins = insert_sorted_at [OF assms(1) _ Some, unfolded nm, OF i]
    have get: "array_get (ss_files st1) i = Some ?f"
      using ins(1,3) by (auto simp: array_get_def insert_at_def nth_append)
    have rem: "items (ss_files (st1\<lparr>ss_files := array_remove (ss_files st1) i\<rparr>)) = items (ss_files st)"
      using ins(1,3) by (simp add: items_array_remove remove_at_insert_at)
    have inv: "ss_inv (st1\<lparr>ss_files := array_remove (ss_files st1) i\<rparr>)"
      using ins(2) by (rule ss_inv_remove)
    consider (data) "wr_fault env (data_path ?f) = OpenFault"
      | (meta) "wr_fault env (data_path ?f) \<noteq> OpenFault" "wr_fault env (meta_path ?f) = OpenFault"
      | (good) "wr_fault env (data_path ?f) \<noteq> OpenFault" "wr_fault env (meta_path ?f) \<noteq> OpenFault"
      by blast
    then show ?thesis
    proof cases
      case data
      then have "r = Fail None" "st' = st1\<lparr>ss_files := array_remove (ss_files st1) i\<rparr>" "d' = d"
        using assms(4) i Some by (auto simp: ss_state_add_def write_file_eq)
      with fail inv rem ins(4) show ?thesis by simp
    next
      case meta
      then have "r = Fail None" "st' = st1\<lparr>ss_files := array_remove (ss_files st1) i\<rparr>"
        "d' = d(data_path ?f := None)"
        using assms(4) i Some get
        by (auto simp: ss_state_add_def write_file_eq write_meta_file_def unlink_def)
      with fail inv rem ins(4) show ?thesis by simp
    next
      case good
      then have "r = Ok ()" "st' = st1" "d' = fst (write_meta_file env (d(data_path ?f := Some [])) ?f)"
        using assms(4) i Some get
        by (auto simp: ss_state_add_def write_file_eq write_meta_file_def Let_def)
      with ok ins(2,4) ss_lookup_insert [OF ins(1-3), unfolded nm] show ?thesis by simp
    qed
  qed
qed

lemma ss_state_add_good:
  assumes "ss_inv st" and "length n < SS_NAME_MAX" and "ss_lookup st n = None"
  shows "fst (ss_state_add good_env now st d n o') = Ok ()"
proof -
  let ?f = "new_ss_file st now n o'"
  obtain i where i: "ss_state_find st n = (None, i)"
    and pos: "is_insert_pos (items (ss_files st)) n i"
    using assms(1,3) by (auto elim!: ss_state_find_cases [where n = n])
  have nm: "sf_name ?f = n" using assms(2) by simp
  have "insert_pos_loop (items (ss_files st)) n 0 (length (items (ss_files st))) \<le> length (items (ss_files st))"
    using insert_pos_top [of "items (ss_files st)" n] assms(1) by (simp add: ss_inv_def is_insert_pos_def)
  from array_insert_mem [OF _ this, of "mem_ok good_env" ?f]
  obtain arr where "array_insert (mem_ok good_env) (ss_files st)
      (insert_pos_loop (items (ss_files st)) n 0 (length (items (ss_files st)))) ?f = Some arr"
    by (auto simp: good_env_def)
  then obtain st1 where st1: "insert_sorted good_env st ?f = Some st1"
    using that by (simp add: insert_sorted_def Let_def nm del: sf_name_new)
  note ins = insert_sorted_at [OF assms(1) _ st1, unfolded nm, OF i]
  have "array_get (ss_files st1) i = Some ?f"
    using ins(1,3) by (auto simp: array_get_def insert_at_def nth_append)
  with i st1 show ?thesis
    by (simp add: ss_state_add_def write_file_eq write_meta_file_def good_env_def)
qed

lemma ss_state_remove_cases:
  assumes "ss_inv st" and "ss_state_remove st d n = (r, st', d')"
  obtains (ok) f where "ss_lookup st n = Some f" "r = Ok ()" "ss_inv st'"
      "same_dirs st' st"
      "\<And>m. ss_lookup st' m = (if m = n then None else ss_lookup st m)"
      "d' = d(data_path f := None, meta_path f := None, undo_path f := None)"
  | (fail) "ss_lookup st n = None" "r = Fail (Some ENOENT)" "st' = st" "d' = d"
proof (cases rule: ss_state_find_cases [OF assms(1), where n = n])
  case (1 f i)
  then have eq: "r = Ok ()" "st' = st\<lparr>ss_files := array_remove (ss_files st) i\<rparr>"
    "d' = d(data_path f := None, meta_path f := None, undo_path f := None)"
    using assms(2) by (simp_all add: ss_state_remove_def unlink_def)
  have "ss_lookup st' m = (if m = n then None else ss_lookup st m)" for m
    using ss_lookup_remove [OF assms(1), of i st'] 1 eq by (simp add: items_array_remove)
  then show ?thesis
    by (intro ok [of f]) (use 1(5) eq ss_inv_remove [OF assms(1), of i] in simp_all)
next
  case (2 i)
  then show ?thesis by (intro fail) (use assms(2) in \<open>simp_all add: ss_state_remove_def\<close>)
qed

section \<open>The table implements the contract of named tables\<close>

text \<open>
  The state is the table together with the disk; an entry is insertable when it is what
  \<^verbatim>\<open>ss_state_add\<close> builds for its name, owner and time, in the directories of \<open>st0\<close>.
\<close>

definition fresh_entry :: "ss_state \<Rightarrow> ss_file \<Rightarrow> bool" where
  "fresh_entry st0 e \<longleftrightarrow> e = new_ss_file st0 (sf_created e) (sf_name e) (sf_owner e)"

definition ss_table_inv :: "ss_state \<Rightarrow> ss_state \<times> disk \<Rightarrow> bool" where
  "ss_table_inv st0 s \<longleftrightarrow> ss_inv (fst s) \<and> same_dirs (fst s) st0"

definition ss_table_add :: "ss_state \<times> disk \<Rightarrow> ss_file \<Rightarrow> ss_state \<times> disk" where
  "ss_table_add s e = snd (ss_state_add good_env (sf_created e) (fst s) (snd s) (sf_name e) (sf_owner e))"

definition ss_table_del :: "ss_state \<times> disk \<Rightarrow> name \<Rightarrow> ss_state \<times> disk" where
  "ss_table_del s n = snd (ss_state_remove (fst s) (snd s) n)"

lemma same_dirs_new: "same_dirs a b \<Longrightarrow> new_ss_file a now n o' = new_ss_file b now n o'"
  by (cases a; cases b) (simp add: same_dirs_def new_ss_file_def fill_paths_def)

lemma fresh_entry_short: "fresh_entry st0 e \<Longrightarrow> length (sf_name e) < SS_NAME_MAX"
  unfolding fresh_entry_def by (metis sf_name_new length_buf SS_NAME_MAX_def zero_less_numeral)

lemma ss_table_add_cases:
  assumes "ss_table_inv st0 s" and "fresh_entry st0 e"
  obtains (new) "ss_lookup (fst s) (sf_name e) = None" "ss_table_inv st0 (ss_table_add s e)"
      "\<And>m. ss_lookup (fst (ss_table_add s e)) m = (if m = sf_name e then Some e else ss_lookup (fst s) m)"
  | (old) "ss_lookup (fst s) (sf_name e) \<noteq> None" "ss_table_add s e = s"
proof (cases "ss_lookup (fst s) (sf_name e)")
  case (Some x)
  with old assms show ?thesis
    by (simp add: ss_table_add_def ss_table_inv_def ss_state_add_exists)
next
  case None
  have inv: "ss_inv (fst s)" and dirs: "same_dirs (fst s) st0"
    using assms(1) by (auto simp: ss_table_inv_def)
  obtain r st' d' where add: "ss_state_add good_env (sf_created e) (fst s) (snd s) (sf_name e) (sf_owner e)
      = (r, st', d')" by (metis prod_cases3)
  have r: "r = Ok ()"
    using ss_state_add_good [OF inv fresh_entry_short [OF assms(2)] None] add by (metis fst_conv)
  have e: "new_ss_file (fst s) (sf_created e) (sf_name e) (sf_owner e) = e"
    using same_dirs_new [OF dirs] assms(2) by (simp add: fresh_entry_def)
  show ?thesis
  proof (rule ss_state_add_cases [OF inv fresh_entry_short [OF assms(2)] None add], goal_cases)
    case ok: 1
    with add dirs have "ss_table_inv st0 (ss_table_add s e)"
      by (auto simp: ss_table_add_def ss_table_inv_def intro: same_dirs_trans)
    with new None ok(4) e add show ?thesis by (simp add: ss_table_add_def)
  qed (use r in simp)
qed

lemma ss_table_del_props:
  assumes "ss_table_inv st0 s"
  shows "ss_table_inv st0 (ss_table_del s n)"
    and "ss_lookup (fst (ss_table_del s n)) m = (if m = n then None else ss_lookup (fst s) m)"
proof -
  have inv: "ss_inv (fst s)" and dirs: "same_dirs (fst s) st0"
    using assms(1) by (auto simp: ss_table_inv_def)
  obtain r st' d' where del: "ss_state_remove (fst s) (snd s) n = (r, st', d')" by (metis prod_cases3)
  show "ss_table_inv st0 (ss_table_del s n)"
    by (rule ss_state_remove_cases [OF inv del])
      (use del inv dirs in \<open>auto simp: ss_table_del_def ss_table_inv_def intro: same_dirs_trans\<close>)
  show "ss_lookup (fst (ss_table_del s n)) m = (if m = n then None else ss_lookup (fst s) m)"
    by (rule ss_state_remove_cases [OF inv del]) (use del in \<open>auto simp: ss_table_del_def\<close>)
qed

interpretation ss_tab: name_table "ss_table_inv st0" "\<lambda>s. ss_lookup (fst s)" ss_table_add ss_table_del
  sf_name "fresh_entry st0" "\<lambda>_. True" for st0
proof unfold_locales
  fix s :: "ss_state \<times> disk" and e :: ss_file and n
  assume inv: "ss_table_inv st0 s"
  show "ss_lookup (fst s) n = Some e \<Longrightarrow> sf_name e = n" by (auto dest: ss_lookup_SomeD)
  show "ss_table_inv st0 (ss_table_add s e)" if "fresh_entry st0 e"
    by (rule ss_table_add_cases [OF inv that]) (use inv in simp_all)
  show "ss_lookup (fst (ss_table_add s e)) n = (if n = sf_name e then Some e else ss_lookup (fst s) n)"
    if "fresh_entry st0 e" "ss_lookup (fst s) (sf_name e) = None"
    by (rule ss_table_add_cases [OF inv that(1)]) (use that in simp_all)
  show "ss_table_add s e = s" if "fresh_entry st0 e" "ss_lookup (fst s) (sf_name e) \<noteq> None \<or> \<not> True"
    by (rule ss_table_add_cases [OF inv that(1)]) (use that in simp_all)
  show "ss_table_inv st0 (ss_table_del s n)" using inv by (rule ss_table_del_props)
  show "ss_lookup (fst (ss_table_del s m)) n = (if n = m then None else ss_lookup (fst s) n)" for m
    using inv by (rule ss_table_del_props)
qed

end
