(* ===== verification/SS_Persist.thy ===== *)
theory SS_Persist
  imports SS_State
begin

text \<open>
  The start-up part of \<^verbatim>\<open>ss/ss_state.c\<close>: directories, reading one metadata file and
  rebuilding the table from the metadata directory. The directory listing is an argument.
  The lemmas show that metadata written by \<open>write_meta_file\<close> is read back unchanged and
  that a restart rebuilds the table that was saved.
\<close>

section \<open>Directories\<close>

datatype stat_result = StatDir | StatOther | StatFail

definition ensure_dir :: "stat_result \<Rightarrow> errno option \<Rightarrow> unit res" where
  "ensure_dir st mkdir_error =
     (case st of
        StatDir \<Rightarrow> Ok ()
      | StatOther \<Rightarrow> Fail (Some ENOTDIR)
      | StatFail \<Rightarrow> (case mkdir_error of
          None \<Rightarrow> Ok ()
        | Some e \<Rightarrow> if e = EEXIST then Ok () else Fail (Some e)))"

section \<open>Reading metadata\<close>

definition set_meta :: "string \<Rightarrow> string \<Rightarrow> ss_file \<Rightarrow> ss_file" where
  "set_meta key val file =
     (if key = ''owner'' then file\<lparr>sf_owner := buf SS_USER_MAX val\<rparr>
      else if key = ''created'' then file\<lparr>sf_created := atol val\<rparr>
      else if key = ''modified'' then file\<lparr>sf_modified := atol val\<rparr>
      else if key = ''last_access'' then file\<lparr>sf_last_access := atol val\<rparr>
      else if key = ''last_access_user'' then file\<lparr>sf_last_access_user := buf SS_USER_MAX val\<rparr>
      else if key = ''word_count'' then file\<lparr>sf_word_count := strtoull val\<rparr>
      else if key = ''char_count'' then file\<lparr>sf_char_count := strtoull val\<rparr>
      else file)"

definition load_meta_line :: "string \<Rightarrow> ss_file \<Rightarrow> ss_file" where
  "load_meta_line line file =
     (let l = takeWhile (\<lambda>c. c \<noteq> NEWLINE) (cstring line) in
      if CHR '':'' \<in> set l then
        set_meta (takeWhile (\<lambda>c. c \<noteq> CHR '':'') l) (tl (dropWhile (\<lambda>c. c \<noteq> CHR '':'') l)) file
      else file)"

function load_meta_loop :: "string \<Rightarrow> ss_file \<Rightarrow> ss_file" where
  "load_meta_loop bytes file =
     (if bytes = [] then file
      else load_meta_loop (snd (fgets 256 bytes)) (load_meta_line (fst (fgets 256 bytes)) file))"
  by pat_completeness auto
termination
  by (relation "measure (\<lambda>(bytes, file). length bytes)") (auto intro: fgets_shorter)

declare load_meta_loop.simps [simp del]

definition load_meta_file :: "env \<Rightarrow> disk \<Rightarrow> ss_file \<Rightarrow> ss_file option" where
  "load_meta_file env d file =
     (case d (meta_path file) of
        None \<Rightarrow> None
      | Some bytes \<Rightarrow> if rd_ok env (meta_path file) then Some (load_meta_loop bytes file) else None)"

fun count_words :: "string \<Rightarrow> bool \<Rightarrow> nat \<Rightarrow> nat" where
  "count_words [] in_word count = count"
| "count_words (c # cs) in_word count =
     (if c \<le> SPACE then count_words cs False count
      else if \<not> in_word then count_words cs True (count + 1)
      else count_words cs in_word count)"

text \<open>\<^verbatim>\<open>strrchr(d_name, '.')\<close>: the text before and from the last dot.\<close>

definition split_last_dot :: "string \<Rightarrow> (string \<times> string) option" where
  "split_last_dot s =
     (if CHR ''.'' \<in> set s then
        let ext = rev (takeWhile (\<lambda>c. c \<noteq> CHR ''.'') (rev s)) in
        Some (take (length s - length ext - 1) s, CHR ''.'' # ext)
      else None)"

definition empty_ss_file :: ss_file where
  "empty_ss_file =
     \<lparr>sf_name = [], sf_owner = [], data_path = [], meta_path = [], undo_path = [],
      sf_created = 0, sf_modified = 0, sf_last_access = 0, sf_last_access_user = [],
      sf_word_count = 0, sf_char_count = 0, lock_active = False, lock_user = [], lock_sentence = 0\<rparr>"

definition recount :: "env \<Rightarrow> disk \<Rightarrow> ss_file \<Rightarrow> ss_file" where
  "recount env d file =
     (if sf_word_count file = 0 \<or> sf_char_count file = 0 then
        case d (data_path file) of
          None \<Rightarrow> file
        | Some bytes \<Rightarrow>
            if rd_ok env (data_path file) \<and> mem_ok env (length bytes + 1) then
              file\<lparr>sf_char_count := length bytes, sf_word_count := count_words (cstring bytes) False 0\<rparr>
            else file
      else file)"

definition load_entry :: "env \<Rightarrow> disk \<Rightarrow> string \<Rightarrow> ss_state \<Rightarrow> ss_state" where
  "load_entry env d ent st =
     (if ent \<noteq> [] \<and> hd ent = CHR ''.'' then st
      else case split_last_dot ent of
        None \<Rightarrow> st
      | Some (stem, dot) \<Rightarrow>
          if dot \<noteq> ''.meta'' then st
          else
            let name = buf SS_NAME_MAX stem;
                file = fill_paths st name (empty_ss_file\<lparr>sf_name := buf SS_NAME_MAX name\<rparr>) in
            (case load_meta_file env d file of
               None \<Rightarrow> st
             | Some file1 \<Rightarrow>
                 let file2 = (recount env d file1)\<lparr>lock_active := False, lock_sentence := -1\<rparr> in
                 (case insert_sorted env st file2 of None \<Rightarrow> st | Some st' \<Rightarrow> st')))"

definition ss_state_load :: "env \<Rightarrow> disk \<Rightarrow> string list option \<Rightarrow> ss_state \<Rightarrow> ss_state option" where
  "ss_state_load env d listing st =
     (case listing of
        None \<Rightarrow> None
      | Some ents \<Rightarrow> Some (fold (load_entry env d) ents st))"

definition ss_state_init :: "env \<Rightarrow> (path \<Rightarrow> stat_result) \<Rightarrow> (path \<Rightarrow> errno option) \<Rightarrow> disk
    \<Rightarrow> (path \<Rightarrow> string list option) \<Rightarrow> path \<Rightarrow> nat \<Rightarrow> ss_state option" where
  "ss_state_init env stat mkdir d readdir dir esz =
     (let st = \<lparr>storage_dir = buf 256 dir, files_dir = buf 256 (dir @ ''/files''),
                meta_dir = buf 256 (dir @ ''/meta''), undo_dir = buf 256 (dir @ ''/undo''),
                checkpoints_dir = buf 256 (dir @ ''/checkpoints''), ss_files = array_init esz\<rparr> in
      if list_all (\<lambda>p. ensure_dir (stat p) (mkdir p) = Ok ())
           [dir, files_dir st, meta_dir st, undo_dir st, checkpoints_dir st]
      then ss_state_load env d (readdir (meta_dir st)) st
      else None)"


section \<open>Metadata round trip\<close>

text \<open>What a metadata file can represent.\<close>

definition plain_value :: "string \<Rightarrow> bool" where
  "plain_value s \<longleftrightarrow> NEWLINE \<notin> set s \<and> NUL \<notin> set s"

definition meta_ok :: "ss_file \<Rightarrow> bool" where
  "meta_ok f \<longleftrightarrow> plain_value (sf_owner f) \<and> length (sf_owner f) < SS_USER_MAX \<and>
     plain_value (sf_last_access_user f) \<and> length (sf_last_access_user f) < SS_USER_MAX \<and>
     long_range (sf_created f) \<and> long_range (sf_modified f) \<and> long_range (sf_last_access f) \<and>
     sf_word_count f \<le> ULLONG_MAX \<and> sf_char_count f \<le> ULLONG_MAX"

lemma plain_value_show: "plain_value (show_nat n)" "plain_value (show_int i)"
  using show_nat_plain show_int_plain by (auto simp: plain_value_def)

text \<open>One line of the file, when the key has no colon and the line fits the buffer.\<close>

lemma load_meta_loop_line:
  assumes "plain_value key" "plain_value val" "CHR '':'' \<notin> set key"
    and "length key < 100" "length val < 100"
  shows "load_meta_loop (meta_line key val @ s) f = load_meta_loop s (set_meta key val f)"
proof -
  let ?l = "key @ CHR '':'' # val"
  have nl: "NEWLINE \<notin> set ?l" using assms by (auto simp: plain_value_def)
  have fg: "fgets 256 (meta_line key val @ s) = (?l @ [NEWLINE], s)"
    using fgets_line [OF nl, of 256 s] assms by (simp add: meta_line_def)
  have cs: "cstring (?l @ [NEWLINE]) = ?l @ [NEWLINE]"
    using assms by (simp add: is_cstring_def plain_value_def)
  have "\<forall>c \<in> set ?l. c \<noteq> NEWLINE" using nl by blast
  then have tw: "takeWhile (\<lambda>c. c \<noteq> NEWLINE) (?l @ [NEWLINE]) = ?l"
    by (subst takeWhile_append2) auto
  have key: "\<forall>c \<in> set key. c \<noteq> CHR '':''" using assms(3) by blast
  have k: "takeWhile (\<lambda>c. c \<noteq> CHR '':'') ?l = key"
    using key by (subst takeWhile_append2) auto
  have v: "dropWhile (\<lambda>c. c \<noteq> CHR '':'') ?l = CHR '':'' # val"
    using key by (subst dropWhile_append2) auto
  have "load_meta_line (?l @ [NEWLINE]) f = set_meta key val f"
    unfolding load_meta_line_def cs tw Let_def k v by simp
  moreover have "meta_line key val \<noteq> []" by (simp add: meta_line_def)
  ultimately show ?thesis using fg by (subst load_meta_loop.simps) simp
qed

lemma load_meta_text:
  assumes "meta_ok f"
  shows "load_meta_loop (meta_text f) g =
     g\<lparr>sf_owner := sf_owner f, sf_created := sf_created f, sf_modified := sf_modified f,
       sf_last_access := sf_last_access f, sf_last_access_user := sf_last_access_user f,
       sf_word_count := sf_word_count f, sf_char_count := sf_char_count f\<rparr>"
proof -
  have ok: "plain_value (sf_owner f)" "length (sf_owner f) < SS_USER_MAX"
    "plain_value (sf_last_access_user f)" "length (sf_last_access_user f) < SS_USER_MAX"
    "long_range (sf_created f)" "long_range (sf_modified f)" "long_range (sf_last_access f)"
    "sf_word_count f \<le> ULLONG_MAX" "sf_char_count f \<le> ULLONG_MAX"
    using assms by (auto simp: meta_ok_def)
  have len: "length (sf_owner f) < 100" "length (sf_last_access_user f) < 100"
    using ok by (auto simp: SS_USER_MAX_def)
  have at: "atol (show_int (sf_created f)) = sf_created f" "atol (show_int (sf_modified f)) = sf_modified f"
    "atol (show_int (sf_last_access f)) = sf_last_access f"
    using ok by (auto simp: atol_show_int long_range_def)
  have keys: "plain_value ''owner''" "plain_value ''created''" "plain_value ''modified''"
    "plain_value ''last_access''" "plain_value ''last_access_user''" "plain_value ''word_count''"
    "plain_value ''char_count''" by (simp_all add: plain_value_def)
  have "load_meta_loop [] h = h" for h by (subst load_meta_loop.simps) simp
  then have last: "load_meta_loop (meta_line k v) h = set_meta k v h"
    if "plain_value k" "plain_value v" "CHR '':'' \<notin> set k" "length k < 100" "length v < 100" for k v h
    using load_meta_loop_line [OF that, of "[]" h] by simp
  have "load_meta_loop (meta_text f) g =
      set_meta ''char_count'' (show_nat (sf_char_count f))
      (set_meta ''word_count'' (show_nat (sf_word_count f))
      (set_meta ''last_access_user'' (sf_last_access_user f)
      (set_meta ''last_access'' (show_int (sf_last_access f))
      (set_meta ''modified'' (show_int (sf_modified f))
      (set_meta ''created'' (show_int (sf_created f)) (set_meta ''owner'' (sf_owner f) g))))))"
    unfolding meta_text_def
    by (simp add: load_meta_loop_line last keys len ok plain_value_show
        length_show_long [THEN order_le_less_trans] length_show_size [THEN order_le_less_trans])
  then show ?thesis
    by (simp add: set_meta_def ok at strtoull_show_nat)
qed


section \<open>Restart\<close>

definition unlocked :: "ss_file \<Rightarrow> ss_file" where
  "unlocked f = f\<lparr>lock_active := False, lock_user := [], lock_sentence := -1\<rparr>"

text \<open>
  \<open>persisted st d f\<close>: the entry is on disk. A zero word or character count is recomputed
  from the data file at start-up, so there the data must agree with the entry.
\<close>

definition persisted :: "ss_state \<Rightarrow> disk \<Rightarrow> ss_file \<Rightarrow> bool" where
  "persisted st d f \<longleftrightarrow> meta_ok f \<and> d (meta_path f) = Some (meta_text f) \<and>
     f = fill_paths st (sf_name f) f \<and> sf_name f \<noteq> [] \<and> hd (sf_name f) \<noteq> CHR ''.'' \<and>
     length (sf_name f) < SS_NAME_MAX \<and>
     (sf_word_count f = 0 \<or> sf_char_count f = 0 \<longrightarrow>
        (case d (data_path f) of None \<Rightarrow> True
         | Some bytes \<Rightarrow> sf_char_count f = length bytes \<and> sf_word_count f = count_words (cstring bytes) False 0))"

lemma split_last_dot_meta: "split_last_dot (n @ ''.meta'') = Some (n, ''.meta'')"
  by (simp add: split_last_dot_def)

lemma fill_paths_dirs: "same_dirs a b \<Longrightarrow> fill_paths a n f = fill_paths b n f"
  by (cases a; cases b) (simp add: same_dirs_def fill_paths_def)

lemma recount_persisted:
  assumes "persisted st d f"
  shows "recount good_env d (f\<lparr>lock_active := a, lock_user := u, lock_sentence := i\<rparr>) =
    f\<lparr>lock_active := a, lock_user := u, lock_sentence := i\<rparr>"
proof -
  have "sf_word_count f = 0 \<or> sf_char_count f = 0 \<longrightarrow>
     (case d (data_path f) of None \<Rightarrow> True
      | Some bytes \<Rightarrow> sf_char_count f = length bytes \<and> sf_word_count f = count_words (cstring bytes) False 0)"
    using assms unfolding persisted_def by blast
  note counts = this
  show ?thesis
  proof (cases "sf_word_count f = 0 \<or> sf_char_count f = 0")
    case True
    show ?thesis
    proof (cases "d (data_path f)")
      case (Some bytes)
      with counts True have "sf_char_count f = length bytes"
        "sf_word_count f = count_words (cstring bytes) False 0" by auto
      with Some show ?thesis unfolding recount_def good_env_def by (cases f) simp
    qed (simp add: recount_def)
  qed (simp add: recount_def)
qed

lemma load_meta_persisted:
  assumes "persisted st d f" and "same_dirs cur st"
  shows "load_meta_file good_env d (fill_paths cur (sf_name f) (empty_ss_file\<lparr>sf_name := sf_name f\<rparr>)) =
     Some (f\<lparr>lock_active := False, lock_user := [], lock_sentence := 0\<rparr>)"
proof -
  let ?e = "fill_paths cur (sf_name f) (empty_ss_file\<lparr>sf_name := sf_name f\<rparr>)"
  have ok: "meta_ok f" and d: "d (meta_path f) = Some (meta_text f)"
    and f: "f = fill_paths cur (sf_name f) f"
    using assms fill_paths_dirs [OF assms(2)] by (auto simp: persisted_def)
  have paths: "data_path ?e = data_path f" "meta_path ?e = meta_path f" "undo_path ?e = undo_path f"
    by (subst (3) f, simp add: fill_paths_def)+
  have rest: "sf_name ?e = sf_name f" "lock_active ?e = False" "lock_user ?e = []" "lock_sentence ?e = 0"
    by (simp_all add: fill_paths_def empty_ss_file_def)
  have "load_meta_loop (meta_text f) ?e = f\<lparr>lock_active := False, lock_user := [], lock_sentence := 0\<rparr>"
    unfolding load_meta_text [OF ok] using paths rest
    by (cases f; cases ?e) simp
  with d paths show ?thesis by (simp add: load_meta_file_def good_env_def)
qed

lemma insert_sorted_good:
  assumes "ss_inv st" and "ss_lookup st (sf_name f) = None"
  obtains st' where "insert_sorted good_env st f = Some st'" "ss_inv st'" "same_dirs st' st"
    "\<And>m. ss_lookup st' m = (if m = sf_name f then Some f else ss_lookup st m)"
proof -
  obtain i where i: "ss_state_find st (sf_name f) = (None, i)"
    using assms by (auto elim!: ss_state_find_cases [where n = "sf_name f"])
  let ?p = "insert_pos_loop (items (ss_files st)) (sf_name f) 0 (length (items (ss_files st)))"
  have "?p \<le> length (items (ss_files st))"
    using insert_pos_top [of "items (ss_files st)"] assms(1) by (simp add: ss_inv_def is_insert_pos_def)
  from array_insert_mem [OF _ this, of "mem_ok good_env" f]
  obtain arr where "array_insert (mem_ok good_env) (ss_files st) ?p f = Some arr"
    by (auto simp: good_env_def)
  then obtain st' where st': "insert_sorted good_env st f = Some st'"
    using that by (simp add: insert_sorted_def Let_def)
  note ins = insert_sorted_at [OF assms(1) i st']
  from st' ins(2,4) ss_lookup_insert [OF ins(1-3)] show thesis by (rule that)
qed

lemma load_entry_persisted:
  assumes "persisted st d f" and "same_dirs cur st" and "ss_inv cur" and "ss_lookup cur (sf_name f) = None"
    and "cur' = load_entry good_env d (sf_name f @ ''.meta'') cur"
  shows "ss_inv cur'" and "same_dirs cur' st"
    and "ss_lookup cur' m = (if m = sf_name f then Some (unlocked f) else ss_lookup cur m)"
proof -
  have nm: "sf_name f \<noteq> []" "hd (sf_name f) \<noteq> CHR ''.''" "length (sf_name f) < SS_NAME_MAX"
    using assms(1) by (auto simp: persisted_def)
  have un: "(f\<lparr>lock_active := False, lock_user := [], lock_sentence := 0\<rparr>)
      \<lparr>lock_active := False, lock_sentence := -1\<rparr> = unlocked f"
    by (cases f) (simp add: unlocked_def)
  have "ss_lookup cur (sf_name (unlocked f)) = None" using assms(4) by (simp add: unlocked_def)
  with assms(3) obtain st' where st': "insert_sorted good_env cur (unlocked f) = Some st'" "ss_inv st'"
    "same_dirs st' cur"
    "\<And>m. ss_lookup st' m = (if m = sf_name (unlocked f) then Some (unlocked f) else ss_lookup cur m)"
    using insert_sorted_good by blast
  have "cur' = st'"
    using nm st'(1) assms(5) un
    by (simp add: load_entry_def split_last_dot_meta Let_def load_meta_persisted [OF assms(1,2)]
        recount_persisted [OF assms(1)])
  with st' assms(2) show "ss_inv cur'" "same_dirs cur' st"
    "ss_lookup cur' m = (if m = sf_name f then Some (unlocked f) else ss_lookup cur m)"
    by (auto simp: unlocked_def intro: same_dirs_trans)
qed

lemma load_entries_persisted:
  assumes "\<forall>f \<in> set fs. persisted st d f" and "distinct (map sf_name fs)"
    and "same_dirs cur st" and "ss_inv cur" and "\<forall>f \<in> set fs. ss_lookup cur (sf_name f) = None"
    and "cur' = fold (load_entry good_env d) (map (\<lambda>f. sf_name f @ ''.meta'') fs) cur"
  shows "ss_inv cur' \<and> (\<forall>m. ss_lookup cur' m =
     (case map_of (map (\<lambda>f. (sf_name f, f)) fs) m of None \<Rightarrow> ss_lookup cur m | Some f \<Rightarrow> Some (unlocked f)))"
  using assms
proof (induction fs arbitrary: cur)
  case Nil
  then show ?case by simp
next
  case (Cons f fs)
  define nxt where "nxt = load_entry good_env d (sf_name f @ ''.meta'') cur"
  have p: "persisted st d f" and abs: "ss_lookup cur (sf_name f) = None" using Cons.prems by auto
  note e = load_entry_persisted [OF p Cons.prems(3,4) abs nxt_def]
  have notin: "sf_name f \<notin> sf_name ` set fs" using Cons.prems(2) by simp
  have "ss_inv cur' \<and> (\<forall>m. ss_lookup cur' m =
     (case map_of (map (\<lambda>f. (sf_name f, f)) fs) m of None \<Rightarrow> ss_lookup nxt m | Some f \<Rightarrow> Some (unlocked f)))"
    by (rule Cons.IH) (use Cons.prems e notin in \<open>auto simp: nxt_def image_iff\<close>)
  moreover have "map_of (map (\<lambda>f. (sf_name f, f)) fs) (sf_name f) = None"
    using notin by (auto simp: map_of_eq_None_iff)
  ultimately show ?case using e(3) by (auto split: option.splits)
qed

text \<open>The order in which \<^verbatim>\<open>readdir\<close> lists the files does not matter: \<open>fs\<close> is any arrangement.\<close>

lemma ss_state_load_restores:
  assumes "ss_inv st" and "\<forall>f \<in> set (items (ss_files st)). persisted st d f"
    and "distinct fs" and "set fs = set (items (ss_files st))"
  shows "\<exists>st'. ss_state_load good_env d (Some (map (\<lambda>f. sf_name f @ ''.meta'') fs))
      (st\<lparr>ss_files := array_init n\<rparr>) = Some st' \<and>
    ss_inv st' \<and> ss_lookup st' = (\<lambda>m. map_option unlocked (ss_lookup st m))"
proof -
  let ?st0 = "st\<lparr>ss_files := array_init n\<rparr>" and ?kv = "map (\<lambda>f. (sf_name f, f))"
  have d0: "distinct (map sf_name (items (ss_files st)))"
    using assms(1) names_sorted_distinct by (auto simp: ss_inv_def)
  then have dist: "distinct (map sf_name fs)"
    using assms(3,4) by (simp add: distinct_map)
  have inv0: "ss_inv ?st0" using array_wf_init [of n] by (simp add: ss_inv_def array_init_def names_sorted_def)
  have none: "ss_lookup ?st0 m = None" for m by (simp add: ss_lookup_def array_init_def)
  have "map_of (?kv fs) m = Some f \<longleftrightarrow> map_of (?kv (items (ss_files st))) m = Some f" for m f
    using dist d0 assms(4) by (simp add: map_of_eq_Some_iff comp_def)
  then have look: "map_of (?kv fs) m = ss_lookup st m" for m
    unfolding ss_lookup_def by (rule option_eqI)
  have "ss_inv (fold (load_entry good_env d) (map (\<lambda>f. sf_name f @ ''.meta'') fs) ?st0) \<and>
    (\<forall>m. ss_lookup (fold (load_entry good_env d) (map (\<lambda>f. sf_name f @ ''.meta'') fs) ?st0) m =
      (case map_of (?kv fs) m of None \<Rightarrow> ss_lookup ?st0 m | Some f \<Rightarrow> Some (unlocked f)))"
    by (rule load_entries_persisted [OF _ dist _ inv0 _ refl, where st = st])
      (use assms(2,4) none in simp_all)
  then show ?thesis
    by (auto simp: ss_state_load_def look none fun_eq_iff split: option.splits)
qed

end
