(* ===== verification/SS_Tickets.thy ===== *)
theory SS_Tickets
  imports Common_Array Common_Error C_Lib
begin

text \<open>
  The ticket table of \<^verbatim>\<open>ss/ss_main.c\<close>. A ticket authorises one user to perform one
  operation on one file; taking it removes it from the table. \<^verbatim>\<open>time(NULL)\<close> is the
  argument \<open>now\<close>; \<open>mem\<close> grants memory.

  The locale \<open>ticket_store\<close> states the contract in terms of the number of usable tickets
  for a claim and derives that tickets are single use over any run; \<open>tix\<close> discharges the
  laws for the table.
\<close>

section \<open>The table\<close>

record auth_ticket =
  tk_token :: string
  tk_file :: string
  tk_user :: string
  tk_op :: string
  tk_expiry :: time_t

type_synonym ticket_table = "auth_ticket array"

definition ticket_table_init :: "nat \<Rightarrow> ticket_table" where
  "ticket_table_init esz = array_init esz"

definition ticket_expired :: "time_t \<Rightarrow> auth_ticket \<Rightarrow> bool" where
  "ticket_expired now t \<longleftrightarrow> tk_expiry t \<noteq> 0 \<and> tk_expiry t < now"

definition ticket_table_prune :: "time_t \<Rightarrow> ticket_table \<Rightarrow> ticket_table" where
  "ticket_table_prune now table = array_prune_loop (ticket_expired now) 0 table"

definition ticket_table_add :: "(nat \<Rightarrow> bool) \<Rightarrow> ticket_table \<Rightarrow> string \<Rightarrow> string \<Rightarrow> string \<Rightarrow> string
    \<Rightarrow> time_t \<Rightarrow> ticket_table option" where
  "ticket_table_add mem table token file user op expiry =
     array_push mem table
       \<lparr>tk_token = buf 64 token, tk_file = buf 128 file, tk_user = buf 64 user,
        tk_op = buf 16 op, tk_expiry = expiry\<rparr>"

definition ticket_matches :: "string \<Rightarrow> string \<Rightarrow> string \<Rightarrow> string \<Rightarrow> auth_ticket \<Rightarrow> bool" where
  "ticket_matches token user file op t \<longleftrightarrow>
     tk_token t = token \<and> tk_user t = user \<and> tk_file t = file \<and> tk_op t = op"

definition ticket_table_take :: "(nat \<Rightarrow> bool) \<Rightarrow> time_t \<Rightarrow> ticket_table \<Rightarrow> string \<Rightarrow> string \<Rightarrow> string
    \<Rightarrow> string \<Rightarrow> auth_ticket option \<times> ticket_table" where
  "ticket_table_take mem now table token user file op =
     (let table1 = ticket_table_prune now table in
      case find_index (ticket_matches token user file op) (items table1) of
        None \<Rightarrow> (None, table1)
      | Some i \<Rightarrow>
          if mem (elem_size table) then (Some (items table1 ! i), array_remove table1 i)
          else (None, table1))"

definition validate_ticket :: "(nat \<Rightarrow> bool) \<Rightarrow> time_t \<Rightarrow> ticket_table \<Rightarrow> string \<Rightarrow> string \<Rightarrow> string
    \<Rightarrow> string \<Rightarrow> auth_ticket res \<times> ticket_table" where
  "validate_ticket mem now table token user file op =
     (case ticket_table_take mem now table token user file op of
        (None, table') \<Rightarrow> (Fail (Some EACCES), table')
      | (Some t, table') \<Rightarrow> (Ok t, table'))"

section \<open>What taking a ticket means\<close>

lemma ticket_prune_items: "items (ticket_table_prune now table) = filter (\<lambda>t. \<not> ticket_expired now t) (items table)"
  by (simp add: ticket_table_prune_def array_prune_items)

lemma ticket_take_SomeD:
  assumes "ticket_table_take mem now table token user file op = (Some t, table')"
  shows "t \<in> set (items table)" and "ticket_matches token user file op t" and "\<not> ticket_expired now t"
    and "\<exists>i < length (items (ticket_table_prune now table)).
      items (ticket_table_prune now table) ! i = t \<and>
      items table' = remove_at i (items (ticket_table_prune now table))"
proof -
  let ?p = "items (ticket_table_prune now table)"
  obtain i where i: "find_index (ticket_matches token user file op) ?p = Some i"
    and t: "t = ?p ! i" and t': "table' = array_remove (ticket_table_prune now table) i"
    using assms by (auto simp: ticket_table_take_def Let_def split: option.splits if_splits)
  have m: "i < length ?p" "ticket_matches token user file op t"
    using find_index_SomeD [OF i] t by auto
  then have "t \<in> set ?p" using t by simp
  then show "t \<in> set (items table)" "\<not> ticket_expired now t" by (auto simp: ticket_prune_items)
  show "ticket_matches token user file op t" by (rule m(2))
  show "\<exists>i < length ?p. ?p ! i = t \<and> items table' = remove_at i ?p"
    using m(1) t t' by (auto simp: items_array_remove)
qed

lemma ticket_take_None_iff:
  assumes "mem (elem_size table)"
  shows "fst (ticket_table_take mem now table token user file op) = None \<longleftrightarrow>
    (\<forall>t \<in> set (items table). ticket_matches token user file op t \<longrightarrow> ticket_expired now t)"
proof -
  have "fst (ticket_table_take mem now table token user file op) = None \<longleftrightarrow>
      find_index (ticket_matches token user file op) (items (ticket_table_prune now table)) = None"
    using assms by (auto simp: ticket_table_take_def Let_def split: option.splits)
  then show ?thesis by (auto simp: find_index_None_iff ticket_prune_items)
qed

section \<open>Single use\<close>

type_synonym claim = "string \<times> string \<times> string \<times> string"

definition claim_of :: "auth_ticket \<Rightarrow> claim" where
  "claim_of t = (tk_token t, tk_user t, tk_file t, tk_op t)"

datatype ticket_op = Issue claim time_t | Redeem time_t claim

locale ticket_store =
  fixes usable :: "'s \<Rightarrow> claim \<Rightarrow> nat"
    and issue :: "'s \<Rightarrow> claim \<Rightarrow> time_t \<Rightarrow> 's"
    and redeem :: "time_t \<Rightarrow> 's \<Rightarrow> claim \<Rightarrow> bool \<times> 's"
    and stored :: "claim \<Rightarrow> claim"
  assumes issue_usable: "usable (issue s c e) c' \<le> usable s c' + (if stored c = c' then 1 else 0)"
    and redeem_usable: "redeem now s c = (r, s') \<Longrightarrow>
      usable s' c' + (if r \<and> c = c' then 1 else 0) \<le> usable s c'"
begin

primrec run :: "ticket_op list \<Rightarrow> 's \<Rightarrow> (claim \<times> bool) list" where
  "run [] s = []"
| "run (x # xs) s =
     (case x of
        Issue c e \<Rightarrow> run xs (issue s c e)
      | Redeem now c \<Rightarrow> (let (r, s') = redeem now s c in (c, r) # run xs s'))"

definition accepted :: "ticket_op list \<Rightarrow> 's \<Rightarrow> claim \<Rightarrow> nat" where
  "accepted xs s c = length (filter (\<lambda>x. x = (c, True)) (run xs s))"

definition issued :: "ticket_op list \<Rightarrow> claim \<Rightarrow> nat" where
  "issued xs c = length (filter (\<lambda>x. case x of Issue c' e \<Rightarrow> stored c' = c | Redeem _ _ \<Rightarrow> False) xs)"

text \<open>A claim is accepted at most as often as tickets for it were issued.\<close>

lemma accepted_bound: "accepted xs s c \<le> usable s c + issued xs c"
proof (induction xs arbitrary: s)
  case Nil
  then show ?case by (simp add: accepted_def)
next
  case (Cons x xs)
  show ?case
  proof (cases x)
    case (Issue c' e)
    then have "accepted (x # xs) s c = accepted xs (issue s c' e) c"
      by (simp add: accepted_def)
    with Cons [of "issue s c' e"] issue_usable [of s c' e c] Issue show ?thesis
      by (simp add: issued_def split: if_splits)
  next
    case (Redeem now c')
    obtain r s' where r: "redeem now s c' = (r, s')" by force
    then have "accepted (x # xs) s c = accepted xs s' c + (if r \<and> c' = c then 1 else 0)"
      using Redeem by (auto simp: accepted_def)
    with Cons [of s'] redeem_usable [OF r, of c] Redeem show ?thesis
      by (simp add: issued_def split: if_splits)
  qed
qed

end

fun issue_ticket_claim :: "(nat \<Rightarrow> bool) \<Rightarrow> ticket_table \<Rightarrow> claim \<Rightarrow> time_t \<Rightarrow> ticket_table" where
  "issue_ticket_claim mem table (token, user, file, op) e =
     (case ticket_table_add mem table token file user op e of None \<Rightarrow> table | Some table' \<Rightarrow> table')"

fun redeem_ticket_claim :: "(nat \<Rightarrow> bool) \<Rightarrow> time_t \<Rightarrow> ticket_table \<Rightarrow> claim \<Rightarrow> bool \<times> ticket_table" where
  "redeem_ticket_claim mem now table (token, user, file, op) =
     (case validate_ticket mem now table token user file op of
        (Fail _, table') \<Rightarrow> (False, table') | (Ok _, table') \<Rightarrow> (True, table'))"

fun stored_claim :: "claim \<Rightarrow> claim" where
  "stored_claim (token, user, file, op) = (buf 64 token, buf 64 user, buf 128 file, buf 16 op)"

definition usable_tickets :: "ticket_table \<Rightarrow> claim \<Rightarrow> nat" where
  "usable_tickets table c = length (filter (\<lambda>t. claim_of t = c) (items table))"

lemma length_filter_filter: "length (filter p (filter q xs)) \<le> length (filter p xs)"
  by (induction xs) auto

lemma length_filter_remove_at:
  assumes "i < length xs"
  shows "length (filter p (remove_at i xs)) + (if p (xs ! i) then 1 else 0) = length (filter p xs)"
proof -
  have "length (filter p xs) = length (filter p (take i xs @ xs ! i # drop (Suc i) xs))"
    using id_take_nth_drop [OF assms] by simp
  then show ?thesis by (simp add: remove_at_def)
qed

lemma redeem_usable_tickets:
  assumes "redeem_ticket_claim mem now table c = (r, table')"
  shows "usable_tickets table' c' + (if r \<and> c = c' then 1 else 0) \<le> usable_tickets table c'"
proof -
  obtain token user fl op where c: "c = (token, user, fl, op)" by (metis prod_cases4)
  let ?p = "items (ticket_table_prune now table)"
  have le: "length (filter (\<lambda>t. claim_of t = c') ?p) \<le> usable_tickets table c'"
    by (simp only: usable_tickets_def ticket_prune_items length_filter_filter)
  show ?thesis
  proof (cases "ticket_table_take mem now table token user fl op")
    case (Pair o' t')
    show ?thesis
    proof (cases o')
      case None
      then have "table' = ticket_table_prune now table" "\<not> r"
        using assms Pair
        by (auto simp: c validate_ticket_def ticket_table_take_def Let_def split: option.splits if_splits)
      with le show ?thesis by (simp add: usable_tickets_def)
    next
      case (Some t)
      with Pair have take: "ticket_table_take mem now table token user fl op = (Some t, t')" by simp
      have eq: "table' = t'" "r" using assms Pair Some by (auto simp: c validate_ticket_def)
      from ticket_take_SomeD(4) [OF take] obtain i where i: "i < length ?p" "?p ! i = t"
        "items t' = remove_at i ?p" by blast
      have "claim_of t = c" using ticket_take_SomeD(2) [OF take] by (auto simp: claim_of_def ticket_matches_def c)
      with le length_filter_remove_at [OF i(1), of "\<lambda>t. claim_of t = c'"] i eq show ?thesis
        by (auto simp: usable_tickets_def)
    qed
  qed
qed

interpretation tix: ticket_store usable_tickets "issue_ticket_claim mem" "redeem_ticket_claim mem" stored_claim
  for mem
proof unfold_locales
  fix s :: ticket_table and c c' :: claim and e :: time_t
  obtain token user fl op where c: "c = (token, user, fl, op)" by (metis prod_cases4)
  show "usable_tickets (issue_ticket_claim mem s c e) c' \<le> usable_tickets s c' + (if stored_claim c = c' then 1 else 0)"
    by (auto simp: c usable_tickets_def ticket_table_add_def claim_of_def dest!: arr.push_view split: option.splits)
next
  show "redeem_ticket_claim mem now s c = (r, s') \<Longrightarrow>
    usable_tickets s' c' + (if r \<and> c = c' then 1 else 0) \<le> usable_tickets s c'" for now s c r s' c'
    by (rule redeem_usable_tickets)
qed

text \<open>An issued ticket is honoured until it expires.\<close>

lemma issued_ticket_accepted:
  assumes "ticket_table_add mem table token file user op expiry = Some table'"
    and "length token < 64" "length file < 128" "length user < 64" "length op < 16"
    and "expiry = 0 \<or> now \<le> expiry" and "mem (elem_size table')"
  shows "fst (redeem_ticket_claim mem now table' (token, user, file, op))"
proof -
  let ?t = "\<lparr>tk_token = token, tk_file = file, tk_user = user, tk_op = op, tk_expiry = expiry\<rparr>"
  have "array_push mem table ?t = Some table'" using assms(1-5) by (simp add: ticket_table_add_def)
  from arr.push_view [OF this] have "?t \<in> set (items table')" by simp
  moreover have "ticket_matches token user file op ?t" "\<not> ticket_expired now ?t"
    using assms(6) by (auto simp: ticket_matches_def ticket_expired_def)
  ultimately have "fst (ticket_table_take mem now table' token user file op) \<noteq> None"
    using ticket_take_None_iff [of mem table', OF assms(7)] by blast
  then show ?thesis
    by (cases "ticket_table_take mem now table' token user file op") (auto simp: validate_ticket_def)
qed

end
