(* ===== verification/SS_Store_Props.thy ===== *)
theory SS_Store_Props
  imports SS_Persist SS_Tickets
begin

text \<open>
  What the tables of the storage server promise to its handlers: the sorted array of files
  is a finite map, a restart restores it from the metadata files, and a ticket opens at
  most one connection.
\<close>

section \<open>The table of files\<close>

fun ss_table_step :: "ss_file table_op \<Rightarrow> ss_state \<times> disk \<Rightarrow> ss_state \<times> disk" where
  "ss_table_step (Add e) s = ss_table_add s e"
| "ss_table_step (Del n) s = ss_table_del s n"

fun fresh_ss_op :: "ss_state \<Rightarrow> ss_file table_op \<Rightarrow> bool" where
  "fresh_ss_op st0 (Add e) = fresh_entry st0 e"
| "fresh_ss_op st0 (Del n) = True"

lemma ss_table_step_eq: "ss_table_step = ss_tab.step"
proof (intro ext)
  fix x s
  show "ss_table_step x s = ss_tab.step x s" by (cases x) simp_all
qed

lemma fresh_ss_op_eq: "fresh_ss_op st0 = ss_tab.op_good st0"
proof
  fix x
  show "fresh_ss_op st0 x = ss_tab.op_good st0 x" by (cases x) simp_all
qed

text \<open>C31: The storage server's table of files is a finite map. When memory is granted and no file operation fails, any sequence of additions and removals, through the
  binary searches of \<^verbatim>\<open>ss_state_find\<close> and \<^verbatim>\<open>insert_sorted\<close>, leaves exactly the entries that the same
  sequence leaves in a map; the array stays sorted, and a binary search finds exactly what a
  linear one would.\<close>

theorem storage_table_refines_map:
  assumes "ss_table_inv st0 s" and "list_all (fresh_ss_op st0) xs"
  shows "ss_table_inv st0 (fold ss_table_step xs s) \<and>
    (\<lambda>n. fst (ss_state_find (fst (fold ss_table_step xs s)) n)) =
      fold (map_op (\<lambda>_. True) sf_name) xs (\<lambda>n. fst (ss_state_find (fst s) n))"
proof -
  have inv: "ss_table_inv st0 (fold ss_table_step xs s)"
    using assms unfolding ss_table_step_eq fresh_ss_op_eq by (rule ss_tab.run_inv)
  have find: "(\<lambda>n. fst (ss_state_find (fst t) n)) = ss_lookup (fst t)" if "ss_table_inv st0 t" for t
    using that ss_state_find_lookup by (auto simp: ss_table_inv_def fun_eq_iff)
  have "ss_lookup (fst (fold ss_table_step xs s)) = fold (map_op (\<lambda>_. True) sf_name) xs (ss_lookup (fst s))"
    using assms unfolding ss_table_step_eq fresh_ss_op_eq by (rule ss_tab.run_refines)
  with inv find [OF inv] find [OF assms(1)] show ?thesis by simp
qed

definition empty_store :: ss_state where
  "empty_store = \<lparr>storage_dir = ''.'', files_dir = ''files'', meta_dir = ''meta'', undo_dir = ''undo'',
     checkpoints_dir = ''cp'', ss_files = array_init 1\<rparr>"

definition store_entry :: "name \<Rightarrow> ss_file" where
  "store_entry n = new_ss_file empty_store 7 n ''ann''"

lemma empty_store_inv: "ss_inv empty_store"
  using array_wf_init [of 1] by (simp add: empty_store_def ss_inv_def array_init_def names_sorted_def)

theorem storage_table_refines_map_witness:
  "fst (ss_state_find (fst (fold ss_table_step
      [Add (store_entry ''b''), Add (store_entry ''a''), Del ''b''] (empty_store, Map.empty))) ''a'') = Some (store_entry ''a'')"
proof -
  let ?xs = "[Add (store_entry ''b''), Add (store_entry ''a''), Del ''b'']"
  have inv: "ss_table_inv empty_store (empty_store, Map.empty)" by (simp add: ss_table_inv_def empty_store_inv)
  have ok: "list_all (fresh_ss_op empty_store) ?xs" by code_simp
  note r = storage_table_refines_map [OF inv ok, THEN conjunct2, THEN fun_cong, of "''a''"]
  have "fst (ss_state_find (fst (fold ss_table_step ?xs (empty_store, Map.empty))) ''a'') =
      fold (map_op (\<lambda>_. True) sf_name) ?xs (\<lambda>n. fst (ss_state_find empty_store n)) ''a''"
    using r by (simp only: fst_conv)
  also have "\<dots> = Some (store_entry ''a'')"
  proof -
    have n: "sf_name (store_entry ''a'') = ''a''" "sf_name (store_entry ''b'') = ''b''" by code_simp+
    have e: "fst (ss_state_find empty_store n) = None" for n
      using ss_state_find_lookup [OF empty_store_inv] by (simp add: ss_lookup_def empty_store_def array_init_def)
    show ?thesis unfolding e by (simp add: n)
  qed
  finally show ?thesis .
qed

section \<open>Restart\<close>

text \<open>C32: Restart. When every entry of the table is on disk, the state a restarted server loads from the metadata directory, in
  whatever order it lists the files, is well formed and has exactly the same entries, names,
  owners, times, counts and paths, with all write locks released.\<close>

theorem restart_restores:
  assumes "ss_inv st" and "\<forall>f \<in> set (items (ss_files st)). persisted st d f"
    and "distinct fs" and "set fs = set (items (ss_files st))"
  shows "\<exists>st'. ss_state_load good_env d (Some (map (\<lambda>f. sf_name f @ ''.meta'') fs))
      (st\<lparr>ss_files := array_init n\<rparr>) = Some st' \<and>
    ss_inv st' \<and> (\<forall>m. fst (ss_state_find st' m) = map_option unlocked (fst (ss_state_find st m)))"
proof -
  obtain st' where st': "ss_state_load good_env d (Some (map (\<lambda>f. sf_name f @ ''.meta'') fs))
      (st\<lparr>ss_files := array_init n\<rparr>) = Some st'" "ss_inv st'"
    "ss_lookup st' = (\<lambda>m. map_option unlocked (ss_lookup st m))"
    using ss_state_load_restores [OF assms] by blast
  then have "\<forall>m. fst (ss_state_find st' m) = map_option unlocked (fst (ss_state_find st m))"
    using ss_state_find_lookup [OF st'(2)] ss_state_find_lookup [OF assms(1)] by simp
  with st' show ?thesis by blast
qed

definition saved_store :: ss_state where
  "saved_store = empty_store\<lparr>ss_files := \<lparr>items = [store_entry ''a''], cap = 8, elem_size = 1\<rparr>\<rparr>"

definition saved_disk :: disk where
  "saved_disk = [''files/a'' \<mapsto> [], ''meta/a.meta'' \<mapsto> meta_text (store_entry ''a'')]"

theorem restart_restores_witness:
  "\<exists>st'. ss_state_load good_env saved_disk (Some [''a.meta'']) (saved_store\<lparr>ss_files := array_init 1\<rparr>) = Some st' \<and>
     fst (ss_state_find st' ''a'') = Some (store_entry ''a'')"
proof -
  have inv: "ss_inv saved_store"
    by (simp add: saved_store_def ss_inv_def names_sorted_def array_wf_def)
  have e: "store_entry ''a'' = \<lparr>sf_name = ''a'', sf_owner = ''ann'', data_path = ''files/a'', meta_path = ''meta/a.meta'',
      undo_path = ''undo/a.undo'', sf_created = 7, sf_modified = 7, sf_last_access = 7, sf_last_access_user = ''ann'',
      sf_word_count = 0, sf_char_count = 0, lock_active = False, lock_user = [], lock_sentence = -1\<rparr>" by code_simp
  have dirs: "fill_paths saved_store ''a'' (store_entry ''a'') = store_entry ''a''" by code_simp
  have "meta_ok (store_entry ''a'')"
    by (simp add: e meta_ok_def plain_value_def long_range_def LONG_MIN_def LONG_MAX_def SS_USER_MAX_def)
  moreover have "saved_disk ''files/a'' = Some []" "saved_disk ''meta/a.meta'' = Some (meta_text (store_entry ''a''))"
    by (simp_all add: saved_disk_def)
  ultimately have p: "persisted saved_store saved_disk (store_entry ''a'')"
    using dirs by (simp add: persisted_def e SS_NAME_MAX_def cstring_def)
  have set: "set [store_entry ''a''] = set (items (ss_files saved_store))" by (simp add: saved_store_def)
  have n: "sf_name (store_entry ''a'') @ ''.meta'' = ''a.meta''" by code_simp
  have f: "fst (ss_state_find saved_store ''a'') = Some (store_entry ''a'')" by code_simp
  have u: "unlocked (store_entry ''a'') = store_entry ''a''" by code_simp
  have "\<forall>f \<in> set (items (ss_files saved_store)). persisted saved_store saved_disk f"
    using p by (simp add: saved_store_def)
  from restart_restores [OF inv this _ set, of 1] n f u show ?thesis by auto
qed

section \<open>Tickets\<close>

text \<open>The results of redeeming tickets in a history of issues and redemptions.\<close>

primrec ticket_run :: "(nat \<Rightarrow> bool) \<Rightarrow> ticket_op list \<Rightarrow> ticket_table \<Rightarrow> (claim \<times> bool) list" where
  "ticket_run mem [] table = []"
| "ticket_run mem (x # xs) table =
     (case x of
        Issue c e \<Rightarrow> ticket_run mem xs (issue_ticket_claim mem table c e)
      | Redeem now c \<Rightarrow> (let (r, table') = redeem_ticket_claim mem now table c in (c, r) # ticket_run mem xs table'))"

definition times_accepted :: "(nat \<Rightarrow> bool) \<Rightarrow> ticket_op list \<Rightarrow> ticket_table \<Rightarrow> claim \<Rightarrow> nat" where
  "times_accepted mem xs table c = length (filter (\<lambda>x. x = (c, True)) (ticket_run mem xs table))"

definition times_issued :: "ticket_op list \<Rightarrow> claim \<Rightarrow> nat" where
  "times_issued xs c = length (filter (\<lambda>x. case x of Issue c' e \<Rightarrow> stored_claim c' = c | Redeem _ _ \<Rightarrow> False) xs)"

lemma ticket_run_eq: "ticket_run mem xs table = tix.run mem xs table"
  by (induction xs arbitrary: table) (simp_all split: ticket_op.split prod.split)

text \<open>C15: Tickets are single use. In any history of commands of the name manager that issue tickets and of connections
  that present them, a claim (token, user, file and operation together) is accepted at most as
  often as tickets for exactly that claim were issued; in particular a ticket cannot be replayed, used for
  another file, user or operation, or guessed when none was issued.\<close>

theorem ticket_single_use: "times_accepted mem xs table c \<le> usable_tickets table c + times_issued xs c"
  using tix.accepted_bound [of mem xs table c]
  by (simp add: times_accepted_def times_issued_def ticket_run_eq tix.accepted_def tix.issued_def)

text \<open>An issued ticket is honoured. Once \<^verbatim>\<open>ticket_table_add\<close> has stored a ticket whose strings fit their buffers, the
  connection that presents exactly its token, user, file and operation before it expires is
  accepted.\<close>

theorem ticket_honoured:
  assumes "ticket_table_add mem table token file user op expiry = Some table'"
    and "length token < 64" "length file < 128" "length user < 64" "length op < 16"
    and "expiry = 0 \<or> now \<le> expiry" and "mem (elem_size table')"
  shows "fst (redeem_ticket_claim mem now table' (token, user, file, op))"
  using assms by (rule issued_ticket_accepted)

theorem ticket_honoured_witness:
  "fst (redeem_ticket_claim (\<lambda>_. True) 50 (the (ticket_table_add (\<lambda>_. True) (ticket_table_init 1)
     ''t1'' ''f'' ''ann'' ''READ'' 99)) (''t1'', ''ann'', ''f'', ''READ''))"
proof -
  have "\<exists>table'. ticket_table_add (\<lambda>_. True) (ticket_table_init 1) ''t1'' ''f'' ''ann'' ''READ'' 99 = Some table'"
    unfolding ticket_table_add_def by (rule array_push_mem) simp
  then obtain table' where t:
    "ticket_table_add (\<lambda>_. True) (ticket_table_init 1) ''t1'' ''f'' ''ann'' ''READ'' 99 = Some table'" by blast
  from ticket_honoured [OF t, of 50] t show ?thesis by (simp del: redeem_ticket_claim.simps)
qed

end
