(* ===== verification/SS_Session.thy ===== *)
theory SS_Session
  imports SS_State
begin

text \<open>
  The write sessions of \<^verbatim>\<open>ss/ss_main.c\<close>: a client locks one sentence, edits its words, and
  commits. The commit re-reads the file, finds the sentence again (it may have moved
  because other sentences were edited meanwhile), replaces it, and saves the old text as
  undo text. Sentence and word indices are C \<^verbatim>\<open>int\<close>s; files have fewer than \<open>2 ^ 27\<close>
  sentences, so the casts of lengths to \<^verbatim>\<open>int\<close> and the scores do not overflow. Memory for
  strings is granted.

  The lemmas show what each edit does to the word list, that the merge loop replaces
  exactly one sentence, that the scored search finds the edited sentence, and that a
  commit is atomic and loses no text.
\<close>

section \<open>Sessions\<close>

record write_session =
  ws_active :: bool
  ws_sentence_index :: int
  ws_user :: string
  original_text :: "string option"
  sentence_text :: string
  baseline_sentence :: "string option"
  ws_sentences :: "string list"

definition write_session_init :: write_session where
  "write_session_init =
     \<lparr>ws_active = False, ws_sentence_index = -1, ws_user = [], original_text = None,
      sentence_text = [], baseline_sentence = None, ws_sentences = []\<rparr>"

definition write_session_begin :: "env \<Rightarrow> disk \<Rightarrow> ss_file \<Rightarrow> string \<Rightarrow> int \<Rightarrow> write_session res" where
  "write_session_begin env d file user sentence_index =
     (let txt = (case load_text env d (data_path file) of None \<Rightarrow> [] | Some t \<Rightarrow> t);
          sentences = split_sentences txt in
      if sentence_index < 0 \<or> int (length sentences) < sentence_index then Fail (Some EINVAL)
      else
        let s = write_session_init
              \<lparr>ws_active := True, ws_sentence_index := sentence_index, ws_user := buf SS_USER_MAX user,
               original_text := Some txt, ws_sentences := sentences\<rparr> in
        if sentence_index < int (length sentences) then
          let existing = sentences ! nat sentence_index in
          Ok (s\<lparr>sentence_text := existing, baseline_sentence := Some existing\<rparr>)
        else Ok (s\<lparr>sentence_text := [], baseline_sentence := None\<rparr>))"

text \<open>The insertion loop: word \<open>i\<close> of the new words goes to index \<open>index + i\<close>.\<close>

fun insert_words :: "nat \<Rightarrow> string list \<Rightarrow> string list \<Rightarrow> string list" where
  "insert_words idx [] words = words"
| "insert_words idx (w # ws) words = insert_words (Suc idx) ws (insert_at idx w words)"

text \<open>
  Appending at the end of a sentence that ends in a delimiter moves the delimiter behind
  the new words.
\<close>

definition relocates :: "string list \<Rightarrow> nat \<Rightarrow> bool" where
  "relocates words idx \<longleftrightarrow> idx = length words \<and> words \<noteq> [] \<and> last words \<noteq> [] \<and>
     is_sentence_delim_char (last (last words))"

definition insert_relocated :: "string list \<Rightarrow> nat \<Rightarrow> string list \<Rightarrow> string list" where
  "insert_relocated words idx new_words =
     (if relocates words idx then
        let delim = last (last words);
            words1 = words[length words - 1 := butlast (last words)];
            words2 = insert_words idx new_words words1;
            target = (if new_words \<noteq> [] then idx + length new_words - 1
                      else if words2 \<noteq> [] then length words2 - 1 else 0) in
        if target < length words2 then words2[target := words2 ! target @ [delim]] else words2
      else insert_words idx new_words words)"

definition write_session_apply_insert :: "write_session \<Rightarrow> int \<Rightarrow> string \<Rightarrow> write_session res" where
  "write_session_apply_insert session index content =
     (if \<not> ws_active session then Fail None
      else
        let words = split_words (sentence_text session) in
        if index < 0 then Fail (Some EINVAL)
        else if length words < nat index then Fail (Some EINVAL)
        else Ok (session\<lparr>sentence_text :=
               join_words (insert_relocated words (nat index) (split_words content))\<rparr>))"

definition write_session_apply_replace :: "write_session \<Rightarrow> int \<Rightarrow> string \<Rightarrow> write_session res" where
  "write_session_apply_replace session index content =
     (if \<not> ws_active session then Fail None
      else
        let words = split_words (sentence_text session) in
        if index < 0 then Fail (Some EINVAL)
        else if length words \<le> nat index then Fail (Some EINVAL)
        else Ok (session\<lparr>sentence_text :=
               join_words (insert_words (nat index) (split_words content) (remove_at (nat index) words))\<rparr>))"

definition write_session_apply_delete :: "write_session \<Rightarrow> int \<Rightarrow> write_session res" where
  "write_session_apply_delete session index =
     (if \<not> ws_active session then Fail None
      else
        let words = split_words (sentence_text session) in
        if index < 0 then Fail (Some EINVAL)
        else if words = [] \<or> length words \<le> nat index then Fail (Some EINVAL)
        else Ok (session\<lparr>sentence_text := join_words (remove_at (nat index) words)\<rparr>))"

section \<open>Commit\<close>

definition CONTEXT_MATCH_LIMIT :: nat where "CONTEXT_MATCH_LIMIT = 4"

text \<open>\<open>n\<close> is the number of iterations left, \<open>step\<close> the loop variable.\<close>

fun context_loop :: "nat \<Rightarrow> int \<Rightarrow> string list \<Rightarrow> string list \<Rightarrow> int \<Rightarrow> int \<Rightarrow> int \<Rightarrow> int" where
  "context_loop 0 step latest original candidate target direction = 0"
| "context_loop (Suc n) step latest original candidate target direction =
     (let orig_idx = target + direction * step;
          latest_idx = candidate + direction * step in
      if orig_idx < 0 \<or> int (length original) \<le> orig_idx \<or>
         latest_idx < 0 \<or> int (length latest) \<le> latest_idx then 0
      else if original ! nat orig_idx \<noteq> latest ! nat latest_idx then 0
      else 1 + context_loop n (step + 1) latest original candidate target direction)"

definition count_context_matches :: "string list \<Rightarrow> string list \<Rightarrow> int \<Rightarrow> int \<Rightarrow> int \<Rightarrow> int" where
  "count_context_matches latest original candidate target direction =
     context_loop CONTEXT_MATCH_LIMIT 1 latest original candidate target direction"

definition candidate_score :: "string list \<Rightarrow> string list \<Rightarrow> int \<Rightarrow> int \<Rightarrow> int" where
  "candidate_score latest original i target =
     count_context_matches latest original i target (-1) * 1000 +
     count_context_matches latest original i target 1 * 500 - \<bar>i - target\<bar> * 10 -
     (if i < target then 50 else 0)"

fun best_loop :: "string list \<Rightarrow> string list \<Rightarrow> string \<Rightarrow> int \<Rightarrow> nat \<Rightarrow> string list \<Rightarrow> int \<Rightarrow> int \<Rightarrow> int" where
  "best_loop latest original baseline target i [] best_score best_index = best_index"
| "best_loop latest original baseline target i (cand # rest) best_score best_index =
     (if cand \<noteq> baseline then best_loop latest original baseline target (Suc i) rest best_score best_index
      else
        let score = candidate_score latest original (int i) target in
        if best_score < score then best_loop latest original baseline target (Suc i) rest score (int i)
        else best_loop latest original baseline target (Suc i) rest best_score best_index)"

definition replacing_existing :: "write_session \<Rightarrow> bool" where
  "replacing_existing session \<longleftrightarrow> (case baseline_sentence session of None \<Rightarrow> False | Some b \<Rightarrow> b \<noteq> [])"

text \<open>Where the new sentences go, \<open>None\<close> when the edited sentence is gone (\<^verbatim>\<open>EAGAIN\<close>).\<close>

definition commit_index :: "write_session \<Rightarrow> string list \<Rightarrow> nat option" where
  "commit_index session latest =
     (let start = min (max 0 (ws_sentence_index session)) (int (length latest)) in
      if replacing_existing session then
        let best = best_loop latest (ws_sentences session) (the (baseline_sentence session))
              (ws_sentence_index session) 0 latest INT_MIN (-1) in
        if 0 \<le> best then Some (nat (min best (int (length latest)))) else None
      else Some (nat start))"

fun merge_loop :: "string list \<Rightarrow> nat \<Rightarrow> bool \<Rightarrow> nat \<Rightarrow> bool \<Rightarrow> bool \<Rightarrow> string list \<Rightarrow> string list \<Rightarrow> string list" where
  "merge_loop new_parts insert_index replacing i inserted removed merged [] =
     (if \<not> inserted then merged @ new_parts else merged)"
| "merge_loop new_parts insert_index replacing i inserted removed merged (segment # rest) =
     (let at = (i = insert_index);
          merged1 = (if \<not> inserted \<and> at then merged @ new_parts else merged);
          inserted1 = (inserted \<or> at) in
      if replacing \<and> \<not> removed \<and> at then
        merge_loop new_parts insert_index replacing (Suc i) inserted1 True merged1 rest
      else
        merge_loop new_parts insert_index replacing (Suc i) inserted1 removed (merged1 @ [segment]) rest)"

definition merge_sentences :: "string list \<Rightarrow> string list \<Rightarrow> nat \<Rightarrow> bool \<Rightarrow> string list" where
  "merge_sentences latest new_parts insert_index replacing =
     merge_loop new_parts insert_index replacing 0 False False [] latest"

definition file_text :: "env \<Rightarrow> disk \<Rightarrow> ss_file \<Rightarrow> string" where
  "file_text env d file = (case load_text env d (data_path file) of None \<Rightarrow> [] | Some t \<Rightarrow> t)"

text \<open>
  The new text with its word and character counts, and the disk. When the edited sentence is gone, this is the case in which
  the clean-up finds 0 in \<^verbatim>\<open>merged_init\<close>; see \<open>commit_on_stack\<close>.
\<close>

definition write_session_commit :: "env \<Rightarrow> disk \<Rightarrow> write_session \<Rightarrow> ss_file
    \<Rightarrow> (string \<times> nat \<times> nat) res \<times> disk" where
  "write_session_commit env d session file =
     (let current_text = file_text env d file;
          latest = split_sentences current_text;
          new_parts = split_sentences (sentence_text session) in
      case commit_index session latest of
        None \<Rightarrow> (Fail (Some EAGAIN), d)
      | Some insert_index \<Rightarrow>
          let txt = join_sentences (merge_sentences latest new_parts insert_index (replacing_existing session)) in
          (case store_text_atomic env d (undo_path file) current_text of
             (d1, False) \<Rightarrow> (Fail None, d1)
           | (d1, True) \<Rightarrow>
               (case store_text_atomic env d1 (data_path file) txt of
                  (d2, False) \<Rightarrow> (Fail None, d2)
                | (d2, True) \<Rightarrow> (Ok (txt, count_words_in_text txt, length txt), d2))))"

text \<open>
  The conflict path jumps to the label \<^verbatim>\<open>commit_fail\<close> over the declarations of \<^verbatim>\<open>merged\<close> and \<^verbatim>\<open>merged_init\<close>. What is in these two variables
  then is what the stack happens to hold, \<open>stack\<close>: when \<^verbatim>\<open>merged_init\<close> is not 0, \<^verbatim>\<open>string_array_clear\<close> frees whatever \<^verbatim>\<open>merged\<close> points to, and
  nothing is defined from there on. Everywhere else both are set before they are read.
\<close>

datatype 'a c_result = Defined 'a | Undefined

definition commit_fail :: "int \<Rightarrow> 'a \<Rightarrow> 'a c_result" where
  "commit_fail merged_init result = (if merged_init = 0 then Defined result else Undefined)"

definition commit_on_stack :: "int \<Rightarrow> env \<Rightarrow> disk \<Rightarrow> write_session \<Rightarrow> ss_file
    \<Rightarrow> ((string \<times> nat \<times> nat) res \<times> disk) c_result" where
  "commit_on_stack stack env d session file =
     (let current_text = file_text env d file;
          latest = split_sentences current_text;
          new_parts = split_sentences (sentence_text session) in
      case commit_index session latest of
        None \<Rightarrow> commit_fail stack (Fail (Some EAGAIN), d)
      | Some insert_index \<Rightarrow>
          let txt = join_sentences (merge_sentences latest new_parts insert_index (replacing_existing session)) in
          (case store_text_atomic env d (undo_path file) current_text of
             (d1, False) \<Rightarrow> Defined (Fail None, d1)
           | (d1, True) \<Rightarrow>
               (case store_text_atomic env d1 (data_path file) txt of
                  (d2, False) \<Rightarrow> Defined (Fail None, d2)
                | (d2, True) \<Rightarrow> Defined (Ok (txt, count_words_in_text txt, length txt), d2))))"

lemma commit_on_stack_eq:
  "commit_on_stack stack env d session file =
    (if commit_index session (split_sentences (file_text env d file)) = None then commit_fail stack (write_session_commit env d session file)
     else Defined (write_session_commit env d session file))"
  by (auto simp: commit_on_stack_def write_session_commit_def Let_def split: option.split prod.split bool.split)

section \<open>Edits\<close>

lemma insert_words_eq: "idx \<le> length words \<Longrightarrow> insert_words idx ws words = take idx words @ ws @ drop idx words"
proof (induction ws arbitrary: idx words)
  case Nil
  then show ?case by simp
next
  case (Cons w ws)
  then show ?case by (simp add: insert_at_def min_def)
qed

lemma insert_relocated_plain:
  "idx \<le> length words \<Longrightarrow> \<not> relocates words idx \<Longrightarrow>
    insert_relocated words idx ws = take idx words @ ws @ drop idx words"
  by (simp add: insert_relocated_def insert_words_eq)

lemma insert_relocated_moves:
  assumes "relocates words idx" and "ws \<noteq> []"
  shows "insert_relocated words idx ws =
    butlast words @ butlast (last words) # butlast ws @ [last ws @ [last (last words)]]"
proof -
  let ?w1 = "words[length words - 1 := butlast (last words)]"
  have r: "words \<noteq> []" "idx = length words" using assms(1) by (auto simp: relocates_def)
  have w1: "?w1 = butlast words @ [butlast (last words)]"
    using r(1) by (cases words rule: rev_cases) auto
  have "insert_words idx ws ?w1 = ?w1 @ ws" using r by (subst insert_words_eq) auto
  then have "insert_relocated words idx ws =
      (?w1 @ ws)[idx + length ws - 1 := (?w1 @ ws) ! (idx + length ws - 1) @ [last (last words)]]"
    using assms r by (simp add: insert_relocated_def Let_def)
  also have "idx + length ws - 1 = length ?w1 + (length ws - 1)"
    using assms(2) r by (cases ws) auto
  also have "(?w1 @ ws)[length ?w1 + (length ws - 1) := (?w1 @ ws) ! (length ?w1 + (length ws - 1)) @ [last (last words)]]
      = ?w1 @ ws[length ws - 1 := last ws @ [last (last words)]]"
    using assms(2) by (simp only: list_update_append nth_append_length_plus) (simp add: last_conv_nth)
  also have "ws[length ws - 1 := last ws @ [last (last words)]] = butlast ws @ [last ws @ [last (last words)]]"
    using assms(2) by (cases ws rule: rev_cases) auto
  finally show ?thesis unfolding w1 by simp
qed

section \<open>The merge loop replaces one sentence\<close>

lemma merge_loop_done: "insert_index < i \<Longrightarrow>
   merge_loop np insert_index rep i True rem merged rest = merged @ rest"
  by (induction rest arbitrary: i merged) auto

lemma merge_loop_eq:
  assumes "i \<le> insert_index"
  shows "merge_loop np insert_index rep i False False merged rest =
    merged @ take (insert_index - i) rest @ np @ drop (insert_index - i + (if rep then 1 else 0)) rest"
  using assms
proof (induction rest arbitrary: i merged)
  case Nil
  then show ?case by simp
next
  case (Cons s rest)
  show ?case
  proof (cases "i = insert_index")
    case True
    then show ?thesis by (auto simp: Let_def merge_loop_done)
  next
    case False
    with Cons.prems have le: "Suc i \<le> insert_index" by simp
    then have "insert_index - i = Suc (insert_index - Suc i)" by simp
    with False Cons.IH [OF le] show ?thesis by (simp add: Let_def)
  qed
qed

lemma merge_sentences_eq:
  "merge_sentences latest np k rep = take k latest @ np @ drop (k + (if rep then 1 else 0)) latest"
  by (simp add: merge_sentences_def merge_loop_eq)


section \<open>The search for the edited sentence\<close>

lemma context_loop_bounds: "0 \<le> context_loop n step l orig c t dir \<and> context_loop n step l orig c t dir \<le> int n"
  by (induction n step l orig c t dir rule: context_loop.induct) (auto simp: Let_def)

text \<open>A candidate never matches more context than the original position has.\<close>

lemma context_loop_before: "context_loop n step l orig c t (-1) \<le> max 0 (t - step + 1)"
proof (induction n arbitrary: step)
  case (Suc n)
  from Suc [of "step + 1"] show ?case by (auto simp: Let_def)
qed simp

lemma context_loop_after: "context_loop n step l orig c t 1 \<le> max 0 (int (length orig) - t - step)"
proof (induction n arbitrary: step)
  case (Suc n)
  from Suc [of "step + 1"] show ?case by (auto simp: Let_def)
qed simp

text \<open>At the original position of an unchanged list all the context matches.\<close>

lemma context_loop_same_before:
  "1 \<le> step \<Longrightarrow> t < int (length l) \<Longrightarrow> context_loop n step l l t t (-1) = min (int n) (max 0 (t - step + 1))"
proof (induction n arbitrary: step)
  case (Suc n)
  from Suc.IH [of "step + 1"] Suc.prems show ?case by (auto simp: Let_def)
qed simp

lemma context_loop_same_after:
  "1 \<le> step \<Longrightarrow> 0 \<le> t \<Longrightarrow> context_loop n step l l t t 1 = min (int n) (max 0 (int (length l) - t - step))"
proof (induction n arbitrary: step)
  case (Suc n)
  from Suc.IH [of "step + 1"] Suc.prems show ?case by (auto simp: Let_def)
qed simp

lemma candidate_score_same:
  assumes "0 \<le> t" and "t < int (length l)" and "c \<noteq> t"
  shows "candidate_score l l c t < candidate_score l l t t"
proof -
  let ?p = "\<lambda>c. context_loop CONTEXT_MATCH_LIMIT 1 l l c t (-1)"
  let ?s = "\<lambda>c. context_loop CONTEXT_MATCH_LIMIT 1 l l c t 1"
  have "?p c \<le> ?p t"
    using context_loop_same_before [of 1 t l CONTEXT_MATCH_LIMIT] assms(1,2)
      context_loop_before [of CONTEXT_MATCH_LIMIT 1 l l c t]
      context_loop_bounds [of CONTEXT_MATCH_LIMIT 1 l l c t "-1"] by simp
  moreover have "?s c \<le> ?s t"
    using context_loop_same_after [of 1 t CONTEXT_MATCH_LIMIT l] assms(1,2)
      context_loop_after [of CONTEXT_MATCH_LIMIT 1 l l c t]
      context_loop_bounds [of CONTEXT_MATCH_LIMIT 1 l l c t 1] by simp
  ultimately show ?thesis
    using assms(3) by (simp add: candidate_score_def count_context_matches_def)
qed

lemma score_above_min: "\<bar>i - t\<bar> < 2 ^ 27 \<Longrightarrow> INT_MIN < candidate_score l orig i t"
  using context_loop_bounds [of CONTEXT_MATCH_LIMIT 1 l orig i t "-1"]
    context_loop_bounds [of CONTEXT_MATCH_LIMIT 1 l orig i t 1]
  by (auto simp: candidate_score_def count_context_matches_def INT_MIN_def)

text \<open>
  The loop returns a best candidate: an occurrence of the baseline whose score no other
  occurrence exceeds.
\<close>

definition best_candidate :: "string list \<Rightarrow> string list \<Rightarrow> string \<Rightarrow> int \<Rightarrow> nat \<Rightarrow> bool" where
  "best_candidate latest original b target k \<longleftrightarrow> k < length latest \<and> latest ! k = b \<and>
     (\<forall>j < length latest. latest ! j = b \<longrightarrow>
        candidate_score latest original (int j) target \<le> candidate_score latest original (int k) target)"

lemma best_loop_correct:
  assumes "latest = pre @ rest" and "i = length pre"
    and "\<forall>j < length latest. \<bar>int j - target\<bar> < 2 ^ 27"
    and "(bi = -1 \<and> bs = INT_MIN \<and> b \<notin> set pre) \<or>
      (0 \<le> bi \<and> nat bi < i \<and> latest ! nat bi = b \<and> bs = candidate_score latest original bi target \<and>
       (\<forall>j < i. latest ! j = b \<longrightarrow> candidate_score latest original (int j) target \<le> bs))"
  shows "(b \<notin> set latest \<and> best_loop latest original b target i rest bs bi = -1) \<or>
    (\<exists>k. best_loop latest original b target i rest bs bi = int k \<and> best_candidate latest original b target k)"
  using assms
proof (induction rest arbitrary: pre i bs bi)
  case Nil
  then show ?case
    by (auto simp: best_candidate_def intro!: exI [of _ "nat bi"])
next
  case (Cons c rest)
  let ?sc = "candidate_score latest original (int i) target"
  have len: "i < length latest" and at: "latest ! i = c" using Cons.prems(1,2) by auto
  have next1: "latest = (pre @ [c]) @ rest" "Suc i = length (pre @ [c])" using Cons.prems(1,2) by auto
  have before: "j < i \<Longrightarrow> latest ! j = b \<Longrightarrow> b \<in> set pre" for j
    using Cons.prems(1,2) by (auto simp: nth_append)
  consider (other) "c \<noteq> b" | (better) "c = b" "bs < ?sc" | (worse) "c = b" "\<not> bs < ?sc" by blast
  then show ?case
  proof cases
    case other
    have "(bi = -1 \<and> bs = INT_MIN \<and> b \<notin> set (pre @ [c])) \<or>
      (0 \<le> bi \<and> nat bi < Suc i \<and> latest ! nat bi = b \<and> bs = candidate_score latest original bi target \<and>
       (\<forall>j < Suc i. latest ! j = b \<longrightarrow> candidate_score latest original (int j) target \<le> bs))"
      using Cons.prems(4) other at by (auto simp: less_Suc_eq)
    from Cons.IH [OF next1 Cons.prems(3) this] other show ?thesis by simp
  next
    case better
    have "(int i = -1 \<and> ?sc = INT_MIN \<and> b \<notin> set (pre @ [c])) \<or>
      (0 \<le> int i \<and> nat (int i) < Suc i \<and> latest ! nat (int i) = b \<and> ?sc = ?sc \<and>
       (\<forall>j < Suc i. latest ! j = b \<longrightarrow> candidate_score latest original (int j) target \<le> ?sc))"
      using Cons.prems(4) better at before by (fastforce simp: less_Suc_eq)
    from Cons.IH [OF next1 Cons.prems(3) this] better show ?thesis by (simp add: Let_def)
  next
    case worse
    have "bi \<noteq> -1"
      using score_above_min [of "int i" target latest original] Cons.prems(3,4) len worse by auto
    then have "(bi = -1 \<and> bs = INT_MIN \<and> b \<notin> set (pre @ [c])) \<or>
      (0 \<le> bi \<and> nat bi < Suc i \<and> latest ! nat bi = b \<and> bs = candidate_score latest original bi target \<and>
       (\<forall>j < Suc i. latest ! j = b \<longrightarrow> candidate_score latest original (int j) target \<le> bs))"
      using Cons.prems(4) worse by (auto simp: less_Suc_eq)
    from Cons.IH [OF next1 Cons.prems(3) this] worse show ?thesis by (simp add: Let_def)
  qed
qed

text \<open>The bound on the sizes under which no \<^verbatim>\<open>int\<close> of the search overflows.\<close>

definition commit_bounds :: "write_session \<Rightarrow> string list \<Rightarrow> bool" where
  "commit_bounds session latest \<longleftrightarrow> 0 \<le> ws_sentence_index session \<and>
     ws_sentence_index session < 2 ^ 27 \<and> int (length latest) < 2 ^ 27"

lemma commit_index_replacing:
  assumes "commit_bounds session latest" and "baseline_sentence session = Some b" and "b \<noteq> []"
  shows "b \<notin> set latest \<Longrightarrow> commit_index session latest = None"
    and "b \<in> set latest \<Longrightarrow> \<exists>k. commit_index session latest = Some k \<and>
      best_candidate latest (ws_sentences session) b (ws_sentence_index session) k"
proof -
  let ?t = "ws_sentence_index session"
  have rep: "replacing_existing session" using assms by (simp add: replacing_existing_def)
  have near: "\<forall>j < length latest. \<bar>int j - ?t\<bar> < 2 ^ 27"
    using assms(1) by (auto simp: commit_bounds_def)
  have "(b \<notin> set latest \<and> best_loop latest (ws_sentences session) b ?t 0 latest INT_MIN (-1) = -1) \<or>
    (\<exists>k. best_loop latest (ws_sentences session) b ?t 0 latest INT_MIN (-1) = int k \<and>
       best_candidate latest (ws_sentences session) b ?t k)"
    by (rule best_loop_correct [where pre = "[]"]) (use near in auto)
  then consider (none) "b \<notin> set latest" "best_loop latest (ws_sentences session) b ?t 0 latest INT_MIN (-1) = -1"
    | (some) k where "best_loop latest (ws_sentences session) b ?t 0 latest INT_MIN (-1) = int k"
      "best_candidate latest (ws_sentences session) b ?t k" by blast
  note cases = this
  have best_in: "best_candidate latest orig b t k \<Longrightarrow> b \<in> set latest" for orig t k
    by (auto simp: best_candidate_def)
  show "commit_index session latest = None" if "b \<notin> set latest"
    using cases
  proof cases
    case none
    then show ?thesis using rep assms(2) by (simp add: commit_index_def)
  qed (use that best_in in blast)
  show "\<exists>k. commit_index session latest = Some k \<and> best_candidate latest (ws_sentences session) b ?t k"
    if "b \<in> set latest"
    using cases
  proof cases
    case (some k)
    then have "k < length latest" by (simp add: best_candidate_def)
    then show ?thesis using some rep assms(2) by (auto simp: commit_index_def min_def)
  qed (use that in blast)
qed


lemma commit_index_unchanged:
  assumes "commit_bounds session latest" and "ws_sentences session = latest"
    and "ws_sentence_index session < int (length latest)"
    and "baseline_sentence session = Some (latest ! nat (ws_sentence_index session))"
    and "latest ! nat (ws_sentence_index session) \<noteq> []"
  shows "commit_index session latest = Some (nat (ws_sentence_index session))"
proof -
  let ?t = "ws_sentence_index session"
  have t: "0 \<le> ?t" "nat ?t < length latest" using assms(1,3) by (auto simp: commit_bounds_def)
  then have "latest ! nat ?t \<in> set latest" by simp
  from commit_index_replacing(2) [OF assms(1,4,5) this] obtain k
    where k: "commit_index session latest = Some k"
      "best_candidate latest latest (latest ! nat ?t) ?t k"
    using assms(2) by blast
  have "candidate_score latest latest (int (nat ?t)) ?t \<le> candidate_score latest latest (int k) ?t"
    using k(2) t(2) unfolding best_candidate_def by blast
  then have "int k = ?t"
    using candidate_score_same [of ?t latest "int k"] t assms(3) by fastforce
  with k(1) show ?thesis by auto
qed

lemma commit_index_unique:
  assumes "commit_bounds session (pre @ b # post)" and "baseline_sentence session = Some b" and "b \<noteq> []"
    and "b \<notin> set pre" and "b \<notin> set post"
  shows "commit_index session (pre @ b # post) = Some (length pre)"
proof -
  obtain k where k: "commit_index session (pre @ b # post) = Some k"
    "best_candidate (pre @ b # post) (ws_sentences session) b (ws_sentence_index session) k"
    using commit_index_replacing(2) [OF assms(1-3)] by auto
  then have "k < length (pre @ b # post)" "(pre @ b # post) ! k = b" by (auto simp: best_candidate_def)
  then have "k = length pre"
    using assms(4,5) by (auto simp: nth_append nth_Cons' split: if_splits dest: nth_mem)
  with k(1) show ?thesis by simp
qed

section \<open>What a commit does\<close>

lemma write_session_commit_Ok:
  assumes "write_session_commit env d session file = (Ok (txt, words, chars), d')"
  obtains k where "commit_index session (split_sentences (file_text env d file)) = Some k"
    "txt = join_sentences (take k (split_sentences (file_text env d file)) @
       split_sentences (sentence_text session) @
       drop (k + (if replacing_existing session then 1 else 0)) (split_sentences (file_text env d file)))"
    "words = length (split_words txt)" "chars = length txt"
    "disk.save_pair env d (undo_path file) (file_text env d file) (data_path file) txt = (d', True)"
  using assms
  by (auto simp: write_session_commit_def Let_def merge_sentences_eq count_words_split disk.save_pair_def
      split: option.splits prod.splits bool.splits)

lemma write_session_commit_Fail:
  assumes "write_session_commit env d session file = (Fail e, d')"
  shows "(e = Some EAGAIN \<and> d' = d \<and> commit_index session (split_sentences (file_text env d file)) = None) \<or>
    (e = None \<and> (\<exists>txt. disk.save_pair env d (undo_path file) (file_text env d file) (data_path file) txt = (d', False)))"
  using assms
  by (auto simp: write_session_commit_def Let_def disk.save_pair_def split: option.splits prod.splits bool.splits)


section \<open>Text\<close>

lemma push_nonempty_chars: "\<Union> (set ` set (push_nonempty out b)) \<subseteq> \<Union> (set ` set out) \<union> set b"
  using set_trim [of b] by (auto simp: push_nonempty_def Let_def)

lemma split_loop_chars:
  "\<Union> (set ` set (split_sentences_loop out b p)) \<subseteq> \<Union> (set ` set out) \<union> set b \<union> set p \<union> {SPACE}"
proof (induction p arbitrary: out b)
  case Nil
  then show ?case using push_nonempty_chars [of out b] by auto
next
  case (Cons c p)
  have n: "norm_char c \<in> {c, SPACE}" by (simp add: norm_char_def)
  show ?case
    using Cons [of "push_nonempty out (b @ [norm_char c])" "[]"] Cons [of out "b @ [norm_char c]"] n
      push_nonempty_chars [of out "b @ [norm_char c]"]
    unfolding split_loop_Cons by (auto split: if_splits) blast+
qed

lemma split_sentences_chars: "s \<in> set (split_sentences p) \<Longrightarrow> set s \<subseteq> set p \<union> {SPACE}"
  using split_loop_chars [of "[]" "[]" p] by (auto simp: split_sentences_def)

lemma join_sentences_chars: "set (join_sentences ss) \<subseteq> \<Union> (set ` set ss) \<union> {NEWLINE}"
  by (induction ss rule: join_sentences.induct) auto

lemma join_sentences_cstring:
  assumes "\<forall>s \<in> set ss. is_cstring s"
  shows "is_cstring (join_sentences ss)"
  using join_sentences_chars [of ss] assms by (auto simp: is_cstring_def)

lemma split_sentences_cstring: "is_cstring p \<Longrightarrow> s \<in> set (split_sentences p) \<Longrightarrow> is_cstring s"
  using split_sentences_chars [of s p] by (auto simp: is_cstring_def)

lemma file_text_cstring: "is_cstring (file_text env d file)"
  by (cases "load_text env d (data_path file)")
    (simp_all add: file_text_def load_text_cstring, simp add: is_cstring_def)

lemma merged_cstring:
  assumes "is_cstring cur" and "is_cstring new"
  shows "is_cstring (join_sentences (take k (split_sentences cur) @ split_sentences new @ drop j (split_sentences cur)))"
  by (rule join_sentences_cstring)
    (use assms split_sentences_cstring in \<open>auto dest: in_set_takeD in_set_dropD\<close>)

text \<open>A session whose file has not changed finds its own sentence again.\<close>

lemma begun_session_index:
  assumes "write_session_begin env d file user i = Ok s0"
    and "i < int (length (split_sentences (file_text env d file)))"
    and "int (length (split_sentences (file_text env d file))) < 2 ^ 27"
  shows "commit_index (s0\<lparr>sentence_text := t\<rparr>) (split_sentences (file_text env d file)) = Some (nat i)"
    and "replacing_existing (s0\<lparr>sentence_text := t\<rparr>)"
proof -
  let ?ss = "split_sentences (file_text env d file)"
  have i: "0 \<le> i" and s0: "ws_sentences s0 = ?ss" "ws_sentence_index s0 = i"
    "baseline_sentence s0 = Some (?ss ! nat i)"
    using assms(1,2) by (auto simp: write_session_begin_def Let_def file_text_def split: if_splits)
  have ne: "?ss ! nat i \<noteq> []"
    using split_sentences_ok [of "file_text env d file"] assms(2) i
    by (auto simp: sentences_ok_def is_sentence_def)
  show "commit_index (s0\<lparr>sentence_text := t\<rparr>) ?ss = Some (nat i)"
    using commit_index_unchanged [of "s0\<lparr>sentence_text := t\<rparr>" ?ss] s0 ne i assms(2,3)
    by (simp add: commit_bounds_def)
  show "replacing_existing (s0\<lparr>sentence_text := t\<rparr>)"
    using s0(3) ne by (simp add: replacing_existing_def)
qed

text \<open>
  \<open>doc_paths_ok\<close>: the data and undo paths of the file differ and neither is the other's
  temporary file; both can be read.
\<close>

definition doc_paths_ok :: "env \<Rightarrow> ss_file \<Rightarrow> bool" where
  "doc_paths_ok env f \<longleftrightarrow> disk.apart (undo_path f) (data_path f) \<and>
     rd_ok env (undo_path f) \<and> rd_ok env (data_path f)"

lemma commit_stores:
  assumes "write_session_commit env d session file = (Ok (txt, words, chars), d')"
    and "doc_paths_ok env file" and "is_cstring (sentence_text session)"
  shows "load_text env d' (data_path file) = Some txt"
    and "load_text env d' (undo_path file) = Some (file_text env d file)"
  using assms
  by (auto elim!: write_session_commit_Ok simp: doc_paths_ok_def merged_cstring file_text_cstring
      dest: disk.save_pair_ok)

lemma commit_fails_unchanged:
  assumes "write_session_commit env d session file = (Fail e, d')" and "doc_paths_ok env file"
  shows "load_text env d' (data_path file) = load_text env d (data_path file)"
  using write_session_commit_Fail [OF assms(1)] assms(2)
  by (auto simp: doc_paths_ok_def dest: disk.save_pair_fail)


text \<open>It holds for the directories the server sets up when no path is cut off.\<close>

lemma doc_paths_ok_standard:
  assumes "files_dir st = dir @ ''/files''" and "undo_dir st = dir @ ''/undo''"
    and "length dir + length name < 480" and "\<And>p. rd_ok env p"
  shows "doc_paths_ok env (fill_paths st name f)"
proof -
  have "data_path (fill_paths st name f) = dir @ ''/files/'' @ name"
    "undo_path (fill_paths st name f) = dir @ ''/undo/'' @ name @ ''.undo''"
    using assms(1-3) by (simp_all add: fill_paths_def)
  moreover have "tmp_path (dir @ ''/files/'' @ name) = dir @ ''/files/'' @ name @ ''.tmp''"
    "tmp_path (dir @ ''/undo/'' @ name @ ''.undo'') = dir @ ''/undo/'' @ name @ ''.undo.tmp''"
    using assms(3) by (simp_all add: tmp_path_def)
  ultimately show ?thesis using assms(4) by (simp add: doc_paths_ok_def disk.apart_def)
qed

section \<open>A small document\<close>

text \<open>A three-sentence document and a session editing its middle sentence, for the examples below.\<close>

definition demo_file :: ss_file where
  "demo_file = \<lparr>sf_name = ''f'', sf_owner = ''ann'', data_path = ''files/f'', meta_path = ''meta/f.meta'',
     undo_path = ''undo/f.undo'', sf_created = 1, sf_modified = 1, sf_last_access = 1,
     sf_last_access_user = ''ann'', sf_word_count = 3, sf_char_count = 8, lock_active = False,
     lock_user = [], lock_sentence = -1\<rparr>"

definition demo_disk :: disk where
  "demo_disk = [''files/f'' \<mapsto> ''A. B. C.'']"

definition demo_session :: write_session where
  "demo_session = write_session_init\<lparr>ws_active := True, ws_sentence_index := 1, ws_user := ''ann'',
     original_text := Some ''A. B. C.'', sentence_text := ''X. Y.'', baseline_sentence := Some ''B.'',
     ws_sentences := [''A.'', ''B.'', ''C.'']\<rparr>"

lemmas demo_defs = demo_file_def demo_disk_def demo_session_def write_session_init_def good_env_def

lemma demo_text: "file_text good_env demo_disk demo_file = ''A. B. C.''"
  by (simp add: file_text_def load_text_def demo_defs cstring_def)

lemma demo_sentences: "split_sentences ''A. B. C.'' = [''A.'', ''B.'', ''C.'']"
  by code_simp

lemma demo_paths: "doc_paths_ok good_env demo_file"
  by (simp add: doc_paths_ok_def disk.apart_def demo_defs tmp_path_def buf_def)

lemma demo_bounds: "commit_bounds demo_session [''A.'', ''B.'', ''C.'']"
  by (simp add: commit_bounds_def demo_defs)

lemma demo_commit:
  obtains d' where "write_session_commit good_env demo_disk demo_session demo_file =
    (Ok (''A.'' @ NEWLINE # ''X.'' @ NEWLINE # ''Y.'' @ NEWLINE # ''C.'', 4, 11), d')"
proof -
  have "fst (write_session_commit good_env demo_disk demo_session demo_file) =
    Ok (''A.'' @ NEWLINE # ''X.'' @ NEWLINE # ''Y.'' @ NEWLINE # ''C.'', 4, 11)"
    by code_simp
  then show thesis using that by (metis prod.collapse)
qed

section \<open>Properties\<close>

text \<open>Inserting words into the open sentence. With an index in range the edit succeeds and
  the words of the sentence become the old words with the new ones inserted at the index;
  when words are appended behind a final delimiter, the delimiter moves to the new end.
  Any other index is rejected with \<^verbatim>\<open>EINVAL\<close>.\<close>

theorem insert_edit_words:
  assumes "ws_active s" and "words = split_words (sentence_text s)" and "new = split_words content"
  shows "(i < 0 \<or> int (length words) < i \<longrightarrow> write_session_apply_insert s i content = Fail (Some EINVAL)) \<and>
    (0 \<le> i \<and> i \<le> int (length words) \<longrightarrow>
      (\<exists>s'. write_session_apply_insert s i content = Ok s' \<and> s' = s\<lparr>sentence_text := sentence_text s'\<rparr> \<and>
        (\<not> relocates words (nat i) \<longrightarrow>
          split_words (sentence_text s') = take (nat i) words @ new @ drop (nat i) words) \<and>
        (relocates words (nat i) \<and> new \<noteq> [] \<and> 1 < length (last words) \<longrightarrow>
          split_words (sentence_text s') =
            butlast words @ butlast (last words) # butlast new @ [last new @ [last (last words)]])))"
proof -
  have wd: "\<forall>w \<in> set words. is_word w" "\<forall>w \<in> set new. is_word w"
    using assms(2,3) split_words_is_word by auto
  have plain: "split_words (join_words (take k words @ new @ drop k words)) = take k words @ new @ drop k words" for k
    using wd by (intro split_join_words) (auto dest: in_set_takeD in_set_dropD)
  have moved: "split_words (join_words (insert_relocated words k new)) =
      butlast words @ butlast (last words) # butlast new @ [last new @ [last (last words)]]"
    if "relocates words k" "new \<noteq> []" "1 < length (last words)" for k
  proof -
    have ne: "words \<noteq> []" using that(1) by (simp add: relocates_def)
    have lw: "is_word (last words)" "is_word (last new)" using wd ne that(2) by auto
    have "is_word (butlast (last words))"
      using lw(1) that(3) by (cases "last words" rule: rev_cases) (auto simp: is_word_def)
    moreover have "is_word (last new @ [last (last words)])"
      using lw by (auto simp: is_word_def)
    ultimately show ?thesis
      unfolding insert_relocated_moves [OF that(1,2)]
      by (intro split_join_words) (use wd in \<open>auto dest: in_set_butlastD\<close>)
  qed
  show ?thesis
    using assms(1) plain moved insert_relocated_plain
    by (auto simp: write_session_apply_insert_def Let_def simp flip: assms(2,3))
qed


theorem insert_edit_words_witness:
  "\<exists>s'. write_session_apply_insert
      (write_session_init\<lparr>ws_active := True, sentence_text := ''Hi there.''\<rparr>) 2 ''big world'' = Ok s' \<and>
    split_words (sentence_text s') = [''Hi'', ''there'', ''big'', ''world.'']"
proof -
  have "split_words ''Hi there.'' = [''Hi'', ''there.'']" "split_words ''big world'' = [''big'', ''world'']"
    by (simp_all add: split_words.simps is_blank_def)
  moreover have "relocates [''Hi'', ''there.''] 2"
    by (simp add: relocates_def is_sentence_delim_char_def)
  ultimately show ?thesis
    using insert_edit_words [of "write_session_init\<lparr>ws_active := True, sentence_text := ''Hi there.''\<rparr>"
        "[''Hi'', ''there.'']" "[''big'', ''world'']" "''big world''" 2] by force
qed

text \<open>Replacing and deleting words. With the index of an existing word, \<^verbatim>\<open>replace\<close> puts the
  new words in its place and \<^verbatim>\<open>delete\<close> removes it, leaving the other words alone; any
  other index is rejected with \<^verbatim>\<open>EINVAL\<close>.\<close>

theorem replace_delete_words:
  assumes "ws_active s" and "words = split_words (sentence_text s)"
  shows "(i < 0 \<or> int (length words) \<le> i \<longrightarrow> write_session_apply_replace s i content = Fail (Some EINVAL) \<and>
      write_session_apply_delete s i = Fail (Some EINVAL)) \<and>
    (0 \<le> i \<and> i < int (length words) \<longrightarrow>
      (\<exists>r del. write_session_apply_replace s i content = Ok r \<and> write_session_apply_delete s i = Ok del \<and>
        split_words (sentence_text r) = take (nat i) words @ split_words content @ drop (nat i + 1) words \<and>
        split_words (sentence_text del) = take (nat i) words @ drop (nat i + 1) words))"
proof -
  have wd: "\<forall>w \<in> set words. is_word w" "\<forall>w \<in> set (split_words content). is_word w"
    using assms(2) split_words_is_word by auto
  have ins: "insert_words k (split_words content) (remove_at k words) =
      take k words @ split_words content @ drop (Suc k) words" if "k < length words" for k
    using that by (subst insert_words_eq) (auto simp: remove_at_def)
  have "split_words (join_words (take k words @ split_words content @ drop (Suc k) words)) =
      take k words @ split_words content @ drop (Suc k) words"
    "split_words (join_words (remove_at k words)) = remove_at k words" for k
    unfolding remove_at_def
    by (rule split_join_words; use wd in \<open>auto dest: in_set_takeD in_set_dropD\<close>)+
  with assms(1) ins show ?thesis
    by (auto simp: write_session_apply_replace_def write_session_apply_delete_def Let_def remove_at_def
        simp flip: assms(2))
qed

theorem replace_delete_words_witness:
  "\<exists>r. write_session_apply_replace
      (write_session_init\<lparr>ws_active := True, sentence_text := ''a b c.''\<rparr>) 1 ''x y'' = Ok r \<and>
    split_words (sentence_text r) = [''a'', ''x'', ''y'', ''c.'']"
proof -
  have "split_words ''a b c.'' = [''a'', ''b'', ''c.'']" "split_words ''x y'' = [''x'', ''y'']"
    by (simp_all add: split_words.simps is_blank_def)
  then show ?thesis
    using replace_delete_words [of "write_session_init\<lparr>ws_active := True, sentence_text := ''a b c.''\<rparr>"
        "[''a'', ''b'', ''c.'']" 1 "''x y''"] by force
qed

text \<open>C4: Merging with concurrent edits. When the sentence the session started from still occurs
  once in the file, wherever it moved and whatever else changed around it, a successful
  commit stores the file with exactly that occurrence replaced by the sentences of the
  edited text, saves the previous text as undo text, and reports the counts of the new
  text.\<close>

theorem commit_merges:
  assumes "write_session_commit env d session file = (Ok (txt, words, chars), d')"
    and "split_sentences (file_text env d file) = pre @ b # post"
    and "b \<notin> set pre" and "b \<notin> set post" and "b \<noteq> []" and "baseline_sentence session = Some b"
    and "commit_bounds session (pre @ b # post)" and "is_cstring (sentence_text session)"
    and "doc_paths_ok env file"
  shows "load_text env d' (data_path file) = Some (join_sentences (pre @ split_sentences (sentence_text session) @ post)) \<and>
    load_text env d' (undo_path file) = Some (file_text env d file) \<and>
    txt = join_sentences (pre @ split_sentences (sentence_text session) @ post) \<and>
    words = length (split_words txt) \<and> chars = length txt"
proof -
  have rep: "replacing_existing session" using assms(5,6) by (simp add: replacing_existing_def)
  have idx: "commit_index session (pre @ b # post) = Some (length pre)"
    by (rule commit_index_unique [OF assms(7,6,5,3,4)])
  obtain k where k: "commit_index session (split_sentences (file_text env d file)) = Some k"
    "txt = join_sentences (take k (split_sentences (file_text env d file)) @
       split_sentences (sentence_text session) @
       drop (k + (if replacing_existing session then 1 else 0)) (split_sentences (file_text env d file)))"
    "words = length (split_words txt)" "chars = length txt"
    using assms(1) by (rule write_session_commit_Ok) blast
  have "txt = join_sentences (pre @ split_sentences (sentence_text session) @ post)"
    using k idx rep assms(2) by simp
  with k(3,4) commit_stores [OF assms(1,9,8)] show ?thesis by simp
qed


theorem commit_merges_witness:
  "\<exists>d'. load_text good_env d' (data_path demo_file) =
      Some (''A.'' @ NEWLINE # ''X.'' @ NEWLINE # ''Y.'' @ NEWLINE # ''C.'') \<and>
    load_text good_env d' (undo_path demo_file) = Some ''A. B. C.'' \<and>
    snd (write_session_commit good_env demo_disk demo_session demo_file) = d'"
proof -
  obtain d' where d': "write_session_commit good_env demo_disk demo_session demo_file =
    (Ok (''A.'' @ NEWLINE # ''X.'' @ NEWLINE # ''Y.'' @ NEWLINE # ''C.'', 4, 11), d')" by (rule demo_commit)
  have "load_text good_env d' (data_path demo_file) =
      Some (''A.'' @ NEWLINE # ''X.'' @ NEWLINE # ''Y.'' @ NEWLINE # ''C.'') \<and>
    load_text good_env d' (undo_path demo_file) = Some (file_text good_env demo_disk demo_file)"
    using commit_merges [OF d', of "[''A.'']" "''B.''" "[''C.'']"] demo_bounds demo_paths
    by (auto simp: demo_text demo_sentences demo_session_def is_cstring_def)
  then show ?thesis using d' by (auto simp: demo_text)
qed



text \<open>A session without interference. If the file has not changed since the session began,
  a successful commit replaces exactly the sentence the session was opened on, even when
  equal sentences occur elsewhere in the file.\<close>

theorem commit_own_sentence:
  assumes "write_session_begin env d file user i = Ok s0"
    and "i < int (length (split_sentences (file_text env d file)))"
    and "int (length (split_sentences (file_text env d file))) < 2 ^ 27"
    and "write_session_commit env d (s0\<lparr>sentence_text := t\<rparr>) file = (Ok (txt, words, chars), d')"
  shows "txt = join_sentences (take (nat i) (split_sentences (file_text env d file)) @ split_sentences t @
    drop (nat i + 1) (split_sentences (file_text env d file)))"
  using begun_session_index [OF assms(1-3), of t] assms(4) by (auto elim!: write_session_commit_Ok)

theorem commit_own_sentence_witness:
  "\<exists>s0 d'. write_session_begin good_env demo_disk demo_file ''ann'' 1 = Ok s0 \<and>
    write_session_commit good_env demo_disk (s0\<lparr>sentence_text := ''X. Y.''\<rparr>) demo_file =
      (Ok (join_sentences ([''A.''] @ split_sentences ''X. Y.'' @ [''C.'']), 4, 11), d')"
proof -
  have ln: "load_text good_env demo_disk (data_path demo_file) = Some ''A. B. C.''"
    by (simp add: load_text_def demo_defs cstring_def)
  have s0: "write_session_begin good_env demo_disk demo_file ''ann'' 1 =
      Ok (demo_session\<lparr>sentence_text := ''B.''\<rparr>)"
    by (simp add: write_session_begin_def ln demo_sentences Let_def)
      (simp add: demo_session_def write_session_init_def SS_USER_MAX_def)
  have same: "(demo_session\<lparr>sentence_text := ''B.''\<rparr>)\<lparr>sentence_text := ''X. Y.''\<rparr> = demo_session"
    by (simp add: demo_session_def)
  obtain d' where d': "write_session_commit good_env demo_disk demo_session demo_file =
    (Ok (''A.'' @ NEWLINE # ''X.'' @ NEWLINE # ''Y.'' @ NEWLINE # ''C.'', 4, 11), d')" by (rule demo_commit)
  have "''A.'' @ NEWLINE # ''X.'' @ NEWLINE # ''Y.'' @ NEWLINE # ''C.'' =
      join_sentences ([''A.''] @ split_sentences ''X. Y.'' @ [''C.''])"
    using commit_own_sentence [OF s0, of "''X. Y.''"] d' same by (simp add: demo_text demo_sentences)
  with s0 same d' show ?thesis by auto
qed


text \<open>No text is lost. Apart from blanks, the text a commit stores is the old text with the
  replaced sentence (or, when appending, nothing) taken out at the chosen position and the
  edited text put there.\<close>

theorem commit_keeps_text:
  assumes "write_session_commit env d session file = (Ok (txt, words, chars), d')"
  shows "\<exists>k. commit_index session (split_sentences (file_text env d file)) = Some k \<and>
    nonblank txt = concat (map nonblank (take k (split_sentences (file_text env d file)))) @
      nonblank (sentence_text session) @
      concat (map nonblank (drop (k + (if replacing_existing session then 1 else 0))
        (split_sentences (file_text env d file))))"
proof -
  have "concat (map nonblank (split_sentences (sentence_text session))) = nonblank (sentence_text session)"
    using split_loop_nonblank [of "[]" "[]"] by (simp add: split_sentences_def)
  with assms show ?thesis by (auto elim!: write_session_commit_Ok simp: nonblank_join)
qed

theorem commit_keeps_text_witness:
  "\<exists>k. commit_index demo_session [''A.'', ''B.'', ''C.''] = Some k \<and>
    ''A.X.Y.C.'' = concat (map nonblank (take k [''A.'', ''B.'', ''C.''])) @ nonblank ''X. Y.'' @
      concat (map nonblank (drop (k + 1) [''A.'', ''B.'', ''C.'']))"
proof -
  obtain d' where d': "write_session_commit good_env demo_disk demo_session demo_file =
    (Ok (''A.'' @ NEWLINE # ''X.'' @ NEWLINE # ''Y.'' @ NEWLINE # ''C.'', 4, 11), d')" by (rule demo_commit)
  have "nonblank (''A.'' @ NEWLINE # ''X.'' @ NEWLINE # ''Y.'' @ NEWLINE # ''C.'') = ''A.X.Y.C.''"
    by (simp add: nonblank_def is_blank_def)
  moreover have "replacing_existing demo_session" "sentence_text demo_session = ''X. Y.''"
    by (simp_all add: replacing_existing_def demo_session_def)
  ultimately show ?thesis
    using commit_keeps_text [OF d'] by (simp add: demo_text demo_sentences)
qed

text \<open>C26: A failed commit is atomic: whatever the reason, the stored document is unchanged.\<close>

theorem commit_failure_atomic:
  assumes "write_session_commit env d session file = (Fail e, d')" and "doc_paths_ok env file"
  shows "load_text env d' (data_path file) = load_text env d (data_path file)"
  by (rule commit_fails_unchanged [OF assms])

theorem commit_failure_atomic_witness:
  "load_text good_env (snd (write_session_commit (good_env\<lparr>wr_fault := (\<lambda>p. if p = ''files/f'' then RenameFault else NoFault)\<rparr>)
      demo_disk demo_session demo_file)) ''files/f'' = Some ''A. B. C.''"
proof -
  let ?env = "good_env\<lparr>wr_fault := (\<lambda>p. if p = ''files/f'' then RenameFault else NoFault)\<rparr>"
  have "fst (write_session_commit ?env demo_disk demo_session demo_file) = Fail None"
    by code_simp
  then obtain d' where d': "write_session_commit ?env demo_disk demo_session demo_file = (Fail None, d')"
    by (metis prod.collapse)
  have paths: "doc_paths_ok ?env demo_file" using demo_paths by (simp add: doc_paths_ok_def good_env_def)
  have dp: "data_path demo_file = ''files/f''" by (simp add: demo_file_def)
  have rd: "load_text ?env x p = load_text good_env x p" for x p
    by (cases "x p") (simp_all add: load_text_def good_env_def)
  have "load_text good_env d' ''files/f'' = load_text good_env demo_disk ''files/f''"
    using commit_failure_atomic [OF d' paths] unfolding rd dp .
  also have "\<dots> = Some ''A. B. C.''" by (simp add: load_text_def demo_defs cstring_def)
  finally show ?thesis unfolding d' by simp
qed

text \<open>Temporary files are not hidden from documents. Storing a document goes through the
  file with \<^verbatim>\<open>.tmp\<close> appended to its path, in the directory of the documents; a document
  with that name is erased by a successful commit to the other one.\<close>

theorem commit_erases_tmp_document:
  assumes "write_session_commit env d session file = (Ok r, d')"
    and "data_path other = tmp_path (data_path file)"
    and "tmp_path (data_path file) \<noteq> data_path file"
  shows "d' (data_path other) = None"
  using assms
  by (auto simp: write_session_commit_def store_text_atomic_def Let_def
      split: option.splits prod.splits bool.splits io_fault.splits)

theorem commit_erases_tmp_document_witness:
  "valid_filename ''f.tmp'' \<and>
   snd (write_session_commit good_env (demo_disk(''files/f.tmp'' \<mapsto> ''Other text.'')) demo_session demo_file) ''files/f.tmp'' = None"
proof -
  let ?d = "demo_disk(''files/f.tmp'' \<mapsto> ''Other text.'')"
  have "fst (write_session_commit good_env ?d demo_session demo_file) =
    Ok (''A.'' @ NEWLINE # ''X.'' @ NEWLINE # ''Y.'' @ NEWLINE # ''C.'', 4, 11)"
    by code_simp
  then obtain d' where d': "write_session_commit good_env ?d demo_session demo_file =
      (Ok (''A.'' @ NEWLINE # ''X.'' @ NEWLINE # ''Y.'' @ NEWLINE # ''C.'', 4, 11), d')"
    by (metis prod.collapse)
  have tmp: "tmp_path (data_path demo_file) = ''files/f.tmp''" by (simp add: tmp_path_def demo_file_def)
  have "valid_filename ''f.tmp''" by code_simp
  with commit_erases_tmp_document [OF d', of "demo_file\<lparr>data_path := ''files/f.tmp''\<rparr>"] tmp d' show ?thesis
    by (simp add: demo_file_def)
qed

end
