(* ===== verification/SS_Locks.thy ===== *)
theory SS_Locks
  imports Common_Array Common_Error C_Lib
begin

text \<open>
  The sentence locks of \<^verbatim>\<open>ss/ss_main.c\<close>: a table of (file, sentence, user) entries under
  \<^verbatim>\<open>sentence_lock_mutex\<close>, so that each operation is one atomic step.

  The locale \<open>lock_table\<close> states the contract of a lock table and proves mutual exclusion
  of the threads that use it, over a step relation of acquisitions and releases in any
  interleaving; \<open>slock\<close> discharges the laws for the model.
\<close>

record sentence_lock =
  sl_file :: string
  sl_sentence :: int
  sl_user :: string

type_synonym lock_key = "string \<times> int"

definition lock_matches :: "string \<Rightarrow> int \<Rightarrow> sentence_lock \<Rightarrow> bool" where
  "lock_matches file sentence e \<longleftrightarrow> sl_sentence e = sentence \<and> sl_file e = file"

definition sentence_lock_find :: "sentence_lock array \<Rightarrow> string \<Rightarrow> int \<Rightarrow> sentence_lock option" where
  "sentence_lock_find locks file sentence =
     (case find_index (lock_matches file sentence) (items locks) of
        None \<Rightarrow> None
      | Some i \<Rightarrow> array_get locks i)"

definition sentence_lock_acquire :: "(nat \<Rightarrow> bool) \<Rightarrow> sentence_lock array \<Rightarrow> string \<Rightarrow> int \<Rightarrow> string
    \<Rightarrow> sentence_lock array res" where
  "sentence_lock_acquire mem locks file sentence user =
     (case sentence_lock_find locks file sentence of
        Some _ \<Rightarrow> Fail (Some EBUSY)
      | None \<Rightarrow>
          (case array_push mem locks
             \<lparr>sl_file = buf 128 file, sl_sentence = sentence, sl_user = buf 64 user\<rparr> of
             None \<Rightarrow> Fail None
           | Some locks' \<Rightarrow> Ok locks'))"

definition sentence_lock_release :: "sentence_lock array \<Rightarrow> string \<Rightarrow> string \<Rightarrow> int \<Rightarrow> sentence_lock array" where
  "sentence_lock_release locks file user sentence =
     (case find_index (lock_matches file sentence) (items locks) of
        None \<Rightarrow> locks
      | Some i \<Rightarrow> array_remove locks i)"

section \<open>The contract\<close>

locale lock_table =
  fixes inv :: "'s \<Rightarrow> bool"
    and locked :: "'s \<Rightarrow> 'k \<Rightarrow> bool"
    and acquire :: "'s \<Rightarrow> 'u \<Rightarrow> 'k \<Rightarrow> 's option"
    and release :: "'s \<Rightarrow> 'u \<Rightarrow> 'k \<Rightarrow> 's"
  assumes acquire_inv: "inv s \<Longrightarrow> acquire s u k = Some s' \<Longrightarrow> inv s'"
    and acquire_free: "inv s \<Longrightarrow> acquire s u k = Some s' \<Longrightarrow> \<not> locked s k"
    and acquire_locked: "inv s \<Longrightarrow> acquire s u k = Some s' \<Longrightarrow> locked s' k' \<longleftrightarrow> k' = k \<or> locked s k'"
    and release_inv: "inv s \<Longrightarrow> inv (release s u k)"
    and release_locked: "inv s \<Longrightarrow> locked (release s u k) k' \<longleftrightarrow> k' \<noteq> k \<and> locked s k'"
begin

text \<open>\<open>h t = Some k\<close>: thread \<open>t\<close> is between its acquisition and its release of \<open>k\<close>.\<close>

inductive step :: "'s \<times> (nat \<Rightarrow> 'k option) \<Rightarrow> 's \<times> (nat \<Rightarrow> 'k option) \<Rightarrow> bool" where
  step_acquire: "h t = None \<Longrightarrow> acquire s u k = Some s' \<Longrightarrow> step (s, h) (s', h(t := Some k))"
| step_release: "h t = Some k \<Longrightarrow> step (s, h) (release s u k, h(t := None))"

definition exclusive :: "'s \<times> (nat \<Rightarrow> 'k option) \<Rightarrow> bool" where
  "exclusive c \<longleftrightarrow> inv (fst c) \<and> (\<forall>k. locked (fst c) k \<longleftrightarrow> (\<exists>t. snd c t = Some k)) \<and>
     (\<forall>t t' k. snd c t = Some k \<longrightarrow> snd c t' = Some k \<longrightarrow> t = t')"

lemma exclusive_step: "step c c' \<Longrightarrow> exclusive c \<Longrightarrow> exclusive c'"
proof (induction rule: step.induct)
  case (step_acquire h t s u k s')
  then have inv: "inv s" and free: "\<not> locked s k" by (auto simp: exclusive_def dest: acquire_free)
  have l: "locked s' k' \<longleftrightarrow> k' = k \<or> locked s k'" for k'
    by (rule acquire_locked [OF inv step_acquire.hyps(2)])
  have no: "h t' \<noteq> Some k" for t' using step_acquire.prems free by (auto simp: exclusive_def)
  have hold: "locked s k' \<longleftrightarrow> (\<exists>t. h t = Some k')" for k'
    using step_acquire.prems by (simp add: exclusive_def)
  have "(\<exists>t'. (h(t := Some k)) t' = Some k') \<longleftrightarrow> k' = k \<or> (\<exists>t'. h t' = Some k')" for k'
    using step_acquire.hyps(1) by (metis fun_upd_apply option.distinct(1) option.inject)
  moreover have "t1 = t2" if "(h(t := Some k)) t1 = Some k'" "(h(t := Some k)) t2 = Some k'" for t1 t2 k'
    using that no step_acquire.prems by (auto simp: exclusive_def split: if_splits)
  ultimately show ?case
    using acquire_inv [OF inv step_acquire.hyps(2)] l hold unfolding exclusive_def by (metis fst_conv snd_conv)
next
  case (step_release h t k s u)
  then have inv: "inv s" and un: "\<And>t'. h t' = Some k \<Longrightarrow> t' = t" by (auto simp: exclusive_def)
  have hold: "locked s k' \<longleftrightarrow> (\<exists>t. h t = Some k')" for k'
    using step_release.prems by (simp add: exclusive_def)
  have "(\<exists>t'. (h(t := None)) t' = Some k') \<longleftrightarrow> k' \<noteq> k \<and> (\<exists>t'. h t' = Some k')" for k'
    using step_release.hyps un by (metis fun_upd_apply option.distinct(1) option.inject)
  moreover have "t1 = t2" if "(h(t := None)) t1 = Some k'" "(h(t := None)) t2 = Some k'" for t1 t2 k'
    using that step_release.prems by (auto simp: exclusive_def split: if_splits)
  ultimately show ?case
    using release_inv [OF inv] release_locked [OF inv] hold unfolding exclusive_def by (metis fst_conv snd_conv)
qed

lemma exclusive_run: "step\<^sup>*\<^sup>* c c' \<Longrightarrow> exclusive c \<Longrightarrow> exclusive c'"
  by (induction rule: rtranclp_induct) (auto intro: exclusive_step)

lemma mutual_exclusion:
  assumes "step\<^sup>*\<^sup>* (s0, \<lambda>_. None) (s, h)" and "inv s0" and "\<forall>k. \<not> locked s0 k"
    and "h t = Some k" and "h t' = Some k"
  shows "t = t'"
proof -
  have "exclusive (s0, \<lambda>_. None)" using assms(2,3) by (simp add: exclusive_def)
  from exclusive_run [OF assms(1) this] assms(4,5) show ?thesis by (simp add: exclusive_def)
qed

text \<open>When every thread has released, every lock can be taken again.\<close>

lemma quiescent_free:
  assumes "step\<^sup>*\<^sup>* (s0, \<lambda>_. None) (s, \<lambda>_. None)" and "inv s0" and "\<forall>k. \<not> locked s0 k"
  shows "\<not> locked s k"
proof -
  have "exclusive (s0, \<lambda>_. None)" using assms(2,3) by (simp add: exclusive_def)
  from exclusive_run [OF assms(1) this] show ?thesis by (simp add: exclusive_def)
qed

end

section \<open>The table provides it\<close>

definition lock_key :: "sentence_lock \<Rightarrow> lock_key" where
  "lock_key e = (sl_file e, sl_sentence e)"

definition locks_inv :: "sentence_lock array \<Rightarrow> bool" where
  "locks_inv locks \<longleftrightarrow> distinct (map lock_key (items locks)) \<and> array_wf locks"

definition lock_held :: "sentence_lock array \<Rightarrow> lock_key \<Rightarrow> bool" where
  "lock_held locks k \<longleftrightarrow> sentence_lock_find locks (fst k) (snd k) \<noteq> None"

text \<open>
  The user name only labels the entry. File names of the table have fewer than 128
  characters, since \<^verbatim>\<open>handle_write\<close> takes them from a \<^verbatim>\<open>char[SS_NAME_MAX]\<close>.
\<close>

definition acquire_for :: "(nat \<Rightarrow> bool) \<Rightarrow> sentence_lock array \<Rightarrow> string \<Rightarrow> lock_key \<Rightarrow> sentence_lock array option" where
  "acquire_for mem locks user k =
     (if length (fst k) < 128 then
        case sentence_lock_acquire mem locks (fst k) (snd k) user of Fail _ \<Rightarrow> None | Ok l \<Rightarrow> Some l
      else None)"

definition release_for :: "sentence_lock array \<Rightarrow> string \<Rightarrow> lock_key \<Rightarrow> sentence_lock array" where
  "release_for locks user k = sentence_lock_release locks (fst k) user (snd k)"

lemma lock_matches_key: "lock_matches f i e \<longleftrightarrow> lock_key e = (f, i)"
  by (auto simp: lock_matches_def lock_key_def)

lemma lock_held_iff: "lock_held locks k \<longleftrightarrow> k \<in> lock_key ` set (items locks)"
proof (cases "find_index (lock_matches (fst k) (snd k)) (items locks)")
  case None
  then have "\<not> lock_held locks k" by (simp add: lock_held_def sentence_lock_find_def)
  moreover have "k \<notin> lock_key ` set (items locks)"
    using None by (auto simp: find_index_None_iff lock_matches_key)
  ultimately show ?thesis by simp
next
  case (Some i)
  from find_index_SomeD [OF Some] have "i < length (items locks)" "lock_key (items locks ! i) = k"
    by (auto simp: lock_matches_key)
  then have "k \<in> lock_key ` set (items locks)" by (metis image_eqI nth_mem)
  with Some \<open>i < length (items locks)\<close> show ?thesis
    by (auto simp: lock_held_def sentence_lock_find_def array_get_def)
qed

lemma sentence_lock_acquire_Ok:
  assumes "sentence_lock_acquire mem locks f i u = Ok locks'" and "length f < 128"
  shows "\<not> lock_held locks (f, i)"
    and "items locks' = items locks @ [\<lparr>sl_file = f, sl_sentence = i, sl_user = buf 64 u\<rparr>]"
    and "array_wf locks'"
proof -
  from assms have none: "sentence_lock_find locks f i = None"
    and p: "array_push mem locks \<lparr>sl_file = f, sl_sentence = i, sl_user = buf 64 u\<rparr> = Some locks'"
    by (auto simp: sentence_lock_acquire_def split: option.splits)
  from none show "\<not> lock_held locks (f, i)" by (simp add: lock_held_def)
  from arr.push_view [OF p] show "items locks' = items locks @ [\<lparr>sl_file = f, sl_sentence = i, sl_user = buf 64 u\<rparr>]" .
  from array_push_wf [OF p] show "array_wf locks'" .
qed

lemma sentence_lock_release_items:
  assumes "locks_inv locks"
  shows "items (sentence_lock_release locks f u i) = filter (\<lambda>e. lock_key e \<noteq> (f, i)) (items locks)"
proof (cases "find_index (lock_matches f i) (items locks)")
  case None
  then have "filter (\<lambda>e. lock_key e \<noteq> (f, i)) (items locks) = items locks"
    by (auto simp: filter_id_conv find_index_None_iff lock_matches_key)
  with None show ?thesis by (simp add: sentence_lock_release_def)
next
  case (Some j)
  then have "find_index (\<lambda>e. lock_key e = (f, i)) (items locks) = Some j"
    by (simp add: lock_matches_key [abs_def])
  from arr.rem_found_distinct [OF _ this] assms Some show ?thesis
    by (simp add: sentence_lock_release_def locks_inv_def)
qed

interpretation slock: lock_table locks_inv lock_held "acquire_for mem" release_for for mem
proof unfold_locales
  fix s s' :: "sentence_lock array" and k k' :: lock_key and user :: string
  assume inv: "locks_inv s"
  show "locks_inv (release_for s user k)"
    using inv array_remove_wf sentence_lock_release_items [OF inv]
    by (auto simp: release_for_def locks_inv_def distinct_map_filter sentence_lock_release_def split: option.splits)
  show "lock_held (release_for s user k) k' \<longleftrightarrow> k' \<noteq> k \<and> lock_held s k'"
    using sentence_lock_release_items [OF inv] by (auto simp: release_for_def lock_held_iff)
  assume "acquire_for mem s user k = Some s'"
  then have a: "sentence_lock_acquire mem s (fst k) (snd k) user = Ok s'" "length (fst k) < 128"
    by (auto simp: acquire_for_def split: if_splits res.splits)
  note ok = sentence_lock_acquire_Ok [OF a]
  show "\<not> lock_held s k" using ok(1) by simp
  show "locks_inv s'"
    using inv ok lock_held_iff by (auto simp: locks_inv_def lock_key_def)
  show "lock_held s' k' \<longleftrightarrow> k' = k \<or> lock_held s k'"
    using ok by (auto simp: lock_held_iff lock_key_def)
qed

lemma sentence_lock_busy:
  "lock_held locks (f, i) \<Longrightarrow> sentence_lock_acquire mem locks f i u = Fail (Some EBUSY)"
  by (auto simp: lock_held_def sentence_lock_acquire_def)

end
