(* ===== verification/SS_Server.thy ===== *)
theory SS_Server
  imports SS_Persist SS_Session SS_Tickets SS_Locks Common_Json
begin

text \<open>
  The request handlers of \<^verbatim>\<open>ss/ss_main.c\<close>. \<open>ss_context\<close> is the shared state of the server:
  the file table, the disk, the tickets, the sentence locks and the connection to the
  name manager. \<open>os\<close> holds what the operating system supplies to one request. A
  connection is the list of payloads still to be received, the list of payloads sent,
  and the number of payloads that can be sent before the peer is gone. Acquiring
  \<^verbatim>\<open>state_lock\<close>, \<^verbatim>\<open>ticket_lock\<close> and \<^verbatim>\<open>sentence_lock_mutex\<close> succeeds; logging is left out.
\<close>

section \<open>Connections and replies\<close>

definition MAX_JSON :: nat where "MAX_JSON = 4096"

record conn =
  inbox :: "string list"
  outbox :: "string list"
  send_limit :: nat

definition conn_send :: "conn \<Rightarrow> string \<Rightarrow> bool \<times> conn" where
  "conn_send c payload =
     (if length (outbox c) < send_limit c then (True, c\<lparr>outbox := outbox c @ [payload]\<rparr>) else (False, c))"

text \<open>\<open>fmt_str k v\<close> is the text \<^verbatim>\<open>"k":"v"\<close> of the format strings, \<open>v\<close> taken as it is.\<close>

definition fmt_str :: "string \<Rightarrow> string \<Rightarrow> string" where
  "fmt_str k v = QUOTE # k @ QUOTE # CHR '':'' # QUOTE # v @ [QUOTE]"

definition fmt_int :: "string \<Rightarrow> int \<Rightarrow> string" where
  "fmt_int k v = QUOTE # k @ QUOTE # CHR '':'' # show_int v"

fun commas :: "string list \<Rightarrow> string" where
  "commas [] = []"
| "commas [x] = x"
| "commas (x # xs) = x @ CHR '','' # commas xs"

definition braces :: "string list \<Rightarrow> string" where
  "braces xs = CHR ''{'' # commas xs @ ''}''"

definition send_ok :: "conn \<Rightarrow> string \<Rightarrow> bool \<times> conn" where
  "send_ok c extra =
     (let payload = braces (if extra \<noteq> [] then [fmt_str ''status'' ''OK'', extra] else [fmt_str ''status'' ''OK'']) in
      if length payload < MAX_JSON then conn_send c payload else (False, c))"

definition send_error_response :: "conn \<Rightarrow> error_code_t \<Rightarrow> string \<Rightarrow> bool \<times> conn" where
  "send_error_response c code message =
     (let payload = braces [fmt_str ''status'' ''ERR'', fmt_str ''code'' (error_code_name code),
                            fmt_str ''message'' message] in
      if length payload < MAX_JSON then conn_send c payload else (False, c))"

section \<open>The context\<close>

record ss_context =
  sc_state :: ss_state
  sc_disk :: disk
  sc_tickets :: ticket_table
  sc_locks :: "sentence_lock array"
  nm_conn :: conn

record os =
  os_env :: env
  os_now :: time_t
  os_errno :: errno
  os_strerror :: "errno \<Rightarrow> string"
  os_stat :: "path \<Rightarrow> stat_result"
  os_mkdir :: "path \<Rightarrow> errno option"

definition notify_nm_file_update :: "ss_context \<Rightarrow> ss_file \<Rightarrow> ss_context" where
  "notify_nm_file_update ctx file =
     (case (json_escape_string (SS_NAME_MAX * 2) (sf_name file),
            json_escape_string (SS_USER_MAX * 2) (sf_owner file),
            json_escape_string (SS_USER_MAX * 2) (sf_last_access_user file)) of
        (Some name, Some owner, Some user) \<Rightarrow>
          let payload = braces [fmt_str ''type'' ''SS_FILE_UPDATE'', fmt_str ''file'' name, fmt_str ''owner'' owner,
                fmt_int ''words'' (int (sf_word_count file)), fmt_int ''chars'' (int (sf_char_count file)),
                fmt_int ''modified'' (sf_modified file), fmt_int ''lastAccess'' (sf_last_access file),
                fmt_str ''lastAccessUser'' user] in
          if length payload < MAX_JSON then ctx\<lparr>nm_conn := snd (conn_send (nm_conn ctx) payload)\<rparr> else ctx
      | _ \<Rightarrow> ctx)"

definition snapshot_file :: "ss_context \<Rightarrow> string \<Rightarrow> ss_file option" where
  "snapshot_file ctx file_name = fst (ss_state_find (sc_state ctx) file_name)"

definition set_file_lock_state :: "ss_context \<Rightarrow> string \<Rightarrow> bool \<Rightarrow> int \<Rightarrow> string option \<Rightarrow> ss_context" where
  "set_file_lock_state ctx file_name active sentence user =
     ctx\<lparr>sc_state := ss_state_modify (sc_state ctx) file_name
       (\<lambda>file. file\<lparr>lock_active := active, lock_sentence := (if active then sentence else -1),
          lock_user := (case user of Some u \<Rightarrow> if active then buf SS_USER_MAX u else [] | None \<Rightarrow> [])\<rparr>)\<rparr>"

text \<open>
  The common tail of the handlers: under the write lock, find the entry again, update it,
  save its metadata, and keep a copy for the notification.
\<close>

definition update_entry :: "os \<Rightarrow> ss_context \<Rightarrow> string \<Rightarrow> (ss_file \<Rightarrow> ss_file) \<Rightarrow> ss_file option \<times> ss_context" where
  "update_entry os ctx file_name f =
     (case ss_state_find (sc_state ctx) file_name of
        (None, _) \<Rightarrow> (None, ctx)
      | (Some file, _) \<Rightarrow>
          (Some (f file),
           ctx\<lparr>sc_state := ss_state_modify (sc_state ctx) file_name f,
               sc_disk := fst (ss_state_save_meta (os_env os) (sc_disk ctx) (f file))\<rparr>))"

definition touch :: "os \<Rightarrow> string \<Rightarrow> ss_file \<Rightarrow> ss_file" where
  "touch os user file = file\<lparr>sf_last_access := os_now os, sf_last_access_user := buf SS_USER_MAX user\<rparr>"

definition touch_content :: "os \<Rightarrow> string \<Rightarrow> nat \<Rightarrow> nat \<Rightarrow> ss_file \<Rightarrow> ss_file" where
  "touch_content os user words chars file =
     (touch os user file)\<lparr>sf_char_count := chars, sf_word_count := words, sf_modified := os_now os\<rparr>"

section \<open>Undo\<close>

definition perform_undo :: "os \<Rightarrow> ss_context \<Rightarrow> string \<Rightarrow> string \<Rightarrow> (string \<times> nat \<times> nat) res \<times> ss_context" where
  "perform_undo os ctx file_name user =
     (case snapshot_file ctx file_name of
        None \<Rightarrow> (Fail (Some ENOENT), ctx)
      | Some view \<Rightarrow>
          if lock_active view then (Fail (Some EBUSY), ctx)
          else case load_text (os_env os) (sc_disk ctx) (undo_path view) of
            None \<Rightarrow> (Fail (Some ENOENT), ctx)
          | Some undo_text \<Rightarrow>
              (case store_text_atomic (os_env os) (sc_disk ctx) (data_path view) undo_text of
                 (d1, False) \<Rightarrow> (Fail None, ctx\<lparr>sc_disk := d1\<rparr>)
               | (d1, True) \<Rightarrow>
                   let ctx1 = ctx\<lparr>sc_disk := unlink d1 (undo_path view)\<rparr>;
                       new_chars = length undo_text;
                       new_words = count_words_in_text undo_text in
                   (case update_entry os ctx1 file_name (touch_content os user new_words new_chars) of
                      (None, ctx2) \<Rightarrow> (Fail (Some ENOENT), ctx2)
                    | (Some copy, ctx2) \<Rightarrow>
                        (Ok (undo_text, new_words, new_chars), notify_nm_file_update ctx2 copy))))"

section \<open>Checkpoints\<close>

definition ensure_checkpoint_dir :: "os \<Rightarrow> ss_state \<Rightarrow> string \<Rightarrow> path res" where
  "ensure_checkpoint_dir os st file_name =
     (let dir = checkpoints_dir st @ ''/'' @ file_name in
      if 512 \<le> length dir then Fail (Some ENAMETOOLONG)
      else case ensure_dir (os_stat os dir) (os_mkdir os dir) of
        Fail e \<Rightarrow> Fail e
      | Ok _ \<Rightarrow> Ok dir)"

definition build_checkpoint_path :: "os \<Rightarrow> ss_state \<Rightarrow> string \<Rightarrow> string \<Rightarrow> path res" where
  "build_checkpoint_path os st file_name tag =
     (case ensure_checkpoint_dir os st file_name of
        Fail e \<Rightarrow> Fail e
      | Ok dir \<Rightarrow>
          let p = dir @ ''/'' @ tag in
          if 512 \<le> length p then Fail (Some ENAMETOOLONG) else Ok p)"

definition ss_create_checkpoint :: "os \<Rightarrow> ss_context \<Rightarrow> string \<Rightarrow> string \<Rightarrow> string \<Rightarrow> unit res \<times> ss_context" where
  "ss_create_checkpoint os ctx file_name tag user =
     (if \<not> valid_filename tag then (Fail (Some EINVAL), ctx)
      else case snapshot_file ctx file_name of
        None \<Rightarrow> (Fail None, ctx)
      | Some view \<Rightarrow>
          let content = file_text (os_env os) (sc_disk ctx) view in
          (case build_checkpoint_path os (sc_state ctx) file_name tag of
             Fail e \<Rightarrow> (Fail e, ctx)
           | Ok p \<Rightarrow>
               (case store_text_atomic (os_env os) (sc_disk ctx) p content of
                  (d1, False) \<Rightarrow> (Fail None, ctx\<lparr>sc_disk := d1\<rparr>)
                | (d1, True) \<Rightarrow> (Ok (), ctx\<lparr>sc_disk := d1\<rparr>))))"

definition ss_read_checkpoint :: "os \<Rightarrow> ss_context \<Rightarrow> string \<Rightarrow> string \<Rightarrow> string res" where
  "ss_read_checkpoint os ctx file_name tag =
     (if \<not> valid_filename tag then Fail (Some EINVAL)
      else case build_checkpoint_path os (sc_state ctx) file_name tag of
        Fail e \<Rightarrow> Fail e
      | Ok p \<Rightarrow>
          (case load_text (os_env os) (sc_disk ctx) p of
             None \<Rightarrow> Fail (Some ENOENT)
           | Some content \<Rightarrow> Ok content))"

definition ss_revert_checkpoint :: "os \<Rightarrow> ss_context \<Rightarrow> string \<Rightarrow> string \<Rightarrow> string \<Rightarrow> unit res \<times> ss_context" where
  "ss_revert_checkpoint os ctx file_name tag user =
     (if \<not> valid_filename tag then (Fail (Some EINVAL), ctx)
      else case build_checkpoint_path os (sc_state ctx) file_name tag of
        Fail e \<Rightarrow> (Fail e, ctx)
      | Ok p \<Rightarrow>
        (case load_text (os_env os) (sc_disk ctx) p of
          None \<Rightarrow> (Fail (Some ENOENT), ctx)
        | Some checkpoint \<Rightarrow>
          (case snapshot_file ctx file_name of
            None \<Rightarrow> (Fail None, ctx)
          | Some view \<Rightarrow>
            if lock_active view then (Fail (Some EBUSY), ctx)
            else
              (case store_text_atomic (os_env os) (sc_disk ctx) (undo_path view)
                      (file_text (os_env os) (sc_disk ctx) view) of
                (d1, False) \<Rightarrow> (Fail None, ctx\<lparr>sc_disk := d1\<rparr>)
              | (d1, True) \<Rightarrow>
                (case store_text_atomic (os_env os) d1 (data_path view) checkpoint of
                  (d2, False) \<Rightarrow> (Fail None, ctx\<lparr>sc_disk := d2\<rparr>)
                | (d2, True) \<Rightarrow>
                  (case update_entry os (ctx\<lparr>sc_disk := d2\<rparr>) file_name
                          (touch_content os user (count_words_in_text checkpoint) (length checkpoint)) of
                    (None, ctx2) \<Rightarrow> (Fail (Some ENOENT), ctx2)
                  | (Some copy, ctx2) \<Rightarrow> (Ok (), notify_nm_file_update ctx2 copy)))))))"

end
