(* ===== verification/SS_Handlers.thy ===== *)
theory SS_Handlers
  imports SS_Server
begin

text \<open>
  The entry points of the storage server: the data connections (\<^verbatim>\<open>handle_read\<close>,
  \<^verbatim>\<open>handle_stream\<close>, \<^verbatim>\<open>handle_write\<close>, \<^verbatim>\<open>handle_data_client\<close>) and the control connection to the
  name manager (\<^verbatim>\<open>process_nm_command\<close> and what it calls). \<^verbatim>\<open>handle_write\<close> is the composition
  of \<open>write_open\<close> (everything before its loop), \<open>write_loop\<close> over the received messages,
  and \<open>write_close\<close> (everything after it); these are the units that interleave between
  the threads of the server.
\<close>

section \<open>Reading\<close>

definition handle_read :: "os \<Rightarrow> ss_context \<Rightarrow> conn \<Rightarrow> string \<Rightarrow> string \<Rightarrow> ss_context \<times> bool \<times> conn" where
  "handle_read os ctx c file_name user =
     (case snapshot_file ctx file_name of
        None \<Rightarrow> (ctx, send_error_response c ERR_NOTFOUND ''file not found'')
      | Some view \<Rightarrow>
          (case json_escape_dup (file_text (os_env os) (sc_disk ctx) view) of
             None \<Rightarrow> (ctx, send_error_response c ERR_INTERNAL ''encode failed'')
           | Some escaped \<Rightarrow>
               let (copy, ctx1) = update_entry os ctx file_name (touch os user);
                   ctx2 = (case copy of None \<Rightarrow> ctx1 | Some f \<Rightarrow> notify_nm_file_update ctx1 f);
                   counted = (case copy of None \<Rightarrow> view | Some f \<Rightarrow> f);
                   extra = commas [fmt_str ''file'' (sf_name view), fmt_str ''content'' escaped,
                     fmt_int ''words'' (int (sf_word_count counted)), fmt_int ''chars'' (int (sf_char_count counted))] in
               if MAX_JSON \<le> length extra then (ctx2, send_error_response c ERR_INTERNAL ''response too large'')
               else (ctx2, send_ok c extra)))"

text \<open>The loop over the words: words whose message does not fit are skipped, a failed send ends it.\<close>

fun stream_loop :: "conn \<Rightarrow> string list \<Rightarrow> conn" where
  "stream_loop c [] = c"
| "stream_loop c (w # ws) =
     (case json_escape_dup w of
        None \<Rightarrow> stream_loop c ws
      | Some escaped \<Rightarrow>
          let msg = braces [fmt_str ''status'' ''DATA'', fmt_str ''word'' escaped] in
          if 1024 \<le> length msg then stream_loop c ws
          else case conn_send c msg of
            (False, c') \<Rightarrow> c'
          | (True, c') \<Rightarrow> stream_loop c' ws)"

definition handle_stream :: "os \<Rightarrow> ss_context \<Rightarrow> conn \<Rightarrow> string \<Rightarrow> string \<Rightarrow> ss_context \<times> bool \<times> conn" where
  "handle_stream os ctx c file_name user =
     (case snapshot_file ctx file_name of
        None \<Rightarrow> (ctx, send_error_response c ERR_NOTFOUND ''file not found'')
      | Some view \<Rightarrow>
          let words = split_words (file_text (os_env os) (sc_disk ctx) view);
              header = commas [fmt_str ''mode'' ''STREAM'', fmt_int ''words'' (int (length words))] in
          if 256 \<le> length header then (ctx, send_error_response c ERR_INTERNAL ''response too large'')
          else case send_ok c header of
            (False, c1) \<Rightarrow> (ctx, False, c1)
          | (True, c1) \<Rightarrow>
              let c2 = stream_loop c1 words;
                  c3 = snd (conn_send c2 (braces [fmt_str ''status'' ''DONE'']));
                  (copy, ctx1) = update_entry os ctx file_name (touch os user) in
              (case copy of None \<Rightarrow> ctx1 | Some f \<Rightarrow> notify_nm_file_update ctx1 f, True, c3))"

section \<open>Writing\<close>

text \<open>Undoing the effect of \<open>write_open\<close>, on its error paths and at the end.\<close>

definition write_unlock :: "ss_context \<Rightarrow> string \<Rightarrow> string \<Rightarrow> int \<Rightarrow> ss_context" where
  "write_unlock ctx file_name user sentence_index =
     (let ctx1 = set_file_lock_state ctx file_name False (-1) None in
      ctx1\<lparr>sc_locks := sentence_lock_release (sc_locks ctx1) file_name user sentence_index\<rparr>)"

text \<open>\<open>Inr\<close>: the session is open and its loop runs; \<open>Inl\<close>: the handler has returned.\<close>

definition write_open :: "os \<Rightarrow> ss_context \<Rightarrow> conn \<Rightarrow> string \<Rightarrow> string \<Rightarrow> int
    \<Rightarrow> ss_context \<times> (bool \<times> conn + ss_file \<times> write_session \<times> conn)" where
  "write_open os ctx c file_name user sentence_index =
     (case snapshot_file ctx file_name of
        None \<Rightarrow> (ctx, Inl (send_error_response c ERR_NOTFOUND ''file not found''))
      | Some view \<Rightarrow>
          (case sentence_lock_acquire (mem_ok (os_env os)) (sc_locks ctx) file_name sentence_index user of
             Fail _ \<Rightarrow> (ctx, Inl (send_error_response c ERR_LOCKED ''sentence locked''))
           | Ok locks \<Rightarrow>
               let ctx1 = set_file_lock_state (ctx\<lparr>sc_locks := locks\<rparr>) file_name True sentence_index (Some user) in
               (case write_session_begin (os_env os) (sc_disk ctx1) view user sentence_index of
                  Fail e \<Rightarrow>
                    (write_unlock ctx1 file_name user sentence_index,
                     Inl (if errno_of (os_errno os) e = EINVAL
                          then send_error_response c ERR_BADREQ ''sentence index out of range''
                          else send_error_response c ERR_INTERNAL ''write init failed''))
                | Ok session \<Rightarrow>
                    (case json_escape_dup (sentence_text session) of
                       None \<Rightarrow> (write_unlock ctx1 file_name user sentence_index,
                                Inl (send_error_response c ERR_INTERNAL ''encode failed''))
                     | Some escaped \<Rightarrow>
                         let extra = commas [fmt_str ''mode'' ''WRITE'', fmt_str ''current'' escaped,
                                             fmt_int ''sentence'' sentence_index] in
                         if MAX_JSON \<le> length extra then
                           (write_unlock ctx1 file_name user sentence_index,
                            Inl (send_error_response c ERR_INTERNAL ''response too large''))
                         else (case send_ok c extra of
                             (False, c1) \<Rightarrow> (write_unlock ctx1 file_name user sentence_index, Inl (False, c1))
                           | (True, c1) \<Rightarrow> (ctx1, Inr (view, session, c1)))))))"

text \<open>The replies to an edit of the open sentence.\<close>

definition edit_reply :: "os \<Rightarrow> conn \<Rightarrow> write_session \<Rightarrow> write_session res \<Rightarrow> string \<Rightarrow> string
    \<Rightarrow> write_session \<times> conn" where
  "edit_reply os c session result step failed =
     (case result of
        Ok session' \<Rightarrow> (session', snd (send_ok c (fmt_str ''step'' step)))
      | Fail e \<Rightarrow>
          (session, snd (if errno_of (os_errno os) e = EINVAL
                         then send_error_response c ERR_BADREQ ''word index out of range''
                         else send_error_response c ERR_CONFLICT failed)))"

definition write_commit :: "os \<Rightarrow> ss_context \<Rightarrow> conn \<Rightarrow> string \<Rightarrow> string \<Rightarrow> ss_file \<Rightarrow> write_session
    \<Rightarrow> ss_context \<times> conn" where
  "write_commit os ctx c file_name user view session =
     (case write_session_commit (os_env os) (sc_disk ctx) session view of
        (Fail e, d) \<Rightarrow>
          (ctx\<lparr>sc_disk := d\<rparr>,
           snd (if errno_of (os_errno os) e = EAGAIN
                then send_error_response c ERR_CONFLICT ''sentence modified by another writer''
                else send_error_response c ERR_INTERNAL ''commit failed''))
      | (Ok (final_text, new_words, new_chars), d) \<Rightarrow>
          let c1 = (case json_escape_dup final_text of
                      None \<Rightarrow> snd (send_ok c (fmt_str ''step'' ''COMMIT''))
                    | Some escaped \<Rightarrow>
                        let extra = commas [fmt_str ''step'' ''COMMIT'', fmt_int ''words'' (int new_words),
                              fmt_int ''chars'' (int new_chars), fmt_str ''content'' escaped] in
                        snd (send_ok c (if length extra < MAX_JSON then extra else fmt_str ''step'' ''COMMIT'')));
              (copy, ctx1) = update_entry os (ctx\<lparr>sc_disk := d\<rparr>) file_name
                (\<lambda>file. (touch_content os user new_words new_chars file)\<lparr>lock_active := False, lock_sentence := -1\<rparr>) in
          (case copy of None \<Rightarrow> ctx1 | Some f \<Rightarrow> notify_nm_file_update ctx1 f, c1))"

text \<open>One iteration of the loop; the flag tells whether the loop goes on.\<close>

definition write_message :: "os \<Rightarrow> ss_context \<Rightarrow> conn \<Rightarrow> string \<Rightarrow> string \<Rightarrow> ss_file \<Rightarrow> write_session \<Rightarrow> string
    \<Rightarrow> bool \<times> ss_context \<times> conn \<times> write_session" where
  "write_message os ctx c file_name user view session json =
     (case json_get_string json ''type'' 64 of
        None \<Rightarrow> (True, ctx, snd (send_error_response c ERR_BADREQ ''missing type''), session)
      | Some typ \<Rightarrow>
          if typ = ''WRITE_INSERT'' \<or> typ = ''WRITE_REPLACE'' then
            (case json_get_int json ''index'' of
               None \<Rightarrow> (True, ctx, snd (send_error_response c ERR_BADREQ ''missing index''), session)
             | Some index \<Rightarrow>
                 (case json_get_string_alloc json ''content'' of
                    None \<Rightarrow> (True, ctx, snd (send_error_response c ERR_BADREQ ''missing content''), session)
                  | Some content \<Rightarrow>
                      let (session', c') =
                        (if typ = ''WRITE_INSERT''
                         then edit_reply os c session (write_session_apply_insert session index content) ''INSERT'' ''insert failed''
                         else edit_reply os c session (write_session_apply_replace session index content) ''REPLACE'' ''replace failed'') in
                      (True, ctx, c', session')))
          else if typ = ''WRITE_DELETE'' then
            (case json_get_int json ''index'' of
               None \<Rightarrow> (True, ctx, snd (send_error_response c ERR_BADREQ ''missing index''), session)
             | Some index \<Rightarrow>
                 let (session', c') = edit_reply os c session (write_session_apply_delete session index) ''DELETE'' ''delete failed'' in
                 (True, ctx, c', session'))
          else if typ = ''WRITE_COMMIT'' then
            let (ctx', c') = write_commit os ctx c file_name user view session in
            (False, ctx', c', write_session_init)
          else if typ = ''WRITE_ABORT'' then
            (False, ctx, snd (send_ok c (fmt_str ''step'' ''ABORT'')), write_session_init)
          else (True, ctx, snd (send_error_response c ERR_BADREQ ''unknown write command''), session))"

definition write_close :: "ss_context \<Rightarrow> string \<Rightarrow> string \<Rightarrow> int \<Rightarrow> ss_context" where
  "write_close ctx file_name user sentence_index =
     set_file_lock_state
       (ctx\<lparr>sc_locks := sentence_lock_release (sc_locks ctx) file_name user sentence_index\<rparr>)
       file_name False (-1) None"

text \<open>The loop over the messages the client sends; the end of the list is a failed \<^verbatim>\<open>net_recv_json\<close>.\<close>

fun write_loop :: "os \<Rightarrow> ss_context \<Rightarrow> conn \<Rightarrow> string \<Rightarrow> string \<Rightarrow> ss_file \<Rightarrow> write_session \<Rightarrow> string list
    \<Rightarrow> ss_context \<times> bool \<times> conn" where
  "write_loop os ctx c file_name user view session [] = (ctx, False, c\<lparr>inbox := []\<rparr>)"
| "write_loop os ctx c file_name user view session (json # rest) =
     (case write_message os ctx c file_name user view session json of
        (True, ctx', c', session') \<Rightarrow> write_loop os ctx' c' file_name user view session' rest
      | (False, ctx', c', _) \<Rightarrow> (ctx', True, c'\<lparr>inbox := rest\<rparr>))"

definition handle_write :: "os \<Rightarrow> ss_context \<Rightarrow> conn \<Rightarrow> string \<Rightarrow> string \<Rightarrow> int \<Rightarrow> ss_context \<times> bool \<times> conn" where
  "handle_write os ctx c file_name user sentence_index =
     (case write_open os ctx c file_name user sentence_index of
        (ctx1, Inl r) \<Rightarrow> (ctx1, r)
      | (ctx1, Inr (view, session, c1)) \<Rightarrow>
          let (ctx2, ok, c2) = write_loop os ctx1 c1 file_name user view session (inbox c1) in
          (write_close ctx2 file_name user sentence_index, ok, c2))"

section \<open>Data connections\<close>

text \<open>Validating a ticket for an operation, then the operation.\<close>

definition with_ticket :: "os \<Rightarrow> ss_context \<Rightarrow> conn \<Rightarrow> string \<Rightarrow> string \<Rightarrow> string \<Rightarrow> string
    \<Rightarrow> (ss_context \<Rightarrow> ss_context \<times> bool \<times> conn) \<Rightarrow> ss_context \<times> conn" where
  "with_ticket os ctx c token user file_name op act =
     (case validate_ticket (mem_ok (os_env os)) (os_now os) (sc_tickets ctx) token user file_name op of
        (Fail _, t) \<Rightarrow> (ctx\<lparr>sc_tickets := t\<rparr>, snd (send_error_response c ERR_NOAUTH ''invalid ticket''))
      | (Ok _, t) \<Rightarrow> (case act (ctx\<lparr>sc_tickets := t\<rparr>) of (ctx', _, c') \<Rightarrow> (ctx', c')))"

definition handle_data_client :: "os \<Rightarrow> ss_context \<Rightarrow> conn \<Rightarrow> ss_context \<times> conn" where
  "handle_data_client os ctx c =
     (case inbox c of
        [] \<Rightarrow> (ctx, c)
      | json # rest \<Rightarrow>
          let c1 = c\<lparr>inbox := rest\<rparr> in
          (case (json_get_string json ''type'' 64, json_get_string json ''file'' SS_NAME_MAX,
                 json_get_string json ''user'' SS_USER_MAX, json_get_string json ''ticket'' 64) of
             (Some typ, Some file_name, Some user, Some token) \<Rightarrow>
               if typ = ''READ'' then
                 with_ticket os ctx c1 token user file_name ''READ'' (\<lambda>x. handle_read os x c1 file_name user)
               else if typ = ''STREAM'' then
                 with_ticket os ctx c1 token user file_name ''STREAM'' (\<lambda>x. handle_stream os x c1 file_name user)
               else if typ = ''WRITE_BEGIN'' then
                 (case json_get_int json ''sentence'' of
                    None \<Rightarrow> (ctx, snd (send_error_response c1 ERR_BADREQ ''missing sentence''))
                  | Some i \<Rightarrow>
                      with_ticket os ctx c1 token user file_name ''WRITE''
                        (\<lambda>x. handle_write os x c1 file_name user i))
               else (ctx, snd (send_error_response c1 ERR_BADREQ ''unsupported operation''))
           | _ \<Rightarrow> (ctx, snd (send_error_response c1 ERR_BADREQ ''missing fields''))))"

end
