(* ===== verification/SS_Control.thy ===== *)
theory SS_Control
  imports SS_Handlers
begin

text \<open>
  The control connection of the storage server: the commands of the name manager
  (\<^verbatim>\<open>process_nm_command\<close> of \<^verbatim>\<open>ss/ss_main.c\<close>) and the replication of a file from another
  storage server. \<open>remote host port payload\<close> is what the peer answers to a payload on a
  fresh connection, \<open>None\<close> when connecting, sending or receiving fails.
\<close>

type_synonym remote = "string \<Rightarrow> string \<Rightarrow> string \<Rightarrow> string option"

definition nm_ok :: "ss_context \<Rightarrow> string \<Rightarrow> bool \<times> ss_context" where
  "nm_ok ctx extra = (case send_ok (nm_conn ctx) extra of (b, c) \<Rightarrow> (b, ctx\<lparr>nm_conn := c\<rparr>))"

definition nm_error :: "ss_context \<Rightarrow> error_code_t \<Rightarrow> string \<Rightarrow> bool \<times> ss_context" where
  "nm_error ctx code msg =
     (case send_error_response (nm_conn ctx) code msg of (b, c) \<Rightarrow> (b, ctx\<lparr>nm_conn := c\<rparr>))"

section \<open>Replication\<close>

definition ss_fetch_remote_content :: "remote \<Rightarrow> string \<Rightarrow> string \<Rightarrow> string \<Rightarrow> string \<Rightarrow> string \<Rightarrow> string option" where
  "ss_fetch_remote_content remote host port file user ticket =
     (case (json_escape_dup file, json_escape_dup user, json_escape_dup ticket) of
        (Some file_esc, Some user_esc, Some ticket_esc) \<Rightarrow>
          let payload = braces [fmt_str ''type'' ''READ'', fmt_str ''file'' file_esc,
                fmt_str ''user'' user_esc, fmt_str ''ticket'' ticket_esc] in
          if MAX_JSON \<le> length payload then None
          else (case remote host port payload of
              None \<Rightarrow> None
            | Some response \<Rightarrow>
                (case json_get_string response ''status'' 16 of
                   None \<Rightarrow> None
                 | Some status \<Rightarrow>
                     if status \<noteq> ''OK'' then None else json_get_string_alloc response ''content''))
      | _ \<Rightarrow> None)"

text \<open>The entry to sync into, added when the server does not have the file.\<close>

definition sync_target :: "os \<Rightarrow> ss_context \<Rightarrow> string \<Rightarrow> string \<Rightarrow> ss_file option \<times> ss_context" where
  "sync_target os ctx file_name owner =
     (case snapshot_file ctx file_name of
        Some view \<Rightarrow> (Some view, ctx)
      | None \<Rightarrow>
          (case ss_state_add (os_env os) (os_now os) (sc_state ctx) (sc_disk ctx) file_name owner of
             (Fail _, st, d) \<Rightarrow> (None, ctx\<lparr>sc_state := st, sc_disk := d\<rparr>)
           | (Ok _, st, d) \<Rightarrow>
               let ctx' = ctx\<lparr>sc_state := st, sc_disk := d\<rparr> in (snapshot_file ctx' file_name, ctx')))"

definition sync_store :: "os \<Rightarrow> ss_context \<Rightarrow> string \<Rightarrow> ss_file \<Rightarrow> string \<Rightarrow> bool \<times> ss_context" where
  "sync_store os ctx file_name view content =
     (case store_text_atomic (os_env os) (sc_disk ctx) (undo_path view) (file_text (os_env os) (sc_disk ctx) view) of
        (d1, False) \<Rightarrow> (False, ctx\<lparr>sc_disk := d1\<rparr>)
      | (d1, True) \<Rightarrow>
          (case store_text_atomic (os_env os) d1 (data_path view) content of
             (d2, False) \<Rightarrow> (False, ctx\<lparr>sc_disk := d2\<rparr>)
           | (d2, True) \<Rightarrow>
               (case update_entry os (ctx\<lparr>sc_disk := d2\<rparr>) file_name
                       (\<lambda>f. f\<lparr>sf_char_count := length content, sf_word_count := count_words_in_text content\<rparr>) of
                  (None, ctx2) \<Rightarrow> (False, ctx2)
                | (Some _, ctx2) \<Rightarrow> (True, ctx2))))"

definition handle_nm_sync :: "os \<Rightarrow> remote \<Rightarrow> ss_context \<Rightarrow> string \<Rightarrow> bool \<times> ss_context" where
  "handle_nm_sync os remote ctx json =
     (case (json_get_string json ''file'' SS_NAME_MAX, json_get_string json ''owner'' SS_USER_MAX,
            json_get_string json ''sourceHost'' 64, json_get_string json ''sourcePort'' 16,
            json_get_string json ''ticket'' 64) of
        (Some file_name, Some owner, Some host, Some port, Some ticket) \<Rightarrow>
          (case ss_fetch_remote_content remote host port file_name owner ticket of
             None \<Rightarrow> nm_error ctx ERR_INTERNAL ''sync failed''
           | Some content \<Rightarrow>
               (case sync_target os ctx file_name owner of
                  (None, ctx1) \<Rightarrow> nm_error ctx1 ERR_INTERNAL ''sync failed''
                | (Some view, ctx1) \<Rightarrow>
                    (case sync_store os ctx1 file_name view content of
                       (False, ctx2) \<Rightarrow> nm_error ctx2 ERR_INTERNAL ''sync failed''
                     | (True, ctx2) \<Rightarrow> nm_ok ctx2 (fmt_str ''op'' ''SYNC''))))
      | _ \<Rightarrow> nm_error ctx ERR_BADREQ ''invalid sync'')"

section \<open>Commands\<close>

definition handle_nm_ticket_command :: "os \<Rightarrow> ss_context \<Rightarrow> string \<Rightarrow> bool \<times> ss_context" where
  "handle_nm_ticket_command os ctx json =
     (case (json_get_string json ''token'' 64, json_get_string json ''file'' SS_NAME_MAX,
            json_get_string json ''user'' SS_USER_MAX, json_get_string json ''op'' 16, json_get_int json ''expiry'') of
        (Some token, Some file_name, Some user, Some op, Some expiry) \<Rightarrow>
          (case ticket_table_add (mem_ok (os_env os)) (sc_tickets ctx) token file_name user op expiry of
             None \<Rightarrow> nm_error ctx ERR_INTERNAL ''ticket failed''
           | Some t \<Rightarrow> nm_ok (ctx\<lparr>sc_tickets := t\<rparr>) (fmt_str ''op'' ''TICKET''))
      | _ \<Rightarrow> nm_error ctx ERR_BADREQ ''invalid ticket'')"

definition respond_checkpoint_error :: "ss_context \<Rightarrow> errno \<Rightarrow> string \<Rightarrow> bool \<times> ss_context" where
  "respond_checkpoint_error ctx err msg =
     nm_error ctx
       (if err = ENOENT then ERR_NOTFOUND
        else if err = EINVAL \<or> err = ENAMETOOLONG then ERR_BADREQ
        else ERR_INTERNAL) msg"

definition nm_create :: "os \<Rightarrow> ss_context \<Rightarrow> string \<Rightarrow> bool \<times> ss_context" where
  "nm_create os ctx json =
     (case (json_get_string json ''file'' SS_NAME_MAX, json_get_string json ''owner'' SS_USER_MAX) of
        (Some name, Some owner) \<Rightarrow>
          if \<not> valid_filename name then nm_error ctx ERR_BADREQ ''invalid create''
          else
            (case ss_state_add (os_env os) (os_now os) (sc_state ctx) (sc_disk ctx) name owner of
               (Fail e, st, d) \<Rightarrow>
                 nm_error (ctx\<lparr>sc_state := st, sc_disk := d\<rparr>) ERR_EXISTS (os_strerror os (errno_of (os_errno os) e))
             | (Ok _, st, d) \<Rightarrow> nm_ok (ctx\<lparr>sc_state := st, sc_disk := d\<rparr>) (fmt_str ''op'' ''CREATE''))
      | _ \<Rightarrow> nm_error ctx ERR_BADREQ ''invalid create'')"

definition nm_delete :: "ss_context \<Rightarrow> string \<Rightarrow> bool \<times> ss_context" where
  "nm_delete ctx json =
     (case json_get_string json ''file'' SS_NAME_MAX of
        Some name \<Rightarrow>
          if \<not> valid_filename name then nm_error ctx ERR_BADREQ ''invalid delete''
          else
            (case ss_state_find (sc_state ctx) name of
               (None, _) \<Rightarrow> nm_error ctx ERR_NOTFOUND ''file missing''
             | (Some file, _) \<Rightarrow>
                 if lock_active file then nm_error ctx ERR_LOCKED ''file locked for write''
                 else
                   (case ss_state_remove (sc_state ctx) (sc_disk ctx) name of
                      (Fail _, st, d) \<Rightarrow> nm_error (ctx\<lparr>sc_state := st, sc_disk := d\<rparr>) ERR_INTERNAL ''delete failed''
                    | (Ok _, st, d) \<Rightarrow> nm_ok (ctx\<lparr>sc_state := st, sc_disk := d\<rparr>) (fmt_str ''op'' ''DELETE'')))
      | None \<Rightarrow> nm_error ctx ERR_BADREQ ''invalid delete'')"

definition nm_undo :: "os \<Rightarrow> ss_context \<Rightarrow> string \<Rightarrow> bool \<times> ss_context" where
  "nm_undo os ctx json =
     (case (json_get_string json ''file'' SS_NAME_MAX, json_get_string json ''user'' SS_USER_MAX) of
        (Some file_name, Some user) \<Rightarrow>
          (case perform_undo os ctx file_name user of
             (Fail e, ctx1) \<Rightarrow>
               if errno_of (os_errno os) e = EBUSY then nm_error ctx1 ERR_LOCKED ''file locked for write''
               else nm_error ctx1 ERR_CONFLICT ''undo not possible''
           | (Ok (txt, words, chars), ctx1) \<Rightarrow>
               (case json_escape_dup txt of
                  None \<Rightarrow> nm_ok ctx1 (fmt_str ''op'' ''UNDO'')
                | Some escaped \<Rightarrow>
                    let extra = commas [fmt_str ''op'' ''UNDO'', fmt_int ''words'' (int words),
                          fmt_int ''chars'' (int chars), fmt_str ''content'' escaped] in
                    nm_ok ctx1 (if length extra < MAX_JSON then extra else fmt_str ''op'' ''UNDO'')))
      | _ \<Rightarrow> nm_error ctx ERR_BADREQ ''invalid undo'')"

text \<open>The three checkpoint commands share the parsing of their fields.\<close>

definition nm_checkpoint :: "ss_context \<Rightarrow> string \<Rightarrow> (string \<Rightarrow> string \<Rightarrow> string \<Rightarrow> bool \<times> ss_context) \<Rightarrow> bool \<times> ss_context" where
  "nm_checkpoint ctx json act =
     (case (json_get_string json ''file'' SS_NAME_MAX, json_get_string json ''tag'' SS_NAME_MAX,
            json_get_string json ''user'' SS_USER_MAX) of
        (Some file_name, Some tag, Some user) \<Rightarrow>
          if \<not> valid_filename tag then nm_error ctx ERR_BADREQ ''invalid tag'' else act file_name tag user
      | _ \<Rightarrow> nm_error ctx ERR_BADREQ ''invalid checkpoint'')"

definition nm_checkpoint_create :: "os \<Rightarrow> ss_context \<Rightarrow> string \<Rightarrow> string \<Rightarrow> string \<Rightarrow> bool \<times> ss_context" where
  "nm_checkpoint_create os ctx file_name tag user =
     (case ss_create_checkpoint os ctx file_name tag user of
        (Fail e, ctx1) \<Rightarrow> respond_checkpoint_error ctx1 (errno_of (os_errno os) e) ''checkpoint create failed''
      | (Ok _, ctx1) \<Rightarrow> nm_ok ctx1 (fmt_str ''op'' ''CHECKPOINT''))"

definition nm_checkpoint_view :: "os \<Rightarrow> ss_context \<Rightarrow> string \<Rightarrow> string \<Rightarrow> string \<Rightarrow> bool \<times> ss_context" where
  "nm_checkpoint_view os ctx file_name tag user =
     (case ss_read_checkpoint os ctx file_name tag of
        Fail e \<Rightarrow> respond_checkpoint_error ctx (errno_of (os_errno os) e) ''checkpoint missing''
      | Ok content \<Rightarrow>
          (case json_escape_dup content of
             None \<Rightarrow> nm_error ctx ERR_INTERNAL ''encoding error''
           | Some escaped \<Rightarrow>
               if MAX_JSON \<le> length (fmt_str ''content'' escaped) then nm_error ctx ERR_INTERNAL ''response too large''
               else nm_ok ctx (fmt_str ''content'' escaped)))"

definition nm_checkpoint_revert :: "os \<Rightarrow> ss_context \<Rightarrow> string \<Rightarrow> string \<Rightarrow> string \<Rightarrow> bool \<times> ss_context" where
  "nm_checkpoint_revert os ctx file_name tag user =
     (case ss_revert_checkpoint os ctx file_name tag user of
        (Fail e, ctx1) \<Rightarrow>
          if errno_of (os_errno os) e = EBUSY then nm_error ctx1 ERR_LOCKED ''file locked for write''
          else respond_checkpoint_error ctx1 (errno_of (os_errno os) e) ''checkpoint revert failed''
      | (Ok _, ctx1) \<Rightarrow> nm_ok ctx1 (fmt_str ''op'' ''REVERT''))"

text \<open>One command; the result is the value returned to the main loop, \<^verbatim>\<open>-1\<close> being \<open>False\<close>.\<close>

definition process_nm_command :: "os \<Rightarrow> remote \<Rightarrow> ss_context \<Rightarrow> bool \<times> ss_context" where
  "process_nm_command os remote ctx0 =
     (case inbox (nm_conn ctx0) of
        [] \<Rightarrow> (False, ctx0)
      | json # rest \<Rightarrow>
          let ctx = ctx0\<lparr>nm_conn := (nm_conn ctx0)\<lparr>inbox := rest\<rparr>\<rparr> in
          (case json_get_string json ''type'' 64 of
             None \<Rightarrow> (True, snd (nm_error ctx ERR_BADREQ ''missing type''))
           | Some typ \<Rightarrow>
               if typ = ''NM_CREATE'' then (True, snd (nm_create os ctx json))
               else if typ = ''NM_DELETE'' then (True, snd (nm_delete ctx json))
               else if typ = ''NM_TICKET'' then (True, snd (handle_nm_ticket_command os ctx json))
               else if typ = ''NM_UNDO'' then (True, snd (nm_undo os ctx json))
               else if typ = ''NM_CHECKPOINT_CREATE'' then
                 (True, snd (nm_checkpoint ctx json (nm_checkpoint_create os ctx)))
               else if typ = ''NM_CHECKPOINT_VIEW'' then
                 (True, snd (nm_checkpoint ctx json (nm_checkpoint_view os ctx)))
               else if typ = ''NM_CHECKPOINT_REVERT'' then
                 (True, snd (nm_checkpoint ctx json (nm_checkpoint_revert os ctx)))
               else if typ = ''NM_SYNC'' then handle_nm_sync os remote ctx json
               else if typ = ''PING'' then (True, snd (nm_ok ctx (fmt_str ''op'' ''PING'')))
               else (True, snd (nm_error ctx ERR_BADREQ ''unknown command''))))"

section \<open>Registration\<close>

text \<open>
  The text written to the buffer, and whether a terminator follows it: when a name does
  not fit, the comma before it has already replaced the terminator.
\<close>

fun file_list_loop :: "nat \<Rightarrow> string \<Rightarrow> ss_file list \<Rightarrow> string \<times> bool" where
  "file_list_loop out_size out [] = (out, True)"
| "file_list_loop out_size out (f # fs) =
     (if out \<noteq> [] \<and> out_size \<le> length out + 1 then (out, True)
      else
        let out1 = (if out \<noteq> [] then out @ '','' else out) in
        if out_size \<le> length out1 + length (sf_name f) then (out1, out = [])
        else file_list_loop out_size (out1 @ sf_name f) fs)"

definition build_file_list :: "ss_context \<Rightarrow> nat \<Rightarrow> string \<times> bool" where
  "build_file_list ctx out_size = file_list_loop out_size [] (items (ss_files (sc_state ctx)))"

text \<open>The registration message, for a terminated file list.\<close>

definition register_payload :: "string \<Rightarrow> string \<Rightarrow> string \<Rightarrow> string \<Rightarrow> string \<Rightarrow> string option" where
  "register_payload ss_id host ctrl_port data_port file_list =
     (case (json_escape_string 128 ss_id, json_escape_string 128 host, json_escape_string 1024 file_list) of
        (Some escaped_id, Some escaped_host, Some escaped_files) \<Rightarrow>
          let payload = braces [fmt_str ''type'' ''SS_REGISTER'', fmt_str ''ssId'' escaped_id,
                fmt_str ''host'' escaped_host, fmt_str ''ctrlPort'' ctrl_port, fmt_str ''dataPort'' data_port,
                fmt_str ''files'' escaped_files] in
          if MAX_JSON \<le> length payload then None else Some payload
      | _ \<Rightarrow> None)"

text \<open>Waiting for the acknowledgement: tickets that arrive first are stored.\<close>

fun register_wait :: "os \<Rightarrow> ss_context \<Rightarrow> string list \<Rightarrow> bool \<times> ss_context" where
  "register_wait os ctx [] = (False, ctx\<lparr>nm_conn := (nm_conn ctx)\<lparr>inbox := []\<rparr>\<rparr>)"
| "register_wait os ctx (resp # rest) =
     (case json_get_string resp ''status'' 16 of
        Some status \<Rightarrow> (status = ''OK'', ctx\<lparr>nm_conn := (nm_conn ctx)\<lparr>inbox := rest\<rparr>\<rparr>)
      | None \<Rightarrow>
          if json_get_string resp ''type'' 64 = Some ''NM_TICKET'' then
            (case handle_nm_ticket_command os ctx resp of
               (False, ctx') \<Rightarrow> (False, ctx'\<lparr>nm_conn := (nm_conn ctx')\<lparr>inbox := rest\<rparr>\<rparr>)
             | (True, ctx') \<Rightarrow> register_wait os ctx' rest)
          else register_wait os ctx rest)"

end
