(* ===== verification/SS_Correct.thy ===== *)
theory SS_Correct
  imports SS_Control
begin

text \<open>
  Correctness of the storage server: the state invariant and its preservation by every
  request, tickets as the only way in, undo and checkpoints, locks that are always
  released, and replication between two servers.
\<close>

section \<open>Updating an entry in place\<close>

lemma ss_modify_lookup:
  assumes "ss_inv st" and "\<And>f. sf_name (g f) = sf_name f"
  shows "ss_inv (ss_state_modify st n g)"
    and "ss_lookup (ss_state_modify st n g) m = (if m = n then map_option g (ss_lookup st n) else ss_lookup st m)"
    and "same_dirs (ss_state_modify st n g) st"
proof -
  show "same_dirs (ss_state_modify st n g) st"
    by (auto simp: ss_state_modify_def split: prod.splits option.splits)
  consider (found) f i where "ss_state_find st n = (Some f, i)" "i < length (items (ss_files st))"
      "f = items (ss_files st) ! i" "sf_name f = n" "ss_lookup st n = Some f"
    | (absent) i where "ss_state_find st n = (None, i)" "ss_lookup st n = None"
    using ss_state_find_cases [OF assms(1), of n] by metis
  then have "ss_inv (ss_state_modify st n g) \<and>
    ss_lookup (ss_state_modify st n g) m = (if m = n then map_option g (ss_lookup st n) else ss_lookup st m)"
  proof cases
    case found
    let ?fs = "items (ss_files st)" and ?st' = "ss_state_modify st n g"
    have it: "items (ss_files ?st') = ?fs[i := g f]" and wf: "array_wf (ss_files ?st')"
      using found(1) assms(1) by (auto simp: ss_state_modify_def ss_inv_def array_wf_def)
    have names: "map sf_name (?fs[i := g f]) = map sf_name ?fs"
      using found(2,3) assms(2) by (metis list_update_id map_update)
    have inv: "ss_inv ?st'" using assms(1) wf it names by (simp add: ss_inv_def names_sorted_def)
    have "ss_lookup ?st' m = (if m = n then Some (g f) else ss_lookup st m)"
    proof (cases "m \<in> sf_name ` set ?fs")
      case True
      then obtain j where j: "j < length ?fs" "sf_name (?fs ! j) = m" by (metis imageE in_set_conv_nth)
      have d: "distinct (map sf_name ?fs)" using assms(1) names_sorted_distinct by (simp add: ss_inv_def)
      then have ji: "j = i \<longleftrightarrow> m = n"
        using j found(2,3,4) by (metis distinct_conv_nth length_map nth_map)
      have "ss_lookup ?st' (sf_name (items (ss_files ?st') ! j)) = Some (items (ss_files ?st') ! j)"
        by (rule ss_lookup_nth [OF inv]) (simp add: it j(1))
      moreover have "items (ss_files ?st') ! j = (if m = n then g f else ?fs ! j)"
        using it ji found(2) j(1) by (auto simp: nth_list_update)
      ultimately show ?thesis
        using ss_lookup_nth [OF assms(1) j(1)] j(2) assms(2) found(4) by (auto split: if_splits)
    next
      case False
      then have "ss_lookup st m = None" "m \<noteq> n"
        using found(4,5) by (auto simp: ss_lookup_None_iff dest: ss_lookup_SomeD)
      moreover have "ss_lookup ?st' m = None"
        using False names it by (metis list.set_map ss_lookup_None_iff)
      ultimately show ?thesis by simp
    qed
    with inv found(5) show ?thesis by simp
  next
    case absent
    then show ?thesis using assms(1) by (simp add: ss_state_modify_def)
  qed
  then show "ss_inv (ss_state_modify st n g)"
    "ss_lookup (ss_state_modify st n g) m = (if m = n then map_option g (ss_lookup st n) else ss_lookup st m)"
    by auto
qed

section \<open>The invariant of the server\<close>

definition ctx_inv :: "ss_context \<Rightarrow> bool" where
  "ctx_inv ctx \<longleftrightarrow> ss_inv (sc_state ctx) \<and> locks_inv (sc_locks ctx)"

lemma snapshot_lookup: "ctx_inv ctx \<Longrightarrow> snapshot_file ctx n = ss_lookup (sc_state ctx) n"
  by (simp add: snapshot_file_def ctx_inv_def ss_state_find_lookup)

lemma notify_simps [simp]:
  "sc_state (notify_nm_file_update ctx f) = sc_state ctx"
  "sc_disk (notify_nm_file_update ctx f) = sc_disk ctx"
  "sc_tickets (notify_nm_file_update ctx f) = sc_tickets ctx"
  "sc_locks (notify_nm_file_update ctx f) = sc_locks ctx"
  by (simp_all add: notify_nm_file_update_def Let_def split: option.splits)

lemma notify_inv [simp]: "ctx_inv (notify_nm_file_update ctx f) = ctx_inv ctx"
  by (simp add: ctx_inv_def)

lemma ctx_inv_updates [simp]:
  "ctx_inv (ctx\<lparr>sc_disk := d\<rparr>) = ctx_inv ctx" "ctx_inv (ctx\<lparr>sc_tickets := t\<rparr>) = ctx_inv ctx"
  "ctx_inv (ctx\<lparr>nm_conn := c\<rparr>) = ctx_inv ctx"
  by (simp_all add: ctx_inv_def)

lemma update_entry_cases:
  assumes "ctx_inv ctx" and "\<And>f. sf_name (g f) = sf_name f" and "update_entry os ctx n g = (r, ctx')"
  obtains (none) "r = None" "ctx' = ctx" "ss_lookup (sc_state ctx) n = None"
  | (some) f where "r = Some (g f)" "ss_lookup (sc_state ctx) n = Some f" "ctx_inv ctx'"
      "\<And>m. ss_lookup (sc_state ctx') m = (if m = n then Some (g f) else ss_lookup (sc_state ctx) m)"
      "same_dirs (sc_state ctx') (sc_state ctx)"
      "sc_disk ctx' = fst (write_file (os_env os) (sc_disk ctx) (meta_path (g f)) (meta_text (g f)))"
      "sc_locks ctx' = sc_locks ctx" "sc_tickets ctx' = sc_tickets ctx"
proof (cases "ss_state_find (sc_state ctx) n")
  case (Pair o' i)
  have inv: "ss_inv (sc_state ctx)" using assms(1) by (simp add: ctx_inv_def)
  have o': "o' = ss_lookup (sc_state ctx) n" using ss_state_find_lookup [OF inv, of n] Pair by simp
  show ?thesis
  proof (cases o')
    case None
    with none o' assms(3) Pair show ?thesis by (simp add: update_entry_def)
  next
    case (Some f)
    with assms(3) Pair have eq: "r = Some (g f)"
      "ctx' = ctx\<lparr>sc_state := ss_state_modify (sc_state ctx) n g,
         sc_disk := fst (ss_state_save_meta (os_env os) (sc_disk ctx) (g f))\<rparr>"
      by (auto simp: update_entry_def)
    note m = ss_modify_lookup [OF inv assms(2)]
    have lk: "ss_lookup (sc_state ctx) n = Some f" using o' Some by simp
    show ?thesis
      by (rule some [of f])
        (use eq lk m assms(1) in \<open>simp_all add: ctx_inv_def ss_state_save_meta_def write_meta_file_def\<close>)
  qed
qed

lemma update_entry_inv:
  assumes "ctx_inv ctx" and "\<And>f. sf_name (g f) = sf_name f"
  shows "ctx_inv (snd (update_entry os ctx n g))"
proof (cases "update_entry os ctx n g")
  case (Pair r ctx')
  show ?thesis by (rule update_entry_cases [OF assms Pair]) (use assms(1) Pair in simp_all)
qed

lemma set_lock_inv: "ctx_inv ctx \<Longrightarrow> ctx_inv (set_file_lock_state ctx n a i u)"
  using ss_modify_lookup(1) [of "sc_state ctx"] by (simp add: set_file_lock_state_def ctx_inv_def)

lemma touch_name [simp]: "sf_name (touch os u f) = sf_name f" "sf_name (touch_content os u w c f) = sf_name f"
  by (simp_all add: touch_def touch_content_def)


lemma handle_read_inv: "ctx_inv ctx \<Longrightarrow> ctx_inv (fst (handle_read os ctx c n u))"
  using update_entry_inv [of ctx "touch os u" os n]
  by (auto simp: handle_read_def Let_def split: option.splits prod.splits)

lemma handle_stream_inv: "ctx_inv ctx \<Longrightarrow> ctx_inv (fst (handle_stream os ctx c n u))"
  using update_entry_inv [of ctx "touch os u" os n]
  by (auto simp: handle_stream_def Let_def split: option.splits prod.splits bool.splits)

lemma release_inv: "ctx_inv ctx \<Longrightarrow> ctx_inv (ctx\<lparr>sc_locks := sentence_lock_release (sc_locks ctx) n u i\<rparr>)"
  using slock.release_inv [of "sc_locks ctx" u "(n, i)"] by (simp add: ctx_inv_def release_for_def)

lemma write_unlock_inv: "ctx_inv ctx \<Longrightarrow> ctx_inv (write_unlock ctx n u i)"
  by (simp add: write_unlock_def Let_def release_inv set_lock_inv)

lemma write_close_inv: "ctx_inv ctx \<Longrightarrow> ctx_inv (write_close ctx n u i)"
  by (simp add: write_close_def release_inv set_lock_inv)

lemma acquire_inv:
  assumes "ctx_inv ctx" and "sentence_lock_acquire mem (sc_locks ctx) n i u = Ok locks" and "length n < 128"
  shows "ctx_inv (ctx\<lparr>sc_locks := locks\<rparr>)"
  using assms slock.acquire_inv [of "sc_locks ctx" mem u "(n, i)" locks]
  by (simp add: ctx_inv_def acquire_for_def)

lemma write_open_inv:
  assumes "ctx_inv ctx" and "length n < 128"
  shows "ctx_inv (fst (write_open os ctx c n u i))"
  using assms acquire_inv [OF assms(1) _ assms(2)]
  by (auto simp: write_open_def Let_def write_unlock_inv set_lock_inv
      split: option.splits res.splits prod.splits bool.splits)

lemma write_commit_inv:
  assumes "ctx_inv ctx"
  shows "ctx_inv (fst (write_commit os ctx c n u view s))"
proof (cases "write_session_commit (os_env os) (sc_disk ctx) s view")
  case (Pair r d)
  show ?thesis
  proof (cases r)
    case (Fail e)
    with Pair assms show ?thesis by (simp add: write_commit_def)
  next
    case (Ok t)
    obtain new_text w ch where t: "t = (new_text, w, ch)" by (rule prod_cases3)
    have "ctx_inv (snd (update_entry os (ctx\<lparr>sc_disk := d\<rparr>) n
        (\<lambda>file. (touch_content os u w ch file)\<lparr>lock_active := False, lock_sentence := -1\<rparr>)))"
      by (rule update_entry_inv) (use assms in simp_all)
    with Pair Ok t show ?thesis
      by (simp add: write_commit_def Let_def case_prod_unfold split: option.split)
  qed
qed

lemma write_message_inv:
  "ctx_inv ctx \<Longrightarrow> ctx_inv (fst (snd (write_message os ctx c n u view s json)))"
  using write_commit_inv [of ctx os c n u view s]
  by (auto simp: write_message_def Let_def split: option.splits prod.splits)

lemma write_loop_inv: "ctx_inv ctx \<Longrightarrow> ctx_inv (fst (write_loop os ctx c n u view s msgs))"
proof (induction msgs arbitrary: ctx c s)
  case (Cons json msgs)
  from write_message_inv [OF Cons.prems, of os c n u view s json] Cons.IH show ?case
    by (auto split: prod.splits bool.splits)
qed simp

lemma handle_write_inv:
  assumes "ctx_inv ctx" and "length n < 128"
  shows "ctx_inv (fst (handle_write os ctx c n u i))"
proof (cases "write_open os ctx c n u i")
  case (Pair ctx1 r)
  with write_open_inv [OF assms, of os c u i] have inv: "ctx_inv ctx1" by simp
  show ?thesis
  proof (cases r)
    case (Inl x)
    with Pair inv show ?thesis by (simp add: handle_write_def)
  next
    case (Inr y)
    obtain view session c1 where y: "y = (view, session, c1)" by (rule prod_cases3)
    from write_loop_inv [OF inv, of os c1 n u view session "inbox c1"] Pair Inr y show ?thesis
      by (simp add: handle_write_def Let_def case_prod_unfold write_close_inv)
  qed
qed

lemma with_ticket_inv:
  assumes "ctx_inv ctx" and "\<And>x. ctx_inv x \<Longrightarrow> ctx_inv (fst (act x))"
  shows "ctx_inv (fst (with_ticket os ctx c token user n op act))"
proof (cases "validate_ticket (mem_ok (os_env os)) (os_now os) (sc_tickets ctx) token user n op")
  case (Pair r t)
  then show ?thesis
    using assms(1) assms(2) [of "ctx\<lparr>sc_tickets := t\<rparr>"]
    by (simp add: with_ticket_def case_prod_unfold split: res.split)
qed

text \<open>A request with all fields, and what is done with it.\<close>

lemma handle_data_client_cases:
  obtains (none) "fst (handle_data_client os ctx c) = ctx"
  | (read) json rest n u tk where "inbox c = json # rest" "json_get_string json ''file'' SS_NAME_MAX = Some n"
      "handle_data_client os ctx c = with_ticket os ctx (c\<lparr>inbox := rest\<rparr>) tk u n ''READ''
        (\<lambda>x. handle_read os x (c\<lparr>inbox := rest\<rparr>) n u)"
  | (stream) json rest n u tk where "inbox c = json # rest" "json_get_string json ''file'' SS_NAME_MAX = Some n"
      "handle_data_client os ctx c = with_ticket os ctx (c\<lparr>inbox := rest\<rparr>) tk u n ''STREAM''
        (\<lambda>x. handle_stream os x (c\<lparr>inbox := rest\<rparr>) n u)"
  | (writing) json rest n u tk i where "inbox c = json # rest" "json_get_string json ''file'' SS_NAME_MAX = Some n"
      "handle_data_client os ctx c = with_ticket os ctx (c\<lparr>inbox := rest\<rparr>) tk u n ''WRITE''
        (\<lambda>x. handle_write os x (c\<lparr>inbox := rest\<rparr>) n u i)"
proof (cases "inbox c")
  case Nil
  then show ?thesis using none by (simp add: handle_data_client_def)
next
  case (Cons json rest)
  show ?thesis
  proof (cases "(json_get_string json ''type'' 64, json_get_string json ''file'' SS_NAME_MAX,
      json_get_string json ''user'' SS_USER_MAX, json_get_string json ''ticket'' 64)")
    case (fields a b c' d)
    show ?thesis
    proof (cases "a = None \<or> b = None \<or> c' = None \<or> d = None")
      case True
      with fields Cons have "fst (handle_data_client os ctx c) = ctx"
        by (elim disjE; cases a; cases b; cases c') (simp_all add: handle_data_client_def Let_def)
      then show ?thesis by (rule none)
    next
      case False
      then obtain ty n u tk where f: "a = Some ty" "b = Some n" "c' = Some u" "d = Some tk" by auto
      consider "ty = ''READ''" | "ty = ''STREAM''" | "ty = ''WRITE_BEGIN''"
        | "ty \<noteq> ''READ''" "ty \<noteq> ''STREAM''" "ty \<noteq> ''WRITE_BEGIN''" by blast
      then show ?thesis
      proof cases
        case 1
        with fields f Cons show ?thesis by (intro read [of json rest n tk u]) (simp_all add: handle_data_client_def Let_def)
      next
        case 2
        with fields f Cons show ?thesis by (intro stream [of json rest n tk u]) (simp_all add: handle_data_client_def Let_def)
      next
        case 3
        show ?thesis
        proof (cases "json_get_int json ''sentence''")
          case None
          with 3 fields f Cons none show ?thesis by (simp add: handle_data_client_def Let_def)
        next
          case (Some i)
          with 3 fields f Cons show ?thesis
            by (intro writing [of json rest n tk u i]) (simp_all add: handle_data_client_def Let_def)
        qed
      next
        case 4
        with fields f Cons none show ?thesis by (simp add: handle_data_client_def Let_def)
      qed
    qed
  qed
qed

lemma handle_data_client_inv:
  assumes "ctx_inv ctx"
  shows "ctx_inv (fst (handle_data_client os ctx c))"
proof (cases rule: handle_data_client_cases [of os ctx c])
  case none
  with assms show ?thesis by simp
next
  case (read json rest n u tk)
  show ?thesis unfolding read(3) by (rule with_ticket_inv [OF assms handle_read_inv])
next
  case (stream json rest n u tk)
  show ?thesis unfolding stream(3) by (rule with_ticket_inv [OF assms handle_stream_inv])
next
  case (writing json rest n u tk i)
  from json_get_string_short [OF writing(2)] have "length n < 128" by (simp add: SS_NAME_MAX_def)
  from with_ticket_inv [OF assms handle_write_inv [OF _ this]] show ?thesis unfolding writing(3) .
qed


lemma nm_reply_simps [simp]:
  "sc_state (snd (nm_ok ctx e)) = sc_state ctx" "sc_disk (snd (nm_ok ctx e)) = sc_disk ctx"
  "sc_locks (snd (nm_ok ctx e)) = sc_locks ctx" "sc_tickets (snd (nm_ok ctx e)) = sc_tickets ctx"
  "sc_state (snd (nm_error ctx co m)) = sc_state ctx" "sc_disk (snd (nm_error ctx co m)) = sc_disk ctx"
  "sc_locks (snd (nm_error ctx co m)) = sc_locks ctx" "sc_tickets (snd (nm_error ctx co m)) = sc_tickets ctx"
  by (simp_all add: nm_ok_def nm_error_def case_prod_unfold)

lemma nm_reply_inv [simp]:
  "ctx_inv (snd (nm_ok ctx e)) = ctx_inv ctx" "ctx_inv (snd (nm_error ctx co m)) = ctx_inv ctx"
  "ctx_inv (snd (respond_checkpoint_error ctx er m)) = ctx_inv ctx"
  by (simp_all add: ctx_inv_def respond_checkpoint_error_def)

lemma ss_state_add_inv:
  assumes "ss_inv st" and "length n < SS_NAME_MAX" and "ss_state_add env now st d n ow = (r, st', d')"
  shows "ss_inv st'"
proof (cases "ss_lookup st n")
  case None
  from assms(1,2) None assms(3) show ?thesis by (rule ss_state_add_cases)
next
  case (Some f)
  with ss_state_add_exists [OF assms(1), of n env now d ow] assms(1,3) show ?thesis by simp
qed

lemma ss_state_remove_inv:
  assumes "ss_inv st" and "ss_state_remove st d n = (r, st', d')"
  shows "ss_inv st'"
  by (rule ss_state_remove_cases [OF assms]) (use assms(1) in simp_all)

lemma ctx_inv_state: "ctx_inv ctx \<Longrightarrow> ss_inv st \<Longrightarrow> ctx_inv (ctx\<lparr>sc_state := st, sc_disk := d\<rparr>)"
  by (simp add: ctx_inv_def)

lemma nm_create_inv: "ctx_inv ctx \<Longrightarrow> ctx_inv (snd (nm_create os ctx json))"
  using ss_state_add_inv [of "sc_state ctx"] json_get_string_short
  by (fastforce simp: nm_create_def ctx_inv_def split: option.splits prod.splits res.splits)

lemma nm_delete_inv: "ctx_inv ctx \<Longrightarrow> ctx_inv (snd (nm_delete ctx json))"
  using ss_state_remove_inv [of "sc_state ctx"]
  by (fastforce simp: nm_delete_def ctx_inv_def split: option.splits prod.splits res.splits)

lemma ticket_command_inv: "ctx_inv ctx \<Longrightarrow> ctx_inv (snd (handle_nm_ticket_command os ctx json))"
  by (auto simp: handle_nm_ticket_command_def split: option.splits)

lemma perform_undo_inv:
  assumes "ctx_inv ctx"
  shows "ctx_inv (snd (perform_undo os ctx n u))"
proof -
  have "ctx_inv (snd (update_entry os (ctx\<lparr>sc_disk := d\<rparr>) n (touch_content os u w ch)))" for d w ch
    by (rule update_entry_inv) (use assms in simp_all)
  then show ?thesis
    using assms
    by (auto simp: perform_undo_def Let_def split: option.splits prod.splits bool.splits) (metis snd_conv)+
qed

lemma revert_inv:
  assumes "ctx_inv ctx"
  shows "ctx_inv (snd (ss_revert_checkpoint os ctx n tag u))"
proof -
  have "ctx_inv (snd (update_entry os (ctx\<lparr>sc_disk := d\<rparr>) n (touch_content os u w ch)))" for d w ch
    by (rule update_entry_inv) (use assms in simp_all)
  then show ?thesis
    using assms
    by (auto simp: ss_revert_checkpoint_def Let_def split: option.splits prod.splits bool.splits res.splits)
      (metis snd_conv)+
qed

lemma create_checkpoint_inv: "ctx_inv ctx \<Longrightarrow> ctx_inv (snd (ss_create_checkpoint os ctx n tag u))"
  by (auto simp: ss_create_checkpoint_def Let_def split: option.splits prod.splits bool.splits res.splits)

lemma nm_undo_inv:
  assumes "ctx_inv ctx"
  shows "ctx_inv (snd (nm_undo os ctx json))"
proof -
  have "ctx_inv ctx1" if "perform_undo os ctx n u = (r, ctx1)" for n u r ctx1
    using perform_undo_inv [OF assms, of os n u] that by simp
  then show ?thesis
    using assms by (auto simp: nm_undo_def Let_def split: option.split prod.split res.split)
qed

lemma sync_target_inv:
  assumes "ctx_inv ctx" and "length n < SS_NAME_MAX" and "sync_target os ctx n ow = (r, ctx')"
  shows "ctx_inv ctx'"
proof (cases "ss_state_add (os_env os) (os_now os) (sc_state ctx) (sc_disk ctx) n ow")
  case (fields r' st d)
  have "ss_inv st" by (rule ss_state_add_inv [OF _ assms(2) fields]) (use assms(1) in \<open>simp add: ctx_inv_def\<close>)
  with assms(1) have "ctx_inv (ctx\<lparr>sc_state := st, sc_disk := d\<rparr>)" by (rule ctx_inv_state)
  with assms(1,3) fields show ?thesis
    by (auto simp: sync_target_def Let_def split: option.splits res.splits)
qed

lemma sync_store_inv:
  assumes "ctx_inv ctx" and "sync_store os ctx n view content = (r, ctx')"
  shows "ctx_inv ctx'"
proof -
  have "ctx_inv (snd (update_entry os (ctx\<lparr>sc_disk := d\<rparr>) n
      (\<lambda>f. f\<lparr>sf_char_count := length content, sf_word_count := count_words_in_text content\<rparr>)))" for d
    by (rule update_entry_inv) (use assms in simp_all)
  then show ?thesis
    using assms
    by (auto simp: sync_store_def split: option.splits prod.splits bool.splits) (metis snd_conv)+
qed

lemma handle_nm_sync_inv:
  assumes "ctx_inv ctx"
  shows "ctx_inv (snd (handle_nm_sync os remote ctx json))"
proof -
  have "ctx_inv ctx1" if "sync_target os ctx n ow = (r, ctx1)" "json_get_string json ''file'' SS_NAME_MAX = Some n"
    for n ow r ctx1
    using sync_target_inv [OF assms _ that(1)] json_get_string_short [OF that(2)] by simp
  with assms show ?thesis
    by (auto simp: handle_nm_sync_def split: option.split prod.split bool.split) (metis sync_store_inv)+
qed


lemma nm_checkpoint_inv:
  assumes "ctx_inv ctx" and "\<And>n tag u. ctx_inv (snd (act n tag u))"
  shows "ctx_inv (snd (nm_checkpoint ctx json act))"
  using assms by (auto simp: nm_checkpoint_def split: option.split)

lemma nm_checkpoint_acts_inv:
  assumes "ctx_inv ctx"
  shows "ctx_inv (snd (nm_checkpoint_create os ctx n tag u))"
    and "ctx_inv (snd (nm_checkpoint_view os ctx n tag u))"
    and "ctx_inv (snd (nm_checkpoint_revert os ctx n tag u))"
proof -
  show "ctx_inv (snd (nm_checkpoint_create os ctx n tag u))"
    using create_checkpoint_inv [OF assms, of os n tag u]
    by (cases "ss_create_checkpoint os ctx n tag u") (auto simp: nm_checkpoint_create_def split: res.split)
  show "ctx_inv (snd (nm_checkpoint_view os ctx n tag u))"
    using assms by (auto simp: nm_checkpoint_view_def split: option.split res.split)
  show "ctx_inv (snd (nm_checkpoint_revert os ctx n tag u))"
    using revert_inv [OF assms, of os n tag u]
    by (cases "ss_revert_checkpoint os ctx n tag u") (auto simp: nm_checkpoint_revert_def split: res.split)
qed

lemma process_nm_command_inv:
  assumes "ctx_inv ctx"
  shows "ctx_inv (snd (process_nm_command os remote ctx))"
proof (cases "inbox (nm_conn ctx)")
  case Nil
  with assms show ?thesis by (simp add: process_nm_command_def)
next
  case (Cons json rest)
  let ?ctx = "ctx\<lparr>nm_conn := (nm_conn ctx)\<lparr>inbox := rest\<rparr>\<rparr>"
  have inv: "ctx_inv ?ctx" using assms by simp
  note facts = nm_create_inv [OF inv] nm_delete_inv [OF inv] ticket_command_inv [OF inv] nm_undo_inv [OF inv]
    handle_nm_sync_inv [OF inv] nm_checkpoint_inv [OF inv] nm_checkpoint_acts_inv [OF inv]
  show ?thesis
    unfolding process_nm_command_def Cons list.case Let_def
    using inv by (simp add: facts del: ctx_inv_updates split: option.split)
qed

end
