(* ===== verification/SS_Props.thy ===== *)
theory SS_Props
  imports SS_Correct
begin

text \<open>
  Properties of whole requests to the storage server: authorisation, locking, undo,
  checkpoints, the replies clients parse, and replication.
\<close>

section \<open>A server with one document\<close>

text \<open>The document of \<open>demo_file\<close> on a server that holds one ticket, for the examples below.\<close>

definition demo_os :: os where
  "demo_os = \<lparr>os_env = good_env, os_now = 10, os_errno = EOTHER, os_strerror = (\<lambda>_. ''error''),
     os_stat = (\<lambda>_. StatDir), os_mkdir = (\<lambda>_. None)\<rparr>"

definition demo_state :: ss_state where
  "demo_state = \<lparr>storage_dir = ''.'', files_dir = ''files'', meta_dir = ''meta'', undo_dir = ''undo'',
     checkpoints_dir = ''cp'', ss_files = \<lparr>items = [demo_file], cap = 8, elem_size = 1\<rparr>\<rparr>"

definition demo_ticket :: auth_ticket where
  "demo_ticket = \<lparr>tk_token = ''t1'', tk_file = ''f'', tk_user = ''ann'', tk_op = ''READ'', tk_expiry = 99\<rparr>"

definition demo_ctx :: ss_context where
  "demo_ctx = \<lparr>sc_state = demo_state, sc_disk = demo_disk,
     sc_tickets = \<lparr>items = [demo_ticket], cap = 8, elem_size = 1\<rparr>,
     sc_locks = \<lparr>items = [], cap = 0, elem_size = 1\<rparr>,
     nm_conn = \<lparr>inbox = [], outbox = [], send_limit = 9\<rparr>\<rparr>"

definition demo_conn :: "string list \<Rightarrow> conn" where
  "demo_conn msgs = \<lparr>inbox = msgs, outbox = [], send_limit = 9\<rparr>"

definition read_request :: string where
  "read_request = json_object [(''type'', JStr ''READ''), (''file'', JStr ''f''), (''user'', JStr ''ann''), (''ticket'', JStr ''t1'')]"

lemma demo_inv: "ctx_inv demo_ctx"
  by (simp add: ctx_inv_def ss_inv_def names_sorted_def array_wf_def locks_inv_def demo_ctx_def demo_state_def)

lemma demo_lookup: "ss_lookup (sc_state demo_ctx) ''f'' = Some demo_file"
  by (simp add: ss_lookup_def demo_ctx_def demo_state_def demo_file_def)

section \<open>The invariant\<close>

text \<open>The invariant of the storage server. Every data connection and every command of the
  name manager keeps the file table sorted by name without duplicates and within its
  capacity, and keeps at most one lock entry per sentence.\<close>

theorem server_invariant:
  assumes "ss_inv (sc_state ctx)" and "locks_inv (sc_locks ctx)"
    and "ctx' = fst (handle_data_client os ctx c) \<or> ctx' = snd (process_nm_command os remote ctx)"
  shows "ss_inv (sc_state ctx') \<and> locks_inv (sc_locks ctx')"
  using handle_data_client_inv [of ctx os c] process_nm_command_inv [of ctx os remote] assms
  by (auto simp: ctx_inv_def)

theorem server_invariant_witness:
  "ss_inv (sc_state (fst (handle_data_client demo_os demo_ctx (demo_conn [read_request]))))"
  using server_invariant [of demo_ctx _ demo_os "demo_conn [read_request]"] demo_inv by (simp add: ctx_inv_def)

section \<open>Authorisation\<close>

definition visible_change :: "ss_context \<Rightarrow> ss_context \<Rightarrow> bool" where
  "visible_change ctx ctx' \<longleftrightarrow> sc_state ctx' \<noteq> sc_state ctx \<or> sc_disk ctx' \<noteq> sc_disk ctx \<or>
     sc_locks ctx' \<noteq> sc_locks ctx \<or> nm_conn ctx' \<noteq> nm_conn ctx"

lemma with_ticket_change:
  assumes "visible_change ctx (fst (with_ticket os ctx c token user n op act))"
  shows "\<exists>t \<in> set (items (sc_tickets ctx)). ticket_matches token user n op t \<and> \<not> ticket_expired (os_now os) t"
proof (cases "ticket_table_take (mem_ok (os_env os)) (os_now os) (sc_tickets ctx) token user n op")
  case (Pair r t')
  show ?thesis
  proof (cases r)
    case None
    with Pair assms show ?thesis by (simp add: with_ticket_def validate_ticket_def visible_change_def)
  next
    case (Some t)
    with Pair have "ticket_table_take (mem_ok (os_env os)) (os_now os) (sc_tickets ctx) token user n op = (Some t, t')"
      by simp
    from ticket_take_SomeD [OF this] show ?thesis by blast
  qed
qed

lemma handle_data_client_fields:
  assumes "fst (handle_data_client os ctx c) \<noteq> ctx"
  obtains json rest n u tk op act where "inbox c = json # rest"
    "json_get_string json ''file'' SS_NAME_MAX = Some n" "json_get_string json ''user'' SS_USER_MAX = Some u"
    "json_get_string json ''ticket'' 64 = Some tk"
    "handle_data_client os ctx c = with_ticket os ctx (c\<lparr>inbox := rest\<rparr>) tk u n op act"
    "op \<in> {''READ'', ''STREAM'', ''WRITE''}"
proof (cases "inbox c")
  case Nil
  with assms show ?thesis by (simp add: handle_data_client_def)
next
  case (Cons json rest)
  let ?t = "json_get_string json ''type'' 64" and ?f = "json_get_string json ''file'' SS_NAME_MAX"
    and ?u = "json_get_string json ''user'' SS_USER_MAX" and ?k = "json_get_string json ''ticket'' 64"
  have "?t \<noteq> None \<and> ?f \<noteq> None \<and> ?u \<noteq> None \<and> ?k \<noteq> None"
  proof (rule ccontr)
    assume "\<not> ?thesis"
    then have "fst (handle_data_client os ctx c) = ctx"
      using Cons by (cases ?t; cases ?f; cases ?u) (simp_all add: handle_data_client_def Let_def)
    with assms show False by contradiction
  qed
  then obtain ty n u tk where f: "?t = Some ty" "?f = Some n" "?u = Some u" "?k = Some tk" by auto
  let ?c = "c\<lparr>inbox := rest\<rparr>"
  consider "ty = ''READ''" | "ty = ''STREAM''" | i where "ty = ''WRITE_BEGIN''" "json_get_int json ''sentence'' = Some i"
  proof -
    have "ty = ''READ'' \<or> ty = ''STREAM'' \<or> (ty = ''WRITE_BEGIN'' \<and> json_get_int json ''sentence'' \<noteq> None)"
      using assms Cons f by (auto simp: handle_data_client_def Let_def split: if_splits option.splits)
    then show ?thesis using that by blast
  qed
  then show ?thesis
  proof cases
    case 1
    show ?thesis
      by (rule that [OF Cons f(2-4), of "''READ''" "\<lambda>x. handle_read os x ?c n u"])
        (use 1 Cons f in \<open>simp_all add: handle_data_client_def Let_def\<close>)
  next
    case 2
    show ?thesis
      by (rule that [OF Cons f(2-4), of "''STREAM''" "\<lambda>x. handle_stream os x ?c n u"])
        (use 2 Cons f in \<open>simp_all add: handle_data_client_def Let_def\<close>)
  next
    case (3 i)
    show ?thesis
      by (rule that [OF Cons f(2-4), of "''WRITE''" "\<lambda>x. handle_write os x ?c n u i"])
        (use 3 Cons f in \<open>simp_all add: handle_data_client_def Let_def\<close>)
  qed
qed

text \<open>C11: No access without a ticket. A data connection changes the file table, the disk, the
  locks, or talks to the name manager only if the ticket table held an unexpired ticket
  with the token, the user and the file the request names.\<close>

theorem access_needs_ticket:
  assumes "visible_change ctx (fst (handle_data_client os ctx c))"
  shows "\<exists>json rest t. inbox c = json # rest \<and> t \<in> set (items (sc_tickets ctx)) \<and>
    \<not> ticket_expired (os_now os) t \<and>
    json_get_string json ''ticket'' 64 = Some (tk_token t) \<and>
    json_get_string json ''user'' SS_USER_MAX = Some (tk_user t) \<and>
    json_get_string json ''file'' SS_NAME_MAX = Some (tk_file t) \<and>
    tk_op t \<in> {''READ'', ''STREAM'', ''WRITE''}"
proof -
  have "fst (handle_data_client os ctx c) \<noteq> ctx" using assms by (auto simp: visible_change_def)
  then obtain json rest n u tk op act where f: "inbox c = json # rest"
    "json_get_string json ''file'' SS_NAME_MAX = Some n" "json_get_string json ''user'' SS_USER_MAX = Some u"
    "json_get_string json ''ticket'' 64 = Some tk"
    "handle_data_client os ctx c = with_ticket os ctx (c\<lparr>inbox := rest\<rparr>) tk u n op act"
    "op \<in> {''READ'', ''STREAM'', ''WRITE''}"
    by (rule handle_data_client_fields)
  from with_ticket_change [OF assms [unfolded f(5)]] obtain t where
    "t \<in> set (items (sc_tickets ctx))" "ticket_matches tk u n op t" "\<not> ticket_expired (os_now os) t" by blast
  with f show ?thesis by (intro exI [of _ json] exI [of _ rest] exI [of _ t]) (auto simp: ticket_matches_def)
qed

theorem access_needs_ticket_witness:
  "\<exists>json rest t. [read_request] = json # rest \<and> t \<in> set (items (sc_tickets demo_ctx)) \<and>
    \<not> ticket_expired 10 t \<and> json_get_string json ''ticket'' 64 = Some (tk_token t)"
proof -
  have "outbox (nm_conn (fst (handle_data_client demo_os demo_ctx (demo_conn [read_request])))) \<noteq> []"
    by code_simp
  then have "visible_change demo_ctx (fst (handle_data_client demo_os demo_ctx (demo_conn [read_request])))"
    by (auto simp: visible_change_def demo_ctx_def)
  from access_needs_ticket [OF this] show ?thesis by (auto simp: demo_conn_def demo_os_def)
qed

section \<open>Locks are always released\<close>

lemma write_message_locks: "sc_locks (fst (snd (write_message os ctx c n u view s json))) = sc_locks ctx"
proof -
  have "sc_locks (snd (update_entry os x m g)) = sc_locks x" for x m g
    by (auto simp: update_entry_def split: prod.split option.split)
  then have "sc_locks (fst (write_commit os ctx c n u view s)) = sc_locks ctx"
    by (auto simp: write_commit_def Let_def case_prod_unfold split: res.split option.split)
  then show ?thesis
    by (auto simp: write_message_def Let_def case_prod_unfold split: option.split)
qed

lemma write_loop_locks: "sc_locks (fst (write_loop os ctx c n u view s msgs)) = sc_locks ctx"
proof (induction msgs arbitrary: ctx c s)
  case (Cons json msgs)
  from write_message_locks [of os ctx c n u view s json] Cons show ?case
    by (auto split: prod.splits bool.splits)
qed simp

lemma release_acquired:
  assumes "locks_inv locks" and "sentence_lock_acquire mem locks n i u = Ok locks'" and "length n < 128"
  shows "items (sentence_lock_release locks' n u' i) = items locks"
proof -
  note ok = sentence_lock_acquire_Ok [OF assms(2,3)]
  have "locks_inv locks'"
    using slock.acquire_inv [OF assms(1), of mem u "(n, i)" locks'] assms(2,3) by (simp add: acquire_for_def)
  from sentence_lock_release_items [OF this] ok show ?thesis
    by (auto simp: lock_held_iff lock_key_def filter_id_conv)
qed

text \<open>C27: No lock outlives its connection. However a write connection ends (commit, abort, an
  error reply, or the client disconnecting at any point), the sentence locks afterwards
  are those held before it.\<close>

theorem write_releases_lock:
  assumes "ctx_inv ctx" and "length n < SS_NAME_MAX"
  shows "items (sc_locks (fst (handle_write os ctx c n u i))) = items (sc_locks ctx)"
proof -
  have inv: "locks_inv (sc_locks ctx)" using assms(1) by (simp add: ctx_inv_def)
  have n: "length n < 128" using assms(2) by (simp add: SS_NAME_MAX_def)
  have set: "sc_locks (set_file_lock_state x m a j w) = sc_locks x" for x m a j w
    by (simp add: set_file_lock_state_def)
  have open_locks: "(\<exists>r. write_open os ctx c n u i = (ctx1, Inl r) \<and> items (sc_locks ctx1) = items (sc_locks ctx)) \<or>
    (\<exists>y locks. write_open os ctx c n u i = (ctx1, Inr y) \<and> sc_locks ctx1 = locks \<and>
      sentence_lock_acquire (mem_ok (os_env os)) (sc_locks ctx) n i u = Ok locks)"
    if "write_open os ctx c n u i = (ctx1, r)" for ctx1 r
    using that release_acquired [OF inv _ n]
    by (auto simp: write_open_def Let_def write_unlock_def set split: option.splits res.splits prod.splits bool.splits if_splits)
  obtain ctx1 r where o: "write_open os ctx c n u i = (ctx1, r)" by force
  from open_locks [OF o] show ?thesis
  proof (elim disjE exE conjE)
    fix x assume "write_open os ctx c n u i = (ctx1, Inl x)" "items (sc_locks ctx1) = items (sc_locks ctx)"
    then show ?thesis by (simp add: handle_write_def)
  next
    fix y locks
    assume y: "write_open os ctx c n u i = (ctx1, Inr y)" and l: "sc_locks ctx1 = locks"
      "sentence_lock_acquire (mem_ok (os_env os)) (sc_locks ctx) n i u = Ok locks"
    obtain view s c1 where "y = (view, s, c1)" by (rule prod_cases3)
    with y l release_acquired [OF inv l(2) n] write_loop_locks [of os ctx1 c1 n u view s "inbox c1"] show ?thesis
      by (simp add: handle_write_def Let_def case_prod_unfold write_close_def set)
  qed
qed


theorem write_releases_lock_witness:
  "items (sc_locks (fst (handle_write demo_os demo_ctx (demo_conn []) ''f'' ''ann'' 1))) = []"
  using write_releases_lock [OF demo_inv, of "''f''"] by (simp add: SS_NAME_MAX_def demo_ctx_def)

section \<open>Undo\<close>

text \<open>The files of one entry and their temporary files do not collide.\<close>

definition entry_paths :: "ss_file \<Rightarrow> bool" where
  "entry_paths f \<longleftrightarrow> distinct [data_path f, undo_path f, meta_path f, tmp_path (data_path f), tmp_path (undo_path f)]"

lemma entry_paths_standard:
  assumes "files_dir st = dir @ ''/files''" and "undo_dir st = dir @ ''/undo''" and "meta_dir st = dir @ ''/meta''"
    and "length dir + length name < 480"
  shows "entry_paths (fill_paths st name f)"
proof -
  have p: "data_path (fill_paths st name f) = dir @ ''/files/'' @ name"
    "undo_path (fill_paths st name f) = dir @ ''/undo/'' @ name @ ''.undo''"
    "meta_path (fill_paths st name f) = dir @ ''/meta/'' @ name @ ''.meta''"
    using assms by (simp_all add: fill_paths_def)
  have t: "tmp_path (dir @ ''/files/'' @ name) = dir @ ''/files/'' @ name @ ''.tmp''"
    "tmp_path (dir @ ''/undo/'' @ name @ ''.undo'') = dir @ ''/undo/'' @ name @ ''.undo.tmp''"
    using assms(4) by (simp_all add: tmp_path_def)
  show ?thesis unfolding entry_paths_def p t by simp
qed

lemma store_ok_disk [disk_simps]:
  "store_text_atomic env d p t = (d', True) \<longleftrightarrow>
    wr_fault env p = NoFault \<and> d' = d(tmp_path p := None, p := Some t)"
  by (auto simp: store_text_atomic_def split: io_fault.splits)

lemma write_file_other [disk_simps]: "q \<noteq> p \<Longrightarrow> fst (write_file env d p t) q = d q"
  by (simp add: write_file_eq)

lemma commit_disk:
  assumes "write_session_commit env d s f = (Ok r, d')" and "entry_paths f"
  shows "d' (undo_path f) = Some (file_text env d f)" and "d' (data_path f) = Some (fst r)"
  using assms
  by (auto simp: write_session_commit_def Let_def entry_paths_def disk_simps
      split: option.splits prod.splits bool.splits)

lemma write_commit_Ok:
  assumes "ctx_inv ctx" and "ss_lookup (sc_state ctx) n = Some f"
    and "write_session_commit (os_env os) (sc_disk ctx) s f = (Ok (t, w, ch), d')"
    and "ctx1 = fst (write_commit os ctx c n u f s)"
  obtains g where "ctx_inv ctx1" "ss_lookup (sc_state ctx1) n = Some g"
    "g = (touch_content os u w ch f)\<lparr>lock_active := False, lock_sentence := -1\<rparr>"
    "sc_disk ctx1 = fst (write_file (os_env os) d' (meta_path f) (meta_text g))"
proof -
  let ?g = "\<lambda>f. (touch_content os u w ch f)\<lparr>lock_active := False, lock_sentence := -1\<rparr>"
  obtain r ctx2 where up: "update_entry os (ctx\<lparr>sc_disk := d'\<rparr>) n ?g = (r, ctx2)" by force
  have ctx1: "ctx1 = (case r of None \<Rightarrow> ctx2 | Some f \<Rightarrow> notify_nm_file_update ctx2 f)"
    using assms(3,4) up by (simp add: write_commit_def Let_def)
  have inv: "ctx_inv (ctx\<lparr>sc_disk := d'\<rparr>)" using assms(1) by simp
  show thesis
  proof (rule update_entry_cases [OF inv _ up], goal_cases)
    case 1
    then show ?case by simp
  next
    case 2
    then show ?case using assms(2) by simp
  next
    case (3 f')
    then have "f' = f" using assms(2) by simp
    with 3 ctx1 show ?case
      by (intro that [of "?g f"]) (simp_all add: touch_content_def touch_def)
  qed
qed

lemma perform_undo_succeeds:
  assumes "ctx_inv ctx" and "ss_lookup (sc_state ctx) n = Some f" and "\<not> lock_active f"
    and "sc_disk ctx (undo_path f) = Some t" and "is_cstring t" and "entry_paths f"
    and "rd_ok (os_env os) (undo_path f)" and "wr_fault (os_env os) (data_path f) = NoFault"
  shows "\<exists>ctx'. perform_undo os ctx n u = (Ok (t, length (split_words t), length t), ctx') \<and> ctx_inv ctx' \<and>
    sc_disk ctx' (data_path f) = Some t \<and> sc_disk ctx' (undo_path f) = None"
proof -
  have snap: "snapshot_file ctx n = Some f" using assms(1,2) by (simp add: snapshot_lookup)
  have ld: "load_text (os_env os) (sc_disk ctx) (undo_path f) = Some t"
    using assms(4,5,7) by (simp add: load_text_def)
  let ?d1 = "(sc_disk ctx)(tmp_path (data_path f) := None, data_path f := Some t)"
  have st: "store_text_atomic (os_env os) (sc_disk ctx) (data_path f) t = (?d1, True)"
    using assms(8) by (simp add: store_ok_disk)
  let ?g = "touch_content os u (length (split_words t)) (length t)"
  obtain r ctx2 where up: "update_entry os (ctx\<lparr>sc_disk := unlink ?d1 (undo_path f)\<rparr>) n ?g = (r, ctx2)" by force
  have inv: "ctx_inv (ctx\<lparr>sc_disk := unlink ?d1 (undo_path f)\<rparr>)" using assms(1) by simp
  show ?thesis
  proof (rule update_entry_cases [OF inv _ up], goal_cases)
    case 1
    then show ?case by simp
  next
    case 2
    then show ?case using assms(2) by simp
  next
    case (3 f')
    then have f': "f' = f" using assms(2) by simp
    have "perform_undo os ctx n u = (Ok (t, length (split_words t), length t), notify_nm_file_update ctx2 (?g f))"
      using snap assms(3) ld st up 3(1) f' by (simp add: perform_undo_def Let_def count_words_split)
    moreover have "sc_disk ctx2 (data_path f) = Some t" "sc_disk ctx2 (undo_path f) = None"
      using 3(6) f' assms(6) by (auto simp: entry_paths_def disk_simps unlink_def touch_content_def touch_def)
    ultimately show ?case using 3(3) by auto
  qed
qed

text \<open>C21: Undo inverts a commit. After a write session has committed, an undo of the file
  succeeds and the document is again the text it was before the commit; the file is not
  left locked by the commit.\<close>

theorem undo_after_commit:
  assumes "ctx_inv ctx" and "ss_lookup (sc_state ctx) n = Some f" and "entry_paths f"
    and "write_session_commit (os_env os) (sc_disk ctx) s f = (Ok r, d')"
    and "rd_ok (os_env os2) (undo_path f)" and "wr_fault (os_env os2) (data_path f) = NoFault"
  shows "\<exists>ctx2. perform_undo os2 (fst (write_commit os ctx c n u f s)) n u2 =
      (Ok (file_text (os_env os) (sc_disk ctx) f, length (split_words (file_text (os_env os) (sc_disk ctx) f)),
           length (file_text (os_env os) (sc_disk ctx) f)), ctx2) \<and>
    sc_disk ctx2 (data_path f) = Some (file_text (os_env os) (sc_disk ctx) f)"
proof -
  obtain t w ch where r: "r = (t, w, ch)" by (rule prod_cases3)
  define ctx1 where "ctx1 = fst (write_commit os ctx c n u f s)"
  obtain g where g: "ctx_inv ctx1" "ss_lookup (sc_state ctx1) n = Some g"
    "g = (touch_content os u w ch f)\<lparr>lock_active := False, lock_sentence := -1\<rparr>"
    "sc_disk ctx1 = fst (write_file (os_env os) d' (meta_path f) (meta_text g))"
    using write_commit_Ok [OF assms(1,2) assms(4) [unfolded r] ctx1_def] by blast
  have p: "data_path g = data_path f" "undo_path g = undo_path f" "meta_path g = meta_path f"
    using g(3) by (simp_all add: touch_content_def touch_def)
  have e: "entry_paths g" using assms(3) p by (simp add: entry_paths_def)
  have "sc_disk ctx1 (undo_path g) = Some (file_text (os_env os) (sc_disk ctx) f)"
    using commit_disk(1) [OF assms(4,3)] assms(3) g(4) p by (simp add: entry_paths_def disk_simps)
  from perform_undo_succeeds [OF g(1,2) _ this file_text_cstring e, of os2 u2] assms(5,6) p g(3) show ?thesis
    unfolding ctx1_def by auto
qed


lemma demo_entry_paths: "entry_paths demo_file"
  by (simp add: entry_paths_def demo_file_def tmp_path_def buf_def)

theorem undo_after_commit_witness:
  "\<exists>ctx2. perform_undo demo_os (fst (write_commit demo_os demo_ctx (demo_conn []) ''f'' ''ann'' demo_file demo_session)) ''f'' ''bob'' =
      (Ok (''A. B. C.'', 3, 8), ctx2) \<and> sc_disk ctx2 ''files/f'' = Some ''A. B. C.''"
proof -
  obtain d' where d': "write_session_commit good_env demo_disk demo_session demo_file =
    (Ok (''A.'' @ NEWLINE # ''X.'' @ NEWLINE # ''Y.'' @ NEWLINE # ''C.'', 4, 11), d')" by (rule demo_commit)
  have e: "os_env demo_os = good_env" "sc_disk demo_ctx = demo_disk" by (simp_all add: demo_os_def demo_ctx_def)
  have w: "length (split_words ''A. B. C.'') = 3" by code_simp
  have r: "rd_ok (os_env demo_os) (undo_path demo_file)" "wr_fault (os_env demo_os) (data_path demo_file) = NoFault"
    by (simp_all add: e good_env_def)
  have dp: "data_path demo_file = ''files/f''" and l: "length ''A. B. C.'' = 8" by (simp_all add: demo_file_def)
  from undo_after_commit [OF demo_inv demo_lookup demo_entry_paths, of demo_os demo_session, unfolded e demo_text,
      OF d' r, of "demo_conn []" "''ann''" "''bob''"] show ?thesis
    by (simp only: w dp l)
qed

section \<open>Requests refused while the file is locked\<close>

text \<open>A file that is marked as locked for writing is neither undone, nor reverted to a
  checkpoint, nor deleted: undo and revert fail with \<^verbatim>\<open>EBUSY\<close> and change nothing, delete
  answers \<^verbatim>\<open>ERR_LOCKED\<close> and leaves table and disk alone.\<close>

theorem locked_file_protected:
  assumes "ctx_inv ctx" and "ss_lookup (sc_state ctx) n = Some f" and "lock_active f"
  shows "perform_undo os ctx n u = (Fail (Some EBUSY), ctx) \<and>
    (\<forall>tag content. ss_read_checkpoint os ctx n tag = Ok content \<longrightarrow>
       ss_revert_checkpoint os ctx n tag u = (Fail (Some EBUSY), ctx)) \<and>
    (\<forall>json. json_get_string json ''file'' SS_NAME_MAX = Some n \<and> valid_filename n \<longrightarrow>
       nm_delete ctx json = nm_error ctx ERR_LOCKED ''file locked for write'')"
proof -
  have snap: "snapshot_file ctx n = Some f" using assms(1,2) by (simp add: snapshot_lookup)
  then obtain i where find: "ss_state_find (sc_state ctx) n = (Some f, i)"
    by (metis snapshot_file_def prod.collapse)
  show ?thesis
    using snap find assms(3)
    by (auto simp: perform_undo_def ss_read_checkpoint_def ss_revert_checkpoint_def nm_delete_def
        split: res.splits option.splits if_splits)
qed

theorem locked_file_protected_witness:
  "perform_undo demo_os (set_file_lock_state demo_ctx ''f'' True 0 (Some ''ann'')) ''f'' ''bob'' =
    (Fail (Some EBUSY), set_file_lock_state demo_ctx ''f'' True 0 (Some ''ann''))"
proof -
  let ?ctx = "set_file_lock_state demo_ctx ''f'' True 0 (Some ''ann'')"
  have inv: "ss_inv (sc_state demo_ctx)" using demo_inv by (simp add: ctx_inv_def)
  let ?g = "\<lambda>file. file\<lparr>lock_active := True, lock_sentence := 0, lock_user := ''ann''\<rparr>"
  have "ss_lookup (sc_state ?ctx) ''f'' = Some (?g demo_file)"
    using ss_modify_lookup(2) [OF inv, of ?g "''f''" "''f''"] demo_lookup
    by (simp add: set_file_lock_state_def SS_USER_MAX_def)
  from locked_file_protected [OF set_lock_inv [OF demo_inv] this] show ?thesis by simp
qed


section \<open>Checkpoints\<close>

definition checkpoint_path :: "ss_state \<Rightarrow> string \<Rightarrow> string \<Rightarrow> path" where
  "checkpoint_path st n tag = checkpoints_dir st @ ''/'' @ n @ ''/'' @ tag"

lemma build_checkpoint_path_eq:
  "build_checkpoint_path os st n tag = Ok p \<Longrightarrow> p = checkpoint_path st n tag"
  "os_stat os (checkpoints_dir st @ ''/'' @ n) = StatDir \<Longrightarrow> length (checkpoint_path st n tag) < 512 \<Longrightarrow>
    build_checkpoint_path os st n tag = Ok (checkpoint_path st n tag)"
  by (auto simp: build_checkpoint_path_def ensure_checkpoint_dir_def checkpoint_path_def Let_def ensure_dir_def
      split: if_splits res.splits)

lemma create_checkpoint_disk:
  assumes "ctx_inv ctx" and "ss_lookup (sc_state ctx) n = Some f"
    and "ss_create_checkpoint os ctx n tag u = (Ok (), ctx')"
  shows "sc_disk ctx' (checkpoint_path (sc_state ctx) n tag) = Some (file_text (os_env os) (sc_disk ctx) f)"
    and "valid_filename tag" and "length (checkpoint_path (sc_state ctx) n tag) < 512"
proof -
  have snap: "snapshot_file ctx n = Some f" using assms(1,2) by (simp add: snapshot_lookup)
  with assms(3) obtain p d where p: "build_checkpoint_path os (sc_state ctx) n tag = Ok p"
    and d: "store_text_atomic (os_env os) (sc_disk ctx) p (file_text (os_env os) (sc_disk ctx) f) = (d, True)"
    and v: "valid_filename tag" and ctx': "ctx' = ctx\<lparr>sc_disk := d\<rparr>"
    by (auto simp: ss_create_checkpoint_def Let_def split: if_splits res.splits prod.splits bool.splits)
  from build_checkpoint_path_eq(1) [OF p] d ctx'
  show "sc_disk ctx' (checkpoint_path (sc_state ctx) n tag) = Some (file_text (os_env os) (sc_disk ctx) f)"
    by (simp add: disk_simps)
  show "valid_filename tag" by (rule v)
  from p have "length p < 512" by (auto simp: build_checkpoint_path_def Let_def split: res.splits if_splits)
  with build_checkpoint_path_eq(1) [OF p] show "length (checkpoint_path (sc_state ctx) n tag) < 512" by simp
qed

lemma revert_succeeds:
  assumes "ctx_inv ctx" and "ss_lookup (sc_state ctx) n = Some f" and "\<not> lock_active f" and "entry_paths f"
    and "valid_filename tag" and "build_checkpoint_path os (sc_state ctx) n tag = Ok p"
    and "load_text (os_env os) (sc_disk ctx) p = Some t"
    and "wr_fault (os_env os) (data_path f) = NoFault" "wr_fault (os_env os) (undo_path f) = NoFault"
  shows "\<exists>ctx'. ss_revert_checkpoint os ctx n tag u = (Ok (), ctx') \<and> ctx_inv ctx' \<and>
    sc_disk ctx' (data_path f) = Some t \<and>
    sc_disk ctx' (undo_path f) = Some (file_text (os_env os) (sc_disk ctx) f)"
proof -
  have snap: "snapshot_file ctx n = Some f" using assms(1,2) by (simp add: snapshot_lookup)
  let ?old = "file_text (os_env os) (sc_disk ctx) f"
  let ?d1 = "(sc_disk ctx)(tmp_path (undo_path f) := None, undo_path f := Some ?old)"
  let ?d2 = "?d1(tmp_path (data_path f) := None, data_path f := Some t)"
  have st: "store_text_atomic (os_env os) (sc_disk ctx) (undo_path f) ?old = (?d1, True)"
    "store_text_atomic (os_env os) ?d1 (data_path f) t = (?d2, True)"
    using assms(8,9) by (simp_all add: store_ok_disk)
  let ?g = "touch_content os u (count_words_in_text t) (length t)"
  obtain r ctx2 where up: "update_entry os (ctx\<lparr>sc_disk := ?d2\<rparr>) n ?g = (r, ctx2)" by force
  have inv: "ctx_inv (ctx\<lparr>sc_disk := ?d2\<rparr>)" using assms(1) by simp
  show ?thesis
  proof (rule update_entry_cases [OF inv _ up], goal_cases)
    case 1
    then show ?case by simp
  next
    case 2
    then show ?case using assms(2) by simp
  next
    case (3 f')
    then have f': "f' = f" using assms(2) by simp
    have "ss_revert_checkpoint os ctx n tag u = (Ok (), notify_nm_file_update ctx2 (?g f))"
      using snap assms(3,5-7) st up 3(1) f' by (simp add: ss_revert_checkpoint_def)
    moreover have "sc_disk ctx2 (data_path f) = Some t" "sc_disk ctx2 (undo_path f) = Some ?old"
      using 3(6) f' assms(4) by (auto simp: entry_paths_def disk_simps touch_content_def touch_def)
    ultimately show ?case using 3(3) by auto
  qed
qed

text \<open>C22: Checkpoints preserve a version of a document. After a checkpoint was created, and
  whatever happened to the document since, as long as the checkpoint file is untouched
  and the document is not locked: viewing the checkpoint gives the text the document had,
  reverting makes it the document again, and the text before the revert becomes the undo
  text.\<close>

theorem checkpoint_roundtrip:
  assumes "ctx_inv ctx" and "ss_lookup (sc_state ctx) n = Some f"
    and "ss_create_checkpoint os ctx n tag u = (Ok (), ctx1)"
    and "ctx_inv ctx2" and "ss_lookup (sc_state ctx2) n = Some g" and "\<not> lock_active g" and "entry_paths g"
    and "checkpoint_path (sc_state ctx2) n tag = checkpoint_path (sc_state ctx) n tag"
    and "sc_disk ctx2 (checkpoint_path (sc_state ctx) n tag) = sc_disk ctx1 (checkpoint_path (sc_state ctx) n tag)"
    and "os_stat os2 (checkpoints_dir (sc_state ctx2) @ ''/'' @ n) = StatDir"
    and "rd_ok (os_env os2) (checkpoint_path (sc_state ctx) n tag)"
    and "wr_fault (os_env os2) (data_path g) = NoFault" and "wr_fault (os_env os2) (undo_path g) = NoFault"
  shows "ss_read_checkpoint os2 ctx2 n tag = Ok (file_text (os_env os) (sc_disk ctx) f) \<and>
    (\<exists>ctx3. ss_revert_checkpoint os2 ctx2 n tag u2 = (Ok (), ctx3) \<and>
      sc_disk ctx3 (data_path g) = Some (file_text (os_env os) (sc_disk ctx) f) \<and>
      sc_disk ctx3 (undo_path g) = Some (file_text (os_env os2) (sc_disk ctx2) g))"
proof -
  note cr = create_checkpoint_disk [OF assms(1-3)]
  have p: "build_checkpoint_path os2 (sc_state ctx2) n tag = Ok (checkpoint_path (sc_state ctx) n tag)"
    using build_checkpoint_path_eq(2) [of os2 "sc_state ctx2" n tag] assms(8,10) cr(3) by simp
  have ld: "load_text (os_env os2) (sc_disk ctx2) (checkpoint_path (sc_state ctx) n tag) =
      Some (file_text (os_env os) (sc_disk ctx) f)"
    using cr(1) assms(9,11) file_text_cstring by (simp add: load_text_def)
  from revert_succeeds [OF assms(4-7) cr(2) p ld assms(12,13)] cr(2) p ld show ?thesis
    by (auto simp: ss_read_checkpoint_def)
qed

theorem checkpoint_roundtrip_witness:
  "\<exists>ctx1. ss_create_checkpoint demo_os demo_ctx ''f'' ''v1'' ''ann'' = (Ok (), ctx1) \<and>
    ss_read_checkpoint demo_os ctx1 ''f'' ''v1'' = Ok ''A. B. C.''"
proof -
  have "fst (ss_create_checkpoint demo_os demo_ctx ''f'' ''v1'' ''ann'') = Ok ()" by code_simp
  then obtain ctx1 where c: "ss_create_checkpoint demo_os demo_ctx ''f'' ''v1'' ''ann'' = (Ok (), ctx1)"
    by (metis prod.collapse)
  have st: "sc_state ctx1 = sc_state demo_ctx"
    using c by (auto simp: ss_create_checkpoint_def Let_def split: if_splits option.splits res.splits prod.splits bool.splits)
  have inv: "ctx_inv ctx1" using create_checkpoint_inv [OF demo_inv, of demo_os "''f''" "''v1''" "''ann''"] c by simp
  have e: "os_env demo_os = good_env" "sc_disk demo_ctx = demo_disk" by (simp_all add: demo_os_def demo_ctx_def)
  have "ss_read_checkpoint demo_os ctx1 ''f'' ''v1'' = Ok (file_text (os_env demo_os) (sc_disk demo_ctx) demo_file)"
    using checkpoint_roundtrip [OF demo_inv demo_lookup c inv, of demo_file demo_os "''ann''"] st demo_lookup
      demo_entry_paths
    by (simp add: e) (simp add: demo_os_def good_env_def demo_file_def)
  with c show ?thesis by (simp add: e demo_text)
qed

end
