(* ===== verification/SS_Replication.thy ===== *)
theory SS_Replication
  imports SS_Props
begin

text \<open>
  The replies of the storage server as their receivers parse them, and the replication
  of a file: one server fetches it from another with the ordinary read request.
\<close>

section \<open>Formatted messages are objects\<close>

lemma fmt_member:
  "fmt_str k (escape v) = member_text (k, JStr v)" "fmt_int k i = member_text (k, JInt i)"
  by (simp_all add: fmt_str_def fmt_int_def member_text_def)

lemma commas_members: "commas (map member_text kvs) = members_text kvs"
  by (induction kvs rule: members_text.induct) auto

lemma braces_object: "braces (map member_text kvs) = json_object kvs"
  by (simp add: braces_def json_object_def commas_members)

lemma commas_nested: "xs \<noteq> [] \<Longrightarrow> commas [x, commas xs] = commas (x # xs)"
  by (cases xs) auto

text \<open>\<open>plain_text\<close>: a string that escaping does not change.\<close>

definition plain_text :: "string \<Rightarrow> bool" where
  "plain_text s \<longleftrightarrow> escape s = s"

lemma plain_text_literals [simp]: "plain_text ''OK''" "plain_text ''READ''" "plain_text ''f''"
  by (simp_all add: plain_text_def escape_char_def)

section \<open>The reply to a read request\<close>

definition read_reply :: "ss_file \<Rightarrow> string \<Rightarrow> string" where
  "read_reply f t = json_object [(''status'', JStr ''OK''), (''file'', JStr (sf_name f)), (''content'', JStr t),
     (''words'', JInt (int (sf_word_count f))), (''chars'', JInt (int (sf_char_count f)))]"

lemma read_reply_format:
  assumes "plain_text (sf_name f)"
  shows "braces [fmt_str ''status'' ''OK'', commas [fmt_str ''file'' (sf_name f), fmt_str ''content'' (escape t),
      fmt_int ''words'' (int (sf_word_count f)), fmt_int ''chars'' (int (sf_char_count f))]] = read_reply f t"
proof -
  have "fmt_str ''status'' ''OK'' = member_text (''status'', JStr ''OK'')"
    "fmt_str ''file'' (sf_name f) = member_text (''file'', JStr (sf_name f))"
    using assms fmt_member(1) [of "''status''" "''OK''"] fmt_member(1) [of "''file''" "sf_name f"]
    by (simp_all add: plain_text_def escape_char_def)
  then show ?thesis
    unfolding braces_def fmt_member(2) fmt_member(1) [of "''content''"] commas_nested [OF list.distinct(2)]
      read_reply_def json_object_def commas_members [symmetric] by simp
qed

lemma read_reply_keys: "json_ok [(''status'', a), (''file'', b), (''content'', c), (''words'', d), (''chars'', e)]"
  by (simp add: json_ok_def plain_key_def)

lemma read_reply_parses:
  "json_get_string (read_reply f t) ''status'' 16 = Some ''OK''"
  "json_get_string_alloc (read_reply f t) ''content'' = Some t"
proof -
  have k: "plain_key ''status''" "plain_key ''content''" by (simp_all add: plain_key_def)
  show "json_get_string (read_reply f t) ''status'' 16 = Some ''OK''"
    unfolding read_reply_def using json_get_string_object [OF read_reply_keys k(1)] by simp
  show "json_get_string_alloc (read_reply f t) ''content'' = Some t"
    unfolding read_reply_def using json_get_string_alloc_object [OF read_reply_keys k(2)] by simp
qed

text \<open>A document of moderate size fits the reply.\<close>

definition readable_size :: "ss_file \<Rightarrow> string \<Rightarrow> bool" where
  "readable_size f t \<longleftrightarrow> length (escape t) + length (sf_name f) < 3800 \<and>
     sf_word_count f \<le> ULLONG_MAX \<and> sf_char_count f \<le> ULLONG_MAX"

lemma show_size: "n \<le> ULLONG_MAX \<Longrightarrow> length (show_int (int n)) < 100"
  using length_show_size [of n] by (simp add: show_int_def)

lemma read_reply_fits:
  assumes "readable_size f t" and "plain_text (sf_name f)"
  shows "length (read_reply f t) < MAX_JSON"
    and "length (commas [fmt_str ''file'' (sf_name f), fmt_str ''content'' (escape t),
      fmt_int ''words'' (int (sf_word_count f)), fmt_int ''chars'' (int (sf_char_count f))]) < MAX_JSON"
  using assms show_size [of "sf_word_count f"] show_size [of "sf_char_count f"]
  unfolding read_reply_format [OF assms(2), symmetric]
  by (simp_all add: readable_size_def MAX_JSON_def fmt_str_def fmt_int_def braces_def)

lemma handle_read_replies:
  assumes "ctx_inv ctx" and "ss_lookup (sc_state ctx) n = Some f" and "plain_text (sf_name f)"
    and "readable_size f (file_text (os_env os) (sc_disk ctx) f)" and "length (outbox c) < send_limit c"
  shows "snd (handle_read os ctx c n u) =
    (True, c\<lparr>outbox := outbox c @ [read_reply f (file_text (os_env os) (sc_disk ctx) f)]\<rparr>)"
proof -
  have snap: "snapshot_file ctx n = Some f" using assms(1,2) by (simp add: snapshot_lookup)
  obtain r ctx1 where up: "update_entry os ctx n (touch os u) = (r, ctx1)" by force
  have r: "r = Some (touch os u f)"
    by (rule update_entry_cases [OF assms(1) _ up]) (use assms(2) in simp_all)
  let ?t = "file_text (os_env os) (sc_disk ctx) f"
  let ?extra = "commas [fmt_str ''file'' (sf_name f), fmt_str ''content'' (escape ?t),
      fmt_int ''words'' (int (sf_word_count f)), fmt_int ''chars'' (int (sf_char_count f))]"
  have tc: "sf_word_count (touch os u f) = sf_word_count f" "sf_char_count (touch os u f) = sf_char_count f"
    by (simp_all add: touch_def)
  have "?extra \<noteq> []" by (simp add: fmt_str_def)
  then have "send_ok c ?extra = (True, c\<lparr>outbox := outbox c @ [read_reply f ?t]\<rparr>)"
    using read_reply_fits(1) [OF assms(4,3)] assms(5) read_reply_format [OF assms(3), of ?t]
    by (simp add: send_ok_def Let_def conn_send_def del: commas.simps)
  moreover have "\<not> MAX_JSON \<le> length ?extra" using read_reply_fits(2) [OF assms(4,3)] by simp
  ultimately show ?thesis
    using snap up r tc by (simp add: handle_read_def del: commas.simps)
qed

text \<open>What a client reads is the document. The reply to a read request parses, with the
  functions the clients use, to status \<^verbatim>\<open>OK\<close> and to exactly the text stored on disk,
  including quotes, backslashes and line breaks.\<close>

theorem read_returns_document:
  assumes "ctx_inv ctx" and "ss_lookup (sc_state ctx) n = Some f" and "plain_text (sf_name f)"
    and "readable_size f (file_text (os_env os) (sc_disk ctx) f)" and "length (outbox c) < send_limit c"
  shows "\<exists>reply. snd (handle_read os ctx c n u) = (True, c\<lparr>outbox := outbox c @ [reply]\<rparr>) \<and>
    json_get_string reply ''status'' 16 = Some ''OK'' \<and>
    json_get_string_alloc reply ''content'' = Some (file_text (os_env os) (sc_disk ctx) f)"
  using handle_read_replies [OF assms] read_reply_parses by blast

theorem read_returns_document_witness:
  "\<exists>reply. snd (handle_read demo_os demo_ctx (demo_conn []) ''f'' ''ann'') = (True, (demo_conn [])\<lparr>outbox := [reply]\<rparr>) \<and>
    json_get_string_alloc reply ''content'' = Some ''A. B. C.''"
proof -
  have e: "os_env demo_os = good_env" "sc_disk demo_ctx = demo_disk" by (simp_all add: demo_os_def demo_ctx_def)
  have f: "sf_name demo_file = ''f''" "sf_word_count demo_file = 3" "sf_char_count demo_file = 8"
    by (simp_all add: demo_file_def)
  have p: "plain_text (sf_name demo_file)" by (simp add: f)
  have r: "readable_size demo_file (file_text (os_env demo_os) (sc_disk demo_ctx) demo_file)"
    by (simp add: e demo_text readable_size_def f escape_char_def ULLONG_MAX_def)
  have c: "length (outbox (demo_conn [])) < send_limit (demo_conn [])" by (simp add: demo_conn_def)
  from read_returns_document [OF demo_inv demo_lookup p r c, of "''ann''"] show ?thesis
    by (auto simp: e demo_text demo_conn_def)
qed


section \<open>Replication\<close>

text \<open>A storage server as the peer of another: the first payload it sends back, if any.\<close>

definition serve :: "os \<Rightarrow> ss_context \<Rightarrow> remote" where
  "serve os ctx host port payload =
     (case outbox (snd (handle_data_client os ctx \<lparr>inbox = [payload], outbox = [], send_limit = 1\<rparr>)) of
        [] \<Rightarrow> None
      | reply # _ \<Rightarrow> Some reply)"

definition read_payload :: "string \<Rightarrow> string \<Rightarrow> string \<Rightarrow> string" where
  "read_payload file user ticket =
     json_object [(''type'', JStr ''READ''), (''file'', JStr file), (''user'', JStr user), (''ticket'', JStr ticket)]"

lemma read_payload_format:
  "braces [fmt_str ''type'' ''READ'', fmt_str ''file'' (escape f), fmt_str ''user'' (escape u), fmt_str ''ticket'' (escape t)]
    = read_payload f u t"
proof -
  have "fmt_str ''type'' ''READ'' = member_text (''type'', JStr ''READ'')"
    using fmt_member(1) [of "''type''" "''READ''"] by (simp add: escape_char_def)
  then show ?thesis unfolding fmt_member(1) read_payload_def braces_object [symmetric] by simp
qed

lemma read_payload_fields:
  assumes "length f < SS_NAME_MAX" and "length u < SS_USER_MAX" and "length t < 64"
  shows "json_get_string (read_payload f u t) ''type'' 64 = Some ''READ''"
    and "json_get_string (read_payload f u t) ''file'' SS_NAME_MAX = Some f"
    and "json_get_string (read_payload f u t) ''user'' SS_USER_MAX = Some u"
    and "json_get_string (read_payload f u t) ''ticket'' 64 = Some t"
proof -
  let ?kvs = "[(''type'', JStr ''READ''), (''file'', JStr f), (''user'', JStr u), (''ticket'', JStr t)]"
  have ok: "json_ok ?kvs" by (simp add: json_ok_def plain_key_def)
  have k: "plain_key ''type''" "plain_key ''file''" "plain_key ''user''" "plain_key ''ticket''"
    by (simp_all add: plain_key_def)
  show "json_get_string (read_payload f u t) ''type'' 64 = Some ''READ''"
    unfolding read_payload_def using json_get_string_object [OF ok k(1)] by simp
  show "json_get_string (read_payload f u t) ''file'' SS_NAME_MAX = Some f"
    unfolding read_payload_def using json_get_string_object [OF ok k(2)] assms(1) by simp
  show "json_get_string (read_payload f u t) ''user'' SS_USER_MAX = Some u"
    unfolding read_payload_def using json_get_string_object [OF ok k(3)] assms(2) by simp
  show "json_get_string (read_payload f u t) ''ticket'' 64 = Some t"
    unfolding read_payload_def using json_get_string_object [OF ok k(4)] assms(3) by simp
qed

lemma read_payload_short:
  assumes "length f < SS_NAME_MAX" and "length u < SS_USER_MAX" and "length t < 64"
  shows "length (read_payload f u t) < MAX_JSON"
  using assms length_escape [of f] length_escape [of u] length_escape [of t]
  unfolding read_payload_format [symmetric]
  by (simp add: MAX_JSON_def SS_NAME_MAX_def SS_USER_MAX_def braces_def fmt_str_def)

text \<open>What a server answers to a read request it has a ticket for.\<close>

lemma ticket_validates:
  assumes "mem_ok env (elem_size tickets)" and "t \<in> set (items tickets)" and "ticket_matches tk u n op t" and "\<not> ticket_expired now t"
  shows "\<exists>t' tbl. validate_ticket (mem_ok env) now tickets tk u n op = (Ok t', tbl)"
proof -
  have "fst (ticket_table_take (mem_ok env) now tickets tk u n op) \<noteq> None"
    using ticket_take_None_iff [of "mem_ok env" tickets] assms by blast
  then show ?thesis
    by (cases "ticket_table_take (mem_ok env) now tickets tk u n op") (auto simp: validate_ticket_def)
qed

lemma data_client_read:
  assumes "ctx_inv ctx" and "ss_lookup (sc_state ctx) n = Some f" and "plain_text (sf_name f)"
    and "readable_size f (file_text (os_env os) (sc_disk ctx) f)"
    and "length n < SS_NAME_MAX" and "length u < SS_USER_MAX" and "length tk < 64"
    and "mem_ok (os_env os) (elem_size (sc_tickets ctx))"
    and "t \<in> set (items (sc_tickets ctx))" and "ticket_matches tk u n ''READ'' t" and "\<not> ticket_expired (os_now os) t" and "0 < limit"
  shows "outbox (snd (handle_data_client os ctx \<lparr>inbox = [read_payload n u tk], outbox = [], send_limit = limit\<rparr>)) =
    [read_reply f (file_text (os_env os) (sc_disk ctx) f)]"
proof -
  let ?c = "\<lparr>inbox = [read_payload n u tk], outbox = [], send_limit = limit\<rparr>"
  let ?c1 = "\<lparr>inbox = [], outbox = [], send_limit = limit\<rparr>"
  obtain t' tbl where v: "validate_ticket (mem_ok (os_env os)) (os_now os) (sc_tickets ctx) tk u n ''READ'' = (Ok t', tbl)"
    using ticket_validates [OF assms(8-11)] by blast
  let ?ctx1 = "ctx\<lparr>sc_tickets := tbl\<rparr>"
  have "snd (handle_read os ?ctx1 ?c1 n u) = (True, ?c1\<lparr>outbox := outbox ?c1 @ [read_reply f (file_text (os_env os) (sc_disk ?ctx1) f)]\<rparr>)"
    by (rule handle_read_replies) (use assms in simp_all)
  then have "snd (with_ticket os ctx ?c1 tk u n ''READ'' (\<lambda>x. handle_read os x ?c1 n u)) =
      ?c1\<lparr>outbox := [read_reply f (file_text (os_env os) (sc_disk ctx) f)]\<rparr>"
    by (simp add: with_ticket_def v case_prod_unfold)
  moreover have "handle_data_client os ctx ?c = with_ticket os ctx ?c1 tk u n ''READ'' (\<lambda>x. handle_read os x ?c1 n u)"
    by (simp add: handle_data_client_def Let_def read_payload_fields [OF assms(5-7)])
  ultimately show ?thesis by simp
qed

lemma serve_read:
  assumes "ctx_inv ctx" and "ss_lookup (sc_state ctx) n = Some f" and "plain_text (sf_name f)"
    and "readable_size f (file_text (os_env os) (sc_disk ctx) f)"
    and "length n < SS_NAME_MAX" and "length u < SS_USER_MAX" and "length tk < 64"
    and "mem_ok (os_env os) (elem_size (sc_tickets ctx))"
    and "t \<in> set (items (sc_tickets ctx))" and "ticket_matches tk u n ''READ'' t" and "\<not> ticket_expired (os_now os) t"
  shows "serve os ctx host port (read_payload n u tk) = Some (read_reply f (file_text (os_env os) (sc_disk ctx) f))"
  using data_client_read [OF assms, of 1] by (simp add: serve_def)

lemma sync_store_ok:
  assumes "ctx_inv ctx" and "ss_lookup (sc_state ctx) n = Some g" and "entry_paths g"
    and "wr_fault (os_env os) (data_path g) = NoFault" and "wr_fault (os_env os) (undo_path g) = NoFault"
  shows "\<exists>ctx'. sync_store os ctx n g t = (True, ctx') \<and> ctx_inv ctx' \<and> sc_disk ctx' (data_path g) = Some t \<and>
    (\<exists>h. ss_lookup (sc_state ctx') n = Some h \<and> sf_word_count h = length (split_words t) \<and> sf_char_count h = length t)"
proof -
  let ?old = "file_text (os_env os) (sc_disk ctx) g"
  let ?d1 = "(sc_disk ctx)(tmp_path (undo_path g) := None, undo_path g := Some ?old)"
  let ?d2 = "?d1(tmp_path (data_path g) := None, data_path g := Some t)"
  have st: "store_text_atomic (os_env os) (sc_disk ctx) (undo_path g) ?old = (?d1, True)"
    "store_text_atomic (os_env os) ?d1 (data_path g) t = (?d2, True)"
    using assms(4,5) by (simp_all add: store_ok_disk)
  let ?g = "\<lambda>f. f\<lparr>sf_char_count := length t, sf_word_count := count_words_in_text t\<rparr>"
  obtain r ctx2 where up: "update_entry os (ctx\<lparr>sc_disk := ?d2\<rparr>) n ?g = (r, ctx2)" by force
  have inv: "ctx_inv (ctx\<lparr>sc_disk := ?d2\<rparr>)" using assms(1) by simp
  show ?thesis
  proof (rule update_entry_cases [OF inv _ up], goal_cases)
    case 1
    then show ?case by simp
  next
    case 2
    then show ?case using assms(2) by simp
  next
    case (3 f')
    then have f': "f' = g" using assms(2) by simp
    have "sync_store os ctx n g t = (True, ctx2)" using st up 3(1) by (simp add: sync_store_def)
    moreover have "sc_disk ctx2 (data_path g) = Some t"
      using 3(6) f' assms(3) by (auto simp: entry_paths_def disk_simps)
    ultimately show ?case using 3(3,4) f' by (auto simp: count_words_split)
  qed
qed


definition sync_request :: "string \<Rightarrow> string \<Rightarrow> string \<Rightarrow> string \<Rightarrow> string \<Rightarrow> string" where
  "sync_request file owner host port ticket =
     json_object [(''type'', JStr ''NM_SYNC''), (''file'', JStr file), (''owner'', JStr owner),
       (''sourceHost'', JStr host), (''sourcePort'', JStr port), (''ticket'', JStr ticket)]"

lemma sync_request_fields:
  assumes "length f < SS_NAME_MAX" and "length ow < SS_USER_MAX" and "length h < 64" and "length p < 16" and "length t < 64"
  shows "json_get_string (sync_request f ow h p t) ''file'' SS_NAME_MAX = Some f"
    and "json_get_string (sync_request f ow h p t) ''owner'' SS_USER_MAX = Some ow"
    and "json_get_string (sync_request f ow h p t) ''sourceHost'' 64 = Some h"
    and "json_get_string (sync_request f ow h p t) ''sourcePort'' 16 = Some p"
    and "json_get_string (sync_request f ow h p t) ''ticket'' 64 = Some t"
proof -
  let ?kvs = "[(''type'', JStr ''NM_SYNC''), (''file'', JStr f), (''owner'', JStr ow),
       (''sourceHost'', JStr h), (''sourcePort'', JStr p), (''ticket'', JStr t)]"
  have ok: "json_ok ?kvs" by (simp add: json_ok_def plain_key_def)
  have k: "plain_key ''file''" "plain_key ''owner''" "plain_key ''sourceHost''" "plain_key ''sourcePort''" "plain_key ''ticket''"
    by (simp_all add: plain_key_def)
  show "json_get_string (sync_request f ow h p t) ''file'' SS_NAME_MAX = Some f"
    unfolding sync_request_def using json_get_string_object [OF ok k(1)] assms(1) by simp
  show "json_get_string (sync_request f ow h p t) ''owner'' SS_USER_MAX = Some ow"
    unfolding sync_request_def using json_get_string_object [OF ok k(2)] assms(2) by simp
  show "json_get_string (sync_request f ow h p t) ''sourceHost'' 64 = Some h"
    unfolding sync_request_def using json_get_string_object [OF ok k(3)] assms(3) by simp
  show "json_get_string (sync_request f ow h p t) ''sourcePort'' 16 = Some p"
    unfolding sync_request_def using json_get_string_object [OF ok k(4)] assms(4) by simp
  show "json_get_string (sync_request f ow h p t) ''ticket'' 64 = Some t"
    unfolding sync_request_def using json_get_string_object [OF ok k(5)] assms(5) by simp
qed

lemma sync_conn:
  "nm_conn (snd (sync_target os ctx n owner)) = nm_conn ctx" "nm_conn (snd (sync_store os ctx n g t)) = nm_conn ctx"
  by (auto simp: sync_target_def sync_store_def update_entry_def Let_def split: option.split res.split prod.split bool.split)

lemma sync_copies:
  assumes "ctx_inv src" and "ss_lookup (sc_state src) n = Some f" and "plain_text (sf_name f)"
    and "readable_size f (file_text (os_env os1) (sc_disk src) f)"
    and "length n < SS_NAME_MAX" and "length owner < SS_USER_MAX" and "length host < 64" and "length port < 16"
    and "length tk < 64" and "mem_ok (os_env os1) (elem_size (sc_tickets src))"
    and "t \<in> set (items (sc_tickets src))" and "ticket_matches tk owner n ''READ'' t"
    and "\<not> ticket_expired (os_now os1) t"
    and "ctx_inv dst" and "sync_target os2 dst n owner = (Some g, dst1)" and "entry_paths g"
    and "wr_fault (os_env os2) (data_path g) = NoFault" and "wr_fault (os_env os2) (undo_path g) = NoFault"
  shows "\<exists>dst2 h. handle_nm_sync os2 (serve os1 src) dst (sync_request n owner host port tk) =
      nm_ok dst2 (fmt_str ''op'' ''SYNC'') \<and>
    sc_disk dst2 (data_path g) = Some (file_text (os_env os1) (sc_disk src) f) \<and>
    ss_lookup (sc_state dst2) n = Some h \<and>
    sf_word_count h = length (split_words (file_text (os_env os1) (sc_disk src) f)) \<and>
    sf_char_count h = length (file_text (os_env os1) (sc_disk src) f) \<and> nm_conn dst2 = nm_conn dst"
proof -
  let ?t = "file_text (os_env os1) (sc_disk src) f"
  have fetch: "ss_fetch_remote_content (serve os1 src) host port n owner tk = Some ?t"
    using serve_read [OF assms(1-6,9-13), of host port] read_payload_short [OF assms(5,6,9)] read_reply_parses
    by (simp add: ss_fetch_remote_content_def read_payload_format del: fmt_member)
  have inv1: "ctx_inv dst1" by (rule sync_target_inv [OF assms(14,5,15)])
  have "snapshot_file dst1 n = Some g"
    using assms(15) by (auto simp: sync_target_def Let_def split: option.splits prod.splits res.splits)
  then have g: "ss_lookup (sc_state dst1) n = Some g" using inv1 by (simp add: snapshot_lookup)
  from sync_store_ok [OF inv1 g assms(16-18), of ?t] obtain dst2 h where
    st: "sync_store os2 dst1 n g ?t = (True, dst2)" "sc_disk dst2 (data_path g) = Some ?t"
    "ss_lookup (sc_state dst2) n = Some h" "sf_word_count h = length (split_words ?t)" "sf_char_count h = length ?t"
    by blast
  have "handle_nm_sync os2 (serve os1 src) dst (sync_request n owner host port tk) = nm_ok dst2 (fmt_str ''op'' ''SYNC'')"
    using fetch assms(15) st(1)
    by (simp add: handle_nm_sync_def sync_request_fields [OF assms(5-9)])
  moreover have "nm_conn dst2 = nm_conn dst"
    using sync_conn(1) [of os2 dst n owner] sync_conn(2) [of os2 dst1 n g ?t] assms(15) st(1) by simp
  ultimately show ?thesis using st by blast
qed

text \<open>Replication copies the document. When the name manager asks a server to sync a file
  from a peer that has the file and an unexpired read ticket for it, the server ends with
  exactly the peer's text on disk, with the word and character counts of that text in its
  table, and answers \<^verbatim>\<open>OK\<close>.\<close>

theorem sync_replicates:
  assumes "ctx_inv src" and "ss_lookup (sc_state src) n = Some f" and "plain_text (sf_name f)"
    and "readable_size f (file_text (os_env os1) (sc_disk src) f)"
    and "length n < SS_NAME_MAX" and "length owner < SS_USER_MAX" and "length host < 64" and "length port < 16"
    and "length tk < 64" and "mem_ok (os_env os1) (elem_size (sc_tickets src))"
    and "t \<in> set (items (sc_tickets src))" and "ticket_matches tk owner n ''READ'' t"
    and "\<not> ticket_expired (os_now os1) t"
    and "ctx_inv dst" and "sync_target os2 dst n owner = (Some g, dst1)" and "entry_paths g"
    and "wr_fault (os_env os2) (data_path g) = NoFault" and "wr_fault (os_env os2) (undo_path g) = NoFault"
  shows "\<exists>dst2 h. handle_nm_sync os2 (serve os1 src) dst (sync_request n owner host port tk) =
      nm_ok dst2 (fmt_str ''op'' ''SYNC'') \<and>
    sc_disk dst2 (data_path g) = Some (file_text (os_env os1) (sc_disk src) f) \<and>
    ss_lookup (sc_state dst2) n = Some h \<and>
    sf_word_count h = length (split_words (file_text (os_env os1) (sc_disk src) f)) \<and>
    sf_char_count h = length (file_text (os_env os1) (sc_disk src) f)"
  using sync_copies [OF assms] by blast

theorem sync_replicates_witness:
  "\<exists>dst2. handle_nm_sync demo_os (serve demo_os demo_ctx) (demo_ctx\<lparr>sc_disk := Map.empty\<rparr>)
      (sync_request ''f'' ''ann'' ''h'' ''9'' ''t1'') = nm_ok dst2 (fmt_str ''op'' ''SYNC'') \<and>
    sc_disk dst2 ''files/f'' = Some ''A. B. C.''"
proof -
  have e: "os_env demo_os = good_env" "sc_disk demo_ctx = demo_disk" by (simp_all add: demo_os_def demo_ctx_def)
  have f: "sf_name demo_file = ''f''" "sf_word_count demo_file = 3" "sf_char_count demo_file = 8"
    "data_path demo_file = ''files/f''" by (simp_all add: demo_file_def)
  have p: "plain_text (sf_name demo_file)" by (simp add: f)
  have r: "readable_size demo_file (file_text (os_env demo_os) (sc_disk demo_ctx) demo_file)"
    by (simp add: e demo_text readable_size_def f escape_char_def ULLONG_MAX_def)
  have t: "demo_ticket \<in> set (items (sc_tickets demo_ctx))" "ticket_matches ''t1'' ''ann'' ''f'' ''READ'' demo_ticket"
    "\<not> ticket_expired (os_now demo_os) demo_ticket"
    by (simp_all add: demo_ctx_def ticket_matches_def ticket_expired_def demo_ticket_def demo_os_def)
  have good: "mem_ok good_env m" "wr_fault good_env q = NoFault" for m q by (simp_all add: good_env_def)
  have inv: "ctx_inv (demo_ctx\<lparr>sc_disk := Map.empty\<rparr>)" using demo_inv by simp
  have tgt: "sync_target demo_os (demo_ctx\<lparr>sc_disk := Map.empty\<rparr>) ''f'' ''ann'' = (Some demo_file, demo_ctx\<lparr>sc_disk := Map.empty\<rparr>)"
    using snapshot_lookup [OF inv, of "''f''"] demo_lookup by (simp add: sync_target_def)
  from sync_replicates [OF demo_inv demo_lookup p r, of "''ann''" "''h''" "''9''" "''t1''" demo_ticket
      "demo_ctx\<lparr>sc_disk := Map.empty\<rparr>" demo_os demo_file "demo_ctx\<lparr>sc_disk := Map.empty\<rparr>"] t inv tgt demo_entry_paths
  show ?thesis
    by (auto simp: e demo_text f good SS_NAME_MAX_def SS_USER_MAX_def)
qed

text \<open>Large documents cannot be read. When the text has 4096 bytes or more, a read request is
  answered with \<^verbatim>\<open>ERR_INTERNAL\<close>, whoever asks; replication, which uses the same request,
  fails for such files too.\<close>

theorem large_document_unreadable:
  assumes "ctx_inv ctx" and "ss_lookup (sc_state ctx) n = Some f"
    and "4096 \<le> length (file_text (os_env os) (sc_disk ctx) f)"
  shows "snd (handle_read os ctx c n u) = send_error_response c ERR_INTERNAL ''response too large''"
proof -
  have snap: "snapshot_file ctx n = Some f" using assms(1,2) by (simp add: snapshot_lookup)
  let ?t = "file_text (os_env os) (sc_disk ctx) f"
  have "MAX_JSON \<le> length (commas [fmt_str ''file'' (sf_name f), fmt_str ''content'' (escape ?t), x, y])" for x y
    using assms(3) length_escape [of ?t] by (simp add: MAX_JSON_def fmt_str_def)
  with snap show ?thesis by (simp add: handle_read_def Let_def case_prod_unfold del: commas.simps)
qed

theorem large_document_unreadable_witness:
  "snd (handle_read demo_os (demo_ctx\<lparr>sc_disk := [''files/f'' \<mapsto> replicate 5000 CHR ''a'']\<rparr>) (demo_conn []) ''f'' ''ann'') =
    send_error_response (demo_conn []) ERR_INTERNAL ''response too large''"
proof (rule large_document_unreadable [where f = demo_file])
  let ?ctx = "demo_ctx\<lparr>sc_disk := [''files/f'' \<mapsto> replicate 5000 CHR ''a'']\<rparr>"
  show "ctx_inv ?ctx" "ss_lookup (sc_state ?ctx) ''f'' = Some demo_file" using demo_inv demo_lookup by simp_all
  have "is_cstring (replicate 5000 CHR ''a'')" by (simp add: is_cstring_def)
  then have "file_text (os_env demo_os) (sc_disk ?ctx) demo_file = replicate 5000 CHR ''a''"
    by (simp add: file_text_def load_text_def demo_os_def good_env_def demo_file_def)
  then show "4096 \<le> length (file_text (os_env demo_os) (sc_disk ?ctx) demo_file)" by simp
qed

end
