(* ===== verification/SS_Concurrency.thy ===== *)
theory SS_Concurrency
  imports SS_Replication
begin

text \<open>
  The storage server runs one thread per data connection beside the control connection.
  The step relation \<open>ss_step\<close> interleaves the phases of the write handlers of any number
  of threads with the other requests; each phase works on the shared context under the
  server's locks. The sentence locks in it refine the lock contract \<open>lock_table\<close>, whose
  mutual exclusion then holds for the server.
\<close>

section \<open>The handler of a write connection, cut where other threads can run\<close>

text \<open>\<^verbatim>\<open>handle_write\<close> between taking the lock and its loop: the session begins and the client is told.\<close>

definition open_session :: "os \<Rightarrow> disk \<Rightarrow> conn \<Rightarrow> ss_file \<Rightarrow> string \<Rightarrow> int \<Rightarrow> bool \<times> conn + write_session \<times> conn" where
  "open_session os d c view user sentence_index =
     (case write_session_begin (os_env os) d view user sentence_index of
        Fail e \<Rightarrow>
          Inl (if errno_of (os_errno os) e = EINVAL
               then send_error_response c ERR_BADREQ ''sentence index out of range''
               else send_error_response c ERR_INTERNAL ''write init failed'')
      | Ok session \<Rightarrow>
          (case json_escape_dup (sentence_text session) of
             None \<Rightarrow> Inl (send_error_response c ERR_INTERNAL ''encode failed'')
           | Some escaped \<Rightarrow>
               let extra = commas [fmt_str ''mode'' ''WRITE'', fmt_str ''current'' escaped, fmt_int ''sentence'' sentence_index] in
               if MAX_JSON \<le> length extra then Inl (send_error_response c ERR_INTERNAL ''response too large'')
               else (case send_ok c extra of (False, c1) \<Rightarrow> Inl (False, c1) | (True, c1) \<Rightarrow> Inr (session, c1))))"

text \<open>
  A commit reads the document and computes the new one; then it stores the undo text and the document. \<open>commit_plan\<close> is the first
  part: the text that was read and the new text.
\<close>

definition commit_plan :: "env \<Rightarrow> disk \<Rightarrow> write_session \<Rightarrow> ss_file \<Rightarrow> (string \<times> string) option" where
  "commit_plan env d session file =
     (let current = file_text env d file; latest = split_sentences current in
      map_option (\<lambda>k. (current, join_sentences (merge_sentences latest
        (split_sentences (sentence_text session)) k (replacing_existing session)))) (commit_index session latest))"

text \<open>The answers to a commit.\<close>

definition commit_answer :: "conn \<Rightarrow> string \<Rightarrow> conn" where
  "commit_answer c final_text =
     (case json_escape_dup final_text of
        None \<Rightarrow> snd (send_ok c (fmt_str ''step'' ''COMMIT''))
      | Some escaped \<Rightarrow>
          let extra = commas [fmt_str ''step'' ''COMMIT'', fmt_int ''words'' (int (count_words_in_text final_text)),
                fmt_int ''chars'' (int (length final_text)), fmt_str ''content'' escaped] in
          snd (send_ok c (if length extra < MAX_JSON then extra else fmt_str ''step'' ''COMMIT'')))"

definition commit_error :: "os \<Rightarrow> errno option \<Rightarrow> conn \<Rightarrow> conn" where
  "commit_error os e c =
     snd (if errno_of (os_errno os) e = EAGAIN
          then send_error_response c ERR_CONFLICT ''sentence modified by another writer''
          else send_error_response c ERR_INTERNAL ''commit failed'')"

section \<open>Threads\<close>

text \<open>
  Where the thread of a write connection is. The steps between two of these places are one critical section, one access to a
  file, or one message.
\<close>

datatype phase =
    Seen | Locked | Flagged | Refusing | Unflagged | Editing
  | Planned "string \<times> string" | UndoStored "string \<times> string" | DataStored string | Answered string
  | Published "ss_file option" | Leaving | Released

record writer =
  w_file :: string
  w_user :: string
  w_sentence :: int
  w_view :: ss_file
  w_session :: write_session
  w_conn :: conn
  w_phase :: phase

type_synonym config = "ss_context \<times> (nat \<Rightarrow> writer option)"

text \<open>
  A request for a file that is not in the table ends without an effect on the context; it is not a step. A commit that finds a
  conflict is taken to find 0 in \<^verbatim>\<open>merged_init\<close> (\<open>commit_on_stack\<close>). The requests of the other connections are one step each.
\<close>

inductive ss_step :: "config \<Rightarrow> config \<Rightarrow> bool" where
  snapshot: "ws t = None \<Longrightarrow> length n < SS_NAME_MAX \<Longrightarrow> snapshot_file ctx n = Some view \<Longrightarrow>
    ss_step (ctx, ws) (ctx, ws(t := Some \<lparr>w_file = n, w_user = u, w_sentence = i, w_view = view,
      w_session = write_session_init, w_conn = c, w_phase = Seen\<rparr>))"
| lock: "ws t = Some w \<Longrightarrow> w_phase w = Seen \<Longrightarrow>
    sentence_lock_acquire (mem_ok (os_env (os :: os))) (sc_locks ctx) (w_file w) (w_sentence w) (w_user w) = Ok locks \<Longrightarrow>
    ss_step (ctx, ws) (ctx\<lparr>sc_locks := locks\<rparr>, ws(t := Some (w\<lparr>w_phase := Locked\<rparr>)))"
| locked: "ws t = Some w \<Longrightarrow> w_phase w = Seen \<Longrightarrow>
    sentence_lock_acquire (mem_ok (os_env (os :: os))) (sc_locks ctx) (w_file w) (w_sentence w) (w_user w) = Fail e \<Longrightarrow>
    ss_step (ctx, ws) (ctx, ws(t := None))"
| flag: "ws t = Some w \<Longrightarrow> w_phase w = Locked \<Longrightarrow>
    ss_step (ctx, ws) (set_file_lock_state ctx (w_file w) True (w_sentence w) (Some (w_user w)), ws(t := Some (w\<lparr>w_phase := Flagged\<rparr>)))"
| begin_session: "ws t = Some w \<Longrightarrow> w_phase w = Flagged \<Longrightarrow>
    open_session os (sc_disk ctx) (w_conn w) (w_view w) (w_user w) (w_sentence w) = Inr (s, c) \<Longrightarrow>
    ss_step (ctx, ws) (ctx, ws(t := Some (w\<lparr>w_session := s, w_conn := c, w_phase := Editing\<rparr>)))"
| refuse: "ws t = Some w \<Longrightarrow> w_phase w = Flagged \<Longrightarrow>
    open_session os (sc_disk ctx) (w_conn w) (w_view w) (w_user w) (w_sentence w) = Inl (b, c) \<Longrightarrow>
    ss_step (ctx, ws) (ctx, ws(t := Some (w\<lparr>w_conn := c, w_phase := Refusing\<rparr>)))"
| unflag: "ws t = Some w \<Longrightarrow> w_phase w = Refusing \<Longrightarrow>
    ss_step (ctx, ws) (set_file_lock_state ctx (w_file w) False (-1) None, ws(t := Some (w\<lparr>w_phase := Unflagged\<rparr>)))"
| unlock: "ws t = Some w \<Longrightarrow> w_phase w = Unflagged \<Longrightarrow>
    ss_step (ctx, ws) (ctx\<lparr>sc_locks := sentence_lock_release (sc_locks ctx) (w_file w) (w_user w) (w_sentence w)\<rparr>, ws(t := None))"
| edit: "ws t = Some w \<Longrightarrow> w_phase w = Editing \<Longrightarrow> json_get_string json ''type'' 64 \<noteq> Some ''WRITE_COMMIT'' \<Longrightarrow>
    write_message os ctx (w_conn w) (w_file w) (w_user w) (w_view w) (w_session w) json = (goes_on, ctx', c', s') \<Longrightarrow>
    ss_step (ctx, ws) (ctx', ws(t := Some (w\<lparr>w_session := s', w_conn := c', w_phase := (if goes_on then Editing else Leaving)\<rparr>)))"
| plan: "ws t = Some w \<Longrightarrow> w_phase w = Editing \<Longrightarrow> json_get_string json ''type'' 64 = Some ''WRITE_COMMIT'' \<Longrightarrow>
    commit_plan (os_env (os :: os)) (sc_disk ctx) (w_session w) (w_view w) = Some p \<Longrightarrow>
    ss_step (ctx, ws) (ctx, ws(t := Some (w\<lparr>w_phase := Planned p\<rparr>)))"
| conflict: "ws t = Some w \<Longrightarrow> w_phase w = Editing \<Longrightarrow> json_get_string json ''type'' 64 = Some ''WRITE_COMMIT'' \<Longrightarrow>
    commit_plan (os_env os) (sc_disk ctx) (w_session w) (w_view w) = None \<Longrightarrow>
    ss_step (ctx, ws) (ctx, ws(t := Some (w\<lparr>w_conn := commit_error os (Some EAGAIN) (w_conn w), w_phase := Leaving\<rparr>)))"
| store_undo: "ws t = Some w \<Longrightarrow> w_phase w = Planned p \<Longrightarrow>
    store_text_atomic (os_env (os :: os)) (sc_disk ctx) (undo_path (w_view w)) (fst p) = (d, True) \<Longrightarrow>
    ss_step (ctx, ws) (ctx\<lparr>sc_disk := d\<rparr>, ws(t := Some (w\<lparr>w_phase := UndoStored p\<rparr>)))"
| store_data: "ws t = Some w \<Longrightarrow> w_phase w = UndoStored p \<Longrightarrow>
    store_text_atomic (os_env (os :: os)) (sc_disk ctx) (data_path (w_view w)) (snd p) = (d, True) \<Longrightarrow>
    ss_step (ctx, ws) (ctx\<lparr>sc_disk := d\<rparr>, ws(t := Some (w\<lparr>w_phase := DataStored (snd p)\<rparr>)))"
| store_fails: "ws t = Some w \<Longrightarrow> w_phase w = Planned p \<and> path = undo_path (w_view w) \<and> txt = fst p \<or>
      w_phase w = UndoStored p \<and> path = data_path (w_view w) \<and> txt = snd p \<Longrightarrow>
    store_text_atomic (os_env os) (sc_disk ctx) path txt = (d, False) \<Longrightarrow>
    ss_step (ctx, ws) (ctx\<lparr>sc_disk := d\<rparr>, ws(t := Some (w\<lparr>w_conn := commit_error os None (w_conn w), w_phase := Leaving\<rparr>)))"
| answer: "ws t = Some w \<Longrightarrow> w_phase w = DataStored txt \<Longrightarrow>
    ss_step (ctx, ws) (ctx, ws(t := Some (w\<lparr>w_conn := commit_answer (w_conn w) txt, w_phase := Answered txt\<rparr>)))"
| publish: "ws t = Some w \<Longrightarrow> w_phase w = Answered txt \<Longrightarrow>
    update_entry os ctx (w_file w) (\<lambda>file. (touch_content os (w_user w) (count_words_in_text txt) (length txt) file)
      \<lparr>lock_active := False, lock_sentence := -1\<rparr>) = (copy, ctx') \<Longrightarrow>
    ss_step (ctx, ws) (ctx', ws(t := Some (w\<lparr>w_phase := Published copy\<rparr>)))"
| notify: "ws t = Some w \<Longrightarrow> w_phase w = Published copy \<Longrightarrow>
    ss_step (ctx, ws) (case copy of None \<Rightarrow> ctx | Some f \<Rightarrow> notify_nm_file_update ctx f, ws(t := Some (w\<lparr>w_phase := Leaving\<rparr>)))"
| hang_up: "ws t = Some w \<Longrightarrow> w_phase w = Editing \<Longrightarrow> ss_step (ctx, ws) (ctx, ws(t := Some (w\<lparr>w_phase := Leaving\<rparr>)))"
| release: "ws t = Some w \<Longrightarrow> w_phase w = Leaving \<Longrightarrow>
    ss_step (ctx, ws) (ctx\<lparr>sc_locks := sentence_lock_release (sc_locks ctx) (w_file w) (w_user w) (w_sentence w)\<rparr>,
      ws(t := Some (w\<lparr>w_phase := Released\<rparr>)))"
| close: "ws t = Some w \<Longrightarrow> w_phase w = Released \<Longrightarrow>
    ss_step (ctx, ws) (set_file_lock_state ctx (w_file w) False (-1) None, ws(t := None))"
| reading: "ss_step (ctx, ws) (fst (handle_read os ctx c n u), ws)"
| streaming: "ss_step (ctx, ws) (fst (handle_stream os ctx c n u), ws)"
| command: "ss_step (ctx, ws) (snd (process_nm_command os remote ctx), ws)"

text \<open>From the step that takes the lock up to the one that gives it back.\<close>

definition holds_lock :: "writer \<Rightarrow> bool" where
  "holds_lock w \<longleftrightarrow> w_phase w \<notin> {Seen, Released}"

definition held_key :: "writer \<Rightarrow> lock_key" where
  "held_key w = (w_file w, w_sentence w)"

definition held :: "(nat \<Rightarrow> writer option) \<Rightarrow> nat \<Rightarrow> lock_key option" where
  "held ws t = (case ws t of Some w \<Rightarrow> if holds_lock w then Some (held_key w) else None | None \<Rightarrow> None)"

section \<open>Which requests touch the locks\<close>

lemma locks_update_entry: "sc_locks (snd (update_entry os x m g)) = sc_locks x"
  by (auto simp: update_entry_def split: prod.split option.split)

lemma locks_handle_read: "sc_locks (fst (handle_read os ctx c n u)) = sc_locks ctx"
  by (simp add: handle_read_def Let_def case_prod_unfold locks_update_entry split: option.split bool.split)

lemma locks_handle_stream: "sc_locks (fst (handle_stream os ctx c n u)) = sc_locks ctx"
  by (auto simp: handle_stream_def Let_def case_prod_unfold locks_update_entry split: option.split bool.split)

lemma locks_perform_undo: "sc_locks (snd (perform_undo os ctx n u)) = sc_locks ctx"
  by (auto simp: perform_undo_def Let_def case_prod_unfold locks_update_entry split: option.split bool.split)

lemma locks_revert: "sc_locks (snd (ss_revert_checkpoint os ctx n tag u)) = sc_locks ctx"
  by (auto simp: ss_revert_checkpoint_def Let_def case_prod_unfold locks_update_entry split: option.split res.split bool.split)

lemma locks_create_checkpoint: "sc_locks (snd (ss_create_checkpoint os ctx n tag u)) = sc_locks ctx"
  by (auto simp: ss_create_checkpoint_def Let_def case_prod_unfold split: option.split res.split bool.split)

lemma locks_sync: "sc_locks (snd (handle_nm_sync os remote ctx json)) = sc_locks ctx"
proof -
  have tgt: "sc_locks (snd (sync_target os ctx n ow)) = sc_locks ctx" for n ow
    by (auto simp: sync_target_def Let_def case_prod_unfold split: option.split res.split bool.split)
  have st: "sc_locks (snd (sync_store os x n g t)) = sc_locks x" for x n g t
    by (auto simp: sync_store_def case_prod_unfold locks_update_entry split: option.split bool.split)
  show ?thesis
    by (auto simp: handle_nm_sync_def case_prod_unfold tgt st split: option.split bool.split)
qed

lemma locks_nm_commands:
  "sc_locks (snd (nm_create os ctx json)) = sc_locks ctx"
  "sc_locks (snd (nm_delete ctx json)) = sc_locks ctx"
  "sc_locks (snd (handle_nm_ticket_command os ctx json)) = sc_locks ctx"
  "sc_locks (snd (nm_undo os ctx json)) = sc_locks ctx"
  by (auto simp: nm_create_def nm_delete_def handle_nm_ticket_command_def nm_undo_def Let_def case_prod_unfold
      locks_perform_undo split: option.split res.split bool.split)

lemma locks_checkpoint_commands:
  "sc_locks (snd (nm_checkpoint ctx json (nm_checkpoint_create os ctx))) = sc_locks ctx"
  "sc_locks (snd (nm_checkpoint ctx json (nm_checkpoint_view os ctx))) = sc_locks ctx"
  "sc_locks (snd (nm_checkpoint ctx json (nm_checkpoint_revert os ctx))) = sc_locks ctx"
  by (auto simp: nm_checkpoint_def nm_checkpoint_create_def nm_checkpoint_view_def nm_checkpoint_revert_def
      respond_checkpoint_error_def case_prod_unfold locks_create_checkpoint locks_revert split: option.split res.split bool.split)

lemma locks_command: "sc_locks (snd (process_nm_command os remote ctx)) = sc_locks ctx"
  by (simp add: process_nm_command_def Let_def locks_nm_commands locks_checkpoint_commands locks_sync
      split: list.split option.split)


section \<open>The server refines the lock contract\<close>

lemma set_lock_locks [simp]: "sc_locks (set_file_lock_state x m a j w) = sc_locks x"
  by (simp add: set_file_lock_state_def)

definition locks_ok :: "config \<Rightarrow> bool" where
  "locks_ok c \<longleftrightarrow> slock.exclusive (sc_locks (fst c), held (snd c)) \<and>
     (\<forall>t w. snd c t = Some w \<longrightarrow> length (w_file w) < SS_NAME_MAX)"

lemma held_upd [simp]:
  "held (ws(t := Some w)) = (held ws)(t := if holds_lock w then Some (held_key w) else None)"
  "held (ws(t := None)) = (held ws)(t := None)"
  by (auto simp: held_def fun_eq_iff)

text \<open>A step that neither takes nor gives back a lock.\<close>

lemma locks_ok_keep:
  assumes "locks_ok (ctx, ws)" "ws t = Some w" "sc_locks ctx' = sc_locks ctx"
    and "w_file w' = w_file w" "w_sentence w' = w_sentence w" "holds_lock w' = holds_lock w"
  shows "locks_ok (ctx', ws(t := Some w'))"
proof -
  have "(held ws)(t := if holds_lock w' then Some (held_key w') else None) = held ws"
    using assms(2,4-6) by (auto simp: held_def held_key_def fun_eq_iff)
  then show ?thesis using assms by (auto simp: locks_ok_def split: if_splits)
qed

lemma locks_ok_drop:
  assumes "locks_ok (ctx, ws)" "ws t = Some w" "\<not> holds_lock w" "sc_locks ctx' = sc_locks ctx"
  shows "locks_ok (ctx', ws(t := None))"
proof -
  have "(held ws)(t := None) = held ws" using assms(2,3) by (auto simp: held_def fun_eq_iff)
  then show ?thesis using assms by (auto simp: locks_ok_def split: if_splits)
qed

lemma locks_ok_acquire:
  assumes "locks_ok (ctx, ws)" "ws t = Some w" "\<not> holds_lock w" "holds_lock w'" "w_file w' = w_file w" "w_sentence w' = w_sentence w"
    and "sentence_lock_acquire mem (sc_locks ctx) (w_file w) (w_sentence w) (w_user w) = Ok locks"
  shows "locks_ok (ctx\<lparr>sc_locks := locks\<rparr>, ws(t := Some w'))"
proof -
  have len: "length (w_file w) < 128" using assms(1,2) by (auto simp: locks_ok_def SS_NAME_MAX_def)
  have "slock.step mem (sc_locks ctx, held ws) (locks, (held ws)(t := Some (held_key w)))"
    using assms(2,3,7) len by (intro slock.step_acquire [where u = "w_user w"]) (simp_all add: held_def acquire_for_def held_key_def)
  from slock.exclusive_step [OF this] assms show ?thesis
    by (auto simp: locks_ok_def held_key_def split: if_splits)
qed

lemma locks_ok_release:
  assumes "locks_ok (ctx, ws)" "ws t = Some w" "holds_lock w"
    and "w' = None \<or> (\<exists>v. w' = Some v \<and> \<not> holds_lock v \<and> w_file v = w_file w)"
  shows "locks_ok (ctx\<lparr>sc_locks := sentence_lock_release (sc_locks ctx) (w_file w) (w_user w) (w_sentence w)\<rparr>, ws(t := w'))"
proof -
  have "slock.step (\<lambda>_. True) (sc_locks ctx, held ws) (release_for (sc_locks ctx) (w_user w) (held_key w), (held ws)(t := None))"
    using assms(2,3) by (intro slock.step_release) (simp add: held_def)
  from slock.exclusive_step [OF this] assms show ?thesis
    by (auto simp: locks_ok_def release_for_def held_key_def split: if_splits)
qed

lemma locks_message: "json_get_string json ''type'' 64 \<noteq> Some ''WRITE_COMMIT'' \<Longrightarrow> write_message os ctx c n u view s json = (b, ctx', c', s') \<Longrightarrow> ctx' = ctx"
  by (auto simp: write_message_def Let_def split: option.splits if_splits prod.splits)

lemma locks_notify: "sc_locks (notify_nm_file_update ctx f) = sc_locks ctx"
  by (auto simp: notify_nm_file_update_def Let_def split: option.split prod.split)

lemma ss_step_locks_ok:
  assumes "ss_step c c'" and "locks_ok c"
  shows "locks_ok c'"
  using assms
proof (induction rule: ss_step.induct)
  case (snapshot ws t n ctx view u i c)
  have "(held ws)(t := None) = held ws" using snapshot.hyps(1) by (auto simp: held_def fun_eq_iff)
  with snapshot show ?case by (auto simp: locks_ok_def holds_lock_def)
next
  case (lock ws t w os ctx locks)
  show ?case by (rule locks_ok_acquire [OF lock.prems lock.hyps(1) _ _ _ _ lock.hyps(3)]) (use lock.hyps(2) in \<open>simp_all add: holds_lock_def\<close>)
next
  case (locked ws t w os ctx e)
  show ?case by (rule locks_ok_drop [OF locked.prems locked.hyps(1)]) (use locked.hyps(2) in \<open>simp_all add: holds_lock_def\<close>)
next
  case (unlock ws t w ctx)
  show ?case by (rule locks_ok_release [OF unlock.prems unlock.hyps(1)]) (use unlock.hyps(2) in \<open>simp_all add: holds_lock_def\<close>)
next
  case (edit ws t w json os ctx goes_on ctx' c' s')
  show ?case
    by (rule locks_ok_keep [OF edit.prems edit.hyps(1)])
      (use edit.hyps(2) locks_message [OF edit.hyps(3,4)] in \<open>simp_all add: holds_lock_def\<close>)
next
  case (publish ws t w new os ctx copy ctx')
  have "sc_locks ctx' = sc_locks ctx"
    using publish.hyps(3) locks_update_entry [of os ctx "w_file w"] by (metis snd_conv)
  then show ?case by (intro locks_ok_keep [OF publish.prems publish.hyps(1)]) (use publish.hyps(2) in \<open>simp_all add: holds_lock_def\<close>)
next
  case (notify ws t w copy ctx)
  show ?case
    by (rule locks_ok_keep [OF notify.prems notify.hyps(1)])
      (use notify.hyps(2) in \<open>simp_all add: holds_lock_def locks_notify split: option.split\<close>)
next
  case (store_fails ws t w p path new os ctx d)
  show ?case
    by (rule locks_ok_keep [OF store_fails.prems store_fails.hyps(1)])
      (use store_fails.hyps(2) in \<open>auto simp: holds_lock_def\<close>)
next
  case (release ws t w ctx)
  show ?case by (rule locks_ok_release [OF release.prems release.hyps(1)]) (use release.hyps(2) in \<open>simp_all add: holds_lock_def\<close>)
next
  case (close ws t w ctx)
  show ?case by (rule locks_ok_drop [OF close.prems close.hyps(1)]) (use close.hyps(2) in \<open>simp_all add: holds_lock_def\<close>)
next
  case (reading ctx ws os c n u)
  then show ?case by (simp add: locks_ok_def locks_handle_read)
next
  case (streaming ctx ws os c n u)
  then show ?case by (simp add: locks_ok_def locks_handle_stream)
next
  case (command ctx ws os remote)
  then show ?case by (simp add: locks_ok_def locks_command)
qed (erule (1) locks_ok_keep; simp add: holds_lock_def)+

lemma ss_run_locks_ok: "ss_step\<^sup>*\<^sup>* c c' \<Longrightarrow> locks_ok c \<Longrightarrow> locks_ok c'"
  by (induction rule: rtranclp_induct) (auto intro: ss_step_locks_ok)

lemma initial_locks_ok: "items (sc_locks ctx) = [] \<Longrightarrow> locks_inv (sc_locks ctx) \<Longrightarrow> locks_ok (ctx, \<lambda>_. None)"
  by (simp add: locks_ok_def held_def slock.exclusive_def lock_held_iff)

section \<open>The handlers are runs\<close>

text \<open>A thread that is not disturbed: the handlers of \<open>SS_Handlers\<close> are these steps one after the other.\<close>

lemma write_open_parts:
  "write_open os ctx c n u i =
     (case snapshot_file ctx n of
        None \<Rightarrow> (ctx, Inl (send_error_response c ERR_NOTFOUND ''file not found''))
      | Some view \<Rightarrow>
          (case sentence_lock_acquire (mem_ok (os_env os)) (sc_locks ctx) n i u of
             Fail _ \<Rightarrow> (ctx, Inl (send_error_response c ERR_LOCKED ''sentence locked''))
           | Ok locks \<Rightarrow>
               let ctx1 = set_file_lock_state (ctx\<lparr>sc_locks := locks\<rparr>) n True i (Some u) in
               (case open_session os (sc_disk ctx1) c view u i of
                  Inl r \<Rightarrow> (write_unlock ctx1 n u i, Inl r)
                | Inr (s, c1) \<Rightarrow> (ctx1, Inr (view, s, c1)))))"
  by (simp add: write_open_def open_session_def Let_def split: option.split res.split bool.split prod.split)

lemma write_commit_parts:
  "write_commit os ctx c n u view s =
     (case commit_plan (os_env os) (sc_disk ctx) s view of
        None \<Rightarrow> (ctx, commit_error os (Some EAGAIN) c)
      | Some p \<Rightarrow>
          (case store_text_atomic (os_env os) (sc_disk ctx) (undo_path view) (fst p) of
             (d1, False) \<Rightarrow> (ctx\<lparr>sc_disk := d1\<rparr>, commit_error os None c)
           | (d1, True) \<Rightarrow>
               (case store_text_atomic (os_env os) d1 (data_path view) (snd p) of
                  (d2, False) \<Rightarrow> (ctx\<lparr>sc_disk := d2\<rparr>, commit_error os None c)
                | (d2, True) \<Rightarrow>
                    (case update_entry os (ctx\<lparr>sc_disk := d2\<rparr>) n
                        (\<lambda>file. (touch_content os u (count_words_in_text (snd p)) (length (snd p)) file)
                          \<lparr>lock_active := False, lock_sentence := -1\<rparr>) of
                       (copy, ctx1) \<Rightarrow> (case copy of None \<Rightarrow> ctx1 | Some f \<Rightarrow> notify_nm_file_update ctx1 f, commit_answer c (snd p))))))"
  by (auto simp: write_commit_def write_session_commit_def commit_plan_def commit_error_def commit_answer_def Let_def
      split: option.split prod.split bool.split)

lemma step_then: "ss_step c c' \<Longrightarrow> ss_step\<^sup>*\<^sup>* c' c'' \<Longrightarrow> ss_step\<^sup>*\<^sup>* c c''"
  by (rule converse_rtranclp_into_rtranclp)

lemma write_open_run:
  assumes "write_open os ctx c n u i = (ctx', Inr (view, s, c'))" and "ws t = None" and "length n < SS_NAME_MAX"
  shows "ss_step\<^sup>*\<^sup>* (ctx, ws) (ctx', ws(t := Some \<lparr>w_file = n, w_user = u, w_sentence = i, w_view = view,
    w_session = s, w_conn = c', w_phase = Editing\<rparr>))"
proof -
  let ?w = "\<lambda>p. \<lparr>w_file = n, w_user = u, w_sentence = i, w_view = view, w_session = write_session_init, w_conn = c, w_phase = p\<rparr>"
  obtain locks where snap: "snapshot_file ctx n = Some view"
    and lock: "sentence_lock_acquire (mem_ok (os_env os)) (sc_locks ctx) n i u = Ok locks"
    and ctx': "ctx' = set_file_lock_state (ctx\<lparr>sc_locks := locks\<rparr>) n True i (Some u)"
    and sess: "open_session os (sc_disk ctx') c view u i = Inr (s, c')"
    using assms(1) by (auto simp: write_open_parts Let_def split: option.splits res.splits sum.splits prod.splits)
  have "ss_step (ctx, ws) (ctx, ws(t := Some (?w Seen)))" by (rule ss_step.snapshot [where t = t]) (use assms snap in simp_all)
  moreover have "ss_step (ctx, ws(t := Some (?w Seen))) (ctx\<lparr>sc_locks := locks\<rparr>, (ws(t := Some (?w Seen)))(t := Some ((?w Seen)\<lparr>w_phase := Locked\<rparr>)))"
    by (rule ss_step.lock [where os = os]) (use lock in simp_all)
  moreover have "ss_step (ctx\<lparr>sc_locks := locks\<rparr>, ws(t := Some (?w Locked))) (ctx', (ws(t := Some (?w Locked)))(t := Some ((?w Locked)\<lparr>w_phase := Flagged\<rparr>)))"
    using ss_step.flag [of "ws(t := Some (?w Locked))" t "?w Locked" "ctx\<lparr>sc_locks := locks\<rparr>"] by (simp add: ctx')
  moreover have "ss_step (ctx', ws(t := Some (?w Flagged))) (ctx', (ws(t := Some (?w Flagged)))(t := Some ((?w Flagged)\<lparr>w_session := s, w_conn := c', w_phase := Editing\<rparr>)))"
    by (rule ss_step.begin_session [where os = os]) (use sess in simp_all)
  ultimately show ?thesis by (simp add: rtranclp.rtrancl_into_rtrancl)
qed

lemma commit_stored_run:
  assumes "ws t = Some w" "w_phase w = Editing" "json_get_string json ''type'' 64 = Some ''WRITE_COMMIT''"
    and "commit_plan (os_env (os :: os)) (sc_disk ctx) (w_session w) (w_view w) = Some p"
    and "store_text_atomic (os_env os) (sc_disk ctx) (undo_path (w_view w)) (fst p) = (d1, True)"
    and "store_text_atomic (os_env os) d1 (data_path (w_view w)) (snd p) = (d2, True)"
  shows "ss_step\<^sup>*\<^sup>* (ctx, ws) (ctx\<lparr>sc_disk := d2\<rparr>, ws(t := Some (w\<lparr>w_phase := DataStored (snd p)\<rparr>)))"
proof -
  have "ss_step (ctx, ws) (ctx, ws(t := Some (w\<lparr>w_phase := Planned p\<rparr>)))"
    by (rule ss_step.plan [where ws = ws and t = t and w = w, OF assms(1-4)])
  moreover have "ss_step (ctx, ws(t := Some (w\<lparr>w_phase := Planned p\<rparr>)))
      (ctx\<lparr>sc_disk := d1\<rparr>, (ws(t := Some (w\<lparr>w_phase := Planned p\<rparr>)))(t := Some (w\<lparr>w_phase := Planned p\<rparr>\<lparr>w_phase := UndoStored p\<rparr>)))"
    by (rule ss_step.store_undo [where os = os]) (use assms(5) in simp_all)
  moreover have "ss_step (ctx\<lparr>sc_disk := d1\<rparr>, ws(t := Some (w\<lparr>w_phase := UndoStored p\<rparr>)))
      ((ctx\<lparr>sc_disk := d1\<rparr>)\<lparr>sc_disk := d2\<rparr>, (ws(t := Some (w\<lparr>w_phase := UndoStored p\<rparr>)))(t := Some (w\<lparr>w_phase := UndoStored p\<rparr>\<lparr>w_phase := DataStored (snd p)\<rparr>)))"
    by (rule ss_step.store_data [where os = os]) (use assms(6) in simp_all)
  ultimately show ?thesis by (simp add: rtranclp.rtrancl_into_rtrancl)
qed

lemma commit_run:
  assumes "ws t = Some w" "w_phase w = Editing" "json_get_string json ''type'' 64 = Some ''WRITE_COMMIT''"
    and "write_commit os ctx (w_conn w) (w_file w) (w_user w) (w_view w) (w_session w) = (ctx', c')"
  shows "ss_step\<^sup>*\<^sup>* (ctx, ws) (ctx', ws(t := Some (w\<lparr>w_conn := c', w_phase := Leaving\<rparr>)))"
proof (cases "commit_plan (os_env os) (sc_disk ctx) (w_session w) (w_view w)")
  case None
  then show ?thesis using ss_step.conflict [where ws = ws and t = t and w = w, OF assms(1-3) None] assms(4) by (simp add: write_commit_parts r_into_rtranclp)
next
  case (Some p)
  obtain d1 b1 where st1: "store_text_atomic (os_env os) (sc_disk ctx) (undo_path (w_view w)) (fst p) = (d1, b1)" by fastforce
  obtain d2 b2 where st2: "store_text_atomic (os_env os) d1 (data_path (w_view w)) (snd p) = (d2, b2)" by fastforce
  let ?wp = "w\<lparr>w_phase := Planned p\<rparr>" and ?wu = "w\<lparr>w_phase := UndoStored p\<rparr>"
  have plan: "ss_step (ctx, ws) (ctx, ws(t := Some ?wp))" by (rule ss_step.plan [where ws = ws and t = t and w = w, OF assms(1-3) Some])
  show ?thesis
  proof (cases b1)
    case False
    have "ss_step (ctx, ws(t := Some ?wp)) (ctx\<lparr>sc_disk := d1\<rparr>, (ws(t := Some ?wp))(t := Some (?wp\<lparr>w_conn := commit_error os None (w_conn ?wp), w_phase := Leaving\<rparr>)))"
      by (rule ss_step.store_fails [where p = p and path = "undo_path (w_view w)"]) (use st1 False in simp_all)
    then show ?thesis using step_then [OF plan] assms(4) Some st1 False by (simp add: write_commit_parts r_into_rtranclp)
  next
    case True
    have undo: "ss_step (ctx, ws(t := Some ?wp)) (ctx\<lparr>sc_disk := d1\<rparr>, (ws(t := Some ?wp))(t := Some (?wp\<lparr>w_phase := UndoStored p\<rparr>)))"
      by (rule ss_step.store_undo [where os = os]) (use st1 True in simp_all)
    show ?thesis
    proof (cases b2)
      case False
      have "ss_step (ctx\<lparr>sc_disk := d1\<rparr>, ws(t := Some ?wu))
          ((ctx\<lparr>sc_disk := d1\<rparr>)\<lparr>sc_disk := d2\<rparr>, (ws(t := Some ?wu))(t := Some (?wu\<lparr>w_conn := commit_error os None (w_conn ?wu), w_phase := Leaving\<rparr>)))"
        by (rule ss_step.store_fails [where p = p and path = "data_path (w_view w)"]) (use st2 False in simp_all)
      with r_into_rtranclp [of ss_step, OF plan] undo show ?thesis
        using assms(4) Some st1 st2 True False by (simp add: write_commit_parts rtranclp.rtrancl_into_rtrancl)
    next
      case b2: True
      have stored: "ss_step\<^sup>*\<^sup>* (ctx, ws) (ctx\<lparr>sc_disk := d2\<rparr>, ws(t := Some (w\<lparr>w_phase := DataStored (snd p)\<rparr>)))"
        using commit_stored_run [where ws = ws and t = t and w = w, OF assms(1-3) Some] st1 st2 True b2 by simp
      let ?wd = "w\<lparr>w_phase := DataStored (snd p)\<rparr>"
      let ?wa = "w\<lparr>w_conn := commit_answer (w_conn w) (snd p), w_phase := Answered (snd p)\<rparr>"
      have ans: "ss_step (ctx\<lparr>sc_disk := d2\<rparr>, ws(t := Some ?wd))
          (ctx\<lparr>sc_disk := d2\<rparr>, (ws(t := Some ?wd))(t := Some (?wd\<lparr>w_conn := commit_answer (w_conn ?wd) (snd p), w_phase := Answered (snd p)\<rparr>)))"
        by (rule ss_step.answer) simp_all
      obtain copy ctx1 where upd: "update_entry os (ctx\<lparr>sc_disk := d2\<rparr>) (w_file w) (\<lambda>file. (touch_content os (w_user w)
          (count_words_in_text (snd p)) (length (snd p)) file)\<lparr>lock_active := False, lock_sentence := -1\<rparr>) = (copy, ctx1)" by fastforce
      have pub: "ss_step (ctx\<lparr>sc_disk := d2\<rparr>, ws(t := Some ?wa)) (ctx1, (ws(t := Some ?wa))(t := Some (?wa\<lparr>w_phase := Published copy\<rparr>)))"
        by (rule ss_step.publish) (use upd in simp_all)
      let ?wq = "?wa\<lparr>w_phase := Published copy\<rparr>"
      have "ss_step (ctx1, ws(t := Some ?wq))
          (case copy of None \<Rightarrow> ctx1 | Some f \<Rightarrow> notify_nm_file_update ctx1 f, (ws(t := Some ?wq))(t := Some (?wq\<lparr>w_phase := Leaving\<rparr>)))"
        by (rule ss_step.notify) simp_all
      moreover have "ctx' = (case copy of None \<Rightarrow> ctx1 | Some f \<Rightarrow> notify_nm_file_update ctx1 f)" "c' = commit_answer (w_conn w) (snd p)"
        using assms(4) Some st1 st2 True b2 upd by (simp_all add: write_commit_parts)
      ultimately show ?thesis using stored ans pub by (simp add: rtranclp.rtrancl_into_rtrancl)
    qed
  qed
qed

lemma close_run:
  assumes "ws t = Some w" "w_phase w = Leaving"
  shows "ss_step\<^sup>*\<^sup>* (ctx, ws) (write_close ctx (w_file w) (w_user w) (w_sentence w), ws(t := None))"
proof -
  let ?ctx1 = "ctx\<lparr>sc_locks := sentence_lock_release (sc_locks ctx) (w_file w) (w_user w) (w_sentence w)\<rparr>"
  have "ss_step (ctx, ws) (?ctx1, ws(t := Some (w\<lparr>w_phase := Released\<rparr>)))" by (rule ss_step.release [where ws = ws and t = t and w = w, OF assms])
  moreover have "ss_step (?ctx1, ws(t := Some (w\<lparr>w_phase := Released\<rparr>)))
      (set_file_lock_state ?ctx1 (w_file w) False (-1) None, (ws(t := Some (w\<lparr>w_phase := Released\<rparr>)))(t := None))"
    using ss_step.close [of "ws(t := Some (w\<lparr>w_phase := Released\<rparr>))" t "w\<lparr>w_phase := Released\<rparr>" ?ctx1] by simp
  ultimately show ?thesis by (simp add: write_close_def)
qed

lemma write_loop_run:
  assumes "write_loop os ctx (w_conn w) (w_file w) (w_user w) (w_view w) (w_session w) msgs = (ctx', r)"
    and "ws t = Some w" "w_phase w = Editing"
  shows "ss_step\<^sup>*\<^sup>* (ctx, ws) (write_close ctx' (w_file w) (w_user w) (w_sentence w), ws(t := None))"
  using assms
proof (induction msgs arbitrary: ctx ws w)
  case Nil
  have "ss_step (ctx, ws) (ctx, ws(t := Some (w\<lparr>w_phase := Leaving\<rparr>)))" by (rule ss_step.hang_up [where ws = ws and t = t and w = w, OF Nil.prems(2,3)])
  moreover have "ss_step\<^sup>*\<^sup>* (ctx, ws(t := Some (w\<lparr>w_phase := Leaving\<rparr>))) (write_close ctx (w_file w) (w_user w) (w_sentence w), ws(t := None))"
    using close_run [of "ws(t := Some (w\<lparr>w_phase := Leaving\<rparr>))" t "w\<lparr>w_phase := Leaving\<rparr>" ctx] by simp
  ultimately have "ss_step\<^sup>*\<^sup>* (ctx, ws) (write_close ctx (w_file w) (w_user w) (w_sentence w), ws(t := None))" by (rule step_then)
  moreover have "ctx' = ctx" using Nil.prems(1) by simp
  ultimately show ?case by blast
next
  case (Cons json msgs)
  obtain b ctx1 c1 s1 where m: "write_message os ctx (w_conn w) (w_file w) (w_user w) (w_view w) (w_session w) json = (b, ctx1, c1, s1)"
    by (metis prod_cases4)
  show ?case
  proof (cases "json_get_string json ''type'' 64 = Some ''WRITE_COMMIT''")
    case True
    obtain ctx2 c2 where wc: "write_commit os ctx (w_conn w) (w_file w) (w_user w) (w_view w) (w_session w) = (ctx2, c2)" by fastforce
    have "ctx' = ctx2" using Cons.prems(1) True wc by (simp add: write_message_def)
    have run: "ss_step\<^sup>*\<^sup>* (ctx, ws) (ctx2, ws(t := Some (w\<lparr>w_conn := c2, w_phase := Leaving\<rparr>)))"
      by (rule commit_run [where ws = ws and t = t and w = w, OF Cons.prems(2,3) True wc])
    have "ss_step\<^sup>*\<^sup>* (ctx2, ws(t := Some (w\<lparr>w_conn := c2, w_phase := Leaving\<rparr>))) (write_close ctx2 (w_file w) (w_user w) (w_sentence w), ws(t := None))"
      using close_run [of "ws(t := Some (w\<lparr>w_conn := c2, w_phase := Leaving\<rparr>))" t "w\<lparr>w_conn := c2, w_phase := Leaving\<rparr>" ctx2] by simp
    from rtranclp_trans [OF run this] show ?thesis unfolding \<open>ctx' = ctx2\<close> .
  next
    case False
    let ?w1 = "w\<lparr>w_session := s1, w_conn := c1, w_phase := (if b then Editing else Leaving)\<rparr>"
    have edit: "ss_step (ctx, ws) (ctx1, ws(t := Some ?w1))" by (rule ss_step.edit [where ws = ws and t = t and w = w, OF Cons.prems(2,3) False m])
    show ?thesis
    proof (cases b)
      case True
      have "ss_step\<^sup>*\<^sup>* (ctx1, ws(t := Some ?w1)) (write_close ctx' (w_file ?w1) (w_user ?w1) (w_sentence ?w1), (ws(t := Some ?w1))(t := None))"
        by (rule Cons.IH) (use Cons.prems(1) m True in simp_all)
      then have "ss_step\<^sup>*\<^sup>* (ctx1, ws(t := Some ?w1)) (write_close ctx' (w_file w) (w_user w) (w_sentence w), ws(t := None))"
        unfolding fun_upd_upd by simp
      from step_then [OF edit this] show ?thesis .
    next
      case b: False
      have "ctx' = ctx1" using Cons.prems(1) m b by simp
      have "ss_step\<^sup>*\<^sup>* (ctx1, ws(t := Some ?w1)) (write_close ctx1 (w_file w) (w_user w) (w_sentence w), ws(t := None))"
        using close_run [of "ws(t := Some ?w1)" t ?w1 ctx1] b by simp
      from step_then [OF edit this] show ?thesis unfolding \<open>ctx' = ctx1\<close> .
    qed
  qed
qed

text \<open>Whatever the handler of a write connection does alone is a run of the steps.\<close>

lemma handle_write_run:
  assumes "handle_write os ctx c n u i = (ctx', r)" and "ws t = None" and "length n < SS_NAME_MAX"
  shows "ss_step\<^sup>*\<^sup>* (ctx, ws) (ctx', ws)"
proof -
  obtain ctx1 x where o: "write_open os ctx c n u i = (ctx1, x)" by fastforce
  have none: "ws(t := None) = ws" using assms(2) by auto
  let ?w = "\<lambda>v s k p. \<lparr>w_file = n, w_user = u, w_sentence = i, w_view = v, w_session = s, w_conn = k, w_phase = p\<rparr>"
  show ?thesis
  proof (cases x)
    case (Inr y)
    obtain view s c1 where y: "y = (view, s, c1)" by (rule prod_cases3)
    let ?w1 = "?w view s c1 Editing"
    obtain ctx2 r2 where l: "write_loop os ctx1 c1 n u view s (inbox c1) = (ctx2, r2)" by (metis surj_pair)
    have "ss_step\<^sup>*\<^sup>* (ctx, ws) (ctx1, ws(t := Some ?w1))" by (rule write_open_run [where t = t and ws = ws and os = os and c = c, OF _ assms(2,3)]) (use o Inr y in simp)
    moreover have "ss_step\<^sup>*\<^sup>* (ctx1, ws(t := Some ?w1)) (write_close ctx2 (w_file ?w1) (w_user ?w1) (w_sentence ?w1), (ws(t := Some ?w1))(t := None))"
      by (rule write_loop_run [where msgs = "inbox c1" and os = os]) (use l in simp_all)
    ultimately show ?thesis using assms(1) o Inr y l none by (simp add: handle_write_def split: prod.splits)
  next
    case (Inl y)
    then have same: "ctx' = ctx1" using assms(1) o by (simp add: handle_write_def)
    show ?thesis
    proof (cases "ctx1 = ctx")
      case False
      then obtain view locks where snap: "snapshot_file ctx n = Some view"
        and lock: "sentence_lock_acquire (mem_ok (os_env os)) (sc_locks ctx) n i u = Ok locks"
        and sess: "open_session os (sc_disk (set_file_lock_state (ctx\<lparr>sc_locks := locks\<rparr>) n True i (Some u))) c view u i = Inl y"
        and ctx1: "ctx1 = write_unlock (set_file_lock_state (ctx\<lparr>sc_locks := locks\<rparr>) n True i (Some u)) n u i"
        using o Inl by (auto simp: write_open_parts Let_def split: option.splits res.splits sum.splits prod.splits)
      obtain b c1 where y: "y = (b, c1)" by fastforce
      let ?v = "\<lambda>k p. ?w view write_session_init k p"
      let ?ctx2 = "ctx\<lparr>sc_locks := locks\<rparr>" and ?ctx3 = "set_file_lock_state (ctx\<lparr>sc_locks := locks\<rparr>) n True i (Some u)"
      let ?ctx4 = "set_file_lock_state ?ctx3 n False (-1) None"
      have "ss_step (ctx, ws) (ctx, ws(t := Some (?v c Seen)))" by (rule ss_step.snapshot [where t = t]) (use assms snap in simp_all)
      moreover have "ss_step (ctx, ws(t := Some (?v c Seen))) (?ctx2, ws(t := Some (?v c Locked)))"
        using ss_step.lock [of "ws(t := Some (?v c Seen))" t "?v c Seen" os ctx locks] lock by simp
      moreover have "ss_step (?ctx2, ws(t := Some (?v c Locked))) (?ctx3, ws(t := Some (?v c Flagged)))"
        using ss_step.flag [of "ws(t := Some (?v c Locked))" t "?v c Locked" ?ctx2] by simp
      moreover have "ss_step (?ctx3, ws(t := Some (?v c Flagged))) (?ctx3, ws(t := Some (?v c1 Refusing)))"
        using ss_step.refuse [of "ws(t := Some (?v c Flagged))" t "?v c Flagged" os ?ctx3 b c1] sess y by simp
      moreover have "ss_step (?ctx3, ws(t := Some (?v c1 Refusing))) (?ctx4, ws(t := Some (?v c1 Unflagged)))"
        using ss_step.unflag [of "ws(t := Some (?v c1 Refusing))" t "?v c1 Refusing" ?ctx3] by simp
      moreover have "ss_step (?ctx4, ws(t := Some (?v c1 Unflagged))) (ctx1, ws)"
        using ss_step.unlock [of "ws(t := Some (?v c1 Unflagged))" t "?v c1 Unflagged" ?ctx4] none by (simp add: ctx1 write_unlock_def Let_def)
      ultimately show ?thesis unfolding same by (simp add: rtranclp.rtrancl_into_rtrancl)
    qed (simp add: same)
  qed
qed

section \<open>Properties\<close>

text \<open>A run on the document \<open>A. B. C.\<close>: two clients open two sentences, and one edits hers.\<close>

definition edit_request :: "string \<Rightarrow> string" where
  "edit_request s = json_object [(''type'', JStr ''WRITE_REPLACE''), (''index'', JInt 0), (''content'', JStr s)]"

definition commit_request :: string where
  "commit_request = json_object [(''type'', JStr ''WRITE_COMMIT'')]"

definition opened :: "ss_context \<Rightarrow> string \<Rightarrow> int \<Rightarrow> ss_context \<times> ss_file \<times> write_session \<times> conn" where
  "opened ctx user i = (case write_open demo_os ctx (demo_conn []) ''f'' user i of (ctx', r) \<Rightarrow> (ctx', projr r))"

definition edited :: "ss_context \<times> ss_file \<times> write_session \<times> conn \<Rightarrow> string \<Rightarrow> string \<Rightarrow> write_session \<times> conn" where
  "edited p user new =
     (case p of (ctx, view, s, c) \<Rightarrow>
      case write_message demo_os ctx c ''f'' user view s (edit_request new) of (b, ctx', c', s') \<Rightarrow> (s', c'))"

definition open_writer :: "string \<Rightarrow> int \<Rightarrow> ss_file \<Rightarrow> write_session \<times> conn \<Rightarrow> writer" where
  "open_writer user i view s =
     \<lparr>w_file = ''f'', w_user = user, w_sentence = i, w_view = view, w_session = fst s, w_conn = snd s, w_phase = Editing\<rparr>"

lemma opened_run:
  assumes "\<not> isl (snd (write_open demo_os ctx (demo_conn []) ''f'' user i))" "ws t = None" "opened ctx user i = (ctx', view, s, c)"
  shows "ss_step\<^sup>*\<^sup>* (ctx, ws) (ctx', ws(t := Some (open_writer user i view (s, c))))"
proof -
  have "write_open demo_os ctx (demo_conn []) ''f'' user i = (ctx', Inr (view, s, c))"
    using assms(1,3) by (cases "snd (write_open demo_os ctx (demo_conn []) ''f'' user i)") (auto simp: opened_def split: prod.splits)
  from write_open_run [where ws = ws and t = t, OF this assms(2)] show ?thesis by (simp add: open_writer_def SS_NAME_MAX_def)
qed

lemma edited_run:
  assumes "ws t = Some (open_writer user i view (s, c))" "edited (ctx, view, s, c) user new = (s', c')"
    and "fst (write_message demo_os ctx c ''f'' user view s (edit_request new))" "json_get_string (edit_request new) ''type'' 64 = Some ''WRITE_REPLACE''"
  shows "ss_step\<^sup>*\<^sup>* (ctx, ws) (ctx, ws(t := Some (open_writer user i view (s', c'))))"
proof -
  obtain b ctx1 c1 s1 where m: "write_message demo_os ctx c ''f'' user view s (edit_request new) = (b, ctx1, c1, s1)" by (metis prod_cases4)
  have "b" "s1 = s'" "c1 = c'" using assms(2,3) m by (auto simp: edited_def)
  moreover have "ctx1 = ctx" using locks_message [OF _ m] assms(4) by simp
  ultimately have "ss_step (ctx, ws) (ctx, ws(t := Some ((open_writer user i view (s, c))\<lparr>w_session := s', w_conn := c', w_phase := (if True then Editing else Leaving)\<rparr>)))"
    using m assms(4) by (intro ss_step.edit [where ws = ws and t = t and json = "edit_request new" and os = demo_os, OF assms(1)]) (simp_all add: open_writer_def)
  then show ?thesis by (simp add: open_writer_def r_into_rtranclp)
qed

text \<open>The index of a sentence is not a name for it: a commit that adds sentences moves those behind it.\<close>

lemma shifted_sentence:
  "\<exists>ctx ws w1 w2. ss_step\<^sup>*\<^sup>* (demo_ctx, \<lambda>_. None) (ctx, ws) \<and> ws 1 = Some w1 \<and> ws 2 = Some w2 \<and>
    w_phase w1 = Editing \<and> w_phase w2 = Editing \<and> w_file w1 = w_file w2 \<and> w_sentence w1 = 1 \<and> w_sentence w2 = 2 \<and>
    baseline_sentence (w_session w1) = Some ''B.'' \<and> baseline_sentence (w_session w2) = Some ''B.'' \<and>
    split_sentences (file_text good_env (sc_disk ctx) (w_view w2)) = [''X.'', ''Y.'', ''B.'', ''C.'']"
proof -
  define a where "a = opened demo_ctx ''ann'' 0"
  define b where "b = opened (fst a) ''bob'' 1"
  define ea where "ea = edited (fst b, snd a) ''ann'' ''X. Y.''"
  define wc where "wc = write_commit demo_os (fst b) (snd ea) ''f'' ''ann'' (fst (snd a)) (fst ea)"
  define ctx4 where "ctx4 = write_close (fst wc) ''f'' ''ann'' 0"
  define e where "e = opened ctx4 ''eve'' 2"
  note defs = a_def b_def ea_def wc_def ctx4_def e_def
  have 1: "\<not> isl (snd (write_open demo_os demo_ctx (demo_conn []) ''f'' ''ann'' 0))" by code_simp
  have 2: "\<not> isl (snd (write_open demo_os (fst a) (demo_conn []) ''f'' ''bob'' 1))" unfolding defs by code_simp
  have 3: "fst (write_message demo_os (fst b) (snd (snd (snd a))) ''f'' ''ann'' (fst (snd a)) (fst (snd (snd a))) (edit_request ''X. Y.''))"
    unfolding defs by code_simp
  have 4: "\<not> isl (snd (write_open demo_os ctx4 (demo_conn []) ''f'' ''eve'' 2))" unfolding defs by code_simp
  have 5: "baseline_sentence (fst (snd (snd b))) = Some ''B.''" "baseline_sentence (fst (snd (snd e))) = Some ''B.''"
    "split_sentences (file_text good_env (sc_disk (fst e)) (fst (snd e))) = [''X.'', ''Y.'', ''B.'', ''C.'']"
    unfolding defs by code_simp+
  have t: "json_get_string (edit_request ''X. Y.'') ''type'' 64 = Some ''WRITE_REPLACE''" "json_get_string commit_request ''type'' 64 = Some ''WRITE_COMMIT''"
    by code_simp+
  let ?a = "\<lambda>s. open_writer ''ann'' 0 (fst (snd a)) s" and ?b = "open_writer ''bob'' 1 (fst (snd b)) (snd (snd b))"
  let ?ws = "\<lambda>s. (\<lambda>_. None)(0 := Some (?a s), 1 := Some ?b)"
  have r1: "ss_step\<^sup>*\<^sup>* (demo_ctx, \<lambda>_. None) (fst a, (\<lambda>_. None)(0 := Some (?a (snd (snd a)))))"
    using opened_run [OF 1, where t = 0 and ws = "\<lambda>_. None" and ctx' = "fst a" and view = "fst (snd a)" and s = "fst (snd (snd a))" and c = "snd (snd (snd a))"]
    by (simp add: a_def)
  have r2: "ss_step\<^sup>*\<^sup>* (fst a, (\<lambda>_. None)(0 := Some (?a (snd (snd a))))) (fst b, ?ws (snd (snd a)))"
    using opened_run [OF 2, where t = 1 and ws = "(\<lambda>_. None)(0 := Some (?a (snd (snd a))))" and ctx' = "fst b" and view = "fst (snd b)"
        and s = "fst (snd (snd b))" and c = "snd (snd (snd b))"]
    by (simp add: b_def)
  have r3: "ss_step\<^sup>*\<^sup>* (fst b, ?ws (snd (snd a))) (fst b, ?ws ea)"
    using edited_run [where t = 0 and ws = "?ws (snd (snd a))" and ctx = "fst b" and user = "''ann''" and i = 0 and view = "fst (snd a)"
        and s = "fst (snd (snd a))" and c = "snd (snd (snd a))" and new = "''X. Y.''" and s' = "fst ea" and c' = "snd ea", OF _ _ 3 t(1)]
    by (simp add: ea_def fun_upd_twist)
  let ?l = "(?a ea)\<lparr>w_conn := snd wc, w_phase := Leaving\<rparr>"
  have r4: "ss_step\<^sup>*\<^sup>* (fst b, ?ws ea) (fst wc, (?ws ea)(0 := Some ?l))"
    by (rule commit_run [where os = demo_os, OF _ _ t(2)]) (simp_all add: open_writer_def wc_def)
  have r5: "ss_step\<^sup>*\<^sup>* (fst wc, (?ws ea)(0 := Some ?l)) (ctx4, (\<lambda>_. None)(1 := Some ?b))"
    using close_run [where ws = "(?ws ea)(0 := Some ?l)" and t = 0 and w = ?l and ctx = "fst wc"]
    by (simp add: open_writer_def ctx4_def fun_upd_twist fun_upd_idem)
  have r6: "ss_step\<^sup>*\<^sup>* (ctx4, (\<lambda>_. None)(1 := Some ?b)) (fst e, (\<lambda>_. None)(1 := Some ?b, 2 := Some (open_writer ''eve'' 2 (fst (snd e)) (snd (snd e)))))"
    using opened_run [OF 4, where t = 2 and ws = "(\<lambda>_. None)(1 := Some ?b)" and ctx' = "fst e" and view = "fst (snd e)"
        and s = "fst (snd (snd e))" and c = "snd (snd (snd e))"]
    by (simp add: e_def)
  from r1 r2 r3 r4 r5 r6 have "ss_step\<^sup>*\<^sup>* (demo_ctx, \<lambda>_. None) (fst e, (\<lambda>_. None)(1 := Some ?b, 2 := Some (open_writer ''eve'' 2 (fst (snd e)) (snd (snd e)))))"
    by (meson rtranclp_trans)
  then show ?thesis using 5
    by (intro exI [of _ "fst e"] exI [of _ "(\<lambda>_. None)(1 := Some ?b, 2 := Some (open_writer ''eve'' 2 (fst (snd e)) (snd (snd e))))"] exI [of _ ?b]
        exI [of _ "open_writer ''eve'' 2 (fst (snd e)) (snd (snd e))"]) (simp add: open_writer_def)
qed

text \<open>C5: One writer per sentence index. Under every interleaving of the steps of write connections with each other and with reads,
  streams and commands of the name manager: a connection that has taken a sentence and not yet given it back (whether it is starting, editing, between
  the parts of its commit, or ending) has its lock in the table, no other connection has the same index of the same file, and an
  attempt to write at that index is answered with \<^verbatim>\<open>ERR_LOCKED\<close>. The lock is on the index, not on the sentence: a commit that adds a sentence moves those
  behind it, and then two clients edit the same sentence under two indices, each with a lock of its own; the run at the end does this on a document
  of three sentences.\<close>

theorem one_writer_per_sentence:
  assumes "ss_step\<^sup>*\<^sup>* (ctx0, \<lambda>_. None) (ctx, ws)" and "items (sc_locks ctx0) = []" and "locks_inv (sc_locks ctx0)"
    and "ws t = Some w" and "holds_lock w"
  shows "(\<exists>entry \<in> set (items (sc_locks ctx)). sl_file entry = w_file w \<and> sl_sentence entry = w_sentence w) \<and>
    (\<forall>t' w'. ws t' = Some w' \<and> holds_lock w' \<and> w_file w' = w_file w \<and> w_sentence w' = w_sentence w \<longrightarrow> t' = t) \<and>
    (\<forall>os c u view. snapshot_file ctx (w_file w) = Some view \<longrightarrow>
      write_open os ctx c (w_file w) u (w_sentence w) = (ctx, Inl (send_error_response c ERR_LOCKED ''sentence locked''))) \<and>
    (\<exists>ctx ws w1 w2. ss_step\<^sup>*\<^sup>* (demo_ctx, \<lambda>_. None) (ctx, ws) \<and> ws 1 = Some w1 \<and> ws 2 = Some w2 \<and>
      w_phase w1 = Editing \<and> w_phase w2 = Editing \<and> w_file w1 = w_file w2 \<and> w_sentence w1 = 1 \<and> w_sentence w2 = 2 \<and>
      baseline_sentence (w_session w1) = Some ''B.'' \<and> baseline_sentence (w_session w2) = Some ''B.'' \<and>
      split_sentences (file_text good_env (sc_disk ctx) (w_view w2)) = [''X.'', ''Y.'', ''B.'', ''C.''])"
proof -
  have "locks_ok (ctx, ws)" by (rule ss_run_locks_ok [OF assms(1) initial_locks_ok [OF assms(2,3)]])
  then have ex: "slock.exclusive (sc_locks ctx, held ws)" by (simp add: locks_ok_def)
  have h: "held ws t = Some (held_key w)" using assms(4,5) by (simp add: held_def)
  with ex have held: "lock_held (sc_locks ctx) (w_file w, w_sentence w)"
    unfolding slock.exclusive_def held_key_def by auto
  then have entry: "\<exists>entry \<in> set (items (sc_locks ctx)). sl_file entry = w_file w \<and> sl_sentence entry = w_sentence w"
    by (auto simp: lock_held_iff lock_key_def)
  have alone: "t' = t" if "ws t' = Some w'" "holds_lock w'" "w_file w' = w_file w" "w_sentence w' = w_sentence w" for t' w'
  proof -
    have "held ws t' = Some (held_key w)" using that by (simp add: held_def held_key_def)
    with ex h show ?thesis unfolding slock.exclusive_def by (metis snd_conv)
  qed
  have "write_open os ctx c (w_file w) u (w_sentence w) = (ctx, Inl (send_error_response c ERR_LOCKED ''sentence locked''))"
    if "snapshot_file ctx (w_file w) = Some view" for os c u view
    using that sentence_lock_busy [OF held] by (simp add: write_open_def)
  with entry alone shifted_sentence show ?thesis by blast
qed

lemma demo_open:
  obtains ctx1 s c1 where "write_open demo_os demo_ctx (demo_conn []) ''f'' ''ann'' 0 = (ctx1, Inr (demo_file, s, c1))"
proof -
  have "case snd (write_open demo_os demo_ctx (demo_conn []) ''f'' ''ann'' 0) of Inl _ \<Rightarrow> False | Inr _ \<Rightarrow> True"
    by code_simp
  then obtain ctx1 view s c1 where o: "write_open demo_os demo_ctx (demo_conn []) ''f'' ''ann'' 0 = (ctx1, Inr (view, s, c1))"
    by (cases "write_open demo_os demo_ctx (demo_conn []) ''f'' ''ann'' 0") (auto split: sum.splits)
  have "snapshot_file demo_ctx ''f'' = Some demo_file" using demo_inv demo_lookup by (simp add: snapshot_lookup)
  with o have "view = demo_file"
    by (auto simp: write_open_def Let_def split: res.splits prod.splits bool.splits if_splits)
  with o show thesis by (intro that) simp
qed

theorem one_writer_per_sentence_witness:
  "\<exists>ctx1 s c1. ss_step\<^sup>*\<^sup>* (demo_ctx, \<lambda>_. None) (ctx1, (\<lambda>_. None)(0 := Some \<lparr>w_file = ''f'', w_user = ''ann'',
      w_sentence = 0, w_view = demo_file, w_session = s, w_conn = c1, w_phase = Editing\<rparr>)) \<and>
    snd (write_open demo_os ctx1 (demo_conn []) ''f'' ''bob'' 0) =
      Inl (send_error_response (demo_conn []) ERR_LOCKED ''sentence locked'')"
proof -
  obtain ctx1 s c1 where o: "write_open demo_os demo_ctx (demo_conn []) ''f'' ''ann'' 0 = (ctx1, Inr (demo_file, s, c1))"
    by (rule demo_open)
  let ?w = "\<lparr>w_file = ''f'', w_user = ''ann'', w_sentence = 0, w_view = demo_file, w_session = s, w_conn = c1, w_phase = Editing\<rparr>"
  have run: "ss_step\<^sup>*\<^sup>* (demo_ctx, \<lambda>_. None) (ctx1, (\<lambda>_. None)(0 := Some ?w))"
    by (rule write_open_run [OF o]) (simp_all add: SS_NAME_MAX_def)
  have l: "items (sc_locks demo_ctx) = []" "locks_inv (sc_locks demo_ctx)"
    using demo_inv by (simp_all add: ctx_inv_def) (simp add: demo_ctx_def)
  have "ctx_inv ctx1" using write_open_inv [OF demo_inv, of "''f''" demo_os "demo_conn []" "''ann''" 0] o by simp
  moreover have "ss_lookup (sc_state ctx1) ''f'' \<noteq> None"
  proof -
    have "sc_state ctx1 = ss_state_modify (sc_state demo_ctx) ''f'' (\<lambda>file. file\<lparr>lock_active := True, lock_sentence := 0, lock_user := ''ann''\<rparr>)"
      using o by (auto simp: write_open_def Let_def set_file_lock_state_def SS_USER_MAX_def
          split: option.splits res.splits prod.splits bool.splits if_splits)
    with ss_modify_lookup(2) [of "sc_state demo_ctx"] demo_inv demo_lookup show ?thesis by (simp add: ctx_inv_def)
  qed
  ultimately obtain view where "snapshot_file ctx1 ''f'' = Some view" by (auto simp: snapshot_lookup)
  then have "write_open demo_os ctx1 (demo_conn []) ''f'' ''bob'' 0 =
      (ctx1, Inl (send_error_response (demo_conn []) ERR_LOCKED ''sentence locked''))"
    using one_writer_per_sentence [OF run l, of 0 ?w] by (simp add: holds_lock_def)
  with run show ?thesis by (intro exI [of _ ctx1] exI [of _ s] exI [of _ c1]) simp
qed


lemma locks_write_close: "sc_locks (write_close ctx n u i) = release_for (sc_locks ctx) u (n, i)"
  by (simp add: write_close_def set_file_lock_state_def release_for_def)

text \<open>The per-file lock flag does not survive the first of two writers. While a session on
  sentence \<open>j\<close> of a file is open, the end of a session on another sentence \<open>i\<close> clears the
  flag of the whole file, and then an undo of the file is carried out although the lock of
  sentence \<open>j\<close> is still held.\<close>

theorem lock_flag_lost:
  assumes "ctx_inv ctx" and "ss_lookup (sc_state ctx) n = Some f"
    and "lock_held (sc_locks ctx) (n, j)" and "i \<noteq> j"
    and "sc_disk ctx (undo_path f) = Some t" and "is_cstring t" and "entry_paths f"
    and "rd_ok (os_env os) (undo_path f)" and "wr_fault (os_env os) (data_path f) = NoFault"
  shows "lock_held (sc_locks (write_close ctx n u i)) (n, j) \<and>
    (\<exists>ctx'. perform_undo os (write_close ctx n u i) n u2 = (Ok (t, length (split_words t), length t), ctx'))"
proof -
  let ?ctx = "write_close ctx n u i"
  let ?g = "\<lambda>file. file\<lparr>lock_active := False, lock_sentence := -1, lock_user := []\<rparr>"
  have inv: "ctx_inv ?ctx" by (rule write_close_inv [OF assms(1)])
  have "locks_inv (sc_locks ctx)" using assms(1) by (simp add: ctx_inv_def)
  from slock.release_locked [OF this, of u "(n, i)" "(n, j)"] assms(3,4)
  have held: "lock_held (sc_locks ?ctx) (n, j)" by (simp add: locks_write_close)
  have lk: "ss_lookup (sc_state ?ctx) n = Some (?g f)"
    using ss_modify_lookup(2) [of "sc_state ctx" ?g n n] assms(1,2)
    by (simp add: write_close_def set_file_lock_state_def ctx_inv_def)
  have "sc_disk ?ctx = sc_disk ctx" by (simp add: write_close_def set_file_lock_state_def)
  with perform_undo_succeeds [OF inv lk, of t os u2] assms(5-9) held show ?thesis
    by (auto simp: entry_paths_def)
qed

definition demo_two_writers :: ss_context where
  "demo_two_writers = demo_ctx\<lparr>sc_disk := demo_disk(''undo/f.undo'' \<mapsto> ''Old.''),
     sc_locks := \<lparr>items = [\<lparr>sl_file = ''f'', sl_sentence = 0, sl_user = ''ann''\<rparr>,
       \<lparr>sl_file = ''f'', sl_sentence = 1, sl_user = ''bob''\<rparr>], cap = 8, elem_size = 1\<rparr>\<rparr>"

theorem lock_flag_lost_witness:
  "lock_held (sc_locks (write_close demo_two_writers ''f'' ''ann'' 0)) (''f'', 1) \<and>
    (\<exists>ctx'. perform_undo demo_os (write_close demo_two_writers ''f'' ''ann'' 0) ''f'' ''eve'' = (Ok (''Old.'', 1, 4), ctx'))"
proof -
  have inv: "ctx_inv demo_two_writers"
    using demo_inv by (simp add: ctx_inv_def demo_two_writers_def locks_inv_def array_wf_def lock_key_def)
  have lk: "ss_lookup (sc_state demo_two_writers) ''f'' = Some demo_file"
    using demo_lookup by (simp add: demo_two_writers_def)
  have held: "lock_held (sc_locks demo_two_writers) (''f'', 1)"
    by (simp add: lock_held_iff demo_two_writers_def lock_key_def)
  have d: "sc_disk demo_two_writers (undo_path demo_file) = Some ''Old.''"
    by (simp add: demo_two_writers_def demo_file_def)
  have w: "length (split_words ''Old.'') = 1" "length ''Old.'' = 4" by code_simp+
  have g: "rd_ok (os_env demo_os) (undo_path demo_file)" "wr_fault (os_env demo_os) (data_path demo_file) = NoFault"
    by (simp_all add: demo_os_def good_env_def)
  have c: "is_cstring ''Old.''" by (simp add: is_cstring_def)
  from lock_flag_lost [OF inv lk held _ d c demo_entry_paths g, of 0 "''ann''" "''eve''"] show ?thesis
    by (simp only: w)
qed


section \<open>Two commits at the same time\<close>

text \<open>A commit alone is its plan followed by the two files that are stored.\<close>

lemma commit_in_parts:
  "write_session_commit env d session file =
     (case commit_plan env d session file of
        None \<Rightarrow> (Fail (Some EAGAIN), d)
      | Some plan \<Rightarrow>
          (case store_text_atomic env d (undo_path file) (fst plan) of
             (d1, False) \<Rightarrow> (Fail None, d1)
           | (d1, True) \<Rightarrow>
               (case store_text_atomic env d1 (data_path file) (snd plan) of
                  (d2, False) \<Rightarrow> (Fail None, d2)
                | (d2, True) \<Rightarrow> (Ok (snd plan, count_words_in_text (snd plan), length (snd plan)), d2))))"
  by (auto simp: write_session_commit_def commit_plan_def Let_def split: option.split prod.split bool.split)

lemma commit_plan_text: "commit_plan env d session file = Some p \<Longrightarrow> fst p = file_text env d file"
  by (auto simp: commit_plan_def Let_def)

text \<open>From the plan to the answer, whatever the disk is by then.\<close>

lemma planned_run:
  assumes "ws t = Some w" "w_phase w = Planned p" and "wr_fault (os_env (os :: os)) (undo_path (w_view w)) = NoFault"
    and "wr_fault (os_env os) (data_path (w_view w)) = NoFault" and "entry_paths (w_view w)"
  shows "\<exists>d. ss_step\<^sup>*\<^sup>* (ctx, ws) (ctx\<lparr>sc_disk := d\<rparr>, ws(t := Some (w\<lparr>w_conn := commit_answer (w_conn w) (snd p), w_phase := Answered (snd p)\<rparr>))) \<and>
    d (data_path (w_view w)) = Some (snd p) \<and> d (undo_path (w_view w)) = Some (fst p)"
proof -
  let ?v = "w_view w"
  let ?d1 = "(sc_disk ctx)(tmp_path (undo_path ?v) := None, undo_path ?v := Some (fst p))"
  let ?d2 = "?d1(tmp_path (data_path ?v) := None, data_path ?v := Some (snd p))"
  have "ss_step (ctx, ws) (ctx\<lparr>sc_disk := ?d1\<rparr>, ws(t := Some (w\<lparr>w_phase := UndoStored p\<rparr>)))"
    using ss_step.store_undo [where ws = ws and t = t and w = w and os = os and d = ?d1, OF assms(1,2)] assms(3)
    by (simp add: store_text_atomic_def)
  moreover have "ss_step (ctx\<lparr>sc_disk := ?d1\<rparr>, ws(t := Some (w\<lparr>w_phase := UndoStored p\<rparr>)))
      (ctx\<lparr>sc_disk := ?d2\<rparr>, ws(t := Some (w\<lparr>w_phase := DataStored (snd p)\<rparr>)))"
    using ss_step.store_data [where ws = "ws(t := Some (w\<lparr>w_phase := UndoStored p\<rparr>))" and t = t and w = "w\<lparr>w_phase := UndoStored p\<rparr>" and os = os
        and d = ?d2 and ctx = "ctx\<lparr>sc_disk := ?d1\<rparr>" and p = p] assms(4)
    by (simp add: store_text_atomic_def)
  moreover have "ss_step (ctx\<lparr>sc_disk := ?d2\<rparr>, ws(t := Some (w\<lparr>w_phase := DataStored (snd p)\<rparr>)))
      (ctx\<lparr>sc_disk := ?d2\<rparr>, ws(t := Some (w\<lparr>w_conn := commit_answer (w_conn w) (snd p), w_phase := Answered (snd p)\<rparr>)))"
    using ss_step.answer [where ws = "ws(t := Some (w\<lparr>w_phase := DataStored (snd p)\<rparr>))" and t = t and w = "w\<lparr>w_phase := DataStored (snd p)\<rparr>"
        and ctx = "ctx\<lparr>sc_disk := ?d2\<rparr>"] by simp
  ultimately have "ss_step\<^sup>*\<^sup>* (ctx, ws) (ctx\<lparr>sc_disk := ?d2\<rparr>, ws(t := Some (w\<lparr>w_conn := commit_answer (w_conn w) (snd p), w_phase := Answered (snd p)\<rparr>)))"
    by (meson converse_rtranclp_into_rtranclp rtranclp.rtrancl_refl)
  moreover have "?d2 (undo_path ?v) = Some (fst p)" using assms(5) by (auto simp: entry_paths_def)
  ultimately show ?thesis by (intro exI [of _ ?d2]) simp
qed

text \<open>C40: Lost update. Let two clients edit two sentences of a document at the same time, which the locks allow. There is a run in which both commit, both
  are told that their commit succeeded, and the document is what the second one made of the text from before both: the edit of the first one is gone, and
  so it is from the undo text. Nothing keeps the second commit from reading the document before the first one has stored it.\<close>

theorem concurrent_commit_lost:
  assumes "ws t1 = Some w1" and "ws t2 = Some w2" and "t1 \<noteq> t2" and "w_phase w1 = Editing" and "w_phase w2 = Editing"
    and "w_file w1 = w_file w2" and "w_sentence w1 \<noteq> w_sentence w2"
    and "data_path (w_view w1) = data_path (w_view w2)" and "undo_path (w_view w1) = undo_path (w_view w2)"
    and "commit_plan (os_env (os :: os)) (sc_disk ctx) (w_session w1) (w_view w1) = Some (old1, new1)"
    and "commit_plan (os_env os) (sc_disk ctx) (w_session w2) (w_view w2) = Some (old2, new2)"
    and "wr_fault (os_env os) (undo_path (w_view w2)) = NoFault" and "wr_fault (os_env os) (data_path (w_view w2)) = NoFault"
    and "entry_paths (w_view w1)" and "entry_paths (w_view w2)"
  shows "\<exists>ctx' w1' w2'. ss_step\<^sup>*\<^sup>* (ctx, ws) (ctx', ws(t1 := Some w1', t2 := Some w2')) \<and>
    w_phase w1' = Answered new1 \<and> w_conn w1' = commit_answer (w_conn w1) new1 \<and>
    w_phase w2' = Answered new2 \<and> w_conn w2' = commit_answer (w_conn w2) new2 \<and>
    sc_disk ctx' (data_path (w_view w2)) = Some new2 \<and>
    sc_disk ctx' (undo_path (w_view w2)) = Some (file_text (os_env os) (sc_disk ctx) (w_view w2))"
proof -
  have t: "json_get_string commit_request ''type'' 64 = Some ''WRITE_COMMIT''" by code_simp
  let ?v1 = "w1\<lparr>w_phase := Planned (old1, new1)\<rparr>" and ?v2 = "w2\<lparr>w_phase := Planned (old2, new2)\<rparr>"
  have "ss_step (ctx, ws) (ctx, ws(t1 := Some ?v1))"
    by (rule ss_step.plan [where os = os and ws = ws and t = t1 and w = w1, OF assms(1,4) t]) (use assms(10) in simp)
  moreover have "ss_step (ctx, ws(t1 := Some ?v1)) (ctx, ws(t1 := Some ?v1, t2 := Some ?v2))"
    by (rule ss_step.plan [where os = os and t = t2 and w = w2 and ws = "ws(t1 := Some ?v1)", OF _ assms(5) t]) (use assms(2,3,11) in simp_all)
  ultimately have plans: "ss_step\<^sup>*\<^sup>* (ctx, ws) (ctx, ws(t1 := Some ?v1, t2 := Some ?v2))"
    by (meson converse_rtranclp_into_rtranclp rtranclp.rtrancl_refl)
  let ?u1 = "?v1\<lparr>w_conn := commit_answer (w_conn w1) new1, w_phase := Answered new1\<rparr>"
  let ?u2 = "?v2\<lparr>w_conn := commit_answer (w_conn w2) new2, w_phase := Answered new2\<rparr>"
  obtain d1 where first: "ss_step\<^sup>*\<^sup>* (ctx, ws(t1 := Some ?v1, t2 := Some ?v2))
      (ctx\<lparr>sc_disk := d1\<rparr>, (ws(t1 := Some ?v1, t2 := Some ?v2))(t1 := Some ?u1))"
    using planned_run [of "ws(t1 := Some ?v1, t2 := Some ?v2)" t1 ?v1 "(old1, new1)" os ctx] assms(3,8,9,12-14) by auto
  have same: "(ws(t1 := Some ?v1, t2 := Some ?v2))(t1 := Some ?u1) = ws(t1 := Some ?u1, t2 := Some ?v2)" using assms(3) by auto
  obtain d2 where second: "ss_step\<^sup>*\<^sup>* (ctx\<lparr>sc_disk := d1\<rparr>, ws(t1 := Some ?u1, t2 := Some ?v2))
      (ctx\<lparr>sc_disk := d2\<rparr>, (ws(t1 := Some ?u1, t2 := Some ?v2))(t2 := Some ?u2))"
    and disk: "d2 (data_path (w_view w2)) = Some new2" "d2 (undo_path (w_view w2)) = Some old2"
    using planned_run [of "ws(t1 := Some ?u1, t2 := Some ?v2)" t2 ?v2 "(old2, new2)" os "ctx\<lparr>sc_disk := d1\<rparr>"] assms(12,13,15) by auto
  have "old2 = file_text (os_env os) (sc_disk ctx) (w_view w2)" using commit_plan_text [OF assms(11)] by simp
  moreover have "ss_step\<^sup>*\<^sup>* (ctx, ws) (ctx\<lparr>sc_disk := d2\<rparr>, ws(t1 := Some ?u1, t2 := Some ?u2))"
    using plans first second unfolding same fun_upd_upd by (meson rtranclp_trans)
  ultimately show ?thesis using disk
    by (intro exI [of _ "ctx\<lparr>sc_disk := d2\<rparr>"] exI [of _ ?u1] exI [of _ ?u2]) simp
qed

text \<open>The run from the start: ann turns \<open>B.\<close> into \<open>X. Y.\<close>, bob turns \<open>C.\<close> into \<open>Z.\<close>, both are told \<open>OK\<close>, and the document is \<open>A. B. Z.\<close>\<close>

theorem concurrent_commit_lost_witness:
  "\<exists>ctx ws w1 w2. ss_step\<^sup>*\<^sup>* (demo_ctx, \<lambda>_. None) (ctx, ws) \<and> ws 0 = Some w1 \<and> ws 1 = Some w2 \<and>
    json_get_string (last (outbox (w_conn w1))) ''step'' 64 = Some ''COMMIT'' \<and> json_get_string (last (outbox (w_conn w1))) ''status'' 64 = Some ''OK'' \<and>
    json_get_string (last (outbox (w_conn w2))) ''step'' 64 = Some ''COMMIT'' \<and> json_get_string (last (outbox (w_conn w2))) ''status'' 64 = Some ''OK'' \<and>
    sc_disk ctx ''files/f'' = Some (''A.'' @ NEWLINE # ''B.'' @ NEWLINE # ''Z.'')"
proof -
  define a where "a = opened demo_ctx ''ann'' 1"
  define b where "b = opened (fst a) ''bob'' 2"
  define ea where "ea = edited (fst b, snd a) ''ann'' ''X. Y.''"
  define eb where "eb = edited b ''bob'' ''Z.''"
  note defs = a_def b_def ea_def eb_def
  have 1: "\<not> isl (snd (write_open demo_os demo_ctx (demo_conn []) ''f'' ''ann'' 1))" by code_simp
  have 2: "\<not> isl (snd (write_open demo_os (fst a) (demo_conn []) ''f'' ''bob'' 2))" unfolding defs by code_simp
  have 3: "fst (write_message demo_os (fst b) (snd (snd (snd a))) ''f'' ''ann'' (fst (snd a)) (fst (snd (snd a))) (edit_request ''X. Y.''))"
    "fst (write_message demo_os (fst b) (snd (snd (snd b))) ''f'' ''bob'' (fst (snd b)) (fst (snd (snd b))) (edit_request ''Z.''))"
    unfolding defs by code_simp+
  have t: "json_get_string (edit_request ''X. Y.'') ''type'' 64 = Some ''WRITE_REPLACE''" "json_get_string (edit_request ''Z.'') ''type'' 64 = Some ''WRITE_REPLACE''"
    by code_simp+
  let ?new1 = "''A.'' @ NEWLINE # ''X.'' @ NEWLINE # ''Y.'' @ NEWLINE # ''C.''" and ?new2 = "''A.'' @ NEWLINE # ''B.'' @ NEWLINE # ''Z.''"
  have plans: "commit_plan good_env (sc_disk (fst b)) (fst ea) (fst (snd a)) = Some (''A. B. C.'', ?new1)"
    "commit_plan good_env (sc_disk (fst b)) (fst eb) (fst (snd b)) = Some (''A. B. C.'', ?new2)"
    unfolding defs by code_simp+
  have paths: "data_path (fst (snd a)) = ''files/f''" "data_path (fst (snd b)) = ''files/f''"
    "undo_path (fst (snd a)) = ''undo/f.undo''" "undo_path (fst (snd b)) = ''undo/f.undo''"
    "entry_paths (fst (snd a))" "entry_paths (fst (snd b))" unfolding defs by code_simp+
  have said: "json_get_string (last (outbox (commit_answer (snd ea) ?new1))) ''step'' 64 = Some ''COMMIT''"
    "json_get_string (last (outbox (commit_answer (snd ea) ?new1))) ''status'' 64 = Some ''OK''"
    "json_get_string (last (outbox (commit_answer (snd eb) ?new2))) ''step'' 64 = Some ''COMMIT''"
    "json_get_string (last (outbox (commit_answer (snd eb) ?new2))) ''status'' 64 = Some ''OK''"
    unfolding defs by code_simp+
  let ?a = "open_writer ''ann'' 1 (fst (snd a))" and ?b = "open_writer ''bob'' 2 (fst (snd b))"
  have r1: "ss_step\<^sup>*\<^sup>* (demo_ctx, \<lambda>_. None) (fst a, (\<lambda>_. None)(0 := Some (?a (snd (snd a)))))"
    using opened_run [OF 1, where t = 0 and ws = "\<lambda>_. None" and ctx' = "fst a" and view = "fst (snd a)" and s = "fst (snd (snd a))" and c = "snd (snd (snd a))"]
    by (simp add: a_def)
  have r2: "ss_step\<^sup>*\<^sup>* (fst a, (\<lambda>_. None)(0 := Some (?a (snd (snd a))))) (fst b, (\<lambda>_. None)(0 := Some (?a (snd (snd a))), 1 := Some (?b (snd (snd b)))))"
    using opened_run [OF 2, where t = 1 and ws = "(\<lambda>_. None)(0 := Some (?a (snd (snd a))))" and ctx' = "fst b" and view = "fst (snd b)"
        and s = "fst (snd (snd b))" and c = "snd (snd (snd b))"]
    by (simp add: b_def)
  have r3: "ss_step\<^sup>*\<^sup>* (fst b, (\<lambda>_. None)(0 := Some (?a (snd (snd a))), 1 := Some (?b (snd (snd b))))) (fst b, (\<lambda>_. None)(0 := Some (?a ea), 1 := Some (?b (snd (snd b)))))"
    using edited_run [where t = 0 and ws = "(\<lambda>_. None)(0 := Some (?a (snd (snd a))), 1 := Some (?b (snd (snd b))))" and ctx = "fst b" and user = "''ann''" and i = 1
        and view = "fst (snd a)" and s = "fst (snd (snd a))" and c = "snd (snd (snd a))" and new = "''X. Y.''" and s' = "fst ea" and c' = "snd ea", OF _ _ 3(1) t(1)]
    by (simp add: ea_def fun_upd_twist)
  let ?ws = "(\<lambda>_. None)(0 := Some (?a ea), 1 := Some (?b eb))"
  have r4: "ss_step\<^sup>*\<^sup>* (fst b, (\<lambda>_. None)(0 := Some (?a ea), 1 := Some (?b (snd (snd b))))) (fst b, ?ws)"
    using edited_run [where t = 1 and ws = "(\<lambda>_. None)(0 := Some (?a ea), 1 := Some (?b (snd (snd b))))" and ctx = "fst b" and user = "''bob''" and i = 2
        and view = "fst (snd b)" and s = "fst (snd (snd b))" and c = "snd (snd (snd b))" and new = "''Z.''" and s' = "fst eb" and c' = "snd eb", OF _ _ 3(2) t(2)]
    by (simp add: eb_def)
  have "\<exists>ctx' w1' w2'. ss_step\<^sup>*\<^sup>* (fst b, ?ws) (ctx', ?ws(0 := Some w1', 1 := Some w2')) \<and>
    w_phase w1' = Answered ?new1 \<and> w_conn w1' = commit_answer (w_conn (?a ea)) ?new1 \<and>
    w_phase w2' = Answered ?new2 \<and> w_conn w2' = commit_answer (w_conn (?b eb)) ?new2 \<and>
    sc_disk ctx' (data_path (w_view (?b eb))) = Some ?new2 \<and> sc_disk ctx' (undo_path (w_view (?b eb))) = Some (file_text (os_env demo_os) (sc_disk (fst b)) (w_view (?b eb)))"
    by (rule concurrent_commit_lost [where ws = ?ws and ?t1.0 = 0 and ?t2.0 = 1 and os = demo_os])
      (simp_all add: open_writer_def plans paths demo_os_def, simp_all add: good_env_def)
  then obtain ctx' w1 w2 where r5: "ss_step\<^sup>*\<^sup>* (fst b, ?ws) (ctx', ?ws(0 := Some w1, 1 := Some w2))"
    "w_conn w1 = commit_answer (snd ea) ?new1" "w_conn w2 = commit_answer (snd eb) ?new2" "sc_disk ctx' ''files/f'' = Some ?new2"
    by (auto simp: open_writer_def paths)
  have "ss_step\<^sup>*\<^sup>* (demo_ctx, \<lambda>_. None) (ctx', ?ws(0 := Some w1, 1 := Some w2))" using r1 r2 r3 r4 r5(1) by (meson rtranclp_trans)
  then show ?thesis using r5(2-4) said
    by (intro exI [of _ ctx'] exI [of _ "?ws(0 := Some w1, 1 := Some w2)"] exI [of _ w1] exI [of _ w2]) simp
qed

end
