(* ===== verification/SS_Paths.thy ===== *)
theory SS_Paths
  imports C_Lib Common_Error
begin

text \<open>
  How \<^verbatim>\<open>ss/ss_main.c\<close> turns its command-line argument into a storage directory: a path
  below \<^verbatim>\<open>/temp\<close> and a relative path are placed in the workspace, another absolute path
  is taken as it is. A \<^verbatim>\<open>NULL\<close> workspace root does not occur.
\<close>

definition path_uses_temp_alias :: "path \<Rightarrow> bool" where
  "path_uses_temp_alias p \<longleftrightarrow> take 5 p = ''/temp'' \<and> (length p = 5 \<or> p ! 5 = CHR ''/'')"

text \<open>The resolved path and \<^verbatim>\<open>used_workspace_base\<close>.\<close>

definition resolve_storage_directory :: "path \<Rightarrow> path \<Rightarrow> nat \<Rightarrow> (path \<times> bool) res" where
  "resolve_storage_directory workspace_root requested resolved_len =
     (if resolved_len = 0 then Fail (Some EINVAL)
      else if requested \<noteq> [] \<and> hd requested = CHR ''/'' then
        if path_uses_temp_alias requested then
          if workspace_root = [] then Fail (Some EINVAL)
          else
            let relative = (if tl requested = [] then ''temp'' else tl requested);
                p = workspace_root @ ''/'' @ relative in
            if resolved_len \<le> length p then Fail (Some ENAMETOOLONG) else Ok (p, True)
        else if resolved_len \<le> length requested then Fail (Some ENAMETOOLONG) else Ok (requested, False)
      else if workspace_root = [] then Fail (Some EINVAL)
      else
        let p = workspace_root @ ''/'' @ requested in
        if resolved_len \<le> length p then Fail (Some ENAMETOOLONG) else Ok (p, True))"

definition join_path :: "nat \<Rightarrow> path \<Rightarrow> string \<Rightarrow> path res" where
  "join_path dst_sz base suff =
     (if dst_sz = 0 then Fail (Some EINVAL)
      else if dst_sz \<le> length base + length suff then Fail (Some ENAMETOOLONG)
      else Ok (base @ suff))"

text \<open>Where the storage directory lies. A resolved path fits its buffer, and it lies below
  the workspace exactly when \<^verbatim>\<open>used_workspace_base\<close> is reported; the only paths outside it
  are absolute paths the operator gave that do not start with the component \<^verbatim>\<open>/temp\<close>.\<close>

theorem storage_directory_resolved:
  assumes "resolve_storage_directory root req n = Ok (p, inside)"
  shows "length p < n \<and> (inside \<longrightarrow> prefix (root @ ''/'') p \<and> root \<noteq> []) \<and>
    (\<not> inside \<longrightarrow> p = req \<and> hd req = CHR ''/'' \<and> \<not> path_uses_temp_alias req)"
  using assms
  by (auto simp: resolve_storage_directory_def Let_def split: if_splits)

theorem storage_directory_resolved_witness:
  "resolve_storage_directory ''/ws'' ''/temp/a'' 100 = Ok (''/ws/temp/a'', True) \<and>
    prefix ''/ws/'' ''/ws/temp/a''"
proof -
  have r: "resolve_storage_directory ''/ws'' ''/temp/a'' 100 = Ok (''/ws/temp/a'', True)"
    by (simp add: resolve_storage_directory_def path_uses_temp_alias_def)
  from storage_directory_resolved [OF r] r show ?thesis by simp
qed

end
