(* ===== verification/SS_Main.thy ===== *)
theory SS_Main
  imports SS_Paths SS_Props
begin

text \<open>
  The main program of the storage server, \<^verbatim>\<open>main\<close> of \<^verbatim>\<open>ss/ss_main.c\<close>: the storage directory, the table of
  files, the registration at the name manager, and the loop that serves the name manager and the data
  connections. What the system answers at start is the record \<open>boot\<close>; a round of the loop is what
  \<^verbatim>\<open>select\<close> reports. A data connection is served in one step here; \<open>SS_Concurrency\<close> interleaves them.
\<close>

section \<open>Directories\<close>

definition PATH_MAX :: nat where "PATH_MAX = 4096"

definition ensure_directory :: "stat_result \<Rightarrow> errno option \<Rightarrow> unit res" where
  "ensure_directory st mkdir_error =
     (case st of
        StatDir \<Rightarrow> Ok ()
      | StatOther \<Rightarrow> Fail (Some ENOTDIR)
      | StatFail \<Rightarrow> (case mkdir_error of Some e \<Rightarrow> if e \<noteq> EEXIST then Fail (Some e) else Ok () | None \<Rightarrow> Ok ()))"

text \<open>\<^verbatim>\<open>dirname\<close> of the C library.\<close>

definition strip_slashes :: "path \<Rightarrow> path" where
  "strip_slashes p = rev (dropWhile (\<lambda>c. c = CHR ''/'') (rev p))"

definition dirname :: "path \<Rightarrow> path" where
  "dirname p =
     (let q = strip_slashes p; r = rev (dropWhile (\<lambda>c. c \<noteq> CHR ''/'') (rev q)); s = strip_slashes r in
      if p = [] then ''.'' else if q = [] then ''/'' else if r = [] then ''.'' else if s = [] then ''/'' else s)"

text \<open>The argument is what the link \<^verbatim>\<open>/proc/self/exe\<close> contains.\<close>

definition get_workspace_root :: "path option \<Rightarrow> nat \<Rightarrow> path option" where
  "get_workspace_root exe out_len =
     (case exe of
        None \<Rightarrow> None
      | Some exe_path \<Rightarrow>
          if out_len = 0 \<or> PATH_MAX - 1 \<le> length exe_path \<or> exe_path = [] then None
          else let root = dirname (dirname exe_path) in if out_len \<le> length root then None else Some root)"

section \<open>Start\<close>

record boot =
  bo_exe :: "path option"
  bo_cwd :: "path option"
  bo_readdir :: "path \<Rightarrow> string list option"
  bo_log :: "path \<Rightarrow> bool"
  bo_connect :: "string \<Rightarrow> string \<Rightarrow> conn option"
  bo_listen :: "string \<Rightarrow> bool"
  bo_junk :: string
  bo_sizes :: "nat \<times> nat \<times> nat"

text \<open>The messages on standard error are left out; \<open>None\<close> is the end of the program with exit code 1.\<close>

definition workspace_root :: "boot \<Rightarrow> path" where
  "workspace_root b =
     (case get_workspace_root (bo_exe b) PATH_MAX of
        Some root \<Rightarrow> root
      | None \<Rightarrow> (case bo_cwd b of Some cwd \<Rightarrow> if length cwd < PATH_MAX then cwd else [] | None \<Rightarrow> []))"

text \<open>The directory of the logs and the two log files.\<close>

definition open_logs :: "os \<Rightarrow> boot \<Rightarrow> path \<Rightarrow> bool" where
  "open_logs os b storage =
     (case join_path PATH_MAX storage ''/logs'' of
        Fail e \<Rightarrow> False
      | Ok log_dir \<Rightarrow>
          (case ensure_directory (os_stat os log_dir) (os_mkdir os log_dir) of
             Fail e \<Rightarrow> False
           | Ok _ \<Rightarrow>
               (case (join_path PATH_MAX log_dir ''/ss.log'', join_path PATH_MAX log_dir ''/requests.log'') of
                  (Ok general_log, Ok request_log) \<Rightarrow> bo_log b general_log \<and> bo_log b request_log
                | _ \<Rightarrow> False)))"

text \<open>The table of files, and empty tables of tickets and locks.\<close>

definition open_storage :: "os \<Rightarrow> boot \<Rightarrow> path \<Rightarrow> disk \<Rightarrow> ss_context option" where
  "open_storage os b requested d =
     (case resolve_storage_directory (workspace_root b) requested PATH_MAX of
        Fail e \<Rightarrow> None
      | Ok (dir, used_workspace_base) \<Rightarrow>
          (case ss_state_init (os_env os) (os_stat os) (os_mkdir os) d (bo_readdir b) dir (fst (bo_sizes b)) of
             None \<Rightarrow> None
           | Some st \<Rightarrow>
               if open_logs os b dir then
                 Some \<lparr>sc_state = st, sc_disk = d, sc_tickets = ticket_table_init (fst (snd (bo_sizes b))),
                       sc_locks = array_init (snd (snd (bo_sizes b))), nm_conn = \<lparr>inbox = [], outbox = [], send_limit = 0\<rparr>\<rparr>
               else None))"

text \<open>The list of names is followed by junk when its terminator has been overwritten.\<close>

definition sent_file_list :: "boot \<Rightarrow> ss_context \<Rightarrow> string" where
  "sent_file_list b ctx = (case build_file_list ctx 1024 of (names, terminated) \<Rightarrow> if terminated then names else names @ bo_junk b)"

definition register_server :: "os \<Rightarrow> boot \<Rightarrow> string \<Rightarrow> string \<Rightarrow> string \<Rightarrow> ss_context \<Rightarrow> ss_context option" where
  "register_server os b ss_id public_host data_port ctx =
     (case register_payload (buf 64 ss_id) (buf 64 public_host) ''0'' (buf 16 data_port) (sent_file_list b ctx) of
        None \<Rightarrow> None
      | Some payload \<Rightarrow>
          (case conn_send (nm_conn ctx) payload of
             (False, c) \<Rightarrow> None
           | (True, c) \<Rightarrow> (case register_wait os (ctx\<lparr>nm_conn := c\<rparr>) (inbox c) of (True, ctx1) \<Rightarrow> Some ctx1 | (False, _) \<Rightarrow> None)))"

text \<open>The arguments after the program's name.\<close>

definition ss_start :: "os \<Rightarrow> boot \<Rightarrow> string list \<Rightarrow> disk \<Rightarrow> ss_context option" where
  "ss_start os b args d =
     (case args of
        [ss_id, public_host, data_port, nm_host, nm_port, requested] \<Rightarrow>
          (case open_storage os b requested d of
             None \<Rightarrow> None
           | Some ctx \<Rightarrow>
               (case bo_connect b nm_host nm_port of
                  None \<Rightarrow> None
                | Some c \<Rightarrow>
                    (case register_server os b ss_id public_host data_port (ctx\<lparr>nm_conn := c\<rparr>) of
                       None \<Rightarrow> None
                     | Some ctx1 \<Rightarrow> if bo_listen b data_port then Some ctx1 else None)))
      | _ \<Rightarrow> None)"

section \<open>The loop\<close>

text \<open>
  \<open>Ready nm data\<close>: whether the name manager's connection is readable, and the data connection that is
  accepted and gets a thread. The other fields are what the system and other servers answer in the round.
\<close>

datatype event = Interrupted | SelectFails | Ready bool "conn option"

record round =
  ro_os :: os
  ro_remote :: remote
  ro_event :: event

text \<open>The context, the data connections served, and whether the program has left the loop.\<close>

fun ss_loop :: "round list \<Rightarrow> ss_context \<Rightarrow> ss_context \<times> conn list \<times> bool" where
  "ss_loop [] ctx = (ctx, [], False)"
| "ss_loop (r # rs) ctx =
     (case ro_event r of
        Interrupted \<Rightarrow> ss_loop rs ctx
      | SelectFails \<Rightarrow> (ctx, [], True)
      | Ready nm data \<Rightarrow>
          (case (if nm then process_nm_command (ro_os r) (ro_remote r) ctx else (True, ctx)) of
             (False, ctx1) \<Rightarrow> (ctx1, [], True)
           | (True, ctx1) \<Rightarrow>
               (case data of
                  None \<Rightarrow> ss_loop rs ctx1
                | Some c \<Rightarrow>
                    (case handle_data_client (ro_os r) ctx1 c of
                       (ctx2, c') \<Rightarrow> (case ss_loop rs ctx2 of (ctx3, cs, ended) \<Rightarrow> (ctx3, c' # cs, ended))))))"

section \<open>The directory of the executable\<close>

lemma strip_slashes_plain: "p \<noteq> [] \<Longrightarrow> last p \<noteq> CHR ''/'' \<Longrightarrow> strip_slashes p = p"
  by (cases p rule: rev_cases) (simp_all add: strip_slashes_def)

lemma dirname_plain:
  assumes "q \<noteq> []" and "last q \<noteq> CHR ''/''" and "c \<noteq> []" and "CHR ''/'' \<notin> set c"
  shows "dirname (q @ CHR ''/'' # c) = q"
proof -
  have "last c \<noteq> CHR ''/''" using assms(3,4) by (metis last_in_set)
  then have l: "last (q @ CHR ''/'' # c) \<noteq> CHR ''/''" using assms(3) by simp
  have "strip_slashes (q @ CHR ''/'' # c) = q @ CHR ''/'' # c" using l by (intro strip_slashes_plain) simp_all
  moreover have "rev (dropWhile (\<lambda>x. x \<noteq> CHR ''/'') (rev (q @ CHR ''/'' # c))) = q @ ''/''"
    using assms(4) by (subst rev_append, subst rev.simps, subst append_assoc, subst dropWhile_append2) auto
  moreover have "strip_slashes (q @ ''/'') = q"
    using strip_slashes_plain [OF assms(1,2)] by (simp add: strip_slashes_def)
  ultimately show ?thesis using assms(1) by (simp add: dirname_def Let_def)
qed

text \<open>The workspace is the directory above the one the program lies in.\<close>

lemma workspace_of_program:
  assumes "root \<noteq> []" and "last root \<noteq> CHR ''/''" and "bin \<noteq> []" "CHR ''/'' \<notin> set bin" and "prog \<noteq> []" "CHR ''/'' \<notin> set prog"
    and "length (root @ ''/'' @ bin @ ''/'' @ prog) < PATH_MAX - 1"
  shows "get_workspace_root (Some (root @ ''/'' @ bin @ ''/'' @ prog)) PATH_MAX = Some root"
proof -
  have "last bin \<noteq> CHR ''/''" using assms(3,4) by (metis last_in_set)
  then have "dirname ((root @ CHR ''/'' # bin) @ CHR ''/'' # prog) = root @ CHR ''/'' # bin"
    using assms by (intro dirname_plain) simp_all
  moreover have "dirname (root @ CHR ''/'' # bin) = root" by (rule dirname_plain) (use assms in simp_all)
  ultimately show ?thesis using assms(7) by (simp add: get_workspace_root_def PATH_MAX_def)
qed

section \<open>The table after the start\<close>

text \<open>The name of the document a metadata file stands for.\<close>

definition meta_name :: "string \<Rightarrow> name option" where
  "meta_name ent =
     (if ent \<noteq> [] \<and> hd ent = CHR ''.'' then None
      else case split_last_dot ent of
        None \<Rightarrow> None
      | Some (stem, dot) \<Rightarrow> if dot = ''.meta'' then Some (buf SS_NAME_MAX (buf SS_NAME_MAX stem)) else None)"

lemma load_meta_name: "sf_name (load_meta_loop bytes f) = sf_name f"
proof (induction bytes f rule: load_meta_loop.induct)
  case (1 bytes f)
  have "sf_name (load_meta_line l f) = sf_name f" for l f by (simp add: load_meta_line_def set_meta_def Let_def)
  with 1 show ?case by (subst load_meta_loop.simps) simp
qed

lemma load_entry_cases:
  obtains "load_entry env d ent st = st"
  | n f st' where "meta_name ent = Some n" "sf_name f = n" "insert_sorted env st f = Some st'" "load_entry env d ent st = st'"
proof (cases "meta_name ent")
  case None
  then have "load_entry env d ent st = st" by (auto simp: meta_name_def load_entry_def split: option.splits if_splits prod.splits)
  then show thesis by (rule that(1))
next
  case (Some n)
  then obtain stem where e: "\<not> (ent \<noteq> [] \<and> hd ent = CHR ''.'')" "split_last_dot ent = Some (stem, ''.meta'')"
    "n = buf SS_NAME_MAX (buf SS_NAME_MAX stem)"
    by (auto simp: meta_name_def split: option.splits if_splits prod.splits)
  let ?file = "fill_paths st (buf SS_NAME_MAX stem) (empty_ss_file\<lparr>sf_name := n\<rparr>)"
  show thesis
  proof (cases "load_meta_file env d ?file")
    case None
    then show thesis using e that(1) by (simp add: load_entry_def Let_def)
  next
    case file1: (Some file1)
    let ?f = "(recount env d file1)\<lparr>lock_active := False, lock_sentence := -1\<rparr>"
    have "sf_name file1 = n"
      using file1 by (auto simp: load_meta_file_def load_meta_name fill_paths_def split: option.splits if_splits)
    then have f: "sf_name ?f = n" by (simp add: recount_def split: option.splits)
    have "load_entry env d ent st = (case insert_sorted env st ?f of None \<Rightarrow> st | Some st' \<Rightarrow> st')"
      using e file1 by (auto simp: load_entry_def Let_def)
    then show thesis using that(1) that(2) [OF Some f] by (cases "insert_sorted env st ?f") simp_all
  qed
qed

lemma load_entry_keeps:
  assumes "ss_inv st" and "sf_name ` set (items (ss_files st)) \<subseteq> N" and "\<And>n. meta_name ent = Some n \<Longrightarrow> n \<notin> N"
  shows "ss_inv (load_entry env d ent st) \<and>
    sf_name ` set (items (ss_files (load_entry env d ent st))) \<subseteq> N \<union> set_option (meta_name ent)"
proof (cases rule: load_entry_cases [of env d ent st])
  case (2 n f st')
  have "ss_lookup st (sf_name f) = None" using assms(2,3) 2 by (auto simp: ss_lookup_None_iff)
  then obtain i where "ss_state_find st (sf_name f) = (None, i)"
    using assms(1) by (auto elim!: ss_state_find_cases [where n = "sf_name f"])
  note ins = insert_sorted_at [OF assms(1) this 2(3)]
  have "sf_name ` set (items (ss_files st')) \<subseteq> N \<union> {n}"
    using assms(2) 2 by (auto simp: ins(1) set_insert_at)
  with 2 ins(2) show ?thesis by simp
qed (use assms in auto)

lemma load_entries_keep:
  assumes "ss_inv st" and "sf_name ` set (items (ss_files st)) \<subseteq> N" and "distinct (List.map_filter meta_name ents)"
    and "N \<inter> set (List.map_filter meta_name ents) = {}"
  shows "ss_inv (fold (load_entry env d) ents st) \<and>
    sf_name ` set (items (ss_files (fold (load_entry env d) ents st))) \<subseteq> N \<union> set (List.map_filter meta_name ents)"
  using assms
proof (induction ents arbitrary: st N)
  case (Cons e ents)
  have new: "n \<notin> N" if "meta_name e = Some n" for n using that Cons.prems(4) by (auto simp: List.map_filter_simps)
  note step = load_entry_keeps [where env = env and d = d, OF Cons.prems(1,2) new]
  have "distinct (List.map_filter meta_name ents)" "(N \<union> set_option (meta_name e)) \<inter> set (List.map_filter meta_name ents) = {}"
    using Cons.prems(3,4) by (auto simp: List.map_filter_simps split: option.splits)
  from Cons.IH [OF conjunct1 [OF step] conjunct2 [OF step] this] show ?case
    by (auto simp: List.map_filter_simps split: option.splits)
qed simp

text \<open>Directory entries are distinct; names the server has created fit its buffers.\<close>

definition listing_ok :: "string list \<Rightarrow> bool" where
  "listing_ok ents \<longleftrightarrow> distinct ents \<and> (\<forall>e \<in> set ents. is_cstring e \<and> length e < SS_NAME_MAX + 5)"

lemma split_last_dot_append:
  assumes "split_last_dot s = Some (stem, dot)"
  shows "s = stem @ dot"
proof -
  let ?ext = "rev (takeWhile (\<lambda>c. c \<noteq> CHR ''.'') (rev s))"
  have "rev s = takeWhile (\<lambda>c. c \<noteq> CHR ''.'') (rev s) @ dropWhile (\<lambda>c. c \<noteq> CHR ''.'') (rev s)" by simp
  moreover obtain t where "dropWhile (\<lambda>c. c \<noteq> CHR ''.'') (rev s) = CHR ''.'' # t"
    using assms by (cases "dropWhile (\<lambda>c. c \<noteq> CHR ''.'') (rev s)")
      (auto simp: split_last_dot_def dropWhile_eq_Nil_conv dropWhile_eq_Cons_conv split: if_splits)
  ultimately have s: "s = rev t @ CHR ''.'' # ?ext" by (metis append.assoc append_Cons append_Nil rev.simps(2) rev_append rev_rev_ident)
  have "take (length s - length ?ext - 1) s = rev t" by (subst (3) s) (use arg_cong [OF s, of length] in simp)
  then show ?thesis using assms s by (auto simp: split_last_dot_def Let_def split: if_splits)
qed

lemma meta_name_entry:
  assumes "is_cstring e" and "length e < SS_NAME_MAX + 5" and "meta_name e = Some n"
  shows "e = n @ ''.meta''"
proof -
  obtain stem where s: "split_last_dot e = Some (stem, ''.meta'')" "n = buf SS_NAME_MAX (buf SS_NAME_MAX stem)"
    using assms(3) by (auto simp: meta_name_def split: if_splits option.splits)
  then have e: "e = stem @ ''.meta''" by (simp add: split_last_dot_append)
  then have "is_cstring stem" "length stem < SS_NAME_MAX" using assms(1,2) by (simp_all add: is_cstring_def)
  then show ?thesis using s(2) e by (simp add: buf_id)
qed

lemma listing_names: "listing_ok ents \<Longrightarrow> distinct (List.map_filter meta_name ents)"
proof (induction ents)
  case (Cons e ents)
  have "n \<notin> set (List.map_filter meta_name ents)" if "meta_name e = Some n" for n
  proof
    assume "n \<in> set (List.map_filter meta_name ents)"
    then obtain e' where "e' \<in> set ents" "meta_name e' = Some n" by (auto simp: List.map_filter_def)
    with that Cons.prems show False using meta_name_entry [of e n] meta_name_entry [of e' n] by (auto simp: listing_ok_def)
  qed
  with Cons show ?case by (auto simp: listing_ok_def List.map_filter_simps split: option.splits)
qed (simp add: List.map_filter_simps)

lemma open_storage_ready:
  assumes "\<And>p ents. bo_readdir b p = Some ents \<Longrightarrow> listing_ok ents" and "open_storage os b requested d = Some ctx"
  shows "ctx_inv ctx" and "sc_disk ctx = d" and "items (sc_locks ctx) = []" and "items (sc_tickets ctx) = []"
proof -
  obtain dir st where st: "ss_state_init (os_env os) (os_stat os) (os_mkdir os) d (bo_readdir b) dir (fst (bo_sizes b)) = Some st"
    and ctx: "ctx = \<lparr>sc_state = st, sc_disk = d, sc_tickets = ticket_table_init (fst (snd (bo_sizes b))),
      sc_locks = array_init (snd (snd (bo_sizes b))), nm_conn = \<lparr>inbox = [], outbox = [], send_limit = 0\<rparr>\<rparr>"
    using assms(2) by (auto simp: open_storage_def split: res.splits option.splits if_splits)
  obtain p ents st0 where l: "bo_readdir b p = Some ents" "st = fold (load_entry (os_env os) d) ents st0"
    "ss_files st0 = array_init (fst (bo_sizes b))"
    using st by (auto simp: ss_state_init_def ss_state_load_def Let_def split: if_splits option.splits)
  have "ss_inv st0" "sf_name ` set (items (ss_files st0)) \<subseteq> {}"
    using l(3) by (simp_all add: ss_inv_def array_wf_def names_sorted_def array_init_def)
  from load_entries_keep [OF this listing_names [OF assms(1) [OF l(1)]]] have "ss_inv st" using l(2) by simp
  with ctx show "ctx_inv ctx" "sc_disk ctx = d" "items (sc_locks ctx) = []" "items (sc_tickets ctx) = []"
    by (simp_all add: ctx_inv_def locks_inv_def array_wf_init ticket_table_init_def) (simp_all add: array_init_def)
qed

section \<open>Registration and the loop\<close>

lemma register_wait_keeps:
  "ctx_inv ctx \<Longrightarrow> ctx_inv (snd (register_wait os ctx msgs)) \<and> sc_disk (snd (register_wait os ctx msgs)) = sc_disk ctx \<and>
     sc_locks (snd (register_wait os ctx msgs)) = sc_locks ctx"
proof (induction msgs arbitrary: ctx)
  case (Cons m msgs)
  have t: "ctx_inv (snd (handle_nm_ticket_command os ctx m))" "sc_disk (snd (handle_nm_ticket_command os ctx m)) = sc_disk ctx"
    "sc_locks (snd (handle_nm_ticket_command os ctx m)) = sc_locks ctx"
    by (rule ticket_command_inv [OF Cons.prems]) (simp_all add: handle_nm_ticket_command_def split: option.split)
  obtain go ctx' where g: "handle_nm_ticket_command os ctx m = (go, ctx')" by fastforce
  note ih = Cons.IH [OF t(1)] Cons.IH [OF Cons.prems]
  show ?case
  proof (cases "json_get_string m ''status'' 16")
    case None
    then show ?thesis using ih t g by (cases "json_get_string m ''type'' 64 = Some ''NM_TICKET''"; cases go) simp_all
  qed (use Cons.prems in simp)
qed simp

lemma register_server_keeps:
  assumes "ctx_inv ctx" and "register_server os b i h p ctx = Some ctx'"
  shows "ctx_inv ctx'" and "sc_disk ctx' = sc_disk ctx" and "sc_locks ctx' = sc_locks ctx"
proof -
  obtain c where c: "register_wait os (ctx\<lparr>nm_conn := c\<rparr>) (inbox c) = (True, ctx')"
    using assms(2) by (auto simp: register_server_def split: option.splits prod.splits bool.splits)
  with register_wait_keeps [of "ctx\<lparr>nm_conn := c\<rparr>" os "inbox c"] assms(1)
  show "ctx_inv ctx'" "sc_disk ctx' = sc_disk ctx" "sc_locks ctx' = sc_locks ctx" by simp_all
qed

lemma ss_start_ready:
  assumes "\<And>p ents. bo_readdir b p = Some ents \<Longrightarrow> listing_ok ents" and "ss_start os b args d = Some ctx"
  shows "ctx_inv ctx" and "sc_disk ctx = d" and "items (sc_locks ctx) = []"
proof -
  obtain requested ctx0 c i h p where s: "open_storage os b requested d = Some ctx0"
    "register_server os b i h p (ctx0\<lparr>nm_conn := c\<rparr>) = Some ctx"
    using assms(2) by (auto simp: ss_start_def split: list.splits option.splits if_splits)
  note o = open_storage_ready [OF assms(1) s(1)]
  have "ctx_inv (ctx0\<lparr>nm_conn := c\<rparr>)" using o(1) by simp
  from register_server_keeps [OF this s(2)] o(2,3)
  show "ctx_inv ctx" "sc_disk ctx = d" "items (sc_locks ctx) = []" by simp_all
qed

lemma ss_loop_inv: "ctx_inv ctx \<Longrightarrow> ctx_inv (fst (ss_loop rs ctx))"
proof (induction rs arbitrary: ctx)
  case (Cons r rs)
  show ?case
  proof (cases "ro_event r")
    case (Ready nm data)
    obtain go ctx1 where c1: "(if nm then process_nm_command (ro_os r) (ro_remote r) ctx else (True, ctx)) = (go, ctx1)" by fastforce
    have i1: "ctx_inv ctx1"
      using process_nm_command_inv [OF Cons.prems, of "ro_os r" "ro_remote r"] Cons.prems c1 by (auto split: if_splits)
    note i2 = handle_data_client_inv [OF i1, of "ro_os r"]
    show ?thesis
      using Ready c1 i1 Cons.IH [OF i1] Cons.IH [OF i2] by (auto split: bool.splits option.splits prod.splits) (metis fst_conv)
  qed (use Cons in simp_all)
qed simp

text \<open>A command ends the loop only when nothing is received or the answer cannot be sent.\<close>

lemma sync_reply_fails:
  "nm_ok ctx (fmt_str ''op'' ''SYNC'') = (False, ctx') \<Longrightarrow> send_limit (nm_conn ctx') \<le> length (outbox (nm_conn ctx'))"
  "nm_error ctx ERR_INTERNAL ''sync failed'' = (False, ctx') \<Longrightarrow> send_limit (nm_conn ctx') \<le> length (outbox (nm_conn ctx'))"
  "nm_error ctx ERR_BADREQ ''invalid sync'' = (False, ctx') \<Longrightarrow> send_limit (nm_conn ctx') \<le> length (outbox (nm_conn ctx'))"
  by (auto simp: nm_ok_def nm_error_def send_ok_def send_error_response_def conn_send_def braces_def fmt_str_def MAX_JSON_def
      split: if_splits)

lemma command_ends:
  assumes "process_nm_command os remote ctx = (False, ctx')"
  shows "inbox (nm_conn ctx') = [] \<or> send_limit (nm_conn ctx') \<le> length (outbox (nm_conn ctx'))"
proof (cases "inbox (nm_conn ctx)")
  case (Cons json rest)
  let ?ctx = "ctx\<lparr>nm_conn := (nm_conn ctx)\<lparr>inbox := rest\<rparr>\<rparr>"
  have "handle_nm_sync os remote ?ctx json = (False, ctx')"
    using assms Cons by (auto simp: process_nm_command_def Let_def split: option.splits if_splits)
  then show ?thesis
    by (auto simp: handle_nm_sync_def split: option.splits prod.splits bool.splits dest: sync_reply_fails)
qed (use assms in \<open>simp add: process_nm_command_def\<close>)

lemma loop_ends:
  assumes "ss_loop rs ctx = (ctx', served, True)"
  shows "SelectFails \<in> ro_event ` set rs \<or> inbox (nm_conn ctx') = [] \<or> send_limit (nm_conn ctx') \<le> length (outbox (nm_conn ctx'))"
  using assms
proof (induction rs arbitrary: ctx served)
  case (Cons r rs)
  show ?case
  proof (cases "ro_event r")
    case (Ready nm data)
    obtain go ctx1 where c1: "(if nm then process_nm_command (ro_os r) (ro_remote r) ctx else (True, ctx)) = (go, ctx1)" by fastforce
    show ?thesis
    proof (cases go)
      case False
      then have "process_nm_command (ro_os r) (ro_remote r) ctx = (False, ctx')" using c1 Cons.prems Ready by (auto split: if_splits)
      then show ?thesis using command_ends by blast
    next
      case True
      then obtain ctx2 cs where "ss_loop rs ctx2 = (ctx', cs, True)"
        using c1 Cons.prems Ready by (auto split: option.splits prod.splits)
      from Cons.IH [OF this] show ?thesis by auto
    qed
  qed (use Cons in auto)
qed simp

section \<open>Property\<close>

definition demo_boot :: boot where
  "demo_boot = \<lparr>bo_exe = Some ''/ws/bin/ss'', bo_cwd = None, bo_readdir = (\<lambda>_. Some [''f.meta'']), bo_log = (\<lambda>_. True),
     bo_connect = (\<lambda>_ _. Some \<lparr>inbox = [braces [fmt_str ''status'' ''OK''], braces [fmt_str ''type'' ''PING'']], outbox = [], send_limit = 9\<rparr>),
     bo_listen = (\<lambda>_. True), bo_junk = [], bo_sizes = (1, 1, 1)\<rparr>"

definition demo_store :: disk where
  "demo_store = [''/ws/store/meta/f.meta'' \<mapsto> ''owner:ann'' @ [NEWLINE], ''/ws/store/files/f'' \<mapsto> ''A b.'']"

definition demo_args :: "string list" where
  "demo_args = [''s1'', ''127.0.0.1'', ''9001'', ''127.0.0.1'', ''9000'', ''store'']"

definition demo_rounds :: "round list" where
  "demo_rounds = [\<lparr>ro_os = demo_os, ro_remote = (\<lambda>_ _ _. None), ro_event = Interrupted\<rparr>,
     \<lparr>ro_os = demo_os, ro_remote = (\<lambda>_ _ _. None), ro_event = Ready True (Some (demo_conn [read_request]))\<rparr>,
     \<lparr>ro_os = demo_os, ro_remote = (\<lambda>_ _ _. None), ro_event = Ready True None\<rparr>]"

text \<open>C29: The storage server from its start on. Whatever the disk holds, if the start succeeds the
  documents are untouched and no sentence is locked; and after any rounds of the main loop, with any commands of the
  name manager and any data connections, the table of files is sorted by name without duplicates
  and there is at most one lock per sentence. The loop ends only when \<^verbatim>\<open>select\<close> fails, the connection to the name manager
  delivers nothing more, or an answer to it cannot be sent. The metadata directory is assumed to list
  distinct names that fit the server's buffers.\<close>

theorem storage_server_run:
  assumes "ss_start os b args d = Some ctx0" and "\<forall>p ents. bo_readdir b p = Some ents \<longrightarrow> listing_ok ents"
    and "ss_loop rounds ctx0 = (ctx, served, ended)"
  shows "sc_disk ctx0 = d \<and> items (sc_locks ctx0) = [] \<and> ss_inv (sc_state ctx) \<and> locks_inv (sc_locks ctx) \<and>
    (ended \<longrightarrow> SelectFails \<in> ro_event ` set rounds \<or> inbox (nm_conn ctx) = [] \<or>
       send_limit (nm_conn ctx) \<le> length (outbox (nm_conn ctx)))"
proof -
  note start = ss_start_ready [OF _ assms(1)]
  have "ctx_inv (fst (ss_loop rounds ctx0))" using ss_loop_inv start(1) assms(2) by blast
  with assms(3) have "ctx_inv ctx" by simp
  then show ?thesis
    using start(2,3) assms(2,3) loop_ends [of rounds ctx0 ctx served] by (auto simp: ctx_inv_def)
qed

theorem storage_server_run_witness:
  "\<exists>ctx0 ctx served. ss_start demo_os demo_boot demo_args demo_store = Some ctx0 \<and>
    map sf_name (items (ss_files (sc_state ctx0))) = [''f''] \<and> ss_loop demo_rounds ctx0 = (ctx, served, True) \<and>
    ss_inv (sc_state ctx) \<and> inbox (nm_conn ctx) = []"
proof -
  have e: "map_option (\<lambda>c. (map sf_name (items (ss_files (sc_state c))), snd (snd (ss_loop demo_rounds c)),
      outbox (nm_conn (fst (ss_loop demo_rounds c))) \<noteq> [], 9 \<le> length (outbox (nm_conn (fst (ss_loop demo_rounds c)))),
      send_limit (nm_conn (fst (ss_loop demo_rounds c)))))
      (ss_start demo_os demo_boot demo_args demo_store) = Some ([''f''], True, True, False, 9)" by code_simp
  then obtain ctx0 where start: "ss_start demo_os demo_boot demo_args demo_store = Some ctx0" by (auto simp: map_option_case split: option.splits)
  obtain ctx served ended where l: "ss_loop demo_rounds ctx0 = (ctx, served, ended)" by (cases "ss_loop demo_rounds ctx0") auto
  have r: "\<forall>p ents. bo_readdir demo_boot p = Some ents \<longrightarrow> listing_ok ents"
    by (simp add: demo_boot_def listing_ok_def is_cstring_def SS_NAME_MAX_def)
  have "SelectFails \<notin> ro_event ` set demo_rounds" by (simp add: demo_rounds_def)
  with storage_server_run [OF start r l] e start l show ?thesis by auto
qed

end
