(* ===== verification/Runs.thy ===== *)
theory Runs
  imports Prelude
begin

text \<open>
  Runs of programs that handle one event after the other. The locale \<open>event_loop\<close> is the
  contract of such a program: a step function and an invariant that every step keeps.
\<close>

section \<open>Event loops\<close>

locale event_loop =
  fixes step :: "'e \<Rightarrow> 's \<Rightarrow> 's"
    and inv :: "'s \<Rightarrow> bool"
  assumes step_inv: "inv s \<Longrightarrow> inv (step e s)"
begin

inductive reachable :: "'s \<Rightarrow> 's \<Rightarrow> bool" for s0 where
  start: "reachable s0 s0"
| event: "reachable s0 s \<Longrightarrow> reachable s0 (step e s)"

lemma reachable_inv: "reachable s0 s \<Longrightarrow> inv s0 \<Longrightarrow> inv s"
  by (induction rule: reachable.induct) (auto simp: step_inv)

lemma run_reachable: "reachable s0 (fold step es s0)"
proof (induction es rule: rev_induct)
  case (snoc e es)
  then show ?case using event by simp
qed (simp add: start)

lemma run_inv: "inv s0 \<Longrightarrow> inv (fold step es s0)"
  using run_reachable reachable_inv by blast

end

end
