(* ===== verification/NM_Rpc.thy ===== *)
theory NM_Rpc
  imports Runs
begin

text \<open>
  Calls over one control connection of the name manager, \<^verbatim>\<open>forward_command\<close> and
  \<^verbatim>\<open>peer_thread\<close> of \<^verbatim>\<open>nm/nm_main.c\<close>, at the level of threads. The threads that call
  share the fields \<^verbatim>\<open>rpc_waiting\<close> and \<^verbatim>\<open>rpc_response\<close> of the peer under its \<^verbatim>\<open>io_lock\<close>, and one
  condition variable, \<^verbatim>\<open>io_cond\<close>, for two purposes: waiting for the connection to be free and
  waiting for the answer. Every event is one critical section or one operation on the socket.
  The storage server answers the requests in the order it gets them: \<open>answer\<close>.
\<close>

section \<open>Threads\<close>

text \<open>
  Where a thread is: outside, in the first loop, about to send, in the second loop, or back
  with the result. The flag says whether a thread in a loop is awake, that is, about to test the
  condition of the loop, or blocked in \<^verbatim>\<open>pthread_cond_wait\<close>.
\<close>

datatype caller =
    Outside
  | Slot (request: string) bool
  | Sending (request: string)
  | Wait (request: string) bool
  | Returned (request: string) "string option"

record rpc =
  rpc_waiting :: bool
  rpc_response :: "string option"
  shutting_down :: bool
  is_open :: bool
  receiving :: bool
  wire :: "string list"
  callers :: "caller list"

fun awake :: "caller \<Rightarrow> caller" where
  "awake (Slot r _) = Slot r True"
| "awake (Wait r _) = Wait r True"
| "awake c = c"

fun blocked :: "caller \<Rightarrow> bool" where
  "blocked (Slot r b) = (\<not> b)"
| "blocked (Wait r b) = (\<not> b)"
| "blocked c = False"

fun idle :: "caller \<Rightarrow> bool" where
  "idle Outside = True"
| "idle (Returned r a) = True"
| "idle c = False"

definition set_caller :: "rpc \<Rightarrow> nat \<Rightarrow> caller \<Rightarrow> rpc" where
  "set_caller s i c = s\<lparr>callers := (callers s)[i := c]\<rparr>"

definition broadcast :: "rpc \<Rightarrow> rpc" where
  "broadcast s = s\<lparr>callers := map awake (callers s)\<rparr>"

text \<open>\<^verbatim>\<open>pthread_cond_signal\<close> wakes one blocked thread, \<open>k\<close> when it is blocked.\<close>

definition signal :: "nat \<Rightarrow> rpc \<Rightarrow> rpc" where
  "signal k s = (if k < length (callers s) \<and> blocked (callers s ! k) then set_caller s k (awake (callers s ! k)) else s)"

section \<open>A call\<close>

text \<open>The test of the first loop and, when it fails, what follows up to the release of the lock.\<close>

definition try_slot :: "nat \<Rightarrow> string \<Rightarrow> rpc \<Rightarrow> rpc" where
  "try_slot i req s =
     (if rpc_waiting s \<and> \<not> shutting_down s then set_caller s i (Slot req False)
      else if shutting_down s then set_caller s i (Returned req None)
      else set_caller (s\<lparr>rpc_waiting := True, rpc_response := None\<rparr>) i (Sending req))"

text \<open>The test of the second loop and, when it fails, the return.\<close>

definition try_answer :: "nat \<Rightarrow> string \<Rightarrow> rpc \<Rightarrow> rpc" where
  "try_answer i req s =
     (if rpc_waiting s \<and> \<not> shutting_down s then set_caller s i (Wait req False)
      else set_caller (s\<lparr>rpc_response := None\<rparr>) i (Returned req (rpc_response s)))"

text \<open>A connection that is closed is not found by \<^verbatim>\<open>find_server_peer\<close>.\<close>

definition call :: "nat \<Rightarrow> string \<Rightarrow> rpc \<Rightarrow> rpc" where
  "call i req s =
     (if i < length (callers s) \<and> idle (callers s ! i) then
        if is_open s then try_slot i req s else set_caller s i (Returned req None)
      else s)"

definition run_caller :: "nat \<Rightarrow> rpc \<Rightarrow> rpc" where
  "run_caller i s =
     (if i < length (callers s) then
        case callers s ! i of
          Slot req True \<Rightarrow> try_slot i req s
        | Sending req \<Rightarrow> set_caller (s\<lparr>wire := wire s @ [req]\<rparr>) i (Wait req True)
        | Wait req True \<Rightarrow> try_answer i req s
        | _ \<Rightarrow> s
      else s)"

definition send_fails :: "nat \<Rightarrow> rpc \<Rightarrow> rpc" where
  "send_fails i s =
     (if i < length (callers s) then
        case callers s ! i of
          Sending req \<Rightarrow> set_caller (broadcast (s\<lparr>rpc_waiting := False\<rparr>)) i (Returned req None)
        | _ \<Rightarrow> s
      else s)"

section \<open>The thread of the connection\<close>

text \<open>A message without a type is the answer of the call in progress; nobody waiting, it is dropped.\<close>

definition peer_answer :: "(string \<Rightarrow> string) \<Rightarrow> nat \<Rightarrow> rpc \<Rightarrow> rpc" where
  "peer_answer answer k s =
     (case wire s of
        [] \<Rightarrow> s
      | req # rest \<Rightarrow>
          if \<not> receiving s then s
          else if rpc_waiting s then
            signal k (s\<lparr>wire := rest, rpc_response := Some (answer req), rpc_waiting := False\<rparr>)
          else s\<lparr>wire := rest\<rparr>)"

text \<open>
  When receiving fails the thread first lets the caller go, then closes the connection; when the
  handling of a message with a type fails, it only closes the connection.
\<close>

definition recv_fails :: "rpc \<Rightarrow> rpc" where
  "recv_fails s =
     (let s1 = s\<lparr>receiving := False\<rparr> in
      if rpc_waiting s then broadcast (s1\<lparr>rpc_waiting := False, rpc_response := None\<rparr>) else s1)"

definition close_peer :: "rpc \<Rightarrow> rpc" where
  "close_peer s =
     (if receiving s then s else broadcast (s\<lparr>rpc_response := None, rpc_waiting := False, is_open := False\<rparr>))"

datatype rpc_event =
    Call nat string
  | Run nat
  | SendFails nat
  | Answer nat
  | RecvFails
  | DispatchFails
  | Close
  | Spurious nat
  | Shutdown

fun rpc_step :: "(string \<Rightarrow> string) \<Rightarrow> rpc_event \<Rightarrow> rpc \<Rightarrow> rpc" where
  "rpc_step answer (Call i req) s = call i req s"
| "rpc_step answer (Run i) s = run_caller i s"
| "rpc_step answer (SendFails i) s = send_fails i s"
| "rpc_step answer (Answer k) s = peer_answer answer k s"
| "rpc_step answer RecvFails s = recv_fails s"
| "rpc_step answer DispatchFails s = s\<lparr>receiving := False\<rparr>"
| "rpc_step answer Close s = close_peer s"
| "rpc_step answer (Spurious i) s = signal i s"
| "rpc_step answer Shutdown s = s\<lparr>shutting_down := True\<rparr>"

definition rpc_start :: "nat \<Rightarrow> rpc" where
  "rpc_start n = \<lparr>rpc_waiting = False, rpc_response = None, shutting_down = False, is_open = True, receiving = True, wire = [],
     callers = replicate n Outside\<rparr>"

section \<open>Calls that do not overlap\<close>

text \<open>
  What holds of a thread when no two calls overlap. Before the answer is there, the request is the
  only one on the connection; what is in \<^verbatim>\<open>rpc_response\<close> is the answer to the request.
\<close>

fun caller_ok :: "(string \<Rightarrow> string) \<Rightarrow> rpc \<Rightarrow> caller \<Rightarrow> bool" where
  "caller_ok answer s Outside = True"
| "caller_ok answer s (Returned req a) = (a = None \<or> a = Some (answer req))"
| "caller_ok answer s (Slot req b) = False"
| "caller_ok answer s (Sending req) = (rpc_response s = None \<and> (receiving s \<longrightarrow> wire s = [] \<and> rpc_waiting s))"
| "caller_ok answer s (Wait req b) =
     ((rpc_response s = None \<or> rpc_response s = Some (answer req)) \<and>
      (receiving s \<longrightarrow> wire s = [] \<or> wire s = [req] \<and> rpc_waiting s))"

definition quiet :: "rpc \<Rightarrow> bool" where
  "quiet s \<longleftrightarrow> shutting_down s \<or> \<not> rpc_waiting s \<and> (receiving s \<longrightarrow> wire s = [])"

definition lone_inv :: "(string \<Rightarrow> string) \<Rightarrow> rpc \<Rightarrow> bool" where
  "lone_inv answer s \<longleftrightarrow>
     (\<forall>c \<in> set (callers s). caller_ok answer s c) \<and>
     (\<forall>i < length (callers s). \<forall>j < length (callers s). \<not> idle (callers s ! i) \<longrightarrow> \<not> idle (callers s ! j) \<longrightarrow> i = j) \<and>
     (list_all idle (callers s) \<longrightarrow> quiet s)"

text \<open>A call is made only when no other is in progress.\<close>

definition lone_step :: "(string \<Rightarrow> string) \<Rightarrow> rpc_event \<Rightarrow> rpc \<Rightarrow> rpc" where
  "lone_step answer e s =
     (case e of
        Call i req \<Rightarrow> if list_all idle (callers s) then rpc_step answer e s else s
      | _ \<Rightarrow> rpc_step answer e s)"

text \<open>The state of a thread that is not in a call does not depend on the shared fields.\<close>

lemma idle_ok: "idle c \<Longrightarrow> caller_ok answer s c \<Longrightarrow> caller_ok answer s' c"
  by (cases c) auto

lemma awake_simps [simp]: "idle (awake c) = idle c" "caller_ok answer s (awake c) = caller_ok answer s c"
  by (cases c; simp)+

text \<open>One thread moves: the others are idle.\<close>

lemma lone_move:
  assumes "lone_inv answer s" and "i < length (callers s)" and "\<not> idle (callers s ! i) \<or> list_all idle (callers s)"
    and "callers s' = (callers s)[i := c]" and "caller_ok answer s' c"
    and "idle c \<Longrightarrow> quiet s'"
  shows "lone_inv answer s'"
proof -
  have others: "idle (callers s ! j)" if "j < length (callers s)" "j \<noteq> i" for j
    using assms(1-3) that unfolding lone_inv_def by (auto simp: list_all_length)
  have "caller_ok answer s' (callers s' ! j)" if "j < length (callers s')" for j
    using that assms(1,2,4,5) others idle_ok [of "callers s ! j" answer s s']
    by (cases "j = i") (auto simp: lone_inv_def)
  moreover have "j = k" if "j < length (callers s')" "k < length (callers s')" "\<not> idle (callers s' ! j)" "\<not> idle (callers s' ! k)" for j k
    using that others assms(4) by (metis length_list_update nth_list_update_neq)
  moreover have "idle c" if "list_all idle (callers s')"
    using that assms(2,4) by (auto simp: list_all_length dest!: spec [of _ i])
  ultimately show ?thesis using assms(6) by (auto simp: lone_inv_def in_set_conv_nth)
qed

text \<open>The shared fields change, threads wake up at most.\<close>

lemma lone_shared:
  assumes "lone_inv answer s" and "callers s' = callers s \<or> callers s' = map awake (callers s)"
    and "\<And>c. c \<in> set (callers s) \<Longrightarrow> caller_ok answer s c \<Longrightarrow> caller_ok answer s' c"
    and "list_all idle (callers s) \<Longrightarrow> quiet s'"
  shows "lone_inv answer s'"
proof -
  have "caller_ok answer s' c" if "c \<in> set (callers s')" for c
    using that assms(1-3) by (auto simp: lone_inv_def)
  moreover have "length (callers s') = length (callers s)" using assms(2) by auto
  moreover have "idle (callers s' ! i) = idle (callers s ! i)" if "i < length (callers s)" for i
    using that assms(2) by auto
  ultimately show ?thesis using assms(1,4) unfolding lone_inv_def list_all_length by metis
qed

lemma set_caller_simps [simp]:
  "callers (set_caller s i c) = (callers s)[i := c]" "rpc_waiting (set_caller s i c) = rpc_waiting s"
  "rpc_response (set_caller s i c) = rpc_response s" "shutting_down (set_caller s i c) = shutting_down s"
  "receiving (set_caller s i c) = receiving s" "is_open (set_caller s i c) = is_open s" "wire (set_caller s i c) = wire s"
  by (simp_all add: set_caller_def)

lemma lone_signal:
  assumes "lone_inv answer s"
  shows "lone_inv answer (signal k s)"
proof (cases "k < length (callers s) \<and> blocked (callers s ! k)")
  case True
  then have act: "\<not> idle (callers s ! k)" by (cases "callers s ! k") auto
  have "caller_ok answer s (callers s ! k)" using assms True by (simp add: lone_inv_def)
  then have "caller_ok answer (set_caller s k (awake (callers s ! k))) (awake (callers s ! k))"
    by (cases "callers s ! k") auto
  then show ?thesis
    using True act by (auto simp: signal_def intro!: lone_move [OF assms, of k _ "awake (callers s ! k)"])
next
  case False
  then show ?thesis using assms by (auto simp: signal_def)
qed

lemma lone_broadcast:
  assumes "lone_inv answer s"
  shows "lone_inv answer (broadcast s)"
proof (rule lone_shared [OF assms])
  show "caller_ok answer s c \<Longrightarrow> caller_ok answer (broadcast s) c" for c by (cases c) (auto simp: broadcast_def)
  show "list_all idle (callers s) \<Longrightarrow> quiet (broadcast s)" using assms by (simp add: lone_inv_def quiet_def broadcast_def)
qed (simp add: broadcast_def)

lemma lone_call:
  assumes "lone_inv answer s" and "list_all idle (callers s)"
  shows "lone_inv answer (call i req s)"
proof (cases "i < length (callers s)")
  case True
  have q: "quiet s" using assms by (simp add: lone_inv_def)
  note move = lone_move [OF assms(1) True disjI2, OF assms(2)]
  have none: "lone_inv answer (set_caller s i (Returned req None))"
    by (rule move [of _ "Returned req None"]) (use q in \<open>simp_all add: quiet_def\<close>)
  have "lone_inv answer (set_caller (s\<lparr>rpc_waiting := True, rpc_response := None\<rparr>) i (Sending req))" if "\<not> shutting_down s"
    by (rule move [of _ "Sending req"]) (use q that in \<open>simp_all add: quiet_def\<close>)
  then show ?thesis using none q assms(1) by (auto simp: call_def try_slot_def quiet_def)
qed (simp add: call_def assms(1))

lemma lone_run:
  assumes "lone_inv answer s"
  shows "lone_inv answer (run_caller i s)"
proof (cases "i < length (callers s)")
  case True
  have ok: "caller_ok answer s (callers s ! i)" using assms True by (simp add: lone_inv_def)
  note move = lone_move [OF assms True disjI1]
  show ?thesis
  proof (cases "callers s ! i")
    case (Sending req)
    have "lone_inv answer (set_caller (s\<lparr>wire := wire s @ [req]\<rparr>) i (Wait req True))"
      by (rule move [of _ "Wait req True"]) (use ok Sending in auto)
    then show ?thesis using Sending True by (simp add: run_caller_def)
  next
    case (Wait req b)
    have "lone_inv answer (set_caller s i (Wait req False))"
      by (rule move [of _ "Wait req False"]) (use ok Wait in auto)
    moreover have "lone_inv answer (set_caller (s\<lparr>rpc_response := None\<rparr>) i (Returned req (rpc_response s)))"
      if "\<not> rpc_waiting s \<or> shutting_down s"
      by (rule move [of _ "Returned req (rpc_response s)"]) (use ok Wait that in \<open>auto simp: quiet_def\<close>)
    ultimately show ?thesis using Wait True assms by (auto simp: run_caller_def try_answer_def split: bool.split)
  qed (use ok assms in \<open>auto simp: run_caller_def\<close>)
qed (simp add: run_caller_def assms)

lemma lone_send_fails:
  assumes "lone_inv answer s"
  shows "lone_inv answer (send_fails i s)"
proof (cases "i < length (callers s) \<and> (\<exists>req. callers s ! i = Sending req)")
  case True
  then obtain req where i: "i < length (callers s)" "callers s ! i = Sending req" by blast
  have ok: "caller_ok answer s (Sending req)" using assms i by (metis lone_inv_def nth_mem)
  let ?t = "set_caller (s\<lparr>rpc_waiting := False\<rparr>) i (Returned req None)"
  have "lone_inv answer ?t"
    by (rule lone_move [OF assms i(1), of _ "Returned req None"]) (use ok i in \<open>auto simp: quiet_def\<close>)
  then have "lone_inv answer (broadcast ?t)" by (rule lone_broadcast)
  moreover have "send_fails i s = broadcast ?t" using i by (simp add: send_fails_def broadcast_def set_caller_def map_update)
  ultimately show ?thesis by simp
next
  case False
  then show ?thesis using assms by (auto simp: send_fails_def split: caller.split)
qed

lemma lone_peer_answer:
  assumes "lone_inv answer s"
  shows "lone_inv answer (peer_answer answer k s)"
proof (cases "wire s = [] \<or> \<not> receiving s")
  case True
  then show ?thesis using assms by (auto simp: peer_answer_def split: list.split)
next
  case False
  then obtain req rest where w: "wire s = req # rest" "receiving s" by (cases "wire s") auto
  let ?t = "s\<lparr>wire := rest, rpc_response := Some (answer req), rpc_waiting := False\<rparr>"
  let ?u = "s\<lparr>wire := rest\<rparr>"
  have quiet: "quiet ?t" "\<not> rpc_waiting s \<Longrightarrow> quiet ?u" if "list_all idle (callers s)"
    using assms that w by (auto simp: lone_inv_def quiet_def)
  have t: "caller_ok answer ?t c" "\<not> rpc_waiting s \<Longrightarrow> caller_ok answer ?u c" if "caller_ok answer s c" for c
    using that w by (cases c; auto)+
  have "lone_inv answer ?t" by (rule lone_shared [OF assms]) (use t(1) quiet(1) in auto)
  moreover have "lone_inv answer ?u" if "\<not> rpc_waiting s" by (rule lone_shared [OF assms]) (use t(2) quiet(2) that in auto)
  ultimately show ?thesis using w lone_signal by (simp add: peer_answer_def)
qed

lemma lone_closing:
  assumes "lone_inv answer s"
  shows "lone_inv answer (s\<lparr>receiving := False\<rparr>)" and "lone_inv answer (recv_fails s)" and "lone_inv answer (close_peer s)" and "lone_inv answer (s\<lparr>shutting_down := True\<rparr>)"
proof -
  have ok: "caller_ok answer (s\<lparr>receiving := False\<rparr>) c" "caller_ok answer (s\<lparr>receiving := False, rpc_waiting := False, rpc_response := None\<rparr>) c"
      "caller_ok answer (s\<lparr>shutting_down := True\<rparr>) c"
      "\<not> receiving s \<Longrightarrow> caller_ok answer (s\<lparr>rpc_response := None, rpc_waiting := False, is_open := False\<rparr>) c"
    if "caller_ok answer s c" for c using that by (cases c; auto)+
  have q: "list_all idle (callers s) \<Longrightarrow> quiet s" using assms by (simp add: lone_inv_def)
  show stopped: "lone_inv answer (s\<lparr>receiving := False\<rparr>)"
    by (rule lone_shared [OF assms]) (use ok(1) q in \<open>auto simp: quiet_def\<close>)
  have "lone_inv answer (s\<lparr>receiving := False, rpc_waiting := False, rpc_response := None\<rparr>)"
    by (rule lone_shared [OF assms]) (use ok(2) in \<open>auto simp: quiet_def\<close>)
  with stopped show "lone_inv answer (recv_fails s)" by (simp add: recv_fails_def Let_def lone_broadcast)
  have "lone_inv answer (s\<lparr>rpc_response := None, rpc_waiting := False, is_open := False\<rparr>)" if "\<not> receiving s"
    by (rule lone_shared [OF assms]) (use ok(4) that in \<open>auto simp: quiet_def\<close>)
  then show "lone_inv answer (close_peer s)" using assms by (simp add: close_peer_def lone_broadcast)
  show "lone_inv answer (s\<lparr>shutting_down := True\<rparr>)"
    by (rule lone_shared [OF assms]) (use ok(3) in \<open>auto simp: quiet_def\<close>)
qed

interpretation lone_rpc: event_loop "lone_step answer" "lone_inv answer" for answer
proof unfold_locales
  show "lone_inv answer s \<Longrightarrow> lone_inv answer (lone_step answer e s)" for s e
    by (cases e) (auto simp: lone_step_def lone_call lone_run lone_send_fails lone_peer_answer lone_closing lone_signal)
qed

lemma lone_start: "lone_inv answer (rpc_start n)"
  by (simp add: lone_inv_def rpc_start_def quiet_def)

section \<open>Properties\<close>

text \<open>C23: Without overlapping calls every caller gets its own answer. As long as a command is forwarded to a storage server
  only when no other is in progress on that connection, whatever else happens (the order of the steps of the
  threads, failed sends, a lost connection, a shutdown, spurious wakeups), a call that returns a response
  returns the answer of the storage server to its own request.\<close>

theorem rpc_own_answer:
  assumes "s = fold (lone_step answer) es (rpc_start n)" and "i < length (callers s)" and "callers s ! i = Returned req (Some r)"
  shows "r = answer req"
proof -
  have "lone_inv answer s" unfolding assms(1) by (rule lone_rpc.run_inv [OF lone_start])
  then have "caller_ok answer s (callers s ! i)" using assms(2) by (simp add: lone_inv_def)
  then show ?thesis using assms(3) by simp
qed

theorem rpc_own_answer_witness:
  "callers (fold (lone_step (\<lambda>r. r @ ''!'')) [Call 0 ''a'', Run 0, Run 0, Answer 0, Run 0] (rpc_start 2)) ! 0 = Returned ''a'' (Some ''a!'') \<and>
   ''a!'' = (\<lambda>r. r @ ''!'') ''a''"
proof -
  let ?s = "fold (lone_step (\<lambda>r. r @ ''!'')) [Call 0 ''a'', Run 0, Run 0, Answer 0, Run 0] (rpc_start 2)"
  have "callers ?s ! 0 = Returned ''a'' (Some ''a!'')" "0 < length (callers ?s)" by code_simp+
  with rpc_own_answer [OF refl, of 0 "\<lambda>r. r @ ''!''" _ 2] show ?thesis by blast
qed

text \<open>Two runs of two calls that overlap, and the events that wake nobody unless an answer is due.\<close>

definition crossed :: "rpc_event list" where
  "crossed = [Call 0 ''a'', Run 0, Run 0, Call 1 ''b'', Answer 1, Run 1, Run 1, Run 1, Answer 0, Run 0]"

definition left_waiting :: "rpc_event list" where
  "left_waiting = [Call 0 ''a'', Run 0, Run 0, Call 1 ''b'', Answer 0, Run 0]"

fun calm_event :: "rpc_event \<Rightarrow> bool" where
  "calm_event (Call i req) = False"
| "calm_event RecvFails = False"
| "calm_event DispatchFails = False"
| "calm_event Close = False"
| "calm_event (Spurious i) = False"
| "calm_event e = True"

definition stranded :: "rpc \<Rightarrow> bool" where
  "stranded s \<longleftrightarrow> length (callers s) = 2 \<and> idle (callers s ! 0) \<and> callers s ! 1 = Slot ''b'' False \<and> wire s = []"

lemma stranded_step: "stranded s \<Longrightarrow> calm_event e \<Longrightarrow> stranded (rpc_step answer e s)"
  by (cases e) (auto simp: stranded_def run_caller_def send_fails_def peer_answer_def less_2_cases_iff split: caller.split)

lemma stranded_run: "stranded s \<Longrightarrow> list_all calm_event es \<Longrightarrow> stranded (fold (rpc_step answer) es s)"
  by (induction es arbitrary: s) (auto simp: stranded_step)

lemmas rpc_defs = call_def run_caller_def try_slot_def try_answer_def peer_answer_def signal_def set_caller_def rpc_start_def

text \<open>C24: Overlapping calls can be answered wrongly, and can wait forever. The thread that receives an answer wakes one
  thread waiting on the condition variable. When it wakes a thread that waits for its turn, that thread
  takes the connection and discards the answer; the first caller then gets the answer to the second
  request. When it wakes the caller, this one returns without waking the thread that waits for its turn,
  which stays blocked, although the connection is free, through everything that is not a new call, a
  lost connection or a spurious wakeup.\<close>

theorem overlapping_calls:
  assumes "s = fold (rpc_step answer) left_waiting (rpc_start 2)" and "list_all calm_event es"
  shows "callers (fold (rpc_step answer) crossed (rpc_start 2)) ! 0 = Returned ''a'' (Some (answer ''b'')) \<and>
    callers s ! 0 = Returned ''a'' (Some (answer ''a'')) \<and> \<not> rpc_waiting s \<and>
    callers (fold (rpc_step answer) es s) ! 1 = Slot ''b'' False"
proof -
  have two: "replicate 2 Outside = [Outside, Outside]" by (simp add: numeral_2_eq_2)
  have "callers (fold (rpc_step answer) crossed (rpc_start 2)) ! 0 = Returned ''a'' (Some (answer ''b''))"
    by (simp add: crossed_def rpc_defs two)
  moreover have s: "callers s = [Returned ''a'' (Some (answer ''a'')), Slot ''b'' False]" "wire s = []" "\<not> rpc_waiting s"
    by (simp_all add: assms(1) left_waiting_def rpc_defs two)
  moreover have "stranded s" using s by (simp add: stranded_def)
  then have "stranded (fold (rpc_step answer) es s)" by (rule stranded_run [OF _ assms(2)])
  ultimately show ?thesis by (simp add: stranded_def)
qed

theorem overlapping_calls_witness:
  "callers (fold (rpc_step (\<lambda>r. r @ ''!'')) crossed (rpc_start 2)) ! 0 = Returned ''a'' (Some ''b!'') \<and>
   callers (fold (rpc_step (\<lambda>r. r @ ''!'')) [Run 1, Answer 1, Run 1] (fold (rpc_step (\<lambda>r. r @ ''!'')) left_waiting (rpc_start 2))) ! 1 =
     Slot ''b'' False"
  using overlapping_calls [OF refl, of "[Run 1, Answer 1, Run 1]" "\<lambda>r. r @ ''!''"] by simp

end
