(* ===== verification/NM_State.thy ===== *)
theory NM_State
  imports Disk Tables
begin

unbundle bit_operations_syntax

text \<open>
  \<^verbatim>\<open>nm/nm_state.h\<close> and the in-memory part of \<^verbatim>\<open>nm/nm_state.c\<close>: the name manager's tables of
  servers, files, users, cached locations and access requests. The fixed arrays with
  their counts are lists bounded by the capacities. Files are found through a chained
  hash table: \<open>nm_buckets\<close> holds the first index of every chain, \<open>fe_next\<close> (\<^verbatim>\<open>hash_next\<close>)
  the next one. \<^verbatim>\<open>unsigned long\<close> is \<open>64 word\<close>, permission sets are \<open>32 word\<close>, and
  \<^verbatim>\<open>time(NULL)\<close> is the argument \<open>now\<close>.

  Walking a chain takes fuel, the number of files plus one; a walk that would need more
  is \<open>None\<close>. \<open>NM_Hash\<close> shows that the fuel always suffices.
\<close>

section \<open>Data\<close>

definition NM_MAX_SERVERS :: nat where "NM_MAX_SERVERS = 32"
definition NM_MAX_FILES :: nat where "NM_MAX_FILES = 512"
definition NM_MAX_USERS :: nat where "NM_MAX_USERS = 512"
definition NM_MAX_ACL :: nat where "NM_MAX_ACL = 64"
definition NM_MAX_CACHE :: nat where "NM_MAX_CACHE = 128"
definition NM_MAX_REQUESTS :: nat where "NM_MAX_REQUESTS = 1024"
definition NM_MAX_NAME :: nat where "NM_MAX_NAME = 128"
definition NM_MAX_USER :: nat where "NM_MAX_USER = 64"
definition NM_MAX_CHECKPOINTS :: nat where "NM_MAX_CHECKPOINTS = 128"
definition NM_FILE_BUCKETS :: nat where "NM_FILE_BUCKETS = 1024"
definition NM_PERM_READ :: "32 word" where "NM_PERM_READ = 1"
definition NM_PERM_WRITE :: "32 word" where "NM_PERM_WRITE = 2"
definition NM_REQUEST_PENDING :: int where "NM_REQUEST_PENDING = 0"
definition NM_REQUEST_APPROVED :: int where "NM_REQUEST_APPROVED = 1"
definition NM_REQUEST_DENIED :: int where "NM_REQUEST_DENIED = 2"

record storage_server =
  ss_id :: string
  ss_host :: string
  ss_ctrl_port :: string
  ss_data_port :: string
  ss_ctrl_fd :: int
  ss_online :: bool

record file_acl_entry =
  acl_user :: string
  acl_perm :: "32 word"

record checkpoint_entry =
  ck_tag :: string
  ck_user :: string
  ck_time :: time_t

record file_entry =
  fe_name :: string
  fe_owner :: string
  fe_ss :: int
  fe_backup :: int
  fe_words :: nat
  fe_chars :: nat
  fe_created :: time_t
  fe_modified :: time_t
  fe_last_access :: time_t
  fe_last_user :: string
  fe_acl :: "file_acl_entry list"
  fe_checkpoints :: "checkpoint_entry list"
  fe_next :: int

record user_entry =
  ue_name :: string
  ue_last_seen :: time_t

record cache_entry =
  ce_name :: string
  ce_ss :: int
  ce_used :: time_t

record access_request =
  rq_file :: string
  rq_owner :: string
  rq_requester :: string
  rq_perm :: "32 word"
  rq_status :: int

record nm_state =
  nm_servers :: "storage_server list"
  nm_next_primary :: nat
  nm_next_backup :: nat
  nm_files :: "file_entry list"
  nm_users :: "user_entry list"
  nm_cache :: "cache_entry list"
  nm_requests :: "access_request list"
  nm_persist_path :: path
  nm_buckets :: "int list"

section \<open>The hash table of files\<close>

fun hash_loop :: "64 word \<Rightarrow> string \<Rightarrow> 64 word" where
  "hash_loop hash [] = hash"
| "hash_loop hash (c # cs) = hash_loop (push_bit 5 hash + hash + of_char c) cs"

definition file_hash_name :: "string \<Rightarrow> 64 word" where
  "file_hash_name name = hash_loop 5381 name"

definition bucket_of :: "string \<Rightarrow> nat" where
  "bucket_of name = unat (file_hash_name name) mod NM_FILE_BUCKETS"

definition file_hash_insert :: "nm_state \<Rightarrow> nat \<Rightarrow> nm_state" where
  "file_hash_insert st index =
     (if length (nm_files st) \<le> index then st
      else
        let file = nm_files st ! index; bucket = bucket_of (fe_name file) in
        st\<lparr>nm_files := (nm_files st)[index := file\<lparr>fe_next := nm_buckets st ! bucket\<rparr>],
           nm_buckets := (nm_buckets st)[bucket := int index]\<rparr>)"

text \<open>The pointer \<^verbatim>\<open>int *link\<close>: at a bucket or at the \<^verbatim>\<open>hash_next\<close> of a file.\<close>

datatype link = Bucket nat | Next nat

fun read_link :: "nm_state \<Rightarrow> link \<Rightarrow> int" where
  "read_link st (Bucket b) = nm_buckets st ! b"
| "read_link st (Next i) = fe_next (nm_files st ! i)"

fun write_link :: "nm_state \<Rightarrow> link \<Rightarrow> int \<Rightarrow> nm_state" where
  "write_link st (Bucket b) v = st\<lparr>nm_buckets := (nm_buckets st)[b := v]\<rparr>"
| "write_link st (Next i) v = st\<lparr>nm_files := (nm_files st)[i := (nm_files st ! i)\<lparr>fe_next := v\<rparr>]\<rparr>"

fun hash_remove_loop :: "nat \<Rightarrow> nm_state \<Rightarrow> link \<Rightarrow> nat \<Rightarrow> nm_state option" where
  "hash_remove_loop 0 st lnk index = None"
| "hash_remove_loop (Suc fuel) st lnk index =
     (let cur = read_link st lnk in
      if cur < 0 then Some st
      else if cur = int index then Some (write_link st lnk (fe_next (nm_files st ! index)))
      else hash_remove_loop fuel st (Next (nat cur)) index)"

definition file_hash_remove :: "nm_state \<Rightarrow> nat \<Rightarrow> nm_state option" where
  "file_hash_remove st index =
     (if length (nm_files st) \<le> index then Some st
      else hash_remove_loop (length (nm_files st) + 1) st
        (Bucket (bucket_of (fe_name (nm_files st ! index)))) index)"

definition clear_state :: "nm_state \<Rightarrow> nm_state" where
  "clear_state st = st\<lparr>nm_servers := [], nm_files := [], nm_users := [], nm_cache := [],
     nm_next_primary := 0, nm_next_backup := 0, nm_requests := [],
     nm_buckets := replicate NM_FILE_BUCKETS (-1)\<rparr>"

section \<open>Servers\<close>

definition nm_find_server_by_id :: "nm_state \<Rightarrow> string \<Rightarrow> nat option" where
  "nm_find_server_by_id st sid = find_index (\<lambda>s. ss_id s = sid) (nm_servers st)"

definition nm_get_server :: "nm_state \<Rightarrow> int \<Rightarrow> storage_server option" where
  "nm_get_server st index =
     (if index < 0 \<or> length (nm_servers st) \<le> nat index then None else Some (nm_servers st ! nat index))"

definition nm_register_server :: "nm_state \<Rightarrow> string \<Rightarrow> string \<Rightarrow> string \<Rightarrow> string \<Rightarrow> int
    \<Rightarrow> nat option \<times> nm_state" where
  "nm_register_server st sid host ctrl_port data_port ctrl_fd =
     (case nm_find_server_by_id st sid of
        Some i \<Rightarrow>
          (Some i, st\<lparr>nm_servers := (nm_servers st)[i := (nm_servers st ! i)
             \<lparr>ss_host := buf NM_MAX_NAME host, ss_ctrl_port := buf 16 ctrl_port,
              ss_data_port := buf 16 data_port, ss_ctrl_fd := ctrl_fd, ss_online := True\<rparr>]\<rparr>)
      | None \<Rightarrow>
          if NM_MAX_SERVERS \<le> length (nm_servers st) then (None, st)
          else
            (Some (length (nm_servers st)), st\<lparr>nm_servers := nm_servers st @
               [\<lparr>ss_id = buf NM_MAX_NAME sid, ss_host = buf NM_MAX_NAME host, ss_ctrl_port = buf 16 ctrl_port,
                 ss_data_port = buf 16 data_port, ss_ctrl_fd = ctrl_fd, ss_online = True\<rparr>]\<rparr>))"

definition nm_mark_server_down :: "nm_state \<Rightarrow> int \<Rightarrow> nm_state" where
  "nm_mark_server_down st index =
     (if index < 0 \<or> length (nm_servers st) \<le> nat index then st
      else st\<lparr>nm_servers := (nm_servers st)[nat index :=
             (nm_servers st ! nat index)\<lparr>ss_ctrl_fd := -1, ss_online := False\<rparr>]\<rparr>)"

definition server_up :: "storage_server \<Rightarrow> bool" where
  "server_up s \<longleftrightarrow> 0 \<le> ss_ctrl_fd s \<and> ss_online s"

text \<open>The round-robin loop: the first usable index of \<open>start, start + 1, ...\<close> modulo the number of servers.\<close>

definition pick_from :: "storage_server list \<Rightarrow> nat \<Rightarrow> int \<Rightarrow> nat option" where
  "pick_from servers start exclude =
     (let order = map (\<lambda>offset. (start + offset) mod length servers) [0..<length servers] in
      map_option ((!) order) (find_index (\<lambda>idx. int idx \<noteq> exclude \<and> server_up (servers ! idx)) order))"

definition nm_pick_server :: "nm_state \<Rightarrow> nat option \<times> nm_state" where
  "nm_pick_server st =
     (let n = length (nm_servers st) in
      if n = 0 then (None, st)
      else case pick_from (nm_servers st) (nm_next_primary st mod n) (-1) of
        None \<Rightarrow> (None, st)
      | Some idx \<Rightarrow> (Some idx, st\<lparr>nm_next_primary := (idx + 1) mod n\<rparr>))"

definition nm_pick_backup_server :: "nm_state \<Rightarrow> int \<Rightarrow> nat option \<times> nm_state" where
  "nm_pick_backup_server st exclude =
     (let n = length (nm_servers st) in
      if n = 0 then (None, st)
      else case pick_from (nm_servers st) (nm_next_backup st mod n) exclude of
        None \<Rightarrow> (None, st)
      | Some idx \<Rightarrow> (Some idx, st\<lparr>nm_next_backup := (idx + 1) mod n\<rparr>))"

section \<open>Files\<close>

fun chain_find :: "nat \<Rightarrow> file_entry list \<Rightarrow> int \<Rightarrow> name \<Rightarrow> int option" where
  "chain_find 0 fs idx name = None"
| "chain_find (Suc fuel) fs idx name =
     (if idx < 0 then Some (-1)
      else if fe_name (fs ! nat idx) = name then Some idx
      else chain_find fuel fs (fe_next (fs ! nat idx)) name)"

definition find_file_index :: "nm_state \<Rightarrow> name \<Rightarrow> int option" where
  "find_file_index st name =
     chain_find (length (nm_files st) + 1) (nm_files st) (nm_buckets st ! bucket_of name) name"

definition nm_find_file :: "nm_state \<Rightarrow> name \<Rightarrow> file_entry option" where
  "nm_find_file st name =
     (case find_file_index st name of
        Some i \<Rightarrow> if i < 0 then None else Some (nm_files st ! nat i)
      | None \<Rightarrow> None)"

definition new_file_entry :: "name \<Rightarrow> name \<Rightarrow> int \<Rightarrow> int \<Rightarrow> time_t \<Rightarrow> file_entry" where
  "new_file_entry name owner ss_index backup_index now =
     \<lparr>fe_name = buf NM_MAX_NAME name, fe_owner = buf NM_MAX_USER owner, fe_ss = ss_index, fe_backup = backup_index,
      fe_words = 0, fe_chars = 0, fe_created = now, fe_modified = now, fe_last_access = now,
      fe_last_user = buf NM_MAX_USER owner, fe_acl = [], fe_checkpoints = [], fe_next = -1\<rparr>"

text \<open>\<open>None\<close>: the walk did not end.\<close>

definition nm_add_file :: "nm_state \<Rightarrow> name \<Rightarrow> name \<Rightarrow> int \<Rightarrow> int \<Rightarrow> time_t \<Rightarrow> (unit res \<times> nm_state) option" where
  "nm_add_file st name owner ss_index backup_index now =
     (if NM_MAX_FILES \<le> length (nm_files st) then Some (Fail (Some ENOSPC), st)
      else case find_file_index st name of
        None \<Rightarrow> None
      | Some i \<Rightarrow>
          if 0 \<le> i then Some (Fail (Some EEXIST), st)
          else
            let st1 = st\<lparr>nm_files := nm_files st @ [new_file_entry name owner ss_index backup_index now]\<rparr> in
            Some (Ok (), file_hash_insert st1 (length (nm_files st))))"

definition nm_remove_file :: "nm_state \<Rightarrow> name \<Rightarrow> (unit res \<times> nm_state) option" where
  "nm_remove_file st name =
     (case find_file_index st name of
        None \<Rightarrow> None
      | Some i \<Rightarrow>
          if i < 0 then Some (Fail (Some ENOENT), st)
          else
            let idx = nat i; last = length (nm_files st) - 1 in
            (case file_hash_remove st idx of
               None \<Rightarrow> None
             | Some st1 \<Rightarrow>
                 (case (if idx \<noteq> last then
                          (case file_hash_remove st1 last of
                             None \<Rightarrow> None
                           | Some st2 \<Rightarrow>
                               Some (file_hash_insert (st2\<lparr>nm_files := (nm_files st2)[idx := nm_files st2 ! last]\<rparr>) idx))
                        else Some st1) of
                    None \<Rightarrow> None
                  | Some st3 \<Rightarrow> Some (Ok (), st3\<lparr>nm_files := take last (nm_files st3)\<rparr>))))"

text \<open>Writing through the pointer \<^verbatim>\<open>nm_find_file\<close> returned.\<close>

definition nm_modify_file :: "nm_state \<Rightarrow> name \<Rightarrow> (file_entry \<Rightarrow> file_entry) \<Rightarrow> nm_state" where
  "nm_modify_file st name f =
     (case find_file_index st name of
        Some i \<Rightarrow> if i < 0 then st else st\<lparr>nm_files := (nm_files st)[nat i := f (nm_files st ! nat i)]\<rparr>
      | None \<Rightarrow> st)"

definition nm_update_file_location :: "nm_state \<Rightarrow> name \<Rightarrow> int \<Rightarrow> unit res \<times> nm_state" where
  "nm_update_file_location st name ss_index =
     (case nm_find_file st name of
        None \<Rightarrow> (Fail None, st)
      | Some _ \<Rightarrow> (Ok (), nm_modify_file st name (\<lambda>f. f\<lparr>fe_ss := ss_index\<rparr>)))"

definition nm_update_file_metadata :: "nm_state \<Rightarrow> name \<Rightarrow> nat \<Rightarrow> nat \<Rightarrow> time_t \<Rightarrow> time_t \<Rightarrow> string option
    \<Rightarrow> unit res \<times> nm_state" where
  "nm_update_file_metadata st name words chars modified last_access last_user =
     (case nm_find_file st name of
        None \<Rightarrow> (Fail None, st)
      | Some _ \<Rightarrow>
          (Ok (), nm_modify_file st name
             (\<lambda>f. f\<lparr>fe_words := words, fe_chars := chars,
                fe_modified := (if modified \<noteq> 0 then modified else fe_modified f),
                fe_last_access := (if last_access \<noteq> 0 then last_access else fe_last_access f),
                fe_last_user := (case last_user of
                    Some u \<Rightarrow> if u \<noteq> [] then buf NM_MAX_USER u else fe_last_user f
                  | None \<Rightarrow> fe_last_user f)\<rparr>)))"


section \<open>Access control\<close>

definition find_acl :: "file_entry \<Rightarrow> string \<Rightarrow> nat option" where
  "find_acl file user = find_index (\<lambda>a. acl_user a = user) (fe_acl file)"

definition nm_grant_access :: "nm_state \<Rightarrow> name \<Rightarrow> string \<Rightarrow> 32 word \<Rightarrow> unit res \<times> nm_state" where
  "nm_grant_access st name user perm =
     (case nm_find_file st name of
        None \<Rightarrow> (Fail None, st)
      | Some file \<Rightarrow>
          if fe_owner file = user then (Ok (), st)
          else case find_acl file user of
            Some i \<Rightarrow>
              (Ok (), nm_modify_file st name
                 (\<lambda>f. f\<lparr>fe_acl := (fe_acl f)[i := (fe_acl f ! i)\<lparr>acl_perm := acl_perm (fe_acl f ! i) OR perm\<rparr>]\<rparr>))
          | None \<Rightarrow>
              if NM_MAX_ACL \<le> length (fe_acl file) then (Fail (Some ENOSPC), st)
              else (Ok (), nm_modify_file st name
                (\<lambda>f. f\<lparr>fe_acl := fe_acl f @ [\<lparr>acl_user = buf NM_MAX_USER user, acl_perm = perm OR NM_PERM_READ\<rparr>]\<rparr>)))"

text \<open>The last entry moves into the place of the removed one.\<close>

definition drop_swap :: "nat \<Rightarrow> 'a list \<Rightarrow> 'a list" where
  "drop_swap i xs = butlast (xs[i := last xs])"

definition nm_remove_access :: "nm_state \<Rightarrow> name \<Rightarrow> string \<Rightarrow> unit res \<times> nm_state" where
  "nm_remove_access st name user =
     (case nm_find_file st name of
        None \<Rightarrow> (Fail None, st)
      | Some file \<Rightarrow>
          (case find_acl file user of
             None \<Rightarrow> (Ok (), st)
           | Some i \<Rightarrow> (Ok (), nm_modify_file st name (\<lambda>f. f\<lparr>fe_acl := drop_swap i (fe_acl f)\<rparr>))))"

definition nm_check_access :: "nm_state \<Rightarrow> name \<Rightarrow> string \<Rightarrow> 32 word \<Rightarrow> unit res" where
  "nm_check_access st name user perm =
     (case nm_find_file st name of
        None \<Rightarrow> Fail None
      | Some file \<Rightarrow>
          if fe_owner file = user then Ok ()
          else case find_acl file user of
            None \<Rightarrow> Fail (Some EACCES)
          | Some i \<Rightarrow> if acl_perm (fe_acl file ! i) AND perm \<noteq> perm then Fail (Some EACCES) else Ok ())"

section \<open>Checkpoints\<close>

definition file_find_checkpoint :: "file_entry \<Rightarrow> string \<Rightarrow> checkpoint_entry option" where
  "file_find_checkpoint file tag =
     map_option ((!) (fe_checkpoints file)) (find_index (\<lambda>c. ck_tag c = tag) (fe_checkpoints file))"

definition nm_file_add_checkpoint :: "nm_state \<Rightarrow> name \<Rightarrow> string \<Rightarrow> string \<Rightarrow> time_t \<Rightarrow> unit res \<times> nm_state" where
  "nm_file_add_checkpoint st name tag user timestamp =
     (case nm_find_file st name of
        None \<Rightarrow> (Fail (Some ENOENT), st)
      | Some file \<Rightarrow>
          if file_find_checkpoint file tag \<noteq> None then (Fail (Some EEXIST), st)
          else if NM_MAX_CHECKPOINTS \<le> length (fe_checkpoints file) then (Fail (Some ENOSPC), st)
          else (Ok (), nm_modify_file st name
            (\<lambda>f. f\<lparr>fe_checkpoints := fe_checkpoints f @
               [\<lparr>ck_tag = buf NM_MAX_NAME tag, ck_user = buf NM_MAX_USER user, ck_time = timestamp\<rparr>]\<rparr>)))"

section \<open>Users\<close>

definition find_user :: "nm_state \<Rightarrow> string \<Rightarrow> nat option" where
  "find_user st user = find_index (\<lambda>u. ue_name u = user) (nm_users st)"

definition nm_add_user :: "time_t \<Rightarrow> nm_state \<Rightarrow> string \<Rightarrow> unit res \<times> nm_state" where
  "nm_add_user now st user =
     (case find_user st user of
        Some i \<Rightarrow> (Ok (), st\<lparr>nm_users := (nm_users st)[i := (nm_users st ! i)\<lparr>ue_last_seen := now\<rparr>]\<rparr>)
      | None \<Rightarrow>
          if NM_MAX_USERS \<le> length (nm_users st) then (Fail (Some ENOSPC), st)
          else (Ok (), st\<lparr>nm_users := nm_users st @ [\<lparr>ue_name = buf NM_MAX_USER user, ue_last_seen = now\<rparr>]\<rparr>))"

definition nm_get_user :: "nm_state \<Rightarrow> string \<Rightarrow> user_entry option" where
  "nm_get_user st user = map_option ((!) (nm_users st)) (find_user st user)"

section \<open>The location cache\<close>

definition cache_index :: "nm_state \<Rightarrow> name \<Rightarrow> nat option" where
  "cache_index st name = find_index (\<lambda>c. ce_name c = name) (nm_cache st)"

definition nm_cache_lookup :: "time_t \<Rightarrow> nm_state \<Rightarrow> name \<Rightarrow> int option \<times> nm_state" where
  "nm_cache_lookup now st name =
     (case cache_index st name of
        None \<Rightarrow> (None, st)
      | Some i \<Rightarrow>
          (Some (ce_ss (nm_cache st ! i)),
           st\<lparr>nm_cache := (nm_cache st)[i := (nm_cache st ! i)\<lparr>ce_used := now\<rparr>]\<rparr>))"

text \<open>The first entry with the smallest \<^verbatim>\<open>last_used\<close>.\<close>

fun oldest_loop :: "cache_entry list \<Rightarrow> nat \<Rightarrow> nat \<Rightarrow> time_t \<Rightarrow> nat" where
  "oldest_loop [] i oldest oldest_ts = oldest"
| "oldest_loop (e # es) i oldest oldest_ts =
     (if ce_used e < oldest_ts then oldest_loop es (Suc i) i (ce_used e)
      else oldest_loop es (Suc i) oldest oldest_ts)"

definition oldest_index :: "cache_entry list \<Rightarrow> nat" where
  "oldest_index es = oldest_loop (tl es) 1 0 (ce_used (hd es))"

definition nm_cache_put :: "time_t \<Rightarrow> nm_state \<Rightarrow> name \<Rightarrow> int \<Rightarrow> nm_state" where
  "nm_cache_put now st name ss_index =
     (case cache_index st name of
        Some i \<Rightarrow> st\<lparr>nm_cache := (nm_cache st)[i := (nm_cache st ! i)\<lparr>ce_ss := ss_index, ce_used := now\<rparr>]\<rparr>
      | None \<Rightarrow>
          let cache = (if NM_MAX_CACHE \<le> length (nm_cache st)
                       then drop_swap (oldest_index (nm_cache st)) (nm_cache st) else nm_cache st) in
          st\<lparr>nm_cache := cache @ [\<lparr>ce_name = buf NM_MAX_NAME name, ce_ss = ss_index, ce_used = now\<rparr>]\<rparr>)"

end
