(* ===== verification/NM_Hash.thy ===== *)
theory NM_Hash
  imports NM_State
begin

text \<open>
  The hash table of the name manager is a correct map from names to entries: the chains
  are finite and disjoint and cover the files, so that no walk runs out of fuel, and
  adding and removing files, including the move of the last entry into a freed slot,
  keep it so. The table provides the contract \<open>name_table\<close>.
\<close>

section \<open>Chains\<close>

text \<open>\<open>chain fs h xs\<close>: following \<^verbatim>\<open>hash_next\<close> from \<open>h\<close> visits the indices \<open>xs\<close> and then stops.\<close>

fun chain :: "file_entry list \<Rightarrow> int \<Rightarrow> nat list \<Rightarrow> bool" where
  "chain fs h [] \<longleftrightarrow> h < 0"
| "chain fs h (i # is) \<longleftrightarrow> h = int i \<and> i < length fs \<and> chain fs (fe_next (fs ! i)) is"

lemma chain_cong:
  "(\<And>i. i \<in> set xs \<Longrightarrow> i < length fs \<Longrightarrow> i < length gs \<and> fe_next (gs ! i) = fe_next (fs ! i)) \<Longrightarrow>
    chain fs h xs \<Longrightarrow> chain gs h xs"
  by (induction xs arbitrary: h) auto

lemma chain_bound: "chain fs h xs \<Longrightarrow> i \<in> set xs \<Longrightarrow> i < length fs"
  by (induction xs arbitrary: h) auto

text \<open>
  \<open>linked S st\<close>: exactly the files with an index in \<open>S\<close> are in the table, each in the chain
  of its bucket, once.
\<close>

definition linked :: "nat set \<Rightarrow> nm_state \<Rightarrow> bool" where
  "linked S st \<longleftrightarrow> length (nm_buckets st) = NM_FILE_BUCKETS \<and>
     (\<forall>b < NM_FILE_BUCKETS. \<exists>xs. chain (nm_files st) (nm_buckets st ! b) xs \<and> distinct xs \<and>
        set xs = {i \<in> S. i < length (nm_files st) \<and> bucket_of (fe_name (nm_files st ! i)) = b})"

lemma bucket_bound [simp]: "bucket_of n < NM_FILE_BUCKETS"
  by (simp add: bucket_of_def NM_FILE_BUCKETS_def)

lemma linked_chain:
  assumes "linked S st" and "b < NM_FILE_BUCKETS"
  obtains xs where "chain (nm_files st) (nm_buckets st ! b) xs" "distinct xs"
    "set xs = {i \<in> S. i < length (nm_files st) \<and> bucket_of (fe_name (nm_files st ! i)) = b}"
  using assms by (auto simp: linked_def)

lemma chain_length:
  assumes "chain fs h xs" and "distinct xs"
  shows "length xs \<le> length fs"
proof -
  have "set xs \<subseteq> {..<length fs}" using chain_bound [OF assms(1)] by auto
  then have "card (set xs) \<le> length fs" using card_mono [of "{..<length fs}" "set xs"] by simp
  with assms(2) show ?thesis by (simp add: distinct_card)
qed

section \<open>Finding\<close>

lemma chain_find_walk:
  assumes "chain fs h xs" and "length xs < fuel"
  shows "(\<exists>i \<in> set xs. fe_name (fs ! i) = n \<and> chain_find fuel fs h n = Some (int i)) \<or>
    ((\<forall>i \<in> set xs. fe_name (fs ! i) \<noteq> n) \<and> chain_find fuel fs h n = Some (-1))"
  using assms
proof (induction xs arbitrary: h fuel)
  case Nil
  then show ?case by (cases fuel) auto
next
  case (Cons i xs)
  then obtain k where k: "fuel = Suc k" by (cases fuel) auto
  show ?case
  proof (cases "fe_name (fs ! i) = n")
    case True
    then show ?thesis using Cons.prems k by auto
  next
    case False
    have "(\<exists>j \<in> set xs. fe_name (fs ! j) = n \<and> chain_find k fs (fe_next (fs ! i)) n = Some (int j)) \<or>
      ((\<forall>j \<in> set xs. fe_name (fs ! j) \<noteq> n) \<and> chain_find k fs (fe_next (fs ! i)) n = Some (-1))"
      by (rule Cons.IH) (use Cons.prems k in auto)
    with False Cons.prems k show ?thesis by auto
  qed
qed

definition all_linked :: "nm_state \<Rightarrow> bool" where
  "all_linked st \<longleftrightarrow> linked {..<length (nm_files st)} st"

lemma find_file_index_correct:
  assumes "all_linked st"
  shows "(\<exists>i < length (nm_files st). fe_name (nm_files st ! i) = n \<and> find_file_index st n = Some (int i)) \<or>
    ((\<forall>i < length (nm_files st). fe_name (nm_files st ! i) \<noteq> n) \<and> find_file_index st n = Some (-1))"
proof -
  obtain xs where xs: "chain (nm_files st) (nm_buckets st ! bucket_of n) xs" "distinct xs"
    "set xs = {i. i < length (nm_files st) \<and> bucket_of (fe_name (nm_files st ! i)) = bucket_of n}"
    using linked_chain [OF assms [unfolded all_linked_def] bucket_bound, of n] by auto
  have "length xs < length (nm_files st) + 1" using chain_length [OF xs(1,2)] by simp
  from chain_find_walk [OF xs(1) this, of n] show ?thesis
  proof
    assume "\<exists>i \<in> set xs. fe_name (nm_files st ! i) = n \<and>
      chain_find (length (nm_files st) + 1) (nm_files st) (nm_buckets st ! bucket_of n) n = Some (int i)"
    then show ?thesis using xs(3) unfolding find_file_index_def by blast
  next
    assume none: "(\<forall>i \<in> set xs. fe_name (nm_files st ! i) \<noteq> n) \<and>
      chain_find (length (nm_files st) + 1) (nm_files st) (nm_buckets st ! bucket_of n) n = Some (-1)"
    then have "\<forall>i < length (nm_files st). fe_name (nm_files st ! i) \<noteq> n" using xs(3) by blast
    with none show ?thesis unfolding find_file_index_def by blast
  qed
qed

section \<open>Linking and unlinking\<close>

lemma file_hash_insert_linked:
  assumes "linked S st" and "index < length (nm_files st)" and "index \<notin> S"
  shows "linked (insert index S) (file_hash_insert st index)"
proof -
  let ?st = "file_hash_insert st index"
  let ?fs = "nm_files st" and ?b = "bucket_of (fe_name (nm_files st ! index))"
  have fs': "nm_files ?st = ?fs[index := (?fs ! index)\<lparr>fe_next := nm_buckets st ! ?b\<rparr>]"
    and bs': "nm_buckets ?st = (nm_buckets st)[?b := int index]"
    using assms(2) by (simp_all add: file_hash_insert_def Let_def)
  have lb: "length (nm_buckets st) = NM_FILE_BUCKETS" using assms(1) by (simp add: linked_def)
  have nm: "fe_name (nm_files ?st ! i) = fe_name (?fs ! i)" if "i < length ?fs" for i
    using that by (cases "i = index") (simp_all add: fs')
  have len: "length (nm_files ?st) = length ?fs" by (simp add: fs')
  have names: "bucket_of (fe_name (nm_files ?st ! i)) = b \<and> i < length (nm_files ?st) \<longleftrightarrow>
      bucket_of (fe_name (?fs ! i)) = b \<and> i < length ?fs" for i b
    using nm len by auto
  have "\<exists>xs. chain (nm_files ?st) (nm_buckets ?st ! b) xs \<and> distinct xs \<and>
      set xs = {i \<in> insert index S. i < length (nm_files ?st) \<and> bucket_of (fe_name (nm_files ?st ! i)) = b}"
    if b: "b < NM_FILE_BUCKETS" for b
  proof -
    obtain xs where xs: "chain ?fs (nm_buckets st ! b) xs" "distinct xs"
      "set xs = {i \<in> S. i < length ?fs \<and> bucket_of (fe_name (?fs ! i)) = b}"
      by (rule linked_chain [OF assms(1) b])
    have notin: "index \<notin> set xs" using xs(3) assms(3) by simp
    have same: "chain (nm_files ?st) h xs" if "chain ?fs h xs" for h
    proof (rule chain_cong [OF _ that])
      fix i assume "i \<in> set xs" "i < length ?fs"
      moreover from this notin have "index \<noteq> i" by blast
      ultimately show "i < length (nm_files ?st) \<and> fe_next (nm_files ?st ! i) = fe_next (?fs ! i)"
        by (simp add: fs')
    qed
    show ?thesis
    proof (cases "b = ?b")
      case True
      have "chain (nm_files ?st) (nm_buckets ?st ! b) (index # xs)"
        using same [OF xs(1)] assms(2) True lb b by (simp add: fs' bs')
      moreover have "set (index # xs) =
          {i \<in> insert index S. i < length (nm_files ?st) \<and> bucket_of (fe_name (nm_files ?st ! i)) = b}"
        using xs(3) True assms(2) names by auto
      moreover have "distinct (index # xs)" using xs(2,3) assms(3) by auto
      ultimately show ?thesis by blast
    next
      case False
      have "chain (nm_files ?st) (nm_buckets ?st ! b) xs"
        using same [OF xs(1)] False lb b by (simp add: bs')
      moreover have "set xs = {i \<in> insert index S. i < length (nm_files ?st) \<and> bucket_of (fe_name (nm_files ?st ! i)) = b}"
        using xs(3) False names nm [OF assms(2)] by auto
      ultimately show ?thesis using xs(2) by blast
    qed
  qed
  then show ?thesis using lb by (auto simp: linked_def bs')
qed


text \<open>
  \<open>same_content\<close>: the states differ at most in the links. Removing an index from the
  chain that starts at a link changes nothing else.
\<close>

definition strip :: "file_entry \<Rightarrow> file_entry" where
  "strip f = f\<lparr>fe_next := -1\<rparr>"

definition same_content :: "nm_state \<Rightarrow> nm_state \<Rightarrow> bool" where
  "same_content a b \<longleftrightarrow> map strip (nm_files a) = map strip (nm_files b) \<and>
     length (nm_buckets a) = length (nm_buckets b) \<and>
     a\<lparr>nm_files := [], nm_buckets := []\<rparr> = b\<lparr>nm_files := [], nm_buckets := []\<rparr>"

lemma same_content_refl [simp]: "same_content a a"
  by (simp add: same_content_def)

lemma same_content_length: "same_content a b \<Longrightarrow> length (nm_files a) = length (nm_files b)"
  unfolding same_content_def by (metis length_map)

lemma strip_next [simp]: "strip (f\<lparr>fe_next := v\<rparr>) = strip f"
  by (simp add: strip_def)

lemma strip_name: "strip a = strip b \<Longrightarrow> fe_name a = fe_name b"
  by (cases a; cases b) (simp add: strip_def)

lemma same_content_nth:
  "same_content a b \<Longrightarrow> i < length (nm_files b) \<Longrightarrow> strip (nm_files a ! i) = strip (nm_files b ! i)"
  unfolding same_content_def by (metis length_map nth_map)

lemma same_content_write: "same_content (write_link st lnk v) st"
proof (cases lnk)
  case (Next i)
  have "map strip ((nm_files st)[i := (nm_files st ! i)\<lparr>fe_next := v\<rparr>]) = map strip ((nm_files st)[i := nm_files st ! i])"
    by (simp only: map_update strip_next)
  with Next show ?thesis by (simp add: same_content_def)
qed (simp add: same_content_def)

lemma hash_remove_loop_chain:
  assumes "chain (nm_files st) (read_link st lnk) xs" and "length xs < fuel"
    and "case lnk of Bucket b \<Rightarrow> b < length (nm_buckets st) | Next j \<Rightarrow> j < length (nm_files st) \<and> j \<notin> set xs"
    and "distinct xs"
  shows "\<exists>st'. hash_remove_loop fuel st lnk index = Some st' \<and>
    chain (nm_files st') (read_link st' lnk) (removeAll index xs) \<and>
    same_content st' st \<and>
    (\<forall>b. lnk \<noteq> Bucket b \<longrightarrow> nm_buckets st' ! b = nm_buckets st ! b) \<and>
    (\<forall>j. j \<notin> set xs \<longrightarrow> lnk \<noteq> Next j \<longrightarrow> nm_files st' ! j = nm_files st ! j)"
  using assms
proof (induction xs arbitrary: lnk fuel)
  case Nil
  then obtain k where "fuel = Suc k" by (cases fuel) auto
  with Nil show ?case by (auto simp: Let_def)
next
  case (Cons i xs)
  obtain k where k: "fuel = Suc k" using Cons.prems(2) by (cases fuel) auto
  have i: "read_link st lnk = int i" "i < length (nm_files st)" "chain (nm_files st) (fe_next (nm_files st ! i)) xs"
    "i \<notin> set xs" "distinct xs" using Cons.prems by auto
  show ?case
  proof (cases "i = index")
    case True
    let ?st = "write_link st lnk (fe_next (nm_files st ! index))"
    have run: "hash_remove_loop fuel st lnk index = Some ?st" using k i(1) True by (simp add: Let_def)
    have rl: "read_link ?st lnk = fe_next (nm_files st ! index)"
      using Cons.prems(3) by (cases lnk) simp_all
    have names: "same_content ?st st" by (rule same_content_write)
    have other: "nm_files ?st ! j = nm_files st ! j" if "lnk \<noteq> Next j" for j
      using that by (cases lnk) simp_all
    have "chain (nm_files ?st) (fe_next (nm_files st ! index)) xs"
    proof (rule chain_cong [OF _ i(3) [unfolded True]])
      fix j assume j: "j \<in> set xs" "j < length (nm_files st)"
      have "lnk \<noteq> Next j" using Cons.prems(3) j(1) by auto
      moreover have "length (nm_files ?st) = length (nm_files st)" using names by (rule same_content_length)
      ultimately show "j < length (nm_files ?st) \<and> fe_next (nm_files ?st ! j) = fe_next (nm_files st ! j)"
        using other j(2) by simp
    qed
    moreover have "removeAll index (i # xs) = xs" using True i(4) by simp
    ultimately show ?thesis
      using run rl names other by (intro exI [of _ ?st]) (cases lnk; auto)
  next
    case False
    have "\<exists>st'. hash_remove_loop k st (Next i) index = Some st' \<and>
      chain (nm_files st') (read_link st' (Next i)) (removeAll index xs) \<and>
      same_content st' st \<and>
      (\<forall>b. Next i \<noteq> Bucket b \<longrightarrow> nm_buckets st' ! b = nm_buckets st ! b) \<and>
      (\<forall>j. j \<notin> set xs \<longrightarrow> Next i \<noteq> Next j \<longrightarrow> nm_files st' ! j = nm_files st ! j)"
      by (rule Cons.IH) (use i k Cons.prems(2) in auto)
    then obtain st' where st': "hash_remove_loop k st (Next i) index = Some st'"
      "chain (nm_files st') (fe_next (nm_files st' ! i)) (removeAll index xs)"
      "same_content st' st"
      "\<forall>b. nm_buckets st' ! b = nm_buckets st ! b"
      "\<forall>j. j \<notin> set xs \<longrightarrow> i \<noteq> j \<longrightarrow> nm_files st' ! j = nm_files st ! j" by auto
    have len: "length (nm_files st') = length (nm_files st)" using st'(3) by (rule same_content_length)
    have rl: "read_link st' lnk = int i"
      using i(1) st'(4,5) Cons.prems(3) by (cases lnk) auto
    have "hash_remove_loop fuel st lnk index = Some st'"
      using k i(1) False st'(1) by (simp add: Let_def)
    then show ?thesis using st' rl i(2) len False by (intro exI [of _ st']) auto
  qed
qed


lemma file_hash_remove_linked:
  assumes "linked S st" and "index < length (nm_files st)"
  shows "\<exists>st'. file_hash_remove st index = Some st' \<and> linked (S - {index}) st' \<and> same_content st' st"
proof -
  let ?fs = "nm_files st" and ?b = "bucket_of (fe_name (nm_files st ! index))"
  have lb: "length (nm_buckets st) = NM_FILE_BUCKETS" using assms(1) by (simp add: linked_def)
  obtain xs where xs: "chain ?fs (nm_buckets st ! ?b) xs" "distinct xs"
    "set xs = {i \<in> S. i < length ?fs \<and> bucket_of (fe_name (?fs ! i)) = ?b}"
    by (rule linked_chain [OF assms(1) bucket_bound])
  have "\<exists>st'. hash_remove_loop (length ?fs + 1) st (Bucket ?b) index = Some st' \<and>
    chain (nm_files st') (read_link st' (Bucket ?b)) (removeAll index xs) \<and> same_content st' st \<and>
    (\<forall>b. Bucket ?b \<noteq> Bucket b \<longrightarrow> nm_buckets st' ! b = nm_buckets st ! b) \<and>
    (\<forall>j. j \<notin> set xs \<longrightarrow> Bucket ?b \<noteq> Next j \<longrightarrow> nm_files st' ! j = nm_files st ! j)"
    by (rule hash_remove_loop_chain) (use xs(1,2) chain_length [OF xs(1,2)] lb in auto)
  then obtain st' where st': "file_hash_remove st index = Some st'"
    "chain (nm_files st') (nm_buckets st' ! ?b) (removeAll index xs)" "same_content st' st"
    "\<And>b. ?b \<noteq> b \<Longrightarrow> nm_buckets st' ! b = nm_buckets st ! b"
    "\<And>j. j \<notin> set xs \<Longrightarrow> nm_files st' ! j = ?fs ! j"
    using assms(2) by (auto simp: file_hash_remove_def)
  have len: "length (nm_files st') = length ?fs" using st'(3) by (rule same_content_length)
  have nm: "fe_name (nm_files st' ! i) = fe_name (?fs ! i)" if "i < length ?fs" for i
    using strip_name [OF same_content_nth [OF st'(3) that]] .
  have "\<exists>ys. chain (nm_files st') (nm_buckets st' ! b) ys \<and> distinct ys \<and>
      set ys = {i \<in> S - {index}. i < length (nm_files st') \<and> bucket_of (fe_name (nm_files st' ! i)) = b}"
    if b: "b < NM_FILE_BUCKETS" for b
  proof (cases "b = ?b")
    case True
    have "set (removeAll index xs) =
        {i \<in> S - {index}. i < length (nm_files st') \<and> bucket_of (fe_name (nm_files st' ! i)) = b}"
      using xs(3) True nm len by auto
    with st'(2) xs(2) True show ?thesis by (intro exI [of _ "removeAll index xs"]) (simp add: distinct_removeAll)
  next
    case False
    obtain ys where ys: "chain ?fs (nm_buckets st ! b) ys" "distinct ys"
      "set ys = {i \<in> S. i < length ?fs \<and> bucket_of (fe_name (?fs ! i)) = b}"
      by (rule linked_chain [OF assms(1) b])
    have disj: "j \<notin> set xs" if "j \<in> set ys" for j using that xs(3) ys(3) False by auto
    have "chain (nm_files st') (nm_buckets st ! b) ys"
      by (rule chain_cong [OF _ ys(1)]) (use st'(5) disj len in auto)
    moreover have "set ys = {i \<in> S - {index}. i < length (nm_files st') \<and> bucket_of (fe_name (nm_files st' ! i)) = b}"
      using ys(3) False nm len by auto
    ultimately show ?thesis using ys(2) st'(4) False by (intro exI [of _ ys]) simp
  qed
  then have "linked (S - {index}) st'" using lb st'(3) by (simp add: linked_def same_content_def)
  with st' show ?thesis by blast
qed


lemma linked_outside:
  assumes "linked S st" and "idx \<notin> S"
  shows "linked S (st\<lparr>nm_files := (nm_files st)[idx := f]\<rparr>)"
proof -
  let ?gs = "(nm_files st)[idx := f]"
  have "\<exists>xs. chain ?gs (nm_buckets st ! b) xs \<and> distinct xs \<and>
      set xs = {i \<in> S. i < length ?gs \<and> bucket_of (fe_name (?gs ! i)) = b}"
    if b: "b < NM_FILE_BUCKETS" for b
  proof -
    obtain xs where xs: "chain (nm_files st) (nm_buckets st ! b) xs" "distinct xs"
      "set xs = {i \<in> S. i < length (nm_files st) \<and> bucket_of (fe_name (nm_files st ! i)) = b}"
      by (rule linked_chain [OF assms(1) b])
    have ne: "idx \<noteq> i" if "i \<in> S" for i using that assms(2) by blast
    then have "chain ?gs (nm_buckets st ! b) xs"
      using xs(3) by (intro chain_cong [OF _ xs(1)]) simp
    moreover have "set xs = {i \<in> S. i < length ?gs \<and> bucket_of (fe_name (?gs ! i)) = b}"
      using xs(3) ne by auto
    ultimately show ?thesis using xs(2) by blast
  qed
  then show ?thesis using assms(1) by (simp add: linked_def)
qed

lemma linked_take:
  assumes "linked S st" and "S \<subseteq> {..<m}" and "m \<le> length (nm_files st)"
  shows "linked S (st\<lparr>nm_files := take m (nm_files st)\<rparr>)"
proof -
  have "\<exists>xs. chain (take m (nm_files st)) (nm_buckets st ! b) xs \<and> distinct xs \<and>
      set xs = {i \<in> S. i < length (take m (nm_files st)) \<and> bucket_of (fe_name (take m (nm_files st) ! i)) = b}"
    if b: "b < NM_FILE_BUCKETS" for b
  proof -
    obtain xs where xs: "chain (nm_files st) (nm_buckets st ! b) xs" "distinct xs"
      "set xs = {i \<in> S. i < length (nm_files st) \<and> bucket_of (fe_name (nm_files st ! i)) = b}"
      by (rule linked_chain [OF assms(1) b])
    have lt: "i < m" if "i \<in> S" for i using that assms(2) by blast
    have "chain (take m (nm_files st)) (nm_buckets st ! b) xs"
      using xs(3) lt by (intro chain_cong [OF _ xs(1)]) simp
    moreover have "set xs = {i \<in> S. i < length (take m (nm_files st)) \<and> bucket_of (fe_name (take m (nm_files st) ! i)) = b}"
      using xs(3) lt assms(3) by auto
    ultimately show ?thesis using xs(2) by blast
  qed
  then show ?thesis using assms(1) by (simp add: linked_def)
qed

lemma same_content_insert: "same_content (file_hash_insert st i) st"
proof -
  have "map strip ((nm_files st)[i := (nm_files st ! i)\<lparr>fe_next := v\<rparr>]) = map strip ((nm_files st)[i := nm_files st ! i])" for v
    by (simp only: map_update strip_next)
  then show ?thesis by (simp add: file_hash_insert_def same_content_def Let_def)
qed

lemma same_content_trans: "same_content a b \<Longrightarrow> same_content b c \<Longrightarrow> same_content a c"
  by (simp add: same_content_def)

section \<open>The invariant, and what the operations do to the map of files\<close>

definition nm_inv :: "nm_state \<Rightarrow> bool" where
  "nm_inv st \<longleftrightarrow> all_linked st \<and> distinct (map fe_name (nm_files st)) \<and> length (nm_files st) \<le> NM_MAX_FILES"

text \<open>A file as a client sees it, without its link.\<close>

definition nm_lookup :: "nm_state \<Rightarrow> name \<Rightarrow> file_entry option" where
  "nm_lookup st n = map_option strip (nm_find_file st n)"

lemma strip_fe_name [simp]: "fe_name (strip f) = fe_name f"
  by (simp add: strip_def)

lemma nm_lookup_Some_iff:
  assumes "nm_inv st"
  shows "nm_lookup st n = Some e \<longleftrightarrow> e \<in> strip ` set (nm_files st) \<and> fe_name e = n"
proof -
  have dist: "distinct (map fe_name (nm_files st))" and al: "all_linked st" using assms by (auto simp: nm_inv_def)
  from find_file_index_correct [OF al, of n] show ?thesis
  proof
    assume "\<exists>i < length (nm_files st). fe_name (nm_files st ! i) = n \<and> find_file_index st n = Some (int i)"
    then obtain i where i: "i < length (nm_files st)" "fe_name (nm_files st ! i) = n"
      "find_file_index st n = Some (int i)" by blast
    then have l: "nm_lookup st n = Some (strip (nm_files st ! i))" by (simp add: nm_lookup_def nm_find_file_def)
    have un: "f = nm_files st ! i" if "f \<in> set (nm_files st)" "fe_name f = n" for f
    proof -
      from that(1) obtain j where j: "j < length (nm_files st)" "f = nm_files st ! j" by (metis in_set_conv_nth)
      with that(2) i(1,2) nth_eq_iff_index_eq [OF dist, of j i] show ?thesis by simp
    qed
    have "e \<in> strip ` set (nm_files st) \<and> fe_name e = n \<longleftrightarrow> e = strip (nm_files st ! i)"
    proof
      assume "e \<in> strip ` set (nm_files st) \<and> fe_name e = n"
      then obtain f where f: "f \<in> set (nm_files st)" "e = strip f" and "fe_name e = n" by blast
      then have "fe_name f = n" by simp
      from un [OF f(1) this] f(2) show "e = strip (nm_files st ! i)" by simp
    qed (use i(1,2) in auto)
    with l show ?thesis by auto
  next
    assume none: "(\<forall>i < length (nm_files st). fe_name (nm_files st ! i) \<noteq> n) \<and> find_file_index st n = Some (-1)"
    then have "nm_lookup st n = None" by (simp add: nm_lookup_def nm_find_file_def)
    moreover have "\<forall>f \<in> set (nm_files st). fe_name f \<noteq> n" using none by (metis in_set_conv_nth)
    then have "\<not> (e \<in> strip ` set (nm_files st) \<and> fe_name e = n)" by fastforce
    ultimately show ?thesis by simp
  qed
qed

lemma nm_lookup_None_iff:
  assumes "nm_inv st"
  shows "nm_lookup st n = None \<longleftrightarrow> n \<notin> fe_name ` set (nm_files st)"
proof (cases "nm_lookup st n")
  case None
  have "fe_name f \<noteq> n" if "f \<in> set (nm_files st)" for f
    using nm_lookup_Some_iff [OF assms, of n "strip f"] None that by auto
  with None show ?thesis by auto
next
  case (Some e)
  with nm_lookup_Some_iff [OF assms, of n e] show ?thesis by auto
qed

lemma find_file_index_cases:
  assumes "nm_inv st"
  obtains (found) i where "find_file_index st n = Some (int i)" "i < length (nm_files st)"
      "fe_name (nm_files st ! i) = n" "nm_find_file st n = Some (nm_files st ! i)"
      "nm_lookup st n = Some (strip (nm_files st ! i))"
  | (absent) "find_file_index st n = Some (-1)" "nm_find_file st n = None" "nm_lookup st n = None"
      "n \<notin> fe_name ` set (nm_files st)"
proof -
  have al: "all_linked st" using assms by (simp add: nm_inv_def)
  from find_file_index_correct [OF al, of n] show ?thesis
  proof
    assume "\<exists>i < length (nm_files st). fe_name (nm_files st ! i) = n \<and> find_file_index st n = Some (int i)"
    then show ?thesis using found by (auto simp: nm_lookup_def nm_find_file_def)
  next
    assume none: "(\<forall>i < length (nm_files st). fe_name (nm_files st ! i) \<noteq> n) \<and> find_file_index st n = Some (-1)"
    then have a: "find_file_index st n = Some (-1)" "nm_find_file st n = None" "nm_lookup st n = None"
      by (simp_all add: nm_lookup_def nm_find_file_def)
    with nm_lookup_None_iff [OF assms, of n] show ?thesis by (intro absent) simp_all
  qed
qed


section \<open>Adding and removing\<close>

lemma fe_name_new [simp]: "fe_name (new_file_entry n ow s b t) = buf NM_MAX_NAME n"
  by (simp add: new_file_entry_def)

lemma strip_new [simp]: "strip (new_file_entry n ow s b t) = new_file_entry n ow s b t"
  by (simp add: new_file_entry_def strip_def)

lemma strip_set: "map strip xs = map strip ys \<Longrightarrow> strip ` set xs = strip ` set ys"
  by (metis list.set_map)

lemma map_fe_name_strip: "map strip xs = map strip ys \<Longrightarrow> map fe_name xs = map fe_name ys"
proof -
  have "map fe_name zs = map fe_name (map strip zs)" for zs by simp
  then show "map strip xs = map strip ys \<Longrightarrow> map fe_name xs = map fe_name ys" by metis
qed

lemma linked_append: "linked S st \<Longrightarrow> S \<subseteq> {..<length (nm_files st)} \<Longrightarrow> linked S (st\<lparr>nm_files := nm_files st @ fs\<rparr>)"
proof -
  assume l: "linked S st" and S: "S \<subseteq> {..<length (nm_files st)}"
  let ?gs = "nm_files st @ fs"
  have "\<exists>xs. chain ?gs (nm_buckets st ! b) xs \<and> distinct xs \<and>
      set xs = {i \<in> S. i < length ?gs \<and> bucket_of (fe_name (?gs ! i)) = b}"
    if b: "b < NM_FILE_BUCKETS" for b
  proof -
    obtain xs where xs: "chain (nm_files st) (nm_buckets st ! b) xs" "distinct xs"
      "set xs = {i \<in> S. i < length (nm_files st) \<and> bucket_of (fe_name (nm_files st ! i)) = b}"
      by (rule linked_chain [OF l b])
    have lt: "i < length (nm_files st)" if "i \<in> S" for i using that S by blast
    have "chain ?gs (nm_buckets st ! b) xs"
      by (rule chain_cong [OF _ xs(1)]) (simp add: nth_append)
    moreover have "set xs = {i \<in> S. i < length ?gs \<and> bucket_of (fe_name (?gs ! i)) = b}"
      using xs(3) lt by (auto simp: nth_append)
    ultimately show ?thesis using xs(2) by blast
  qed
  then show ?thesis using l by (simp add: linked_def)
qed

lemma insert_last_inv:
  assumes "nm_inv st" and "length (nm_files st) < NM_MAX_FILES" and "fe_name e \<notin> fe_name ` set (nm_files st)"
  defines "st' \<equiv> file_hash_insert (st\<lparr>nm_files := nm_files st @ [e]\<rparr>) (length (nm_files st))"
  shows "nm_inv st'" and "map strip (nm_files st') = map strip (nm_files st) @ [strip e]"
    and "same_content st' (st\<lparr>nm_files := nm_files st @ [e]\<rparr>)"
proof -
  let ?len = "length (nm_files st)" and ?st1 = "st\<lparr>nm_files := nm_files st @ [e]\<rparr>"
  have "linked {..<?len} ?st1" using assms(1) by (intro linked_append) (auto simp: nm_inv_def all_linked_def)
  then have "linked (insert ?len {..<?len}) st'" unfolding st'_def by (rule file_hash_insert_linked) simp_all
  moreover show sc: "same_content st' ?st1" unfolding st'_def by (rule same_content_insert)
  moreover have "length (nm_files st') = Suc ?len" using same_content_length [OF sc] by simp
  moreover have "insert ?len {..<?len} = {..<Suc ?len}" by auto
  ultimately have al: "all_linked st'" by (simp add: all_linked_def)
  show fs: "map strip (nm_files st') = map strip (nm_files st) @ [strip e]"
    using sc by (simp add: same_content_def)
  have "map fe_name (nm_files st') = map fe_name (nm_files st @ [e])"
    by (rule map_fe_name_strip) (simp add: fs)
  then have "distinct (map fe_name (nm_files st'))" using assms(1,3) by (simp add: nm_inv_def)
  with al assms(2) same_content_length [OF sc] show "nm_inv st'" by (simp add: nm_inv_def)
qed

lemma nm_add_file_cases:
  assumes "nm_inv st" and "length n < NM_MAX_NAME"
  obtains (full) "NM_MAX_FILES \<le> length (nm_files st)"
      "nm_add_file st n ow s b t = Some (Fail (Some ENOSPC), st)"
  | (present) "length (nm_files st) < NM_MAX_FILES" "nm_lookup st n \<noteq> None"
      "nm_add_file st n ow s b t = Some (Fail (Some EEXIST), st)"
  | (added) st' where "length (nm_files st) < NM_MAX_FILES" "nm_lookup st n = None"
      "nm_add_file st n ow s b t = Some (Ok (), st')" "nm_inv st'"
      "map strip (nm_files st') = map strip (nm_files st) @ [new_file_entry n ow s b t]"
      "st'\<lparr>nm_files := [], nm_buckets := []\<rparr> = st\<lparr>nm_files := [], nm_buckets := []\<rparr>"
proof (cases "NM_MAX_FILES \<le> length (nm_files st)")
  case True
  then show ?thesis by (intro full) (simp_all add: nm_add_file_def)
next
  case False
  show ?thesis
  proof (cases rule: find_file_index_cases [OF assms(1), of n])
    case (1 i)
    with False show ?thesis by (intro present) (simp_all add: nm_add_file_def)
  next
    case 2
    let ?new = "new_file_entry n ow s b t" and ?len = "length (nm_files st)"
    let ?st1 = "st\<lparr>nm_files := nm_files st @ [?new]\<rparr>"
    let ?st' = "file_hash_insert ?st1 ?len"
    have add: "nm_add_file st n ow s b t = Some (Ok (), ?st')"
      using False 2(1) by (simp add: nm_add_file_def)
    have "fe_name ?new \<notin> fe_name ` set (nm_files st)" using 2(4) assms(2) by simp
    note new = insert_last_inv [OF assms(1) _ this]
    have "nm_inv ?st'" and st': "map strip (nm_files ?st') = map strip (nm_files st) @ [?new]"
      and sc: "same_content ?st' ?st1" using new False by simp_all
    with False 2(3) add st' sc show ?thesis by (intro added [of ?st']) (simp_all add: same_content_def)
  qed
qed

lemma drop_swap_props:
  assumes "distinct (map g xs)" and "i < length xs"
  shows "set (drop_swap i xs) = set xs - {xs ! i}" and "distinct (map g (drop_swap i xs))"
    and "length (drop_swap i xs) = length xs - 1" and "map h (drop_swap i xs) = drop_swap i (map h xs)"
proof -
  obtain ys z where xs: "xs = ys @ [z]" using assms(2) by (cases xs rule: rev_cases) auto
  have d: "distinct xs" using assms(1) by (simp add: distinct_map)
  have "set (drop_swap i xs) = set xs - {xs ! i} \<and> distinct (map g (drop_swap i xs))"
  proof (cases "i < length ys")
    case True
    then have ds: "drop_swap i xs = ys[i := z]" using xs by (simp add: drop_swap_def list_update_append)
    have "set (ys[i := z]) = insert z (set ys - {ys ! i})" using d xs True by (intro set_update_distinct) auto
    moreover have "distinct (map g (ys[i := z]))"
      using assms(1) xs True by (simp add: map_update distinct_list_update)
    moreover have "z \<noteq> ys ! i" using d xs nth_mem [OF True] by auto
    ultimately show ?thesis using xs True d ds by (auto simp: nth_append)
  next
    case False
    then have "i = length ys" using assms(2) xs by simp
    then have "drop_swap i xs = ys" "xs ! i = z" using xs by (simp_all add: drop_swap_def)
    then show ?thesis using xs d assms(1) by auto
  qed
  then show "set (drop_swap i xs) = set xs - {xs ! i}" "distinct (map g (drop_swap i xs))" by auto
  show "length (drop_swap i xs) = length xs - 1" by (simp add: drop_swap_def)
  have "xs \<noteq> []" using assms(2) by auto
  then show "map h (drop_swap i xs) = drop_swap i (map h xs)"
    by (simp add: drop_swap_def map_butlast map_update last_map)
qed


text \<open>Unlinking the removed and the last entry, moving the last one, and linking it again.\<close>

lemma move_last:
  assumes "all_linked st" and "idx < length (nm_files st)" and "idx \<noteq> length (nm_files st) - 1"
    and "file_hash_remove st idx = Some st1"
  shows "\<exists>st2 st3. file_hash_remove st1 (length (nm_files st) - 1) = Some st2 \<and>
    st3 = file_hash_insert (st2\<lparr>nm_files := (nm_files st2)[idx := nm_files st2 ! (length (nm_files st) - 1)]\<rparr>) idx \<and>
    linked {..<length (nm_files st) - 1} st3 \<and> length (nm_files st3) = length (nm_files st) \<and>
    map strip (nm_files st3) = (map strip (nm_files st))[idx := strip (nm_files st ! (length (nm_files st) - 1))] \<and>
    st3\<lparr>nm_files := [], nm_buckets := []\<rparr> = st\<lparr>nm_files := [], nm_buckets := []\<rparr>"
proof -
  let ?n = "length (nm_files st)"
  have l1: "linked ({..<?n} - {idx}) st1" and c1: "same_content st1 st"
    using file_hash_remove_linked [OF assms(1) [unfolded all_linked_def] assms(2)] assms(4) by auto
  have n1: "length (nm_files st1) = ?n" by (rule same_content_length [OF c1])
  have "?n - 1 < length (nm_files st1)" using n1 assms(2) by simp
  from file_hash_remove_linked [OF l1 this] obtain st2 where
    st2: "file_hash_remove st1 (?n - 1) = Some st2" "linked ({..<?n} - {idx} - {?n - 1}) st2" "same_content st2 st1"
    by blast
  have c2: "same_content st2 st" by (rule same_content_trans [OF st2(3) c1])
  have n2: "length (nm_files st2) = ?n" by (rule same_content_length [OF c2])
  let ?m = "st2\<lparr>nm_files := (nm_files st2)[idx := nm_files st2 ! (?n - 1)]\<rparr>"
  have "linked ({..<?n} - {idx} - {?n - 1}) ?m" by (rule linked_outside [OF st2(2)]) simp
  then have "linked (insert idx ({..<?n} - {idx} - {?n - 1})) (file_hash_insert ?m idx)"
    by (rule file_hash_insert_linked) (use n2 assms(2) in simp_all)
  moreover have "insert idx ({..<?n} - {idx} - {?n - 1}) = {..<?n - 1}" using assms(2,3) by auto
  ultimately have l3: "linked {..<?n - 1} (file_hash_insert ?m idx)" by simp
  have c3: "same_content (file_hash_insert ?m idx) ?m" by (rule same_content_insert)
  have "strip (nm_files st2 ! (?n - 1)) = strip (nm_files st ! (?n - 1))"
    by (rule same_content_nth [OF c2]) (use assms(2) in simp)
  then have "map strip (nm_files (file_hash_insert ?m idx)) = (map strip (nm_files st))[idx := strip (nm_files st ! (?n - 1))]"
    using c3 c2 by (simp add: same_content_def map_update)
  then show ?thesis
    using st2(1) l3 same_content_length [OF c3] n2 c3 c2
    by (intro exI [of _ st2] exI [of _ "file_hash_insert ?m idx"]) (simp add: same_content_def)
qed

lemma last_map_nth: "i < length xs \<Longrightarrow> last (map f xs) = f (xs ! (length xs - 1))"
  by (cases xs rule: rev_cases) simp_all

lemma nm_remove_file_cases:
  assumes "nm_inv st"
  obtains (absent) "nm_lookup st n = None" "nm_remove_file st n = Some (Fail (Some ENOENT), st)"
  | (removed) i st' where "i < length (nm_files st)" "fe_name (nm_files st ! i) = n" "nm_lookup st n \<noteq> None"
      "nm_remove_file st n = Some (Ok (), st')" "nm_inv st'"
      "map strip (nm_files st') = drop_swap i (map strip (nm_files st))"
      "st'\<lparr>nm_files := [], nm_buckets := []\<rparr> = st\<lparr>nm_files := [], nm_buckets := []\<rparr>"
proof (cases rule: find_file_index_cases [OF assms, of n])
  case 2
  then show ?thesis by (intro absent) (simp_all add: nm_remove_file_def)
next
  case (1 i)
  let ?n = "length (nm_files st)"
  have al: "all_linked st" and d: "distinct (map fe_name (nm_files st))" and le: "?n \<le> NM_MAX_FILES"
    using assms by (auto simp: nm_inv_def)
  from file_hash_remove_linked [OF al [unfolded all_linked_def] 1(2)] obtain st1 where
    st1: "file_hash_remove st i = Some st1" "linked ({..<?n} - {i}) st1" "same_content st1 st" by blast
  have "\<exists>st3. nm_remove_file st n = Some (Ok (), st3\<lparr>nm_files := take (?n - 1) (nm_files st3)\<rparr>) \<and>
    linked {..<?n - 1} st3 \<and> length (nm_files st3) = ?n \<and>
    take (?n - 1) (map strip (nm_files st3)) = drop_swap i (map strip (nm_files st)) \<and>
    st3\<lparr>nm_files := [], nm_buckets := []\<rparr> = st\<lparr>nm_files := [], nm_buckets := []\<rparr>"
  proof (cases "i = ?n - 1")
    case True
    have "nm_remove_file st n = Some (Ok (), st1\<lparr>nm_files := take (?n - 1) (nm_files st1)\<rparr>)"
      using 1(1) st1(1) True by (simp add: nm_remove_file_def Let_def)
    moreover have "{..<?n} - {i} = {..<?n - 1}" using True 1(2) by auto
    moreover have "drop_swap i (map strip (nm_files st)) = take (?n - 1) (map strip (nm_files st))"
      using True 1(2) by (simp add: drop_swap_def butlast_conv_take last_conv_nth)
    ultimately show ?thesis
      using st1 same_content_length [OF st1(3)] by (intro exI [of _ st1]) (simp add: same_content_def)
  next
    case False
    from move_last [OF al 1(2) False st1(1)] obtain st2 st3 where m:
      "file_hash_remove st1 (?n - 1) = Some st2"
      "st3 = file_hash_insert (st2\<lparr>nm_files := (nm_files st2)[i := nm_files st2 ! (?n - 1)]\<rparr>) i"
      "linked {..<?n - 1} st3" "length (nm_files st3) = ?n"
      "map strip (nm_files st3) = (map strip (nm_files st))[i := strip (nm_files st ! (?n - 1))]"
      "st3\<lparr>nm_files := [], nm_buckets := []\<rparr> = st\<lparr>nm_files := [], nm_buckets := []\<rparr>" by blast
    have "nm_remove_file st n = Some (Ok (), st3\<lparr>nm_files := take (?n - 1) (nm_files st3)\<rparr>)"
      using 1(1) st1(1) False m(1,2) by (simp add: nm_remove_file_def Let_def)
    moreover have "take (?n - 1) (map strip (nm_files st3)) = drop_swap i (map strip (nm_files st))"
      using m(5) 1(2) by (simp add: drop_swap_def butlast_conv_take last_map_nth)
    ultimately show ?thesis using m by blast
  qed
  then obtain st3 where st3: "nm_remove_file st n = Some (Ok (), st3\<lparr>nm_files := take (?n - 1) (nm_files st3)\<rparr>)"
    "linked {..<?n - 1} st3" "length (nm_files st3) = ?n"
    "take (?n - 1) (map strip (nm_files st3)) = drop_swap i (map strip (nm_files st))"
    "st3\<lparr>nm_files := [], nm_buckets := []\<rparr> = st\<lparr>nm_files := [], nm_buckets := []\<rparr>" by blast
  let ?st' = "st3\<lparr>nm_files := take (?n - 1) (nm_files st3)\<rparr>"
  have "linked {..<?n - 1} ?st'" by (rule linked_take [OF st3(2)]) (use st3(3) in auto)
  then have al': "all_linked ?st'" using st3(3) by (simp add: all_linked_def)
  have ds: "map strip (nm_files ?st') = map strip (drop_swap i (nm_files st))"
    using st3(4) drop_swap_props(4) [OF d 1(2), of strip] by (simp add: take_map)
  have "map fe_name (nm_files ?st') = map fe_name (drop_swap i (nm_files st))" by (rule map_fe_name_strip [OF ds])
  then have "distinct (map fe_name (nm_files ?st'))" using drop_swap_props(2) [OF d 1(2)] by simp
  with al' le st3(3) have "nm_inv ?st'" by (simp add: nm_inv_def)
  with 1 st3(1,4,5) show ?thesis by (intro removed [of i ?st']) (simp_all add: take_map)
qed

end
