(* ===== verification/NM_Files.thy ===== *)
theory NM_Files
  imports NM_Hash
begin

text \<open>
  The files of the name manager as a finite map with a capacity: the hash table provides
  the contract \<open>name_table\<close>, every operation on it ends, and writing through a found entry
  changes that entry only.
\<close>

section \<open>The map of files\<close>

lemma nm_lookup_upd:
  assumes "nm_inv st" "nm_inv st'" "map strip (nm_files st') = map strip (nm_files st) @ [strip e]"
  shows "nm_lookup st' = (nm_lookup st)(fe_name e \<mapsto> strip e)"
proof
  fix m
  have set': "strip ` set (nm_files st') = insert (strip e) (strip ` set (nm_files st))"
  proof -
    have "set (map strip (nm_files st')) = insert (strip e) (set (map strip (nm_files st)))"
      unfolding assms(3) by simp
    then show ?thesis by simp
  qed
  have "map fe_name (nm_files st') = map fe_name (nm_files st @ [e])"
    by (rule map_fe_name_strip) (simp add: assms(3))
  then have new: "fe_name e \<notin> fe_name ` set (nm_files st)" using assms(2) by (simp add: nm_inv_def)
  then have none: "fe_name x \<noteq> fe_name e" if "x \<in> strip ` set (nm_files st)" for x
  proof -
    from that obtain f where f: "f \<in> set (nm_files st)" "x = strip f" by blast
    then have "fe_name x \<in> fe_name ` set (nm_files st)" by simp
    then show ?thesis using new by metis
  qed
  show "nm_lookup st' m = ((nm_lookup st)(fe_name e \<mapsto> strip e)) m"
  proof (rule option_eqI)
    fix x
    show "nm_lookup st' m = Some x \<longleftrightarrow> ((nm_lookup st)(fe_name e \<mapsto> strip e)) m = Some x"
      using none by (cases "m = fe_name e")
        (auto simp: nm_lookup_Some_iff [OF assms(1)] nm_lookup_Some_iff [OF assms(2)] set')
  qed
qed

lemma nm_lookup_del:
  assumes "nm_inv st" "nm_inv st'" "i < length (nm_files st)" "fe_name (nm_files st ! i) = n"
    "map strip (nm_files st') = drop_swap i (map strip (nm_files st))"
  shows "nm_lookup st' = (nm_lookup st)(n := None)"
proof
  fix m
  have d: "distinct (map fe_name (map strip (nm_files st)))" using assms(1) by (simp add: nm_inv_def comp_def)
  have "set (drop_swap i (map strip (nm_files st))) = set (map strip (nm_files st)) - {map strip (nm_files st) ! i}"
    using assms(3) by (intro drop_swap_props(1) [OF d]) simp
  then have "set (map strip (nm_files st')) = set (map strip (nm_files st)) - {strip (nm_files st ! i)}"
    using assms(3) unfolding assms(5) by simp
  then have set': "strip ` set (nm_files st') = strip ` set (nm_files st) - {strip (nm_files st ! i)}" by simp
  have un: "x = strip (nm_files st ! i)" if "x \<in> strip ` set (nm_files st)" "fe_name x = n" for x
  proof -
    have "nm_lookup st n = Some x" using that nm_lookup_Some_iff [OF assms(1)] by blast
    moreover have "nm_lookup st n = Some (strip (nm_files st ! i))"
      using assms(3,4) by (simp add: nm_lookup_Some_iff [OF assms(1)])
    ultimately show ?thesis by simp
  qed
  show "nm_lookup st' m = ((nm_lookup st)(n := None)) m"
  proof (rule option_eqI)
    fix x
    show "nm_lookup st' m = Some x \<longleftrightarrow> ((nm_lookup st)(n := None)) m = Some x"
      using un [of x] assms(4) by (auto simp: nm_lookup_Some_iff [OF assms(1)] nm_lookup_Some_iff [OF assms(2)] set')
  qed
qed

lemma card_dom_lookup:
  assumes "nm_inv st"
  shows "card (dom (nm_lookup st)) = length (nm_files st)"
proof -
  have "dom (nm_lookup st) = set (map fe_name (nm_files st))"
    using nm_lookup_None_iff [OF assms] by (auto simp: dom_def)
  moreover have "card (set (map fe_name (nm_files st))) = length (map fe_name (nm_files st))"
    by (rule distinct_card) (use assms in \<open>simp add: nm_inv_def\<close>)
  ultimately show ?thesis by simp
qed

section \<open>The contract\<close>

text \<open>An entry as \<^verbatim>\<open>nm_add_file\<close> creates it, under a name that is not truncated.\<close>

definition fresh_file :: "file_entry \<Rightarrow> bool" where
  "fresh_file e \<longleftrightarrow> length (fe_name e) < NM_MAX_NAME \<and>
     e = new_file_entry (fe_name e) (fe_owner e) (fe_ss e) (fe_backup e) (fe_created e)"

definition nm_table_add :: "nm_state \<Rightarrow> file_entry \<Rightarrow> nm_state" where
  "nm_table_add st e =
     (case nm_add_file st (fe_name e) (fe_owner e) (fe_ss e) (fe_backup e) (fe_created e) of
        Some (_, st') \<Rightarrow> st' | None \<Rightarrow> clear_state st)"

definition nm_table_del :: "nm_state \<Rightarrow> name \<Rightarrow> nm_state" where
  "nm_table_del st n = (case nm_remove_file st n of Some (_, st') \<Rightarrow> st' | None \<Rightarrow> clear_state st)"

lemma nm_add_file_result:
  assumes "nm_inv st" and "length n < NM_MAX_NAME"
  shows "\<exists>r st'. nm_add_file st n ow s b t = Some (r, st') \<and> nm_inv st' \<and>
    st'\<lparr>nm_files := [], nm_buckets := []\<rparr> = st\<lparr>nm_files := [], nm_buckets := []\<rparr> \<and>
    (if NM_MAX_FILES \<le> length (nm_files st) then r = Fail (Some ENOSPC) \<and> st' = st
     else if nm_lookup st n \<noteq> None then r = Fail (Some EEXIST) \<and> st' = st
     else r = Ok () \<and> nm_lookup st' = (nm_lookup st)(n \<mapsto> new_file_entry n ow s b t))"
proof (cases rule: nm_add_file_cases [OF assms, of ow s b t])
  case (3 st')
  have "map strip (nm_files st') = map strip (nm_files st) @ [strip (new_file_entry n ow s b t)]"
    using 3(5) by simp
  from nm_lookup_upd [OF assms(1) 3(4) this] 3 assms(2) show ?thesis by simp
qed (use assms in simp_all)

lemma nm_remove_file_result:
  assumes "nm_inv st"
  shows "\<exists>r st'. nm_remove_file st n = Some (r, st') \<and> nm_inv st' \<and> nm_lookup st' = (nm_lookup st)(n := None) \<and>
    st'\<lparr>nm_files := [], nm_buckets := []\<rparr> = st\<lparr>nm_files := [], nm_buckets := []\<rparr> \<and>
    r = (if nm_lookup st n = None then Fail (Some ENOENT) else Ok ())"
proof (cases rule: nm_remove_file_cases [OF assms, of n])
  case 1
  then show ?thesis using assms by (auto simp: fun_eq_iff)
next
  case (2 i st')
  with nm_lookup_del [OF assms 2(5,1,2,6)] show ?thesis by auto
qed

interpretation nm_tab: name_table nm_inv nm_lookup nm_table_add nm_table_del fe_name fresh_file "\<lambda>k. k < NM_MAX_FILES"
proof unfold_locales
  fix st :: nm_state and e :: file_entry and n m
  assume inv: "nm_inv st"
  show "nm_lookup st n = Some e \<Longrightarrow> fe_name e = n" using nm_lookup_Some_iff [OF inv] by blast
  show "nm_inv (nm_table_del st m)" "nm_lookup (nm_table_del st m) n = (if n = m then None else nm_lookup st n)"
    using nm_remove_file_result [OF inv, of m] by (auto simp: nm_table_del_def)
  assume e: "fresh_file e"
  then obtain r st' where add:
    "nm_add_file st (fe_name e) (fe_owner e) (fe_ss e) (fe_backup e) (fe_created e) = Some (r, st')" "nm_inv st'"
    "if NM_MAX_FILES \<le> length (nm_files st) then r = Fail (Some ENOSPC) \<and> st' = st
     else if nm_lookup st (fe_name e) \<noteq> None then r = Fail (Some EEXIST) \<and> st' = st
     else r = Ok () \<and> nm_lookup st' = (nm_lookup st)(fe_name e \<mapsto>
       new_file_entry (fe_name e) (fe_owner e) (fe_ss e) (fe_backup e) (fe_created e))"
    using nm_add_file_result [OF inv, of "fe_name e"] unfolding fresh_file_def by blast
  have st': "nm_table_add st e = st'" using add(1) by (simp add: nm_table_add_def)
  show "nm_inv (nm_table_add st e)" using st' add(2) by simp
  show "nm_lookup (nm_table_add st e) n = (if n = fe_name e then Some e else nm_lookup st n)"
    if "nm_lookup st (fe_name e) = None" "card (dom (nm_lookup st)) < NM_MAX_FILES"
  proof -
    have "nm_lookup st' = (nm_lookup st)(fe_name e \<mapsto> e)"
      using add(3) that e card_dom_lookup [OF inv] by (simp add: fresh_file_def)
    then show ?thesis using st' by simp
  qed
  show "nm_table_add st e = st"
    if "nm_lookup st (fe_name e) \<noteq> None \<or> \<not> card (dom (nm_lookup st)) < NM_MAX_FILES"
    using add(3) that card_dom_lookup [OF inv] st' by (auto split: if_splits)
qed

section \<open>Writing through a found entry\<close>

lemma linked_cong:
  assumes "linked S st" "nm_buckets st' = nm_buckets st" "length (nm_files st') = length (nm_files st)"
    "\<And>i. i < length (nm_files st) \<Longrightarrow> fe_name (nm_files st' ! i) = fe_name (nm_files st ! i)"
    "\<And>i. i < length (nm_files st) \<Longrightarrow> fe_next (nm_files st' ! i) = fe_next (nm_files st ! i)"
  shows "linked S st'"
proof -
  have "\<exists>xs. chain (nm_files st') (nm_buckets st' ! b) xs \<and> distinct xs \<and>
      set xs = {i \<in> S. i < length (nm_files st') \<and> bucket_of (fe_name (nm_files st' ! i)) = b}"
    if b: "b < NM_FILE_BUCKETS" for b
  proof -
    obtain xs where xs: "chain (nm_files st) (nm_buckets st ! b) xs" "distinct xs"
      "set xs = {i \<in> S. i < length (nm_files st) \<and> bucket_of (fe_name (nm_files st ! i)) = b}"
      by (rule linked_chain [OF assms(1) b])
    have "chain (nm_files st') (nm_buckets st' ! b) xs"
      unfolding assms(2) by (rule chain_cong [OF _ xs(1)]) (use assms(3,5) in simp)
    moreover have "set xs = {i \<in> S. i < length (nm_files st') \<and> bucket_of (fe_name (nm_files st' ! i)) = b}"
      using xs(3) assms(3,4) by auto
    ultimately show ?thesis using xs(2) by blast
  qed
  then show ?thesis using assms(1,2) by (simp add: linked_def)
qed

lemma find_file_index_unique:
  assumes "nm_inv st" "i < length (nm_files st)" "fe_name (nm_files st ! i) = n"
  shows "find_file_index st n = Some (int i)"
proof (cases rule: find_file_index_cases [OF assms(1), of n])
  case (1 j)
  then have "j = i"
    using assms nth_eq_iff_index_eq [of "map fe_name (nm_files st)" j i] by (simp add: nm_inv_def)
  with 1 show ?thesis by simp
next
  case 2
  with assms(2,3) show ?thesis by (metis imageI nth_mem)
qed

lemma nm_find_file_None_iff: "nm_inv st \<Longrightarrow> nm_find_file st n = None \<longleftrightarrow> n \<notin> fe_name ` set (nm_files st)"
  using nm_lookup_None_iff [of st n] by (simp add: nm_lookup_def)

lemma nm_modify_file_props:
  assumes "nm_inv st" and "nm_find_file st n = Some e" and "fe_name (f e) = fe_name e" "fe_next (f e) = fe_next e"
  shows "nm_inv (nm_modify_file st n f)"
    and "nm_find_file (nm_modify_file st n f) m = (if m = n then Some (f e) else nm_find_file st m)"
    and "nm_modify_file st n f = st\<lparr>nm_files := nm_files (nm_modify_file st n f)\<rparr>"
proof -
  obtain i where i: "find_file_index st n = Some (int i)" "i < length (nm_files st)"
    "fe_name (nm_files st ! i) = n" "nm_files st ! i = e"
  proof (cases rule: find_file_index_cases [OF assms(1), of n])
    case (1 i)
    then show thesis using assms(2) by (intro that [of i]) simp_all
  next
    case 2
    with assms(2) show thesis by simp
  qed
  let ?st = "st\<lparr>nm_files := (nm_files st)[i := f e]\<rparr>"
  have st: "nm_modify_file st n f = ?st" using i by (simp add: nm_modify_file_def)
  have nm: "map fe_name (nm_files ?st) = map fe_name (nm_files st)"
  proof -
    have "(map fe_name (nm_files st))[i := fe_name (f e)] = map fe_name (nm_files st)"
      using i(2,4) assms(3) by (intro list_update_same_conv [THEN iffD2]) simp_all
    then show ?thesis by (simp add: map_update)
  qed
  have "linked {..<length (nm_files st)} ?st"
    by (rule linked_cong [where st = st]) (use assms i in \<open>auto simp: nm_inv_def all_linked_def nth_list_update\<close>)
  then have inv: "nm_inv ?st" using assms(1) nm by (simp add: nm_inv_def all_linked_def)
  then show "nm_inv (nm_modify_file st n f)" using st by simp
  show "nm_modify_file st n f = st\<lparr>nm_files := nm_files (nm_modify_file st n f)\<rparr>" using st by simp
  have "nm_find_file ?st m = (if m = n then Some (f e) else nm_find_file st m)"
  proof (cases rule: find_file_index_cases [OF assms(1), of m])
    case (1 j)
    then have "find_file_index ?st m = Some (int j)"
      using i assms(3) by (intro find_file_index_unique [OF inv]) (auto simp: nth_list_update)
    moreover have "j = i \<longleftrightarrow> m = n"
    proof
      assume "j = i"
      then show "m = n" using 1(3) i(3) by simp
    next
      assume "m = n"
      then show "j = i" using 1(1) i(1) by simp
    qed
    ultimately show ?thesis using 1(2,4) i(2) by (cases "m = n") (simp_all add: nm_find_file_def)
  next
    case 2
    then have "nm_find_file ?st m = None"
      using nm_find_file_None_iff [OF inv] nm by (metis list.set_map)
    moreover have "m \<noteq> n" using 2 i by (metis imageI nth_mem)
    ultimately show ?thesis using 2 by simp
  qed
  then show "nm_find_file (nm_modify_file st n f) m = (if m = n then Some (f e) else nm_find_file st m)"
    using st by simp
qed

section \<open>Properties\<close>

text \<open>A name manager that has just started, with two files.\<close>

definition demo_nm :: nm_state where
  "demo_nm = clear_state \<lparr>nm_servers = [], nm_next_primary = 0, nm_next_backup = 0, nm_files = [], nm_users = [],
     nm_cache = [], nm_requests = [], nm_persist_path = ''nm_state.dat'', nm_buckets = []\<rparr>"

lemma clear_state_inv: "nm_inv (clear_state st)"
proof -
  have "nm_buckets (clear_state st) ! b = -1" if "b < NM_FILE_BUCKETS" for b
    using that by (simp add: clear_state_def)
  then have "\<exists>xs. chain [] (nm_buckets (clear_state st) ! b) xs \<and> distinct xs \<and> set xs = {}"
    if "b < NM_FILE_BUCKETS" for b using that by (intro exI [of _ "[]"]) simp
  then show ?thesis by (simp add: nm_inv_def all_linked_def linked_def clear_state_def)
qed

lemma clear_state_lookup: "nm_lookup (clear_state st) = Map.empty"
  using nm_lookup_None_iff [OF clear_state_inv] by (simp add: fun_eq_iff clear_state_def)

fun nm_table_step :: "file_entry table_op \<Rightarrow> nm_state \<Rightarrow> nm_state" where
  "nm_table_step (Add e) st = nm_table_add st e"
| "nm_table_step (Del n) st = nm_table_del st n"

fun fresh_op :: "file_entry table_op \<Rightarrow> bool" where
  "fresh_op (Add e) = fresh_file e"
| "fresh_op (Del n) = True"

lemma nm_table_step_eq: "nm_table_step x st = nm_tab.step x st" and fresh_op_eq: "fresh_op x = nm_tab.op_good x"
  by (cases x; simp)+

text \<open>C30: The name manager's chained hash table is a finite map. From an empty table (and from every state
  reached so), any sequence of additions and removals of files, through \<^verbatim>\<open>nm_add_file\<close> and
  \<^verbatim>\<open>nm_remove_file\<close> with the relinking of the moved last entry, leaves exactly the files that
  the same sequence leaves in a map with room for 512 names: an addition of a present name or
  to a full table changes nothing, no other file is lost, and the table stays well formed.\<close>

theorem file_table_refines_map:
  assumes "nm_inv st" and "list_all fresh_op xs"
  shows "nm_inv (fold nm_table_step xs st) \<and>
    nm_lookup (fold nm_table_step xs st) = fold (map_op (\<lambda>k. k < NM_MAX_FILES) fe_name) xs (nm_lookup st)"
proof
  have step: "nm_table_step = nm_tab.step" and good: "fresh_op = nm_tab.op_good"
    by (simp_all add: fun_eq_iff nm_table_step_eq fresh_op_eq)
  show "nm_inv (fold nm_table_step xs st)" using assms unfolding step good by (rule nm_tab.run_inv)
  show "nm_lookup (fold nm_table_step xs st) = fold (map_op (\<lambda>k. k < NM_MAX_FILES) fe_name) xs (nm_lookup st)"
    using assms unfolding step good by (rule nm_tab.run_refines)
qed

abbreviation demo_entry :: "name \<Rightarrow> file_entry" where
  "demo_entry n \<equiv> new_file_entry n ''alice'' 0 (-1) 7"

theorem file_table_refines_map_witness:
  "nm_inv (fold nm_table_step [Add (demo_entry ''a''), Add (demo_entry ''b''), Del ''a''] (clear_state demo_nm)) \<and>
   nm_lookup (fold nm_table_step [Add (demo_entry ''a''), Add (demo_entry ''b''), Del ''a''] (clear_state demo_nm)) =
     [''b'' \<mapsto> demo_entry ''b'']"
proof -
  have ok: "list_all fresh_op [Add (demo_entry ''a''), Add (demo_entry ''b''), Del ''a'']" by code_simp
  have nm: "fe_name (demo_entry ''a'') = ''a''" "fe_name (demo_entry ''b'') = ''b''" by code_simp+
  show ?thesis
    using file_table_refines_map [OF clear_state_inv ok, of demo_nm] nm
    by (simp add: NM_MAX_FILES_def fun_eq_iff clear_state_lookup)
qed

text \<open>Every branch of \<^verbatim>\<open>nm_add_file\<close>. On a well formed table the walk along the hash chain ends; a
  full table is reported as \<^verbatim>\<open>ENOSPC\<close>, a name that is present as \<^verbatim>\<open>EEXIST\<close>, both without a
  change, and otherwise exactly the new file is added, with nothing outside the file table
  touched.\<close>

theorem add_file_branches:
  assumes "nm_inv st" and "length n < NM_MAX_NAME"
  shows "\<exists>r st'. nm_add_file st n ow s b t = Some (r, st') \<and> nm_inv st' \<and>
    st'\<lparr>nm_files := [], nm_buckets := []\<rparr> = st\<lparr>nm_files := [], nm_buckets := []\<rparr> \<and>
    (if NM_MAX_FILES \<le> length (nm_files st) then r = Fail (Some ENOSPC) \<and> st' = st
     else if nm_lookup st n \<noteq> None then r = Fail (Some EEXIST) \<and> st' = st
     else r = Ok () \<and> nm_lookup st' = (nm_lookup st)(n \<mapsto> new_file_entry n ow s b t))"
  using assms by (rule nm_add_file_result)

theorem add_file_branches_witness:
  "\<exists>st'. nm_add_file (clear_state demo_nm) ''a'' ''alice'' 0 (-1) 7 = Some (Ok (), st') \<and>
     nm_lookup st' = [''a'' \<mapsto> demo_entry ''a'']"
proof -
  have "length ''a'' < NM_MAX_NAME" by code_simp
  note add = add_file_branches [OF clear_state_inv this, of demo_nm "''alice''" 0 "-1" 7]
  have "\<not> NM_MAX_FILES \<le> length (nm_files (clear_state demo_nm))" by code_simp
  with add show ?thesis by (auto simp: clear_state_lookup)
qed

text \<open>C36: Every branch of \<^verbatim>\<open>nm_remove_file\<close>. On a well formed table the three walks along hash chains
  end; an absent name is reported as \<^verbatim>\<open>ENOENT\<close>; otherwise exactly that file is gone afterwards,
  although the last entry of the array has moved into its place.\<close>

theorem remove_file_branches:
  assumes "nm_inv st"
  shows "\<exists>r st'. nm_remove_file st n = Some (r, st') \<and> nm_inv st' \<and> nm_lookup st' = (nm_lookup st)(n := None) \<and>
    st'\<lparr>nm_files := [], nm_buckets := []\<rparr> = st\<lparr>nm_files := [], nm_buckets := []\<rparr> \<and>
    r = (if nm_lookup st n = None then Fail (Some ENOENT) else Ok ())"
  using assms by (rule nm_remove_file_result)

theorem remove_file_branches_witness:
  "\<exists>st'. nm_remove_file (nm_table_add (clear_state demo_nm) (demo_entry ''a'')) ''a'' = Some (Ok (), st') \<and>
     nm_lookup st' = Map.empty"
proof -
  let ?st = "nm_table_add (clear_state demo_nm) (demo_entry ''a'')"
  have e: "fresh_file (demo_entry ''a'')" "fe_name (demo_entry ''a'') = ''a''" by code_simp+
  have l: "nm_lookup ?st = [''a'' \<mapsto> demo_entry ''a'']"
    using nm_tab.add_lookup [OF clear_state_inv e(1), of demo_nm] e(2)
    by (auto simp: fun_eq_iff clear_state_lookup NM_MAX_FILES_def)
  have "nm_inv ?st" by (rule nm_tab.add_inv [OF clear_state_inv e(1)])
  from remove_file_branches [OF this, of "''a''"] l show ?thesis by auto
qed

end
