(* ===== verification/NM_Access.thy ===== *)
theory NM_Access
  imports NM_Files
begin

unbundle bit_operations_syntax

text \<open>
  Access control of the name manager: the access lists as a function from file and user
  to a set of permissions, and what granting, revoking and checking do to it.
\<close>

section \<open>The rights of a user\<close>

text \<open>
  The abstraction: the owner has every right, another user those of the entry of the
  access list, and \<open>None\<close> without one (or without the file).
\<close>

definition acl_rights :: "file_acl_entry list \<Rightarrow> string \<Rightarrow> 32 word option" where
  "acl_rights acl u = map_option (\<lambda>i. acl_perm (acl ! i)) (find_index (\<lambda>a. acl_user a = u) acl)"

definition file_rights :: "file_entry \<Rightarrow> string \<Rightarrow> 32 word option" where
  "file_rights f u = (if fe_owner f = u then Some (- 1) else acl_rights (fe_acl f) u)"

definition nm_rights :: "nm_state \<Rightarrow> name \<Rightarrow> string \<Rightarrow> 32 word option" where
  "nm_rights st n u = (case nm_find_file st n of None \<Rightarrow> None | Some f \<Rightarrow> file_rights f u)"

definition acl_ok :: "file_acl_entry list \<Rightarrow> bool" where
  "acl_ok acl \<longleftrightarrow> distinct (map acl_user acl) \<and> length acl \<le> NM_MAX_ACL"

definition nm_acl_inv :: "nm_state \<Rightarrow> bool" where
  "nm_acl_inv st \<longleftrightarrow> nm_inv st \<and> (\<forall>f \<in> set (nm_files st). acl_ok (fe_acl f))"

lemma acl_rights_Nil [simp]: "acl_rights [] u = None"
  by (simp add: acl_rights_def)

lemma acl_rights_Cons [simp]:
  "acl_rights (a # acl) u = (if acl_user a = u then Some (acl_perm a) else acl_rights acl u)"
  by (cases "find_index (\<lambda>a. acl_user a = u) acl") (simp_all add: acl_rights_def)

lemma acl_rights_append: "acl_rights (xs @ ys) u = (case acl_rights xs u of None \<Rightarrow> acl_rights ys u | r \<Rightarrow> r)"
  by (induction xs) auto

lemma acl_rights_Some_iff:
  "distinct (map acl_user acl) \<Longrightarrow> acl_rights acl u = Some p \<longleftrightarrow> \<lparr>acl_user = u, acl_perm = p\<rparr> \<in> set acl"
proof (induction acl)
  case (Cons a acl)
  show ?case
  proof (cases "acl_user a = u")
    case True
    then have "\<lparr>acl_user = u, acl_perm = p\<rparr> \<notin> set acl"
      using Cons.prems by (metis distinct.simps(2) file_acl_entry.select_convs(1) image_eqI list.set_map list.simps(9))
    then show ?thesis using True by (cases a) auto
  next
    case False
    then show ?thesis using Cons by auto
  qed
qed simp

lemma find_acl_cases:
  obtains (none) "find_acl f u = None" "acl_rights (fe_acl f) u = None"
  | (entry) i where "find_acl f u = Some i" "i < length (fe_acl f)" "acl_user (fe_acl f ! i) = u"
      "acl_rights (fe_acl f) u = Some (acl_perm (fe_acl f ! i))"
proof (cases "find_acl f u")
  case None
  then show ?thesis by (intro none) (simp_all add: acl_rights_def find_acl_def)
next
  case (Some i)
  then show ?thesis by (intro entry [of i]) (auto simp: acl_rights_def find_acl_def dest: find_index_SomeD)
qed

lemma acl_rights_update:
  assumes "distinct (map acl_user acl)" and "i < length acl" and "acl_user e = acl_user (acl ! i)"
  shows "acl_rights (acl[i := e]) u = (if u = acl_user e then Some (acl_perm e) else acl_rights acl u)"
  using assms
proof (induction acl arbitrary: i)
  case (Cons a acl)
  show ?case
  proof (cases i)
    case (Suc j)
    have "acl_user a \<noteq> acl_user e" using Cons.prems Suc by (auto dest: nth_mem)
    then show ?thesis using Cons Suc by auto
  qed (use Cons.prems in auto)
qed simp

lemma acl_rights_drop:
  assumes "distinct (map acl_user acl)" and "i < length acl"
  shows "acl_rights (drop_swap i acl) u = (if u = acl_user (acl ! i) then None else acl_rights acl u)"
proof (rule option_eqI)
  fix p
  note ds = drop_swap_props [OF assms]
  have un: "x = acl ! i" if x: "x \<in> set acl" "acl_user x = acl_user (acl ! i)" for x
  proof -
    obtain j where j: "j < length acl" "x = acl ! j" using x(1) by (metis in_set_conv_nth)
    then have "j = i" using x(2) assms nth_eq_iff_index_eq [of "map acl_user acl" j i] by simp
    then show ?thesis using j by simp
  qed
  show "acl_rights (drop_swap i acl) u = Some p \<longleftrightarrow>
      (if u = acl_user (acl ! i) then None else acl_rights acl u) = Some p"
  proof (cases "u = acl_user (acl ! i)")
    case True
    then show ?thesis
      using un [of "\<lparr>acl_user = u, acl_perm = p\<rparr>"] by (simp add: acl_rights_Some_iff [OF ds(2)] ds(1))
  next
    case False
    then have "\<lparr>acl_user = u, acl_perm = p\<rparr> \<noteq> acl ! i" by (metis file_acl_entry.select_convs(1))
    with False show ?thesis
      by (simp add: acl_rights_Some_iff [OF ds(2)] acl_rights_Some_iff [OF assms(1)] ds(1))
  qed
qed

section \<open>Checking, granting and revoking\<close>

lemma nm_check_access_eq:
  "nm_check_access st n u p =
     (case nm_find_file st n of None \<Rightarrow> Fail None
      | Some f \<Rightarrow> (case file_rights f u of None \<Rightarrow> Fail (Some EACCES)
          | Some r \<Rightarrow> if r AND p = p then Ok () else Fail (Some EACCES)))"
proof (cases "nm_find_file st n")
  case (Some f)
  show ?thesis
    by (cases rule: find_acl_cases [of f u]) (auto simp: nm_check_access_def Some file_rights_def)
qed (simp add: nm_check_access_def)

lemma nm_rights_modify:
  assumes "nm_inv st" and "nm_find_file st n = Some e" and "fe_name (f e) = fe_name e" "fe_next (f e) = fe_next e"
  shows "nm_rights (nm_modify_file st n f) m u = (if m = n then file_rights (f e) u else nm_rights st m u)"
  by (simp add: nm_rights_def nm_modify_file_props(2) [where f = f, OF assms, of m])

lemma nm_acl_inv_modify:
  assumes "nm_acl_inv st" and "nm_find_file st n = Some e" and "fe_name (f e) = fe_name e" "fe_next (f e) = fe_next e"
    and "acl_ok (fe_acl (f e))"
  shows "nm_acl_inv (nm_modify_file st n f)"
proof -
  have inv: "nm_inv st" using assms(1) by (simp add: nm_acl_inv_def)
  have "nm_files (nm_modify_file st n f) = (nm_files st)[the (map_option nat (find_file_index st n)) := f e]"
    using assms(2) by (auto simp: nm_modify_file_def nm_find_file_def split: option.splits if_splits)
  then have "set (nm_files (nm_modify_file st n f)) \<subseteq> insert (f e) (set (nm_files st))"
    using set_update_subset_insert by metis
  then show ?thesis
    using assms(1,5) nm_modify_file_props(1) [where f = f, OF inv assms(2-4)] by (auto simp: nm_acl_inv_def)
qed

lemma found_acl_ok: "nm_acl_inv st \<Longrightarrow> nm_find_file st n = Some f \<Longrightarrow> acl_ok (fe_acl f)"
  by (cases rule: find_file_index_cases [of st n]) (auto simp: nm_acl_inv_def)

lemma nm_grant_access_result:
  assumes "nm_acl_inv st" and "nm_find_file st n = Some f" and "length u < NM_MAX_USER"
  defines "full \<equiv> fe_owner f \<noteq> u \<and> acl_rights (fe_acl f) u = None \<and> NM_MAX_ACL \<le> length (fe_acl f)"
  shows "\<exists>r st'. nm_grant_access st n u p = (r, st') \<and> nm_acl_inv st' \<and>
    (if full then r = Fail (Some ENOSPC) \<and> st' = st
     else r = Ok () \<and> (\<forall>m v. nm_rights st' m v =
       (if m = n \<and> v = u \<and> fe_owner f \<noteq> u
        then Some (case nm_rights st n u of None \<Rightarrow> p OR NM_PERM_READ | Some q \<Rightarrow> q OR p)
        else nm_rights st m v)))"
proof (cases "fe_owner f = u")
  case True
  then show ?thesis using assms by (simp add: nm_grant_access_def)
next
  case False
  have inv: "nm_inv st" using assms(1) by (simp add: nm_acl_inv_def)
  have ok: "acl_ok (fe_acl f)" by (rule found_acl_ok [OF assms(1,2)])
  have rights: "nm_rights st n v = file_rights f v" for v using assms(2) by (simp add: nm_rights_def)
  show ?thesis
  proof (cases rule: find_acl_cases [of f u])
    case none
    show ?thesis
    proof (cases full)
      case full: True
      then show ?thesis using none False assms(1,2) by (simp add: nm_grant_access_def full_def)
    next
      case room: False
      let ?g = "\<lambda>f. f\<lparr>fe_acl := fe_acl f @ [\<lparr>acl_user = buf NM_MAX_USER u, acl_perm = p OR NM_PERM_READ\<rparr>]\<rparr>"
      have run: "nm_grant_access st n u p = (Ok (), nm_modify_file st n ?g)"
        using none False room assms(2) by (simp add: nm_grant_access_def full_def)
      have "u \<notin> acl_user ` set (fe_acl f)" using none(1) by (auto simp: find_acl_def find_index_None_iff)
      then have "acl_ok (fe_acl (?g f))" using ok room False none assms(3) by (simp add: acl_ok_def full_def)
      then have "nm_acl_inv (nm_modify_file st n ?g)" by (intro nm_acl_inv_modify [OF assms(1,2)]) simp_all
      moreover have "nm_rights (nm_modify_file st n ?g) m v = (if m = n then file_rights (?g f) v else nm_rights st m v)"
        for m v by (rule nm_rights_modify [OF inv assms(2)]) simp_all
      moreover have "file_rights (?g f) v = (if v = u then Some (p OR NM_PERM_READ) else file_rights f v)" for v
        using none(2) False assms(3) by (auto simp: file_rights_def acl_rights_append split: option.split)
      moreover have "file_rights f u = None" using none(2) False by (simp add: file_rights_def)
      ultimately show ?thesis using run room False by (simp add: rights)
    qed
  next
    case (entry i)
    let ?g = "\<lambda>f. f\<lparr>fe_acl := (fe_acl f)[i := (fe_acl f ! i)\<lparr>acl_perm := acl_perm (fe_acl f ! i) OR p\<rparr>]\<rparr>"
    have run: "nm_grant_access st n u p = (Ok (), nm_modify_file st n ?g)"
      using entry False assms(2) by (simp add: nm_grant_access_def)
    have "(map acl_user (fe_acl f))[i := u] = map acl_user (fe_acl f)"
      using entry(2,3) by (intro list_update_same_conv [THEN iffD2]) simp_all
    then have "acl_ok (fe_acl (?g f))" using ok entry(3) by (simp add: acl_ok_def map_update)
    then have "nm_acl_inv (nm_modify_file st n ?g)" by (intro nm_acl_inv_modify [OF assms(1,2)]) simp_all
    moreover have "nm_rights (nm_modify_file st n ?g) m v = (if m = n then file_rights (?g f) v else nm_rights st m v)"
      for m v by (rule nm_rights_modify [OF inv assms(2)]) simp_all
    moreover have "file_rights (?g f) v = (if v = u then Some (acl_perm (fe_acl f ! i) OR p) else file_rights f v)" for v
      using entry ok False by (auto simp: file_rights_def acl_ok_def acl_rights_update)
    moreover have "file_rights f u = Some (acl_perm (fe_acl f ! i))" using entry(4) False by (simp add: file_rights_def)
    moreover have "\<not> full" using entry(4) by (simp add: full_def)
    ultimately show ?thesis using run False by (simp add: rights)
  qed
qed

lemma nm_remove_access_result:
  assumes "nm_acl_inv st" and "nm_find_file st n = Some f"
  shows "\<exists>st'. nm_remove_access st n u = (Ok (), st') \<and> nm_acl_inv st' \<and> nm_find_file st' n \<noteq> None \<and>
    (\<forall>m v. nm_rights st' m v = (if m = n \<and> v = u \<and> fe_owner f \<noteq> u then None else nm_rights st m v))"
proof -
  have inv: "nm_inv st" using assms(1) by (simp add: nm_acl_inv_def)
  have ok: "acl_ok (fe_acl f)" by (rule found_acl_ok [OF assms])
  have rights: "nm_rights st n v = file_rights f v" for v using assms(2) by (simp add: nm_rights_def)
  show ?thesis
  proof (cases rule: find_acl_cases [of f u])
    case none
    then show ?thesis using assms by (auto simp: nm_remove_access_def rights file_rights_def)
  next
    case (entry i)
    let ?g = "\<lambda>f. f\<lparr>fe_acl := drop_swap i (fe_acl f)\<rparr>"
    have d: "distinct (map acl_user (fe_acl f))" using ok by (simp add: acl_ok_def)
    have run: "nm_remove_access st n u = (Ok (), nm_modify_file st n ?g)"
      using entry assms(2) by (simp add: nm_remove_access_def)
    have "acl_ok (fe_acl (?g f))" using ok drop_swap_props(2,3) [OF d entry(2)] by (auto simp: acl_ok_def)
    then have "nm_acl_inv (nm_modify_file st n ?g)" by (intro nm_acl_inv_modify [OF assms]) simp_all
    moreover have "nm_rights (nm_modify_file st n ?g) m v = (if m = n then file_rights (?g f) v else nm_rights st m v)"
      for m v by (rule nm_rights_modify [OF inv assms(2)]) simp_all
    moreover have "file_rights (?g f) v = (if v = u \<and> fe_owner f \<noteq> u then None else file_rights f v)" for v
      using acl_rights_drop [OF d entry(2)] entry(3) by (auto simp: file_rights_def)
    moreover have "nm_find_file (nm_modify_file st n ?g) n = Some (?g f)"
      using nm_modify_file_props(2) [OF inv assms(2), of ?g n] by simp
    ultimately show ?thesis using run by (simp add: rights)
  qed
qed

section \<open>Properties\<close>

text \<open>A table with the file \<open>a\<close> of alice.\<close>

definition demo_files :: nm_state where
  "demo_files = nm_table_add (clear_state demo_nm) (demo_entry ''a'')"

lemma demo_files_facts:
  "nm_acl_inv demo_files" "nm_find_file demo_files ''a'' = Some (demo_entry ''a'')" "length (nm_files demo_files) = 1"
proof -
  have e: "fresh_file (demo_entry ''a'')" by code_simp
  have "nm_inv demo_files" unfolding demo_files_def by (rule nm_tab.add_inv [OF clear_state_inv e])
  moreover have files: "nm_files demo_files = [demo_entry ''a'']"
  proof -
    have "find_file_index (clear_state demo_nm) ''a'' = Some (-1)"
      by (cases rule: find_file_index_cases [OF clear_state_inv, of demo_nm "''a''"])
        (simp_all add: clear_state_lookup)
    moreover have "nm_buckets (clear_state demo_nm) ! bucket_of n = -1" for n by (simp add: clear_state_def)
    moreover have "nm_files (clear_state demo_nm) = []" by (simp add: clear_state_def)
    moreover have "buf NM_MAX_NAME ''a'' = ''a''" "buf NM_MAX_USER ''alice'' = ''alice''" by code_simp+
    ultimately show ?thesis
      by (simp add: demo_files_def nm_table_add_def nm_add_file_def new_file_entry_def file_hash_insert_def Let_def
          NM_MAX_FILES_def)
  qed
  ultimately show "nm_acl_inv demo_files" "length (nm_files demo_files) = 1"
    by (simp_all add: nm_acl_inv_def acl_ok_def new_file_entry_def)
  have "fe_name (nm_files demo_files ! 0) = ''a''" unfolding files by code_simp
  then have "find_file_index demo_files ''a'' = Some (int 0)"
    using files by (intro find_file_index_unique [OF \<open>nm_inv demo_files\<close>]) simp_all
  then show "nm_find_file demo_files ''a'' = Some (demo_entry ''a'')" by (simp add: nm_find_file_def files)
qed

text \<open>Granting access. For an existing file, \<^verbatim>\<open>nm_grant_access\<close> adds the permission to those of the user
  (a new entry of the access list also gets read permission), leaves the rights of every other
  user and file and of the owner as they were, and refuses, without a change, only a new
  entry beyond the 64 of a file; \<^verbatim>\<open>nm_check_access\<close> then admits exactly the requests within the
  rights, and the owner always.\<close>

theorem access_granted:
  assumes "nm_acl_inv st" and "nm_find_file st n = Some f" and "length u < NM_MAX_USER"
  shows "\<exists>r st'. nm_grant_access st n u p = (r, st') \<and> nm_acl_inv st' \<and>
    (if fe_owner f \<noteq> u \<and> acl_rights (fe_acl f) u = None \<and> NM_MAX_ACL \<le> length (fe_acl f)
     then r = Fail (Some ENOSPC) \<and> st' = st
     else r = Ok () \<and> nm_check_access st' n u p = Ok () \<and>
       (\<forall>m v. nm_rights st' m v =
         (if m = n \<and> v = u \<and> fe_owner f \<noteq> u
          then Some (case nm_rights st n u of None \<Rightarrow> p OR NM_PERM_READ | Some q \<Rightarrow> q OR p)
          else nm_rights st m v)) \<and>
       (\<forall>v q. nm_check_access st' n v q = Ok () \<longleftrightarrow> (\<exists>r. nm_rights st' n v = Some r \<and> r AND q = q)))"
proof -
  have chk: "nm_check_access s n v q = Ok () \<longleftrightarrow> (\<exists>r. nm_rights s n v = Some r \<and> r AND q = q)" for s v q
    by (auto simp: nm_check_access_eq nm_rights_def split: option.split)
  have abs: "(p OR x) AND p = p" "(x OR p) AND p = p" for x :: "32 word"
    by (rule bit_eqI; auto simp: bit_and_iff bit_or_iff)+
  have own: "nm_rights st n u = Some (- 1)" if "fe_owner f = u"
    using that assms(2) by (simp add: nm_rights_def file_rights_def)
  show ?thesis
    using nm_grant_access_result [OF assms, of p] own by (fastforce simp: chk abs split: option.split if_splits)
qed

theorem access_granted_witness:
  "\<exists>st'. nm_grant_access demo_files ''a'' ''bob'' NM_PERM_WRITE = (Ok (), st') \<and>
    nm_check_access st' ''a'' ''bob'' NM_PERM_WRITE = Ok () \<and> nm_rights st' ''a'' ''bob'' = Some 3"
proof -
  have "length ''bob'' < NM_MAX_USER" by code_simp
  note g = access_granted [OF demo_files_facts(1,2) this, of NM_PERM_WRITE]
  have r: "acl_rights (fe_acl (demo_entry ''a'')) ''bob'' = None"
    "fe_owner (demo_entry ''a'') \<noteq> ''bob''" "length (fe_acl (demo_entry ''a'')) < NM_MAX_ACL" by code_simp+
  then have "nm_rights demo_files ''a'' ''bob'' = None"
    by (simp add: nm_rights_def demo_files_facts(2) file_rights_def)
  with g r show ?thesis by (auto simp: NM_PERM_WRITE_def NM_PERM_READ_def)
qed

text \<open>Revoking access. For an existing file, \<^verbatim>\<open>nm_remove_access\<close> always succeeds; a user who is not the
  owner has no right on the file afterwards, so that every check fails with \<^verbatim>\<open>EACCES\<close>, and the
  rights of every other user and on every other file are unchanged, although the last entry of the
  list moves.\<close>

theorem access_revoked:
  assumes "nm_acl_inv st" and "nm_find_file st n = Some f" and "fe_owner f \<noteq> u"
  shows "\<exists>st'. nm_remove_access st n u = (Ok (), st') \<and> nm_acl_inv st' \<and>
    nm_check_access st' n u p = Fail (Some EACCES) \<and>
    (\<forall>m v. nm_rights st' m v = (if m = n \<and> v = u then None else nm_rights st m v))"
proof -
  obtain st' where st': "nm_remove_access st n u = (Ok (), st')" "nm_acl_inv st'" "nm_find_file st' n \<noteq> None"
    "\<forall>m v. nm_rights st' m v = (if m = n \<and> v = u \<and> fe_owner f \<noteq> u then None else nm_rights st m v)"
    using nm_remove_access_result [OF assms(1,2)] by blast
  have "nm_rights st' n u = None" using st'(4) assms(3) by simp
  then have "nm_check_access st' n u p = Fail (Some EACCES)"
    using st'(3) by (auto simp: nm_check_access_eq nm_rights_def split: option.splits)
  with st' assms(3) show ?thesis by auto
qed

theorem access_revoked_witness:
  "\<exists>st'. nm_remove_access demo_files ''a'' ''bob'' = (Ok (), st') \<and>
    nm_rights st' ''a'' ''bob'' = None \<and> nm_rights st' ''a'' ''alice'' = Some (- 1)"
proof -
  have r: "fe_owner (demo_entry ''a'') \<noteq> ''bob''" "file_rights (demo_entry ''a'') ''alice'' = Some (- 1)" by code_simp+
  have "nm_rights demo_files ''a'' ''alice'' = Some (- 1)"
    using r(2) by (simp add: nm_rights_def demo_files_facts(2))
  with access_revoked [OF demo_files_facts(1,2) r(1), of 0] show ?thesis by auto
qed

text \<open>Recording a checkpoint. For an existing file, \<^verbatim>\<open>nm_file_add_checkpoint\<close> refuses a tag the file has
  (\<^verbatim>\<open>EEXIST\<close>) and a 129th checkpoint (\<^verbatim>\<open>ENOSPC\<close>) without a change; otherwise the tag is found
  afterwards with its user and time, every other tag of the file is found as before, and no other
  file changes.\<close>

theorem checkpoint_recorded:
  assumes "nm_inv st" and "nm_find_file st n = Some f" and "length tag < NM_MAX_NAME" and "length u < NM_MAX_USER"
  shows "\<exists>r st'. nm_file_add_checkpoint st n tag u t = (r, st') \<and> nm_inv st' \<and>
    (if file_find_checkpoint f tag \<noteq> None then r = Fail (Some EEXIST) \<and> st' = st
     else if NM_MAX_CHECKPOINTS \<le> length (fe_checkpoints f) then r = Fail (Some ENOSPC) \<and> st' = st
     else r = Ok () \<and> (\<exists>f'. nm_find_file st' n = Some f' \<and>
       (\<forall>tg. file_find_checkpoint f' tg =
         (if tg = tag then Some \<lparr>ck_tag = tag, ck_user = u, ck_time = t\<rparr> else file_find_checkpoint f tg)) \<and>
       (\<forall>m. m \<noteq> n \<longrightarrow> nm_find_file st' m = nm_find_file st m)))"
proof (cases "file_find_checkpoint f tag \<noteq> None \<or> NM_MAX_CHECKPOINTS \<le> length (fe_checkpoints f)")
  case True
  then show ?thesis using assms by (auto simp: nm_file_add_checkpoint_def)
next
  case False
  let ?c = "\<lparr>ck_tag = tag, ck_user = u, ck_time = t\<rparr>"
  let ?g = "\<lambda>f. f\<lparr>fe_checkpoints := fe_checkpoints f @ [\<lparr>ck_tag = buf NM_MAX_NAME tag, ck_user = buf NM_MAX_USER u, ck_time = t\<rparr>]\<rparr>"
  have run: "nm_file_add_checkpoint st n tag u t = (Ok (), nm_modify_file st n ?g)"
    using False assms(2) by (simp add: nm_file_add_checkpoint_def)
  have g: "fe_checkpoints (?g f) = fe_checkpoints f @ [?c]" using assms(3,4) by simp
  have none: "find_index (\<lambda>c. ck_tag c = tag) (fe_checkpoints f) = None"
    using False by (auto simp: file_find_checkpoint_def)
  have find: "file_find_checkpoint (?g f) tg = (if tg = tag then Some ?c else file_find_checkpoint f tg)" for tg
  proof (cases "find_index (\<lambda>c. ck_tag c = tg) (fe_checkpoints f)")
    case None
    then show ?thesis using none by (auto simp: file_find_checkpoint_def g find_index_append nth_append)
  next
    case (Some i)
    then have "tg \<noteq> tag" using none by auto
    then show ?thesis
      using Some find_index_SomeD [OF Some] by (simp add: file_find_checkpoint_def g find_index_append nth_append)
  qed
  have "nm_inv (nm_modify_file st n ?g)" by (rule nm_modify_file_props(1) [OF assms(1,2)]) simp_all
  moreover have "nm_find_file (nm_modify_file st n ?g) m = (if m = n then Some (?g f) else nm_find_file st m)" for m
    by (rule nm_modify_file_props(2) [OF assms(1,2)]) simp_all
  ultimately show ?thesis using run False find by (intro exI conjI) (auto simp del: buf_id)
qed

theorem checkpoint_recorded_witness:
  "\<exists>st' f'. nm_file_add_checkpoint demo_files ''a'' ''v1'' ''alice'' 9 = (Ok (), st') \<and>
    nm_find_file st' ''a'' = Some f' \<and>
    file_find_checkpoint f' ''v1'' = Some \<lparr>ck_tag = ''v1'', ck_user = ''alice'', ck_time = 9\<rparr>"
proof -
  have l: "length ''v1'' < NM_MAX_NAME" "length ''alice'' < NM_MAX_USER"
    "file_find_checkpoint (demo_entry ''a'') ''v1'' = None"
    "length (fe_checkpoints (demo_entry ''a'')) < NM_MAX_CHECKPOINTS" by code_simp+
  have "nm_inv demo_files" using demo_files_facts(1) by (simp add: nm_acl_inv_def)
  from checkpoint_recorded [OF this demo_files_facts(2) l(1,2), of 9] l(3,4) show ?thesis by auto
qed

end
