(* ===== verification/NM_Servers.thy ===== *)
theory NM_Servers
  imports NM_Access
begin

text \<open>
  The name manager's storage servers (registration, round-robin choice of a primary and of
  a backup) and its cache of file locations with least-recently-used eviction.
\<close>

section \<open>Round robin\<close>

lemma mod_offsets_cover:
  fixes n :: nat
  assumes "i < n"
  shows "\<exists>k < n. (start + k) mod n = i"
proof (intro exI conjI)
  let ?k = "(i + n - start mod n) mod n"
  show "?k < n" using assms by simp
  have "start mod n < n" using assms by simp
  then have "start mod n + (i + n - start mod n) = i + n" by simp
  then have "(start mod n + (i + n - start mod n)) mod n = i" using assms by simp
  then show "(start + ?k) mod n = i" by (simp only: mod_add_left_eq mod_add_right_eq)
qed

definition pick_order :: "nat \<Rightarrow> nat \<Rightarrow> nat list" where
  "pick_order start n = map (\<lambda>k. (start + k) mod n) [0..<n]"

lemma pick_order_props:
  "set (pick_order start n) = {..<n}" "start < n \<Longrightarrow> pick_order start n ! 0 = start" "length (pick_order start n) = n"
proof -
  have "i \<in> (\<lambda>k. (start + k) mod n) ` {0..<n}" if "i < n" for i
    using mod_offsets_cover [OF that, of start] by (auto simp: image_iff)
  moreover have "(start + k) mod n < n" if "k < n" for k using that by simp
  ultimately show "set (pick_order start n) = {..<n}" by (auto simp: pick_order_def)
  show "pick_order start n ! 0 = start" if "start < n" using that by (simp add: pick_order_def)
qed (simp add: pick_order_def)

lemma pick_from_eq:
  "pick_from servers start ex = map_option ((!) (pick_order start (length servers)))
     (find_index (\<lambda>i. int i \<noteq> ex \<and> server_up (servers ! i)) (pick_order start (length servers)))"
  by (simp add: pick_from_def pick_order_def Let_def)

lemma pick_from_Some:
  assumes "pick_from servers start ex = Some i"
  shows "i < length servers \<and> int i \<noteq> ex \<and> server_up (servers ! i)"
proof -
  let ?o = "pick_order start (length servers)"
  obtain k where k: "find_index (\<lambda>i. int i \<noteq> ex \<and> server_up (servers ! i)) ?o = Some k" "i = ?o ! k"
    using assms by (auto simp: pick_from_eq)
  have "i \<in> set ?o" using find_index_nth_mem [OF k(1)] k(2) by simp
  with find_index_SomeD [OF k(1)] k(2) show ?thesis by (simp add: pick_order_props(1))
qed

lemma pick_from_None_iff:
  "pick_from servers start ex = None \<longleftrightarrow> (\<forall>i < length servers. int i = ex \<or> \<not> server_up (servers ! i))"
  by (auto simp: pick_from_eq find_index_None_iff pick_order_props(1))

lemma pick_from_start:
  assumes "start < length servers" and "server_up (servers ! start)" and "int start \<noteq> ex"
  shows "pick_from servers start ex = Some start"
proof -
  have "find_index (\<lambda>i. int i \<noteq> ex \<and> server_up (servers ! i)) (pick_order start (length servers)) = Some 0"
    by (rule find_index_SomeI) (use assms pick_order_props in auto)
  then show ?thesis using assms(1) by (simp add: pick_from_eq pick_order_props(2))
qed

text \<open>Successive choices of a primary server.\<close>

fun picks :: "nat \<Rightarrow> nm_state \<Rightarrow> nat option list" where
  "picks 0 st = []"
| "picks (Suc k) st = (case nm_pick_server st of (r, st') \<Rightarrow> r # picks k st')"

lemma picks_all_up:
  assumes "nm_servers st \<noteq> []" and "list_all server_up (nm_servers st)"
  shows "picks k st = map (\<lambda>j. Some ((nm_next_primary st + j) mod length (nm_servers st))) [0..<k]"
  using assms
proof (induction k arbitrary: st)
  case (Suc k)
  let ?n = "length (nm_servers st)" and ?p = "nm_next_primary st mod length (nm_servers st)"
  let ?st = "st\<lparr>nm_next_primary := (?p + 1) mod ?n\<rparr>"
  have p: "?p < ?n" using Suc.prems by simp
  have "pick_from (nm_servers st) ?p (-1) = Some ?p"
    by (rule pick_from_start) (use p Suc.prems in \<open>auto simp: list_all_length\<close>)
  then have "nm_pick_server st = (Some ?p, ?st)" using Suc.prems by (simp add: nm_pick_server_def Let_def)
  moreover have "picks k ?st = map (\<lambda>j. Some ((nm_next_primary ?st + j) mod ?n)) [0..<k]"
    using Suc.IH [of ?st] Suc.prems by simp
  moreover have "(nm_next_primary ?st + j) mod ?n = (nm_next_primary st + Suc j) mod ?n" for j
    by (simp add: mod_simps)
  ultimately have "picks (Suc k) st = Some ?p # map (\<lambda>j. Some ((nm_next_primary st + Suc j) mod ?n)) [0..<k]" by simp
  then show ?case by (simp add: map_upt_Suc del: upt_Suc)
qed simp

section \<open>Registration\<close>

definition servers_ok :: "nm_state \<Rightarrow> bool" where
  "servers_ok st \<longleftrightarrow> distinct (map ss_id (nm_servers st)) \<and> length (nm_servers st) \<le> NM_MAX_SERVERS"

definition registered :: "string \<Rightarrow> string \<Rightarrow> string \<Rightarrow> string \<Rightarrow> int \<Rightarrow> storage_server" where
  "registered sid host ctrl data fd = \<lparr>ss_id = sid, ss_host = buf NM_MAX_NAME host, ss_ctrl_port = buf 16 ctrl,
     ss_data_port = buf 16 data, ss_ctrl_fd = fd, ss_online = True\<rparr>"

lemma nm_register_server_result:
  assumes "servers_ok st" and "length sid < NM_MAX_NAME"
  shows "\<exists>r st'. nm_register_server st sid host ctrl data fd = (r, st') \<and> servers_ok st' \<and>
    (case r of
       None \<Rightarrow> nm_find_server_by_id st sid = None \<and> length (nm_servers st) = NM_MAX_SERVERS \<and> st' = st
     | Some i \<Rightarrow> nm_get_server st' (int i) = Some (registered sid host ctrl data fd) \<and>
         nm_find_server_by_id st' sid = Some i \<and>
         (case nm_find_server_by_id st sid of Some j \<Rightarrow> i = j | None \<Rightarrow> i = length (nm_servers st)) \<and>
         (\<forall>j < length (nm_servers st). j \<noteq> i \<longrightarrow> nm_get_server st' (int j) = nm_get_server st (int j)))"
proof (cases "nm_find_server_by_id st sid")
  case (Some i)
  let ?e = "registered sid host ctrl data fd"
  have i: "i < length (nm_servers st)" "ss_id (nm_servers st ! i) = sid" "\<forall>j < i. ss_id (nm_servers st ! j) \<noteq> sid"
    using find_index_SomeD [OF Some [unfolded nm_find_server_by_id_def]] by auto
  then have run: "nm_register_server st sid host ctrl data fd = (Some i, st\<lparr>nm_servers := (nm_servers st)[i := ?e]\<rparr>)"
    using Some by (cases "nm_servers st ! i") (simp add: nm_register_server_def registered_def)
  have "(map ss_id (nm_servers st))[i := sid] = map ss_id (nm_servers st)"
    using i by (intro list_update_same_conv [THEN iffD2]) simp_all
  then have "servers_ok (st\<lparr>nm_servers := (nm_servers st)[i := ?e]\<rparr>)"
    using assms(1) by (simp add: servers_ok_def map_update registered_def)
  moreover have "nm_find_server_by_id (st\<lparr>nm_servers := (nm_servers st)[i := ?e]\<rparr>) sid = Some i"
    unfolding nm_find_server_by_id_def by (rule find_index_SomeI) (use i in \<open>auto simp: registered_def\<close>)
  ultimately show ?thesis using run Some i by (auto simp: nm_get_server_def)
next
  case None
  let ?e = "registered sid host ctrl data fd"
  show ?thesis
  proof (cases "NM_MAX_SERVERS \<le> length (nm_servers st)")
    case True
    then show ?thesis using None assms(1) by (simp add: nm_register_server_def servers_ok_def)
  next
    case False
    then have run: "nm_register_server st sid host ctrl data fd =
        (Some (length (nm_servers st)), st\<lparr>nm_servers := nm_servers st @ [?e]\<rparr>)"
      using None assms(2) by (simp add: nm_register_server_def registered_def)
    have new: "\<forall>s \<in> set (nm_servers st). ss_id s \<noteq> sid"
      using None by (simp add: nm_find_server_by_id_def find_index_None_iff)
    then have "servers_ok (st\<lparr>nm_servers := nm_servers st @ [?e]\<rparr>)"
      using assms(1) False by (auto simp: servers_ok_def registered_def)
    moreover have "nm_find_server_by_id (st\<lparr>nm_servers := nm_servers st @ [?e]\<rparr>) sid = Some (length (nm_servers st))"
      using None by (simp add: nm_find_server_by_id_def find_index_append registered_def)
    ultimately show ?thesis using run None by (auto simp: nm_get_server_def nth_append)
  qed
qed

section \<open>The location cache\<close>

definition cache_ok :: "nm_state \<Rightarrow> bool" where
  "cache_ok st \<longleftrightarrow> distinct (map ce_name (nm_cache st)) \<and> length (nm_cache st) \<le> NM_MAX_CACHE"

lemma oldest_loop_props:
  assumes "i = length done" and "old < length (done @ es)" and "old < i" and "ts = ce_used ((done @ es) ! old)"
    and "\<forall>e \<in> set done. ts \<le> ce_used e"
  shows "oldest_loop es i old ts < length (done @ es) \<and>
    (\<forall>e \<in> set (done @ es). ce_used ((done @ es) ! oldest_loop es i old ts) \<le> ce_used e)"
  using assms
proof (induction es arbitrary: "done" i old ts)
  case (Cons e es)
  have eq: "done @ e # es = (done @ [e]) @ es" by simp
  show ?case
  proof (cases "ce_used e < ts")
    case True
    have "oldest_loop es (Suc i) i (ce_used e) < length ((done @ [e]) @ es) \<and>
      (\<forall>x \<in> set ((done @ [e]) @ es). ce_used (((done @ [e]) @ es) ! oldest_loop es (Suc i) i (ce_used e)) \<le> ce_used x)"
      by (rule Cons.IH) (use Cons.prems True in \<open>fastforce simp: nth_append\<close>)+
    then show ?thesis using True by simp
  next
    case False
    have "oldest_loop es (Suc i) old ts < length ((done @ [e]) @ es) \<and>
      (\<forall>x \<in> set ((done @ [e]) @ es). ce_used (((done @ [e]) @ es) ! oldest_loop es (Suc i) old ts) \<le> ce_used x)"
      by (rule Cons.IH) (use Cons.prems False in \<open>fastforce simp: nth_append\<close>)+
    then show ?thesis using False by simp
  qed
qed auto

lemma oldest_index_props:
  assumes "es \<noteq> []"
  shows "oldest_index es < length es" and "e \<in> set es \<Longrightarrow> ce_used (es ! oldest_index es) \<le> ce_used e"
proof -
  have "oldest_loop (tl es) 1 0 (ce_used (hd es)) < length ([hd es] @ tl es) \<and>
    (\<forall>e \<in> set ([hd es] @ tl es). ce_used (([hd es] @ tl es) ! oldest_loop (tl es) 1 0 (ce_used (hd es))) \<le> ce_used e)"
    by (rule oldest_loop_props) simp_all
  moreover have "[hd es] @ tl es = es" using assms by simp
  ultimately have "oldest_index es < length es \<and> (\<forall>e \<in> set es. ce_used (es ! oldest_index es) \<le> ce_used e)"
    unfolding oldest_index_def by metis
  then show "oldest_index es < length es" "e \<in> set es \<Longrightarrow> ce_used (es ! oldest_index es) \<le> ce_used e" by auto
qed

definition cached :: "cache_entry list \<Rightarrow> name \<Rightarrow> int option" where
  "cached es n = map_option (\<lambda>i. ce_ss (es ! i)) (find_index (\<lambda>c. ce_name c = n) es)"

lemma cache_lookup_fst: "fst (nm_cache_lookup now st n) = cached (nm_cache st) n"
  by (auto simp: nm_cache_lookup_def cached_def cache_index_def split: option.split)

lemma cached_Some_iff:
  "distinct (map ce_name es) \<Longrightarrow> cached es n = Some s \<longleftrightarrow> (\<exists>e \<in> set es. ce_name e = n \<and> ce_ss e = s)"
proof (induction es)
  case (Cons e es)
  have "cached (e # es) n = (if ce_name e = n then Some (ce_ss e) else cached es n)"
    by (cases "find_index (\<lambda>c. ce_name c = n) es") (simp_all add: cached_def)
  then show ?case using Cons by (auto simp: image_iff)
qed (simp add: cached_def)

lemma cached_update:
  assumes "distinct (map ce_name es)" and "i < length es" and "ce_name e = ce_name (es ! i)"
  shows "distinct (map ce_name (es[i := e]))"
    and "cached (es[i := e]) m = (if m = ce_name e then Some (ce_ss e) else cached es m)"
proof -
  have "(map ce_name es)[i := ce_name e] = map ce_name es"
    using assms(2,3) by (intro list_update_same_conv [THEN iffD2]) simp_all
  then show d: "distinct (map ce_name (es[i := e]))" using assms(1) by (simp add: map_update)
  have "set (es[i := e]) = insert e (set es - {es ! i})"
    using assms(1,2) by (intro set_update_distinct) (simp_all add: distinct_map)
  moreover have "x = es ! i" if x: "x \<in> set es" "ce_name x = ce_name (es ! i)" for x
  proof -
    obtain j where j: "j < length es" "x = es ! j" using x(1) by (metis in_set_conv_nth)
    then have "j = i" using x(2) assms(1,2) nth_eq_iff_index_eq [of "map ce_name es" j i] by simp
    then show ?thesis using j by simp
  qed
  ultimately show "cached (es[i := e]) m = (if m = ce_name e then Some (ce_ss e) else cached es m)"
    by (intro option_eqI) (use assms(3) in \<open>auto simp: cached_Some_iff [OF d] cached_Some_iff [OF assms(1)]\<close>)
qed

lemma cached_append_new:
  assumes "distinct (map ce_name es)" and "cached es n = None"
  shows "distinct (map ce_name (es @ [\<lparr>ce_name = n, ce_ss = s, ce_used = t\<rparr>]))"
    and "cached (es @ [\<lparr>ce_name = n, ce_ss = s, ce_used = t\<rparr>]) m = (if m = n then Some s else cached es m)"
proof -
  have none: "find_index (\<lambda>c. ce_name c = n) es = None" using assms(2) by (simp add: cached_def)
  then show "distinct (map ce_name (es @ [\<lparr>ce_name = n, ce_ss = s, ce_used = t\<rparr>]))"
    using assms(1) by (auto simp: find_index_None_iff)
  show "cached (es @ [\<lparr>ce_name = n, ce_ss = s, ce_used = t\<rparr>]) m = (if m = n then Some s else cached es m)"
  proof (cases "find_index (\<lambda>c. ce_name c = m) es")
    case None
    then show ?thesis by (simp add: cached_def find_index_append nth_append)
  next
    case (Some i)
    then have "m \<noteq> n" using none by auto
    with Some find_index_SomeD [OF Some] show ?thesis by (simp add: cached_def find_index_append nth_append)
  qed
qed

text \<open>Dropping the entry at \<open>i\<close> forgets its name only.\<close>

lemma cached_drop:
  assumes "distinct (map ce_name es)" and "i < length es"
  shows "cached (drop_swap i es) m = (if m = ce_name (es ! i) then None else cached es m)"
proof (rule option_eqI)
  fix s
  note ds = drop_swap_props [OF assms]
  have un: "x = es ! i" if x: "x \<in> set es" "ce_name x = ce_name (es ! i)" for x
  proof -
    obtain j where j: "j < length es" "x = es ! j" using x(1) by (metis in_set_conv_nth)
    then have "j = i" using x(2) assms(1,2) nth_eq_iff_index_eq [of "map ce_name es" j i] by simp
    then show ?thesis using j by simp
  qed
  show "cached (drop_swap i es) m = Some s \<longleftrightarrow> (if m = ce_name (es ! i) then None else cached es m) = Some s"
    unfolding cached_Some_iff [OF ds(2)] ds(1) using cached_Some_iff [OF assms(1), of m s] un by auto
qed

lemma nm_cache_put_result:
  fixes s :: int and now :: time_t
  assumes "cache_ok st" and "length n < NM_MAX_NAME"
  defines "st' \<equiv> nm_cache_put now st n s"
  shows "cache_ok st'" and "\<exists>victim. (\<forall>m. cached (nm_cache st') m =
      (if m = n then Some s else if victim = Some m then None else cached (nm_cache st) m)) \<and>
    (\<forall>v. victim = Some v \<longrightarrow> length (nm_cache st) = NM_MAX_CACHE \<and> cached (nm_cache st) n = None \<and>
      (\<exists>e \<in> set (nm_cache st). ce_name e = v \<and> (\<forall>x \<in> set (nm_cache st). ce_used e \<le> ce_used x)))"
proof -
  let ?es = "nm_cache st"
  have d: "distinct (map ce_name ?es)" and le: "length ?es \<le> NM_MAX_CACHE"
    using assms(1) by (auto simp: cache_ok_def)
  consider (hit) i where "cache_index st n = Some i" "i < length ?es" "ce_name (?es ! i) = n"
    | (miss) "cache_index st n = None" "length ?es < NM_MAX_CACHE" "cached ?es n = None"
    | (evict) "cache_index st n = None" "NM_MAX_CACHE \<le> length ?es" "cached ?es n = None"
    using find_index_SomeD [of "\<lambda>c. ce_name c = n" ?es]
    by (cases "cache_index st n"; cases "length ?es < NM_MAX_CACHE") (auto simp: cache_index_def cached_def)
  then have "cache_ok st' \<and> (\<exists>victim. (\<forall>m. cached (nm_cache st') m =
      (if m = n then Some s else if victim = Some m then None else cached ?es m)) \<and>
    (\<forall>v. victim = Some v \<longrightarrow> length ?es = NM_MAX_CACHE \<and> cached ?es n = None \<and>
      (\<exists>e \<in> set ?es. ce_name e = v \<and> (\<forall>x \<in> set ?es. ce_used e \<le> ce_used x))))"
  proof cases
    case (hit i)
    let ?e = "(?es ! i)\<lparr>ce_ss := s, ce_used := now\<rparr>"
    have st': "nm_cache st' = ?es[i := ?e]" using hit by (simp add: st'_def nm_cache_put_def)
    have e: "ce_name ?e = ce_name (?es ! i)" by simp
    show ?thesis
      using cached_update [OF d hit(2) e] hit(3) le by (intro conjI exI [of _ None]) (simp_all add: cache_ok_def st')
  next
    case miss
    then have st': "nm_cache st' = ?es @ [\<lparr>ce_name = n, ce_ss = s, ce_used = now\<rparr>]"
      using assms(2) by (simp add: st'_def nm_cache_put_def)
    show ?thesis
      using cached_append_new [OF d miss(3)] miss(2) by (intro conjI exI [of _ None]) (simp_all add: cache_ok_def st')
  next
    case evict
    let ?i = "oldest_index ?es" and ?ds = "drop_swap (oldest_index ?es) ?es"
    have st': "nm_cache st' = ?ds @ [\<lparr>ce_name = n, ce_ss = s, ce_used = now\<rparr>]"
      using evict assms(2) by (simp add: st'_def nm_cache_put_def)
    have ne: "?es \<noteq> []" using evict(2) by (auto simp: NM_MAX_CACHE_def)
    note o = oldest_index_props [OF ne]
    note ds = drop_swap_props [OF d o(1)]
    have none: "cached ?ds n = None" using evict(3) cached_drop [OF d o(1), of n] by simp
    note ap = cached_append_new [OF ds(2) none, of s now]
    have ok: "cache_ok st'" using ap(1) ds(3) o(1) le by (simp add: cache_ok_def st')
    have v: "?es ! ?i \<in> set ?es" "\<forall>x \<in> set ?es. ce_used (?es ! ?i) \<le> ce_used x" using o by simp_all
    have "cached (nm_cache st') m = (if m = n then Some s else if Some (ce_name (?es ! ?i)) = Some m then None
        else cached ?es m)" for m
      unfolding st' ap(2) cached_drop [OF d o(1)] by auto
    with ok v evict le show ?thesis by (intro conjI exI [of _ "Some (ce_name (?es ! ?i))"]) auto
  qed
  then show "cache_ok st'" and "\<exists>victim. (\<forall>m. cached (nm_cache st') m =
      (if m = n then Some s else if victim = Some m then None else cached (nm_cache st) m)) \<and>
    (\<forall>v. victim = Some v \<longrightarrow> length (nm_cache st) = NM_MAX_CACHE \<and> cached (nm_cache st) n = None \<and>
      (\<exists>e \<in> set (nm_cache st). ce_name e = v \<and> (\<forall>x \<in> set (nm_cache st). ce_used e \<le> ce_used x)))" by blast+
qed

lemma pick_server_up:
  "case fst (nm_pick_server st) of
     None \<Rightarrow> \<not> list_ex server_up (nm_servers st)
   | Some i \<Rightarrow> \<exists>s. nm_get_server st (int i) = Some s \<and> server_up s"
  using pick_from_None_iff [of "nm_servers st" "nm_next_primary st mod length (nm_servers st)" "-1"]
  by (auto simp: nm_pick_server_def Let_def nm_get_server_def list_ex_length split: option.split dest!: pick_from_Some)

lemma pick_backup_up:
  "case fst (nm_pick_backup_server st ex) of
     None \<Rightarrow> \<forall>i s. nm_get_server st (int i) = Some s \<and> server_up s \<longrightarrow> int i = ex
   | Some i \<Rightarrow> int i \<noteq> ex \<and> (\<exists>s. nm_get_server st (int i) = Some s \<and> server_up s)"
proof (cases "pick_from (nm_servers st) (nm_next_backup st mod length (nm_servers st)) ex")
  case None
  then have "\<forall>i < length (nm_servers st). int i = ex \<or> \<not> server_up (nm_servers st ! i)"
    by (simp add: pick_from_None_iff)
  with None show ?thesis by (auto simp: nm_pick_backup_server_def Let_def nm_get_server_def not_le)
next
  case (Some i)
  with pick_from_Some [OF Some] show ?thesis by (auto simp: nm_pick_backup_server_def Let_def nm_get_server_def)
qed

section \<open>Properties\<close>

definition demo_servers :: nm_state where
  "demo_servers = demo_nm\<lparr>nm_servers :=
     [registered ''ss1'' ''host1'' ''9001'' ''9101'' 5, (registered ''ss2'' ''host2'' ''9002'' ''9102'' 6)\<lparr>ss_online := False\<rparr>,
      registered ''ss3'' ''host3'' ''9003'' ''9103'' 7]\<rparr>"

text \<open>A storage server that is down is never chosen. The choice of a primary returns a server that is
  online and connected, and nothing exactly when there is none; after \<^verbatim>\<open>nm_mark_server_down\<close> the
  server is not chosen. The choice of a backup moreover never returns the excluded server (the
  primary), and nothing exactly when no other server is up.\<close>

theorem picked_server_is_up:
  "(case fst (nm_pick_server st) of
      None \<Rightarrow> \<not> list_ex server_up (nm_servers st)
    | Some i \<Rightarrow> \<exists>s. nm_get_server st (int i) = Some s \<and> server_up s) \<and>
   fst (nm_pick_server (nm_mark_server_down st (int j))) \<noteq> Some j \<and>
   (case fst (nm_pick_backup_server st ex) of
      None \<Rightarrow> \<forall>i s. nm_get_server st (int i) = Some s \<and> server_up s \<longrightarrow> int i = ex
    | Some i \<Rightarrow> int i \<noteq> ex \<and> (\<exists>s. nm_get_server st (int i) = Some s \<and> server_up s))"
  using pick_server_up [of st] pick_server_up [of "nm_mark_server_down st (int j)"] pick_backup_up [of st ex]
  by (auto simp: nm_mark_server_down_def nm_get_server_def server_up_def split: if_splits option.splits)

theorem picked_server_is_up_witness:
  "fst (nm_pick_server (demo_servers\<lparr>nm_next_primary := 1\<rparr>)) = Some 2 \<and>
   fst (nm_pick_backup_server demo_servers 2) = Some 0 \<and>
   fst (nm_pick_server (nm_mark_server_down demo_servers 0)) \<noteq> Some 0"
proof -
  have "fst (nm_pick_server (demo_servers\<lparr>nm_next_primary := 1\<rparr>)) = Some 2"
    "fst (nm_pick_backup_server demo_servers 2) = Some 0" by code_simp+
  then show ?thesis using picked_server_is_up [of demo_servers 0] by simp
qed

text \<open>New files are spread evenly. While every registered server is up, successive choices of a primary go
  round the servers in order, starting where the last choice left off, so each server gets every
  \<open>n\<close>-th file.\<close>

theorem round_robin:
  assumes "nm_servers st \<noteq> []" and "list_all server_up (nm_servers st)"
  shows "picks k st = map (\<lambda>j. Some ((nm_next_primary st + j) mod length (nm_servers st))) [0..<k]"
  using assms by (rule picks_all_up)

theorem round_robin_witness:
  "picks 4 (nm_mark_server_down demo_nm 0\<lparr>nm_servers :=
      [registered ''ss1'' ''host1'' ''9001'' ''9101'' 5, registered ''ss2'' ''host2'' ''9002'' ''9102'' 6]\<rparr>) =
   [Some 0, Some 1, Some 0, Some 1]"
proof -
  let ?st = "nm_mark_server_down demo_nm 0\<lparr>nm_servers :=
      [registered ''ss1'' ''host1'' ''9001'' ''9101'' 5, registered ''ss2'' ''host2'' ''9002'' ''9102'' 6]\<rparr>"
  have "nm_servers ?st \<noteq> []" "list_all server_up (nm_servers ?st)" "nm_next_primary ?st = 0"
    by (simp_all add: server_up_def registered_def nm_mark_server_down_def demo_nm_def clear_state_def)
  then show ?thesis using round_robin [of ?st 4] by (simp add: upt_rec mod_Suc)
qed

text \<open>Registration. A storage server that registers under an identifier for the first time gets the next
  free index (unless 32 are registered already, which changes nothing); one that comes back
  under its identifier keeps the index the files refer to, with its new address and online. Identifiers
  stay unique, the server is found by identifier and index, and no other server is changed.\<close>

theorem server_registered:
  assumes "servers_ok st" and "length sid < NM_MAX_NAME"
  shows "\<exists>r st'. nm_register_server st sid host ctrl data fd = (r, st') \<and> servers_ok st' \<and>
    (case r of
       None \<Rightarrow> nm_find_server_by_id st sid = None \<and> length (nm_servers st) = NM_MAX_SERVERS \<and> st' = st
     | Some i \<Rightarrow> nm_get_server st' (int i) = Some (registered sid host ctrl data fd) \<and>
         nm_find_server_by_id st' sid = Some i \<and>
         (case nm_find_server_by_id st sid of Some j \<Rightarrow> i = j | None \<Rightarrow> i = length (nm_servers st)) \<and>
         (\<forall>j < length (nm_servers st). j \<noteq> i \<longrightarrow> nm_get_server st' (int j) = nm_get_server st (int j)))"
  using assms by (rule nm_register_server_result)

theorem server_registered_witness:
  "\<exists>st'. nm_register_server demo_servers ''ss2'' ''host9'' ''9009'' ''9109'' 8 = (Some 1, st') \<and> servers_ok st' \<and>
     nm_get_server st' 1 = Some (registered ''ss2'' ''host9'' ''9009'' ''9109'' 8)"
proof -
  have ok: "servers_ok demo_servers" "length ''ss2'' < NM_MAX_NAME" by code_simp+
  have "fst (nm_register_server demo_servers ''ss2'' ''host9'' ''9009'' ''9109'' 8) = Some 1" by code_simp
  with server_registered [OF ok, of "''host9''" "''9009''" "''9109''" 8] show ?thesis by auto
qed

text \<open>The location cache. \<^verbatim>\<open>nm_cache_put\<close> keeps at most 128 entries, one per name; the name just put is found
  with its server; every other name is found as before, except one victim when a new name comes
  to a full cache, and the victim is a least recently used entry.\<close>

theorem cache_put_lookup:
  assumes "cache_ok st" and "length n < NM_MAX_NAME"
  shows "cache_ok (nm_cache_put now st n s) \<and>
    (\<exists>victim. (\<forall>m. fst (nm_cache_lookup t (nm_cache_put now st n s) m) =
        (if m = n then Some s else if victim = Some m then None else fst (nm_cache_lookup t st m))) \<and>
      (\<forall>v. victim = Some v \<longrightarrow> length (nm_cache st) = NM_MAX_CACHE \<and> fst (nm_cache_lookup t st n) = None \<and>
        (\<exists>e \<in> set (nm_cache st). ce_name e = v \<and> (\<forall>x \<in> set (nm_cache st). ce_used e \<le> ce_used x))))"
  unfolding cache_lookup_fst by (intro conjI nm_cache_put_result [OF assms])

theorem cache_put_lookup_witness:
  "cache_ok (nm_cache_put 7 demo_nm ''a'' 2) \<and> fst (nm_cache_lookup 8 (nm_cache_put 7 demo_nm ''a'' 2) ''a'') = Some 2"
proof -
  have ok: "cache_ok demo_nm" "length ''a'' < NM_MAX_NAME"
    by (simp_all add: cache_ok_def demo_nm_def clear_state_def NM_MAX_NAME_def)
  show ?thesis using cache_put_lookup [OF ok, of 7 2 8] by auto
qed

end
