(* ===== verification/Common_Rand.thy ===== *)
theory Common_Rand
  imports C_Lib "HOL-Library.Word"
begin

text \<open>
  Random tokens, \<^verbatim>\<open>common/randutil.c\<close>: the seed of the generator and the tokens drawn from it. The
  generator itself, \<^verbatim>\<open>rand\<close>, is a parameter.
\<close>

unbundle bit_operations_syntax

text \<open>
  The seed in use, \<open>None\<close> before the first call. \<open>urandom\<close> is what the device gives: it cannot be opened, it cannot be read in
  full, or a number.
\<close>

definition randutil_seed :: "32 word option option \<Rightarrow> 32 word \<Rightarrow> 32 word \<Rightarrow> 32 word option \<Rightarrow> 32 word option" where
  "randutil_seed urandom pid now seeded =
     (case seeded of
        Some s \<Rightarrow> Some s
      | None \<Rightarrow>
          (case urandom of
             Some (Some seed) \<Rightarrow> Some seed
           | Some None \<Rightarrow> Some (pid XOR now)
           | None \<Rightarrow> Some (pid XOR now)))"

text \<open>\<^verbatim>\<open>randutil_token\<close>: \<open>n\<close> characters of the alphabet.\<close>

definition token_alphabet :: string where
  "token_alphabet = ''ABCDEFGHIJKLMNOPQRSTUVWXYZabcdefghijklmnopqrstuvwxyz0123456789''"

fun randutil_token :: "('w \<Rightarrow> nat \<times> 'w) \<Rightarrow> nat \<Rightarrow> 'w \<Rightarrow> string \<times> 'w" where
  "randutil_token rnd 0 w = ([], w)"
| "randutil_token rnd (Suc n) w =
     (case rnd w of (r, w1) \<Rightarrow>
      case randutil_token rnd n w1 of (cs, w2) \<Rightarrow> (token_alphabet ! (r mod length token_alphabet) # cs, w2))"

text \<open>The generator is seeded once, whatever later calls see.\<close>

lemma seed_once: "randutil_seed u2 p2 n2 (randutil_seed u1 p1 n1 s) = randutil_seed u1 p1 n1 s"
  by (simp add: randutil_seed_def split: option.split)

end
