(* ===== verification/NM_Context.thy ===== *)
theory NM_Context
  imports NM_Servers NM_Persist SS_Control Common_Rand
begin

text \<open>
  The context of the name manager, the first part of \<^verbatim>\<open>nm/nm_main.c\<close>: the table of
  connections, the tickets, the active users, the commands sent to storage servers, and
  the choice of a server for a file. Everything outside the process is the world, of
  type \<open>'w\<close>: \<open>no_rpc\<close> sends a command on a control connection and gives the reply,
  \<open>no_fetch\<close> makes one request on a data connection, \<open>no_shell\<close> runs a script,
  \<open>no_rand\<close> is \<^verbatim>\<open>rand\<close>. Each of them may change the world and (but for \<^verbatim>\<open>rand\<close>) may fail.

  One message is handled at a time, with one value of \<^verbatim>\<open>time(NULL)\<close>. Acquiring the mutexes
  succeeds; logging is left out. Handlers that end in one call of \<^verbatim>\<open>send_ok\<close> or
  \<^verbatim>\<open>send_error_response\<close> return its arguments as a value of type \<open>reply\<close>.
\<close>

section \<open>Data\<close>

definition MAX_PEERS :: nat where "MAX_PEERS = 256"
definition TICKET_TTL :: int where "TICKET_TTL = 30"

datatype peer_type = PEER_UNUSED | PEER_UNKNOWN | PEER_CLIENT | PEER_SERVER

record peer =
  p_fd :: int
  p_type :: peer_type
  p_server :: int
  p_user :: string
  p_conn :: conn

record ticket_entry =
  te_token :: string
  te_file :: string
  te_user :: string
  te_op :: string
  te_expiry :: time_t
  te_ss :: int

record replication_task =
  rt_file :: string
  rt_owner :: string
  rt_primary :: int
  rt_backup :: int
  rt_assign :: bool

record 'w nm_context =
  nc_peers :: "peer list"
  nc_state :: nm_state
  nc_tickets :: "ticket_entry array"
  nc_users :: "string array"
  nc_queue :: "replication_task array"
  nc_disk :: disk
  nc_world :: 'w

record 'w nm_os =
  no_now :: time_t
  no_mem :: "nat \<Rightarrow> bool"
  no_save :: "'w \<Rightarrow> save_fault"
  no_rand :: "'w \<Rightarrow> nat \<times> 'w"
  no_rpc :: "int \<Rightarrow> string \<Rightarrow> 'w \<Rightarrow> string option \<times> 'w"
  no_fetch :: "string \<Rightarrow> string \<Rightarrow> string \<Rightarrow> 'w \<Rightarrow> string option \<times> 'w"
  no_shell :: "string \<Rightarrow> 'w \<Rightarrow> string option \<times> 'w"
  no_junk :: string

datatype reply = ReplyOk string | ReplyErr error_code_t string

fun send_reply :: "conn \<Rightarrow> reply \<Rightarrow> bool \<times> conn" where
  "send_reply c (ReplyOk extra) = send_ok c extra"
| "send_reply c (ReplyErr code message) = send_error_response c code message"

section \<open>Connections\<close>

definition closed_conn :: conn where
  "closed_conn = \<lparr>inbox = [], outbox = [], send_limit = 0\<rparr>"

definition peer_reset_fields :: "peer \<Rightarrow> peer" where
  "peer_reset_fields p = p\<lparr>p_fd := -1, p_type := PEER_UNUSED, p_server := -1, p_user := []\<rparr>"

definition peer_close :: "'w nm_context \<Rightarrow> nat \<Rightarrow> 'w nm_context" where
  "peer_close ctx i = ctx\<lparr>nc_peers := (nc_peers ctx)[i := (peer_reset_fields (nc_peers ctx ! i))\<lparr>p_conn := closed_conn\<rparr>]\<rparr>"

definition find_server_peer :: "'w nm_context \<Rightarrow> int \<Rightarrow> nat option" where
  "find_server_peer ctx ctrl_fd =
     find_index (\<lambda>p. p_type p = PEER_SERVER \<and> p_fd p = ctrl_fd \<and> 0 \<le> p_fd p) (nc_peers ctx)"

definition allocate_peer :: "'w nm_context \<Rightarrow> nat option" where
  "allocate_peer ctx = find_index (\<lambda>p. p_type p = PEER_UNUSED) (nc_peers ctx)"

text \<open>A connection accepted by the main loop takes the first free slot.\<close>

definition accept_peer :: "'w nm_context \<Rightarrow> int \<Rightarrow> conn \<Rightarrow> 'w nm_context" where
  "accept_peer ctx fd c =
     (case allocate_peer ctx of
        None \<Rightarrow> ctx
      | Some i \<Rightarrow>
          ctx\<lparr>nc_peers := (nc_peers ctx)[i := (peer_reset_fields (nc_peers ctx ! i))
            \<lparr>p_fd := fd, p_type := PEER_UNKNOWN, p_server := -1, p_user := [], p_conn := c\<rparr>]\<rparr>)"

section \<open>Active users\<close>

definition active_user_index :: "'w nm_context \<Rightarrow> string \<Rightarrow> nat option" where
  "active_user_index ctx user = find_index (\<lambda>u. u = user) (items (nc_users ctx))"

definition active_user_add :: "'w nm_os \<Rightarrow> 'w nm_context \<Rightarrow> string \<Rightarrow> bool \<times> 'w nm_context" where
  "active_user_add os ctx user =
     (if user = [] \<or> active_user_index ctx user \<noteq> None then (False, ctx)
      else case array_push (no_mem os) (nc_users ctx) (buf NM_MAX_USER user) of
        None \<Rightarrow> (False, ctx)
      | Some arr \<Rightarrow> (True, ctx\<lparr>nc_users := arr\<rparr>))"

definition active_user_remove :: "'w nm_context \<Rightarrow> string \<Rightarrow> 'w nm_context" where
  "active_user_remove ctx user =
     (if user = [] then ctx
      else case active_user_index ctx user of
        None \<Rightarrow> ctx
      | Some i \<Rightarrow> ctx\<lparr>nc_users := array_remove (nc_users ctx) i\<rparr>)"

definition username_in_use :: "'w nm_context \<Rightarrow> string \<Rightarrow> bool" where
  "username_in_use ctx user \<longleftrightarrow> user \<noteq> [] \<and> active_user_index ctx user \<noteq> None"

section \<open>Commands to storage servers\<close>

definition status_ok :: "string \<Rightarrow> bool" where
  "status_ok response \<longleftrightarrow> json_get_string response ''status'' 16 = Some ''OK''"

definition forward_command :: "'w nm_os \<Rightarrow> 'w nm_context \<Rightarrow> storage_server \<Rightarrow> string \<Rightarrow> string option \<times> 'w nm_context" where
  "forward_command os ctx ss payload =
     (case find_server_peer ctx (ss_ctrl_fd ss) of
        None \<Rightarrow> (None, ctx)
      | Some _ \<Rightarrow>
          (case no_rpc os (ss_ctrl_fd ss) payload (nc_world ctx) of
             (response, w) \<Rightarrow> (response, ctx\<lparr>nc_world := w\<rparr>)))"

definition entry_expired :: "time_t \<Rightarrow> ticket_entry \<Rightarrow> bool" where
  "entry_expired now t \<longleftrightarrow> te_expiry t \<noteq> 0 \<and> te_expiry t < now"

definition ticket_prune :: "'w nm_os \<Rightarrow> 'w nm_context \<Rightarrow> 'w nm_context" where
  "ticket_prune os ctx = ctx\<lparr>nc_tickets := array_prune_loop (entry_expired (no_now os)) 0 (nc_tickets ctx)\<rparr>"

text \<open>The fields are not escaped.\<close>

definition ticket_payload :: "ticket_entry \<Rightarrow> string" where
  "ticket_payload t = braces [fmt_str ''type'' ''NM_TICKET'', fmt_str ''token'' (te_token t), fmt_str ''file'' (te_file t),
     fmt_str ''user'' (te_user t), fmt_str ''op'' (te_op t), fmt_int ''expiry'' (te_expiry t)]"

definition issue_ticket :: "'w nm_os \<Rightarrow> 'w nm_context \<Rightarrow> storage_server \<Rightarrow> int \<Rightarrow> string \<Rightarrow> string \<Rightarrow> string
    \<Rightarrow> string option \<times> 'w nm_context" where
  "issue_ticket os ctx ss ss_index file user op =
     (let ctx1 = ticket_prune os ctx in
      case randutil_token (no_rand os) 63 (nc_world ctx1) of (token, w) \<Rightarrow>
        let ctx2 = ctx1\<lparr>nc_world := w\<rparr>;
            entry = \<lparr>te_token = token, te_file = buf NM_MAX_NAME file, te_user = buf NM_MAX_USER user, te_op = buf 16 op,
                     te_expiry = no_now os + TICKET_TTL, te_ss = ss_index\<rparr> in
        if 512 \<le> length (ticket_payload entry) then (None, ctx2)
        else
          (case forward_command os ctx2 ss (ticket_payload entry) of
             (None, ctx3) \<Rightarrow> (None, ctx3)
           | (Some response, ctx3) \<Rightarrow>
               if \<not> status_ok response then (None, ctx3)
               else
                 (case array_push (no_mem os) (nc_tickets ctx3) entry of
                    None \<Rightarrow> (None, ctx3)
                  | Some arr \<Rightarrow> (Some token, ctx3\<lparr>nc_tickets := arr\<rparr>))))"

section \<open>Servers of a file\<close>

definition server_is_available :: "storage_server option \<Rightarrow> bool" where
  "server_is_available ss = (case ss of None \<Rightarrow> False | Some s \<Rightarrow> 0 \<le> ss_ctrl_fd s \<and> ss_online s)"

definition has_backup_candidate :: "nm_state \<Rightarrow> int \<Rightarrow> bool" where
  "has_backup_candidate st primary_index \<longleftrightarrow>
     (\<exists>i \<in> set [0..<length (nm_servers st)]. int i \<noteq> primary_index \<and> server_is_available (Some (nm_servers st ! i)))"

definition nm_save :: "'w nm_os \<Rightarrow> 'w nm_context \<Rightarrow> 'w nm_context" where
  "nm_save os ctx =
     ctx\<lparr>nc_disk := fst (nm_state_save (no_save os (nc_world ctx)) (nc_disk ctx) (nc_state ctx))\<rparr>"

definition set_state :: "'w nm_context \<Rightarrow> nm_state \<Rightarrow> 'w nm_context" where
  "set_state ctx st = ctx\<lparr>nc_state := st\<rparr>"

definition mark_down :: "'w nm_context \<Rightarrow> int \<Rightarrow> 'w nm_context" where
  "mark_down ctx index = set_state ctx (nm_mark_server_down (nc_state ctx) index)"

definition drop_backup_only :: "file_entry \<Rightarrow> file_entry" where
  "drop_backup_only file = (if fe_backup file < 0 then file else file\<lparr>fe_backup := -1\<rparr>)"

definition drop_file_backup :: "'w nm_os \<Rightarrow> 'w nm_context \<Rightarrow> name \<Rightarrow> 'w nm_context" where
  "drop_file_backup os ctx name = nm_save os (set_state ctx (nm_modify_file (nc_state ctx) name drop_backup_only))"

definition use_backup :: "file_entry \<Rightarrow> file_entry" where
  "use_backup file = file\<lparr>fe_ss := fe_backup file, fe_backup := -1\<rparr>"

text \<open>The index of the server, whose entry is the pointer the code returns.\<close>

definition select_storage_server :: "'w nm_os \<Rightarrow> 'w nm_context \<Rightarrow> file_entry \<Rightarrow> int option \<times> 'w nm_context" where
  "select_storage_server os ctx file =
     (if 0 \<le> fe_ss file \<and> server_is_available (nm_get_server (nc_state ctx) (fe_ss file)) then (Some (fe_ss file), ctx)
      else if 0 \<le> fe_backup file then
        if server_is_available (nm_get_server (nc_state ctx) (fe_backup file)) then
          (Some (fe_backup file), nm_save os (set_state ctx (nm_modify_file (nc_state ctx) (fe_name file) use_backup)))
        else (None, drop_file_backup os ctx (fe_name file))
      else (None, ctx))"

definition file_has_access :: "file_entry \<Rightarrow> string \<Rightarrow> 32 word \<Rightarrow> bool" where
  "file_has_access file user perm \<longleftrightarrow>
     user \<noteq> [] \<and>
     (fe_owner file = user \<or>
      (case find_acl file user of None \<Rightarrow> False | Some i \<Rightarrow> acl_perm (fe_acl file ! i) AND perm = perm))"

primrec obtain_ticket_loop :: "'w nm_os \<Rightarrow> nat \<Rightarrow> 'w nm_context \<Rightarrow> string \<Rightarrow> string \<Rightarrow> 32 word \<Rightarrow> string
    \<Rightarrow> (error_code_t + string \<times> storage_server) \<times> 'w nm_context" where
  "obtain_ticket_loop os 0 ctx file_name user perm op = (Inl ERR_UNAVAILABLE, ctx)"
| "obtain_ticket_loop os (Suc attempts) ctx file_name user perm op =
     (case nm_find_file (nc_state ctx) file_name of
        None \<Rightarrow> (Inl ERR_NOTFOUND, ctx)
      | Some file \<Rightarrow>
          if \<not> file_has_access file user perm then (Inl ERR_NOAUTH, ctx)
          else
            (case select_storage_server os ctx file of
               (None, ctx1) \<Rightarrow> (Inl ERR_UNAVAILABLE, ctx1)
             | (Some ss_index, ctx1) \<Rightarrow>
                 let ss = nm_servers (nc_state ctx1) ! nat ss_index in
                 (case issue_ticket os ctx1 ss ss_index file_name user op of
                    (Some token, ctx2) \<Rightarrow>
                      (Inr (token, ss), set_state ctx2 (nm_cache_put (no_now os) (nc_state ctx2) file_name ss_index))
                  | (None, ctx2) \<Rightarrow> obtain_ticket_loop os attempts (mark_down ctx2 ss_index) file_name user perm op)))"

definition obtain_ticket_for_file :: "'w nm_os \<Rightarrow> 'w nm_context \<Rightarrow> string \<Rightarrow> string \<Rightarrow> 32 word \<Rightarrow> string
    \<Rightarrow> (error_code_t + string \<times> storage_server) \<times> 'w nm_context" where
  "obtain_ticket_for_file os ctx file_name user perm op = obtain_ticket_loop os 2 ctx file_name user perm op"

definition forward_to_available_server :: "'w nm_os \<Rightarrow> 'w nm_context \<Rightarrow> int \<Rightarrow> int \<Rightarrow> string
    \<Rightarrow> string option \<times> 'w nm_context" where
  "forward_to_available_server os ctx primary backup payload =
     (let try_primary =
        (case nm_get_server (nc_state ctx) primary of
           None \<Rightarrow> (None, ctx)
         | Some p \<Rightarrow> if 0 \<le> ss_ctrl_fd p then forward_command os ctx p payload else (None, ctx)) in
      case try_primary of
        (Some response, ctx1) \<Rightarrow> (Some response, ctx1)
      | (None, ctx1) \<Rightarrow>
          (case nm_get_server (nc_state ctx1) backup of
             None \<Rightarrow> (None, ctx1)
           | Some b \<Rightarrow> if backup \<noteq> primary \<and> 0 \<le> ss_ctrl_fd b then forward_command os ctx1 b payload else (None, ctx1)))"

section \<open>The replication queue\<close>

definition same_task :: "replication_task \<Rightarrow> replication_task \<Rightarrow> bool" where
  "same_task a b \<longleftrightarrow> rt_file a = rt_file b \<and>
     ((rt_assign a \<and> rt_assign b) \<or>
      (\<not> rt_assign a \<and> \<not> rt_assign b \<and> rt_primary a = rt_primary b \<and> rt_backup a = rt_backup b))"

definition schedule_replication :: "'w nm_os \<Rightarrow> 'w nm_context \<Rightarrow> string \<Rightarrow> string \<Rightarrow> int \<Rightarrow> int \<Rightarrow> bool
    \<Rightarrow> bool \<times> 'w nm_context" where
  "schedule_replication os ctx file_name owner primary_index backup_index assign_mode =
     (if file_name = [] \<or> primary_index < 0 \<or> (\<not> assign_mode \<and> backup_index < 0) then (False, ctx)
      else
        let task = \<lparr>rt_file = buf NM_MAX_NAME file_name, rt_owner = buf NM_MAX_USER owner, rt_primary = primary_index,
                    rt_backup = backup_index, rt_assign = assign_mode\<rparr> in
        if \<exists>e \<in> set (items (nc_queue ctx)). same_task e task then (True, ctx)
        else case array_push (no_mem os) (nc_queue ctx) task of
          None \<Rightarrow> (False, ctx)
        | Some arr \<Rightarrow> (True, ctx\<lparr>nc_queue := arr\<rparr>))"

definition try_assign_backup :: "'w nm_os \<Rightarrow> 'w nm_context \<Rightarrow> string \<Rightarrow> 'w nm_context" where
  "try_assign_backup os ctx file_name =
     (if file_name = [] then ctx
      else case nm_find_file (nc_state ctx) file_name of
        None \<Rightarrow> ctx
      | Some file \<Rightarrow>
          if 0 \<le> fe_backup file \<or> fe_ss file < 0 then ctx
          else snd (schedule_replication os ctx file_name (buf NM_MAX_USER (fe_owner file)) (fe_ss file) (-1) True))"

end
