(* ===== verification/NM_Clients.thy ===== *)
theory NM_Clients
  imports NM_Context
begin

text \<open>
  The requests of clients, \<^verbatim>\<open>handle_client_message\<close> of \<^verbatim>\<open>nm/nm_main.c\<close> and the handlers it
  calls. \<open>user\<close> is \<^verbatim>\<open>p->user\<close>. Handlers that change nothing give only the reply.
\<close>

section \<open>Replies built piece by piece\<close>

text \<open>\<^verbatim>\<open>json_append\<close> on a buffer of \<open>n\<close> bytes; \<open>None\<close> is the offset \<open>-1\<close>, after which it keeps failing.\<close>

fun json_append :: "nat \<Rightarrow> string option \<Rightarrow> string \<Rightarrow> string option" where
  "json_append n None s = None"
| "json_append n (Some t) s = (if length t + length s < n then Some (t @ s) else None)"

definition append_all :: "string option \<Rightarrow> string list \<Rightarrow> string option" where
  "append_all acc pieces = foldl (json_append MAX_JSON) acc pieces"

definition quoted :: "string \<Rightarrow> string" where
  "quoted s = QUOTE # s @ [QUOTE]"

definition key_open :: "string \<Rightarrow> string \<Rightarrow> string" where
  "key_open k bracket = quoted k @ CHR '':'' # bracket"

fun acl_append :: "string option \<Rightarrow> file_acl_entry list \<Rightarrow> 32 word \<Rightarrow> string option" where
  "acl_append acc [] perm = acc"
| "acl_append acc (a # as) perm =
     (if acl_perm a AND perm \<noteq> perm then acl_append acc as perm
      else case json_escape_string 256 (acl_user a) of
        None \<Rightarrow> None
      | Some u \<Rightarrow> acl_append (json_append MAX_JSON acc (CHR '','' # quoted u)) as perm)"

definition append_access_array :: "string option \<Rightarrow> string \<Rightarrow> file_entry \<Rightarrow> 32 word \<Rightarrow> string option" where
  "append_access_array acc key file perm =
     (case json_escape_string 256 (fe_owner file) of
        None \<Rightarrow> None
      | Some owner \<Rightarrow>
          json_append MAX_JSON
            (acl_append (append_all acc [key_open key ''['', quoted owner]) (fe_acl file) perm) '']'')"

text \<open>Server name and status of a replica; a name that cannot be escaped is printed empty.\<close>

definition replica_id :: "nm_state \<Rightarrow> int \<Rightarrow> string" where
  "replica_id st index =
     (case nm_get_server st index of
        None \<Rightarrow> []
      | Some ss \<Rightarrow> (case json_escape_string 256 (ss_id ss) of None \<Rightarrow> [] | Some s \<Rightarrow> s))"

definition replica_status :: "nm_state \<Rightarrow> int \<Rightarrow> string" where
  "replica_status st index =
     (case nm_get_server st index of
        Some ss \<Rightarrow> if server_is_available (Some ss) then ''online'' else ''offline''
      | None \<Rightarrow> if 0 \<le> index then ''unknown'' else ''none'')"

definition replica_fields :: "nm_state \<Rightarrow> file_entry \<Rightarrow> string" where
  "replica_fields st file = commas [fmt_str ''primaryServer'' (replica_id st (fe_ss file)),
     fmt_str ''primaryStatus'' (replica_status st (fe_ss file)),
     fmt_str ''backupServer'' (replica_id st (fe_backup file)),
     fmt_str ''backupStatus'' (replica_status st (fe_backup file))]"

section \<open>Listings\<close>

text \<open>One file of a \<^verbatim>\<open>VIEW\<close>; \<open>None\<close> is the encoding error.\<close>

definition view_pieces :: "nm_state \<Rightarrow> bool \<Rightarrow> file_entry \<Rightarrow> string list option" where
  "view_pieces st long_format file =
     (case (json_escape_string 256 (fe_name file), json_escape_string 256 (fe_owner file),
            json_escape_string 256 (fe_last_user file)) of
        (Some name, Some owner, Some last_user) \<Rightarrow>
          Some (if long_format then
            [CHR ''{'' # commas [fmt_str ''name'' name, fmt_str ''owner'' owner, fmt_int ''words'' (int (fe_words file))] @ '','',
             commas [fmt_int ''chars'' (int (fe_chars file)), fmt_int ''lastAccess'' (fe_last_access file),
                     fmt_str ''lastAccessUser'' last_user] @ '','',
             replica_fields st file @ ''}'']
           else [braces [fmt_str ''name'' name]])
      | _ \<Rightarrow> None)"

fun view_loop :: "nm_state \<Rightarrow> string \<Rightarrow> bool \<Rightarrow> bool \<Rightarrow> bool \<Rightarrow> string option \<Rightarrow> file_entry list \<Rightarrow> reply + string option" where
  "view_loop st user show_all long_format first acc [] = Inr acc"
| "view_loop st user show_all long_format first acc (file # files) =
     (if \<not> (show_all \<or> file_has_access file user NM_PERM_READ) then
        view_loop st user show_all long_format first acc files
      else case view_pieces st long_format file of
        None \<Rightarrow> Inl (ReplyErr ERR_INTERNAL ''encoding error'')
      | Some pieces \<Rightarrow>
          view_loop st user show_all long_format False
            (append_all acc (if first then pieces else '','' # pieces)) files)"

definition finish_list :: "string option \<Rightarrow> reply" where
  "finish_list acc =
     (case json_append MAX_JSON acc '']'' of
        None \<Rightarrow> ReplyErr ERR_INTERNAL ''response too large''
      | Some extra \<Rightarrow> ReplyOk extra)"

text \<open>A \<^verbatim>\<open>flags\<close> value that does not fit its eight bytes leaves the flags empty.\<close>

definition handle_client_view :: "nm_state \<Rightarrow> string \<Rightarrow> string \<Rightarrow> reply" where
  "handle_client_view st user json =
     (let flags = (case json_get_string json ''flags'' 8 of None \<Rightarrow> [] | Some f \<Rightarrow> f) in
      case view_loop st user (strchr flags CHR ''a'') (strchr flags CHR ''l'') True
             (json_append MAX_JSON (Some []) (key_open ''files'' ''['')) (nm_files st) of
        Inl r \<Rightarrow> r
      | Inr acc \<Rightarrow> finish_list acc)"

fun users_loop :: "bool \<Rightarrow> string option \<Rightarrow> user_entry list \<Rightarrow> reply + string option" where
  "users_loop first acc [] = Inr acc"
| "users_loop first acc (u # us) =
     (case json_escape_string 256 (ue_name u) of
        None \<Rightarrow> Inl (ReplyErr ERR_INTERNAL ''encoding error'')
      | Some name \<Rightarrow> users_loop False (append_all acc (if first then [quoted name] else ['','', quoted name])) us)"

definition handle_client_list_users :: "nm_state \<Rightarrow> reply" where
  "handle_client_list_users st =
     (case users_loop True (json_append MAX_JSON (Some []) (key_open ''users'' ''['')) (nm_users st) of
        Inl r \<Rightarrow> r
      | Inr acc \<Rightarrow> finish_list acc)"

definition info_text :: "nm_state \<Rightarrow> file_entry \<Rightarrow> string \<Rightarrow> string \<Rightarrow> string \<Rightarrow> string option" where
  "info_text st file name owner last_user =
     (let acc1 = append_all (Some [])
            [key_open ''file'' ''{'' @ commas [fmt_str ''name'' name, fmt_str ''owner'' owner,
               fmt_int ''words'' (int (fe_words file))] @ '','',
             commas [fmt_int ''chars'' (int (fe_chars file)), fmt_int ''created'' (fe_created file),
               fmt_int ''modified'' (fe_modified file)] @ '','',
             commas [fmt_int ''lastAccess'' (fe_last_access file), fmt_str ''lastAccessUser'' last_user] @ '','',
             replica_fields st file @ '',''];
          acc2 = json_append MAX_JSON (append_access_array acc1 ''readAccess'' file NM_PERM_READ) '','' in
      json_append MAX_JSON (append_access_array acc2 ''writeAccess'' file NM_PERM_WRITE) ''}'')"

definition handle_client_info :: "nm_state \<Rightarrow> string \<Rightarrow> string \<Rightarrow> reply" where
  "handle_client_info st user json =
     (case json_get_string json ''file'' NM_MAX_NAME of
        None \<Rightarrow> ReplyErr ERR_BADREQ ''missing file''
      | Some file_name \<Rightarrow>
      case nm_find_file st file_name of
        None \<Rightarrow> ReplyErr ERR_NOTFOUND ''file not found''
      | Some file \<Rightarrow>
          if \<not> file_has_access file user NM_PERM_READ then ReplyErr ERR_NOAUTH ''no read access''
          else
            (case (json_escape_string 256 (fe_name file), json_escape_string 256 (fe_owner file),
                   json_escape_string 256 (fe_last_user file)) of
               (Some name, Some owner, Some last_user) \<Rightarrow>
                 (case info_text st file name owner last_user of
                    None \<Rightarrow> ReplyErr ERR_INTERNAL ''response too large''
                  | Some extra \<Rightarrow> ReplyOk extra)
             | _ \<Rightarrow> ReplyErr ERR_INTERNAL ''encoding error''))"

section \<open>Creating and deleting\<close>

text \<open>The loop over the other servers until one of them has created the backup.\<close>

fun create_backup_loop :: "'w nm_os \<Rightarrow> 'w nm_context \<Rightarrow> int \<Rightarrow> string \<Rightarrow> nat list \<Rightarrow> int \<times> 'w nm_context" where
  "create_backup_loop os ctx ss_index payload [] = (-1, ctx)"
| "create_backup_loop os ctx ss_index payload (i # is) =
     (if int i = ss_index \<or> \<not> server_is_available (nm_get_server (nc_state ctx) (int i))
      then create_backup_loop os ctx ss_index payload is
      else
        (case forward_command os ctx (nm_servers (nc_state ctx) ! i) payload of
           (None, ctx1) \<Rightarrow> create_backup_loop os ctx1 ss_index payload is
         | (Some response, ctx1) \<Rightarrow>
             if status_ok response then (int i, ctx1) else create_backup_loop os ctx1 ss_index payload is))"

text \<open>The bookkeeping after the storage servers have the file.\<close>

definition record_file :: "'w nm_os \<Rightarrow> 'w nm_context \<Rightarrow> string \<Rightarrow> string \<Rightarrow> int \<Rightarrow> int \<Rightarrow> 'w nm_context \<times> reply" where
  "record_file os ctx file_name user ss_index backup_index =
     (case nm_add_file (nc_state ctx) file_name user ss_index backup_index (no_now os) of
        Some (Ok _, st) \<Rightarrow>
          let st1 = snd (nm_grant_access st file_name user (NM_PERM_WRITE OR NM_PERM_READ));
              st2 = nm_cache_put (no_now os) st1 file_name ss_index in
          (nm_save os (set_state ctx st2), ReplyOk (fmt_str ''op'' ''CREATE''))
      | _ \<Rightarrow> (ctx, ReplyErr ERR_INTERNAL ''state update failed''))"

definition handle_client_create :: "'w nm_os \<Rightarrow> 'w nm_context \<Rightarrow> string \<Rightarrow> string \<Rightarrow> 'w nm_context \<times> reply" where
  "handle_client_create os ctx user json =
     (case json_get_string json ''file'' NM_MAX_NAME of
        None \<Rightarrow> (ctx, ReplyErr ERR_BADREQ ''missing file'')
      | Some file_name \<Rightarrow>
          if \<not> valid_filename file_name then (ctx, ReplyErr ERR_BADREQ ''invalid name'')
          else if user = [] then (ctx, ReplyErr ERR_NOAUTH ''anonymous user'')
          else if nm_find_file (nc_state ctx) file_name \<noteq> None then (ctx, ReplyErr ERR_EXISTS ''file exists'')
          else
            (case nm_pick_server (nc_state ctx) of
               (None, st) \<Rightarrow> (set_state ctx st, ReplyErr ERR_UNAVAILABLE ''no storage server'')
             | (Some ss_index, st) \<Rightarrow>
                 let ctx1 = set_state ctx st;
                     ss = nm_servers st ! ss_index;
                     payload = braces [fmt_str ''type'' ''NM_CREATE'', fmt_str ''file'' file_name, fmt_str ''owner'' user] in
                 if ss_ctrl_fd ss < 0 then (ctx1, ReplyErr ERR_UNAVAILABLE ''server offline'')
                 else if 512 \<le> length payload then (ctx1, ReplyErr ERR_INTERNAL ''payload too large'')
                 else
                   (case forward_command os ctx1 ss payload of
                      (None, ctx2) \<Rightarrow> (mark_down ctx2 (int ss_index), ReplyErr ERR_UNAVAILABLE ''server unreachable'')
                    | (Some response, ctx2) \<Rightarrow>
                        if \<not> status_ok response then (ctx2, ReplyErr ERR_INTERNAL ''create failed'')
                        else
                          (case create_backup_loop os ctx2 (int ss_index) payload [0..<length (nm_servers (nc_state ctx2))] of
                             (backup_index, ctx3) \<Rightarrow>
                               record_file os ctx3 file_name user (int ss_index) backup_index))))"

text \<open>
  After a successful delete on the primary the entry is removed, the backup (of the entry as
  it was) is told, and the state is saved. The first server selection may already have moved
  the file to its backup; the second then finds that server again.
\<close>

definition finish_delete :: "'w nm_os \<Rightarrow> 'w nm_context \<Rightarrow> string \<Rightarrow> string \<Rightarrow> 'w nm_context" where
  "finish_delete os ctx file_name payload =
     (let backup_index = (case nm_find_file (nc_state ctx) file_name of None \<Rightarrow> -1 | Some f \<Rightarrow> fe_backup f);
          ctx1 = (case nm_remove_file (nc_state ctx) file_name of Some (_, st) \<Rightarrow> set_state ctx st | None \<Rightarrow> ctx);
          ctx2 = (if 0 \<le> backup_index then
                    (case nm_get_server (nc_state ctx1) backup_index of
                       Some backup \<Rightarrow> if 0 \<le> ss_ctrl_fd backup then snd (forward_command os ctx1 backup payload) else ctx1
                     | None \<Rightarrow> ctx1)
                  else ctx1) in
      nm_save os ctx2)"

definition handle_client_delete :: "'w nm_os \<Rightarrow> 'w nm_context \<Rightarrow> string \<Rightarrow> string \<Rightarrow> 'w nm_context \<times> reply" where
  "handle_client_delete os ctx user json =
     (case json_get_string json ''file'' NM_MAX_NAME of
        None \<Rightarrow> (ctx, ReplyErr ERR_BADREQ ''missing file'')
      | Some file_name \<Rightarrow>
      case nm_find_file (nc_state ctx) file_name of
        None \<Rightarrow> (ctx, ReplyErr ERR_NOTFOUND ''file not found'')
      | Some file \<Rightarrow>
          if \<not> file_has_access file user NM_PERM_WRITE then (ctx, ReplyErr ERR_NOAUTH ''no write access'')
          else
            (case select_storage_server os ctx file of
               (None, ctx1) \<Rightarrow> (ctx1, ReplyErr ERR_UNAVAILABLE ''server offline'')
             | (Some ss_index, ctx1) \<Rightarrow>
                 let payload = braces [fmt_str ''type'' ''NM_DELETE'', fmt_str ''file'' file_name];
                     ss = nm_servers (nc_state ctx1) ! nat ss_index in
                 if 256 \<le> length payload then (ctx1, ReplyErr ERR_INTERNAL ''payload too large'')
                 else
                   (case forward_command os ctx1 ss payload of
                      (None, ctx2) \<Rightarrow> (mark_down ctx2 ss_index, ReplyErr ERR_UNAVAILABLE ''server unreachable'')
                    | (Some response, ctx2) \<Rightarrow>
                        if \<not> status_ok response then (ctx2, ReplyErr ERR_INTERNAL ''delete failed'')
                        else (finish_delete os ctx2 file_name payload, ReplyOk (fmt_str ''op'' ''DELETE'')))))"

section \<open>Looking up the server of a file\<close>

definition respond_with_endpoint :: "string \<Rightarrow> storage_server \<Rightarrow> string \<Rightarrow> string \<Rightarrow> int \<Rightarrow> reply" where
  "respond_with_endpoint file_name ss op token sentence_index =
     (case (json_escape_string 256 (ss_host ss), json_escape_string 64 (ss_data_port ss),
            json_escape_string 256 (ss_id ss), json_escape_string 256 file_name, json_escape_string 256 token) of
        (Some host, Some port, Some server_id, Some file, Some ticket) \<Rightarrow>
          (case append_all (Some [])
              ([commas [fmt_str ''op'' op, fmt_str ''file'' file, fmt_str ''host'' host, fmt_str ''port'' port] @ '','',
                commas [fmt_str ''server'' server_id, fmt_str ''ticket'' ticket]] @
               (if 0 \<le> sentence_index then [CHR '','' # fmt_int ''sentence'' sentence_index] else [])) of
             None \<Rightarrow> ReplyErr ERR_INTERNAL ''response too large''
           | Some extra \<Rightarrow> ReplyOk extra)
      | _ \<Rightarrow> ReplyErr ERR_INTERNAL ''encoding error'')"

definition ticket_error :: "error_code_t \<Rightarrow> string \<Rightarrow> reply" where
  "ticket_error rc denied =
     (if rc = ERR_NOAUTH then ReplyErr ERR_NOAUTH denied
      else if rc = ERR_NOTFOUND then ReplyErr ERR_NOTFOUND ''file not found''
      else ReplyErr ERR_UNAVAILABLE ''server offline'')"

definition handle_lookup_common :: "'w nm_os \<Rightarrow> 'w nm_context \<Rightarrow> string \<Rightarrow> string \<Rightarrow> string \<Rightarrow> 32 word \<Rightarrow> bool
    \<Rightarrow> 'w nm_context \<times> reply" where
  "handle_lookup_common os ctx user json op perm include_sentence =
     (case json_get_string json ''file'' NM_MAX_NAME of
        None \<Rightarrow> (ctx, ReplyErr ERR_BADREQ ''missing file'')
      | Some file_name \<Rightarrow>
          (case obtain_ticket_for_file os ctx file_name user perm op of
             (Inl rc, ctx1) \<Rightarrow> (ctx1, ticket_error rc ''access denied'')
           | (Inr (token, ss), ctx1) \<Rightarrow>
               let sentence = (if include_sentence
                  then (case json_get_int json ''sentence'' of None \<Rightarrow> 0 | Some v \<Rightarrow> v) else -1) in
               (ctx1, respond_with_endpoint file_name ss op token sentence)))"

definition handle_client_read :: "'w nm_os \<Rightarrow> 'w nm_context \<Rightarrow> string \<Rightarrow> string \<Rightarrow> 'w nm_context \<times> reply" where
  "handle_client_read os ctx user json = handle_lookup_common os ctx user json ''READ'' NM_PERM_READ False"

definition handle_client_stream :: "'w nm_os \<Rightarrow> 'w nm_context \<Rightarrow> string \<Rightarrow> string \<Rightarrow> 'w nm_context \<times> reply" where
  "handle_client_stream os ctx user json = handle_lookup_common os ctx user json ''STREAM'' NM_PERM_READ False"

definition handle_client_write :: "'w nm_os \<Rightarrow> 'w nm_context \<Rightarrow> string \<Rightarrow> string \<Rightarrow> 'w nm_context \<times> reply" where
  "handle_client_write os ctx user json = handle_lookup_common os ctx user json ''WRITE'' NM_PERM_WRITE True"

section \<open>Access control\<close>

definition wants :: "string \<Rightarrow> char \<Rightarrow> char \<Rightarrow> bool" where
  "wants mode upper lower \<longleftrightarrow> strchr mode upper \<or> strchr mode lower"

definition handle_client_addaccess :: "'w nm_os \<Rightarrow> 'w nm_context \<Rightarrow> string \<Rightarrow> string \<Rightarrow> 'w nm_context \<times> reply" where
  "handle_client_addaccess os ctx user json =
     (case (json_get_string json ''file'' NM_MAX_NAME, json_get_string json ''user'' NM_MAX_USER,
            json_get_string json ''mode'' 8) of
        (Some file_name, Some target, Some mode) \<Rightarrow>
          (case nm_find_file (nc_state ctx) file_name of
             None \<Rightarrow> (ctx, ReplyErr ERR_NOTFOUND ''file not found'')
           | Some file \<Rightarrow>
               if fe_owner file \<noteq> user then (ctx, ReplyErr ERR_NOAUTH ''only owner'')
               else
                 let perm = (if wants mode CHR ''W'' CHR ''w'' then NM_PERM_READ OR NM_PERM_WRITE else NM_PERM_READ) in
                 (case nm_grant_access (nc_state ctx) file_name target perm of
                    (Fail _, st) \<Rightarrow> (set_state ctx st, ReplyErr ERR_INTERNAL ''grant failed'')
                  | (Ok _, st) \<Rightarrow> (nm_save os (set_state ctx st), ReplyOk (fmt_str ''op'' ''ADDACCESS''))))
      | _ \<Rightarrow> (ctx, ReplyErr ERR_BADREQ ''missing fields''))"

definition handle_client_removeaccess :: "'w nm_os \<Rightarrow> 'w nm_context \<Rightarrow> string \<Rightarrow> string \<Rightarrow> 'w nm_context \<times> reply" where
  "handle_client_removeaccess os ctx user json =
     (case (json_get_string json ''file'' NM_MAX_NAME, json_get_string json ''user'' NM_MAX_USER) of
        (Some file_name, Some target) \<Rightarrow>
          (case nm_find_file (nc_state ctx) file_name of
             None \<Rightarrow> (ctx, ReplyErr ERR_NOTFOUND ''file not found'')
           | Some file \<Rightarrow>
               if fe_owner file \<noteq> user then (ctx, ReplyErr ERR_NOAUTH ''only owner'')
               else (nm_save os (set_state ctx (snd (nm_remove_access (nc_state ctx) file_name target))),
                     ReplyOk (fmt_str ''op'' ''REMACCESS'')))
      | _ \<Rightarrow> (ctx, ReplyErr ERR_BADREQ ''missing fields''))"

definition find_access_request :: "nm_state \<Rightarrow> string \<Rightarrow> string \<Rightarrow> nat option" where
  "find_access_request st file requester =
     find_index (\<lambda>r. rq_file r = file \<and> rq_requester r = requester) (nm_requests st)"

definition put_request :: "nm_state \<Rightarrow> string \<Rightarrow> string \<Rightarrow> string \<Rightarrow> 32 word \<Rightarrow> nm_state option" where
  "put_request st file_name requester owner perm =
     (case find_access_request st file_name requester of
        Some i \<Rightarrow>
          Some (st\<lparr>nm_requests := (nm_requests st)[i := (nm_requests st ! i)
            \<lparr>rq_owner := buf NM_MAX_USER owner, rq_perm := perm, rq_status := NM_REQUEST_PENDING\<rparr>]\<rparr>)
      | None \<Rightarrow>
          if NM_MAX_REQUESTS \<le> length (nm_requests st) then None
          else Some (st\<lparr>nm_requests := nm_requests st @ [\<lparr>rq_file = buf NM_MAX_NAME file_name,
            rq_owner = buf NM_MAX_USER owner, rq_requester = buf NM_MAX_USER requester, rq_perm = perm,
            rq_status = NM_REQUEST_PENDING\<rparr>]\<rparr>))"

definition handle_client_reqaccess :: "'w nm_os \<Rightarrow> 'w nm_context \<Rightarrow> string \<Rightarrow> string \<Rightarrow> 'w nm_context \<times> reply" where
  "handle_client_reqaccess os ctx user json =
     (case (json_get_string json ''file'' NM_MAX_NAME, json_get_string json ''mode'' 8) of
        (Some file_name, Some mode) \<Rightarrow>
          let write = wants mode CHR ''W'' CHR ''w'';
              perm = (if write then NM_PERM_READ OR NM_PERM_WRITE else NM_PERM_READ) in
          if \<not> write \<and> \<not> wants mode CHR ''R'' CHR ''r'' then (ctx, ReplyErr ERR_BADREQ ''invalid mode'')
          else
            (case nm_find_file (nc_state ctx) file_name of
               None \<Rightarrow> (ctx, ReplyErr ERR_NOTFOUND ''file not found'')
             | Some file \<Rightarrow>
                 if fe_owner file = user then (ctx, ReplyErr ERR_CONFLICT ''owner already has access'')
                 else if nm_check_access (nc_state ctx) file_name user perm = Ok ()
                 then (ctx, ReplyErr ERR_CONFLICT ''access already granted'')
                 else
                   (case put_request (nc_state ctx) file_name user (fe_owner file) perm of
                      None \<Rightarrow> (ctx, ReplyErr ERR_INTERNAL ''request limit reached'')
                    | Some st \<Rightarrow> (nm_save os (set_state ctx st), ReplyOk (fmt_str ''op'' ''REQACCESS''))))
      | _ \<Rightarrow> (ctx, ReplyErr ERR_BADREQ ''missing fields''))"

text \<open>\<^verbatim>\<open>strcasecmp\<close> in the C locale.\<close>

definition to_lower :: "char \<Rightarrow> char" where
  "to_lower c = (if CHR ''A'' \<le> c \<and> c \<le> CHR ''Z'' then char_of ((of_char c :: nat) + 32) else c)"

definition same_ignoring_case :: "string \<Rightarrow> string \<Rightarrow> bool" where
  "same_ignoring_case a b \<longleftrightarrow> map to_lower a = map to_lower b"

definition access_request_status_label :: "int \<Rightarrow> string" where
  "access_request_status_label status =
     (if status = NM_REQUEST_PENDING then ''PENDING''
      else if status = NM_REQUEST_APPROVED then ''APPROVED''
      else if status = NM_REQUEST_DENIED then ''DENIED'' else ''UNKNOWN'')"

definition access_request_type_label :: "32 word \<Rightarrow> string" where
  "access_request_type_label perm = (if perm AND NM_PERM_WRITE \<noteq> 0 then ''WRITE'' else ''READ'')"

definition request_shown :: "bool \<Rightarrow> string \<Rightarrow> access_request \<Rightarrow> bool" where
  "request_shown want_sent user req \<longleftrightarrow>
     (if want_sent then rq_requester req = user
      else rq_owner req = user \<and> rq_status req = NM_REQUEST_PENDING)"

definition request_piece :: "bool \<Rightarrow> access_request \<Rightarrow> string option" where
  "request_piece want_sent req =
     (case json_escape_string 256 (rq_file req) of
        None \<Rightarrow> None
      | Some file \<Rightarrow>
          let access = fmt_str ''access'' (access_request_type_label (rq_perm req)) in
          if want_sent then
            Some (braces [fmt_str ''file'' file, access, fmt_str ''status'' (access_request_status_label (rq_status req))])
          else map_option (\<lambda>u. braces [fmt_str ''file'' file, access, fmt_str ''user'' u])
            (json_escape_string 256 (rq_requester req)))"

fun viewreqs_loop :: "bool \<Rightarrow> string \<Rightarrow> bool \<Rightarrow> string option \<Rightarrow> access_request list \<Rightarrow> reply + string option" where
  "viewreqs_loop want_sent user first acc [] = Inr acc"
| "viewreqs_loop want_sent user first acc (req # reqs) =
     (if \<not> request_shown want_sent user req then viewreqs_loop want_sent user first acc reqs
      else case request_piece want_sent req of
        None \<Rightarrow> Inl (ReplyErr ERR_INTERNAL ''encoding error'')
      | Some piece \<Rightarrow>
          (case append_all acc (if first then [piece] else ['','', piece]) of
             None \<Rightarrow> Inr None
           | Some t \<Rightarrow> viewreqs_loop want_sent user False (Some t) reqs))"

definition handle_client_viewreqs :: "nm_state \<Rightarrow> string \<Rightarrow> string \<Rightarrow> reply" where
  "handle_client_viewreqs st user json =
     (case json_get_string json ''direction'' 16 of
        None \<Rightarrow> ReplyErr ERR_BADREQ ''missing direction''
      | Some direction \<Rightarrow>
          let want_sent = same_ignoring_case direction ''SENT'' in
          if \<not> want_sent \<and> \<not> same_ignoring_case direction ''RECEIVED''
          then ReplyErr ERR_BADREQ ''invalid direction''
          else
            (case viewreqs_loop want_sent user True (json_append MAX_JSON (Some []) (key_open ''requests'' ''['')) (nm_requests st) of
               Inl r \<Rightarrow> r
             | Inr acc \<Rightarrow> finish_list acc))"

definition set_request_status :: "nm_state \<Rightarrow> nat \<Rightarrow> int \<Rightarrow> nm_state" where
  "set_request_status st i status =
     st\<lparr>nm_requests := (nm_requests st)[i := (nm_requests st ! i)\<lparr>rq_status := status\<rparr>]\<rparr>"

definition handle_client_handlereq :: "'w nm_os \<Rightarrow> 'w nm_context \<Rightarrow> string \<Rightarrow> string \<Rightarrow> 'w nm_context \<times> reply" where
  "handle_client_handlereq os ctx user json =
     (case (json_get_string json ''file'' NM_MAX_NAME, json_get_string json ''user'' NM_MAX_USER,
            json_get_string json ''action'' 16) of
        (Some file_name, Some requester, Some action) \<Rightarrow>
          let approve = same_ignoring_case action ''APPROVE''; st = nc_state ctx in
          if \<not> approve \<and> \<not> same_ignoring_case action ''DENY'' then (ctx, ReplyErr ERR_BADREQ ''invalid action'')
          else
            (case nm_find_file st file_name of
               None \<Rightarrow> (ctx, ReplyErr ERR_NOTFOUND ''file not found'')
             | Some file \<Rightarrow>
                 if fe_owner file \<noteq> user then (ctx, ReplyErr ERR_NOAUTH ''only owner'')
                 else
                   (case find_access_request st file_name requester of
                      None \<Rightarrow> (ctx, ReplyErr ERR_NOTFOUND ''request not found'')
                    | Some i \<Rightarrow>
                        if rq_status (nm_requests st ! i) \<noteq> NM_REQUEST_PENDING
                        then (ctx, ReplyErr ERR_CONFLICT ''request already handled'')
                        else if approve then
                          (case nm_grant_access st file_name requester (rq_perm (nm_requests st ! i)) of
                             (Fail _, st1) \<Rightarrow> (set_state ctx st1, ReplyErr ERR_INTERNAL ''grant failed'')
                           | (Ok _, st1) \<Rightarrow>
                               (nm_save os (set_state ctx (set_request_status st1 i NM_REQUEST_APPROVED)),
                                ReplyOk (fmt_str ''op'' ''HANDLEREQ'')))
                        else (nm_save os (set_state ctx (set_request_status st i NM_REQUEST_DENIED)),
                              ReplyOk (fmt_str ''op'' ''HANDLEREQ''))))
      | _ \<Rightarrow> (ctx, ReplyErr ERR_BADREQ ''missing fields''))"

end
