(* ===== verification/NM_Dispatch.thy ===== *)
theory NM_Dispatch
  imports NM_Clients
begin

text \<open>
  The remaining requests of clients (undo, execution, checkpoints), the dispatch on the type
  of a message, the messages of storage servers with the replication worker, and the life
  of a connection, from \<^verbatim>\<open>nm/nm_main.c\<close>.
\<close>

section \<open>Undo and execution\<close>

definition finish :: "conn \<Rightarrow> 'w nm_context \<times> reply \<Rightarrow> bool \<times> 'w nm_context \<times> conn" where
  "finish c r = (case send_reply c (snd r) of (b, c') \<Rightarrow> (b, fst r, c'))"

text \<open>Once the storage server has answered, the handler returns 0 whether or not the reply was sent.\<close>

definition handle_client_undo :: "'w nm_os \<Rightarrow> 'w nm_context \<Rightarrow> conn \<Rightarrow> string \<Rightarrow> string
    \<Rightarrow> bool \<times> 'w nm_context \<times> conn" where
  "handle_client_undo os ctx c user json =
     (case json_get_string json ''file'' NM_MAX_NAME of
        None \<Rightarrow> finish c (ctx, ReplyErr ERR_BADREQ ''missing file'')
      | Some file_name \<Rightarrow>
      case nm_find_file (nc_state ctx) file_name of
        None \<Rightarrow> finish c (ctx, ReplyErr ERR_NOTFOUND ''file not found'')
      | Some file \<Rightarrow>
          if \<not> file_has_access file user NM_PERM_WRITE then finish c (ctx, ReplyErr ERR_NOAUTH ''no write access'')
          else
            (case select_storage_server os ctx file of
               (None, ctx1) \<Rightarrow> finish c (ctx1, ReplyErr ERR_UNAVAILABLE ''server offline'')
             | (Some ss_index, ctx1) \<Rightarrow>
                 let payload = braces [fmt_str ''type'' ''NM_UNDO'', fmt_str ''file'' file_name, fmt_str ''user'' user];
                     ss = nm_servers (nc_state ctx1) ! nat ss_index in
                 if 512 \<le> length payload then finish c (ctx1, ReplyErr ERR_INTERNAL ''payload too large'')
                 else
                   (case forward_command os ctx1 ss payload of
                      (None, ctx2) \<Rightarrow>
                        finish c (mark_down ctx2 ss_index, ReplyErr ERR_UNAVAILABLE ''server unreachable'')
                    | (Some response, ctx2) \<Rightarrow>
                        (True, ctx2, snd (send_reply c
                          (if status_ok response then ReplyOk (fmt_str ''op'' ''UNDO'')
                           else ReplyErr ERR_CONFLICT ''undo not possible''))))))"

definition ss_fetch_content :: "'w nm_os \<Rightarrow> 'w nm_context \<Rightarrow> storage_server \<Rightarrow> string \<Rightarrow> string \<Rightarrow> string
    \<Rightarrow> string option \<times> 'w nm_context" where
  "ss_fetch_content os ctx ss file user ticket =
     (case (json_escape_dup file, json_escape_dup user, json_escape_dup ticket) of
        (Some f, Some u, Some t) \<Rightarrow>
          let payload = braces [fmt_str ''type'' ''READ'', fmt_str ''file'' f, fmt_str ''user'' u, fmt_str ''ticket'' t] in
          if MAX_JSON \<le> length payload then (None, ctx)
          else
            (case no_fetch os (ss_host ss) (ss_data_port ss) payload (nc_world ctx) of
               (response, w) \<Rightarrow>
                 (case response of
                    None \<Rightarrow> None
                  | Some r \<Rightarrow> if status_ok r then json_get_string_alloc r ''content'' else None,
                  ctx\<lparr>nc_world := w\<rparr>))
      | _ \<Rightarrow> (None, ctx))"

definition is_exec_delim_char :: "char \<Rightarrow> bool" where
  "is_exec_delim_char c \<longleftrightarrow> c = CHR ''.'' \<or> c = CHR ''!'' \<or> c = CHR ''?''"

fun flatten_loop :: "char option \<Rightarrow> string \<Rightarrow> string" where
  "flatten_loop last_non_newline [] = []"
| "flatten_loop last_non_newline (c # cs) =
     (if c = RETURN then flatten_loop last_non_newline cs
      else if c = NEWLINE then
        (case last_non_newline of
           Some l \<Rightarrow> if is_exec_delim_char l then flatten_loop last_non_newline cs
                     else c # flatten_loop last_non_newline cs
         | None \<Rightarrow> c # flatten_loop last_non_newline cs)
      else c # flatten_loop (Some c) cs)"

definition flatten_exec_script :: "string \<Rightarrow> string" where
  "flatten_exec_script script = flatten_loop None script"

text \<open>The output is collected with \<^verbatim>\<open>fgets\<close> and \<^verbatim>\<open>strlen\<close>: what follows a NUL in a chunk is lost.\<close>

function exec_output :: "string \<Rightarrow> string" where
  "exec_output bytes =
     (if bytes = [] then [] else cstring (fst (fgets 256 bytes)) @ exec_output (snd (fgets 256 bytes)))"
  by pat_completeness auto
termination
  by (relation "measure length") (auto intro: fgets_shorter)

declare exec_output.simps [simp del]

definition run_exec_commands :: "'w nm_os \<Rightarrow> 'w nm_context \<Rightarrow> string \<Rightarrow> string option \<times> 'w nm_context" where
  "run_exec_commands os ctx script =
     (case no_shell os (flatten_exec_script script @ [NEWLINE]) (nc_world ctx) of
        (out, w) \<Rightarrow> (map_option exec_output out, ctx\<lparr>nc_world := w\<rparr>))"

definition handle_client_exec :: "'w nm_os \<Rightarrow> 'w nm_context \<Rightarrow> string \<Rightarrow> string \<Rightarrow> 'w nm_context \<times> reply" where
  "handle_client_exec os ctx user json =
     (case json_get_string json ''file'' NM_MAX_NAME of
        None \<Rightarrow> (ctx, ReplyErr ERR_BADREQ ''missing file'')
      | Some file_name \<Rightarrow>
          (case obtain_ticket_for_file os ctx file_name user NM_PERM_READ ''READ'' of
             (Inl rc, ctx1) \<Rightarrow> (ctx1, ticket_error rc ''no read access'')
           | (Inr (token, ss), ctx1) \<Rightarrow>
               (case ss_fetch_content os ctx1 ss file_name user token of
                  (None, ctx2) \<Rightarrow> (ctx2, ReplyErr ERR_UNAVAILABLE ''fetch failed'')
                | (Some content, ctx2) \<Rightarrow>
                    (case run_exec_commands os ctx2 content of
                       (None, ctx3) \<Rightarrow> (ctx3, ReplyErr ERR_INTERNAL ''exec failed'')
                     | (Some out, ctx3) \<Rightarrow>
                         (ctx3,
                          case json_escape_dup out of
                            None \<Rightarrow> ReplyErr ERR_INTERNAL ''encode failed''
                          | Some escaped \<Rightarrow>
                              let extra = commas [fmt_str ''op'' ''EXEC'', fmt_str ''output'' escaped] in
                              if MAX_JSON \<le> length extra then ReplyErr ERR_INTERNAL ''response too large''
                              else ReplyOk extra)))))"

section \<open>Checkpoints\<close>

definition valid_checkpoint_tag :: "string \<Rightarrow> bool" where
  "valid_checkpoint_tag tag = valid_filename tag"

text \<open>The common head of the three handlers: fields, tag, file and permission.\<close>

definition checkpoint_target :: "nm_state \<Rightarrow> string \<Rightarrow> string \<Rightarrow> 32 word \<Rightarrow> string \<Rightarrow> reply + string \<times> string \<times> file_entry" where
  "checkpoint_target st user json perm denied =
     (case (json_get_string json ''file'' NM_MAX_NAME, json_get_string json ''tag'' NM_MAX_NAME) of
        (Some file_name, Some tag) \<Rightarrow>
          if \<not> valid_checkpoint_tag tag then Inl (ReplyErr ERR_BADREQ ''invalid tag'')
          else
            (case nm_find_file st file_name of
               None \<Rightarrow> Inl (ReplyErr ERR_NOTFOUND ''file not found'')
             | Some file \<Rightarrow>
                 if \<not> file_has_access file user perm then Inl (ReplyErr ERR_NOAUTH denied)
                 else Inr (file_name, tag, file))
      | _ \<Rightarrow> Inl (ReplyErr ERR_BADREQ ''missing fields''))"

definition checkpoint_payload :: "string \<Rightarrow> string \<Rightarrow> string \<Rightarrow> string \<Rightarrow> reply + string" where
  "checkpoint_payload type file_name tag user =
     (case (json_escape_string (NM_MAX_NAME * 2) file_name, json_escape_string (NM_MAX_NAME * 2) tag,
            json_escape_string (NM_MAX_USER * 2) user) of
        (Some f, Some t, Some u) \<Rightarrow>
          let payload = braces [fmt_str ''type'' type, fmt_str ''file'' f, fmt_str ''tag'' t, fmt_str ''user'' u] in
          if MAX_JSON \<le> length payload then Inl (ReplyErr ERR_INTERNAL ''payload too large'') else Inr payload
      | _ \<Rightarrow> Inl (ReplyErr ERR_INTERNAL ''encoding error''))"

text \<open>The command is repeated on the backup; its answer is only logged.\<close>

definition mirror :: "'w nm_os \<Rightarrow> 'w nm_context \<Rightarrow> int \<Rightarrow> int \<Rightarrow> string \<Rightarrow> 'w nm_context" where
  "mirror os ctx primary_index backup_index payload =
     (case nm_get_server (nc_state ctx) backup_index of
        Some backup \<Rightarrow>
          if backup_index \<noteq> primary_index \<and> 0 \<le> ss_ctrl_fd backup
          then snd (forward_command os ctx backup payload) else ctx
      | None \<Rightarrow> ctx)"

text \<open>
  Sends the command to the primary; \<open>k\<close> is what follows a success.
\<close>

definition on_primary :: "'w nm_os \<Rightarrow> 'w nm_context \<Rightarrow> file_entry \<Rightarrow> reply + string \<Rightarrow> string
    \<Rightarrow> ('w nm_context \<Rightarrow> string \<Rightarrow> 'w nm_context \<times> reply) \<Rightarrow> 'w nm_context \<times> reply" where
  "on_primary os ctx file payload failed k =
     (case nm_get_server (nc_state ctx) (fe_ss file) of
        None \<Rightarrow> (ctx, ReplyErr ERR_UNAVAILABLE ''primary offline'')
      | Some primary \<Rightarrow>
          if ss_ctrl_fd primary < 0 then (ctx, ReplyErr ERR_UNAVAILABLE ''primary offline'')
          else
            (case payload of
               Inl r \<Rightarrow> (ctx, r)
             | Inr text \<Rightarrow>
                 (case forward_command os ctx primary text of
                    (None, ctx1) \<Rightarrow> (ctx1, ReplyErr ERR_UNAVAILABLE ''primary unreachable'')
                  | (Some response, ctx1) \<Rightarrow>
                      if \<not> status_ok response then (ctx1, ReplyErr ERR_INTERNAL failed) else k ctx1 text)))"

definition handle_client_checkpoint :: "'w nm_os \<Rightarrow> 'w nm_context \<Rightarrow> string \<Rightarrow> string \<Rightarrow> 'w nm_context \<times> reply" where
  "handle_client_checkpoint os ctx user json =
     (case checkpoint_target (nc_state ctx) user json NM_PERM_WRITE ''no write access'' of
        Inl r \<Rightarrow> (ctx, r)
      | Inr (file_name, tag, file) \<Rightarrow>
          if file_find_checkpoint file tag \<noteq> None then (ctx, ReplyErr ERR_EXISTS ''checkpoint exists'')
          else on_primary os ctx file (checkpoint_payload ''NM_CHECKPOINT_CREATE'' file_name tag user) ''checkpoint failed''
            (\<lambda>ctx1 payload.
               case nm_find_file (nc_state ctx1) file_name of
                 None \<Rightarrow> (ctx1, ReplyErr ERR_NOTFOUND ''file missing'')
               | Some now_file \<Rightarrow>
                   if file_find_checkpoint now_file tag \<noteq> None then (ctx1, ReplyErr ERR_EXISTS ''checkpoint exists'')
                   else
                     (case nm_file_add_checkpoint (nc_state ctx1) file_name tag user (no_now os) of
                        (Fail e, st) \<Rightarrow>
                          (set_state ctx1 st, ReplyErr ERR_INTERNAL
                             (if e = Some ENOSPC then ''checkpoint limit reached'' else ''checkpoint metadata failed''))
                      | (Ok _, st) \<Rightarrow>
                          (mirror os (nm_save os (set_state ctx1 st)) (fe_ss file) (fe_backup file) payload,
                           ReplyOk (fmt_str ''op'' ''CHECKPOINT'')))))"

definition handle_client_viewcheckpoint :: "'w nm_os \<Rightarrow> 'w nm_context \<Rightarrow> string \<Rightarrow> string \<Rightarrow> 'w nm_context \<times> reply" where
  "handle_client_viewcheckpoint os ctx user json =
     (case checkpoint_target (nc_state ctx) user json NM_PERM_READ ''no read access'' of
        Inl r \<Rightarrow> (ctx, r)
      | Inr (file_name, tag, file) \<Rightarrow>
          if file_find_checkpoint file tag = None then (ctx, ReplyErr ERR_NOTFOUND ''checkpoint not found'')
          else if nm_get_server (nc_state ctx) (fe_ss file) = None \<and> nm_get_server (nc_state ctx) (fe_backup file) = None
          then (ctx, ReplyErr ERR_UNAVAILABLE ''no storage available'')
          else
            (case checkpoint_payload ''NM_CHECKPOINT_VIEW'' file_name tag user of
               Inl r \<Rightarrow> (ctx, r)
             | Inr payload \<Rightarrow>
                 (case forward_to_available_server os ctx (fe_ss file) (fe_backup file) payload of
                    (None, ctx1) \<Rightarrow> (ctx1, ReplyErr ERR_UNAVAILABLE ''checkpoint unavailable'')
                  | (Some response, ctx1) \<Rightarrow>
                      (ctx1,
                       if \<not> status_ok response then ReplyErr ERR_INTERNAL ''checkpoint view failed''
                       else case json_get_string_alloc response ''content'' of
                         None \<Rightarrow> ReplyErr ERR_INTERNAL ''missing content''
                       | Some content \<Rightarrow>
                           (case json_escape_dup content of
                              None \<Rightarrow> ReplyErr ERR_INTERNAL ''encoding error''
                            | Some escaped \<Rightarrow>
                                if MAX_JSON \<le> length (fmt_str ''content'' escaped)
                                then ReplyErr ERR_INTERNAL ''response too large''
                                else ReplyOk (fmt_str ''content'' escaped))))))"

definition handle_client_revert :: "'w nm_os \<Rightarrow> 'w nm_context \<Rightarrow> string \<Rightarrow> string \<Rightarrow> 'w nm_context \<times> reply" where
  "handle_client_revert os ctx user json =
     (case checkpoint_target (nc_state ctx) user json NM_PERM_WRITE ''no write access'' of
        Inl r \<Rightarrow> (ctx, r)
      | Inr (file_name, tag, file) \<Rightarrow>
          if file_find_checkpoint file tag = None then (ctx, ReplyErr ERR_NOTFOUND ''checkpoint not found'')
          else on_primary os ctx file (checkpoint_payload ''NM_CHECKPOINT_REVERT'' file_name tag user) ''revert failed''
            (\<lambda>ctx1 payload. (mirror os ctx1 (fe_ss file) (fe_backup file) payload, ReplyOk (fmt_str ''op'' ''REVERT''))))"

fun listcheckpoints_loop :: "bool \<Rightarrow> string \<Rightarrow> checkpoint_entry list \<Rightarrow> reply + string" where
  "listcheckpoints_loop first acc [] = Inr acc"
| "listcheckpoints_loop first acc (e # es) =
     (case (json_escape_string (NM_MAX_NAME * 2) (ck_tag e), json_escape_string (NM_MAX_USER * 2) (ck_user e)) of
        (Some tag, Some u) \<Rightarrow>
          let piece = braces [fmt_str ''tag'' tag, fmt_str ''user'' u, fmt_str ''timestamp'' (show_int (ck_time e))] in
          (case append_all (Some acc) (if first then [piece] else ['','', piece]) of
             None \<Rightarrow> Inl (ReplyErr ERR_INTERNAL ''response too large'')
           | Some t \<Rightarrow> listcheckpoints_loop False t es)
      | _ \<Rightarrow> Inl (ReplyErr ERR_INTERNAL ''encoding error''))"

definition handle_client_listcheckpoints :: "nm_state \<Rightarrow> string \<Rightarrow> string \<Rightarrow> reply" where
  "handle_client_listcheckpoints st user json =
     (case json_get_string json ''file'' NM_MAX_NAME of
        None \<Rightarrow> ReplyErr ERR_BADREQ ''missing file''
      | Some file_name \<Rightarrow>
      case nm_find_file st file_name of
        None \<Rightarrow> ReplyErr ERR_NOTFOUND ''file not found''
      | Some file \<Rightarrow>
          if \<not> file_has_access file user NM_PERM_READ then ReplyErr ERR_NOAUTH ''no read access''
          else
            (case json_escape_string (NM_MAX_NAME * 2) file_name of
               None \<Rightarrow> ReplyErr ERR_INTERNAL ''encoding error''
             | Some f \<Rightarrow>
                 (case json_append MAX_JSON (Some []) (commas [fmt_str ''file'' f, key_open ''checkpoints'' ''['']) of
                    None \<Rightarrow> ReplyErr ERR_INTERNAL ''response too large''
                  | Some acc \<Rightarrow>
                      (case listcheckpoints_loop True acc (fe_checkpoints file) of
                         Inl r \<Rightarrow> r
                       | Inr t \<Rightarrow> finish_list (Some t)))))"

section \<open>Dispatch of client requests\<close>

definition handle_client_message :: "'w nm_os \<Rightarrow> 'w nm_context \<Rightarrow> conn \<Rightarrow> string \<Rightarrow> string
    \<Rightarrow> bool \<times> 'w nm_context \<times> conn" where
  "handle_client_message os ctx c user json =
     (case json_get_string json ''type'' 64 of
        None \<Rightarrow> finish c (ctx, ReplyErr ERR_BADREQ ''missing type'')
      | Some type \<Rightarrow>
          if type = ''VIEW'' then finish c (ctx, handle_client_view (nc_state ctx) user json)
          else if type = ''LIST'' then finish c (ctx, handle_client_list_users (nc_state ctx))
          else if type = ''INFO'' then finish c (ctx, handle_client_info (nc_state ctx) user json)
          else if type = ''CREATE'' then finish c (handle_client_create os ctx user json)
          else if type = ''DELETE'' then finish c (handle_client_delete os ctx user json)
          else if type = ''READ'' then finish c (handle_client_read os ctx user json)
          else if type = ''WRITE'' then finish c (handle_client_write os ctx user json)
          else if type = ''STREAM'' then finish c (handle_client_stream os ctx user json)
          else if type = ''CHECKPOINT'' then finish c (handle_client_checkpoint os ctx user json)
          else if type = ''VIEWCHECKPOINT'' then finish c (handle_client_viewcheckpoint os ctx user json)
          else if type = ''REVERT'' then finish c (handle_client_revert os ctx user json)
          else if type = ''LISTCHECKPOINTS'' then finish c (ctx, handle_client_listcheckpoints (nc_state ctx) user json)
          else if type = ''ADDACCESS'' then finish c (handle_client_addaccess os ctx user json)
          else if type = ''REMACCESS'' then finish c (handle_client_removeaccess os ctx user json)
          else if type = ''REQACCESS'' then finish c (handle_client_reqaccess os ctx user json)
          else if type = ''VIEWREQS'' then finish c (ctx, handle_client_viewreqs (nc_state ctx) user json)
          else if type = ''HANDLEREQ'' then finish c (handle_client_handlereq os ctx user json)
          else if type = ''UNDO'' then handle_client_undo os ctx c user json
          else if type = ''EXEC'' then finish c (handle_client_exec os ctx user json)
          else if type = ''CLIENT_EXIT'' then (False, ctx, snd (send_reply c (ReplyOk (fmt_str ''op'' ''EXIT''))))
          else finish c (ctx, ReplyErr ERR_BADREQ ''unsupported type''))"

end
