(* ===== verification/NM_Replication.thy ===== *)
theory NM_Replication
  imports NM_Dispatch
begin

text \<open>
  Replication and the life of a connection, the last part of \<^verbatim>\<open>nm/nm_main.c\<close>: copying a
  file to its backup, the replication worker, the messages of storage servers, the
  handshake, what happens when a connection is lost, and one round of a peer's thread.
\<close>

section \<open>Replication\<close>

definition sync_payload :: "string \<Rightarrow> string \<Rightarrow> storage_server \<Rightarrow> string \<Rightarrow> string option" where
  "sync_payload file_name owner primary ticket =
     (case (json_escape_string (NM_MAX_NAME * 2) file_name, json_escape_string (NM_MAX_USER * 2) owner,
            json_escape_string 256 (ss_host primary), json_escape_string 64 (ss_data_port primary),
            json_escape_string 64 ticket) of
        (Some f, Some ow, Some host, Some port, Some t) \<Rightarrow>
          let payload = braces [fmt_str ''type'' ''NM_SYNC'', fmt_str ''file'' f, fmt_str ''owner'' ow,
                fmt_str ''sourceHost'' host, fmt_str ''sourcePort'' port, fmt_str ''ticket'' t] in
          if MAX_JSON \<le> length payload then None else Some payload
      | _ \<Rightarrow> None)"

definition replicate_file_to_backup :: "'w nm_os \<Rightarrow> 'w nm_context \<Rightarrow> string \<Rightarrow> string \<Rightarrow> int \<Rightarrow> int
    \<Rightarrow> bool \<times> 'w nm_context" where
  "replicate_file_to_backup os ctx file_name owner primary_index backup_index =
     (if primary_index < 0 \<or> backup_index < 0 \<or> primary_index = backup_index then (False, ctx)
      else
        case (nm_get_server (nc_state ctx) primary_index, nm_get_server (nc_state ctx) backup_index) of
          (Some primary, Some backup) \<Rightarrow>
            if \<not> server_is_available (Some primary) \<or> \<not> server_is_available (Some backup) then (False, ctx)
            else
              (case issue_ticket os ctx primary primary_index file_name owner ''READ'' of
                 (None, ctx1) \<Rightarrow> (False, ctx1)
               | (Some ticket, ctx1) \<Rightarrow>
                   (case sync_payload file_name owner primary ticket of
                      None \<Rightarrow> (False, ctx1)
                    | Some payload \<Rightarrow>
                        (case forward_command os ctx1 backup payload of
                           (None, ctx2) \<Rightarrow> (False, ctx2)
                         | (Some response, ctx2) \<Rightarrow> (status_ok response, ctx2))))
        | _ \<Rightarrow> (False, ctx))"

definition handle_replication_failure :: "'w nm_os \<Rightarrow> 'w nm_context \<Rightarrow> replication_task \<Rightarrow> int \<Rightarrow> 'w nm_context" where
  "handle_replication_failure os ctx task attempted_backup =
     (case nm_find_file (nc_state ctx) (rt_file task) of
        None \<Rightarrow> if rt_assign task then try_assign_backup os ctx (rt_file task) else ctx
      | Some file \<Rightarrow>
          if \<not> rt_assign task \<and> fe_backup file = attempted_backup then
            let ctx1 = drop_file_backup os ctx (rt_file task) in
            if 0 \<le> fe_ss file then try_assign_backup os ctx1 (rt_file task) else ctx1
          else if rt_assign task then try_assign_backup os ctx (rt_file task)
          else ctx)"

text \<open>The first other server that is up.\<close>

definition backup_target :: "nm_state \<Rightarrow> int \<Rightarrow> int" where
  "backup_target st primary =
     (case find_index (\<lambda>i. int i \<noteq> primary \<and> server_is_available (nm_get_server st (int i))) [0..<length (nm_servers st)] of
        None \<Rightarrow> -1
      | Some i \<Rightarrow> int i)"

definition finish_replication :: "'w nm_os \<Rightarrow> 'w nm_context \<Rightarrow> replication_task \<Rightarrow> int \<Rightarrow> int \<Rightarrow> 'w nm_context" where
  "finish_replication os ctx task current_primary target =
     (case nm_find_file (nc_state ctx) (rt_file task) of
        None \<Rightarrow> ctx
      | Some file \<Rightarrow>
          if fe_ss file = current_primary \<and> rt_assign task then
            nm_save os (set_state ctx (nm_modify_file (nc_state ctx) (rt_file task) (\<lambda>f. f\<lparr>fe_backup := target\<rparr>)))
          else ctx)"

text \<open>One round of the worker's loop with a task that is no longer in the queue.\<close>

definition run_task :: "'w nm_os \<Rightarrow> 'w nm_context \<Rightarrow> replication_task \<Rightarrow> 'w nm_context" where
  "run_task os ctx task =
     (case nm_find_file (nc_state ctx) (rt_file task) of
        None \<Rightarrow> ctx
      | Some file \<Rightarrow>
          if fe_ss file < 0 \<or> fe_ss file \<noteq> rt_primary task then ctx
          else if \<not> rt_assign task \<and> fe_backup file \<noteq> rt_backup task then ctx
          else
            let target = (if rt_assign task then backup_target (nc_state ctx) (fe_ss file) else rt_backup task) in
            if rt_assign task \<and> target < 0 then ctx
            else
              (case replicate_file_to_backup os ctx (rt_file task) (buf NM_MAX_USER (fe_owner file)) (fe_ss file) target of
                 (False, ctx1) \<Rightarrow> handle_replication_failure os ctx1 task target
               | (True, ctx1) \<Rightarrow> finish_replication os ctx1 task (fe_ss file) target))"

definition replication_worker :: "'w nm_os \<Rightarrow> 'w nm_context \<Rightarrow> 'w nm_context" where
  "replication_worker os ctx =
     (case array_get (nc_queue ctx) 0 of
        None \<Rightarrow> ctx
      | Some task \<Rightarrow> run_task os (ctx\<lparr>nc_queue := array_remove (nc_queue ctx) 0\<rparr>) task)"

section \<open>Messages of storage servers\<close>

definition count_field :: "string \<Rightarrow> string \<Rightarrow> nat" where
  "count_field json key = (case json_get_int json key of None \<Rightarrow> 0 | Some v \<Rightarrow> if 0 \<le> v then nat v else 0)"

definition time_field :: "string \<Rightarrow> string \<Rightarrow> time_t" where
  "time_field json key = (case json_get_int json key of None \<Rightarrow> 0 | Some v \<Rightarrow> v)"

text \<open>
  What follows an update: copy the file to its backup when it was modified, or look for a
  backup when there is none. A task that cannot be queued counts as a failed copy.
\<close>

definition after_update :: "'w nm_os \<Rightarrow> 'w nm_context \<Rightarrow> string \<Rightarrow> file_entry \<Rightarrow> time_t \<Rightarrow> 'w nm_context" where
  "after_update os ctx file_name file prev_modified =
     (if fe_modified file \<noteq> prev_modified \<and> 0 \<le> fe_backup file then
        (case schedule_replication os ctx file_name (buf NM_MAX_USER (fe_owner file)) (fe_ss file) (fe_backup file) False of
           (True, ctx1) \<Rightarrow> ctx1
         | (False, ctx1) \<Rightarrow>
             handle_replication_failure os ctx1
               \<lparr>rt_file = buf NM_MAX_NAME file_name, rt_owner = buf NM_MAX_USER (fe_owner file), rt_primary = fe_ss file,
                rt_backup = fe_backup file, rt_assign = False\<rparr> (fe_backup file))
      else if fe_backup file < 0 \<and> 0 \<le> fe_ss file \<and> has_backup_candidate (nc_state ctx) (fe_ss file) then
        snd (schedule_replication os ctx file_name (buf NM_MAX_USER (fe_owner file)) (fe_ss file) (-1) True)
      else ctx)"

text \<open>\<^verbatim>\<open>last_user\<close> is not initialised: without the field it holds whatever was on the stack, \<open>no_junk\<close>.\<close>

definition handle_ss_file_update :: "'w nm_os \<Rightarrow> 'w nm_context \<Rightarrow> string \<Rightarrow> 'w nm_context" where
  "handle_ss_file_update os ctx json =
     (case json_get_string json ''file'' NM_MAX_NAME of
        None \<Rightarrow> ctx
      | Some file_name \<Rightarrow>
          let last_user = (case json_get_string json ''lastAccessUser'' NM_MAX_USER of None \<Rightarrow> no_junk os | Some u \<Rightarrow> u) in
          (case nm_find_file (nc_state ctx) file_name of
             None \<Rightarrow> ctx
           | Some old \<Rightarrow>
               let st1 = snd (nm_update_file_metadata (nc_state ctx) file_name (count_field json ''words'')
                     (count_field json ''chars'') (time_field json ''modified'') (time_field json ''lastAccess'')
                     (Some last_user));
                   ctx1 = nm_save os (set_state ctx st1) in
               (case nm_find_file st1 file_name of
                  None \<Rightarrow> ctx1
                | Some file \<Rightarrow> after_update os ctx1 file_name file (fe_modified old))))"

definition handle_server_message :: "'w nm_os \<Rightarrow> 'w nm_context \<Rightarrow> string \<Rightarrow> bool \<times> 'w nm_context" where
  "handle_server_message os ctx json =
     (if json_get_string json ''type'' 64 = Some ''SS_FILE_UPDATE'' then (True, handle_ss_file_update os ctx json)
      else (False, ctx))"

section \<open>The handshake\<close>

definition set_peer :: "'w nm_context \<Rightarrow> nat \<Rightarrow> peer \<Rightarrow> 'w nm_context" where
  "set_peer ctx i p = ctx\<lparr>nc_peers := (nc_peers ctx)[i := p]\<rparr>"

definition peer_reply :: "'w nm_context \<Rightarrow> nat \<Rightarrow> reply \<Rightarrow> bool \<times> 'w nm_context" where
  "peer_reply ctx i r =
     (let p = nc_peers ctx ! i in
      case send_reply (p_conn p) r of (b, c) \<Rightarrow> (b, set_peer ctx i (p\<lparr>p_conn := c\<rparr>)))"

definition assign_missing_backups :: "'w nm_os \<Rightarrow> 'w nm_context \<Rightarrow> 'w nm_context" where
  "assign_missing_backups os ctx =
     fold (\<lambda>file c. if fe_backup file < 0 then try_assign_backup os c (fe_name file) else c) (nm_files (nc_state ctx)) ctx"

definition handle_ss_register :: "'w nm_os \<Rightarrow> 'w nm_context \<Rightarrow> nat \<Rightarrow> string \<Rightarrow> bool \<times> 'w nm_context" where
  "handle_ss_register os ctx i json =
     (case (json_get_string json ''ssId'' 64, json_get_string json ''host'' 64,
            json_get_string json ''ctrlPort'' 16, json_get_string json ''dataPort'' 16) of
        (Some sid, Some host, Some ctrl_port, Some data_port) \<Rightarrow>
          (case nm_register_server (nc_state ctx) sid host ctrl_port data_port (p_fd (nc_peers ctx ! i)) of
             (None, _) \<Rightarrow> peer_reply ctx i (ReplyErr ERR_INTERNAL ''too many servers'')
           | (Some idx, st) \<Rightarrow>
               let ctx1 = set_peer (set_state ctx st) i ((nc_peers ctx ! i)\<lparr>p_type := PEER_SERVER, p_server := int idx\<rparr>) in
               (case peer_reply ctx1 i (ReplyOk (fmt_str ''role'' ''SS'')) of
                  (True, ctx2) \<Rightarrow> (True, assign_missing_backups os ctx2)
                | (False, ctx2) \<Rightarrow> (False, ctx2)))
      | _ \<Rightarrow> peer_reply ctx i (ReplyErr ERR_BADREQ ''invalid register payload''))"

definition handle_hello :: "'w nm_os \<Rightarrow> 'w nm_context \<Rightarrow> nat \<Rightarrow> string \<Rightarrow> bool \<times> 'w nm_context" where
  "handle_hello os ctx i json =
     (case json_get_string json ''user'' NM_MAX_USER of
        None \<Rightarrow> peer_reply ctx i (ReplyErr ERR_BADREQ ''missing user'')
      | Some user \<Rightarrow>
          if username_in_use ctx user then peer_reply ctx i (ReplyErr ERR_CONFLICT ''username already in use'')
          else
            (case active_user_add os ctx user of
               (False, ctx1) \<Rightarrow> peer_reply ctx1 i (ReplyErr ERR_INTERNAL ''failed to register user'')
             | (True, ctx1) \<Rightarrow>
                 let name = buf NM_MAX_USER user;
                     ctx2 = set_state ctx1 (snd (nm_add_user (no_now os) (nc_state ctx1) name));
                     ctx3 = set_peer ctx2 i ((nc_peers ctx2 ! i)\<lparr>p_user := name, p_type := PEER_CLIENT, p_server := -1\<rparr>) in
                 peer_reply ctx3 i (ReplyOk (fmt_str ''role'' ''CLIENT''))))"

definition handle_handshake :: "'w nm_os \<Rightarrow> 'w nm_context \<Rightarrow> nat \<Rightarrow> string \<Rightarrow> bool \<times> 'w nm_context" where
  "handle_handshake os ctx i json =
     (case json_get_string json ''type'' 64 of
        None \<Rightarrow> peer_reply ctx i (ReplyErr ERR_BADREQ ''missing type'')
      | Some type \<Rightarrow>
          if type = ''SS_REGISTER'' then handle_ss_register os ctx i json
          else if type = ''CLIENT_HELLO'' then handle_hello os ctx i json
          else peer_reply ctx i (ReplyErr ERR_BADREQ ''unknown handshake''))"

definition dispatch_message :: "'w nm_os \<Rightarrow> 'w nm_context \<Rightarrow> nat \<Rightarrow> string \<Rightarrow> bool \<times> 'w nm_context" where
  "dispatch_message os ctx i json =
     (let p = nc_peers ctx ! i in
      case p_type p of
        PEER_UNKNOWN \<Rightarrow> handle_handshake os ctx i json
      | PEER_CLIENT \<Rightarrow>
          (case handle_client_message os ctx (p_conn p) (p_user p) json of
             (b, ctx1, c) \<Rightarrow> (b, set_peer ctx1 i ((nc_peers ctx1 ! i)\<lparr>p_conn := c\<rparr>)))
      | PEER_SERVER \<Rightarrow> handle_server_message os ctx json
      | PEER_UNUSED \<Rightarrow> (False, ctx))"

section \<open>Losing a connection\<close>

text \<open>
  What the disconnection of server \<open>index\<close> does to a file, and whether the file is affected.
\<close>

definition file_failover :: "nm_state \<Rightarrow> int \<Rightarrow> file_entry \<Rightarrow> file_entry \<times> bool" where
  "file_failover st index file =
     (let step1 =
        (if fe_ss file = index then
           (if 0 \<le> fe_backup file then
              (if server_is_available (nm_get_server st (fe_backup file)) then use_backup file else drop_backup_only file)
            else file, True)
         else (file, False)) in
      case step1 of (file1, dirty) \<Rightarrow> if fe_backup file1 = index then (drop_backup_only file1, True) else (file1, dirty))"

definition needs_backup :: "nm_state \<Rightarrow> file_entry \<times> bool \<Rightarrow> bool" where
  "needs_backup st r \<longleftrightarrow> snd r \<and> fe_backup (fst r) < 0 \<and> 0 \<le> fe_ss (fst r) \<and> has_backup_candidate st (fe_ss (fst r))"

definition server_lost :: "'w nm_os \<Rightarrow> 'w nm_context \<Rightarrow> int \<Rightarrow> 'w nm_context" where
  "server_lost os ctx index =
     (let st = nm_mark_server_down (nc_state ctx) index;
          results = map (file_failover st index) (nm_files st);
          ctx1 = set_state ctx (st\<lparr>nm_files := map fst results\<rparr>);
          ctx2 = (if \<exists>r \<in> set results. snd r then nm_save os ctx1 else ctx1) in
      fold (\<lambda>r c. try_assign_backup os c (fe_name (fst r))) (filter (needs_backup st) results) ctx2)"

definition handle_server_disconnect :: "'w nm_os \<Rightarrow> 'w nm_context \<Rightarrow> nat \<Rightarrow> 'w nm_context" where
  "handle_server_disconnect os ctx i =
     (let p = nc_peers ctx ! i in
      if p_type p = PEER_CLIENT \<and> p_user p \<noteq> [] then active_user_remove ctx (p_user p)
      else if p_type p = PEER_SERVER \<and> 0 \<le> p_server p then server_lost os ctx (p_server p)
      else ctx)"

text \<open>
  One round of \<^verbatim>\<open>peer_thread_main\<close>: \<open>None\<close> when receiving failed. A message without a type is
  the answer to a command in progress, which \<open>no_rpc\<close> covers.
\<close>

definition peer_round :: "'w nm_os \<Rightarrow> 'w nm_context \<Rightarrow> nat \<Rightarrow> string option \<Rightarrow> 'w nm_context" where
  "peer_round os ctx i received =
     (case received of
        None \<Rightarrow> peer_close (handle_server_disconnect os ctx i) i
      | Some json \<Rightarrow>
          if json_get_string json ''type'' 64 = None then ctx
          else
            (case dispatch_message os ctx i json of
               (True, ctx1) \<Rightarrow> ctx1
             | (False, ctx1) \<Rightarrow> peer_close (handle_server_disconnect os ctx1 i) i))"

section \<open>Start\<close>

definition fresh_peer :: peer where
  "fresh_peer = \<lparr>p_fd = -1, p_type = PEER_UNUSED, p_server = -1, p_user = [], p_conn = closed_conn\<rparr>"

text \<open>The context after the initialisations of \<^verbatim>\<open>main\<close>; the arguments give the sizes of the three structures.\<close>

definition nm_start :: "(path \<Rightarrow> bool) \<Rightarrow> disk \<Rightarrow> path \<Rightarrow> nat \<times> nat \<times> nat \<Rightarrow> 'w \<Rightarrow> 'w nm_context" where
  "nm_start rd d state_path sizes w =
     \<lparr>nc_peers = replicate MAX_PEERS fresh_peer, nc_state = nm_state_init rd d (Some state_path),
      nc_tickets = array_init (fst sizes), nc_users = array_init (fst (snd sizes)),
      nc_queue = array_init (snd (snd sizes)), nc_disk = d, nc_world = w\<rparr>"

text \<open>
  The end of the program: every connection is closed, the arrays are freed and the state is saved.
\<close>

definition close_context :: "'w nm_os \<Rightarrow> 'w nm_context \<Rightarrow> 'w nm_context" where
  "close_context os ctx =
     nm_save os (ctx\<lparr>nc_peers := map (\<lambda>p. (peer_reset_fields p)\<lparr>p_conn := closed_conn\<rparr>) (nc_peers ctx),
       nc_tickets := array_free (nc_tickets ctx), nc_users := array_free (nc_users ctx), nc_queue := array_free (nc_queue ctx)\<rparr>)"

text \<open>
  The events of the name manager, one at a time: a connection is accepted, a peer's thread
  makes a round, the prune thread runs, the replication worker takes a task.
\<close>

datatype nm_event = Accept int conn | Round nat "string option" | Prune | Replicate

fun nm_step :: "'w nm_os \<Rightarrow> nm_event \<Rightarrow> 'w nm_context \<Rightarrow> 'w nm_context" where
  "nm_step os (Accept fd c) ctx = accept_peer ctx fd c"
| "nm_step os (Round i received) ctx =
     (if i < length (nc_peers ctx) \<and> p_type (nc_peers ctx ! i) \<noteq> PEER_UNUSED then peer_round os ctx i received else ctx)"
| "nm_step os Prune ctx = ticket_prune os ctx"
| "nm_step os Replicate ctx = replication_worker os ctx"

end
