(* ===== verification/NM_Restart.thy ===== *)
theory NM_Restart
  imports NM_Persist
begin

text \<open>
  A restart of the name manager: what \<^verbatim>\<open>nm_state_load\<close> reads from the file that
  \<^verbatim>\<open>nm_state_save\<close> wrote. A state whose text fields are plain words comes back with the same
  files, users and requests and the same servers, all disconnected.
\<close>

section \<open>Words and lines\<close>

definition plain_word :: "string \<Rightarrow> bool" where
  "plain_word w \<longleftrightarrow> w \<noteq> [] \<and> (\<forall>c \<in> set w. \<not> is_space c \<and> c \<noteq> NUL)"

definition stops :: "string \<Rightarrow> bool" where
  "stops r \<longleftrightarrow> (case r of [] \<Rightarrow> True | c # _ \<Rightarrow> is_space c)"

fun spaced :: "string list \<Rightarrow> string" where
  "spaced [] = []"
| "spaced [w] = w"
| "spaced (w # ws) = w @ SPACE # spaced ws"

lemma is_space_SPACE [simp]: "is_space SPACE" "is_space NEWLINE"
  by (simp_all add: is_space_def)

lemma stops_simps [simp]: "stops []" "stops (c # cs) \<longleftrightarrow> is_space c"
  by (simp_all add: stops_def)

lemma words_line_spaced: "words_line ws = spaced ws @ [NEWLINE]"
  by (induction ws rule: words_line.induct) auto

lemma plain_show [simp]: "plain_word (show_int i)" "plain_word (show_nat n)"
proof -
  have n: "plain_word (show_nat k)" for k
    using digit_chars [of _ k] digit_not_space show_nat_plain [of k] by (auto simp: plain_word_def)
  then show "plain_word (show_nat n)" .
  have "\<not> is_space (CHR ''-'')" by (simp add: is_space_def)
  then show "plain_word (show_int i)" using n [of "nat (- i)"] n [of "nat i"]
    by (auto simp: show_int_def plain_word_def)
qed

lemma plain_chars: "plain_word w \<Longrightarrow> c \<in> set w \<Longrightarrow> c \<noteq> SPACE \<and> c \<noteq> NEWLINE \<and> c \<noteq> NUL"
  unfolding plain_word_def by (metis is_space_SPACE)

lemma plain_takeWhile:
  assumes "plain_word w" and "stops r"
  shows "takeWhile (\<lambda>c. \<not> is_space c) (w @ r) = w"
proof -
  have "\<forall>c \<in> set w. \<not> is_space c" using assms(1) by (simp add: plain_word_def)
  moreover have "takeWhile (\<lambda>c. \<not> is_space c) r = []" using assms(2) by (cases r) auto
  ultimately show ?thesis by (simp add: takeWhile_append2)
qed

lemma plain_dropWhile: "plain_word w \<Longrightarrow> dropWhile is_space (w @ r) = w @ r"
  by (cases w) (auto simp: plain_word_def)

lemma scan_str_word:
  assumes "plain_word w" and "length w \<le> n" and "stops r"
  shows "scan_str n (w @ r) = Some (w, r)" and "scan_str n (SPACE # w @ r) = Some (w, r)"
proof -
  have "take n w = w" "w \<noteq> []" using assms by (simp_all add: plain_word_def)
  then show "scan_str n (w @ r) = Some (w, r)"
    unfolding scan_str_def Let_def plain_dropWhile [OF assms(1)] plain_takeWhile [OF assms(1,3)] by simp
  then show "scan_str n (SPACE # w @ r) = Some (w, r)" by (simp add: scan_str_def)
qed

lemma after_number_show:
  assumes "stops r"
  shows "after_number (show_int i @ r) = r"
proof -
  have d: "dropWhile is_digit (show_nat n @ r) = r" for n
  proof -
    have "dropWhile is_digit r = r" using assms digit_not_space by (cases r) auto
    moreover have "\<forall>c \<in> set (show_nat n). is_digit c" using digit_chars by blast
    ultimately show ?thesis by (simp add: dropWhile_append2)
  qed
  have h: "hd (show_nat n @ r) \<noteq> CHR ''-'' \<and> hd (show_nat n @ r) \<noteq> CHR ''+''" for n
    using digit_chars [of "hd (show_nat n)" n] digit_not_space [of "hd (show_nat n)"] by (simp add: hd_append)
  show ?thesis using d h [of "nat i"] by (auto simp: after_number_def show_int_def)
qed

lemma scan_long_show:
  assumes "long_range i" and "stops r"
  shows "scan_long (SPACE # show_int i @ r) = Some (i, r)"
proof -
  have "\<not> starts_digit r" using assms(2) digit_not_space by (cases r) (auto simp: starts_digit_def)
  then have "strtol (show_int i @ r) = Some i" using assms(1) by (intro strtol_show_int) (auto simp: long_range_def)
  then have "strtol (SPACE # show_int i @ r) = Some i" by (simp add: strtol_def)
  then show ?thesis
    using after_number_show [OF assms(2)] plain_dropWhile [of "show_int i"] by (simp add: scan_long_def)
qed

lemma scan_int_show:
  assumes "int_range i" and "stops r"
  shows "scan_int (SPACE # show_int i @ r) = Some (i, r)"
  using scan_long_show [OF int_range_long assms(2)] assms(1) by (simp add: scan_int_def int32_fits)

lemma spaced_plain:
  "list_all plain_word ws \<Longrightarrow> c \<in> set (spaced ws) \<Longrightarrow> c \<noteq> NEWLINE \<and> c \<noteq> NUL"
proof (induction ws rule: spaced.induct)
  case (3 w v vs)
  then consider "c \<in> set w" | "c = SPACE" | "c \<in> set (spaced (v # vs))" by auto
  then show ?case
  proof cases
    case 1
    then show ?thesis using 3(2) plain_chars by auto
  qed (use 3 in simp_all)
qed (use plain_chars in auto)

lemma load_loop_line:
  assumes "list_all plain_word ws" and "length (spaced ws) < 500"
  shows "load_loop (words_line ws @ s) ld = load_loop s (load_line (words_line ws) ld)"
    and "takeWhile (\<lambda>c. c \<noteq> NEWLINE) (cstring (words_line ws)) = spaced ws"
proof -
  have nl: "\<forall>c \<in> set (spaced ws). c \<noteq> NEWLINE" and nul: "NUL \<notin> set (spaced ws)"
    using spaced_plain [OF assms(1)] by blast+
  then have "NEWLINE \<notin> set (spaced ws)" by blast
  from fgets_line [OF this, of 512 s] assms(2)
  have "fgets 512 (words_line ws @ s) = (words_line ws, s)" by (simp add: words_line_spaced)
  then show "load_loop (words_line ws @ s) ld = load_loop s (load_line (words_line ws) ld)"
    by (subst load_loop.simps) (simp add: words_line_spaced)
  have "cstring (words_line ws) = words_line ws"
    using nul by (intro cstring_id) (simp add: is_cstring_def words_line_spaced)
  then show "takeWhile (\<lambda>c. c \<noteq> NEWLINE) (cstring (words_line ws)) = spaced ws"
    using nl by (simp add: words_line_spaced takeWhile_append2)
qed

lemma split_tokens_spaced: "list_all plain_word ws \<Longrightarrow> split_tokens SPACE (spaced ws) = ws"
proof (induction ws rule: spaced.induct)
  case 1
  show ?case by (subst split_tokens.simps) simp
next
  case (2 w)
  have sp: "\<forall>c \<in> set w. c \<noteq> SPACE" and ne: "w \<noteq> []" using 2 plain_chars by (auto simp: plain_word_def)
  have d: "dropWhile (\<lambda>c. c = SPACE) w = w" using sp by (cases w) auto
  have tw: "takeWhile (\<lambda>c. c \<noteq> SPACE) w = w" and dw: "dropWhile (\<lambda>c. c \<noteq> SPACE) w = []" using sp by simp_all
  have "split_tokens SPACE [] = []" by (subst split_tokens.simps) simp
  then show ?case by (subst split_tokens.simps) (simp only: spaced.simps d Let_def tw dw if_not_P [OF ne])
next
  case (3 w v vs)
  have sp: "\<forall>c \<in> set w. c \<noteq> SPACE" and ne: "w \<noteq> []" using 3(2) plain_chars by (auto simp: plain_word_def)
  let ?r = "SPACE # spaced (v # vs)"
  have tw: "takeWhile (\<lambda>c. c \<noteq> SPACE) (w @ ?r) = w" and dw: "dropWhile (\<lambda>c. c \<noteq> SPACE) (w @ ?r) = ?r"
    using sp by (simp_all add: takeWhile_append2 dropWhile_append2)
  have d: "dropWhile (\<lambda>c. c = SPACE) (w @ ?r) = w @ ?r" using sp ne by (cases w) auto
  have "split_tokens SPACE (w @ ?r) = w # split_tokens SPACE ?r"
    by (subst split_tokens.simps) (simp only: d Let_def tw dw, simp add: ne)
  moreover have "split_tokens SPACE ?r = split_tokens SPACE (spaced (v # vs))"
    by (subst (1 2) split_tokens.simps) simp
  ultimately show ?case using 3 by simp
qed

section \<open>One record per line\<close>

text \<open>What a line can represent: words of the lengths the fields allow, and numbers in range.\<close>

definition field_ok :: "nat \<Rightarrow> string \<Rightarrow> bool" where
  "field_ok n w \<longleftrightarrow> plain_word w \<and> length w < n"

definition server_ok :: "storage_server \<Rightarrow> bool" where
  "server_ok s \<longleftrightarrow> field_ok NM_MAX_NAME (ss_id s) \<and> field_ok NM_MAX_NAME (ss_host s) \<and>
     field_ok 16 (ss_ctrl_port s) \<and> field_ok 16 (ss_data_port s)"

definition acl_entry_ok :: "file_acl_entry \<Rightarrow> bool" where
  "acl_entry_ok a \<longleftrightarrow> field_ok NM_MAX_USER (acl_user a)"

definition checkpoint_ok :: "checkpoint_entry \<Rightarrow> bool" where
  "checkpoint_ok c \<longleftrightarrow> field_ok NM_MAX_NAME (ck_tag c) \<and> field_ok NM_MAX_USER (ck_user c) \<and> long_range (ck_time c)"

definition user_ok :: "user_entry \<Rightarrow> bool" where
  "user_ok u \<longleftrightarrow> field_ok NM_MAX_USER (ue_name u) \<and> long_range (ue_last_seen u)"

definition request_ok :: "access_request \<Rightarrow> bool" where
  "request_ok r \<longleftrightarrow> field_ok NM_MAX_NAME (rq_file r) \<and> field_ok NM_MAX_USER (rq_owner r) \<and>
     field_ok NM_MAX_USER (rq_requester r) \<and> int_range (rq_status r)"

definition file_head_ok :: "file_entry \<Rightarrow> bool" where
  "file_head_ok f \<longleftrightarrow> field_ok NM_MAX_NAME (fe_name f) \<and> field_ok NM_MAX_USER (fe_owner f) \<and>
     field_ok NM_MAX_USER (fe_last_user f) \<and> int_range (fe_ss f) \<and> int_range (fe_backup f) \<and>
     fe_words f \<le> ULLONG_MAX \<and> fe_chars f \<le> ULLONG_MAX \<and>
     long_range (fe_created f) \<and> long_range (fe_modified f) \<and> long_range (fe_last_access f)"

lemmas field_sizes = NM_MAX_NAME_def NM_MAX_USER_def

lemma field_okD: "field_ok n w \<Longrightarrow> plain_word w" "field_ok n w \<Longrightarrow> length w < n"
  by (simp_all add: field_ok_def)

lemma scan_field:
  assumes "field_ok (Suc n) w" and "stops r"
  shows "scan_str n (w @ r) = Some (w, r)" and "scan_str n (SPACE # w @ r) = Some (w, r)"
  using scan_str_word [OF field_okD(1) _ assms(2)] field_okD(2) [OF assms(1)] assms(1) by auto

lemmas scan_last = scan_int_show [where r = "[]", simplified] scan_long_show [where r = "[]", simplified]

lemma sint_int_range: "int_range (sint (w :: 32 word))"
  using sint_greater_eq [of w] sint_less [of w] by (simp add: int_range_def INT_MIN_def INT_MAX_def)

lemma word_sint: "word_of_int (sint w) = w"
  by simp

definition down :: "storage_server \<Rightarrow> storage_server" where
  "down s = s\<lparr>ss_ctrl_fd := -1\<rparr>"

lemma load_line_server:
  assumes "server_ok s" and "length (nm_servers st) < NM_MAX_SERVERS"
  shows "load_loop (server_line s @ t) (st, c) = load_loop t (st\<lparr>nm_servers := nm_servers st @ [down s]\<rparr>, None)"
proof -
  let ?on = "if ss_online s then 1 else 0 :: int"
  let ?ws = "[''SERVER'', ss_id s, ss_host s, ss_ctrl_port s, ss_data_port s, show_int ?on]"
  have f: "field_ok (Suc 127) (ss_id s)" "field_ok (Suc 127) (ss_host s)"
    "field_ok (Suc 15) (ss_ctrl_port s)" "field_ok (Suc 15) (ss_data_port s)"
    using assms(1) by (simp_all add: server_ok_def field_sizes)
  have r: "int_range ?on" by (simp add: int_range_def INT_MIN_def INT_MAX_def)
  have p: "list_all plain_word ?ws"
    using f [THEN field_okD(1)] by (simp add: plain_word_def [of "''SERVER''"] is_space_def)
  have len: "length (spaced ?ws) < 500"
    using f [THEN field_okD(2)] length_show_long [OF int_range_long [OF r]] by simp
  note L = load_loop_line [OF p len]
  have "load_line (words_line ?ws) (st, c) = (load_server (drop 7 (spaced ?ws)) st, None)"
    unfolding load_line_def Let_def L(2) by simp
  also have "load_server (drop 7 (spaced ?ws)) st = st\<lparr>nm_servers := nm_servers st @ [down s]\<rparr>"
    unfolding load_server_def
    using assms(2) by (simp add: scan_field [OF f(1)] scan_field [OF f(2)] scan_field [OF f(3)] scan_field [OF f(4)]
        scan_last(1) [OF r] down_def)
  finally show ?thesis using L(1) by (simp add: server_line_def)
qed

lemma load_line_user:
  assumes "user_ok u" and "length (nm_users st) < NM_MAX_USERS"
  shows "load_loop (user_line u @ t) (st, c) = load_loop t (st\<lparr>nm_users := nm_users st @ [u]\<rparr>, None)"
proof -
  let ?ws = "[''USER'', ue_name u, show_int (ue_last_seen u)]"
  have f: "field_ok (Suc 63) (ue_name u)" and r: "long_range (ue_last_seen u)"
    using assms(1) by (simp_all add: user_ok_def field_sizes)
  have p: "list_all plain_word ?ws"
    using f [THEN field_okD(1)] by (simp add: plain_word_def [of "''USER''"] is_space_def)
  have len: "length (spaced ?ws) < 500" using f [THEN field_okD(2)] length_show_long [OF r] by simp
  note L = load_loop_line [OF p len]
  have "load_line (words_line ?ws) (st, c) = (load_user (drop 5 (spaced ?ws)) st, None)"
    unfolding load_line_def Let_def L(2) by simp
  also have "load_user (drop 5 (spaced ?ws)) st = st\<lparr>nm_users := nm_users st @ [u]\<rparr>"
    using assms(2) by (simp add: load_user_def parse_user_def scan_field [OF f] scan_last(2) [OF r])
  finally show ?thesis using L(1) by (simp add: user_line_def)
qed

lemma load_line_request:
  assumes "request_ok q" and "length (nm_requests st) < NM_MAX_REQUESTS"
  shows "load_loop (request_line q @ t) (st, c) = load_loop t (st\<lparr>nm_requests := nm_requests st @ [q]\<rparr>, None)"
proof -
  let ?p = "sint (rq_perm q)"
  let ?ws = "[''REQ'', rq_file q, rq_owner q, rq_requester q, show_int ?p, show_int (rq_status q)]"
  have f: "field_ok (Suc 127) (rq_file q)" "field_ok (Suc 63) (rq_owner q)" "field_ok (Suc 63) (rq_requester q)"
    and r: "int_range (rq_status q)" "int_range ?p"
    using assms(1) sint_int_range by (simp_all add: request_ok_def field_sizes)
  have p: "list_all plain_word ?ws"
    using f [THEN field_okD(1)] by (simp add: plain_word_def [of "''REQ''"] is_space_def)
  have len: "length (spaced ?ws) < 500"
    using f [THEN field_okD(2)] r [THEN int_range_long, THEN length_show_long] by simp
  note L = load_loop_line [OF p len]
  have "load_line (words_line ?ws) (st, c) = (load_request (drop 4 (spaced ?ws)) st, None)"
    unfolding load_line_def Let_def L(2) by simp
  also have "load_request (drop 4 (spaced ?ws)) st = st\<lparr>nm_requests := nm_requests st @ [q]\<rparr>"
    unfolding load_request_def
    using assms(2) by (simp add: scan_field [OF f(1)] scan_field [OF f(2)] scan_field [OF f(3)]
        scan_int_show [OF r(2)] scan_last(1) [OF r(1)])
  finally show ?thesis using L(1) by (simp add: request_line_def)
qed

section \<open>Files\<close>

text \<open>Updates of one entry of the table that keep its name and link.\<close>

definition upd_file :: "nat \<Rightarrow> (file_entry \<Rightarrow> file_entry) \<Rightarrow> nm_state \<Rightarrow> nm_state" where
  "upd_file i f st = st\<lparr>nm_files := (nm_files st)[i := f (nm_files st ! i)]\<rparr>"

lemma upd_file_inv:
  assumes "nm_inv st" and "i < length (nm_files st)"
    and "\<And>e. fe_name (f e) = fe_name e" "\<And>e. fe_next (f e) = fe_next e"
  shows "nm_inv (upd_file i f st)"
proof -
  have idx: "find_file_index st (fe_name (nm_files st ! i)) = Some (int i)"
    by (rule find_file_index_unique [OF assms(1,2) refl])
  then have "upd_file i f st = nm_modify_file st (fe_name (nm_files st ! i)) f"
    by (simp add: nm_modify_file_def upd_file_def)
  moreover have "nm_find_file st (fe_name (nm_files st ! i)) = Some (nm_files st ! i)"
    using idx by (simp add: nm_find_file_def)
  ultimately show ?thesis using nm_modify_file_props(1) [OF assms(1), of _ _ f] assms(3,4) by metis
qed

lemma load_line_checkpoint:
  assumes "checkpoint_ok k" "field_ok NM_MAX_NAME n" "nm_inv st" "i < length (nm_files st)"
    "fe_name (nm_files st ! i) = n" "length (fe_checkpoints (nm_files st ! i)) < NM_MAX_CHECKPOINTS"
  shows "load_loop (checkpoint_line n k @ t) (st, c) =
     load_loop t (upd_file i (\<lambda>f. f\<lparr>fe_checkpoints := fe_checkpoints f @ [k]\<rparr>) st, c)"
proof -
  let ?ws = "[''CHECKPOINT'', n, ck_tag k, ck_user k, show_int (ck_time k)]"
  have f: "field_ok (Suc 127) n" "field_ok (Suc 127) (ck_tag k)" "field_ok (Suc 63) (ck_user k)"
    and r: "long_range (ck_time k)"
    using assms(1,2) by (simp_all add: checkpoint_ok_def field_sizes)
  have p: "list_all plain_word ?ws"
    using f [THEN field_okD(1)] by (simp add: plain_word_def [of "''CHECKPOINT''"] is_space_def)
  have len: "length (spaced ?ws) < 500" using f [THEN field_okD(2)] length_show_long [OF r] by simp
  note L = load_loop_line [OF p len]
  have idx: "find_file_index st n = Some (int i)" by (rule find_file_index_unique [OF assms(3,4,5)])
  have k: "\<lparr>ck_tag = ck_tag k, ck_user = ck_user k, ck_time = ck_time k\<rparr> = k" by simp
  have "load_line (words_line ?ws) (st, c) = (load_checkpoint (drop 11 (spaced ?ws)) st, c)"
    unfolding load_line_def Let_def L(2) by simp
  also have "load_checkpoint (drop 11 (spaced ?ws)) st =
      upd_file i (\<lambda>f. f\<lparr>fe_checkpoints := fe_checkpoints f @ [k]\<rparr>) st"
    using assms(6) f [THEN field_okD(2)]
    by (simp add: load_checkpoint_def scan_field [OF f(1)] scan_field [OF f(2)] scan_field [OF f(3)] scan_last(2) [OF r]
        nm_find_file_def nm_modify_file_def idx upd_file_def field_sizes k)
  finally show ?thesis using L(1) by (simp add: checkpoint_line_def)
qed

lemma load_line_acl:
  assumes "acl_entry_ok a" "length (fe_acl (nm_files st ! i)) < NM_MAX_ACL"
  shows "load_loop (acl_line a @ t) (st, Some i) =
     load_loop t (upd_file i (\<lambda>f. f\<lparr>fe_acl := fe_acl f @ [a]\<rparr>) st, Some i)"
proof -
  let ?p = "sint (acl_perm a)"
  let ?ws = "[''ACL'', acl_user a, show_int ?p]"
  have f: "field_ok (Suc 63) (acl_user a)" and r: "int_range ?p"
    using assms(1) sint_int_range by (simp_all add: acl_entry_ok_def field_sizes)
  have p: "list_all plain_word ?ws"
    using f [THEN field_okD(1)] by (simp add: plain_word_def [of "''ACL''"] is_space_def)
  have len: "length (spaced ?ws) < 500"
    using f [THEN field_okD(2)] length_show_long [OF int_range_long [OF r]] by simp
  note L = load_loop_line [OF p len]
  have a: "\<lparr>acl_user = acl_user a, acl_perm = acl_perm a\<rparr> = a" by simp
  have "load_line (words_line ?ws) (st, Some i) = load_acl (drop 4 (spaced ?ws)) (st, Some i)"
    unfolding load_line_def Let_def L(2) by simp
  also have "\<dots> = (upd_file i (\<lambda>f. f\<lparr>fe_acl := fe_acl f @ [a]\<rparr>) st, Some i)"
    using assms(2) by (simp add: load_acl_def parse_acl_def scan_field [OF f] scan_last(1) [OF r] upd_file_def Let_def a)
  finally show ?thesis using L(1) by (simp add: acl_line_def)
qed

lemma parse_file_line:
  assumes "file_head_ok f" and "length (fe_acl f) \<le> NM_MAX_ACL"
  defines "ws \<equiv> [fe_name f, fe_owner f, show_int (fe_ss f), show_int (fe_backup f), show_nat (fe_words f),
    show_nat (fe_chars f), show_int (fe_created f), show_int (fe_modified f), show_int (fe_last_access f),
    fe_last_user f, show_nat (length (fe_acl f))]"
  shows "list_all plain_word ws" and "length (spaced ws) < 430"
    and "parse_file (spaced ws) = Some (f\<lparr>fe_acl := [], fe_checkpoints := [], fe_next := 0\<rparr>)"
proof -
  have w: "field_ok 128 (fe_name f)" "field_ok 64 (fe_owner f)" "field_ok 64 (fe_last_user f)"
    and r: "int_range (fe_ss f)" "int_range (fe_backup f)"
    and n: "fe_words f \<le> ULLONG_MAX" "fe_chars f \<le> ULLONG_MAX"
    and l: "long_range (fe_created f)" "long_range (fe_modified f)" "long_range (fe_last_access f)"
    using assms(1) by (simp_all add: file_head_ok_def field_sizes)
  show p: "list_all plain_word ws" using w [THEN field_okD(1)] by (simp add: ws_def)
  have "length (fe_acl f) \<le> ULLONG_MAX" using assms(2) by (simp add: NM_MAX_ACL_def ULLONG_MAX_def)
  then show "length (spaced ws) < 430"
    using w [THEN field_okD(2)] r [THEN int_range_long, THEN length_show_long] n [THEN length_show_size]
      l [THEN length_show_long] length_show_size [of "length (fe_acl f)"] by (simp add: ws_def)
  have at: "atol (show_int i) = i" if "long_range i" for i using that by (simp add: long_range_def atol_show_int)
  have ai: "atoi (show_int i) = i" if "int_range i" for i
    using that by (simp add: atoi_def at int_range_long int32_fits)
  show "parse_file (spaced ws) = Some (f\<lparr>fe_acl := [], fe_checkpoints := [], fe_next := 0\<rparr>)"
    unfolding parse_file_def split_tokens_spaced [OF p]
    using w [THEN field_okD(2)] r n l
    by (cases f) (simp add: ws_def Let_def at ai strtoull_show_nat field_sizes)
qed

lemma load_line_file:
  assumes "file_head_ok f" and "length (fe_acl f) \<le> NM_MAX_ACL" and "length (nm_files st) < NM_MAX_FILES"
  shows "load_loop (file_line f @ t) (st, c) =
     load_loop t (push_file st (f\<lparr>fe_acl := [], fe_checkpoints := [], fe_next := 0\<rparr>), Some (length (nm_files st)))"
proof -
  note P = parse_file_line [OF assms(1,2)]
  let ?rest = "[fe_name f, fe_owner f, show_int (fe_ss f), show_int (fe_backup f), show_nat (fe_words f),
    show_nat (fe_chars f), show_int (fe_created f), show_int (fe_modified f), show_int (fe_last_access f),
    fe_last_user f, show_nat (length (fe_acl f))]"
  have p: "list_all plain_word (''FILE'' # ?rest)"
    using P(1) by (simp add: plain_word_def [of "''FILE''"] is_space_def)
  have j: "spaced (''FILE'' # ?rest) = ''FILE '' @ spaced ?rest" by simp
  have len: "length (spaced (''FILE'' # ?rest)) < 500" using P(2) unfolding j by simp
  note L = load_loop_line [OF p len]
  have "load_line (words_line (''FILE'' # ?rest)) (st, c) = load_file (spaced ?rest) (st, c)"
    unfolding load_line_def Let_def L(2) j by (simp del: spaced.simps)
  also have "\<dots> = (push_file st (f\<lparr>fe_acl := [], fe_checkpoints := [], fe_next := 0\<rparr>), Some (length (nm_files st)))"
    using assms(3) unfolding load_file_def by (simp add: P(3) del: spaced.simps)
  finally show ?thesis using L(1) by (simp add: file_line_def del: words_line.simps)
qed

lemma upd_file_simps:
  "length (nm_files (upd_file i f st)) = length (nm_files st)"
  "i < length (nm_files st) \<Longrightarrow> nm_files (upd_file i f st) ! i = f (nm_files st ! i)"
  "i < length (nm_files st) \<Longrightarrow> upd_file i g (upd_file i f st) = upd_file i (\<lambda>e. g (f e)) st"
  by (simp_all add: upd_file_def)

lemma load_checkpoints:
  assumes "list_all checkpoint_ok ks" "field_ok NM_MAX_NAME n" "nm_inv st" "i < length (nm_files st)"
    "fe_name (nm_files st ! i) = n" "length (fe_checkpoints (nm_files st ! i)) + length ks \<le> NM_MAX_CHECKPOINTS"
  shows "load_loop (concat (map (checkpoint_line n) ks) @ t) (st, c) =
     load_loop t (upd_file i (\<lambda>f. f\<lparr>fe_checkpoints := fe_checkpoints f @ ks\<rparr>) st, c)"
  using assms
proof (induction ks arbitrary: st)
  case Nil
  then show ?case by (simp add: upd_file_def)
next
  case (Cons k ks)
  let ?st = "upd_file i (\<lambda>f. f\<lparr>fe_checkpoints := fe_checkpoints f @ [k]\<rparr>) st"
  have "load_loop (checkpoint_line n k @ concat (map (checkpoint_line n) ks) @ t) (st, c) =
      load_loop (concat (map (checkpoint_line n) ks) @ t) (?st, c)"
    by (rule load_line_checkpoint) (use Cons.prems in simp_all)
  also have "\<dots> = load_loop t (upd_file i (\<lambda>f. f\<lparr>fe_checkpoints := fe_checkpoints f @ ks\<rparr>) ?st, c)"
    by (rule Cons.IH) (use Cons.prems in \<open>auto simp: upd_file_simps intro: upd_file_inv\<close>)
  finally show ?case using Cons.prems(4) by (simp add: upd_file_simps)
qed

lemma load_acls:
  assumes "list_all acl_entry_ok as" "i < length (nm_files st)"
    "length (fe_acl (nm_files st ! i)) + length as \<le> NM_MAX_ACL"
  shows "load_loop (concat (map acl_line as) @ t) (st, Some i) =
     load_loop t (upd_file i (\<lambda>f. f\<lparr>fe_acl := fe_acl f @ as\<rparr>) st, Some i)"
  using assms
proof (induction as arbitrary: st)
  case Nil
  then show ?case by (simp add: upd_file_def)
next
  case (Cons a as)
  let ?st = "upd_file i (\<lambda>f. f\<lparr>fe_acl := fe_acl f @ [a]\<rparr>) st"
  have "load_loop (acl_line a @ concat (map acl_line as) @ t) (st, Some i) =
      load_loop (concat (map acl_line as) @ t) (?st, Some i)"
    by (rule load_line_acl) (use Cons.prems in simp_all)
  also have "\<dots> = load_loop t (upd_file i (\<lambda>f. f\<lparr>fe_acl := fe_acl f @ as\<rparr>) ?st, Some i)"
    by (rule Cons.IH) (use Cons.prems in \<open>simp_all add: upd_file_simps\<close>)
  finally show ?case using Cons.prems(2) by (simp add: upd_file_simps)
qed

definition file_ok :: "file_entry \<Rightarrow> bool" where
  "file_ok f \<longleftrightarrow> file_head_ok f \<and> list_all acl_entry_ok (fe_acl f) \<and> length (fe_acl f) \<le> NM_MAX_ACL \<and>
     list_all checkpoint_ok (fe_checkpoints f) \<and> length (fe_checkpoints f) \<le> NM_MAX_CHECKPOINTS"

definition tables_only :: "nm_state \<Rightarrow> nm_state" where
  "tables_only st = st\<lparr>nm_files := [], nm_buckets := []\<rparr>"

lemma load_file_lines:
  assumes "nm_inv st" "file_ok f" "fe_name f \<notin> fe_name ` set (nm_files st)" "length (nm_files st) < NM_MAX_FILES"
  shows "\<exists>st'. (\<forall>t c. load_loop (file_lines f @ t) (st, c) = load_loop t (st', Some (length (nm_files st)))) \<and>
    nm_inv st' \<and> map strip (nm_files st') = map strip (nm_files st) @ [strip f] \<and> tables_only st' = tables_only st"
proof -
  let ?i = "length (nm_files st)"
  let ?e = "f\<lparr>fe_acl := [], fe_checkpoints := [], fe_next := 0\<rparr>"
  let ?st1 = "push_file st ?e"
  let ?addk = "\<lambda>e. e\<lparr>fe_checkpoints := fe_checkpoints e @ fe_checkpoints f\<rparr>"
  let ?adda = "\<lambda>e. e\<lparr>fe_acl := fe_acl e @ fe_acl f\<rparr>"
  let ?st2 = "upd_file ?i ?addk ?st1"
  let ?st3 = "upd_file ?i ?adda ?st2"
  have "fe_name ?e \<notin> fe_name ` set (nm_files st)" using assms(3) by simp
  note N = insert_last_inv [OF assms(1,4) this, folded push_file_def]
  have len: "length (nm_files ?st1) = Suc ?i" using same_content_length [OF N(3)] by simp
  have e1: "strip (nm_files ?st1 ! ?i) = strip ?e"
    using arg_cong [OF N(2), of "\<lambda>xs. xs ! ?i"] len by (simp add: nth_append)
  then have e1f: "fe_name (nm_files ?st1 ! ?i) = fe_name f" "fe_acl (nm_files ?st1 ! ?i) = []"
    "fe_checkpoints (nm_files ?st1 ! ?i) = []"
    by (cases "nm_files ?st1 ! ?i"; cases f; simp add: strip_def)+
  have ok: "file_head_ok f" "list_all acl_entry_ok (fe_acl f)" "length (fe_acl f) \<le> NM_MAX_ACL"
    "list_all checkpoint_ok (fe_checkpoints f)" "length (fe_checkpoints f) \<le> NM_MAX_CHECKPOINTS"
    using assms(2) by (simp_all add: file_ok_def)
  have nm: "field_ok NM_MAX_NAME (fe_name f)" using ok(1) by (simp add: file_head_ok_def)
  have "load_loop (file_lines f @ t) (st, c) = load_loop t (?st3, Some ?i)" for t c
    unfolding file_lines_def append_assoc load_line_file [OF ok(1,3) assms(4)]
    by (subst load_checkpoints [where i = ?i], use ok nm N(1) len e1f in simp_all)
      (subst load_acls, use ok len e1f in \<open>simp_all add: upd_file_simps\<close>)
  moreover have "nm_inv ?st3" using N(1) len by (auto intro!: upd_file_inv simp: upd_file_simps)
  moreover have "map strip (nm_files ?st3) = map strip (nm_files st) @ [strip f]"
  proof -
    have "strip (?adda (?addk (nm_files ?st1 ! ?i))) = strip f"
      using e1 by (cases "nm_files ?st1 ! ?i"; cases f) (simp add: strip_def)
    then have "map strip (nm_files ?st3) = (map strip (nm_files ?st1))[?i := strip f]"
      using len by (simp add: upd_file_simps map_update) (simp add: upd_file_def map_update)
    then show ?thesis unfolding N(2) by (simp add: list_update_append)
  qed
  moreover have "tables_only ?st3 = tables_only st"
    using N(3) by (simp add: tables_only_def upd_file_def same_content_def)
  ultimately show ?thesis by blast
qed

lemma load_files:
  assumes "nm_inv st" "list_all file_ok fs" "distinct (map fe_name (nm_files st @ fs))"
    "length (nm_files st) + length fs \<le> NM_MAX_FILES"
  shows "\<exists>st'. (\<forall>t c. \<exists>c'. load_loop (concat (map file_lines fs) @ t) (st, c) = load_loop t (st', c')) \<and>
    nm_inv st' \<and> map strip (nm_files st') = map strip (nm_files st @ fs) \<and> tables_only st' = tables_only st"
  using assms
proof (induction fs arbitrary: st)
  case Nil
  then show ?case by auto
next
  case (Cons f fs)
  obtain st1 where st1: "\<forall>t c. load_loop (file_lines f @ t) (st, c) = load_loop t (st1, Some (length (nm_files st)))"
    "nm_inv st1" "map strip (nm_files st1) = map strip (nm_files st) @ [strip f]" "tables_only st1 = tables_only st"
    using load_file_lines [OF Cons.prems(1), of f] Cons.prems by auto
  have nms: "map fe_name (nm_files st1) = map fe_name (nm_files st @ [f])"
    by (rule map_fe_name_strip) (simp add: st1(3))
  have len: "length (nm_files st1) = Suc (length (nm_files st))" using arg_cong [OF nms, of length] by simp
  have "\<exists>st'. (\<forall>t c. \<exists>c'. load_loop (concat (map file_lines fs) @ t) (st1, c) = load_loop t (st', c')) \<and>
      nm_inv st' \<and> map strip (nm_files st') = map strip (nm_files st1 @ fs) \<and> tables_only st' = tables_only st1"
    by (rule Cons.IH) (use Cons.prems st1(2) nms len in simp_all)
  then obtain st' where st': "\<forall>t c. \<exists>c'. load_loop (concat (map file_lines fs) @ t) (st1, c) = load_loop t (st', c')"
    "nm_inv st'" "map strip (nm_files st') = map strip (nm_files st1 @ fs)" "tables_only st' = tables_only st1"
    by blast
  have "\<forall>t c. \<exists>c'. load_loop (concat (map file_lines (f # fs)) @ t) (st, c) = load_loop t (st', c')"
    using st1(1) st'(1) by simp
  moreover have "map strip (nm_files st') = map strip (nm_files st @ f # fs)" using st'(3) st1(3) by simp
  ultimately show ?case using st'(2,4) st1(4) by (intro exI [of _ st']) simp
qed

section \<open>The whole file\<close>

lemma load_servers:
  assumes "list_all server_ok ss" and "length (nm_servers st) + length ss \<le> NM_MAX_SERVERS"
  shows "\<exists>c'. load_loop (concat (map server_line ss) @ t) (st, c) =
    load_loop t (st\<lparr>nm_servers := nm_servers st @ map down ss\<rparr>, c')"
  using assms
proof (induction ss arbitrary: st c)
  case (Cons s ss)
  then show ?case
    using Cons.IH [of "st\<lparr>nm_servers := nm_servers st @ [down s]\<rparr>" None] by (simp add: load_line_server)
qed auto

lemma load_users:
  assumes "list_all user_ok us" and "length (nm_users st) + length us \<le> NM_MAX_USERS"
  shows "\<exists>c'. load_loop (concat (map user_line us) @ t) (st, c) = load_loop t (st\<lparr>nm_users := nm_users st @ us\<rparr>, c')"
  using assms
proof (induction us arbitrary: st c)
  case (Cons u us)
  then show ?case
    using Cons.IH [of "st\<lparr>nm_users := nm_users st @ [u]\<rparr>" None] by (simp add: load_line_user)
qed auto

lemma load_requests:
  assumes "list_all request_ok qs" and "length (nm_requests st) + length qs \<le> NM_MAX_REQUESTS"
  shows "\<exists>c'. load_loop (concat (map request_line qs) @ t) (st, c) =
    load_loop t (st\<lparr>nm_requests := nm_requests st @ qs\<rparr>, c')"
  using assms
proof (induction qs arbitrary: st c)
  case (Cons q qs)
  then show ?case
    using Cons.IH [of "st\<lparr>nm_requests := nm_requests st @ [q]\<rparr>" None] by (simp add: load_line_request)
qed auto

lemma load_other:
  assumes "ws = [''VERSION'', ''1''] \<or> ws = [''END'']"
  shows "load_loop (words_line ws @ t) (st, c) = load_loop t (st, None)"
proof -
  have "list_all plain_word ws" "length (spaced ws) < 500" using assms by (auto simp: plain_word_def is_space_def)
  note L = load_loop_line [OF this]
  have "load_line (words_line ws) (st, c) = (st, None)"
    unfolding load_line_def Let_def L(2) using assms by auto
  then show ?thesis using L(1) by simp
qed

text \<open>\<open>state_ok st\<close>: the state can be represented in the file.\<close>

definition state_ok :: "nm_state \<Rightarrow> bool" where
  "state_ok st \<longleftrightarrow> list_all server_ok (nm_servers st) \<and> length (nm_servers st) \<le> NM_MAX_SERVERS \<and>
     list_all file_ok (nm_files st) \<and> list_all user_ok (nm_users st) \<and> length (nm_users st) \<le> NM_MAX_USERS \<and>
     list_all request_ok (nm_requests st) \<and> length (nm_requests st) \<le> NM_MAX_REQUESTS"

lemma tables_only_users:
  "tables_only (st\<lparr>nm_users := us, nm_requests := qs\<rparr>) = (tables_only st)\<lparr>nm_users := us, nm_requests := qs\<rparr>"
  by (cases st) (simp add: tables_only_def)

lemma load_state_text:
  assumes "nm_inv st" and "state_ok st"
  shows "\<exists>st'. fst (load_loop (state_text st) (clear_state st0, None)) = st' \<and> nm_inv st' \<and>
    map strip (nm_files st') = map strip (nm_files st) \<and>
    tables_only st' = tables_only ((clear_state st0)\<lparr>nm_servers := map down (nm_servers st),
      nm_users := nm_users st, nm_requests := nm_requests st\<rparr>)"
proof -
  have ok: "list_all server_ok (nm_servers st)" "length (nm_servers st) \<le> NM_MAX_SERVERS"
    "list_all file_ok (nm_files st)" "list_all user_ok (nm_users st)" "length (nm_users st) \<le> NM_MAX_USERS"
    "list_all request_ok (nm_requests st)" "length (nm_requests st) \<le> NM_MAX_REQUESTS"
    using assms(2) by (simp_all add: state_ok_def)
  let ?st1 = "(clear_state st0)\<lparr>nm_servers := map down (nm_servers st)\<rparr>"
  have emp: "nm_servers (clear_state st0) = []" "nm_files ?st1 = []" "nm_users ?st1 = []" "nm_requests ?st1 = []"
    by (simp_all add: clear_state_def)
  have inv1: "nm_inv ?st1" using clear_state_inv [of st0] by (simp add: nm_inv_def all_linked_def linked_def)
  have d: "distinct (map fe_name (nm_files st))" "length (nm_files st) \<le> NM_MAX_FILES"
    using assms(1) by (simp_all add: nm_inv_def)
  obtain st2 where st2:
    "\<forall>t c. \<exists>c'. load_loop (concat (map file_lines (nm_files st)) @ t) (?st1, c) = load_loop t (st2, c')"
    "nm_inv st2" "map strip (nm_files st2) = map strip (nm_files st)" "tables_only st2 = tables_only ?st1"
    using load_files [OF inv1 ok(3)] d emp(2) by auto
  have tu: "nm_users st2 = []" "nm_requests st2 = []"
    using arg_cong [OF st2(4), of nm_users] arg_cong [OF st2(4), of nm_requests] emp(3,4)
    by (simp_all add: tables_only_def)
  let ?u = "concat (map user_line (nm_users st))" and ?r = "concat (map request_line (nm_requests st))"
  let ?eof = "words_line [''END'']"
  let ?st3 = "st2\<lparr>nm_users := nm_users st\<rparr>"
  let ?st4 = "?st3\<lparr>nm_requests := nm_requests st\<rparr>"
  have "load_loop (state_text st) (clear_state st0, None) =
      load_loop (concat (map server_line (nm_servers st)) @ concat (map file_lines (nm_files st)) @ ?u @ ?r @ ?eof)
        (clear_state st0, None)"
    unfolding state_text_def by (rule load_other) simp
  also obtain c1 where "\<dots> = load_loop (concat (map file_lines (nm_files st)) @ ?u @ ?r @ ?eof) (?st1, c1)"
    using load_servers [OF ok(1), of "clear_state st0"] ok(2) emp(1) by auto
  also obtain c2 where "\<dots> = load_loop (?u @ ?r @ ?eof) (st2, c2)" using st2(1) by blast
  also obtain c3 where "\<dots> = load_loop (?r @ ?eof) (?st3, c3)" using load_users [OF ok(4), of st2] ok(5) tu by auto
  also obtain c4 where "\<dots> = load_loop ?eof (?st4, c4)" using load_requests [OF ok(6), of ?st3] ok(7) tu by auto
  also have "\<dots> = (?st4, None)"
    using load_other [of "[''END'']" "[]" ?st4 c4] by (simp add: load_loop.simps [of "[]"])
  finally have "load_loop (state_text st) (clear_state st0, None) = (?st4, None)" .
  moreover have "nm_inv ?st4" using st2(2) by (simp add: nm_inv_def all_linked_def linked_def)
  moreover have "tables_only ?st4 = tables_only ((clear_state st0)\<lparr>nm_servers := map down (nm_servers st),
      nm_users := nm_users st, nm_requests := nm_requests st\<rparr>)"
    unfolding tables_only_users st2(4) by simp
  ultimately show ?thesis using st2(3) by simp
qed

lemma nm_lookup_strip_cong:
  assumes "nm_inv a" "nm_inv b" "map strip (nm_files a) = map strip (nm_files b)"
  shows "nm_lookup a = nm_lookup b"
proof
  fix n
  show "nm_lookup a n = nm_lookup b n"
    by (rule option_eqI) (simp add: nm_lookup_Some_iff assms(1,2) strip_set [OF assms(3)])
qed

section \<open>Properties\<close>

text \<open>A name manager with one server, a shared file with a checkpoint, a user and a pending request.\<close>

definition demo_saved :: nm_state where
  "demo_saved = push_file ((clear_state demo_nm)
     \<lparr>nm_servers := [\<lparr>ss_id = ''s1'', ss_host = ''127.0.0.1'', ss_ctrl_port = ''9001'', ss_data_port = ''9002'',
        ss_ctrl_fd = 4, ss_online = True\<rparr>],
      nm_users := [\<lparr>ue_name = ''alice'', ue_last_seen = 7\<rparr>],
      nm_requests := [\<lparr>rq_file = ''a'', rq_owner = ''alice'', rq_requester = ''carol'', rq_perm = 1, rq_status = 0\<rparr>]\<rparr>)
     ((new_file_entry ''a'' ''alice'' 0 (-1) 7)\<lparr>fe_acl := [\<lparr>acl_user = ''bob'', acl_perm = 3\<rparr>],
        fe_checkpoints := [\<lparr>ck_tag = ''v1'', ck_user = ''alice'', ck_time = 9\<rparr>]\<rparr>)"

lemma demo_saved_facts:
  "nm_inv demo_saved" "state_ok demo_saved" "nm_persist_path demo_saved = ''nm_state.dat''"
  "map fe_name (nm_files demo_saved) = [''a'']" "map ss_id (nm_servers demo_saved) = [''s1'']"
proof -
  let ?st = "(clear_state demo_nm)
     \<lparr>nm_servers := [\<lparr>ss_id = ''s1'', ss_host = ''127.0.0.1'', ss_ctrl_port = ''9001'', ss_data_port = ''9002'',
        ss_ctrl_fd = 4, ss_online = True\<rparr>],
      nm_users := [\<lparr>ue_name = ''alice'', ue_last_seen = 7\<rparr>],
      nm_requests := [\<lparr>rq_file = ''a'', rq_owner = ''alice'', rq_requester = ''carol'', rq_perm = 1, rq_status = 0\<rparr>]\<rparr>"
  let ?e = "(new_file_entry ''a'' ''alice'' 0 (-1) 7)\<lparr>fe_acl := [\<lparr>acl_user = ''bob'', acl_perm = 3\<rparr>],
        fe_checkpoints := [\<lparr>ck_tag = ''v1'', ck_user = ''alice'', ck_time = 9\<rparr>]\<rparr>"
  have "nm_inv ?st" using clear_state_inv [of demo_nm] by (simp add: nm_inv_def all_linked_def linked_def)
  moreover have "length (nm_files ?st) < NM_MAX_FILES" "fe_name ?e \<notin> fe_name ` set (nm_files ?st)"
    by (simp_all add: clear_state_def NM_MAX_FILES_def)
  ultimately have N: "nm_inv (push_file ?st ?e)"
    "same_content (push_file ?st ?e) (?st\<lparr>nm_files := nm_files ?st @ [?e]\<rparr>)"
    using insert_last_inv unfolding push_file_def by blast+
  have ds: "demo_saved = push_file ?st ?e" by (simp add: demo_saved_def)
  show "nm_inv demo_saved" using N(1) ds by simp
  have rest: "nm_servers demo_saved = nm_servers ?st" "nm_users demo_saved = nm_users ?st"
    "nm_requests demo_saved = nm_requests ?st" "nm_persist_path demo_saved = nm_persist_path ?st"
    by (simp_all add: ds push_file_def file_hash_insert_def Let_def)
  obtain v where fs: "nm_files demo_saved = [?e\<lparr>fe_next := v\<rparr>]"
    by (simp add: ds push_file_def file_hash_insert_def Let_def clear_state_def)
  show "nm_persist_path demo_saved = ''nm_state.dat''" "map ss_id (nm_servers demo_saved) = [''s1'']"
    using rest by (simp_all add: demo_nm_def clear_state_def)
  show "map fe_name (nm_files demo_saved) = [''a'']" using fs by (simp add: NM_MAX_NAME_def)
  show "state_ok demo_saved"
    unfolding state_ok_def rest fs
    by (simp add: file_ok_def file_head_ok_def server_ok_def user_ok_def request_ok_def acl_entry_ok_def checkpoint_ok_def
        new_file_entry_def field_ok_def plain_word_def is_space_def field_sizes int_range_def long_range_def
        INT_MIN_def INT_MAX_def LONG_MIN_def LONG_MAX_def ULLONG_MAX_def NM_MAX_SERVERS_def NM_MAX_USERS_def
        NM_MAX_REQUESTS_def NM_MAX_ACL_def NM_MAX_CHECKPOINTS_def)
qed

text \<open>What the start reads from a state file.\<close>

lemma init_saved:
  assumes "nm_inv st" and "state_ok st" and "buf 256 p \<noteq> []" and "d (buf 256 p) = Some (state_text st)"
  defines "st' \<equiv> nm_state_init (\<lambda>_. True) d (Some p)"
  shows "nm_inv st'" "nm_lookup st' = nm_lookup st" "nm_users st' = nm_users st" "nm_requests st' = nm_requests st"
    "nm_servers st' = map (\<lambda>s. s\<lparr>ss_ctrl_fd := -1\<rparr>) (nm_servers st)" "nm_persist_path st' = buf 256 p"
proof -
  let ?st0 = "\<lparr>nm_servers = [], nm_next_primary = 0, nm_next_backup = 0, nm_files = [], nm_users = [], nm_cache = [],
        nm_requests = [], nm_persist_path = buf 256 p, nm_buckets = []\<rparr>"
  have "nm_persist_path (clear_state ?st0) = buf 256 p" by (simp add: clear_state_def)
  then have st': "st' = fst (load_loop (state_text st) (clear_state (clear_state ?st0), None))"
    using assms(3,4) by (simp add: st'_def nm_state_init_def nm_state_load_def)
  from load_state_text [OF assms(1,2), of "clear_state ?st0"]
  have L: "nm_inv st'" "map strip (nm_files st') = map strip (nm_files st)"
    and t: "tables_only st' = tables_only ((clear_state (clear_state ?st0))\<lparr>nm_servers := map down (nm_servers st),
      nm_users := nm_users st, nm_requests := nm_requests st\<rparr>)" unfolding st' by blast+
  show "nm_users st' = nm_users st" "nm_requests st' = nm_requests st" "nm_persist_path st' = buf 256 p"
    using arg_cong [OF t, of nm_users] arg_cong [OF t, of nm_requests] arg_cong [OF t, of nm_persist_path]
    by (simp_all add: tables_only_def clear_state_def)
  have "down = (\<lambda>s. s\<lparr>ss_ctrl_fd := -1\<rparr>)" by (simp add: fun_eq_iff down_def)
  then show "nm_servers st' = map (\<lambda>s. s\<lparr>ss_ctrl_fd := -1\<rparr>) (nm_servers st)"
    using arg_cong [OF t, of nm_servers] by (simp add: tables_only_def clear_state_def)
  show "nm_inv st'" by (rule L(1))
  show "nm_lookup st' = nm_lookup st" by (rule nm_lookup_strip_cong [OF L(1) assms(1) L(2)])
qed

text \<open>C20: The name manager survives a restart. When \<^verbatim>\<open>nm_state_save\<close> writes a well formed state whose
  text fields are non-empty, free of white space and within their buffers, \<^verbatim>\<open>nm_state_init\<close> on the same
  path rebuilds it: the hash table is well formed again and finds exactly the same files with
  their locations, counts, times, access lists and checkpoints, users and access requests are the
  same, and every server is known but disconnected.\<close>

theorem state_save_load:
  assumes "nm_inv st" and "state_ok st" and "nm_persist_path st \<noteq> []" and "length (nm_persist_path st) < 256"
  shows "\<exists>d' st'. nm_state_save SaveOk d st = (d', True) \<and>
    nm_state_init (\<lambda>_. True) d' (Some (nm_persist_path st)) = st' \<and>
    nm_inv st' \<and> nm_lookup st' = nm_lookup st \<and> nm_users st' = nm_users st \<and> nm_requests st' = nm_requests st \<and>
    nm_servers st' = map (\<lambda>s. s\<lparr>ss_ctrl_fd := -1\<rparr>) (nm_servers st) \<and> nm_persist_path st' = nm_persist_path st"
proof -
  let ?p = "nm_persist_path st"
  let ?d = "d(tmp_path ?p := None, ?p := Some (state_text st))"
  have "nm_state_save SaveOk d st = (?d, True)" using assms(3) by (simp add: nm_state_save_def Let_def)
  moreover have "buf 256 ?p = ?p" using assms(4) by simp
  ultimately show ?thesis using init_saved [OF assms(1,2), of ?p ?d] assms(3) by simp
qed

theorem state_save_load_witness:
  "\<exists>d' st'. nm_state_save SaveOk Map.empty demo_saved = (d', True) \<and>
    nm_state_init (\<lambda>_. True) d' (Some ''nm_state.dat'') = st' \<and> nm_lookup st' = nm_lookup demo_saved \<and>
    nm_lookup st' ''a'' \<noteq> None \<and> map ss_id (nm_servers st') = [''s1'']"
proof -
  note F = demo_saved_facts
  have "''a'' \<in> set (map fe_name (nm_files demo_saved))" unfolding F(4) by simp
  then have "nm_lookup demo_saved ''a'' \<noteq> None" using nm_lookup_None_iff [OF F(1)] by simp
  moreover have "map ss_id (map (\<lambda>s. s\<lparr>ss_ctrl_fd := -1\<rparr>) (nm_servers demo_saved)) = [''s1'']"
    using F(5) by (simp add: comp_def)
  moreover have "nm_persist_path demo_saved \<noteq> []" "length (nm_persist_path demo_saved) < 256" using F(3) by simp_all
  ultimately show ?thesis using state_save_load [OF F(1,2), of Map.empty] F(3) by metis
qed

text \<open>A file name with a space does not survive a restart. The fields of a \<^verbatim>\<open>FILE\<close> line are
  separated by spaces, so a file \<^verbatim>\<open>a b\<close> comes back as a file \<^verbatim>\<open>a\<close> whose owner is \<^verbatim>\<open>b\<close>, whatever
  its owner was.\<close>

theorem spaced_name_changes_owner:
  assumes "fe_name f = a @ SPACE # b" and "plain_word a" "plain_word b" "length a + length b < 64"
    and "file_head_ok (f\<lparr>fe_name := a\<rparr>)" "length (fe_acl f) \<le> NM_MAX_ACL" "length (nm_files st) < NM_MAX_FILES"
  shows "\<exists>g. load_loop (file_line f) (st, c) = (push_file st g, Some (length (nm_files st))) \<and>
    fe_name g = a \<and> fe_owner g = b"
proof -
  let ?tl = "[fe_owner f, show_int (fe_ss f), show_int (fe_backup f), show_nat (fe_words f),
    show_nat (fe_chars f), show_int (fe_created f), show_int (fe_modified f), show_int (fe_last_access f),
    fe_last_user f, show_nat (length (fe_acl f))]"
  note P = parse_file_line [of "f\<lparr>fe_name := a\<rparr>", simplified, OF assms(5,6)]
  have p: "list_all plain_word (''FILE'' # a # b # ?tl)" and p': "list_all plain_word (a # b # ?tl)"
    using P(1) assms(2,3) by (simp_all add: plain_word_def [of "''FILE''"] is_space_def)
  have j: "spaced (''FILE'' # a # b # ?tl) = ''FILE '' @ spaced (a # b # ?tl)" by simp
  have len: "length (spaced (''FILE'' # a # b # ?tl)) < 500" using P(2) assms(4) by simp
  note L = load_loop_line [OF p len]
  have line: "file_line f = words_line (''FILE'' # a # b # ?tl)" using assms(1) by (simp add: file_line_def)
  obtain g where g: "parse_file (spaced (a # b # ?tl)) = Some g" "fe_name g = a" "fe_owner g = b"
    unfolding parse_file_def split_tokens_spaced [OF p'] using assms(4) by (simp add: Let_def field_sizes)
  have "load_line (file_line f) (st, c) = load_file (spaced (a # b # ?tl)) (st, c)"
    unfolding line load_line_def Let_def L(2) j by (simp del: spaced.simps)
  also have "\<dots> = (push_file st g, Some (length (nm_files st)))"
    using assms(7) unfolding load_file_def by (simp add: g(1) del: spaced.simps)
  finally show ?thesis
    using L(1) [of "[]"] g(2,3)
    by (intro exI [of _ g]) (simp add: line load_loop.simps [of "[]"] del: words_line.simps)
qed

theorem spaced_name_changes_owner_witness:
  "\<exists>g. load_loop (file_line (new_file_entry ''notes bob'' ''alice'' 0 (-1) 7)) (clear_state demo_nm, None) =
     (push_file (clear_state demo_nm) g, Some 0) \<and> fe_name g = ''notes'' \<and> fe_owner g = ''bob''"
proof -
  let ?f = "new_file_entry ''notes bob'' ''alice'' 0 (-1) 7"
  have "fe_name ?f = ''notes'' @ SPACE # ''bob''" by code_simp
  moreover have "plain_word ''notes''" "plain_word ''bob''" by (simp_all add: plain_word_def is_space_def)
  moreover have "file_head_ok (?f\<lparr>fe_name := ''notes''\<rparr>)"
    by (simp add: file_head_ok_def new_file_entry_def field_ok_def plain_word_def is_space_def field_sizes
        int_range_def long_range_def INT_MIN_def INT_MAX_def LONG_MIN_def LONG_MAX_def ULLONG_MAX_def)
  ultimately show ?thesis
    using spaced_name_changes_owner [of ?f "''notes''" "''bob''" "clear_state demo_nm" None]
    by (simp add: NM_MAX_FILES_def clear_state_def new_file_entry_def [THEN arg_cong [of _ _ fe_acl]])
qed

end
