(* ===== verification/NM_Inv.thy ===== *)
theory NM_Inv
  imports NM_Replication NM_Restart
begin

text \<open>
  The invariant of the name manager's tables and what the operations of \<^verbatim>\<open>nm_state.c\<close> keep of
  it. \<open>grants st\<close> is the part of the file table that decides access: the owner and the access
  list of every file.
\<close>

section \<open>The invariant\<close>

text \<open>
  A file: its access list has one entry per user, its primary server is known, and a backup is
  another known server.
\<close>

definition file_good :: "nat \<Rightarrow> file_entry \<Rightarrow> bool" where
  "file_good n f \<longleftrightarrow> acl_ok (fe_acl f) \<and> 0 \<le> fe_ss f \<and> fe_ss f < int n \<and> fe_backup f < int n \<and>
     (0 \<le> fe_backup f \<longrightarrow> fe_backup f \<noteq> fe_ss f) \<and> length (fe_name f) < NM_MAX_NAME \<and>
     length (fe_checkpoints f) \<le> NM_MAX_CHECKPOINTS"

definition nm_wf :: "nm_state \<Rightarrow> bool" where
  "nm_wf st \<longleftrightarrow> nm_inv st \<and> (\<forall>f \<in> set (nm_files st). file_good (length (nm_servers st)) f) \<and> servers_ok st \<and> cache_ok st \<and>
     length (nm_users st) \<le> NM_MAX_USERS \<and> length (nm_requests st) \<le> NM_MAX_REQUESTS"

definition grants :: "nm_state \<Rightarrow> name \<Rightarrow> (name \<times> file_acl_entry list) option" where
  "grants st n = map_option (\<lambda>f. (fe_owner f, fe_acl f)) (nm_find_file st n)"

lemma nm_wf_inv: "nm_wf st \<Longrightarrow> nm_inv st"
  by (simp add: nm_wf_def)

lemma nm_wf_acl: "nm_wf st \<Longrightarrow> nm_acl_inv st"
  by (simp add: nm_wf_def nm_acl_inv_def file_good_def)

lemma found_mem:
  assumes "nm_inv st" and "nm_find_file st n = Some f"
  shows "f \<in> set (nm_files st)" and "fe_name f = n"
proof -
  have "f \<in> set (nm_files st) \<and> fe_name f = n"
  proof (cases rule: find_file_index_cases [OF assms(1), of n])
    case (1 i)
    then have "f = nm_files st ! i" using assms(2) by simp
    with 1 show ?thesis by simp
  qed (use assms(2) in simp)
  then show "f \<in> set (nm_files st)" "fe_name f = n" by simp_all
qed

lemma found_good:
  assumes "nm_wf st" and "nm_find_file st n = Some f"
  shows "file_good (length (nm_servers st)) f" and "fe_name f = n"
  using assms(1) found_mem [OF nm_wf_inv [OF assms(1)] assms(2)] unfolding nm_wf_def by blast+

lemma clear_state_wf: "nm_wf (clear_state st)"
  using clear_state_inv [of st] by (simp add: nm_wf_def clear_state_def servers_ok_def cache_ok_def)

text \<open>The parts that the file operations leave alone.\<close>

lemma modify_rest:
  "nm_servers (nm_modify_file st n f) = nm_servers st" "nm_cache (nm_modify_file st n f) = nm_cache st"
  "nm_users (nm_modify_file st n f) = nm_users st" "nm_requests (nm_modify_file st n f) = nm_requests st"
  "nm_persist_path (nm_modify_file st n f) = nm_persist_path st"
  by (auto simp: nm_modify_file_def split: option.splits)

lemma modify_wf:
  assumes "nm_wf st" and "nm_find_file st n = Some e" and "fe_name (f e) = fe_name e" "fe_next (f e) = fe_next e"
    and "file_good (length (nm_servers st)) (f e)"
  shows "nm_wf (nm_modify_file st n f)"
proof -
  have inv: "nm_inv st" by (rule nm_wf_inv [OF assms(1)])
  have "nm_files (nm_modify_file st n f) = (nm_files st)[the (map_option nat (find_file_index st n)) := f e]"
    using assms(2) by (auto simp: nm_modify_file_def nm_find_file_def split: option.splits if_splits)
  then have "set (nm_files (nm_modify_file st n f)) \<subseteq> insert (f e) (set (nm_files st))"
    using set_update_subset_insert by metis
  then show ?thesis
    using assms(1,5) nm_modify_file_props(1) [where f = f, OF inv assms(2-4)]
    by (auto simp: nm_wf_def modify_rest servers_ok_def cache_ok_def)
qed

lemma modify_grants:
  assumes "nm_inv st" and "nm_find_file st n = Some e" and "fe_name (f e) = fe_name e" "fe_next (f e) = fe_next e"
    and "fe_owner (f e) = fe_owner e" "fe_acl (f e) = fe_acl e"
  shows "grants (nm_modify_file st n f) = grants st"
  using assms(2,5,6) by (auto simp: fun_eq_iff grants_def nm_modify_file_props(2) [where f = f, OF assms(1-4)])

text \<open>States that agree on the files and the servers.\<close>

lemma wf_cong:
  assumes "nm_wf st" and "nm_files st' = nm_files st" "nm_buckets st' = nm_buckets st" "nm_servers st' = nm_servers st"
    and "cache_ok st'" "length (nm_users st') \<le> NM_MAX_USERS" "length (nm_requests st') \<le> NM_MAX_REQUESTS"
  shows "nm_wf st'"
  using assms by (simp add: nm_wf_def nm_inv_def all_linked_def linked_def servers_ok_def)

lemma find_cong:
  assumes "nm_files st' = nm_files st" and "nm_buckets st' = nm_buckets st"
  shows "nm_find_file st' n = nm_find_file st n"
  unfolding nm_find_file_def find_file_index_def assms by (rule refl)

lemma grants_cong:
  assumes "nm_files st' = nm_files st" and "nm_buckets st' = nm_buckets st"
  shows "grants st' = grants st"
  unfolding grants_def find_cong [OF assms] by (rule refl)

section \<open>The operations of the state\<close>

lemma mark_down_rest:
  "nm_files (nm_mark_server_down st i) = nm_files st" "nm_buckets (nm_mark_server_down st i) = nm_buckets st"
  "nm_cache (nm_mark_server_down st i) = nm_cache st" "nm_users (nm_mark_server_down st i) = nm_users st"
  "nm_requests (nm_mark_server_down st i) = nm_requests st"
  "length (nm_servers (nm_mark_server_down st i)) = length (nm_servers st)"
  "map ss_id (nm_servers (nm_mark_server_down st i)) = map ss_id (nm_servers st)"
  "nm_persist_path (nm_mark_server_down st i) = nm_persist_path st"
  by (auto simp: nm_mark_server_down_def map_update intro!: list_update_same_conv [THEN iffD2])

lemma mark_down_wf: "nm_wf st \<Longrightarrow> nm_wf (nm_mark_server_down st i)"
  by (simp add: nm_wf_def nm_inv_def all_linked_def linked_def servers_ok_def cache_ok_def mark_down_rest)

lemma mark_down_grants: "grants (nm_mark_server_down st i) = grants st"
  by (rule grants_cong) (simp_all add: mark_down_rest)

lemma cache_put_rest:
  "nm_files (nm_cache_put now st n s) = nm_files st" "nm_buckets (nm_cache_put now st n s) = nm_buckets st"
  "nm_servers (nm_cache_put now st n s) = nm_servers st" "nm_users (nm_cache_put now st n s) = nm_users st"
  "nm_requests (nm_cache_put now st n s) = nm_requests st" "nm_persist_path (nm_cache_put now st n s) = nm_persist_path st"
  by (auto simp: nm_cache_put_def Let_def split: option.split)

lemma cache_put_wf: "nm_wf st \<Longrightarrow> length n < NM_MAX_NAME \<Longrightarrow> nm_wf (nm_cache_put now st n s)"
  by (rule wf_cong [of st]) (simp_all add: cache_put_rest nm_cache_put_result(1) nm_wf_def)

lemma cache_put_grants: "grants (nm_cache_put now st n s) = grants st"
  by (rule grants_cong) (simp_all add: cache_put_rest)

lemma pick_rest:
  "nm_files (snd (nm_pick_server st)) = nm_files st" "nm_buckets (snd (nm_pick_server st)) = nm_buckets st"
  "nm_servers (snd (nm_pick_server st)) = nm_servers st" "nm_cache (snd (nm_pick_server st)) = nm_cache st"
  "nm_users (snd (nm_pick_server st)) = nm_users st" "nm_requests (snd (nm_pick_server st)) = nm_requests st"
  "nm_persist_path (snd (nm_pick_server st)) = nm_persist_path st"
  by (auto simp: nm_pick_server_def Let_def split: option.split)

lemma pick_wf: "nm_wf st \<Longrightarrow> nm_wf (snd (nm_pick_server st))"
  by (rule wf_cong [of st]) (simp_all add: pick_rest nm_wf_def cache_ok_def)

lemma pick_grants: "grants (snd (nm_pick_server st)) = grants st"
  by (rule grants_cong) (simp_all add: pick_rest)

lemma add_user_rest:
  "nm_files (snd (nm_add_user now st u)) = nm_files st" "nm_buckets (snd (nm_add_user now st u)) = nm_buckets st"
  "nm_servers (snd (nm_add_user now st u)) = nm_servers st" "nm_cache (snd (nm_add_user now st u)) = nm_cache st"
  "nm_requests (snd (nm_add_user now st u)) = nm_requests st" "nm_persist_path (snd (nm_add_user now st u)) = nm_persist_path st"
  by (simp_all add: nm_add_user_def split: option.split)

lemma add_user_wf: "nm_wf st \<Longrightarrow> nm_wf (snd (nm_add_user now st u))"
proof (rule wf_cong [of st], goal_cases)
  case 6
  then show ?case by (simp add: nm_add_user_def nm_wf_def split: option.split)
qed (simp_all add: add_user_rest nm_wf_def cache_ok_def)

lemma add_user_grants: "grants (snd (nm_add_user now st u)) = grants st"
  by (rule grants_cong) (simp_all add: add_user_rest)

lemma use_backup_wf:
  assumes "nm_wf st" and "nm_find_file st n = Some f" and "0 \<le> fe_backup f"
  shows "nm_wf (nm_modify_file st n use_backup)" and "grants (nm_modify_file st n use_backup) = grants st"
  using modify_wf [OF assms(1,2), of use_backup] modify_grants [OF nm_wf_inv [OF assms(1)] assms(2), of use_backup]
    found_good [OF assms(1,2)] assms(3) by (simp_all add: use_backup_def file_good_def)

lemma drop_backup_wf:
  assumes "nm_wf st"
  shows "nm_wf (nm_modify_file st n drop_backup_only) \<and> grants (nm_modify_file st n drop_backup_only) = grants st"
proof (cases "nm_find_file st n")
  case None
  then have "nm_modify_file st n drop_backup_only = st"
    by (auto simp: nm_modify_file_def nm_find_file_def split: option.splits if_splits)
  with assms show ?thesis by simp
next
  case (Some f)
  show ?thesis
    using modify_wf [OF assms Some, of drop_backup_only] modify_grants [OF nm_wf_inv [OF assms] Some, of drop_backup_only]
      found_good [OF assms Some] by (auto simp: drop_backup_only_def file_good_def)
qed

lemma set_backup_wf:
  assumes "nm_wf st" and "nm_find_file st n = Some f" and "0 \<le> b" "b < int (length (nm_servers st))" "b \<noteq> fe_ss f"
  shows "nm_wf (nm_modify_file st n (\<lambda>f. f\<lparr>fe_backup := b\<rparr>))" and "grants (nm_modify_file st n (\<lambda>f. f\<lparr>fe_backup := b\<rparr>)) = grants st"
  using modify_wf [OF assms(1,2), of "\<lambda>f. f\<lparr>fe_backup := b\<rparr>"]
    modify_grants [OF nm_wf_inv [OF assms(1)] assms(2), of "\<lambda>f. f\<lparr>fe_backup := b\<rparr>"]
    found_good [OF assms(1,2)] assms(3-5) by (simp_all add: file_good_def)

lemma metadata_wf:
  assumes "nm_wf st"
  shows "nm_wf (snd (nm_update_file_metadata st n w c m a u))"
    and "grants (snd (nm_update_file_metadata st n w c m a u)) = grants st"
proof -
  let ?g = "\<lambda>f. f\<lparr>fe_words := w, fe_chars := c, fe_modified := (if m \<noteq> 0 then m else fe_modified f),
                fe_last_access := (if a \<noteq> 0 then a else fe_last_access f),
                fe_last_user := (case u of
                    Some u \<Rightarrow> if u \<noteq> [] then buf NM_MAX_USER u else fe_last_user f
                  | None \<Rightarrow> fe_last_user f)\<rparr>"
  have "nm_wf (nm_modify_file st n ?g) \<and> grants (nm_modify_file st n ?g) = grants st" if f: "nm_find_file st n = Some f" for f
    using modify_wf [OF assms f, of ?g] modify_grants [OF nm_wf_inv [OF assms] f, of ?g] found_good [OF assms f]
    by (simp add: file_good_def)
  then show "nm_wf (snd (nm_update_file_metadata st n w c m a u))"
    "grants (snd (nm_update_file_metadata st n w c m a u)) = grants st"
    using assms by (auto simp: nm_update_file_metadata_def split: option.split)
qed

lemma checkpoint_wf:
  assumes "nm_wf st"
  shows "nm_wf (snd (nm_file_add_checkpoint st n t u ts))" and "grants (snd (nm_file_add_checkpoint st n t u ts)) = grants st"
proof -
  let ?g = "\<lambda>f. f\<lparr>fe_checkpoints := fe_checkpoints f @
               [\<lparr>ck_tag = buf NM_MAX_NAME t, ck_user = buf NM_MAX_USER u, ck_time = ts\<rparr>]\<rparr>"
  have "nm_wf (nm_modify_file st n ?g) \<and> grants (nm_modify_file st n ?g) = grants st"
    if f: "nm_find_file st n = Some f" "length (fe_checkpoints f) < NM_MAX_CHECKPOINTS" for f
    using modify_wf [OF assms f(1), of ?g] modify_grants [OF nm_wf_inv [OF assms] f(1), of ?g] found_good [OF assms f(1)] f(2)
    by (simp add: file_good_def)
  then show "nm_wf (snd (nm_file_add_checkpoint st n t u ts))" "grants (snd (nm_file_add_checkpoint st n t u ts)) = grants st"
    using assms by (auto simp: nm_file_add_checkpoint_def not_le split: option.split)
qed

section \<open>Access lists and requests\<close>

lemma acl_modify:
  assumes "nm_wf st" and "nm_find_file st n = Some e" and "f e = e\<lparr>fe_acl := a\<rparr>" and "acl_ok a"
  shows "nm_wf (nm_modify_file st n f)" and "grants (nm_modify_file st n f) = (grants st)(n \<mapsto> (fe_owner e, a))"
proof -
  have p: "fe_name (f e) = fe_name e" "fe_next (f e) = fe_next e" using assms(3) by simp_all
  show "nm_wf (nm_modify_file st n f)"
    by (rule modify_wf [where f = f, OF assms(1,2) p]) (use found_good [OF assms(1,2)] assms(3,4) in \<open>simp add: file_good_def\<close>)
  show "grants (nm_modify_file st n f) = (grants st)(n \<mapsto> (fe_owner e, a))"
    using assms(3) by (auto simp: fun_eq_iff grants_def nm_modify_file_props(2) [where f = f, OF nm_wf_inv [OF assms(1)] assms(2) p])
qed

lemma grants_same: "nm_find_file st n = Some e \<Longrightarrow> (grants st)(n \<mapsto> (fe_owner e, fe_acl e)) = grants st"
  by (auto simp: fun_eq_iff grants_def)

lemma grant_access_wf:
  assumes "nm_wf st" and "nm_find_file st n = Some e" and "length u < NM_MAX_USER"
  shows "nm_wf (snd (nm_grant_access st n u p)) \<and>
    (\<exists>a. grants (snd (nm_grant_access st n u p)) = (grants st)(n \<mapsto> (fe_owner e, a)) \<and> (fe_owner e = u \<longrightarrow> a = fe_acl e))"
proof -
  have ok: "acl_ok (fe_acl e)" using found_good(1) [OF assms(1,2)] by (simp add: file_good_def)
  consider (same) "snd (nm_grant_access st n u p) = st"
    | (upd) i where "fe_owner e \<noteq> u" "find_acl e u = Some i" "snd (nm_grant_access st n u p) = nm_modify_file st n
        (\<lambda>f. f\<lparr>fe_acl := (fe_acl f)[i := (fe_acl f ! i)\<lparr>acl_perm := acl_perm (fe_acl f ! i) OR p\<rparr>]\<rparr>)"
    | (new) "fe_owner e \<noteq> u" "find_acl e u = None" "length (fe_acl e) < NM_MAX_ACL" "snd (nm_grant_access st n u p) = nm_modify_file st n
        (\<lambda>f. f\<lparr>fe_acl := fe_acl f @ [\<lparr>acl_user = buf NM_MAX_USER u, acl_perm = p OR NM_PERM_READ\<rparr>]\<rparr>)"
    using assms(2)
    by (cases "fe_owner e = u"; cases "find_acl e u"; cases "NM_MAX_ACL \<le> length (fe_acl e)")
      (simp_all add: nm_grant_access_def)
  then show ?thesis
  proof cases
    case same
    then show ?thesis using assms(1) grants_same [OF assms(2)] by (metis)
  next
    case (upd i)
    have i: "i < length (fe_acl e)" "acl_user (fe_acl e ! i) = u"
      using find_index_SomeD [OF upd(2) [unfolded find_acl_def]] by auto
    have "(map acl_user (fe_acl e))[i := u] = map acl_user (fe_acl e)"
      using i by (intro list_update_same_conv [THEN iffD2]) simp_all
    then have "acl_ok ((fe_acl e)[i := (fe_acl e ! i)\<lparr>acl_perm := acl_perm (fe_acl e ! i) OR p\<rparr>])"
      using ok i by (simp add: acl_ok_def map_update)
    from acl_modify [OF assms(1,2) _ this] upd show ?thesis by auto
  next
    case new
    have "u \<notin> acl_user ` set (fe_acl e)" using new(2) by (auto simp: find_acl_def find_index_None_iff)
    then have "acl_ok (fe_acl e @ [\<lparr>acl_user = buf NM_MAX_USER u, acl_perm = p OR NM_PERM_READ\<rparr>])"
      using ok new(3) assms(3) by (simp add: acl_ok_def)
    from acl_modify [OF assms(1,2) _ this] new show ?thesis by auto
  qed
qed

lemma remove_access_wf:
  assumes "nm_wf st" and "nm_find_file st n = Some e"
  shows "nm_wf (snd (nm_remove_access st n u)) \<and>
    (\<exists>a. grants (snd (nm_remove_access st n u)) = (grants st)(n \<mapsto> (fe_owner e, a)))"
proof (cases "find_acl e u")
  case None
  then have "snd (nm_remove_access st n u) = st" using assms(2) by (simp add: nm_remove_access_def)
  then show ?thesis using assms(1) grants_same [OF assms(2)] by metis
next
  case (Some i)
  have ok: "distinct (map acl_user (fe_acl e))" "length (fe_acl e) \<le> NM_MAX_ACL"
    using found_good(1) [OF assms] by (simp_all add: file_good_def acl_ok_def)
  have i: "i < length (fe_acl e)" using find_index_SomeD [OF Some [unfolded find_acl_def]] by simp
  have "acl_ok (drop_swap i (fe_acl e))" using ok drop_swap_props(2,3) [OF ok(1) i] by (auto simp: acl_ok_def)
  from acl_modify [OF assms _ this] Some assms(2) show ?thesis by (auto simp: nm_remove_access_def)
qed

lemma requests_wf:
  "nm_wf st \<Longrightarrow> length qs \<le> NM_MAX_REQUESTS \<Longrightarrow> nm_wf (st\<lparr>nm_requests := qs\<rparr>)"
  "grants (st\<lparr>nm_requests := qs\<rparr>) = grants st"
  by (rule wf_cong [of st], simp_all add: nm_wf_def cache_ok_def) (rule grants_cong, simp_all)

lemma put_request_wf:
  assumes "nm_wf st" and "put_request st f r ow p = Some st'"
  shows "nm_wf st'" and "grants st' = grants st"
proof -
  obtain qs where "st' = st\<lparr>nm_requests := qs\<rparr>" "length qs \<le> NM_MAX_REQUESTS"
    using assms by (auto simp: put_request_def nm_wf_def split: option.splits if_splits)
  then show "nm_wf st'" "grants st' = grants st" using requests_wf assms(1) by simp_all
qed

lemma request_status_wf:
  "nm_wf st \<Longrightarrow> nm_wf (set_request_status st i s)" "grants (set_request_status st i s) = grants st"
  unfolding set_request_status_def by (rule requests_wf, simp_all add: nm_wf_def) (rule requests_wf)

section \<open>Adding and removing files\<close>

lemma file_good_strip [simp]: "file_good n (strip f) = file_good n f"
  by (simp add: file_good_def strip_def)

lemma grants_lookup: "grants st n = map_option (\<lambda>f. (fe_owner f, fe_acl f)) (nm_lookup st n)"
  by (simp add: grants_def nm_lookup_def option.map_comp comp_def strip_def)

lemma wf_files:
  assumes "nm_wf st" and "nm_inv st'" and "tables_only st' = tables_only st"
    and "\<And>f. f \<in> set (map strip (nm_files st')) \<Longrightarrow> file_good (length (nm_servers st)) f"
  shows "nm_wf st'"
proof -
  have eqs: "nm_servers st' = nm_servers st" "nm_cache st' = nm_cache st" "nm_users st' = nm_users st"
    "nm_requests st' = nm_requests st"
    using arg_cong [OF assms(3), of nm_servers] arg_cong [OF assms(3), of nm_cache] arg_cong [OF assms(3), of nm_users]
      arg_cong [OF assms(3), of nm_requests] by (simp_all add: tables_only_def)
  have "file_good (length (nm_servers st)) f" if "f \<in> set (nm_files st')" for f
    using assms(4) [of "strip f"] that by simp
  then show ?thesis using assms(1,2) eqs by (simp add: nm_wf_def servers_ok_def cache_ok_def)
qed

lemma add_file_wf:
  assumes "nm_wf st" and "length n < NM_MAX_NAME" and "nm_add_file st n ow s b t = Some (Ok x, st')"
    and "0 \<le> s" "s < int (length (nm_servers st))" "b < int (length (nm_servers st))" "0 \<le> b \<longrightarrow> b \<noteq> s"
  shows "nm_wf st'" and "grants st n = None" and "grants st' = (grants st)(n \<mapsto> (buf NM_MAX_USER ow, []))"
    and "nm_find_file st' n \<noteq> None"
proof -
  note inv = nm_wf_inv [OF assms(1)]
  obtain st1 where st1: "nm_lookup st n = None" "nm_add_file st n ow s b t = Some (Ok (), st1)" "nm_inv st1"
    "map strip (nm_files st1) = map strip (nm_files st) @ [new_file_entry n ow s b t]"
    "st1\<lparr>nm_files := [], nm_buckets := []\<rparr> = st\<lparr>nm_files := [], nm_buckets := []\<rparr>"
    by (cases rule: nm_add_file_cases [OF inv assms(2), of ow s b t]) (use assms(3) in auto)
  have eq: "st' = st1" using st1(2) assms(3) by simp
  have "map strip (nm_files st1) = map strip (nm_files st) @ [strip (new_file_entry n ow s b t)]" using st1(4) by simp
  note l = nm_lookup_upd [OF inv st1(3) this]
  show "nm_wf st'" unfolding eq
  proof (rule wf_files [OF assms(1) st1(3)])
    show "tables_only st1 = tables_only st" using st1(5) by (simp add: tables_only_def)
    fix f assume "f \<in> set (map strip (nm_files st1))"
    then consider "f \<in> strip ` set (nm_files st)" | "f = new_file_entry n ow s b t" unfolding st1(4) by auto
    then show "file_good (length (nm_servers st)) f"
    proof cases
      case 1
      then show ?thesis using assms(1) by (auto simp: nm_wf_def)
    next
      case 2
      then show ?thesis using assms(2,4-7) by (simp add: file_good_def new_file_entry_def acl_ok_def)
    qed
  qed
  show "grants st n = None" using st1(1) by (simp add: grants_lookup)
  show "grants st' = (grants st)(n \<mapsto> (buf NM_MAX_USER ow, []))"
    using assms(2) unfolding eq by (auto simp: fun_eq_iff grants_lookup l new_file_entry_def strip_def)
  then show "nm_find_file st' n \<noteq> None" by (auto simp: fun_eq_iff grants_def split: option.splits dest!: spec [of _ n])
qed

lemma remove_file_wf:
  assumes "nm_wf st" and "nm_remove_file st n = Some (r, st')"
  shows "nm_wf st'" and "grants st' = (grants st)(n := None)" and "nm_servers st' = nm_servers st"
    and "nm_persist_path st' = nm_persist_path st"
proof -
  note inv = nm_wf_inv [OF assms(1)]
  obtain r1 st1 where R: "nm_remove_file st n = Some (r1, st1)" "nm_inv st1" "nm_lookup st1 = (nm_lookup st)(n := None)"
    "st1\<lparr>nm_files := [], nm_buckets := []\<rparr> = st\<lparr>nm_files := [], nm_buckets := []\<rparr>"
    using nm_remove_file_result [OF inv, of n] by blast
  have eq: "st' = st1" using R(1) assms(2) by simp
  have t: "tables_only st1 = tables_only st" using R(4) by (simp add: tables_only_def)
  show "nm_wf st'" unfolding eq
  proof (rule wf_files [OF assms(1) R(2) t])
    fix f assume "f \<in> set (map strip (nm_files st1))"
    then have "nm_lookup st1 (fe_name f) = Some f" using nm_lookup_Some_iff [OF R(2)] by simp
    then have "nm_lookup st (fe_name f) = Some f" using R(3) by (simp split: if_splits)
    then have "f \<in> strip ` set (nm_files st)" using nm_lookup_Some_iff [OF inv] by simp
    then show "file_good (length (nm_servers st)) f" using assms(1) by (auto simp: nm_wf_def)
  qed
  show "grants st' = (grants st)(n := None)" unfolding eq by (auto simp: fun_eq_iff grants_lookup R(3))
  show "nm_servers st' = nm_servers st" unfolding eq using arg_cong [OF t, of nm_servers] by (simp add: tables_only_def)
  show "nm_persist_path st' = nm_persist_path st" unfolding eq using arg_cong [OF t, of nm_persist_path] by (simp add: tables_only_def)
qed

end
