(* ===== verification/NM_Steps.thy ===== *)
theory NM_Steps
  imports NM_Inv
begin

text \<open>
  The helpers of the name manager's handlers change neither the connections nor the active
  users nor anybody's rights, and they keep the invariants of the tables and of the
  replication queue: \<open>calm\<close>. Each helper is shown to be calm once; the handlers are composed
  of calm steps and one decisive operation.
\<close>

section \<open>Calm steps\<close>

text \<open>No two tasks of the queue ask for the same copy.\<close>

definition queue_ok :: "'w nm_context \<Rightarrow> bool" where
  "queue_ok ctx \<longleftrightarrow> sorted_wrt (\<lambda>a b. \<not> same_task a b) (items (nc_queue ctx))"

definition saves :: "'w nm_os \<Rightarrow> bool" where
  "saves os \<longleftrightarrow> (\<forall>w. no_save os w = SaveOk)"

text \<open>The state file holds the owner and the access list of every file; before the first save there is none.\<close>

definition durable :: "'w nm_context \<Rightarrow> bool" where
  "durable ctx \<longleftrightarrow> nm_persist_path (nc_state ctx) \<noteq> [] \<and>
     (case nc_disk ctx (nm_persist_path (nc_state ctx)) of
        None \<Rightarrow> grants (nc_state ctx) = Map.empty
      | Some content \<Rightarrow> \<exists>st. content = state_text st \<and> nm_wf st \<and> grants st = grants (nc_state ctx))"

lemma durable_cong:
  "durable a \<Longrightarrow> nc_disk b = nc_disk a \<Longrightarrow> nm_persist_path (nc_state b) = nm_persist_path (nc_state a) \<Longrightarrow>
    grants (nc_state b) = grants (nc_state a) \<Longrightarrow> durable b"
  unfolding durable_def by metis

lemma durable_save:
  assumes "saves os" and "nm_wf (nc_state ctx)" and "nm_persist_path (nc_state ctx) \<noteq> []"
  shows "durable (nm_save os ctx)"
  using assms by (auto simp: durable_def nm_save_def nm_state_save_def saves_def)

definition calm :: "'w nm_os \<Rightarrow> 'w nm_context \<Rightarrow> 'w nm_context \<Rightarrow> bool" where
  "calm os a b \<longleftrightarrow> nc_peers b = nc_peers a \<and> nc_users b = nc_users a \<and> (queue_ok a \<longrightarrow> queue_ok b) \<and>
     (nm_wf (nc_state a) \<longrightarrow> nm_wf (nc_state b) \<and> grants (nc_state b) = grants (nc_state a) \<and>
        length (nm_servers (nc_state b)) = length (nm_servers (nc_state a)) \<and>
        nm_persist_path (nc_state b) = nm_persist_path (nc_state a) \<and> (saves os \<and> durable a \<longrightarrow> durable b))"

lemma calm_refl [simp, intro]: "calm os a a"
  by (simp add: calm_def)

lemma calm_trans [trans]: "calm os a b \<Longrightarrow> calm os b c \<Longrightarrow> calm os a c"
  by (auto simp: calm_def)

lemma calm_state:
  assumes "nc_peers b = nc_peers a" "nc_users b = nc_users a" "nc_queue b = nc_queue a" "nc_state b = nc_state a"
    and "nc_disk b = nc_disk a"
  shows "calm os a b"
  using assms durable_cong [of a b] by (simp add: calm_def queue_ok_def)

lemma set_state_simps [simp]:
  "nc_state (set_state ctx st) = st" "nc_peers (set_state ctx st) = nc_peers ctx" "nc_users (set_state ctx st) = nc_users ctx"
  "nc_queue (set_state ctx st) = nc_queue ctx" "nc_world (set_state ctx st) = nc_world ctx" "nc_disk (set_state ctx st) = nc_disk ctx"
  "nc_tickets (set_state ctx st) = nc_tickets ctx"
  by (simp_all add: set_state_def)

lemma nm_save_simps [simp]:
  "nc_state (nm_save os ctx) = nc_state ctx" "nc_peers (nm_save os ctx) = nc_peers ctx" "nc_users (nm_save os ctx) = nc_users ctx"
  "nc_queue (nm_save os ctx) = nc_queue ctx" "nc_world (nm_save os ctx) = nc_world ctx" "nc_tickets (nm_save os ctx) = nc_tickets ctx"
  by (simp_all add: nm_save_def)

lemma calm_set_state:
  assumes "nm_wf (nc_state a) \<Longrightarrow> nm_wf st" "nm_wf (nc_state a) \<Longrightarrow> grants st = grants (nc_state a)"
    and "length (nm_servers st) = length (nm_servers (nc_state a))" and "nm_persist_path st = nm_persist_path (nc_state a)"
  shows "calm os a (set_state a st)"
  using assms durable_cong [of a "set_state a st"] by (simp add: calm_def queue_ok_def)

lemma calm_save: "calm os a b \<Longrightarrow> calm os a (nm_save os b)"
  using durable_save [of os b] by (auto simp: calm_def queue_ok_def durable_def [of a])

lemma forward_simps [simp]:
  "nc_state (snd (forward_command os ctx ss p)) = nc_state ctx" "nc_peers (snd (forward_command os ctx ss p)) = nc_peers ctx"
  "nc_users (snd (forward_command os ctx ss p)) = nc_users ctx" "nc_queue (snd (forward_command os ctx ss p)) = nc_queue ctx"
  "nc_tickets (snd (forward_command os ctx ss p)) = nc_tickets ctx" "nc_disk (snd (forward_command os ctx ss p)) = nc_disk ctx"
  by (simp_all add: forward_command_def split: option.split prod.split)

lemma forward_keeps:
  assumes "forward_command os ctx ss p = (r, ctx')"
  shows "nc_state ctx' = nc_state ctx" "nc_peers ctx' = nc_peers ctx" "nc_users ctx' = nc_users ctx"
    "nc_queue ctx' = nc_queue ctx" "calm os ctx ctx'" "nc_disk ctx' = nc_disk ctx"
proof -
  have "ctx' = snd (forward_command os ctx ss p)" using assms by simp
  then show *: "nc_state ctx' = nc_state ctx" "nc_peers ctx' = nc_peers ctx" "nc_users ctx' = nc_users ctx"
    "nc_queue ctx' = nc_queue ctx" "nc_disk ctx' = nc_disk ctx" by simp_all
  then show "calm os ctx ctx'" by (intro calm_state)
qed

lemma forward_all:
  "forward_command os ctx ss p = (r, ctx') \<Longrightarrow> nc_state ctx' = nc_state ctx \<and> nc_peers ctx' = nc_peers ctx \<and>
     nc_users ctx' = nc_users ctx \<and> nc_queue ctx' = nc_queue ctx \<and> nc_disk ctx' = nc_disk ctx"
  using forward_keeps(1-4,6) [of os ctx ss p r ctx'] by simp

lemma calm_mark_down: "calm os a b \<Longrightarrow> calm os a (mark_down b i)"
  unfolding mark_down_def
  by (rule calm_trans) (auto intro: calm_set_state mark_down_wf simp: mark_down_grants mark_down_rest)

lemma issue_keeps:
  assumes "issue_ticket os ctx ss i f u op = (r, ctx')"
  shows "nc_state ctx' = nc_state ctx" "nc_peers ctx' = nc_peers ctx" "nc_users ctx' = nc_users ctx"
    "nc_queue ctx' = nc_queue ctx" "calm os ctx ctx'" "nc_disk ctx' = nc_disk ctx"
proof -
  have "nc_state ctx' = nc_state ctx \<and> nc_peers ctx' = nc_peers ctx \<and> nc_users ctx' = nc_users ctx \<and>
      nc_queue ctx' = nc_queue ctx \<and> nc_disk ctx' = nc_disk ctx"
    using assms
    by (auto simp: issue_ticket_def Let_def ticket_prune_def split: prod.splits option.splits if_splits
        dest!: forward_all)
  then show "nc_state ctx' = nc_state ctx" "nc_peers ctx' = nc_peers ctx" "nc_users ctx' = nc_users ctx"
    "nc_queue ctx' = nc_queue ctx" "calm os ctx ctx'" "nc_disk ctx' = nc_disk ctx" by (auto intro: calm_state)
qed

section \<open>Choosing a server\<close>

lemma modify_servers [simp]:
  "nm_servers (nm_modify_file st n f) = nm_servers st" "nm_persist_path (nm_modify_file st n f) = nm_persist_path st"
  by (rule modify_rest)+

lemma calm_drop_backup: "calm os ctx (drop_file_backup os ctx n)"
  unfolding drop_file_backup_def
  by (intro calm_save calm_set_state) (simp_all add: drop_backup_wf)

lemma select_calm:
  assumes "nm_find_file (nc_state ctx) n = Some file" and "select_storage_server os ctx file = (r, ctx')"
  shows "calm os ctx ctx'"
proof (cases "nm_wf (nc_state ctx)")
  case True
  then have n: "fe_name file = n" using found_good(2) [OF True assms(1)] by simp
  have "calm os ctx (nm_save os (set_state ctx (nm_modify_file (nc_state ctx) n use_backup)))" if "0 \<le> fe_backup file"
    by (intro calm_save calm_set_state) (simp_all add: use_backup_wf [OF True assms(1) that])
  then show ?thesis
    using assms(2) n calm_drop_backup by (auto simp: select_storage_server_def split: if_splits)
next
  case False
  then show ?thesis
    using assms(2) by (auto simp: calm_def select_storage_server_def drop_file_backup_def queue_ok_def split: if_splits)
qed

lemma available_iff: "server_is_available (nm_get_server st i) \<longleftrightarrow>
    0 \<le> i \<and> nat i < length (nm_servers st) \<and> server_up (nm_servers st ! nat i)"
  by (auto simp: server_is_available_def nm_get_server_def server_up_def)

text \<open>The chosen server is up, and it is the file's primary afterwards.\<close>

lemma select_up:
  assumes "nm_wf (nc_state ctx)" "nm_find_file (nc_state ctx) n = Some file"
    and "select_storage_server os ctx file = (Some i, ctx')"
  shows "server_is_available (nm_get_server (nc_state ctx') i)"
    and "\<exists>f'. nm_find_file (nc_state ctx') n = Some f' \<and> fe_ss f' = i \<and> fe_owner f' = fe_owner file \<and> fe_acl f' = fe_acl file"
    and "i = fe_ss file \<or> i = fe_backup file" and "nm_servers (nc_state ctx') = nm_servers (nc_state ctx)"
proof -
  have n: "fe_name file = n" by (rule found_good(2) [OF assms(1,2)])
  note P = nm_modify_file_props(2) [OF nm_wf_inv [OF assms(1)] assms(2), of use_backup n]
  have "server_is_available (nm_get_server (nc_state ctx') i) \<and>
    (\<exists>f'. nm_find_file (nc_state ctx') n = Some f' \<and> fe_ss f' = i \<and> fe_owner f' = fe_owner file \<and> fe_acl f' = fe_acl file) \<and>
    (i = fe_ss file \<or> i = fe_backup file) \<and> nm_servers (nc_state ctx') = nm_servers (nc_state ctx)"
    using assms(2,3) n P by (auto simp: select_storage_server_def available_iff use_backup_def split: if_splits)
  then show "server_is_available (nm_get_server (nc_state ctx') i)"
    and "\<exists>f'. nm_find_file (nc_state ctx') n = Some f' \<and> fe_ss f' = i \<and> fe_owner f' = fe_owner file \<and> fe_acl f' = fe_acl file"
    and "i = fe_ss file \<or> i = fe_backup file" and "nm_servers (nc_state ctx') = nm_servers (nc_state ctx)" by blast+
qed

text \<open>A second selection of the same file finds the same server and changes nothing.\<close>

lemma select_again:
  assumes "nm_wf (nc_state ctx)" "nm_find_file (nc_state ctx) n = Some file"
    and "select_storage_server os ctx file = (Some i, ctx')" and "nm_find_file (nc_state ctx') n = Some file'"
  shows "select_storage_server os ctx' file' = (Some i, ctx')"
  using select_up(1,2) [OF assms(1-3)] assms(4) available_iff
  by (auto simp: select_storage_server_def)

lemma obtain_calm:
  "length f < NM_MAX_NAME \<Longrightarrow> obtain_ticket_loop os k ctx f u p op = (r, ctx') \<Longrightarrow> calm os ctx ctx'"
proof (induction k arbitrary: ctx)
  case 0
  then show ?case by simp
next
  case (Suc k)
  show ?case
  proof (cases "nm_find_file (nc_state ctx) f")
    case None
    with Suc.prems show ?thesis by simp
  next
    case (Some e)
    note found = this
    obtain s ctx1 where sel: "select_storage_server os ctx e = (s, ctx1)" by fastforce
    note c1 = select_calm [OF Some sel]
    show ?thesis
    proof (cases "file_has_access e u p \<and> s \<noteq> None")
      case False
      then show ?thesis using Suc.prems(2) Some sel c1 by (auto split: if_splits)
    next
      case True
      then obtain i where i: "s = Some i" by blast
      obtain t ctx2 where iss: "issue_ticket os ctx1 (nm_servers (nc_state ctx1) ! nat i) i f u op = (t, ctx2)" by fastforce
      note c2 = calm_trans [OF c1 issue_keeps(5) [OF iss]]
      show ?thesis
      proof (cases t)
        case None
        then have "obtain_ticket_loop os k (mark_down ctx2 i) f u p op = (r, ctx')"
          using Suc.prems(2) Some sel iss True i by simp
        from Suc.IH [OF Suc.prems(1) this] calm_mark_down [OF c2] show ?thesis by (rule calm_trans [rotated])
      next
        case (Some token)
        then have "ctx' = set_state ctx2 (nm_cache_put (no_now os) (nc_state ctx2) f i)"
          using Suc.prems(2) found sel iss True i by simp
        moreover have "calm os ctx2 (set_state ctx2 (nm_cache_put (no_now os) (nc_state ctx2) f i))"
          by (rule calm_set_state) (simp_all add: cache_put_wf cache_put_grants cache_put_rest Suc.prems(1))
        ultimately show ?thesis using calm_trans [OF c2] by simp
      qed
    qed
  qed
qed

end
