(* ===== verification/NM_Authority.thy ===== *)
theory NM_Authority
  imports NM_Steps
begin

text \<open>
  What the request of a client can change. Every handler keeps the invariants; the rights on a
  file change only by the request of its owner, or with the file when a user with write
  access deletes it.
\<close>

section \<open>Queueing\<close>

lemma sorted_wrt_snoc: "sorted_wrt P (xs @ [x]) \<longleftrightarrow> sorted_wrt P xs \<and> (\<forall>y \<in> set xs. P y x)"
  by (simp add: sorted_wrt_append)

lemma schedule_calm:
  assumes "schedule_replication os ctx f ow p b m = (r, ctx')"
  shows "calm os ctx ctx'" and "nc_state ctx' = nc_state ctx"
proof -
  have "nc_state ctx' = nc_state ctx \<and> nc_peers ctx' = nc_peers ctx \<and> nc_users ctx' = nc_users ctx \<and>
      (queue_ok ctx \<longrightarrow> queue_ok ctx') \<and> nc_disk ctx' = nc_disk ctx"
    using assms
    by (auto simp: schedule_replication_def Let_def queue_ok_def sorted_wrt_snoc
        split: if_splits option.splits dest!: arr.push_view)
  then show "calm os ctx ctx'" "nc_state ctx' = nc_state ctx" using durable_cong [of ctx ctx'] by (auto simp: calm_def)
qed

lemma try_assign_calm: "calm os ctx (try_assign_backup os ctx f)" "nc_state (try_assign_backup os ctx f) = nc_state ctx"
  using schedule_calm [OF surjective_pairing] by (auto simp: try_assign_backup_def split: option.split)

section \<open>Requests that change no rights\<close>

lemma finish_fst: "fst (snd (finish c r)) = fst r"
  by (simp add: finish_def split: prod.split)

lemma obtain_calm_file:
  "json_get_string json ''file'' NM_MAX_NAME = Some f \<Longrightarrow> obtain_ticket_for_file os ctx f u p op = (r, ctx') \<Longrightarrow> calm os ctx ctx'"
  using json_get_string_short obtain_calm unfolding obtain_ticket_for_file_def by blast

lemma lookup_calm: "calm os ctx (fst (handle_lookup_common os ctx u json op p s))"
proof (cases "json_get_string json ''file'' NM_MAX_NAME")
  case (Some f)
  obtain r ctx1 where o: "obtain_ticket_for_file os ctx f u p op = (r, ctx1)" by fastforce
  from obtain_calm_file [OF Some this] Some o show ?thesis
    by (auto simp: handle_lookup_common_def Let_def split: sum.split)
qed (simp add: handle_lookup_common_def)

lemma fetch_keeps:
  "ss_fetch_content os ctx ss f u t = (r, ctx') \<Longrightarrow> calm os ctx ctx'"
  by (auto simp: ss_fetch_content_def Let_def split: option.splits prod.splits if_splits intro!: calm_state)

lemma exec_keeps: "run_exec_commands os ctx script = (r, ctx') \<Longrightarrow> calm os ctx ctx'"
  by (auto simp: run_exec_commands_def split: prod.splits intro!: calm_state)

lemma exec_calm: "calm os ctx (fst (handle_client_exec os ctx u json))"
proof (cases "json_get_string json ''file'' NM_MAX_NAME")
  case (Some f)
  obtain r ctx1 where o: "obtain_ticket_for_file os ctx f u NM_PERM_READ ''READ'' = (r, ctx1)" by fastforce
  note c1 = obtain_calm_file [OF Some o]
  show ?thesis
  proof (cases r)
    case (Inl x)
    with Some o c1 show ?thesis by (simp add: handle_client_exec_def)
  next
    case (Inr y)
    obtain token ss where y: "y = (token, ss)" by fastforce
    obtain content ctx2 where g: "ss_fetch_content os ctx1 ss f u token = (content, ctx2)" by fastforce
    note c2 = calm_trans [OF c1 fetch_keeps [OF g]]
    show ?thesis
    proof (cases content)
      case None
      with Some o Inr y g c2 show ?thesis by (simp add: handle_client_exec_def)
    next
      case (Some script)
      obtain out ctx3 where e: "run_exec_commands os ctx2 script = (out, ctx3)" by fastforce
      have "fst (handle_client_exec os ctx u json) = ctx3"
        using \<open>json_get_string json ''file'' NM_MAX_NAME = Some f\<close> Some o Inr y g e
        by (simp add: handle_client_exec_def split: option.split)
      then show ?thesis using calm_trans [OF c2 exec_keeps [OF e]] by simp
    qed
  qed
qed (simp add: handle_client_exec_def)

lemma mirror_calm: "calm os ctx (mirror os ctx p b payload)"
  by (auto simp: mirror_def split: option.split intro!: calm_state)

lemma on_primary_calm:
  assumes "\<And>ctx1 t. nc_state ctx1 = nc_state ctx \<Longrightarrow> calm os ctx1 (fst (k ctx1 t))"
  shows "calm os ctx (fst (on_primary os ctx f payload failed k))"
proof -
  have "calm os ctx (fst (k ctx1 t))" if "forward_command os ctx p t = (r, ctx1)" for p t r ctx1
    using forward_keeps(1,5) [OF that] assms calm_trans by blast
  then show ?thesis
    by (auto simp: on_primary_def split: option.splits sum.splits prod.splits dest: forward_keeps(5))
qed

lemma checkpoint_calm: "calm os ctx (fst (handle_client_checkpoint os ctx u json))"
proof -
  have "calm os ctx1 (mirror os (nm_save os (set_state ctx1 st)) p b payload)"
    if "nm_file_add_checkpoint (nc_state ctx) n t u ts = (r, st)" "nc_state ctx1 = nc_state ctx"
    for ctx1 :: "'a nm_context" and st p b payload n t ts r
  proof -
    have st: "st = snd (nm_file_add_checkpoint (nc_state ctx1) n t u ts)" using that by simp
    have "length (nm_servers st) = length (nm_servers (nc_state ctx1))" "nm_persist_path st = nm_persist_path (nc_state ctx1)"
      unfolding st by (auto simp: nm_file_add_checkpoint_def split: option.split)
    then have "calm os ctx1 (nm_save os (set_state ctx1 st))"
      unfolding st by (intro calm_save calm_set_state) (simp_all add: checkpoint_wf)
    then show ?thesis using mirror_calm calm_trans by blast
  qed
  moreover have "calm os ctx1 (set_state ctx1 st)"
    if "nm_file_add_checkpoint (nc_state ctx) n t u ts = (Fail e, st)" "nc_state ctx1 = nc_state ctx"
    for ctx1 :: "'a nm_context" and st n t ts e
    using that [symmetric] by (auto simp: nm_file_add_checkpoint_def set_state_def split: option.splits if_splits)
  ultimately show ?thesis
    by (auto simp: handle_client_checkpoint_def split: sum.split option.split prod.split res.split
        intro!: on_primary_calm)
qed

lemma revert_calm: "calm os ctx (fst (handle_client_revert os ctx u json))"
  by (auto simp: handle_client_revert_def mirror_calm split: sum.split intro!: on_primary_calm)

lemma forward_available_keeps:
  "forward_to_available_server os ctx p b payload = (r, ctx') \<Longrightarrow> calm os ctx ctx'"
  by (auto simp: forward_to_available_server_def Let_def split: option.splits prod.splits if_splits
      dest!: forward_keeps(5) intro: calm_trans)

lemma viewcheckpoint_calm: "calm os ctx (fst (handle_client_viewcheckpoint os ctx u json))"
  by (auto simp: handle_client_viewcheckpoint_def split: sum.split option.split prod.split dest!: forward_available_keeps)

lemma undo_calm: "calm os ctx (fst (snd (handle_client_undo os ctx c u json)))"
proof -
  have "calm os ctx ctx2" if "nm_find_file (nc_state ctx) n = Some e" "select_storage_server os ctx e = (s, ctx1)"
    "forward_command os ctx1 ss p = (r, ctx2)" for n e s ctx1 ss p r ctx2
    using select_calm [OF that(1,2)] forward_keeps(5) [OF that(3)] calm_trans by blast
  then show ?thesis
    by (auto simp: handle_client_undo_def Let_def finish_fst split: option.split prod.split
        intro!: calm_mark_down dest: select_calm)
qed

lemma reqaccess_calm: "calm os ctx (fst (handle_client_reqaccess os ctx u json))"
proof -
  have "calm os ctx (nm_save os (set_state ctx st))" if "put_request (nc_state ctx) f r ow p = Some st" for f r ow p st
  proof (intro calm_save calm_set_state)
    show "length (nm_servers st) = length (nm_servers (nc_state ctx))" "nm_persist_path st = nm_persist_path (nc_state ctx)"
      using that by (auto simp: put_request_def split: option.splits if_splits)
  qed (use put_request_wf [OF _ that] in simp_all)
  then show ?thesis by (auto simp: handle_client_reqaccess_def Let_def split: option.split)
qed

section \<open>Requests that change rights\<close>

definition may_write :: "file_acl_entry list \<Rightarrow> string \<Rightarrow> bool" where
  "may_write acl u \<longleftrightarrow> (case acl_rights acl u of None \<Rightarrow> False | Some q \<Rightarrow> q AND NM_PERM_WRITE = NM_PERM_WRITE)"

definition rights_step :: "string \<Rightarrow> 'w nm_context \<Rightarrow> 'w nm_context \<Rightarrow> bool" where
  "rights_step u a b \<longleftrightarrow> nc_peers b = nc_peers a \<and> nc_users b = nc_users a \<and> (queue_ok a \<longrightarrow> queue_ok b) \<and>
     (nm_wf (nc_state a) \<longrightarrow> nm_wf (nc_state b) \<and> length (nm_servers (nc_state b)) = length (nm_servers (nc_state a)) \<and>
        nm_persist_path (nc_state b) = nm_persist_path (nc_state a) \<and>
        (\<forall>n ow acl. grants (nc_state a) n = Some (ow, acl) \<and> ow \<noteq> u \<longrightarrow>
           grants (nc_state b) n = Some (ow, acl) \<or> grants (nc_state b) n = None \<and> may_write acl u))"

text \<open>A whole request: such a step, and what it changes is in the state file.\<close>

definition acts :: "'w nm_os \<Rightarrow> string \<Rightarrow> 'w nm_context \<Rightarrow> 'w nm_context \<Rightarrow> bool" where
  "acts os u a b \<longleftrightarrow> rights_step u a b \<and> (nm_wf (nc_state a) \<and> saves os \<and> durable a \<longrightarrow> durable b)"

lemmas acts_defs = acts_def rights_step_def

lemma calm_acts: "calm os a b \<Longrightarrow> acts os u a b"
  by (simp add: calm_def acts_defs)

lemma calm_then_acts: "calm os a b \<Longrightarrow> acts os u b c \<Longrightarrow> acts os u a c"
  by (simp add: calm_def acts_defs)

text \<open>The decisive operation on the state, then perhaps steps that are calm, then a save.\<close>

lemma rights_stepI:
  assumes "nm_wf (nc_state a) \<Longrightarrow> nm_wf st" "nm_wf (nc_state a) \<Longrightarrow> length (nm_servers st) = length (nm_servers (nc_state a))"
    and "nm_wf (nc_state a) \<Longrightarrow> nm_persist_path st = nm_persist_path (nc_state a)"
    and "\<And>n ow acl. nm_wf (nc_state a) \<Longrightarrow> grants (nc_state a) n = Some (ow, acl) \<Longrightarrow> ow \<noteq> u \<Longrightarrow>
      grants st n = Some (ow, acl) \<or> grants st n = None \<and> may_write acl u"
  shows "rights_step u a (set_state a st)"
  using assms by (auto simp: rights_step_def queue_ok_def)

lemma acts_save:
  assumes "rights_step u a b" and "calm os b c"
  shows "acts os u a (nm_save os c)"
  using assms durable_save [of os c] by (auto simp: acts_defs calm_def queue_ok_def durable_def [of a])

lemmas acts_state = rights_stepI [THEN acts_save, OF _ _ _ _ calm_refl]

lemma access_servers:
  "nm_servers (snd (nm_grant_access st n u p)) = nm_servers st" "nm_servers (snd (nm_remove_access st n u)) = nm_servers st"
  "nm_persist_path (snd (nm_grant_access st n u p)) = nm_persist_path st"
  "nm_persist_path (snd (nm_remove_access st n u)) = nm_persist_path st"
  by (auto simp: nm_grant_access_def nm_remove_access_def split: option.split)

lemma owned_grants:
  assumes "nm_find_file st n = Some e" and "fe_owner e = u" and "g = (grants st)(n \<mapsto> (fe_owner e, a))"
    and "grants st m = Some (ow, acl)" "ow \<noteq> u"
  shows "g m = Some (ow, acl)"
  using assms by (auto simp: grants_def)

lemma grant_acts:
  assumes "nm_find_file (nc_state ctx) n = Some e" "fe_owner e = u" "length t < NM_MAX_USER"
    and "nm_grant_access (nc_state ctx) n t p = (r, st)"
  shows "acts os u ctx (nm_save os (set_state ctx (set_request_status st i s)))" and "acts os u ctx (nm_save os (set_state ctx st))"
    and "r = Fail x \<Longrightarrow> acts os u ctx (set_state ctx st)"
proof -
  have st: "st = snd (nm_grant_access (nc_state ctx) n t p)" using assms(4) by simp
  have wf: "nm_wf st" "\<exists>a. grants st = (grants (nc_state ctx))(n \<mapsto> (fe_owner e, a))" if "nm_wf (nc_state ctx)"
    using grant_access_wf [OF that assms(1,3)] st by blast+
  have g: "grants st m = Some (ow, acl)" if "nm_wf (nc_state ctx)" "grants (nc_state ctx) m = Some (ow, acl)" "ow \<noteq> u" for m ow acl
    using wf(2) [OF that(1)] owned_grants [OF assms(1,2) _ that(2,3)] by metis
  have sv: "nm_servers st = nm_servers (nc_state ctx)" "nm_persist_path st = nm_persist_path (nc_state ctx)"
    using st by (simp_all add: access_servers)
  show "acts os u ctx (nm_save os (set_state ctx st))" using wf(1) g sv by (intro acts_state) simp_all
  show "acts os u ctx (set_state ctx st)" if "r = Fail x"
    using assms(4) that [symmetric] by (auto simp: nm_grant_access_def set_state_def calm_acts split: option.splits if_splits)
  have "nm_servers (set_request_status st i s) = nm_servers st" "nm_persist_path (set_request_status st i s) = nm_persist_path st" by (simp_all add: set_request_status_def)
  then show "acts os u ctx (nm_save os (set_state ctx (set_request_status st i s)))"
    using wf(1) g sv by (intro acts_state) (simp_all add: request_status_wf)
qed

lemma addaccess_acts: "acts os u ctx (fst (handle_client_addaccess os ctx u json))"
  by (auto simp: handle_client_addaccess_def Let_def split: option.split res.split prod.split
      intro: grant_acts calm_acts dest: json_get_string_short)

lemma handlereq_acts: "acts os u ctx (fst (handle_client_handlereq os ctx u json))"
proof -
  have "calm os ctx (nm_save os (set_state ctx (set_request_status (nc_state ctx) i s)))" for i s
    by (intro calm_save calm_set_state) (simp_all add: request_status_wf, simp_all add: set_request_status_def)
  then show ?thesis
    by (auto simp: handle_client_handlereq_def Let_def split: option.split res.split prod.split
        intro: grant_acts calm_acts dest: json_get_string_short)
qed

lemma removeaccess_acts: "acts os u ctx (fst (handle_client_removeaccess os ctx u json))"
proof -
  have "acts os u ctx (nm_save os (set_state ctx (snd (nm_remove_access (nc_state ctx) n t))))"
    if e: "nm_find_file (nc_state ctx) n = Some e" "fe_owner e = u" for n t e
  proof (rule acts_state)
    fix m ow acl
    assume wf: "nm_wf (nc_state ctx)" and g: "grants (nc_state ctx) m = Some (ow, acl)" "ow \<noteq> u"
    obtain a where "grants (snd (nm_remove_access (nc_state ctx) n t)) = (grants (nc_state ctx))(n \<mapsto> (fe_owner e, a))"
      using remove_access_wf [OF wf e(1)] by blast
    from owned_grants [OF e this g]
    show "grants (snd (nm_remove_access (nc_state ctx) n t)) m = Some (ow, acl) \<or>
        grants (snd (nm_remove_access (nc_state ctx) n t)) m = None \<and> may_write acl u" by simp
  qed (use remove_access_wf [OF _ e(1)] in \<open>simp_all add: access_servers\<close>)
  then show ?thesis by (auto simp: handle_client_removeaccess_def split: option.split intro: calm_acts)
qed

section \<open>Creating and deleting\<close>

lemma create_backup_loop_props:
  assumes "create_backup_loop os ctx s payload is = (b, ctx')"
  shows "nc_state ctx' = nc_state ctx" and "calm os ctx ctx'"
    and "b < int (length (nm_servers (nc_state ctx)))" and "0 \<le> b \<longrightarrow> b \<noteq> s"
proof -
  have "nc_state ctx' = nc_state ctx \<and> calm os ctx ctx' \<and> b < int (length (nm_servers (nc_state ctx))) \<and> (0 \<le> b \<longrightarrow> b \<noteq> s)"
    using assms
  proof (induction "is" arbitrary: ctx)
    case (Cons i "is")
    obtain r ctx1 where fw: "forward_command os ctx (nm_servers (nc_state ctx) ! i) payload = (r, ctx1)" by fastforce
    note F = forward_keeps(1,5) [OF fw]
    show ?case
    proof (cases "int i = s \<or> \<not> server_is_available (nm_get_server (nc_state ctx) (int i))")
      case True
      then show ?thesis using Cons by simp
    next
      case False
      then have i: "i < length (nm_servers (nc_state ctx))" by (simp add: available_iff)
      show ?thesis
      proof (cases "\<exists>resp. r = Some resp \<and> status_ok resp")
        case True
        then show ?thesis using Cons.prems False fw F i by auto
      next
        case bad: False
        then have "create_backup_loop os ctx1 s payload is = (b, ctx')"
          using Cons.prems False fw by (auto split: option.splits if_splits)
        from Cons.IH [OF this] F calm_trans show ?thesis by auto
      qed
    qed
  qed auto
  then show "nc_state ctx' = nc_state ctx" and "calm os ctx ctx'"
    and "b < int (length (nm_servers (nc_state ctx)))" and "0 \<le> b \<longrightarrow> b \<noteq> s" by blast+
qed

lemma record_file_acts:
  assumes "length n < NM_MAX_NAME" "length u < NM_MAX_USER"
    and "0 \<le> s" "s < int (length (nm_servers (nc_state ctx)))" "b < int (length (nm_servers (nc_state ctx)))" "0 \<le> b \<longrightarrow> b \<noteq> s"
  shows "acts os u ctx (fst (record_file os ctx n u s b))"
proof (cases "\<exists>x st. nm_add_file (nc_state ctx) n u s b (no_now os) = Some (Ok x, st)")
  case False
  then show ?thesis by (auto simp: record_file_def split: option.split res.split intro: calm_acts)
next
  case True
  then obtain x st where add: "nm_add_file (nc_state ctx) n u s b (no_now os) = Some (Ok x, st)" by blast
  let ?st1 = "snd (nm_grant_access st n u (NM_PERM_WRITE OR NM_PERM_READ))"
  let ?st2 = "nm_cache_put (no_now os) ?st1 n s"
  have run: "fst (record_file os ctx n u s b) = nm_save os (set_state ctx ?st2)" using add by (simp add: record_file_def Let_def)
  show ?thesis unfolding run
  proof (rule acts_state)
    assume wf: "nm_wf (nc_state ctx)"
    note A = add_file_wf [OF wf assms(1) add assms(3-6)]
    have "grants st n = Some (u, [])" using A(3) assms(2) by simp
    then obtain e where e: "nm_find_file st n = Some e" "fe_owner e = u" "fe_acl e = []" by (auto simp: grants_def)
    have st1: "?st1 = st" using e by (simp add: nm_grant_access_def)
    show "nm_wf ?st2" using cache_put_wf [OF A(1) assms(1)] st1 by simp
    have "st\<lparr>nm_files := [], nm_buckets := []\<rparr> = (nc_state ctx)\<lparr>nm_files := [], nm_buckets := []\<rparr>"
      using nm_add_file_result [OF nm_wf_inv [OF wf] assms(1), of u s b "no_now os"] add by auto
    from arg_cong [OF this, of nm_servers] arg_cong [OF this, of nm_persist_path]
    have "nm_servers st = nm_servers (nc_state ctx)" "nm_persist_path st = nm_persist_path (nc_state ctx)" by simp_all
    then show "length (nm_servers ?st2) = length (nm_servers (nc_state ctx))" "nm_persist_path ?st2 = nm_persist_path (nc_state ctx)"
      by (simp_all add: cache_put_rest st1)
    fix m ow acl
    assume "grants (nc_state ctx) m = Some (ow, acl)" "ow \<noteq> u"
    moreover from this A(2) have "m \<noteq> n" by auto
    ultimately show "grants ?st2 m = Some (ow, acl) \<or> grants ?st2 m = None \<and> may_write acl u"
      by (simp add: cache_put_grants st1 A(3))
  qed
qed

lemma create_acts:
  assumes "length u < NM_MAX_USER"
  shows "acts os u ctx (fst (handle_client_create os ctx u json))"
proof (cases "json_get_string json ''file'' NM_MAX_NAME")
  case (Some n)
  obtain p st where pick: "nm_pick_server (nc_state ctx) = (p, st)" by fastforce
  let ?ctx1 = "set_state ctx st"
  have c1: "calm os ctx ?ctx1" using pick_wf [of "nc_state ctx"] pick_grants [of "nc_state ctx"] pick_rest(3,7) [of "nc_state ctx"] pick
    by (intro calm_set_state) simp_all
  have "acts os u ctx (fst (record_file os ctx3 n u (int i) b))"
    if "p = Some i" "forward_command os ?ctx1 ss payload = (r, ctx2)"
      "create_backup_loop os ctx2 (int i) payload2 js = (b, ctx3)" for i ss payload r ctx2 payload2 js b ctx3
  proof -
    note F = forward_keeps [OF that(2)] and B = create_backup_loop_props [OF that(3)]
    have "i < length (nm_servers (nc_state ctx))"
      using pick_server_up [of "nc_state ctx"] pick that(1) by (auto simp: nm_get_server_def split: if_splits)
    moreover have "nm_servers (nc_state ctx3) = nm_servers (nc_state ctx)"
      using B(1) F(1) pick_rest(3) [of "nc_state ctx"] pick by simp
    ultimately have "acts os u ctx3 (fst (record_file os ctx3 n u (int i) b))"
      using B(1,3,4) json_get_string_short [OF Some] assms by (intro record_file_acts) simp_all
    with calm_trans [OF calm_trans [OF c1 F(5)] B(2)] show ?thesis by (rule calm_then_acts)
  qed
  note rec = this
  have "calm os ctx (mark_down ctx2 i)" if "forward_command os ?ctx1 ss payload = (r, ctx2)" for ss payload r ctx2 i
    using calm_mark_down [OF calm_trans [OF c1 forward_keeps(5) [OF that]]] .
  moreover have "calm os ctx ctx2" if "forward_command os ?ctx1 ss payload = (r, ctx2)" for ss payload r ctx2
    using calm_trans [OF c1 forward_keeps(5) [OF that]] .
  ultimately show ?thesis
    using c1 pick rec by (auto simp: handle_client_create_def Some Let_def split: option.split prod.split intro: calm_acts)
qed (simp add: handle_client_create_def calm_acts)

lemma has_access_iff:
  "file_has_access f u p \<longleftrightarrow> u \<noteq> [] \<and> (\<exists>q. file_rights f u = Some q \<and> q AND p = p)"
  by (cases rule: find_acl_cases [of f u]) (auto simp: file_has_access_def file_rights_def)

lemma finish_delete_acts:
  assumes "nm_find_file (nc_state ctx) n = Some e" "file_has_access e u NM_PERM_WRITE"
  shows "acts os u ctx (finish_delete os ctx n payload)"
proof -
  let ?b = "fe_backup e"
  obtain ctx1 where ctx1: "ctx1 = (case nm_remove_file (nc_state ctx) n of Some (_, st) \<Rightarrow> set_state ctx st | None \<Rightarrow> ctx)" by blast
  have "\<exists>ctx2. calm os ctx1 ctx2 \<and> finish_delete os ctx n payload = nm_save os ctx2"
    using assms(1) unfolding finish_delete_def Let_def ctx1 [symmetric]
    by (intro exI conjI, rule_tac [2] refl) (auto split: option.split intro!: calm_state)
  moreover have "rights_step u ctx ctx1"
  proof (cases "nm_remove_file (nc_state ctx) n")
    case None
    then show ?thesis by (simp add: ctx1 rights_step_def)
  next
    case (Some p)
    obtain r st where p: "p = (r, st)" by fastforce
    note R = remove_file_wf [OF _ Some [unfolded p]]
    have "rights_step u ctx (set_state ctx st)"
    proof (rule rights_stepI)
      fix m ow acl
      assume wf: "nm_wf (nc_state ctx)" and g: "grants (nc_state ctx) m = Some (ow, acl)" "ow \<noteq> u"
      show "grants st m = Some (ow, acl) \<or> grants st m = None \<and> may_write acl u"
      proof (cases "m = n")
        case True
        then have "fe_owner e = ow" "fe_acl e = acl" using g(1) assms(1) by (simp_all add: grants_def)
        then have "may_write acl u"
          using assms(2) g(2) by (auto simp: has_access_iff file_rights_def may_write_def)
        then show ?thesis using R(2) [OF wf] True by simp
      next
        case False
        then show ?thesis using R(2) [OF wf] g by simp
      qed
    qed (use R in simp_all)
    then show ?thesis by (simp add: ctx1 Some p)
  qed
  ultimately show ?thesis using acts_save by metis
qed

lemma delete_acts:
  assumes "nm_wf (nc_state ctx)"
  shows "acts os u ctx (fst (handle_client_delete os ctx u json))"
proof -
  have "acts os u ctx (finish_delete os ctx2 n payload)"
    if d: "nm_find_file (nc_state ctx) n = Some e" "file_has_access e u NM_PERM_WRITE"
      "select_storage_server os ctx e = (Some i, ctx1)" "forward_command os ctx1 ss p = (r, ctx2)" for n e i ctx1 ss p r ctx2 payload
  proof -
    obtain e' where e': "nm_find_file (nc_state ctx1) n = Some e'" "fe_owner e' = fe_owner e" "fe_acl e' = fe_acl e"
      using select_up(2) [OF assms d(1,3)] by blast
    have "file_has_access e' u NM_PERM_WRITE" using d(2) unfolding file_has_access_def find_acl_def e'(2,3) .
    moreover have "nm_find_file (nc_state ctx2) n = Some e'" using e'(1) forward_keeps(1) [OF d(4)] by simp
    ultimately have "acts os u ctx2 (finish_delete os ctx2 n payload)" by (intro finish_delete_acts)
    with calm_trans [OF select_calm [OF d(1,3)] forward_keeps(5) [OF d(4)]] show ?thesis by (rule calm_then_acts)
  qed
  moreover have "calm os ctx ctx2" if "nm_find_file (nc_state ctx) n = Some e"
      "select_storage_server os ctx e = (s, ctx1)" "forward_command os ctx1 ss p = (r, ctx2)" for n e s ctx1 ss p r ctx2
    using select_calm [OF that(1,2)] forward_keeps(5) [OF that(3)] calm_trans by blast
  ultimately show ?thesis
    by (auto simp: handle_client_delete_def Let_def split: option.split prod.split
        intro!: calm_mark_down dest: select_calm intro: calm_acts)
qed

lemma message_acts:
  assumes "nm_wf (nc_state ctx)" and "length u < NM_MAX_USER"
  shows "acts os u ctx (fst (snd (handle_client_message os ctx c u json)))"
proof -
  note calms = lookup_calm exec_calm checkpoint_calm revert_calm viewcheckpoint_calm undo_calm reqaccess_calm calm_refl
  note doers = addaccess_acts handlereq_acts removeaccess_acts create_acts [OF assms(2)] delete_acts [OF assms(1)]
  show ?thesis
    unfolding handle_client_message_def handle_client_read_def handle_client_write_def handle_client_stream_def
    by (simp add: finish_fst doers calms [THEN calm_acts] split: option.split)
qed

end
