(* ===== verification/NM_Run.thy ===== *)
theory NM_Run
  imports NM_Authority Runs
begin

text \<open>
  Runs of the name manager. \<open>nm_ctx_inv\<close> is an invariant of every event: the tables stay well
  formed, the replication queue has no duplicates, and the active users are exactly the
  users of the client connections, each with one connection.
\<close>

section \<open>Connections and active users\<close>

definition clients :: "peer list \<Rightarrow> nat set" where
  "clients ps = {i. i < length ps \<and> p_type (ps ! i) = PEER_CLIENT}"

definition names_ok :: "peer list \<Rightarrow> string list \<Rightarrow> bool" where
  "names_ok ps us \<longleftrightarrow> distinct us \<and> inj_on (\<lambda>i. p_user (ps ! i)) (clients ps) \<and>
     set us = (\<lambda>i. p_user (ps ! i)) ` clients ps \<and> [] \<notin> set us \<and> (\<forall>p \<in> set ps. length (p_user p) < NM_MAX_USER)"

text \<open>A slot keeps its client and its name, or is no client's before and after.\<close>

lemma names_ok_update:
  assumes "names_ok ps us" and "i < length ps" and "length (p_user p) < NM_MAX_USER"
    and "p_type p = PEER_CLIENT \<longleftrightarrow> p_type (ps ! i) = PEER_CLIENT"
    and "p_type p = PEER_CLIENT \<Longrightarrow> p_user p = p_user (ps ! i)"
  shows "names_ok (ps[i := p]) us"
proof -
  have c: "clients (ps[i := p]) = clients ps" using assms(2,4) by (auto simp: clients_def nth_list_update split: if_splits)
  have u: "p_user (ps[i := p] ! j) = p_user (ps ! j)" if "j \<in> clients ps" for j
    using that assms(2,4,5) by (auto simp: clients_def nth_list_update)
  have "\<forall>q \<in> set (ps[i := p]). length (p_user q) < NM_MAX_USER"
    using assms(1,3) set_update_subset_insert [of ps i p] by (auto simp: names_ok_def)
  moreover have "inj_on (\<lambda>j. p_user (ps[i := p] ! j)) (clients ps) \<longleftrightarrow> inj_on (\<lambda>j. p_user (ps ! j)) (clients ps)"
    by (rule inj_on_cong) (simp add: u)
  moreover have "(\<lambda>j. p_user (ps[i := p] ! j)) ` clients ps = (\<lambda>j. p_user (ps ! j)) ` clients ps"
    using u by (intro image_cong) simp_all
  ultimately show ?thesis using assms(1) unfolding names_ok_def c by metis
qed

lemma names_ok_login:
  assumes "names_ok ps us" and "i < length ps" and "p_type (ps ! i) \<noteq> PEER_CLIENT" "p_type p = PEER_CLIENT"
    and "p_user p \<notin> set us" "p_user p \<noteq> []" "length (p_user p) < NM_MAX_USER"
  shows "names_ok (ps[i := p]) (us @ [p_user p])"
proof -
  have c: "clients (ps[i := p]) = insert i (clients ps)" and ni: "i \<notin> clients ps"
    using assms(2-4) by (auto simp: clients_def nth_list_update split: if_splits)
  have u: "p_user (ps[i := p] ! j) = (if j = i then p_user p else p_user (ps ! j))" if "j \<in> insert i (clients ps)" for j
    using that assms(2) by (auto simp: nth_list_update)
  have "\<forall>q \<in> set (ps[i := p]). length (p_user q) < NM_MAX_USER"
    using assms(1,7) set_update_subset_insert [of ps i p] by (auto simp: names_ok_def)
  moreover have img: "(\<lambda>j. p_user (ps[i := p] ! j)) ` insert i (clients ps) = insert (p_user p) ((\<lambda>j. p_user (ps ! j)) ` clients ps)"
    using u ni by (auto simp: image_iff)
  moreover have "inj_on (\<lambda>j. p_user (ps[i := p] ! j)) (insert i (clients ps))"
  proof (rule inj_onI)
    fix x y assume xy: "x \<in> insert i (clients ps)" "y \<in> insert i (clients ps)" "p_user (ps[i := p] ! x) = p_user (ps[i := p] ! y)"
    have new: "p_user (ps ! j) \<noteq> p_user p" if "j \<in> clients ps" for j
    proof -
      have "p_user (ps ! j) \<in> (\<lambda>j. p_user (ps ! j)) ` clients ps" using that by blast
      then show ?thesis using assms(1,5) unfolding names_ok_def by metis
    qed
    have inj: "inj_on (\<lambda>j. p_user (ps ! j)) (clients ps)" using assms(1) by (simp add: names_ok_def)
    show "x = y" using xy u new inj_onD [OF inj, of x y] by (auto split: if_splits)
  qed
  ultimately show ?thesis using assms(1,5,6) unfolding names_ok_def c by auto
qed

lemma names_ok_logout:
  assumes "names_ok ps us" and "i < length ps" "p_type (ps ! i) = PEER_CLIENT" "p_type p \<noteq> PEER_CLIENT" "length (p_user p) < NM_MAX_USER"
    and "find_index (\<lambda>u. u = p_user (ps ! i)) us = Some k"
  shows "names_ok (ps[i := p]) (remove_at k us)"
proof -
  have c: "clients (ps[i := p]) = clients ps - {i}" and ci: "i \<in> clients ps"
    using assms(2-4) by (auto simp: clients_def nth_list_update split: if_splits)
  have u: "p_user (ps[i := p] ! j) = p_user (ps ! j)" if "j \<in> clients ps - {i}" for j using that by simp
  have k: "k < length us" "us ! k = p_user (ps ! i)" using find_index_SomeD [OF assms(6)] by simp_all
  have d: "distinct us" and inj: "inj_on (\<lambda>j. p_user (ps ! j)) (clients ps)"
    and set: "set us = (\<lambda>j. p_user (ps ! j)) ` clients ps" using assms(1) by (simp_all add: names_ok_def)
  have s: "set (remove_at k us) = set us - {p_user (ps ! i)}" using set_remove_at_distinct [OF d k(1)] k(2) by simp
  have "(\<lambda>j. p_user (ps[i := p] ! j)) ` (clients ps - {i}) = (\<lambda>j. p_user (ps ! j)) ` (clients ps - {i})"
    using u by (intro image_cong) simp_all
  also have "\<dots> = set us - {p_user (ps ! i)}" unfolding set using inj_on_image_set_diff [OF inj, of "clients ps" "{i}"] ci by auto
  finally have img: "(\<lambda>j. p_user (ps[i := p] ! j)) ` (clients ps - {i}) = set us - {p_user (ps ! i)}" .
  have "inj_on (\<lambda>j. p_user (ps[i := p] ! j)) (clients ps - {i}) \<longleftrightarrow> inj_on (\<lambda>j. p_user (ps ! j)) (clients ps - {i})"
    by (rule inj_on_cong) (simp add: u)
  then have "inj_on (\<lambda>j. p_user (ps[i := p] ! j)) (clients ps - {i})" using inj_on_diff [OF inj] by simp
  moreover have "distinct (remove_at k us)" using distinct_remove_at [of "\<lambda>x. x" us k] d by simp
  moreover have "\<forall>q \<in> set (ps[i := p]). length (p_user q) < NM_MAX_USER"
    using assms(1,5) set_update_subset_insert [of ps i p] by (auto simp: names_ok_def)
  ultimately show ?thesis using assms(1) s img unfolding names_ok_def c by auto
qed

section \<open>The invariant of the context\<close>

definition nm_ctx_inv :: "'w nm_context \<Rightarrow> bool" where
  "nm_ctx_inv ctx \<longleftrightarrow> nm_wf (nc_state ctx) \<and> queue_ok ctx \<and> names_ok (nc_peers ctx) (items (nc_users ctx))"

lemma calm_inv: "calm os a b \<Longrightarrow> nm_ctx_inv a \<Longrightarrow> nm_ctx_inv b"
  by (simp add: calm_def nm_ctx_inv_def)

lemma acts_inv: "acts os u a b \<Longrightarrow> nm_ctx_inv a \<Longrightarrow> nm_ctx_inv b"
  by (simp add: acts_defs nm_ctx_inv_def)

lemma ctx_inv_wf: "nm_ctx_inv ctx \<Longrightarrow> nm_wf (nc_state ctx)"
  by (simp add: nm_ctx_inv_def)

lemma inv_user_short: "nm_ctx_inv ctx \<Longrightarrow> i < length (nc_peers ctx) \<Longrightarrow> length (p_user (nc_peers ctx ! i)) < NM_MAX_USER"
  by (simp add: nm_ctx_inv_def names_ok_def)

lemma set_peer_inv:
  assumes "nm_ctx_inv ctx" "i < length (nc_peers ctx)" "length (p_user p) < NM_MAX_USER"
    and "p_type p = PEER_CLIENT \<longleftrightarrow> p_type (nc_peers ctx ! i) = PEER_CLIENT"
    and "p_type p = PEER_CLIENT \<Longrightarrow> p_user p = p_user (nc_peers ctx ! i)"
  shows "nm_ctx_inv (set_peer ctx i p)"
  using assms names_ok_update [of "nc_peers ctx" "items (nc_users ctx)" i p]
  by (simp add: nm_ctx_inv_def set_peer_def queue_ok_def)

lemma peer_reply_inv:
  assumes "nm_ctx_inv ctx" "i < length (nc_peers ctx)" "peer_reply ctx i r = (b, ctx')"
  shows "nm_ctx_inv ctx'" and "length (nc_peers ctx') = length (nc_peers ctx)"
proof -
  obtain c where ctx': "ctx' = set_peer ctx i ((nc_peers ctx ! i)\<lparr>p_conn := c\<rparr>)"
    using assms(3) by (auto simp: peer_reply_def Let_def split: prod.splits)
  show "nm_ctx_inv ctx'" unfolding ctx' by (rule set_peer_inv [OF assms(1,2)]) (use inv_user_short [OF assms(1,2)] in simp_all)
  show "length (nc_peers ctx') = length (nc_peers ctx)" unfolding ctx' by (simp add: set_peer_def)
qed

section \<open>Replication\<close>

lemma replicate_keeps:
  assumes "replicate_file_to_backup os ctx f ow p b = (r, ctx')"
  shows "nc_state ctx' = nc_state ctx \<and> calm os ctx ctx'"
proof -
  have "nc_state ctx2 = nc_state ctx \<and> calm os ctx ctx2"
    if i: "issue_ticket os ctx ss i f ow op = (t, ctx1)" and g: "forward_command os ctx1 s2 pl = (x, ctx2)" for ss i op t ctx1 s2 pl x ctx2
    using issue_keeps(1) [OF i] forward_keeps(1) [OF g] calm_trans [OF issue_keeps(5) [OF i] forward_keeps(5) [OF g]] by simp
  then show ?thesis
    using assms by (auto simp: replicate_file_to_backup_def split: if_splits option.splits prod.splits
        dest: issue_keeps(1,5))
qed

lemma failure_calm: "calm os ctx (handle_replication_failure os ctx task b)"
  using calm_trans [OF calm_drop_backup try_assign_calm(1)]
  by (auto simp: handle_replication_failure_def Let_def calm_drop_backup try_assign_calm split: option.split)

lemma backup_target_up:
  assumes "0 \<le> backup_target st p"
  shows "backup_target st p \<noteq> p" and "server_is_available (nm_get_server st (backup_target st p))"
    and "backup_target st p < int (length (nm_servers st))"
proof -
  obtain i where i: "find_index (\<lambda>i. int i \<noteq> p \<and> server_is_available (nm_get_server st (int i))) [0..<length (nm_servers st)] = Some i"
    "backup_target st p = int i" using assms by (auto simp: backup_target_def split: option.splits)
  from find_index_SomeD [OF i(1)] have lt: "i < length (nm_servers st)" by simp
  with find_index_SomeD [OF i(1)] have "int i \<noteq> p" "server_is_available (nm_get_server st (int i))" by auto
  with lt have "i < length (nm_servers st)" "int i \<noteq> p" "server_is_available (nm_get_server st (int i))" .
  then show "backup_target st p \<noteq> p" and "server_is_available (nm_get_server st (backup_target st p))"
    and "backup_target st p < int (length (nm_servers st))" using i(2) by simp_all
qed

lemma run_task_calm: "calm os ctx (run_task os ctx task)"
proof (cases "nm_find_file (nc_state ctx) (rt_file task)")
  case None
  then show ?thesis by (simp add: run_task_def)
next
  case (Some e)
  let ?t = "if rt_assign task then backup_target (nc_state ctx) (fe_ss e) else rt_backup task"
  obtain r ctx1 where rep: "replicate_file_to_backup os ctx (rt_file task) (buf NM_MAX_USER (fe_owner e)) (fe_ss e) ?t = (r, ctx1)"
    by fastforce
  note K = replicate_keeps [OF rep]
  have fail: "calm os ctx (handle_replication_failure os ctx1 task ?t)" using K failure_calm calm_trans by blast
  have fin: "calm os ctx (finish_replication os ctx1 task (fe_ss e) ?t)" if "rt_assign task \<longrightarrow> 0 \<le> ?t"
  proof -
    have "calm os ctx1 (finish_replication os ctx1 task (fe_ss e) ?t)"
    proof (cases "rt_assign task")
      case True
      have t: "?t \<noteq> fe_ss e" "?t < int (length (nm_servers (nc_state ctx)))"
        using backup_target_up [of "nc_state ctx" "fe_ss e"] that True by auto
      then have "calm os ctx1 (nm_save os (set_state ctx1 (nm_modify_file (nc_state ctx1) (rt_file task) (\<lambda>f. f\<lparr>fe_backup := ?t\<rparr>))))"
        using K set_backup_wf [OF _ Some] that True by (intro calm_save calm_set_state) simp_all
      then show ?thesis using K Some True by (simp add: finish_replication_def)
    qed (use K Some in \<open>simp add: finish_replication_def\<close>)
    then show ?thesis using K calm_trans by blast
  qed
  show ?thesis using Some rep fail fin by (auto simp: run_task_def Let_def split: bool.split)
qed

lemma worker_calm: "calm os ctx (replication_worker os ctx)"
proof (cases "array_get (nc_queue ctx) 0")
  case (Some task)
  then have "0 < length (items (nc_queue ctx))" by (auto simp: array_get_def split: if_splits)
  then have "queue_ok (ctx\<lparr>nc_queue := array_remove (nc_queue ctx) 0\<rparr>)" if "queue_ok ctx"
    using that by (cases "items (nc_queue ctx)") (auto simp: queue_ok_def array_remove_def)
  then have "calm os ctx (ctx\<lparr>nc_queue := array_remove (nc_queue ctx) 0\<rparr>)"
    using durable_cong [of ctx "ctx\<lparr>nc_queue := array_remove (nc_queue ctx) 0\<rparr>"] by (simp add: calm_def)
  then show ?thesis using run_task_calm calm_trans Some by (simp add: replication_worker_def) blast
qed (simp add: replication_worker_def)

lemma after_update_calm: "calm os ctx (after_update os ctx f e t)"
proof -
  have "calm os ctx (snd (schedule_replication os ctx f ow p b m))" for ow p b m
    using schedule_calm(1) [OF surjective_pairing] .
  moreover have "calm os ctx (handle_replication_failure os ctx1 task b)"
    if "schedule_replication os ctx f ow p b' m = (r, ctx1)" for ow p b' m r ctx1 task b
    using schedule_calm(1) [OF that] failure_calm calm_trans by blast
  ultimately show ?thesis
    by (auto simp: after_update_def split: prod.split bool.split dest: schedule_calm(1))
qed

lemma update_calm: "calm os ctx (handle_ss_file_update os ctx json)"
proof -
  have "calm os ctx (nm_save os (set_state ctx (snd (nm_update_file_metadata (nc_state ctx) f w c m a u))))" for f w c m a u
  proof (intro calm_save calm_set_state)
    show "length (nm_servers (snd (nm_update_file_metadata (nc_state ctx) f w c m a u))) = length (nm_servers (nc_state ctx))"
      "nm_persist_path (snd (nm_update_file_metadata (nc_state ctx) f w c m a u)) = nm_persist_path (nc_state ctx)"
      by (auto simp: nm_update_file_metadata_def split: option.split)
  qed (simp_all add: metadata_wf)
  then show ?thesis
    by (auto simp: handle_ss_file_update_def Let_def split: option.split intro: calm_trans [OF _ after_update_calm])
qed

section \<open>The handshake and messages\<close>

lemma fold_calm: "(\<And>x c. calm os c (f x c)) \<Longrightarrow> calm os c (fold f xs c)"
proof (induction xs arbitrary: c)
  case (Cons x xs)
  then show ?case using calm_trans [of os c "f x c"] by simp
qed simp

lemma assign_missing_calm: "calm os ctx (assign_missing_backups os ctx)"
  unfolding assign_missing_backups_def by (rule fold_calm) (simp add: try_assign_calm)

lemma register_server_wf:
  assumes "nm_wf st" and "length sid < NM_MAX_NAME" and "nm_register_server st sid h c d fd = (Some i, st')"
  shows "nm_wf st'" and "grants st' = grants st"
proof -
  have sv: "servers_ok st'" using nm_register_server_result [of st sid h c d fd] assms by (auto simp: nm_wf_def)
  have eqs: "nm_files st' = nm_files st" "nm_buckets st' = nm_buckets st" "nm_cache st' = nm_cache st" "nm_users st' = nm_users st"
    "nm_requests st' = nm_requests st" and len: "length (nm_servers st) \<le> length (nm_servers st')"
    using assms(3) by (auto simp: nm_register_server_def split: option.splits if_splits)
  have "file_good (length (nm_servers st')) f" if "f \<in> set (nm_files st)" for f
  proof -
    have "file_good (length (nm_servers st)) f" using assms(1) that by (simp add: nm_wf_def)
    then show ?thesis using len by (simp add: file_good_def)
  qed
  moreover have "nm_inv st'" using assms(1) eqs by (simp add: nm_wf_def nm_inv_def all_linked_def linked_def)
  ultimately show "nm_wf st'" using assms(1) sv eqs by (simp add: nm_wf_def cache_ok_def)
  show "grants st' = grants st" by (rule grants_cong [OF eqs(1,2)])
qed

lemma set_state_inv: "nm_ctx_inv ctx \<Longrightarrow> nm_wf st \<Longrightarrow> nm_ctx_inv (set_state ctx st)"
  by (simp add: nm_ctx_inv_def queue_ok_def)

lemma handle_ss_register_inv:
  assumes "nm_ctx_inv ctx" "i < length (nc_peers ctx)" "p_type (nc_peers ctx ! i) = PEER_UNKNOWN"
    and "handle_ss_register os ctx i json = (b, ctx')"
  shows "nm_ctx_inv ctx' \<and> length (nc_peers ctx') = length (nc_peers ctx)"
proof -
  have "nm_ctx_inv ctx2 \<and> length (nc_peers ctx2) = length (nc_peers ctx)"
    if j: "json_get_string json ''ssId'' 64 = Some sid"
      and r: "nm_register_server (nc_state ctx) sid h c d fd = (Some idx, st)"
      and p: "peer_reply (set_peer (set_state ctx st) i ((nc_peers ctx ! i)\<lparr>p_type := PEER_SERVER, p_server := int idx\<rparr>)) i m = (x, ctx2)"
    for sid h c d fd idx st m x ctx2
  proof -
    have "length sid < NM_MAX_NAME" using json_get_string_short [OF j] by (simp add: NM_MAX_NAME_def)
    from register_server_wf(1) [OF ctx_inv_wf [OF assms(1)] this r] have "nm_ctx_inv (set_state ctx st)"
      by (rule set_state_inv [OF assms(1)])
    then have "nm_ctx_inv (set_peer (set_state ctx st) i ((nc_peers ctx ! i)\<lparr>p_type := PEER_SERVER, p_server := int idx\<rparr>))"
      using assms(2,3) inv_user_short [OF assms(1,2)] by (intro set_peer_inv) simp_all
    from peer_reply_inv [OF this _ p] assms(2) show ?thesis by (simp add: set_peer_def)
  qed
  moreover have "nm_ctx_inv (assign_missing_backups os ctx2) \<and> length (nc_peers (assign_missing_backups os ctx2)) = length (nc_peers ctx2)"
    if "nm_ctx_inv ctx2" for ctx2
    using calm_inv [OF assign_missing_calm that] assign_missing_calm [of os ctx2] by (simp add: calm_def)
  ultimately show ?thesis
    using assms(4) peer_reply_inv [OF assms(1,2)]
    by (auto simp: handle_ss_register_def Let_def split: option.splits prod.splits bool.splits) 
qed

lemma handle_hello_inv:
  assumes "nm_ctx_inv ctx" "i < length (nc_peers ctx)" "p_type (nc_peers ctx ! i) = PEER_UNKNOWN"
    and "handle_hello os ctx i json = (b, ctx')"
  shows "nm_ctx_inv ctx' \<and> length (nc_peers ctx') = length (nc_peers ctx)"
proof -
  have "nm_ctx_inv ctx3 \<and> length (nc_peers ctx3) = length (nc_peers ctx)"
    if j: "json_get_string json ''user'' NM_MAX_USER = Some u"
      and a: "active_user_add os ctx u = (True, ctx1)"
      and ctx3: "peer_reply (set_peer (set_state ctx1 (snd (nm_add_user now (nc_state ctx1) (buf NM_MAX_USER u)))) i
          ((nc_peers ctx1 ! i)\<lparr>p_user := buf NM_MAX_USER u, p_type := PEER_CLIENT, p_server := -1\<rparr>)) i m = (x, ctx3)"
    for u ctx1 now m x ctx3
  proof -
    have u: "buf NM_MAX_USER u = u" using json_get_string_short [OF j] by simp
    obtain arr where arr: "array_push (no_mem os) (nc_users ctx) u = Some arr" "ctx1 = ctx\<lparr>nc_users := arr\<rparr>" "u \<noteq> []"
      "u \<notin> set (items (nc_users ctx))"
      using a u by (auto simp: active_user_add_def active_user_index_def find_index_None_iff split: if_splits option.splits)
    let ?p = "(nc_peers ctx ! i)\<lparr>p_user := u, p_type := PEER_CLIENT, p_server := -1\<rparr>"
    let ?ctx2 = "set_peer (set_state ctx1 (snd (nm_add_user now (nc_state ctx1) u))) i ?p"
    have "names_ok ((nc_peers ctx)[i := ?p]) (items (nc_users ctx) @ [p_user ?p])"
      using assms(1-3) arr(3,4) json_get_string_short [OF j] by (intro names_ok_login) (simp_all add: nm_ctx_inv_def)
    then have "nm_ctx_inv ?ctx2"
      using assms(1) add_user_wf arr.push_view [OF arr(1)] by (simp add: nm_ctx_inv_def set_peer_def arr(2) queue_ok_def)
    from peer_reply_inv [OF this] ctx3 assms(2) show ?thesis by (simp add: u arr(2) set_peer_def)
  qed
  moreover have "nm_ctx_inv ctx2 \<and> length (nc_peers ctx2) = length (nc_peers ctx)"
    if "active_user_add os ctx u = (False, ctx1)" "peer_reply ctx1 i m = (x, ctx2)" for u ctx1 m x ctx2
  proof -
    have "ctx1 = ctx" using that(1) by (auto simp: active_user_add_def split: if_splits option.splits)
    then show ?thesis using peer_reply_inv [OF assms(1,2)] that(2) by blast
  qed
  ultimately show ?thesis
    using assms(4) peer_reply_inv [OF assms(1,2)]
    by (auto simp: handle_hello_def Let_def split: option.splits prod.splits bool.splits if_splits)
qed

lemma dispatch_inv:
  assumes "nm_ctx_inv ctx" "i < length (nc_peers ctx)" and "dispatch_message os ctx i json = (b, ctx')"
  shows "nm_ctx_inv ctx' \<and> length (nc_peers ctx') = length (nc_peers ctx)"
proof (cases "p_type (nc_peers ctx ! i)")
  case PEER_UNUSED
  then show ?thesis using assms by (simp add: dispatch_message_def)
next
  case PEER_UNKNOWN
  then show ?thesis
    using assms handle_ss_register_inv [OF assms(1,2) PEER_UNKNOWN] handle_hello_inv [OF assms(1,2) PEER_UNKNOWN]
      peer_reply_inv [OF assms(1,2)]
    by (auto simp: dispatch_message_def handle_handshake_def split: option.splits if_splits)
next
  case PEER_CLIENT
  let ?p = "nc_peers ctx ! i"
  obtain x ctx1 c where m: "handle_client_message os ctx (p_conn ?p) (p_user ?p) json = (x, ctx1, c)" by (metis prod_cases3)
  have act: "acts os (p_user ?p) ctx ctx1"
    using message_acts [OF ctx_inv_wf [OF assms(1)] inv_user_short [OF assms(1,2)], of os "p_conn ?p" json] m by simp
  then have peers: "nc_peers ctx1 = nc_peers ctx" by (simp add: acts_defs)
  have inv1: "nm_ctx_inv ctx1" by (rule acts_inv [OF act assms(1)])
  have "nm_ctx_inv (set_peer ctx1 i ((nc_peers ctx1 ! i)\<lparr>p_conn := c\<rparr>))"
    using inv1 assms(2) peers inv_user_short [OF assms(1,2)] by (intro set_peer_inv) simp_all
  then show ?thesis using assms(3) m PEER_CLIENT peers by (auto simp: dispatch_message_def set_peer_def)
next
  case PEER_SERVER
  then show ?thesis
    using assms calm_inv [OF update_calm] update_calm [of os ctx json]
    by (auto simp: dispatch_message_def handle_server_message_def calm_def split: if_splits)
qed

section \<open>Losing a connection\<close>

lemma failover_keeps:
  "fe_name (fst (file_failover st i f)) = fe_name f" "fe_next (fst (file_failover st i f)) = fe_next f"
  "fe_owner (fst (file_failover st i f)) = fe_owner f" "fe_acl (fst (file_failover st i f)) = fe_acl f"
  "file_good n f \<Longrightarrow> file_good n (fst (file_failover st i f))"
  by (auto simp: file_failover_def use_backup_def drop_backup_only_def file_good_def Let_def)

text \<open>Changing every file at once, names and links kept.\<close>

lemma map_files:
  assumes "nm_wf st" and "\<And>f. fe_name (g f) = fe_name f" "\<And>f. fe_next (g f) = fe_next f"
    and "\<And>n f. file_good n f \<Longrightarrow> file_good n (g f)"
  defines "st' \<equiv> st\<lparr>nm_files := map g (nm_files st)\<rparr>"
  shows "nm_wf st'" and "nm_find_file st' n = map_option g (nm_find_file st n)"
proof -
  have inv: "nm_inv st" by (rule nm_wf_inv [OF assms(1)])
  have "linked {..<length (nm_files st)} st'"
    by (rule linked_cong [where st = st]) (use inv assms(2,3) in \<open>simp_all add: nm_inv_def all_linked_def st'_def\<close>)
  then have inv': "nm_inv st'" using inv assms(2) by (simp add: nm_inv_def all_linked_def st'_def comp_def)
  then show "nm_wf st'" using assms(1,4) by (auto simp: nm_wf_def st'_def servers_ok_def cache_ok_def)
  show "nm_find_file st' n = map_option g (nm_find_file st n)"
  proof (cases rule: find_file_index_cases [OF inv, of n])
    case (1 j)
    then have "find_file_index st' n = Some (int j)"
      using assms(2) by (intro find_file_index_unique [OF inv']) (simp_all add: st'_def)
    then show ?thesis using 1 by (simp add: nm_find_file_def st'_def)
  next
    case 2
    then have "n \<notin> fe_name ` set (nm_files st')" using assms(2) by (auto simp: st'_def image_iff)
    then show ?thesis using 2 nm_find_file_None_iff [OF inv'] by simp
  qed
qed

lemma server_lost_calm: "calm os ctx (server_lost os ctx i)"
proof -
  let ?st = "nm_mark_server_down (nc_state ctx) i"
  let ?g = "\<lambda>f. fst (file_failover ?st i f)"
  let ?rs = "map (file_failover ?st i) (nm_files ?st)"
  let ?st' = "?st\<lparr>nm_files := map fst ?rs\<rparr>"
  have eq: "?st' = ?st\<lparr>nm_files := map ?g (nm_files ?st)\<rparr>" by (simp add: comp_def)
  have wf: "nm_wf ?st'" "grants ?st' = grants (nc_state ctx)" if "nm_wf (nc_state ctx)"
  proof -
    note M = map_files [OF mark_down_wf [OF that], of ?g i, OF failover_keeps(1,2,5)]
    show "nm_wf ?st'" unfolding eq by (rule M(1))
    have "grants ?st' = grants ?st"
      unfolding eq by (simp add: fun_eq_iff grants_def M(2) option.map_comp comp_def failover_keeps)
    then show "grants ?st' = grants (nc_state ctx)" by (simp add: mark_down_grants)
  qed
  have "calm os ctx (set_state ctx ?st')" using wf by (intro calm_set_state) (simp_all add: mark_down_rest)
  then have "calm os ctx (if \<exists>r \<in> set ?rs. snd r then nm_save os (set_state ctx ?st') else set_state ctx ?st')"
    by (simp add: calm_save)
  then show ?thesis
    unfolding server_lost_def Let_def by (rule calm_trans) (intro fold_calm try_assign_calm)
qed

lemma drop_peer_inv:
  assumes "nm_ctx_inv ctx" "i < length (nc_peers ctx)"
  shows "nm_ctx_inv (peer_close (handle_server_disconnect os ctx i) i)"
proof (cases "p_type (nc_peers ctx ! i) = PEER_CLIENT")
  case True
  let ?u = "p_user (nc_peers ctx ! i)"
  have "?u \<in> (\<lambda>i. p_user (nc_peers ctx ! i)) ` clients (nc_peers ctx)" using True assms(2) by (auto simp: clients_def)
  then have u: "?u \<in> set (items (nc_users ctx))" "?u \<noteq> []" using assms(1) unfolding nm_ctx_inv_def names_ok_def by metis+
  then obtain k where k: "find_index (\<lambda>u. u = ?u) (items (nc_users ctx)) = Some k"
    using find_index_exists [of ?u "items (nc_users ctx)" "\<lambda>u. u = ?u"] by blast
  have run: "handle_server_disconnect os ctx i = ctx\<lparr>nc_users := array_remove (nc_users ctx) k\<rparr>"
    using True u k by (simp add: handle_server_disconnect_def active_user_remove_def active_user_index_def)
  have kl: "k < length (items (nc_users ctx))" using find_index_SomeD [OF k] by simp
  have "names_ok ((nc_peers ctx)[i := (peer_reset_fields (nc_peers ctx ! i))\<lparr>p_conn := closed_conn\<rparr>])
      (remove_at k (items (nc_users ctx)))"
    using assms True k by (intro names_ok_logout) (simp_all add: nm_ctx_inv_def peer_reset_fields_def NM_MAX_USER_def)
  then show ?thesis
    unfolding run using assms(1) kl by (simp add: nm_ctx_inv_def peer_close_def queue_ok_def arr.rem_view)
next
  case False
  let ?c = "handle_server_disconnect os ctx i"
  have c: "calm os ctx ?c" using False server_lost_calm by (auto simp: handle_server_disconnect_def Let_def)
  then have p: "nc_peers ?c = nc_peers ctx" by (simp add: calm_def)
  show ?thesis
    using set_peer_inv [OF calm_inv [OF c assms(1)], of i "(peer_reset_fields (nc_peers ctx ! i))\<lparr>p_conn := closed_conn\<rparr>"]
      assms(2) False by (simp add: p peer_close_def set_peer_def peer_reset_fields_def NM_MAX_USER_def)
qed

section \<open>Events\<close>

lemma round_inv:
  assumes "nm_ctx_inv ctx" "i < length (nc_peers ctx)"
  shows "nm_ctx_inv (peer_round os ctx i received)"
proof (cases received)
  case None
  then show ?thesis using drop_peer_inv [OF assms] by (simp add: peer_round_def)
next
  case (Some json)
  obtain b ctx1 where d: "dispatch_message os ctx i json = (b, ctx1)" by fastforce
  from dispatch_inv [OF assms d] assms drop_peer_inv [of ctx1 i os] d Some show ?thesis
    by (auto simp: peer_round_def split: bool.split)
qed

lemma accept_inv:
  assumes "nm_ctx_inv ctx"
  shows "nm_ctx_inv (accept_peer ctx fd c)"
proof (cases "allocate_peer ctx")
  case (Some i)
  from find_index_SomeD [OF Some [unfolded allocate_peer_def]]
  have i: "i < length (nc_peers ctx)" "p_type (nc_peers ctx ! i) = PEER_UNUSED" by simp_all
  have "nm_ctx_inv (set_peer ctx i ((peer_reset_fields (nc_peers ctx ! i))
      \<lparr>p_fd := fd, p_type := PEER_UNKNOWN, p_server := -1, p_user := [], p_conn := c\<rparr>))"
    by (rule set_peer_inv [OF assms i(1)]) (simp_all add: i(2) NM_MAX_USER_def)
  then show ?thesis using Some by (simp add: accept_peer_def set_peer_def)
qed (use assms in \<open>simp add: accept_peer_def\<close>)

lemma nm_step_inv: "nm_ctx_inv ctx \<Longrightarrow> nm_ctx_inv (nm_step os e ctx)"
proof (cases e)
  case Prune
  assume "nm_ctx_inv ctx"
  then show ?thesis using Prune by (simp add: ticket_prune_def nm_ctx_inv_def queue_ok_def)
qed (auto simp: accept_inv round_inv calm_inv [OF worker_calm])

text \<open>An event together with what the operating system supplies to it.\<close>

definition nm_event_step :: "'w nm_os \<times> nm_event \<Rightarrow> 'w nm_context \<Rightarrow> 'w nm_context" where
  "nm_event_step oe ctx = nm_step (fst oe) (snd oe) ctx"

interpretation nm_loop: event_loop nm_event_step nm_ctx_inv
  by unfold_locales (simp add: nm_event_step_def nm_step_inv)

lemma nm_start_inv:
  assumes "d (buf 256 path) = None"
  shows "nm_ctx_inv (nm_start rd d path sizes w)"
proof -
  let ?st = "\<lparr>nm_servers = [], nm_next_primary = 0, nm_next_backup = 0, nm_files = [], nm_users = [], nm_cache = [],
        nm_requests = [], nm_persist_path = buf 256 path, nm_buckets = []\<rparr>"
  have "nm_state_init rd d (Some path) = clear_state ?st"
    using assms by (simp add: nm_state_init_def nm_state_load_def clear_state_def)
  then have "nm_wf (nc_state (nm_start rd d path sizes w))" by (simp add: nm_start_def clear_state_wf)
  moreover have "clients (replicate MAX_PEERS fresh_peer) = {}" by (auto simp: clients_def fresh_peer_def)
  ultimately show ?thesis
    by (simp add: nm_ctx_inv_def nm_start_def queue_ok_def array_init_def names_ok_def fresh_peer_def NM_MAX_USER_def)
qed

end
