(* ===== verification/NM_Props.thy ===== *)
theory NM_Props
  imports NM_Run
begin

text \<open>
  The properties of the name manager as a whole: its invariant over all runs, who can change
  the rights on a file, what a request without rights does, the failover after the loss of a
  storage server, when a backup is recorded, and what a restart restores.
\<close>

section \<open>A name manager for the witnesses\<close>

text \<open>
  An operating system in which everything succeeds and storage servers answer every command
  with \<^verbatim>\<open>OK\<close>, and a manager with the servers of \<open>demo_servers\<close>, alice connected, and one file
  of alice on server 0 with a backup on server 2 that bob may read.
\<close>

definition nm_demo_os :: "nat nm_os" where
  "nm_demo_os = \<lparr>no_now = 50, no_mem = (\<lambda>_. True), no_save = (\<lambda>_. SaveOk), no_rand = (\<lambda>w. (w, Suc w)),
     no_rpc = (\<lambda>fd payload w. (Some (braces [fmt_str ''status'' ''OK'']), Suc w)),
     no_fetch = (\<lambda>host port payload w. (None, w)), no_shell = (\<lambda>script w. (None, w)), no_junk = []\<rparr>"

definition demo_shared :: file_entry where
  "demo_shared = (new_file_entry ''a'' ''alice'' 0 2 7)\<lparr>fe_acl := [\<lparr>acl_user = ''bob'', acl_perm = 1\<rparr>]\<rparr>"

definition nm_demo_state :: nm_state where
  "nm_demo_state = push_file demo_servers demo_shared"

definition demo_link :: conn where
  "demo_link = \<lparr>inbox = [], outbox = [], send_limit = 10\<rparr>"

definition demo_peers :: "peer list" where
  "demo_peers =
     [\<lparr>p_fd = 5, p_type = PEER_SERVER, p_server = 0, p_user = [], p_conn = demo_link\<rparr>,
      \<lparr>p_fd = 7, p_type = PEER_SERVER, p_server = 2, p_user = [], p_conn = demo_link\<rparr>,
      \<lparr>p_fd = 8, p_type = PEER_CLIENT, p_server = -1, p_user = ''alice'', p_conn = demo_link\<rparr>]"

definition nm_demo_ctx :: "nat nm_context" where
  "nm_demo_ctx = \<lparr>nc_peers = demo_peers, nc_state = nm_demo_state, nc_tickets = array_init 8,
     nc_users = (array_init 8)\<lparr>items := [''alice'']\<rparr>, nc_queue = array_init 8, nc_disk = Map.empty, nc_world = 0\<rparr>"

lemma demo_base: "nm_files demo_servers = []" "nm_inv demo_servers"
proof -
  have base: "nm_files demo_servers = []" "nm_buckets demo_servers = nm_buckets (clear_state demo_nm)"
    by (simp_all add: demo_servers_def demo_nm_def clear_state_def)
  then show "nm_files demo_servers = []" "nm_inv demo_servers"
    using clear_state_inv [of demo_nm] by (simp_all add: nm_inv_def all_linked_def linked_def clear_state_def)
qed

text \<open>The servers of the demonstration with one file.\<close>

lemma push_demo:
  assumes "strip e = e"
  shows "nm_inv (push_file demo_servers e)" and "tables_only (push_file demo_servers e) = tables_only demo_servers"
    and "map strip (nm_files (push_file demo_servers e)) = [e]"
    and "\<exists>f. nm_find_file (push_file demo_servers e) (fe_name e) = Some f \<and> strip f = e"
proof -
  let ?st = "push_file demo_servers e"
  have "length (nm_files demo_servers) < NM_MAX_FILES" "fe_name e \<notin> fe_name ` set (nm_files demo_servers)"
    using demo_base by (simp_all add: NM_MAX_FILES_def)
  note N = insert_last_inv [OF demo_base(2) this, folded push_file_def]
  show inv: "nm_inv ?st" by (rule N(1))
  show "tables_only ?st = tables_only demo_servers" using N(3) by (simp add: tables_only_def same_content_def)
  show fs: "map strip (nm_files ?st) = [e]" using N(2) demo_base(1) assms by simp
  obtain f where f: "nm_files ?st = [f]" "strip f = e" using fs by (cases "nm_files ?st") auto
  then have "fe_name f = fe_name e" by (metis strip_fe_name)
  then have "find_file_index ?st (fe_name e) = Some (int 0)"
    using f by (intro find_file_index_unique [OF inv]) simp_all
  with f show "\<exists>f. nm_find_file ?st (fe_name e) = Some f \<and> strip f = e" by (simp add: nm_find_file_def)
qed

lemma nm_demo_state_facts:
  "nm_wf nm_demo_state" "nm_servers nm_demo_state = nm_servers demo_servers" "nm_persist_path nm_demo_state = ''nm_state.dat''"
  "\<exists>f. nm_find_file nm_demo_state ''a'' = Some f \<and> strip f = demo_shared"
proof -
  have "strip demo_shared = demo_shared" by (simp add: demo_shared_def strip_def new_file_entry_def)
  note N = push_demo [OF this, folded nm_demo_state_def]
  show sv: "nm_servers nm_demo_state = nm_servers demo_servers" using arg_cong [OF N(2), of nm_servers] by (simp add: tables_only_def)
  have wf0: "nm_wf demo_servers"
    using demo_base by (simp add: nm_wf_def servers_ok_def cache_ok_def demo_servers_def demo_nm_def clear_state_def
        registered_def NM_MAX_SERVERS_def)
  have good: "file_good 3 demo_shared"
    by (simp add: file_good_def demo_shared_def new_file_entry_def acl_ok_def NM_MAX_ACL_def NM_MAX_NAME_def)
  have len: "length (nm_servers demo_servers) = 3" by (simp add: demo_servers_def)
  have "f = demo_shared" if "f \<in> set (map strip (nm_files nm_demo_state))" for f using that N(3) by simp
  then have "file_good (length (nm_servers demo_servers)) f" if "f \<in> set (map strip (nm_files nm_demo_state))" for f
    using that good len by metis
  then show "nm_wf nm_demo_state" by (rule wf_files [OF wf0 N(1,2)])
  show "nm_persist_path nm_demo_state = ''nm_state.dat''"
    using arg_cong [OF N(2), of nm_persist_path] by (simp add: tables_only_def demo_servers_def demo_nm_def clear_state_def)
  show "\<exists>f. nm_find_file nm_demo_state ''a'' = Some f \<and> strip f = demo_shared"
    using N(4) by (simp add: demo_shared_def NM_MAX_NAME_def)
qed

lemma nm_demo_ctx_inv: "nm_ctx_inv nm_demo_ctx"
proof -
  have "clients demo_peers = {2}"
    by (auto simp: clients_def demo_peers_def nth_Cons' less_Suc_eq)
  then show ?thesis
    using nm_demo_state_facts(1)
    by (simp add: nm_ctx_inv_def nm_demo_ctx_def queue_ok_def array_init_def names_ok_def demo_peers_def NM_MAX_USER_def)
qed

section \<open>Properties\<close>

text \<open>C6: The invariant of the name manager. From a start without a state file, through every sequence
  of events (connections, requests of clients, messages and losses of storage servers, expiry
  of tickets, rounds of the replication worker) with any behaviour of the storage servers,
  the network, the disk and the allocator: the hash table of files is well formed, every
  file has a known primary server and no backup on the same server, access lists have one entry per
  user, the tables respect their capacities, no copy is queued twice, and no user name is active
  twice: the active names are exactly those of the client connections.\<close>

theorem name_manager_invariant:
  assumes "d (buf 256 path) = None" and "ctx = fold nm_event_step es (nm_start rd d path sizes w)"
  shows "nm_inv (nc_state ctx) \<and> servers_ok (nc_state ctx) \<and> cache_ok (nc_state ctx) \<and>
    (\<forall>f \<in> set (nm_files (nc_state ctx)).
       0 \<le> fe_ss f \<and> fe_ss f < int (length (nm_servers (nc_state ctx))) \<and> distinct (map acl_user (fe_acl f)) \<and>
       (0 \<le> fe_backup f \<longrightarrow> fe_backup f \<noteq> fe_ss f \<and> fe_backup f < int (length (nm_servers (nc_state ctx))))) \<and>
    length (nm_users (nc_state ctx)) \<le> NM_MAX_USERS \<and> length (nm_requests (nc_state ctx)) \<le> NM_MAX_REQUESTS \<and>
    sorted_wrt (\<lambda>a b. \<not> same_task a b) (items (nc_queue ctx)) \<and>
    distinct (items (nc_users ctx)) \<and> inj_on (\<lambda>i. p_user (nc_peers ctx ! i)) (clients (nc_peers ctx)) \<and>
    set (items (nc_users ctx)) = (\<lambda>i. p_user (nc_peers ctx ! i)) ` clients (nc_peers ctx)"
proof -
  have "nm_ctx_inv ctx" unfolding assms(2) by (rule nm_loop.run_inv [OF nm_start_inv [where d = d, OF assms(1)]])
  then have wf: "nm_wf (nc_state ctx)" and q: "queue_ok ctx" and n: "names_ok (nc_peers ctx) (items (nc_users ctx))"
    by (simp_all add: nm_ctx_inv_def)
  have "0 \<le> fe_ss f \<and> fe_ss f < int (length (nm_servers (nc_state ctx))) \<and> distinct (map acl_user (fe_acl f)) \<and>
       (0 \<le> fe_backup f \<longrightarrow> fe_backup f \<noteq> fe_ss f \<and> fe_backup f < int (length (nm_servers (nc_state ctx))))"
    if "f \<in> set (nm_files (nc_state ctx))" for f
    using wf that unfolding nm_wf_def file_good_def acl_ok_def by blast
  then show ?thesis using wf q n unfolding nm_wf_def queue_ok_def names_ok_def by blast
qed

theorem name_manager_invariant_witness:
  "distinct (items (nc_users (fold nm_event_step [(nm_demo_os, Accept 5 demo_link), (nm_demo_os, Round 0 None), (nm_demo_os, Replicate)]
     (nm_start (\<lambda>_. True) Map.empty ''nm_state.db'' (8, 8, 8) 0))))"
  using name_manager_invariant [of Map.empty "''nm_state.db''" _
      "[(nm_demo_os, Accept 5 demo_link), (nm_demo_os, Round 0 None), (nm_demo_os, Replicate)]" "\<lambda>_. True" "(8, 8, 8)" 0, OF _ refl]
  by blast

text \<open>C7: Only the owner changes the rights on a file. Whatever a client \<open>u\<close> sends, a file owned by
  somebody else keeps its owner and its access list, or it is gone, and then \<open>u\<close> had write access. The
  tables stay well formed.\<close>

theorem rights_changed_by_owner:
  assumes "nm_wf (nc_state ctx)" and "length u < NM_MAX_USER" and "handle_client_message os ctx c u json = (b, ctx', c')"
    and "nm_find_file (nc_state ctx) n = Some f" and "fe_owner f \<noteq> u"
  shows "nm_wf (nc_state ctx') \<and>
    (case nm_find_file (nc_state ctx') n of
       Some f' \<Rightarrow> fe_owner f' = fe_owner f \<and> fe_acl f' = fe_acl f
     | None \<Rightarrow> \<exists>q. nm_rights (nc_state ctx) n u = Some q \<and> q AND NM_PERM_WRITE = NM_PERM_WRITE)"
proof -
  have act: "acts os u ctx ctx'" using message_acts [OF assms(1,2), of os c json] assms(3) by simp
  have "grants (nc_state ctx) n = Some (fe_owner f, fe_acl f)" using assms(4) by (simp add: grants_def)
  then have "grants (nc_state ctx') n = Some (fe_owner f, fe_acl f) \<or> grants (nc_state ctx') n = None \<and> may_write (fe_acl f) u"
    using act assms(1,5) unfolding acts_defs by blast
  moreover have "nm_rights (nc_state ctx) n u = acl_rights (fe_acl f) u"
    using assms(4,5) by (simp add: nm_rights_def file_rights_def)
  ultimately show ?thesis
    using act assms(1) by (auto simp: acts_defs grants_def may_write_def split: option.splits)
qed

text \<open>Bob, who may read the file, tries to open it to everybody.\<close>

definition demo_addaccess :: string where
  "demo_addaccess = braces [fmt_str ''type'' ''ADDACCESS'', fmt_str ''file'' ''a'', fmt_str ''user'' ''carol'', fmt_str ''mode'' ''W'']"

theorem rights_changed_by_owner_witness:
  "nm_wf (nc_state nm_demo_ctx) \<and>
   (case nm_find_file (nc_state (fst (snd (handle_client_message nm_demo_os nm_demo_ctx demo_link ''bob'' demo_addaccess)))) ''a'' of
      Some f' \<Rightarrow> fe_owner f' = ''alice'' \<and> fe_acl f' = [\<lparr>acl_user = ''bob'', acl_perm = 1\<rparr>]
    | None \<Rightarrow> False)"
proof -
  have wf: "nm_wf (nc_state nm_demo_ctx)" using nm_demo_state_facts(1) by (simp add: nm_demo_ctx_def)
  obtain f where f: "nm_find_file (nc_state nm_demo_ctx) ''a'' = Some f" "strip f = demo_shared"
    using nm_demo_state_facts(4) by (auto simp: nm_demo_ctx_def)
  have e: "fe_owner f = ''alice''" "fe_acl f = [\<lparr>acl_user = ''bob'', acl_perm = 1\<rparr>]"
    using arg_cong [OF f(2), of fe_owner] arg_cong [OF f(2), of fe_acl]
    by (simp_all add: strip_def demo_shared_def new_file_entry_def NM_MAX_USER_def)
  obtain b ctx' c' where m: "handle_client_message nm_demo_os nm_demo_ctx demo_link ''bob'' demo_addaccess = (b, ctx', c')"
    by (metis prod_cases3)
  have "nm_rights (nc_state nm_demo_ctx) ''a'' ''bob'' = Some 1"
    using f(1) e by (simp add: nm_rights_def file_rights_def)
  moreover have "(1 :: 32 word) AND NM_PERM_WRITE \<noteq> NM_PERM_WRITE" by (simp add: NM_PERM_WRITE_def)
  moreover have "length ''bob'' < NM_MAX_USER" "fe_owner f \<noteq> ''bob''" using e by (simp_all add: NM_MAX_USER_def)
  ultimately show ?thesis
    using rights_changed_by_owner [OF wf _ m f(1)] e m wf by (auto split: option.splits)
qed

text \<open>The permission each request on an existing file needs.\<close>

definition needed_perm :: "string \<Rightarrow> 32 word option" where
  "needed_perm type =
     (if type \<in> {''READ'', ''STREAM'', ''INFO'', ''EXEC'', ''VIEWCHECKPOINT'', ''LISTCHECKPOINTS''} then Some NM_PERM_READ
      else if type \<in> {''WRITE'', ''DELETE'', ''UNDO'', ''CHECKPOINT'', ''REVERT''} then Some NM_PERM_WRITE
      else None)"

lemma denied_plain:
  assumes "json_get_string json ''type'' 64 = Some type" and "json_get_string json ''file'' NM_MAX_NAME = Some n"
    and "nm_find_file (nc_state ctx) n = Some f" and "\<not> file_has_access f u perm"
    and "type \<in> {''READ'', ''STREAM'', ''INFO'', ''EXEC'', ''LISTCHECKPOINTS''} \<and> perm = NM_PERM_READ \<or>
      type \<in> {''WRITE'', ''DELETE'', ''UNDO''} \<and> perm = NM_PERM_WRITE"
  shows "\<exists>m. handle_client_message os ctx c u json = finish c (ctx, ReplyErr ERR_NOAUTH m)"
proof -
  have look: "handle_lookup_common os ctx u json op perm s = (ctx, ReplyErr ERR_NOAUTH ''access denied'')" for op s
    using assms(2-4) by (simp add: handle_lookup_common_def obtain_ticket_for_file_def ticket_error_def numeral_2_eq_2)
  have exec: "handle_client_exec os ctx u json = (ctx, ReplyErr ERR_NOAUTH ''no read access'')" if "perm = NM_PERM_READ"
    using assms(2-4) that by (simp add: handle_client_exec_def obtain_ticket_for_file_def ticket_error_def numeral_2_eq_2)
  note facts = assms(1-4) look exec
  note defs = handle_client_message_def handle_client_read_def handle_client_write_def handle_client_stream_def
    handle_client_info_def handle_client_listcheckpoints_def handle_client_delete_def handle_client_undo_def
  show ?thesis
    using assms(5) by (elim disjE conjE insertE emptyE; intro exI; use facts in \<open>simp add: defs\<close>)
qed

lemma denied_checkpoint:
  assumes "json_get_string json ''type'' 64 = Some type" and "json_get_string json ''file'' NM_MAX_NAME = Some n"
    and "nm_find_file (nc_state ctx) n = Some f" and "\<not> file_has_access f u perm"
    and "type = ''VIEWCHECKPOINT'' \<and> perm = NM_PERM_READ \<or> type \<in> {''CHECKPOINT'', ''REVERT''} \<and> perm = NM_PERM_WRITE"
  shows "\<exists>code m. handle_client_message os ctx c u json = finish c (ctx, ReplyErr code m) \<and> code \<in> {ERR_NOAUTH, ERR_BADREQ} \<and>
    (code = ERR_BADREQ \<longrightarrow>
      (case json_get_string json ''tag'' NM_MAX_NAME of None \<Rightarrow> True | Some tag \<Rightarrow> \<not> valid_checkpoint_tag tag))"
proof -
  have ck: "\<exists>code m. checkpoint_target (nc_state ctx) u json perm d = Inl (ReplyErr code m) \<and> code \<in> {ERR_NOAUTH, ERR_BADREQ} \<and>
      (code = ERR_BADREQ \<longrightarrow>
        (case json_get_string json ''tag'' NM_MAX_NAME of None \<Rightarrow> True | Some tag \<Rightarrow> \<not> valid_checkpoint_tag tag))" for d
    using assms(2-4) by (auto simp: checkpoint_target_def split: option.split)
  let ?d = "if type = ''VIEWCHECKPOINT'' then ''no read access'' else ''no write access''"
  have "handle_client_message os ctx c u json = finish c (ctx, ReplyErr code m)"
    if "checkpoint_target (nc_state ctx) u json perm ?d = Inl (ReplyErr code m)" for code m
    using assms(1,5) that
    by (elim disjE conjE insertE emptyE)
      (simp_all add: handle_client_message_def handle_client_checkpoint_def handle_client_revert_def handle_client_viewcheckpoint_def)
  with ck [of ?d] show ?thesis by blast
qed

text \<open>C10: No access, no effect. A request that needs a permission on a file its sender does not have is
  answered with an error, \<^verbatim>\<open>ERR_NOAUTH\<close> unless the checkpoint tag is missing or invalid, and does
  nothing else: no storage server is contacted, no ticket is issued, no table, file on disk or queue
  changes.\<close>

theorem no_rights_no_effect:
  assumes "json_get_string json ''type'' 64 = Some type" and "needed_perm type = Some perm"
    and "json_get_string json ''file'' NM_MAX_NAME = Some n" and "nm_find_file (nc_state ctx) n = Some f"
    and "\<not> file_has_access f u perm"
  shows "\<exists>code message. code \<in> {ERR_NOAUTH, ERR_BADREQ} \<and>
    (code = ERR_BADREQ \<longrightarrow> type \<in> {''CHECKPOINT'', ''VIEWCHECKPOINT'', ''REVERT''} \<and>
       (case json_get_string json ''tag'' NM_MAX_NAME of None \<Rightarrow> True | Some tag \<Rightarrow> \<not> valid_checkpoint_tag tag)) \<and>
    handle_client_message os ctx c u json =
      (fst (send_error_response c code message), ctx, snd (send_error_response c code message))"
proof -
  have fin: "finish c (ctx, ReplyErr code m) = (fst (send_error_response c code m), ctx, snd (send_error_response c code m))" for code m
    by (simp add: finish_def split: prod.split)
  from assms(2) consider
      (plain) "type \<in> {''READ'', ''STREAM'', ''INFO'', ''EXEC'', ''LISTCHECKPOINTS''} \<and> perm = NM_PERM_READ \<or>
        type \<in> {''WRITE'', ''DELETE'', ''UNDO''} \<and> perm = NM_PERM_WRITE"
    | (tagged) "type = ''VIEWCHECKPOINT'' \<and> perm = NM_PERM_READ \<or> type \<in> {''CHECKPOINT'', ''REVERT''} \<and> perm = NM_PERM_WRITE"
    unfolding needed_perm_def by (metis insert_iff option.distinct(1) option.inject)
  then show ?thesis
  proof cases
    case plain
    from denied_plain [OF assms(1,3-5) plain, of os c] fin show ?thesis by auto
  next
    case tagged
    then have "type \<in> {''CHECKPOINT'', ''VIEWCHECKPOINT'', ''REVERT''}" by auto
    with denied_checkpoint [OF assms(1,3-5) tagged, of os c] fin show ?thesis by metis
  qed
qed

definition demo_delete :: string where
  "demo_delete = braces [fmt_str ''type'' ''DELETE'', fmt_str ''file'' ''a'']"

theorem no_rights_no_effect_witness:
  "fst (snd (handle_client_message nm_demo_os nm_demo_ctx demo_link ''bob'' demo_delete)) = nm_demo_ctx"
proof -
  obtain f where f: "nm_find_file (nc_state nm_demo_ctx) ''a'' = Some f" "strip f = demo_shared"
    using nm_demo_state_facts(4) by (auto simp: nm_demo_ctx_def)
  have e: "fe_owner f = ''alice''" "fe_acl f = [\<lparr>acl_user = ''bob'', acl_perm = 1\<rparr>]"
    using arg_cong [OF f(2), of fe_owner] arg_cong [OF f(2), of fe_acl]
    by (simp_all add: strip_def demo_shared_def new_file_entry_def NM_MAX_USER_def)
  have j: "json_get_string demo_delete ''type'' 64 = Some ''DELETE''" "json_get_string demo_delete ''file'' NM_MAX_NAME = Some ''a''"
    by code_simp+
  have n: "needed_perm ''DELETE'' = Some NM_PERM_WRITE" by (simp add: needed_perm_def)
  have "\<not> file_has_access f ''bob'' NM_PERM_WRITE"
    using e by (simp add: file_has_access_def find_acl_def NM_PERM_WRITE_def)
  from no_rights_no_effect [OF j(1) n j(2) f(1) this, of nm_demo_os demo_link] show ?thesis by auto
qed

text \<open>C17: Failover. When the connection to a storage server is lost, the server counts as down, no file keeps
  it as its backup, a file whose primary it was and whose backup is up moves to that backup, and a
  file that was on neither of its two places does not change.\<close>

theorem failover_on_disconnect:
  assumes "nm_wf (nc_state ctx)" and "p_type (nc_peers ctx ! i) = PEER_SERVER" and "0 \<le> p_server (nc_peers ctx ! i)"
    and "nm_find_file (nc_state ctx) n = Some f" and "ctx' = handle_server_disconnect os ctx i"
    and "s = p_server (nc_peers ctx ! i)"
  shows "nm_wf (nc_state ctx') \<and> \<not> server_is_available (nm_get_server (nc_state ctx') s) \<and>
    (\<exists>f'. nm_find_file (nc_state ctx') n = Some f' \<and> fe_backup f' \<noteq> s \<and> fe_owner f' = fe_owner f \<and> fe_acl f' = fe_acl f \<and>
      (fe_ss f = s \<and> server_is_available (nm_get_server (nc_state ctx) (fe_backup f)) \<longrightarrow>
         fe_ss f' = fe_backup f \<and> fe_backup f' = -1) \<and>
      (fe_ss f \<noteq> s \<longrightarrow> fe_ss f' = fe_ss f) \<and>
      (fe_ss f \<noteq> s \<and> fe_backup f \<noteq> s \<longrightarrow> f' = f))"
proof -
  have lost: "ctx' = server_lost os ctx s" using assms(2,3,5,6) by (simp add: handle_server_disconnect_def Let_def)
  have wf': "nm_wf (nc_state ctx')" using server_lost_calm [of os ctx s] assms(1) by (simp add: lost calm_def)
  let ?st = "nm_mark_server_down (nc_state ctx) s"
  let ?g = "\<lambda>f. fst (file_failover ?st s f)"
  have fold: "nc_state (fold (\<lambda>r c. try_assign_backup os c (fe_name (fst r))) rs c) = nc_state c" for rs :: "(file_entry \<times> bool) list" and c
    by (induction rs arbitrary: c) (simp_all add: try_assign_calm(2))
  have st': "nc_state ctx' = ?st\<lparr>nm_files := map ?g (nm_files ?st)\<rparr>"
    unfolding lost server_lost_def Let_def fold by (simp add: comp_def)
  note M = map_files [where g = ?g, OF mark_down_wf [OF assms(1), of s] failover_keeps(1,2,5)]
  have "nm_find_file ?st n = Some f" using assms(4) find_cong [of ?st "nc_state ctx"] by (simp add: mark_down_rest)
  then have find: "nm_find_file (nc_state ctx') n = Some (?g f)" unfolding st' by (simp add: M(2))
  have down: "\<not> server_is_available (nm_get_server ?st s)"
    by (auto simp: available_iff nm_mark_server_down_def server_up_def)
  have other: "server_is_available (nm_get_server ?st b) \<longleftrightarrow> server_is_available (nm_get_server (nc_state ctx) b)" if "b \<noteq> s" for b
  proof -
    have "nat b \<noteq> nat s \<or> b < 0" using that assms(3,6) by auto
    then show ?thesis by (auto simp: available_iff nm_mark_server_down_def)
  qed
  have "\<not> server_is_available (nm_get_server (nc_state ctx') s)" using down by (simp add: st' available_iff)
  moreover have "fe_backup (?g f) \<noteq> s"
    using assms(3,6) by (auto simp: file_failover_def use_backup_def drop_backup_only_def)
  moreover have "fe_ss f = s \<and> server_is_available (nm_get_server (nc_state ctx) (fe_backup f)) \<longrightarrow>
      fe_ss (?g f) = fe_backup f \<and> fe_backup (?g f) = -1"
  proof
    assume a: "fe_ss f = s \<and> server_is_available (nm_get_server (nc_state ctx) (fe_backup f))"
    then have b: "0 \<le> fe_backup f" by (simp add: available_iff)
    then have "fe_backup f \<noteq> s" using found_good(1) [OF assms(1,4)] a by (auto simp: file_good_def)
    then show "fe_ss (?g f) = fe_backup f \<and> fe_backup (?g f) = -1"
      using a b other assms(3,6) by (simp add: file_failover_def use_backup_def)
  qed
  moreover have "fe_ss f \<noteq> s \<longrightarrow> fe_ss (?g f) = fe_ss f" "fe_ss f \<noteq> s \<and> fe_backup f \<noteq> s \<longrightarrow> ?g f = f"
    by (auto simp: file_failover_def drop_backup_only_def)
  ultimately show ?thesis using wf' find failover_keeps(3,4) by blast
qed

theorem failover_on_disconnect_witness:
  "\<exists>f'. nm_find_file (nc_state (handle_server_disconnect nm_demo_os nm_demo_ctx 0)) ''a'' = Some f' \<and> fe_ss f' = 2 \<and> fe_backup f' = -1"
proof -
  have wf: "nm_wf (nc_state nm_demo_ctx)" using nm_demo_state_facts(1) by (simp add: nm_demo_ctx_def)
  obtain f where f: "nm_find_file (nc_state nm_demo_ctx) ''a'' = Some f" "strip f = demo_shared"
    using nm_demo_state_facts(4) by (auto simp: nm_demo_ctx_def)
  have e: "fe_ss f = 0" "fe_backup f = 2"
    using arg_cong [OF f(2), of fe_ss] arg_cong [OF f(2), of fe_backup] by (simp_all add: strip_def demo_shared_def new_file_entry_def)
  have p: "p_type (nc_peers nm_demo_ctx ! 0) = PEER_SERVER" "p_server (nc_peers nm_demo_ctx ! 0) = 0"
    by (simp_all add: nm_demo_ctx_def demo_peers_def)
  have "server_is_available (nm_get_server (nc_state nm_demo_ctx) 2)"
    using nm_demo_state_facts(2)
    by (simp add: nm_demo_ctx_def nm_get_server_def demo_servers_def server_is_available_def registered_def)
  with failover_on_disconnect [OF wf p(1) _ f(1) refl refl, of nm_demo_os] p(2) e show ?thesis by auto
qed

text \<open>The three things a task can do to the tables.\<close>

lemma run_task_cases:
  obtains (same) "nc_state (run_task os ctx task) = nc_state ctx"
  | (dropped) "nc_state (run_task os ctx task) = nm_modify_file (nc_state ctx) (rt_file task) drop_backup_only"
  | (assigned) e t ctx1 where "nm_find_file (nc_state ctx) (rt_file task) = Some e"
      "replicate_file_to_backup os ctx (rt_file task) (buf NM_MAX_USER (fe_owner e)) (fe_ss e) t = (True, ctx1)"
      "nc_state (run_task os ctx task) = nm_modify_file (nc_state ctx) (rt_file task) (\<lambda>f. f\<lparr>fe_backup := t\<rparr>)"
proof (cases "nm_find_file (nc_state ctx) (rt_file task)")
  case None
  then show ?thesis by (intro same) (simp add: run_task_def)
next
  case (Some e)
  let ?t = "if rt_assign task then backup_target (nc_state ctx) (fe_ss e) else rt_backup task"
  obtain r ctx1 where rep: "replicate_file_to_backup os ctx (rt_file task) (buf NM_MAX_USER (fe_owner e)) (fe_ss e) ?t = (r, ctx1)"
    by fastforce
  have st1: "nc_state ctx1 = nc_state ctx" using replicate_keeps [OF rep] by simp
  have fail: "nc_state (handle_replication_failure os ctx1 task ?t) = nc_state ctx \<or>
      nc_state (handle_replication_failure os ctx1 task ?t) = nm_modify_file (nc_state ctx) (rt_file task) drop_backup_only"
    using st1 Some by (auto simp: handle_replication_failure_def Let_def drop_file_backup_def try_assign_calm(2))
  have fin: "nc_state (finish_replication os ctx1 task (fe_ss e) ?t) = nc_state ctx \<or>
      nc_state (finish_replication os ctx1 task (fe_ss e) ?t) = nm_modify_file (nc_state ctx) (rt_file task) (\<lambda>f. f\<lparr>fe_backup := ?t\<rparr>)"
    using st1 Some by (auto simp: finish_replication_def)
  have "run_task os ctx task = ctx \<or>
      run_task os ctx task = (if r then finish_replication os ctx1 task (fe_ss e) ?t else handle_replication_failure os ctx1 task ?t)"
    unfolding run_task_def Some option.case Let_def rep prod.case by (cases r) simp_all
  then consider "run_task os ctx task = ctx" | "run_task os ctx task = handle_replication_failure os ctx1 task ?t"
    | "r" "run_task os ctx task = finish_replication os ctx1 task (fe_ss e) ?t"
    by metis
  then show ?thesis
  proof cases
    case 1
    then show ?thesis by (intro same) simp
  next
    case 2
    then show ?thesis using fail same dropped by auto
  next
    case 3
    then show ?thesis using fin same assigned [OF Some, of ?t ctx1] rep by auto
  qed
qed

lemma replicate_ok:
  assumes "replicate_file_to_backup os ctx n ow p b = (True, ctx')"
  shows "p \<noteq> b \<and> (\<exists>primary backup ticket payload w response.
    nm_get_server (nc_state ctx) p = Some primary \<and> nm_get_server (nc_state ctx) b = Some backup \<and> server_up backup \<and>
    sync_payload n ow primary ticket = Some payload \<and>
    fst (no_rpc os (ss_ctrl_fd backup) payload w) = Some response \<and> status_ok response)"
proof -
  obtain primary backup ticket ctx1 payload response where
    r: "p \<noteq> b" "nm_get_server (nc_state ctx) p = Some primary" "nm_get_server (nc_state ctx) b = Some backup"
    "server_is_available (Some backup)" "sync_payload n ow primary ticket = Some payload"
    "forward_command os ctx1 backup payload = (Some response, ctx')" "status_ok response"
    using assms by (auto simp: replicate_file_to_backup_def split: if_splits option.splits prod.splits)
  have "\<exists>w. fst (no_rpc os (ss_ctrl_fd backup) payload w) = Some response"
    using r(6) by (auto simp: forward_command_def split: option.splits prod.splits intro: exI [of _ "nc_world ctx1"])
  moreover have "server_up backup" using r(4) by (simp add: server_is_available_def server_up_def)
  ultimately show ?thesis using r by blast
qed

text \<open>C18: A backup is recorded only after a copy. When a round of the replication worker gives a file a
  new backup, then the primary is unchanged, the backup is another server, which is up, and that server
  has answered \<^verbatim>\<open>OK\<close> to an \<^verbatim>\<open>NM_SYNC\<close> command that names the file, its owner, the address of its
  primary and a ticket.\<close>

theorem backup_after_sync:
  assumes "nm_wf (nc_state ctx)" and "nm_find_file (nc_state ctx) n = Some f"
    and "nm_find_file (nc_state (replication_worker os ctx)) n = Some f'"
    and "fe_backup f' \<noteq> fe_backup f" and "0 \<le> fe_backup f'"
  shows "fe_ss f' = fe_ss f \<and> fe_backup f' \<noteq> fe_ss f \<and>
    (\<exists>primary backup ticket payload w response.
       nm_get_server (nc_state ctx) (fe_ss f) = Some primary \<and>
       nm_get_server (nc_state ctx) (fe_backup f') = Some backup \<and> server_up backup \<and>
       sync_payload n (buf NM_MAX_USER (fe_owner f)) primary ticket = Some payload \<and>
       fst (no_rpc os (ss_ctrl_fd backup) payload w) = Some response \<and> status_ok response)"
proof -
  obtain task where task: "array_get (nc_queue ctx) 0 = Some task"
    using assms(2-4) by (cases "array_get (nc_queue ctx) 0") (auto simp: replication_worker_def)
  let ?ctx = "ctx\<lparr>nc_queue := array_remove (nc_queue ctx) 0\<rparr>"
  have run: "replication_worker os ctx = run_task os ?ctx task" using task by (simp add: replication_worker_def)
  have inv: "nm_inv (nc_state ctx)" by (rule nm_wf_inv [OF assms(1)])
  show ?thesis
  proof (cases rule: run_task_cases [of os ?ctx task])
    case same
    then show ?thesis using assms(2-4) run by simp
  next
    case dropped
    have "fe_backup f' < 0 \<or> f' = f"
    proof (cases "nm_find_file (nc_state ctx) (rt_file task)")
      case None
      then have "nm_modify_file (nc_state ctx) (rt_file task) drop_backup_only = nc_state ctx"
        by (auto simp: nm_modify_file_def nm_find_file_def split: option.splits if_splits)
      then show ?thesis using dropped assms(2,3) run by simp
    next
      case (Some e)
      then show ?thesis
        using dropped run assms(2,3) nm_modify_file_props(2) [OF inv Some, of drop_backup_only n]
        by (auto simp: drop_backup_only_def split: if_splits)
    qed
    then show ?thesis using assms(4,5) by auto
  next
    case (assigned e t ctx1)
    have e: "nm_find_file (nc_state ctx) (rt_file task) = Some e" using assigned(1) by simp
    have "n = rt_file task \<and> f' = f\<lparr>fe_backup := t\<rparr> \<and> e = f"
      using assms(2-4) assigned(3) run e nm_modify_file_props(2) [OF inv e, of "\<lambda>f. f\<lparr>fe_backup := t\<rparr>" n]
      by (auto split: if_splits)
    with replicate_ok [OF assigned(2)] show ?thesis by auto
  qed
qed

text \<open>A manager with the file \<open>a\<close> without a backup and a task to find one.\<close>

definition demo_single :: "nat nm_context" where
  "demo_single = nm_demo_ctx\<lparr>nc_state := nm_modify_file nm_demo_state ''a'' drop_backup_only,
     nc_queue := (array_init 8)\<lparr>items := [\<lparr>rt_file = ''a'', rt_owner = ''alice'', rt_primary = 0, rt_backup = -1, rt_assign = True\<rparr>]\<rparr>\<rparr>"

definition demo_token :: string where "demo_token = fst (randutil_token (no_rand nm_demo_os) 63 0)"

lemma demo_token_facts:
  "randutil_token (no_rand nm_demo_os) 63 0 = (demo_token, 63)"
  "status_ok (braces [fmt_str ''status'' ''OK''])"
  "length (ticket_payload \<lparr>te_token = demo_token, te_file = ''a'', te_user = ''alice'', te_op = ''READ'', te_expiry = 80, te_ss = 0\<rparr>) < 512"
  "sync_payload ''a'' ''alice'' (registered ''ss1'' ''host1'' ''9001'' ''9101'' 5) demo_token \<noteq> None"
  by code_simp+

lemma demo_forward:
  assumes "nc_peers ctx = demo_peers" and "ss_ctrl_fd ss \<in> {5, 7}"
  shows "forward_command nm_demo_os ctx ss payload = (Some (braces [fmt_str ''status'' ''OK'']), ctx\<lparr>nc_world := Suc (nc_world ctx)\<rparr>)"
  using assms by (auto simp: forward_command_def find_server_peer_def demo_peers_def nm_demo_os_def)

lemma demo_issue:
  assumes "nc_peers ctx = demo_peers" and "nc_world ctx = 0" and "nc_tickets ctx = array_init 8"
    and "length (ticket_payload \<lparr>te_token = demo_token, te_file = n, te_user = u, te_op = op, te_expiry = 80, te_ss = 0\<rparr>) < 512"
    and "length n < NM_MAX_NAME" and "length u < NM_MAX_USER" and "length op < 16"
  shows "\<exists>ctx1. issue_ticket nm_demo_os ctx (registered ''ss1'' ''host1'' ''9001'' ''9101'' 5) 0 n u op = (Some demo_token, ctx1) \<and>
    nc_peers ctx1 = demo_peers"
proof -
  let ?s1 = "registered ''ss1'' ''host1'' ''9001'' ''9101'' 5"
  have pr: "ticket_prune nm_demo_os ctx = ctx"
    using assms(3) by (cases ctx) (simp add: ticket_prune_def array_init_def array_prune_loop.simps array_get_def)
  let ?e = "\<lparr>te_token = demo_token, te_file = n, te_user = u, te_op = op, te_expiry = 80, te_ss = 0\<rparr>"
  obtain arr where push: "array_push (no_mem nm_demo_os) (array_init 8) ?e = Some arr"
    using array_push_mem [of "no_mem nm_demo_os" "array_init 8" ?e] by (auto simp: nm_demo_os_def)
  have now: "no_now nm_demo_os = 50" by (simp add: nm_demo_os_def)
  have fd: "ss_ctrl_fd ?s1 \<in> {5, 7}" by (simp add: registered_def)
  show ?thesis
    using push demo_token_facts(1,2) assms demo_forward [where ss = ?s1, OF _ fd]
    by (auto simp: issue_ticket_def pr Let_def now TICKET_TTL_def split: option.splits)
qed

lemma demo_replicate:
  assumes "nc_peers ctx = demo_peers" and "nm_servers (nc_state ctx) = nm_servers demo_servers" and "nc_world ctx = 0"
    and "nc_tickets ctx = array_init 8"
  shows "fst (replicate_file_to_backup nm_demo_os ctx ''a'' ''alice'' 0 2)"
proof -
  let ?s1 = "registered ''ss1'' ''host1'' ''9001'' ''9101'' 5" and ?s3 = "registered ''ss3'' ''host3'' ''9003'' ''9103'' 7"
  have s: "nm_get_server (nc_state ctx) 0 = Some ?s1" "nm_get_server (nc_state ctx) 2 = Some ?s3"
    using assms(2) by (simp_all add: nm_get_server_def demo_servers_def)
  have up: "server_is_available (Some ?s1)" "server_is_available (Some ?s3)" by (simp_all add: server_is_available_def registered_def)
  have fd: "ss_ctrl_fd ?s3 \<in> {5, 7}" by (simp add: registered_def)
  obtain ctx1 where i: "issue_ticket nm_demo_os ctx ?s1 0 ''a'' ''alice'' ''READ'' = (Some demo_token, ctx1)" "nc_peers ctx1 = demo_peers"
    using demo_issue [OF assms(1,3,4) demo_token_facts(3)] by (auto simp: NM_MAX_NAME_def NM_MAX_USER_def)
  show ?thesis
    using s up i demo_forward [OF i(2) fd] demo_token_facts(2,4)
    by (auto simp: replicate_file_to_backup_def split: option.splits)
qed

theorem backup_after_sync_witness:
  "\<exists>f'. nm_find_file (nc_state (replication_worker nm_demo_os demo_single)) ''a'' = Some f' \<and> fe_ss f' = 0 \<and> fe_backup f' = 2 \<and>
     (\<exists>backup. nm_get_server (nc_state demo_single) 2 = Some backup \<and> server_up backup)"
proof -
  let ?st = "nm_modify_file nm_demo_state ''a'' drop_backup_only"
  obtain f0 where f0: "nm_find_file nm_demo_state ''a'' = Some f0" "strip f0 = demo_shared"
    using nm_demo_state_facts(4) by auto
  have inv: "nm_inv nm_demo_state" by (rule nm_wf_inv [OF nm_demo_state_facts(1)])
  have wf: "nm_wf ?st" using drop_backup_wf [OF nm_demo_state_facts(1)] by blast
  note M = nm_modify_file_props(2,3) [OF inv f0(1), of drop_backup_only]
  let ?f = "drop_backup_only f0"
  have find: "nm_find_file ?st ''a'' = Some ?f" by (simp add: M(1) drop_backup_only_def)
  have e: "fe_ss ?f = 0" "fe_backup ?f = -1" "fe_owner ?f = ''alice''" "buf NM_MAX_USER (fe_owner ?f) = ''alice''"
    using arg_cong [OF f0(2), of fe_ss] arg_cong [OF f0(2), of fe_owner] arg_cong [OF f0(2), of fe_backup]
    by (simp_all add: strip_def demo_shared_def new_file_entry_def NM_MAX_USER_def drop_backup_only_def)
  have sv: "nm_servers ?st = nm_servers demo_servers"
  proof -
    have "?st = nm_demo_state\<lparr>nm_files := nm_files ?st\<rparr>" by (rule M(2)) (simp_all add: drop_backup_only_def)
    then show ?thesis using nm_demo_state_facts(2) by (metis (lifting) nm_state.surjective nm_state.update_convs(1) nm_state.simps)
  qed
  have tgt: "backup_target ?st 0 = 2"
    using sv by (simp add: backup_target_def demo_servers_def nm_get_server_def server_is_available_def registered_def upt_rec)
  let ?t = "\<lparr>rt_file = ''a'', rt_owner = ''alice'', rt_primary = 0, rt_backup = -1, rt_assign = True\<rparr>"
  let ?c = "demo_single\<lparr>nc_queue := array_remove (nc_queue demo_single) 0\<rparr>"
  obtain ctx1 where r: "replicate_file_to_backup nm_demo_os ?c ''a'' ''alice'' 0 2 = (True, ctx1)"
    using demo_replicate [of ?c] sv by (cases "replicate_file_to_backup nm_demo_os ?c ''a'' ''alice'' 0 2") (simp add: demo_single_def nm_demo_ctx_def)
  have st1: "nc_state ctx1 = ?st" using replicate_keeps [OF r] by (simp add: demo_single_def)
  have run: "replication_worker nm_demo_os demo_single = run_task nm_demo_os ?c ?t"
    by (simp add: replication_worker_def demo_single_def array_get_def)
  have "run_task nm_demo_os ?c ?t = finish_replication nm_demo_os ctx1 ?t 0 2"
    using find e r tgt by (simp add: run_task_def demo_single_def)
  moreover have "nc_state (finish_replication nm_demo_os ctx1 ?t 0 2) = nm_modify_file ?st ''a'' (\<lambda>f. f\<lparr>fe_backup := 2\<rparr>)"
    using find e st1 by (simp add: finish_replication_def)
  ultimately have f': "nm_find_file (nc_state (replication_worker nm_demo_os demo_single)) ''a'' = Some (?f\<lparr>fe_backup := 2\<rparr>)"
    using nm_modify_file_props(2) [OF nm_wf_inv [OF wf] find, of "\<lambda>f. f\<lparr>fe_backup := 2\<rparr>"] run by simp
  have "nm_wf (nc_state demo_single)" "nm_find_file (nc_state demo_single) ''a'' = Some ?f" using wf find by (simp_all add: demo_single_def)
  from backup_after_sync [OF this f'] e f' show ?thesis by auto
qed

end
