(* ===== verification/NM_Durable.thy ===== *)
theory NM_Durable
  imports NM_Props
begin

text \<open>
  The state file of the name manager. Every event that changes owners or access lists ends with a
  save, so that between two events the file on disk holds exactly the rights that are in force.
\<close>

section \<open>Every event keeps the state file up to date\<close>

definition kept :: "'w nm_os \<Rightarrow> 'w nm_context \<Rightarrow> 'w nm_context \<Rightarrow> bool" where
  "kept os a b \<longleftrightarrow> (nm_wf (nc_state a) \<longrightarrow> nm_wf (nc_state b) \<and> nm_persist_path (nc_state b) = nm_persist_path (nc_state a) \<and>
     (saves os \<and> durable a \<longrightarrow> durable b))"

lemma kept_refl [simp]: "kept os a a"
  by (simp add: kept_def)

lemma kept_trans: "kept os a b \<Longrightarrow> kept os b c \<Longrightarrow> kept os a c"
  by (auto simp: kept_def)

lemma kept_calm: "calm os a b \<Longrightarrow> kept os a b"
  by (simp add: kept_def calm_def)

lemma kept_acts: "acts os u a b \<Longrightarrow> kept os a b"
  by (simp add: kept_def acts_defs)

text \<open>Connections and active users do not matter.\<close>

lemma kept_same: "nc_state b = nc_state a \<Longrightarrow> nc_disk b = nc_disk a \<Longrightarrow> kept os a b"
  using durable_cong [of a b] by (simp add: kept_def)

lemma kept_state:
  assumes "nm_wf (nc_state a) \<Longrightarrow> nm_wf (nc_state b)" "nm_wf (nc_state a) \<Longrightarrow> grants (nc_state b) = grants (nc_state a)"
    and "nm_persist_path (nc_state b) = nm_persist_path (nc_state a)" "nc_disk b = nc_disk a"
  shows "kept os a b"
  using assms durable_cong [of a b] by (simp add: kept_def)

lemma peer_simps [simp]:
  "nc_state (set_peer ctx i p) = nc_state ctx" "nc_disk (set_peer ctx i p) = nc_disk ctx"
  "nc_state (peer_close ctx i) = nc_state ctx" "nc_disk (peer_close ctx i) = nc_disk ctx"
  "nc_state (snd (peer_reply ctx i r)) = nc_state ctx" "nc_disk (snd (peer_reply ctx i r)) = nc_disk ctx"
  by (simp_all add: set_peer_def peer_close_def peer_reply_def Let_def split: prod.split)

lemma reply_kept: "kept os ctx (snd (peer_reply ctx i r))"
  by (rule kept_same) simp_all

lemma register_path: "nm_register_server st sid h c d fd = (r, st') \<Longrightarrow> nm_persist_path st' = nm_persist_path st"
  by (auto simp: nm_register_server_def split: option.splits if_splits)

lemma handle_ss_register_kept: "kept os ctx (snd (handle_ss_register os ctx i json))"
proof -
  have "kept os ctx (snd (peer_reply (set_peer (set_state ctx st) i p) i m)) \<and>
      kept os ctx (assign_missing_backups os (snd (peer_reply (set_peer (set_state ctx st) i p) i m)))"
    if "json_get_string json ''ssId'' 64 = Some sid" "nm_register_server (nc_state ctx) sid h c d fd = (Some idx, st)"
    for sid h c d fd idx st p m
  proof -
    have "length sid < NM_MAX_NAME" using json_get_string_short [OF that(1)] by (simp add: NM_MAX_NAME_def)
    then have "kept os ctx (set_state ctx st)"
      using register_server_wf [OF _ _ that(2)] register_path [OF that(2)] by (intro kept_state) simp_all
    then have "kept os ctx (snd (peer_reply (set_peer (set_state ctx st) i p) i m))"
      by (rule kept_trans) (rule kept_same, simp_all)
    then show ?thesis using kept_trans kept_calm [OF assign_missing_calm] by blast
  qed
  note new = this
  show ?thesis
    by (auto simp: handle_ss_register_def Let_def reply_kept split: option.split prod.split bool.split)
      (metis new snd_conv)+
qed

lemma handle_hello_kept: "kept os ctx (snd (handle_hello os ctx i json))"
proof -
  have "nc_state ctx1 = nc_state ctx" "nc_disk ctx1 = nc_disk ctx" if "active_user_add os ctx u = (b, ctx1)" for u b ctx1
    using that by (auto simp: active_user_add_def split: if_splits option.splits)
  then show ?thesis
    by (auto simp: handle_hello_def Let_def reply_kept add_user_wf add_user_grants add_user_rest
        split: option.split prod.split bool.split intro!: kept_state)
qed

lemma dispatch_kept:
  assumes "nm_ctx_inv ctx" "i < length (nc_peers ctx)"
  shows "kept os ctx (snd (dispatch_message os ctx i json))"
proof (cases "p_type (nc_peers ctx ! i)")
  case PEER_CLIENT
  let ?p = "nc_peers ctx ! i"
  obtain x ctx1 c where m: "handle_client_message os ctx (p_conn ?p) (p_user ?p) json = (x, ctx1, c)" by (metis prod_cases3)
  have "acts os (p_user ?p) ctx ctx1"
    using message_acts [OF ctx_inv_wf [OF assms(1)] inv_user_short [OF assms], of os "p_conn ?p" json] m by simp
  then have "kept os ctx (set_peer ctx1 i q)" for q by (rule kept_acts [THEN kept_trans]) (rule kept_same, simp_all)
  then show ?thesis using PEER_CLIENT m by (simp add: dispatch_message_def)
qed (auto simp: dispatch_message_def handle_handshake_def handle_ss_register_kept handle_hello_kept reply_kept
    handle_server_message_def kept_calm [OF update_calm] split: option.split)

lemma drop_peer_kept: "kept os ctx (peer_close (handle_server_disconnect os ctx i) i)"
proof -
  have "kept os ctx (handle_server_disconnect os ctx i)"
    by (auto simp: handle_server_disconnect_def Let_def active_user_remove_def kept_calm [OF server_lost_calm]
        split: option.split intro: kept_same)
  then show ?thesis by (rule kept_trans) (rule kept_same, simp_all)
qed

lemma nm_step_kept:
  assumes "nm_ctx_inv ctx"
  shows "kept os ctx (nm_step os e ctx)"
proof -
  have "kept os ctx (peer_round os ctx i received)" if i: "i < length (nc_peers ctx)" for i received
  proof (cases received)
    case None
    then show ?thesis by (simp add: peer_round_def drop_peer_kept)
  next
    case (Some json)
    obtain b ctx1 where d: "dispatch_message os ctx i json = (b, ctx1)" by fastforce
    then have "kept os ctx ctx1" using dispatch_kept [OF assms i, of os json] by simp
    with d Some show ?thesis by (auto simp: peer_round_def split: bool.split intro: kept_trans [OF _ drop_peer_kept])
  qed
  then show ?thesis
    by (cases e) (auto simp: accept_peer_def ticket_prune_def kept_calm [OF worker_calm] split: option.split intro: kept_same)
qed

section \<open>The state file over all runs\<close>

lemma run_durable:
  assumes "nm_ctx_inv ctx" "durable ctx" "\<forall>oe \<in> set es. saves (fst oe)"
  shows "durable (fold nm_event_step es ctx) \<and>
    nm_persist_path (nc_state (fold nm_event_step es ctx)) = nm_persist_path (nc_state ctx)"
  using assms
proof (induction es arbitrary: ctx)
  case (Cons oe es)
  have "kept (fst oe) ctx (nm_event_step oe ctx)" unfolding nm_event_step_def by (rule nm_step_kept [OF Cons.prems(1)])
  then have "durable (nm_event_step oe ctx)" "nm_persist_path (nc_state (nm_event_step oe ctx)) = nm_persist_path (nc_state ctx)"
    using Cons.prems by (simp_all add: kept_def ctx_inv_wf)
  then show ?case using Cons.IH [OF nm_loop.step_inv [OF Cons.prems(1)]] Cons.prems(3) by simp
qed simp

lemma nm_start_durable:
  assumes "d (buf 256 path) = None" and "buf 256 path \<noteq> []"
  shows "durable (nm_start rd d path sizes w)" and "nm_persist_path (nc_state (nm_start rd d path sizes w)) = buf 256 path"
proof -
  let ?st = "nm_state_init rd d (Some path)"
  have p: "nm_persist_path ?st = buf 256 path" and f: "nm_files ?st = []"
    using assms by (simp_all add: nm_state_init_def nm_state_load_def clear_state_def)
  have "nm_inv ?st" using nm_start_inv [where d = d, OF assms(1), of rd sizes w] by (simp add: nm_ctx_inv_def nm_wf_def nm_start_def)
  then have "nm_find_file ?st n = None" for n using nm_find_file_None_iff f by simp
  then have "grants ?st = Map.empty" by (simp add: fun_eq_iff grants_def)
  then show "durable (nm_start rd d path sizes w)" using assms p by (simp add: durable_def nm_start_def)
  show "nm_persist_path (nc_state (nm_start rd d path sizes w)) = buf 256 path" using p by (simp add: nm_start_def)
qed



end
