(* ===== verification/NM_Answers.thy ===== *)
theory NM_Answers
  imports NM_Props
begin

text \<open>
  The replies of the name manager as messages: whatever a client sends, what it gets back has the form
  the client expects.
\<close>

definition typed_reply :: "string \<Rightarrow> bool" where
  "typed_reply r \<longleftrightarrow> length r < MAX_JSON \<and>
     (status_ok r \<or>
      (json_get_string r ''status'' 16 = Some ''ERR'' \<and> (\<exists>code. json_get_string r ''code'' 32 = Some (error_code_name code))))"

text \<open>At most one reply; exactly one if the connection takes it and is kept.\<close>

definition answered :: "conn \<Rightarrow> bool \<times> 'w nm_context \<times> conn \<Rightarrow> bool" where
  "answered c result =
     (case result of (stay, ctx', c') \<Rightarrow>
        inbox c' = inbox c \<and> send_limit c' = send_limit c \<and>
        (outbox c' = outbox c \<or> (\<exists>r. outbox c' = outbox c @ [r] \<and> typed_reply r)) \<and>
        (stay \<and> length (outbox c) < send_limit c \<longrightarrow> outbox c' \<noteq> outbox c))"

named_theorems answer_intros

lemma ok_text:
  "extra \<noteq> [] \<Longrightarrow> status_ok (braces [fmt_str ''status'' ''OK'', extra])" "status_ok (braces [fmt_str ''status'' ''OK''])"
  by (simp_all add: status_ok_def json_get_string_def string_pattern_def braces_def fmt_str_def)

lemma error_text:
  "json_get_string (braces [fmt_str ''status'' ''ERR'', fmt_str ''code'' (error_code_name code), m]) ''status'' 16 = Some ''ERR''"
  "json_get_string (braces [fmt_str ''status'' ''ERR'', fmt_str ''code'' (error_code_name code), m]) ''code'' 32 = Some (error_code_name code)"
  by (cases code; simp add: json_get_string_def string_pattern_def braces_def fmt_str_def)+

lemma send_reply_typed:
  assumes "send_reply c r = (b, c')"
  obtains "c' = c" "\<not> b" | m where "b" "c' = c\<lparr>outbox := outbox c @ [m]\<rparr>" "typed_reply m"
proof -
  obtain m where m: "length m < MAX_JSON \<Longrightarrow> typed_reply m"
    and s: "send_reply c r = (if length m < MAX_JSON then conn_send c m else (False, c))"
  proof (cases r)
    case (ReplyOk extra)
    then show thesis using that [of "braces (if extra \<noteq> [] then [fmt_str ''status'' ''OK'', extra] else [fmt_str ''status'' ''OK''])"]
      by (auto simp: typed_reply_def ok_text send_ok_def Let_def)
  next
    case (ReplyErr code message)
    then show thesis
      using that [of "braces [fmt_str ''status'' ''ERR'', fmt_str ''code'' (error_code_name code), fmt_str ''message'' message]"]
      by (auto simp: typed_reply_def error_text send_error_response_def Let_def)
  qed
  show thesis using assms s m that by (auto simp: conn_send_def split: if_splits)
qed

lemma answered_finish [answer_intros]: "answered c (finish c r)"
proof -
  obtain b c' where s: "send_reply c (snd r) = (b, c')" by fastforce
  from s show ?thesis by (cases rule: send_reply_typed) (simp_all add: answered_def finish_def s)
qed

lemma answered_if [answer_intros]: "answered c x \<Longrightarrow> answered c y \<Longrightarrow> answered c (if b then x else y)"
  by simp

lemma answered_option [answer_intros]:
  "answered c x \<Longrightarrow> (\<And>v. answered c (f v)) \<Longrightarrow> answered c (case opt of None \<Rightarrow> x | Some v \<Rightarrow> f v)"
  by (cases opt) simp_all

lemma answered_pair [answer_intros]: "(\<And>a b. answered c (f a b)) \<Longrightarrow> answered c (case p of (a, b) \<Rightarrow> f a b)"
  by (cases p) simp

lemma answered_exit: "answered c (False, ctx, snd (send_reply c r))"
proof -
  obtain b c' where s: "send_reply c r = (b, c')" by fastforce
  from s show ?thesis by (cases rule: send_reply_typed) (simp_all add: answered_def s)
qed

text \<open>The two replies that follow the answer of a storage server to an undo always fit.\<close>

lemma answered_undone:
  "answered c (True, ctx, snd (send_reply c (if b then ReplyOk (fmt_str ''op'' ''UNDO'') else ReplyErr ERR_CONFLICT ''undo not possible'')))"
proof -
  let ?r = "if b then ReplyOk (fmt_str ''op'' ''UNDO'') else ReplyErr ERR_CONFLICT ''undo not possible''"
  obtain sent c' where s: "send_reply c ?r = (sent, c')" by fastforce
  have "sent \<or> send_limit c \<le> length (outbox c)"
    using s by (auto simp: send_ok_def send_error_response_def conn_send_def braces_def fmt_str_def MAX_JSON_def split: if_splits)
  then show ?thesis by (cases rule: send_reply_typed [OF s]) (simp_all add: answered_def s)
qed

lemma answered_undo: "answered c (handle_client_undo os ctx c user json)"
  unfolding handle_client_undo_def Let_def by (intro answer_intros answered_undone)

text \<open>C16: Every request of a client is answered in the form the client reads. Whatever the message,
  at most one reply is sent; it is shorter than the receiver's limit and its status reads as \<^verbatim>\<open>OK\<close>, or as \<^verbatim>\<open>ERR\<close>
  with the name of an error code. If the connection is kept afterwards and accepted the message, exactly one reply was sent,
  so that replies and requests stay in step.\<close>

theorem one_typed_answer:
  "case handle_client_message os ctx c user json of (stay, ctx', c') \<Rightarrow>
     inbox c' = inbox c \<and>
     (outbox c' = outbox c \<or> (\<exists>r. outbox c' = outbox c @ [r] \<and> typed_reply r)) \<and>
     (stay \<and> length (outbox c) < send_limit c \<longrightarrow> outbox c' \<noteq> outbox c)"
proof -
  have "answered c (handle_client_message os ctx c user json)"
    unfolding handle_client_message_def by (intro answer_intros answered_undo answered_exit)
  then show ?thesis by (auto simp: answered_def split: prod.splits)
qed

theorem one_typed_answer_witness:
  "\<exists>r. outbox (snd (snd (handle_client_message nm_demo_os nm_demo_ctx \<lparr>inbox = [], outbox = [], send_limit = 1\<rparr> ''ann'' ''{}''))) = [r] \<and>
     typed_reply r"
proof -
  let ?c = "\<lparr>inbox = [], outbox = [], send_limit = 1\<rparr>"
  have "json_get_string ''{}'' ''type'' 64 = None" by code_simp
  moreover have "fst (finish ?c (nm_demo_ctx, ReplyErr ERR_BADREQ ''missing type''))"
    by (simp add: finish_def send_error_response_def conn_send_def braces_def fmt_str_def MAX_JSON_def)
  ultimately have "fst (handle_client_message nm_demo_os nm_demo_ctx ?c ''ann'' ''{}'')" by (simp add: handle_client_message_def)
  then show ?thesis using one_typed_answer [where os = nm_demo_os and ctx = nm_demo_ctx and c = ?c and user = "''ann''" and json = "''{}''"] by (auto split: prod.splits)
qed

end
