(* ===== verification/Common_Sock.thy ===== *)
theory Common_Sock
  imports Common_Net
begin

text \<open>
  Sockets, the second half of \<^verbatim>\<open>common/net_proto.c\<close>: \<^verbatim>\<open>net_listen\<close>, \<^verbatim>\<open>net_connect\<close> and \<^verbatim>\<open>net_close\<close>, with the
  list of the descriptors that are open in the process. A new descriptor is the lowest number that is
  free, as POSIX requires. The addresses of \<^verbatim>\<open>getaddrinfo\<close> and what the system calls answer for each of them are the
  record \<open>sock_env\<close>; the text on standard error is left out.
\<close>

section \<open>Descriptors\<close>

type_synonym descriptors = "nat list"

definition lowest_free :: "descriptors \<Rightarrow> nat" where
  "lowest_free ds = hd (filter (\<lambda>n. n \<notin> set ds) [0..<Suc (length ds)])"

lemma lowest_free_new: "lowest_free ds \<notin> set ds"
proof -
  have "card (set ds) < card {0..<Suc (length ds)}" using card_length [of ds] by simp
  then have "\<exists>n \<in> {0..<Suc (length ds)}. n \<notin> set ds" by (metis card_mono finite_set not_le subsetI)
  then have "filter (\<lambda>n. n \<notin> set ds) [0..<Suc (length ds)] \<noteq> []" by (auto simp: filter_empty_conv simp del: upt_Suc)
  from hd_in_set [OF this] show ?thesis unfolding lowest_free_def set_filter by blast
qed

text \<open>
  What \<^verbatim>\<open>close\<close> may answer: done, interrupted, or another error. After an interruption the descriptor may be
  gone already (on Linux it is), and before the next call other threads may have opened descriptors.
\<close>

datatype close_res = CloseDone | CloseIntr bool descriptors | CloseErr

text \<open>\<open>None\<close>: the loop has not ended.\<close>

fun net_close :: "close_res list \<Rightarrow> nat \<Rightarrow> descriptors \<Rightarrow> (bool \<times> descriptors) option" where
  "net_close [] fd ds = None"
| "net_close (CloseDone # rs) fd ds = Some (True, removeAll fd ds)"
| "net_close (CloseErr # rs) fd ds = Some (False, ds)"
| "net_close (CloseIntr gone opened # rs) fd ds = net_close rs fd (opened @ (if gone then removeAll fd ds else ds))"

section \<open>Listening and connecting\<close>

record 'a sock_env =
  se_addresses :: "'a list option"
  se_socket :: "'a \<Rightarrow> bool"
  se_bind :: "'a \<Rightarrow> bool"
  se_listen :: "'a \<Rightarrow> bool"
  se_connect :: "'a \<Rightarrow> bool"
  se_close :: "'a \<Rightarrow> close_res list"

fun listen_loop :: "'a sock_env \<Rightarrow> 'a list \<Rightarrow> descriptors \<Rightarrow> (nat option \<times> descriptors) option" where
  "listen_loop env [] ds = Some (None, ds)"
| "listen_loop env (p # ps) ds =
     (if \<not> se_socket env p then listen_loop env ps ds
      else
        let fd = lowest_free ds in
        if se_bind env p \<and> se_listen env p then Some (Some fd, fd # ds)
        else case net_close (se_close env p) fd (fd # ds) of None \<Rightarrow> None | Some (_, ds') \<Rightarrow> listen_loop env ps ds')"

definition net_listen :: "'a sock_env \<Rightarrow> descriptors \<Rightarrow> (nat option \<times> descriptors) option" where
  "net_listen env ds = (case se_addresses env of None \<Rightarrow> Some (None, ds) | Some res \<Rightarrow> listen_loop env res ds)"

fun connect_loop :: "'a sock_env \<Rightarrow> 'a list \<Rightarrow> descriptors \<Rightarrow> (nat option \<times> descriptors) option" where
  "connect_loop env [] ds = Some (None, ds)"
| "connect_loop env (p # ps) ds =
     (if \<not> se_socket env p then connect_loop env ps ds
      else
        let fd = lowest_free ds in
        if se_connect env p then Some (Some fd, fd # ds)
        else case net_close (se_close env p) fd (fd # ds) of None \<Rightarrow> None | Some (_, ds') \<Rightarrow> connect_loop env ps ds')"

definition net_connect :: "'a sock_env \<Rightarrow> descriptors \<Rightarrow> (nat option \<times> descriptors) option" where
  "net_connect env ds = (case se_addresses env of None \<Rightarrow> Some (None, ds) | Some res \<Rightarrow> connect_loop env res ds)"

section \<open>Closing\<close>

text \<open>The answers with which a descriptor is closed although calls are interrupted.\<close>

fun closes :: "close_res list \<Rightarrow> bool" where
  "closes [] = False"
| "closes (CloseDone # rs) = True"
| "closes (CloseErr # rs) = False"
| "closes (CloseIntr gone opened # rs) = (\<not> gone \<and> opened = [] \<and> closes rs)"

lemma net_close_closes: "closes rs \<Longrightarrow> net_close rs fd ds = Some (True, removeAll fd ds)"
  by (induction rs rule: closes.induct) simp_all

lemma close_new: "closes rs \<Longrightarrow> net_close rs (lowest_free ds) (lowest_free ds # ds) = Some (True, ds)"
  using lowest_free_new [of ds] by (simp add: net_close_closes removeAll_id)

text \<open>A second \<^verbatim>\<open>close\<close> after an interruption that released the descriptor takes the file of another thread away.\<close>

lemma close_again_closes_foreign:
  "net_close [CloseIntr True [fd], CloseDone] fd [fd] = Some (True, [])"
  by simp

section \<open>The first address that works\<close>

lemma listen_loop_first:
  assumes "\<forall>p \<in> set ps. closes (se_close env p)"
  shows "listen_loop env ps ds =
    (case find (\<lambda>p. se_socket env p \<and> se_bind env p \<and> se_listen env p) ps of
       None \<Rightarrow> Some (None, ds) | Some _ \<Rightarrow> Some (Some (lowest_free ds), lowest_free ds # ds))"
  using assms by (induction ps) (auto simp: Let_def close_new)

lemma connect_loop_first:
  assumes "\<forall>p \<in> set ps. closes (se_close env p)"
  shows "connect_loop env ps ds =
    (case find (\<lambda>p. se_socket env p \<and> se_connect env p) ps of
       None \<Rightarrow> Some (None, ds) | Some _ \<Rightarrow> Some (Some (lowest_free ds), lowest_free ds # ds))"
  using assms by (induction ps) (auto simp: Let_def close_new)

text \<open>
  Connecting and listening return, they succeed when one address works, and exactly the
  returned descriptor is open afterwards: none is left behind for the addresses that failed.
\<close>

lemma net_connect_result:
  assumes "se_addresses env = Some ps" and "\<forall>p \<in> set ps. closes (se_close env p)"
  shows "net_connect env ds =
    (if \<exists>p \<in> set ps. se_socket env p \<and> se_connect env p then Some (Some (lowest_free ds), lowest_free ds # ds) else Some (None, ds))"
  using assms connect_loop_first [OF assms(2)] by (auto simp: net_connect_def find_None_iff find_Some_iff split: option.split)

lemma net_listen_result:
  assumes "se_addresses env = Some ps" and "\<forall>p \<in> set ps. closes (se_close env p)"
  shows "net_listen env ds =
    (if \<exists>p \<in> set ps. se_socket env p \<and> se_bind env p \<and> se_listen env p
     then Some (Some (lowest_free ds), lowest_free ds # ds) else Some (None, ds))"
  using assms listen_loop_first [OF assms(2)] by (auto simp: net_listen_def find_None_iff find_Some_iff split: option.split)

end
