(* ===== verification/Calendar.thy ===== *)
theory Calendar
  imports C_Lib
begin

text \<open>
  The part of the C library's calendar that the programs use: the date of a time stamp. The log files and the client
  print times in Indian time.
\<close>

section \<open>Dates\<close>

text \<open>\<^verbatim>\<open>gmtime_r\<close> on a time after 1970: the year, the month and the day, counted from one.\<close>

definition leap_year :: "nat \<Rightarrow> bool" where
  "leap_year y \<longleftrightarrow> y mod 4 = 0 \<and> y mod 100 \<noteq> 0 \<or> y mod 400 = 0"

definition year_days :: "nat \<Rightarrow> nat" where
  "year_days y = (if leap_year y then 366 else 365)"

definition month_lengths :: "nat \<Rightarrow> nat list" where
  "month_lengths y = [31, if leap_year y then 29 else 28, 31, 30, 31, 30, 31, 31, 30, 31, 30, 31]"

function year_from :: "nat \<Rightarrow> nat \<Rightarrow> nat \<times> nat" where
  "year_from y d = (if d < year_days y then (y, d) else year_from (y + 1) (d - year_days y))"
  by pat_completeness auto
termination
  by (relation "measure snd") (auto simp: year_days_def split: if_splits)

declare year_from.simps [simp del]

fun month_from :: "nat \<Rightarrow> nat list \<Rightarrow> nat \<Rightarrow> nat \<times> nat" where
  "month_from m [] d = (m, d)"
| "month_from m (l # ls) d = (if d < l then (m, d) else month_from (m + 1) ls (d - l))"

definition civil :: "nat \<Rightarrow> nat \<times> nat \<times> nat" where
  "civil days =
     (case year_from 1970 days of (y, d) \<Rightarrow> case month_from 1 (month_lengths y) d of (m, r) \<Rightarrow> (y, m, r + 1))"

definition two_digits :: "nat \<Rightarrow> string" where
  "two_digits n = [digit_char (n div 10), digit_char (n mod 10)]"

definition IST_OFFSET_SECONDS :: nat where "IST_OFFSET_SECONDS = 5 * 3600 + 30 * 60"

section \<open>Dates and day numbers\<close>

definition days_before_year :: "nat \<Rightarrow> nat" where
  "days_before_year y = sum_list (map year_days [1970..<y])"

lemma year_from_correct:
  assumes "year_from y d = (y', r)"
  shows "y \<le> y' \<and> r < year_days y' \<and> d = sum_list (map year_days [y..<y']) + r"
  using assms
proof (induction y d rule: year_from.induct)
  case (1 y d)
  show ?case
  proof (cases "d < year_days y")
    case True
    then show ?thesis using "1.prems" by (simp add: year_from.simps)
  next
    case False
    then have "year_from (y + 1) (d - year_days y) = (y', r)" using "1.prems" by (simp add: year_from.simps [of y d])
    from "1.IH" [OF False this] False show ?thesis by (auto simp: upt_conv_Cons)
  qed
qed

lemma year_days_ge: "365 * length ys \<le> sum_list (map year_days ys)"
  by (induction ys) (auto simp: year_days_def)

lemma month_sum: "sum_list (month_lengths y) = year_days y"
  by (simp add: month_lengths_def year_days_def)

lemma month_from_correct:
  assumes "d < sum_list ls" and "month_from m ls d = (m', r)"
  shows "m \<le> m' \<and> m' < m + length ls \<and> r < ls ! (m' - m) \<and> d = sum_list (take (m' - m) ls) + r"
  using assms
proof (induction ls arbitrary: m d)
  case (Cons l ls)
  show ?case
  proof (cases "d < l")
    case False
    then have "d - l < sum_list ls" "month_from (m + 1) ls (d - l) = (m', r)" using Cons.prems by simp_all
    from Cons.IH [OF this] False show ?thesis by (auto simp: nth_Cons' take_Cons' Suc_diff_le)
  qed (use Cons.prems in simp)
qed simp

lemma month_length_le: "m < 12 \<Longrightarrow> month_lengths y ! m \<le> 31"
  by (auto simp: month_lengths_def less_Suc_eq numeral_eq_Suc)

text \<open>The number of a date, day and month counted from one.\<close>

definition day_number :: "nat \<Rightarrow> nat \<Rightarrow> nat \<Rightarrow> nat" where
  "day_number y m d = days_before_year y + sum_list (take (m - 1) (month_lengths y)) + (d - 1)"

lemma civil_correct:
  assumes "civil days = (y, m, d)" and "days < 100000"
  shows "day_number y m d = days" and "1970 \<le> y" and "y < 10000" and "1 \<le> m \<and> m \<le> 12" and "1 \<le> d \<and> d \<le> 31"
proof -
  obtain r where y: "year_from 1970 days = (y, r)" and m: "month_from 1 (month_lengths y) r = (m, d - 1)" "1 \<le> d"
    using assms(1) by (auto simp: civil_def split: prod.splits)
  note Y = year_from_correct [OF y]
  have "r < sum_list (month_lengths y)" using Y by (simp add: month_sum)
  note M = month_from_correct [OF this m(1)]
  show "day_number y m d = days" using Y M by (simp add: day_number_def days_before_year_def)
  show "1970 \<le> y" using Y by simp
  have "365 * (y - 1970) \<le> days" using year_days_ge [of "[1970..<y]"] Y by simp
  with assms(2) show "y < 10000" by simp
  have m12: "1 \<le> m \<and> m \<le> 12" using M by (simp add: month_lengths_def)
  then show "1 \<le> m \<and> m \<le> 12" .
  from m12 have "month_lengths y ! (m - 1) \<le> 31" by (intro month_length_le) auto
  then show "1 \<le> d \<and> d \<le> 31" using M m(2) by auto
qed

section \<open>Digits and seconds\<close>

lemma two_digits_read: "n < 100 \<Longrightarrow> read_digits 0 (two_digits n) = n"
  by (simp add: two_digits_def digit_char_props)

lemma two_digits_length [simp]: "length (two_digits n) = 2"
  by (simp add: two_digits_def)

lemma year_digits: "1000 \<le> y \<Longrightarrow> y < 10000 \<Longrightarrow> length (show_nat y) = 4"
  by (subst show_nat.simps, subst show_nat.simps, subst show_nat.simps, subst show_nat.simps) auto

lemma seconds_split:
  fixes t :: nat
  defines "s \<equiv> t mod 86400"
  shows "t div 86400 * 86400 + s div 3600 * 3600 + s mod 3600 div 60 * 60 + s mod 60 = t"
proof -
  have m: "s mod 3600 div 60 * 60 + s mod 60 = s mod 3600"
    using div_mult_mod_eq [of "s mod 3600" 60] by (simp add: mod_mod_cancel)
  have h: "s div 3600 * 3600 + s mod 3600 = s" by (rule div_mult_mod_eq)
  have d: "t div 86400 * 86400 + s = t" unfolding s_def by (rule div_mult_mod_eq)
  have "t div 86400 * 86400 + (s div 3600 * 3600 + (s mod 3600 div 60 * 60 + s mod 60)) = t" unfolding m h by (rule d)
  then show ?thesis by (simp only: add.assoc)
qed

end
