(* ===== verification/Common_Log.thy ===== *)
theory Common_Log
  imports Calendar Disk
begin

text \<open>
  Log files, \<^verbatim>\<open>common/log.c\<close>, and the functions \<^verbatim>\<open>log_event\<close> and \<^verbatim>\<open>log_request\<close> of both servers. A log is a file
  that is only appended to. The clock is a pair of seconds and nanoseconds; the fault of an append says
  how many characters reach the file when a write or the final flush fails.
\<close>

section \<open>The writer\<close>

text \<open>The stream, represented by the path it was opened for, and the copy of the path.\<close>

record log_writer =
  lw_fp :: "path option"
  lw_path :: path

definition log_open :: "(path \<Rightarrow> bool) \<Rightarrow> path \<Rightarrow> disk \<Rightarrow> log_writer \<times> bool \<times> disk" where
  "log_open can_open path d =
     (if can_open path then
        (\<lparr>lw_fp = Some path, lw_path = buf 256 path\<rparr>, True, case d path of None \<Rightarrow> d(path := Some []) | Some _ \<Rightarrow> d)
      else (\<lparr>lw_fp = None, lw_path = []\<rparr>, False, d))"

definition log_close :: "log_writer \<Rightarrow> log_writer" where
  "log_close w = w\<lparr>lw_fp := None\<rparr>"

section \<open>Lines\<close>

definition zero_pad :: "nat \<Rightarrow> string \<Rightarrow> string" where
  "zero_pad n s = replicate (n - length s) (CHR ''0'') @ s"

definition iso_timestamp :: "nat \<times> nat \<Rightarrow> nat \<Rightarrow> string" where
  "iso_timestamp clock buf_size =
     (let adjusted = fst clock + IST_OFFSET_SECONDS; secs = adjusted mod 86400 in
      case civil (adjusted div 86400) of
        (y, m, d) \<Rightarrow>
          buf buf_size (zero_pad 4 (show_nat y) @ ''-'' @ zero_pad 2 (show_nat m) @ ''-'' @ zero_pad 2 (show_nat d) @ ''T'' @
            zero_pad 2 (show_nat (secs div 3600)) @ '':'' @ zero_pad 2 (show_nat (secs mod 3600 div 60)) @ '':'' @
            zero_pad 2 (show_nat (secs mod 60)) @ ''.'' @ zero_pad 3 (show_nat (snd clock div 1000000)) @ ''+05:30''))"

text \<open>The three pieces of a line, each written by a call of its own.\<close>

definition log_pieces :: "nat \<times> nat \<Rightarrow> string \<Rightarrow> string list" where
  "log_pieces clock message = [''['' @ iso_timestamp clock 64 @ ''] '', message, [NEWLINE]]"

text \<open>
  A write that fails ends the function with an error, after a part of the line has reached the file; the result of \<^verbatim>\<open>fflush\<close> is
  not looked at.
\<close>

datatype log_fault = NoLogFault | WriteFails nat | FlushFails nat

definition log_appendf :: "log_fault \<Rightarrow> nat \<times> nat \<Rightarrow> log_writer \<Rightarrow> string \<Rightarrow> disk \<Rightarrow> bool \<times> disk" where
  "log_appendf fault clock w message d =
     (case lw_fp w of
        None \<Rightarrow> (False, d)
      | Some file \<Rightarrow>
          let line = concat (log_pieces clock message); old = (case d file of None \<Rightarrow> [] | Some s \<Rightarrow> s) in
          case fault of
            NoLogFault \<Rightarrow> (True, d(file := Some (old @ line)))
          | WriteFails n \<Rightarrow> (False, d(file := Some (old @ take n line)))
          | FlushFails n \<Rightarrow> (True, d(file := Some (old @ take n line))))"

text \<open>The functions of the name manager, each under its lock: the message is cut to a buffer, the result is ignored.\<close>

definition log_event :: "log_fault \<Rightarrow> nat \<times> nat \<Rightarrow> log_writer \<Rightarrow> string \<Rightarrow> disk \<Rightarrow> disk" where
  "log_event fault clock log_general text d =
     (if lw_fp log_general = None then d else snd (log_appendf fault clock log_general (buf 1024 text) d))"

definition log_request :: "log_fault \<Rightarrow> nat \<times> nat \<Rightarrow> log_writer \<Rightarrow> string \<Rightarrow> disk \<Rightarrow> disk" where
  "log_request fault clock log_requests text d =
     (if lw_fp log_requests = None then d else snd (log_appendf fault clock log_requests (buf 1024 text) d))"

text \<open>The storage server has the same functions, without a lock around the append.\<close>

definition ss_log_event :: "log_fault \<Rightarrow> nat \<times> nat \<Rightarrow> log_writer \<Rightarrow> string \<Rightarrow> disk \<Rightarrow> disk" where
  "ss_log_event fault clock log_general text d =
     (if lw_fp log_general = None then d else snd (log_appendf fault clock log_general (buf 1024 text) d))"

definition ss_log_request :: "log_fault \<Rightarrow> nat \<times> nat \<Rightarrow> log_writer \<Rightarrow> string \<Rightarrow> disk \<Rightarrow> disk" where
  "ss_log_request fault clock log_requests text d =
     (if lw_fp log_requests = None then d else snd (log_appendf fault clock log_requests (buf 1024 text) d))"

section \<open>Nothing is lost\<close>

text \<open>Whatever fails, what was in the log stays, and no other file changes.\<close>

lemma log_event_keeps:
  "p \<noteq> the (lw_fp w) \<Longrightarrow> log_event fault clock w text d p = d p"
  "lw_fp w = Some p \<Longrightarrow> d p = Some old \<Longrightarrow> \<exists>more. log_event fault clock w text d p = Some (old @ more)"
  by (auto simp: log_event_def log_appendf_def Let_def split: option.splits log_fault.splits)

text \<open>The width of a number that fits.\<close>

lemma show_nat_length: "n < 10 ^ Suc k \<Longrightarrow> length (show_nat n) \<le> Suc k"
proof (induction k arbitrary: n)
  case 0
  then show ?case by (simp add: show_nat.simps)
next
  case (Suc k)
  then have "n div 10 < 10 ^ Suc k" by (simp add: less_mult_imp_div_less)
  from Suc.IH [OF this] show ?case by (subst show_nat.simps) simp
qed

lemma zero_pad_length: "n < 10 ^ k \<Longrightarrow> 0 < k \<Longrightarrow> length (zero_pad k (show_nat n)) = k"
  using show_nat_length [of n "k - 1"] by (simp add: zero_pad_def)

lemma zero_pad_plain: "NEWLINE \<notin> set (zero_pad k (show_nat n))"
  using show_nat_digits [of n] by (auto simp: zero_pad_def list_all_iff is_digit_def)

lemma iso_timestamp_text:
  assumes "fst clock < 8000000000" and "snd clock < 1000000000"
  shows "length (iso_timestamp clock 64) = 29" and "NEWLINE \<notin> set (iso_timestamp clock 64)"
proof -
  let ?t = "fst clock + IST_OFFSET_SECONDS"
  let ?s = "?t mod 86400"
  obtain y m d where c: "civil (?t div 86400) = (y, m, d)" by (metis prod_cases3)
  have small: "?t div 86400 < 100000" using assms(1) by (simp add: IST_OFFSET_SECONDS_def)
  note C = civil_correct [OF c small]
  have md: "m < 100" "d < 100" using C(4,5) by simp_all
  have hms: "?s div 3600 < 100" "?s mod 3600 div 60 < 100" "?s mod 60 < 100" by (simp_all add: less_mult_imp_div_less)
  have ms: "snd clock div 1000000 < 1000" using assms(2) by (simp add: less_mult_imp_div_less)
  have len: "length (zero_pad 4 (show_nat y)) = 4" "length (zero_pad 3 (show_nat (snd clock div 1000000))) = 3"
    using zero_pad_length [of y 4] zero_pad_length [of "snd clock div 1000000" 3] C(3) ms by simp_all
  have two: "length (zero_pad 2 (show_nat k)) = 2" if "k < 100" for k
    using zero_pad_length [of k 2] that by simp
  show "length (iso_timestamp clock 64) = 29" "NEWLINE \<notin> set (iso_timestamp clock 64)"
    using len two [OF md(1)] two [OF md(2)] two [OF hms(1)] two [OF hms(2)] two [OF hms(3)]
    by (simp_all add: iso_timestamp_def c Let_def zero_pad_plain)
qed

text \<open>The four functions differ in the file and the lock only.\<close>

lemma same_log: "log_request = log_event" "ss_log_event = log_event" "ss_log_request = log_event"
  by (simp_all add: fun_eq_iff log_request_def ss_log_event_def ss_log_request_def log_event_def)

section \<open>Reading a log\<close>

text \<open>The messages of a log file: the lines without the time stamp.\<close>

function log_messages :: "string \<Rightarrow> string list" where
  "log_messages s =
     (if s = [] then [] else drop 32 (takeWhile (\<lambda>c. c \<noteq> NEWLINE) s) # log_messages (tl (dropWhile (\<lambda>c. c \<noteq> NEWLINE) s)))"
  by pat_completeness auto
termination
proof (relation "measure length", simp_all)
  fix s :: string
  assume "s \<noteq> []"
  moreover have "length (dropWhile (\<lambda>c. c \<noteq> NEWLINE) s) \<le> length s" by (rule length_dropWhile_le)
  ultimately show "length (dropWhile (\<lambda>c. c \<noteq> NEWLINE) s) - Suc 0 < length s" by (cases s) auto
qed

declare log_messages.simps [simp del]

lemma log_messages_line:
  assumes "NEWLINE \<notin> set stamp" "length stamp = 32" "NEWLINE \<notin> set m"
  shows "log_messages (stamp @ m @ NEWLINE # rest) = m # log_messages rest"
proof -
  have "NEWLINE \<notin> set (stamp @ m)" using assms by simp
  then have "takeWhile (\<lambda>c. c \<noteq> NEWLINE) ((stamp @ m) @ NEWLINE # rest) = stamp @ m"
    "dropWhile (\<lambda>c. c \<noteq> NEWLINE) ((stamp @ m) @ NEWLINE # rest) = NEWLINE # rest"
    by (subst takeWhile_append2 dropWhile_append2, auto)+
  then show ?thesis using assms(2) by (subst log_messages.simps) simp
qed

lemma log_messages_append:
  assumes "s = [] \<or> last s = NEWLINE"
  shows "log_messages (s @ t) = log_messages s @ log_messages t"
  using assms
proof (induction s rule: log_messages.induct)
  case (1 s)
  show ?case
  proof (cases "s = []")
    case False
    let ?r = "dropWhile (\<lambda>c. c \<noteq> NEWLINE) s"
    have mem: "NEWLINE \<in> set s" using "1.prems" False by (metis last_in_set)
    then have ne: "?r \<noteq> []" by (auto simp: dropWhile_eq_Nil_conv)
    have tw: "takeWhile (\<lambda>c. c \<noteq> NEWLINE) (s @ t) = takeWhile (\<lambda>c. c \<noteq> NEWLINE) s"
      using mem by (intro takeWhile_append1 [of NEWLINE]) simp_all
    have dw: "dropWhile (\<lambda>c. c \<noteq> NEWLINE) (s @ t) = ?r @ t" using mem by (intro dropWhile_append1 [of NEWLINE]) simp_all
    have "last ?r = NEWLINE" using "1.prems" False ne by (metis last_appendR takeWhile_dropWhile_id)
    then have "tl ?r = [] \<or> last (tl ?r) = NEWLINE" by (metis last_tl)
    from "1.IH" [OF False this] have ih: "log_messages (tl ?r @ t) = log_messages (tl ?r) @ log_messages t" .
    show ?thesis
      using False ne ih by (subst (1 2) log_messages.simps) (simp add: tw dw)
  qed (simp add: log_messages.simps [of "[]"])
qed

text \<open>
  What is logged can be read back: after any sequence of events without line feeds, the log holds its old messages followed by the
  new ones in order, each cut to 1023 characters.
\<close>

lemma log_read_back:
  assumes "lw_fp w = Some p" and "d p = Some old" and "old = [] \<or> last old = NEWLINE"
    and "\<forall>(clock, msg) \<in> set es. fst clock < 8000000000 \<and> snd clock < 1000000000 \<and> NEWLINE \<notin> set msg"
  shows "\<exists>new. fold (\<lambda>(clock, msg). log_event NoLogFault clock w msg) es d p = Some new \<and>
    log_messages new = log_messages old @ map (buf 1024 \<circ> snd) es"
  using assms(2-4)
proof (induction es arbitrary: d old)
  case (Cons e es)
  obtain clock msg where e: "e = (clock, msg)" by fastforce
  note T = iso_timestamp_text [of clock]
  have plain: "NEWLINE \<notin> set (buf 1024 msg)" using Cons.prems(3) e set_take_subset [of 1023 msg] by (auto simp: buf_def)
  let ?line = "concat (log_pieces clock (buf 1024 msg))"
  have line: "?line = (''['' @ iso_timestamp clock 64 @ ''] '') @ buf 1024 msg @ NEWLINE # []" by (simp add: log_pieces_def)
  have "log_messages ?line = buf 1024 msg # log_messages []"
    unfolding line by (rule log_messages_line) (use T Cons.prems(3) e plain in simp_all)
  then have m: "log_messages (old @ ?line) = log_messages old @ [buf 1024 msg]"
    using log_messages_append [OF Cons.prems(2)] by (simp add: log_messages.simps [of "[]"])
  have ev: "log_event NoLogFault clock w msg d p = Some (old @ ?line)"
    using assms(1) Cons.prems(1) by (simp add: log_event_def log_appendf_def Let_def)
  have nl: "old @ ?line = [] \<or> last (old @ ?line) = NEWLINE" unfolding line by simp
  have rest: "\<forall>(clock, msg) \<in> set es. fst clock < 8000000000 \<and> snd clock < 1000000000 \<and> NEWLINE \<notin> set msg"
    using Cons.prems(3) by simp
  from Cons.IH [where d = "log_event NoLogFault clock w msg d", OF ev nl rest]
  show ?case unfolding m by (simp add: e)
qed simp

text \<open>
  The threads of the storage server log without a lock, and a line is written in three pieces: the lines of two threads can be mixed.
\<close>

lemma unlocked_lines_mix:
  assumes "fst c1 < 8000000000" "snd c1 < 1000000000" "fst c2 < 8000000000" "snd c2 < 1000000000" "NEWLINE \<notin> set m1" "NEWLINE \<notin> set m2"
  shows "\<exists>zs \<in> shuffles (log_pieces c1 m1) (log_pieces c2 m2).
    log_messages (concat zs) = (''['' @ iso_timestamp c2 64 @ ''] '' @ m1 @ m2) # log_messages [NEWLINE]"
proof -
  let ?s1 = "''['' @ iso_timestamp c1 64 @ ''] ''" and ?s2 = "''['' @ iso_timestamp c2 64 @ ''] ''"
  let ?zs = "[?s1, ?s2, m1, m2, [NEWLINE], [NEWLINE]]"
  have "?zs \<in> shuffles (log_pieces c1 m1) (log_pieces c2 m2)" by (simp add: log_pieces_def Cons_in_shuffles_iff)
  moreover have "log_messages (?s1 @ (?s2 @ m1 @ m2) @ NEWLINE # [NEWLINE]) = (?s2 @ m1 @ m2) # log_messages [NEWLINE]"
    by (rule log_messages_line) (use iso_timestamp_text [of c1] iso_timestamp_text [of c2] assms in simp_all)
  ultimately show ?thesis by (intro bexI [of _ ?zs]) simp_all
qed

end
