(* ===== verification/NM_Main.thy ===== *)
theory NM_Main
  imports NM_Run Common_Sock Common_Log
begin

text \<open>
  The main program of the name manager, \<^verbatim>\<open>main\<close> of \<^verbatim>\<open>nm/nm_main.c\<close>, with what it holds of the operating system: the mutexes and
  condition variables it has initialised and the descriptors it has open. A use of a lock that
  POSIX leaves undefined (initialising a live one, using or destroying a dead one) is recorded as
  a fault. The loop accepts connections while the threads of the other connections, the prune thread and the
  replication worker make their steps, which are those of \<open>nm_step\<close>. The end of a thread is three steps, its three critical sections:
  \<^verbatim>\<open>peer_close\<close> closes the descriptor and frees the slot, the thread marks itself as inactive, and \<^verbatim>\<open>peer_reset\<close> resets the slot once more.
\<close>

section \<open>Locks\<close>

datatype lock =
    StateLock | TicketLock | UserLock | PeerLock | LogGeneralLock | LogRequestsLock | ReplicationLock | ReplicationCond
  | IoLock nat | IoCond nat

datatype fault = InitLive lock | UseDead lock | DestroyDead lock

text \<open>Where the thread of a connection is: it receives and serves messages, it has closed its slot, it has marked itself as inactive, it has ended.\<close>

datatype peer_phase = Serving | Parting | Unmarked | Gone

text \<open>
  \<open>pr_threads\<close> are all the threads of connections there have been, each with its slot. \<open>pr_joins\<close> is \<^verbatim>\<open>thread\<close> and \<^verbatim>\<open>thread_active\<close> of every
  slot: the thread that \<^verbatim>\<open>close_context\<close> would join.
\<close>

record 'w process =
  pr_ctx :: "'w nm_context"
  pr_locks :: "lock list"
  pr_ready :: bool
  pr_io_ready :: "bool list"
  pr_listen :: int
  pr_logs :: descriptors
  pr_open :: descriptors
  pr_threads :: "(nat \<times> peer_phase) list"
  pr_joins :: "nat option list"
  pr_faults :: "fault list"

definition note_fault :: "bool \<Rightarrow> fault \<Rightarrow> 'w process \<Rightarrow> 'w process" where
  "note_fault bad f pr = (if bad then pr\<lparr>pr_faults := pr_faults pr @ [f]\<rparr> else pr)"

definition lock_init :: "(lock \<Rightarrow> bool) \<Rightarrow> lock \<Rightarrow> 'w process \<Rightarrow> bool \<times> 'w process" where
  "lock_init ok l pr =
     (if ok l then (True, (note_fault (l \<in> set (pr_locks pr)) (InitLive l) pr)\<lparr>pr_locks := List.insert l (pr_locks pr)\<rparr>)
      else (False, pr))"

definition lock_destroy :: "lock \<Rightarrow> 'w process \<Rightarrow> 'w process" where
  "lock_destroy l pr = (note_fault (l \<notin> set (pr_locks pr)) (DestroyDead l) pr)\<lparr>pr_locks := removeAll l (pr_locks pr)\<rparr>"

text \<open>Locking and unlocking a mutex, or waking the threads that wait for a condition.\<close>

definition lock_use :: "lock \<Rightarrow> 'w process \<Rightarrow> 'w process" where
  "lock_use l pr = note_fault (l \<notin> set (pr_locks pr)) (UseDead l) pr"

definition context_locks :: "lock list" where
  "context_locks =
     [StateLock, TicketLock, UserLock, PeerLock, LogGeneralLock, LogRequestsLock, ReplicationLock, ReplicationCond]"

text \<open>When one of them cannot be initialised, those before it are destroyed, the last one first.\<close>

fun init_locks :: "(lock \<Rightarrow> bool) \<Rightarrow> lock list \<Rightarrow> lock list \<Rightarrow> 'w process \<Rightarrow> bool \<times> 'w process" where
  "init_locks ok [] before pr = (True, pr\<lparr>pr_ready := True\<rparr>)"
| "init_locks ok (l # ls) before pr =
     (case lock_init ok l pr of
        (True, pr1) \<Rightarrow> init_locks ok ls (l # before) pr1
      | (False, pr1) \<Rightarrow> (False, fold lock_destroy before pr1))"

definition init_context_locks :: "(lock \<Rightarrow> bool) \<Rightarrow> 'w process \<Rightarrow> bool \<times> 'w process" where
  "init_context_locks ok pr = init_locks ok context_locks [] pr"

section \<open>Slots\<close>

text \<open>The memory of the context is zero at first, so that every slot has the descriptor 0.\<close>

definition zero_peer :: peer where
  "zero_peer = \<lparr>p_fd = 0, p_type = PEER_UNUSED, p_server = 0, p_user = [], p_conn = closed_conn\<rparr>"

definition set_slot :: "nat \<Rightarrow> peer \<Rightarrow> 'w process \<Rightarrow> 'w process" where
  "set_slot i p pr = pr\<lparr>pr_ctx := (pr_ctx pr)\<lparr>nc_peers := (nc_peers (pr_ctx pr))[i := p]\<rparr>\<rparr>"

definition set_io_ready :: "nat \<Rightarrow> bool \<Rightarrow> 'w process \<Rightarrow> 'w process" where
  "set_io_ready i b pr = pr\<lparr>pr_io_ready := (pr_io_ready pr)[i := b]\<rparr>"

definition slot :: "'w process \<Rightarrow> nat \<Rightarrow> peer" where
  "slot pr i = nc_peers (pr_ctx pr) ! i"

definition peer_slot_setup :: "(lock \<Rightarrow> bool) \<Rightarrow> nat \<Rightarrow> 'w process \<Rightarrow> bool \<times> 'w process" where
  "peer_slot_setup ok i pr =
     (case lock_init ok (IoLock i) (set_io_ready i False (set_slot i zero_peer pr)) of
        (False, pr1) \<Rightarrow> (False, pr1)
      | (True, pr1) \<Rightarrow>
          (case lock_init ok (IoCond i) pr1 of
             (False, pr2) \<Rightarrow> (False, lock_destroy (IoLock i) pr2)
           | (True, pr2) \<Rightarrow> (True, set_slot i (peer_reset_fields zero_peer) (set_io_ready i True pr2))))"

fun setup_slots :: "(lock \<Rightarrow> bool) \<Rightarrow> nat list \<Rightarrow> 'w process \<Rightarrow> bool \<times> 'w process" where
  "setup_slots ok [] pr = (True, pr)"
| "setup_slots ok (i # is) pr =
     (case peer_slot_setup ok i pr of (True, pr1) \<Rightarrow> setup_slots ok is pr1 | (False, pr1) \<Rightarrow> (False, pr1))"

definition peer_slot_destroy :: "nat \<Rightarrow> 'w process \<Rightarrow> 'w process" where
  "peer_slot_destroy i pr =
     (if pr_io_ready pr ! i then
        set_io_ready i False (lock_destroy (IoCond i) (lock_destroy (IoLock i) (lock_use (IoLock i) pr)))
      else pr)"

definition destroy_order :: "lock list" where
  "destroy_order =
     [LogRequestsLock, ReplicationCond, ReplicationLock, LogGeneralLock, PeerLock, UserLock, TicketLock, StateLock]"

definition destroy_context_locks :: "'w process \<Rightarrow> 'w process" where
  "destroy_context_locks pr =
     (if \<not> pr_ready pr then pr
      else (fold lock_destroy destroy_order (fold peer_slot_destroy [0..<MAX_PEERS] pr))\<lparr>pr_ready := False\<rparr>)"

text \<open>Closing succeeds at the first call; \<open>Common_Sock\<close> has the loop.\<close>

definition close_fd :: "int \<Rightarrow> 'w process \<Rightarrow> 'w process" where
  "close_fd fd pr = (if 0 \<le> fd then pr\<lparr>pr_open := removeAll (nat fd) (pr_open pr)\<rparr> else pr)"

definition use_io :: "nat \<Rightarrow> 'w process \<Rightarrow> 'w process" where
  "use_io i pr = (if pr_io_ready pr ! i then lock_use (IoLock i) pr else pr)"

text \<open>\<^verbatim>\<open>peer_close\<close> and \<^verbatim>\<open>peer_reset\<close>; the second one does not close the descriptor.\<close>

definition set_join :: "nat \<Rightarrow> nat option \<Rightarrow> 'w process \<Rightarrow> 'w process" where
  "set_join i j pr = pr\<lparr>pr_joins := (pr_joins pr)[i := j]\<rparr>"

definition close_slot :: "nat \<Rightarrow> 'w process \<Rightarrow> 'w process" where
  "close_slot i pr =
     (let pr1 = close_fd (p_fd (slot pr i)) (use_io i (lock_use PeerLock pr)) in set_join i None (pr1\<lparr>pr_ctx := peer_close (pr_ctx pr1) i\<rparr>))"

definition peer_reset :: "nat \<Rightarrow> 'w process \<Rightarrow> 'w process" where
  "peer_reset i pr = set_join i None (set_slot i (peer_reset_fields (slot pr i)) (use_io i (lock_use PeerLock pr)))"

section \<open>The loop\<close>

datatype accept_result = AcceptIntr | AcceptBad | AcceptErr | Accepted conn bool bool

text \<open>Messages and steps are those of a thread, given by its number.\<close>

datatype main_event = Connection accept_result | Message nat "string option" | Leave nat | Pruned | Replicated

text \<open>
  A connection: \<^verbatim>\<open>accept\<close> gives the lowest free descriptor; the two flags say whether memory for the argument of the thread is granted and
  whether the thread starts.
\<close>

definition accept_connection :: "conn \<Rightarrow> bool \<Rightarrow> bool \<Rightarrow> 'w process \<Rightarrow> 'w process" where
  "accept_connection c mem thread pr =
     (let fd = lowest_free (pr_open pr);
          pr1 = lock_use PeerLock (pr\<lparr>pr_open := fd # pr_open pr\<rparr>) in
      case allocate_peer (pr_ctx pr) of
        None \<Rightarrow> close_fd (int fd) pr1
      | Some i \<Rightarrow>
          let pr2 = pr1\<lparr>pr_ctx := accept_peer (pr_ctx pr) (int fd) c\<rparr> in
          if mem \<and> thread then (set_join i (Some (length (pr_threads pr))) pr2)\<lparr>pr_threads := pr_threads pr @ [(i, Serving)]\<rparr>
          else peer_reset i (close_slot i pr2))"

definition used :: "peer \<Rightarrow> bool" where
  "used p \<longleftrightarrow> p_type p \<noteq> PEER_UNUSED"

text \<open>
  A round of thread \<open>k\<close>. When it ends the connection, the descriptor is closed and the slot is free: that is \<^verbatim>\<open>peer_close\<close>. What follows, \<open>thread_leaves\<close>, is two
  more steps, and anything may happen in between.
\<close>

definition round_ends :: "'w nm_os \<Rightarrow> nat \<Rightarrow> string option \<Rightarrow> 'w nm_context \<Rightarrow> bool" where
  "round_ends os i received ctx =
     (case received of
        None \<Rightarrow> True
      | Some json \<Rightarrow> json_get_string json ''type'' 64 \<noteq> None \<and> \<not> fst (dispatch_message os ctx i json))"

definition thread_round :: "'w nm_os \<Rightarrow> nat \<Rightarrow> string option \<Rightarrow> 'w process \<Rightarrow> 'w process" where
  "thread_round os k received pr =
     (case pr_threads pr ! k of
        (i, Serving) \<Rightarrow>
          let pr1 = pr\<lparr>pr_ctx := peer_round os (pr_ctx pr) i received\<rparr> in
          if round_ends os i received (pr_ctx pr)
          then (set_join i None (close_fd (p_fd (slot pr i)) (use_io i (lock_use PeerLock pr1))))\<lparr>pr_threads := (pr_threads pr)[k := (i, Parting)]\<rparr>
          else pr1
      | _ \<Rightarrow> pr)"

definition thread_leaves :: "nat \<Rightarrow> 'w process \<Rightarrow> 'w process" where
  "thread_leaves k pr =
     (case pr_threads pr ! k of
        (i, Parting) \<Rightarrow> (set_join i None (lock_use PeerLock pr))\<lparr>pr_threads := (pr_threads pr)[k := (i, Unmarked)]\<rparr>
      | (i, Unmarked) \<Rightarrow> (peer_reset i pr)\<lparr>pr_threads := (pr_threads pr)[k := (i, Gone)]\<rparr>
      | _ \<Rightarrow> pr)"

definition main_step :: "'w nm_os \<Rightarrow> main_event \<Rightarrow> 'w process \<Rightarrow> 'w process" where
  "main_step os e pr =
     (case e of
        Connection (Accepted c mem thread) \<Rightarrow> accept_connection c mem thread pr
      | Connection _ \<Rightarrow> pr
      | Message k received \<Rightarrow> if k < length (pr_threads pr) then thread_round os k received pr else pr
      | Leave k \<Rightarrow> if k < length (pr_threads pr) then thread_leaves k pr else pr
      | Pruned \<Rightarrow> pr\<lparr>pr_ctx := nm_step os Prune (pr_ctx pr)\<rparr>
      | Replicated \<Rightarrow> pr\<lparr>pr_ctx := nm_step os Replicate (pr_ctx pr)\<rparr>)"

text \<open>The loop ends when \<^verbatim>\<open>accept\<close> reports a bad descriptor; the flag says whether it has ended.\<close>

fun main_loop :: "('w nm_os \<times> main_event) list \<Rightarrow> 'w process \<Rightarrow> 'w process \<times> bool" where
  "main_loop [] pr = (pr, False)"
| "main_loop ((os, e) # es) pr = (if e = Connection AcceptBad then (pr, True) else main_loop es (main_step os e pr))"

section \<open>Start and end\<close>

text \<open>
  The program waits for the thread of a slot that is marked as active. The thread waits for a message, and the program has closed the
  descriptor under it: the parameter \<open>wakes\<close> says for which threads this makes the call return (on Linux it does not, as long as the other side keeps
  the connection open). A thread that does not return is waited for without end, \<open>None\<close>; one that does fails to receive and ends.
  Only the threads that are waited for make steps during the end of the program.
\<close>

definition join_thread :: "(nat \<Rightarrow> bool) \<Rightarrow> 'w nm_os \<Rightarrow> nat \<Rightarrow> 'w process \<Rightarrow> 'w process option" where
  "join_thread wakes os k pr =
     (if snd (pr_threads pr ! k) = Serving \<and> \<not> wakes k then None
      else Some (thread_leaves k (thread_leaves k (thread_round os k None pr))))"

definition close_connection :: "(nat \<Rightarrow> bool) \<Rightarrow> 'w nm_os \<Rightarrow> nat \<Rightarrow> 'w process \<Rightarrow> 'w process option" where
  "close_connection wakes os i pr =
     (let pr1 = close_fd (p_fd (slot pr i)) (lock_use PeerLock pr);
          pr2 = set_slot i ((slot pr i)\<lparr>p_fd := -1, p_conn := closed_conn\<rparr>) pr1 in
      case pr_joins pr ! i of
        None \<Rightarrow> Some (peer_reset i pr2)
      | Some k \<Rightarrow> map_option (peer_reset i) (join_thread wakes os k pr2))"

fun close_connections :: "(nat \<Rightarrow> bool) \<Rightarrow> 'w nm_os \<Rightarrow> nat list \<Rightarrow> 'w process \<Rightarrow> 'w process option" where
  "close_connections wakes os [] pr = Some pr"
| "close_connections wakes os (i # is) pr =
     (case close_connection wakes os i pr of None \<Rightarrow> None | Some pr1 \<Rightarrow> close_connections wakes os is pr1)"

definition close_process :: "(nat \<Rightarrow> bool) \<Rightarrow> 'w nm_os \<Rightarrow> 'w process \<Rightarrow> 'w process option" where
  "close_process wakes os pr =
     (let pr1 = (if pr_ready pr then lock_use ReplicationCond (lock_use ReplicationLock pr) else pr);
          pr2 = (close_fd (pr_listen pr) pr1)\<lparr>pr_listen := -1\<rparr> in
      case close_connections wakes os [0..<MAX_PEERS] pr2 of
        None \<Rightarrow> None
      | Some pr3 \<Rightarrow>
          Some (destroy_context_locks
            ((fold (\<lambda>fd. close_fd (int fd)) (pr_logs pr) pr3)\<lparr>pr_logs := [], pr_ctx := close_context os (pr_ctx pr3)\<rparr>)))"

record 'w nm_boot =
  nb_mem :: bool
  nb_read :: "path \<Rightarrow> bool"
  nb_sizes :: "nat \<times> nat \<times> nat"
  nb_open :: descriptors
  nb_locks1 :: "lock \<Rightarrow> bool"
  nb_locks2 :: "lock \<Rightarrow> bool"
  nb_slots :: "lock \<Rightarrow> bool"
  nb_log :: "path \<Rightarrow> bool"
  nb_sock :: "string \<Rightarrow> nat sock_env"
  nb_end :: "'w nm_os"
  nb_wakes :: "nat \<Rightarrow> bool"

definition DEFAULT_STATE_PATH :: path where "DEFAULT_STATE_PATH = ''nm_state.db''"
definition LOG_GENERAL_PATH :: path where "LOG_GENERAL_PATH = ''nm.log''"
definition LOG_REQUESTS_PATH :: path where "LOG_REQUESTS_PATH = ''nm_requests.log''"

text \<open>A log file that is opened takes a descriptor.\<close>

definition open_log :: "'w nm_boot \<Rightarrow> path \<Rightarrow> 'w process \<Rightarrow> bool \<times> 'w process" where
  "open_log b path pr =
     (case log_open (nb_log b) path (nc_disk (pr_ctx pr)) of
        (w, True, d) \<Rightarrow>
          (True, pr\<lparr>pr_ctx := (pr_ctx pr)\<lparr>nc_disk := d\<rparr>, pr_logs := lowest_free (pr_open pr) # pr_logs pr,
                    pr_open := lowest_free (pr_open pr) # pr_open pr\<rparr>)
      | (w, False, d) \<Rightarrow> (False, pr))"

definition first_process :: "'w nm_boot \<Rightarrow> path \<Rightarrow> disk \<Rightarrow> 'w \<Rightarrow> 'w process" where
  "first_process b state_path d w =
     \<lparr>pr_ctx = (nm_start (nb_read b) d state_path (nb_sizes b) w)\<lparr>nc_peers := replicate MAX_PEERS zero_peer\<rparr>, pr_locks = [],
      pr_ready = False, pr_io_ready = replicate MAX_PEERS False, pr_listen = -1, pr_logs = [], pr_open = nb_open b,
      pr_threads = [], pr_joins = replicate MAX_PEERS None, pr_faults = []\<rparr>"

text \<open>
  The program ends before it has a context, it is still running, it waits without end for a thread after the loop, or it ends with an exit code. \<open>nm_boot_up\<close> is the
  flow of \<^verbatim>\<open>main\<close> up to the loop.
\<close>

datatype 'w outcome = Refused | Running "'w process" | Hung | Exited int "'w process"

definition cleanup :: "'w nm_boot \<Rightarrow> int \<Rightarrow> 'w process \<Rightarrow> 'w outcome" where
  "cleanup b exit_code pr =
     (case close_process (nb_wakes b) (nb_end b) pr of None \<Rightarrow> Hung | Some pr1 \<Rightarrow> Exited exit_code pr1)"

definition nm_boot_up :: "'w nm_boot \<Rightarrow> string \<Rightarrow> 'w process \<Rightarrow> 'w outcome + 'w process" where
  "nm_boot_up b port pr0 =
     (case init_context_locks (nb_locks1 b) pr0 of (False, pr1) \<Rightarrow> Inl (cleanup b 1 pr1) | (True, pr1) \<Rightarrow>
      case open_log b LOG_GENERAL_PATH pr1 of (False, pr2) \<Rightarrow> Inl (cleanup b 1 pr2) | (True, pr2) \<Rightarrow>
      case open_log b LOG_REQUESTS_PATH pr2 of (False, pr3) \<Rightarrow> Inl (cleanup b 1 pr3) | (True, pr3) \<Rightarrow>
      case init_context_locks (nb_locks2 b) pr3 of (False, pr4) \<Rightarrow> Inl (cleanup b 1 pr4) | (True, pr4) \<Rightarrow>
      case net_listen (nb_sock b port) (pr_open pr4) of
        None \<Rightarrow> Inl (Running pr4)
      | Some (None, ds) \<Rightarrow> Inl (cleanup b 1 (pr4\<lparr>pr_open := ds\<rparr>))
      | Some (Some fd, ds) \<Rightarrow>
          (case setup_slots (nb_slots b) [0..<MAX_PEERS] (pr4\<lparr>pr_listen := int fd, pr_open := ds\<rparr>) of
             (False, pr5) \<Rightarrow> Inl (cleanup b 1 pr5)
           | (True, pr5) \<Rightarrow> Inr pr5))"

definition nm_run :: "'w nm_boot \<Rightarrow> string \<Rightarrow> path \<Rightarrow> disk \<Rightarrow> 'w \<Rightarrow> ('w nm_os \<times> main_event) list \<Rightarrow> 'w outcome" where
  "nm_run b port state_path d w es =
     (if \<not> nb_mem b then Refused
      else
        case nm_boot_up b port (first_process b state_path d w) of
          Inl r \<Rightarrow> r
        | Inr pr \<Rightarrow> (case main_loop es pr of (pr1, True) \<Rightarrow> cleanup b 0 pr1 | (pr1, False) \<Rightarrow> Running pr1))"

definition nm_main :: "'w nm_boot \<Rightarrow> string list \<Rightarrow> disk \<Rightarrow> 'w \<Rightarrow> ('w nm_os \<times> main_event) list \<Rightarrow> 'w outcome" where
  "nm_main b args d w es =
     (case args of
        [port] \<Rightarrow> nm_run b port DEFAULT_STATE_PATH d w es
      | [port, state_path] \<Rightarrow> nm_run b port state_path d w es
      | _ \<Rightarrow> Refused)"

section \<open>Orderly runs\<close>

text \<open>
  The order the code relies on but does not enforce: no connection is given a slot whose former thread has not ended, and when the loop ends, no
  thread is in between its last steps. \<open>NM_Slots\<close> shows what happens without the first.
\<close>

definition settled :: "main_event \<Rightarrow> 'w process \<Rightarrow> bool" where
  "settled e pr =
     (case e of
        Connection (Accepted c mem thread) \<Rightarrow>
          (case allocate_peer (pr_ctx pr) of
             None \<Rightarrow> True
           | Some i \<Rightarrow> list_all (\<lambda>(j, ph). j = i \<longrightarrow> ph = Gone) (pr_threads pr))
      | Connection AcceptBad \<Rightarrow> list_all (\<lambda>(j, ph). ph = Serving \<or> ph = Gone) (pr_threads pr)
      | _ \<Rightarrow> True)"

fun settled_loop :: "('w nm_os \<times> main_event) list \<Rightarrow> 'w process \<Rightarrow> bool" where
  "settled_loop [] pr = True"
| "settled_loop ((os, e) # es) pr \<longleftrightarrow> settled e pr \<and> (e = Connection AcceptBad \<or> settled_loop es (main_step os e pr))"

definition settled_run :: "'w nm_boot \<Rightarrow> string \<Rightarrow> path \<Rightarrow> disk \<Rightarrow> 'w \<Rightarrow> ('w nm_os \<times> main_event) list \<Rightarrow> bool" where
  "settled_run b port state_path d w es =
     (case nm_boot_up b port (first_process b state_path d w) of Inl _ \<Rightarrow> True | Inr pr \<Rightarrow> settled_loop es pr)"

section \<open>Locks are initialised together and destroyed together\<close>

lemma lock_simps [simp]:
  "pr_ctx (note_fault bad f pr) = pr_ctx pr" "pr_ctx (lock_use l pr) = pr_ctx pr" "pr_ctx (lock_destroy l pr) = pr_ctx pr"
  "pr_io_ready (note_fault bad f pr) = pr_io_ready pr" "pr_io_ready (lock_use l pr) = pr_io_ready pr"
  "pr_io_ready (lock_destroy l pr) = pr_io_ready pr"
  by (simp_all add: note_fault_def lock_use_def lock_destroy_def)

lemma lock_use_live [simp]: "l \<in> set (pr_locks pr) \<Longrightarrow> lock_use l pr = pr"
  by (simp add: lock_use_def note_fault_def)

lemma lock_destroy_live: "l \<in> set (pr_locks pr) \<Longrightarrow> lock_destroy l pr = pr\<lparr>pr_locks := removeAll l (pr_locks pr)\<rparr>"
  by (simp add: lock_destroy_def note_fault_def)

lemma destroy_all:
  assumes "distinct ls" and "set ls \<subseteq> set (pr_locks pr)"
  shows "fold lock_destroy ls pr = pr\<lparr>pr_locks := filter (\<lambda>l. l \<notin> set ls) (pr_locks pr)\<rparr>"
  using assms
proof (induction ls arbitrary: pr)
  case (Cons l ls)
  have "fold lock_destroy ls (pr\<lparr>pr_locks := removeAll l (pr_locks pr)\<rparr>) =
      pr\<lparr>pr_locks := filter (\<lambda>x. x \<notin> set ls) (removeAll l (pr_locks pr))\<rparr>"
    using Cons.prems Cons.IH [of "pr\<lparr>pr_locks := removeAll l (pr_locks pr)\<rparr>"] by auto
  moreover have "filter (\<lambda>x. x \<notin> set ls) (removeAll l xs) = filter (\<lambda>x. x \<noteq> l \<and> x \<notin> set ls) xs" for xs
    by (auto simp: removeAll_filter_not_eq intro: filter_cong)
  ultimately show ?case using Cons.prems by (simp add: lock_destroy_live)
qed simp

text \<open>All succeed: every lock is live afterwards, and those that were live before are counted as faults.\<close>

lemma init_locks_ok:
  assumes "list_all ok ls" and "distinct ls"
  shows "\<exists>L. init_locks ok ls before pr =
      (True, pr\<lparr>pr_ready := True, pr_locks := L, pr_faults := pr_faults pr @ map InitLive (filter (\<lambda>l. l \<in> set (pr_locks pr)) ls)\<rparr>) \<and>
    set L = set ls \<union> set (pr_locks pr)"
  using assms
proof (induction ls arbitrary: before pr)
  case (Cons l ls)
  let ?pr1 = "(note_fault (l \<in> set (pr_locks pr)) (InitLive l) pr)\<lparr>pr_locks := List.insert l (pr_locks pr)\<rparr>"
  have same: "filter (\<lambda>x. x \<in> set (pr_locks ?pr1)) ls = filter (\<lambda>x. x \<in> set (pr_locks pr)) ls"
    using Cons.prems(2) by (intro filter_cong) auto
  obtain L where L: "init_locks ok ls (l # before) ?pr1 =
      (True, ?pr1\<lparr>pr_ready := True, pr_locks := L, pr_faults := pr_faults ?pr1 @ map InitLive (filter (\<lambda>x. x \<in> set (pr_locks pr)) ls)\<rparr>)"
    "set L = set ls \<union> set (pr_locks ?pr1)"
    using Cons.IH [of "l # before" ?pr1] Cons.prems unfolding same by auto
  then show ?case using Cons.prems by (auto simp: lock_init_def note_fault_def)
next
  case Nil
  show ?case by (rule exI [of _ "pr_locks pr"], cases pr) simp
qed

text \<open>One fails: none of those that were initialised before is left.\<close>

lemma init_locks_fail:
  assumes "\<not> list_all ok ls" and "distinct (rev before @ ls)" and "set before \<subseteq> set (pr_locks pr)" "set ls \<inter> set (pr_locks pr) = {}"
  shows "\<exists>L. init_locks ok ls before pr = (False, pr\<lparr>pr_locks := L\<rparr>) \<and> set L = set (pr_locks pr) - set before"
  using assms
proof (induction ls arbitrary: before pr)
  case (Cons l ls)
  show ?case
  proof (cases "ok l")
    case True
    let ?pr1 = "pr\<lparr>pr_locks := List.insert l (pr_locks pr)\<rparr>"
    have "\<exists>L. init_locks ok ls (l # before) ?pr1 = (False, ?pr1\<lparr>pr_locks := L\<rparr>) \<and> set L = set (pr_locks ?pr1) - set (l # before)"
      using Cons.prems True by (intro Cons.IH) auto
    then show ?thesis using Cons.prems(2,4) True by (auto simp: lock_init_def note_fault_def)
  next
    case False
    have "distinct before" using Cons.prems(2) by simp
    from destroy_all [OF this Cons.prems(3)] False show ?thesis by (auto simp: lock_init_def)
  qed
qed simp

lemma context_locks_distinct: "distinct context_locks"
  by (simp add: context_locks_def)

lemma init_context_locks_all_or_nothing:
  assumes "pr_locks pr = []" "pr_faults pr = []"
  shows "\<exists>b pr'. init_context_locks ok pr = (b, pr') \<and> pr_faults pr' = [] \<and>
    (if b then set (pr_locks pr') = set context_locks \<and> pr_ready pr' else pr_locks pr' = [] \<and> pr_ready pr' = pr_ready pr)"
proof (cases "list_all ok context_locks")
  case True
  from init_locks_ok [OF this context_locks_distinct, of "[]" pr] assms show ?thesis by (auto simp: init_context_locks_def)
next
  case False
  from init_locks_fail [OF this, of "[]" pr] assms context_locks_distinct show ?thesis by (auto simp: init_context_locks_def)
qed

section \<open>Setting up and destroying the slots\<close>

definition io_locks :: "nat list \<Rightarrow> lock set" where
  "io_locks is = IoLock ` set is \<union> IoCond ` set is"

lemma setup_slots_ok:
  assumes "\<forall>i \<in> set is. ok (IoLock i) \<and> ok (IoCond i)" and "distinct is" and "io_locks is \<inter> set (pr_locks pr) = {}"
    and "\<forall>i \<in> set is. i < length (nc_peers (pr_ctx pr)) \<and> i < length (pr_io_ready pr)"
  shows "\<exists>pr'. setup_slots ok is pr = (True, pr') \<and> set (pr_locks pr') = io_locks is \<union> set (pr_locks pr) \<and>
    nc_peers (pr_ctx pr') = fold (\<lambda>i ps. ps[i := fresh_peer]) is (nc_peers (pr_ctx pr)) \<and>
    pr_io_ready pr' = fold (\<lambda>i bs. bs[i := True]) is (pr_io_ready pr) \<and>
    pr' = pr\<lparr>pr_ctx := (pr_ctx pr)\<lparr>nc_peers := nc_peers (pr_ctx pr')\<rparr>, pr_locks := pr_locks pr', pr_io_ready := pr_io_ready pr'\<rparr>"
  using assms
proof (induction "is" arbitrary: pr)
  case (Cons i "is")
  have fresh: "peer_reset_fields zero_peer = fresh_peer" by (simp add: peer_reset_fields_def zero_peer_def fresh_peer_def)
  let ?pr1 = "pr\<lparr>pr_ctx := (pr_ctx pr)\<lparr>nc_peers := (nc_peers (pr_ctx pr))[i := fresh_peer]\<rparr>,
    pr_locks := List.insert (IoCond i) (List.insert (IoLock i) (pr_locks pr)), pr_io_ready := (pr_io_ready pr)[i := True]\<rparr>"
  have step: "peer_slot_setup ok i pr = (True, ?pr1)"
    using Cons.prems(1,3)
    by (simp add: peer_slot_setup_def lock_init_def note_fault_def set_slot_def set_io_ready_def io_locks_def fresh)
  have "io_locks is \<inter> set (pr_locks ?pr1) = {}" using Cons.prems(2,3) by (auto simp: io_locks_def)
  from Cons.IH [OF _ _ this] Cons.prems(1,2,4) obtain pr' where P: "setup_slots ok is ?pr1 = (True, pr')"
    "set (pr_locks pr') = io_locks is \<union> set (pr_locks ?pr1)"
    "nc_peers (pr_ctx pr') = fold (\<lambda>i ps. ps[i := fresh_peer]) is (nc_peers (pr_ctx ?pr1))"
    "pr_io_ready pr' = fold (\<lambda>i bs. bs[i := True]) is (pr_io_ready ?pr1)"
    "pr' = ?pr1\<lparr>pr_ctx := (pr_ctx ?pr1)\<lparr>nc_peers := nc_peers (pr_ctx pr')\<rparr>, pr_locks := pr_locks pr', pr_io_ready := pr_io_ready pr'\<rparr>"
    by auto
  have "set (pr_locks pr') = io_locks (i # is) \<union> set (pr_locks pr)" unfolding P(2) by (auto simp: io_locks_def)
  moreover have "pr' = pr\<lparr>pr_ctx := (pr_ctx pr)\<lparr>nc_peers := nc_peers (pr_ctx pr')\<rparr>, pr_locks := pr_locks pr', pr_io_ready := pr_io_ready pr'\<rparr>"
    by (subst P(5)) simp
  ultimately show ?case using step P(1,3,4) by (intro exI [of _ pr']) simp
qed (simp add: io_locks_def)

lemma fold_update_all: "length xs = n \<Longrightarrow> fold (\<lambda>i ys. ys[i := v]) [0..<n] xs = replicate n v"
proof (rule nth_equalityI)
  have len: "length (fold (\<lambda>i ys. ys[i := v]) is ys) = length ys" for "is" and ys :: "'a list" by (induction "is" arbitrary: ys) simp_all
  then show "length (fold (\<lambda>i ys. ys[i := v]) [0..<n] xs) = length (replicate n v)" if "length xs = n" using that by simp
  have "j < length ys \<Longrightarrow> fold (\<lambda>i ys. ys[i := v]) is ys ! j = (if j \<in> set is then v else ys ! j)" for "is" j and ys :: "'a list"
    by (induction "is" arbitrary: ys) (auto simp: nth_list_update)
  then show "fold (\<lambda>i ys. ys[i := v]) [0..<n] xs ! j = replicate n v ! j"
    if "length xs = n" "j < length (fold (\<lambda>i ys. ys[i := v]) [0..<n] xs)" for j using that len by simp
qed

lemma destroy_slots:
  assumes "distinct is" and "io_locks is \<subseteq> set (pr_locks pr)" and "\<forall>i \<in> set is. i < length (pr_io_ready pr) \<and> pr_io_ready pr ! i"
  shows "\<exists>B. fold peer_slot_destroy is pr = pr\<lparr>pr_locks := filter (\<lambda>l. l \<notin> io_locks is) (pr_locks pr), pr_io_ready := B\<rparr>"
  using assms
proof (induction "is" arbitrary: pr)
  case (Cons i "is")
  let ?L = "removeAll (IoCond i) (removeAll (IoLock i) (pr_locks pr))"
  let ?pr1 = "pr\<lparr>pr_locks := ?L, pr_io_ready := (pr_io_ready pr)[i := False]\<rparr>"
  have step: "peer_slot_destroy i pr = ?pr1"
    using Cons.prems(2,3) by (simp add: peer_slot_destroy_def io_locks_def lock_destroy_live set_io_ready_def)
  have "io_locks is \<subseteq> set (pr_locks ?pr1)" using Cons.prems(1,2) by (auto simp: io_locks_def)
  moreover have "\<forall>j \<in> set is. j < length (pr_io_ready ?pr1) \<and> pr_io_ready ?pr1 ! j" using Cons.prems(1,3) by (auto simp: nth_list_update)
  ultimately obtain B where B: "fold peer_slot_destroy is ?pr1 = ?pr1\<lparr>pr_locks := filter (\<lambda>l. l \<notin> io_locks is) ?L, pr_io_ready := B\<rparr>"
    using Cons.IH [of ?pr1] Cons.prems(1) by auto
  have "filter (\<lambda>l. l \<notin> io_locks is) ?L = filter (\<lambda>l. l \<notin> io_locks (i # is)) (pr_locks pr)"
    by (auto simp: removeAll_filter_not_eq io_locks_def intro: filter_cong)
  with B step show ?case by (intro exI [of _ B]) simp
next
  case Nil
  show ?case by (rule exI [of _ "pr_io_ready pr"], cases pr) (simp add: io_locks_def)
qed

text \<open>The locks of the running program.\<close>

definition locks_live :: "'w process \<Rightarrow> bool" where
  "locks_live pr \<longleftrightarrow> pr_ready pr \<and> set (pr_locks pr) = set context_locks \<union> io_locks [0..<MAX_PEERS] \<and>
     pr_io_ready pr = replicate MAX_PEERS True"

lemma destroy_context_locks_all:
  assumes "locks_live pr"
  shows "pr_locks (destroy_context_locks pr) = [] \<and> pr_faults (destroy_context_locks pr) = pr_faults pr \<and>
    pr_open (destroy_context_locks pr) = pr_open pr \<and> pr_threads (destroy_context_locks pr) = pr_threads pr"
proof -
  let ?L = "filter (\<lambda>l. l \<notin> io_locks [0..<MAX_PEERS]) (pr_locks pr)"
  have "\<exists>B. fold peer_slot_destroy [0..<MAX_PEERS] pr =
      pr\<lparr>pr_locks := filter (\<lambda>l. l \<notin> io_locks [0..<MAX_PEERS]) (pr_locks pr), pr_io_ready := B\<rparr>"
    by (rule destroy_slots) (use assms in \<open>auto simp: locks_live_def\<close>)
  then obtain B where B: "fold peer_slot_destroy [0..<MAX_PEERS] pr =
      pr\<lparr>pr_locks := filter (\<lambda>l. l \<notin> io_locks [0..<MAX_PEERS]) (pr_locks pr), pr_io_ready := B\<rparr>" by blast
  have ls: "set destroy_order = set context_locks" "distinct destroy_order" by (auto simp: context_locks_def destroy_order_def)
  have sub: "set destroy_order \<subseteq> set ?L"
    using assms unfolding ls by (auto simp: locks_live_def context_locks_def io_locks_def)
  have "filter (\<lambda>l. l \<notin> set destroy_order) ?L = []"
    using assms unfolding ls by (auto simp: locks_live_def filter_empty_conv)
  then have "fold lock_destroy destroy_order (pr\<lparr>pr_locks := ?L, pr_io_ready := B\<rparr>) = pr\<lparr>pr_locks := [], pr_io_ready := B\<rparr>"
    using destroy_all [OF ls(2), of "pr\<lparr>pr_locks := ?L, pr_io_ready := B\<rparr>"] sub by simp
  then show ?thesis using assms B by (simp add: destroy_context_locks_def locks_live_def)
qed

section \<open>The slots during an event\<close>

definition shape :: "'w nm_context \<Rightarrow> (int \<times> bool) list" where
  "shape ctx = map (\<lambda>p. (p_fd p, used p)) (nc_peers ctx)"

lemma shape_peers: "nc_peers b = nc_peers a \<Longrightarrow> shape b = shape a"
  by (simp add: shape_def)

lemma shape_set_peer:
  "p_fd p = p_fd (nc_peers ctx ! i) \<Longrightarrow> used p = used (nc_peers ctx ! i) \<Longrightarrow> shape (set_peer ctx i p) = shape ctx"
  by (cases "i < length (nc_peers ctx)") (simp_all add: shape_def set_peer_def map_update list_update_same_conv [THEN iffD2] list_update_beyond)

lemma shape_close [simp]: "shape (peer_close ctx i) = (shape ctx)[i := (-1, False)]"
  by (simp add: shape_def peer_close_def map_update peer_reset_fields_def used_def)

lemma shape_reply: "shape (snd (peer_reply ctx i r)) = shape ctx"
  by (auto simp: peer_reply_def Let_def used_def split: prod.split intro!: shape_set_peer)

lemma shape_calm: "calm os a b \<Longrightarrow> shape b = shape a"
  by (rule shape_peers) (simp add: calm_def)

lemma register_shape:
  assumes "p_type (nc_peers ctx ! i) = PEER_UNKNOWN"
  shows "shape (snd (handle_ss_register os ctx i json)) = shape ctx"
proof -
  let ?new = "\<lambda>st idx. set_peer (set_state ctx st) i ((nc_peers ctx ! i)\<lparr>p_type := PEER_SERVER, p_server := idx\<rparr>)"
  have new: "shape (snd (peer_reply (?new st idx) i m)) = shape ctx" for st idx m
    using assms by (simp add: shape_reply, subst shape_set_peer) (simp_all add: used_def shape_def)
  then have "shape (assign_missing_backups os (snd (peer_reply (?new st idx) i m))) = shape ctx" for st idx m
    using shape_calm [OF assign_missing_calm] by metis
  then show ?thesis
    by (auto simp: handle_ss_register_def Let_def shape_reply split: option.split prod.split bool.split) (metis new snd_conv)+
qed

lemma hello_shape:
  assumes "p_type (nc_peers ctx ! i) = PEER_UNKNOWN"
  shows "shape (snd (handle_hello os ctx i json)) = shape ctx"
proof -
  have peers: "nc_peers ctx1 = nc_peers ctx" if "active_user_add os ctx u = (b, ctx1)" for u b ctx1
    using that by (auto simp: active_user_add_def split: if_splits option.splits)
  have "shape (set_peer (set_state ctx1 st) i ((nc_peers ctx1 ! i)\<lparr>p_user := n, p_type := PEER_CLIENT, p_server := -1\<rparr>)) = shape ctx"
    if "active_user_add os ctx u = (b, ctx1)" for u b ctx1 st n
    using assms peers [OF that] by (subst shape_set_peer) (simp_all add: used_def shape_def)
  then show ?thesis
    using peers by (auto simp: handle_hello_def Let_def shape_reply split: option.split prod.split bool.split intro!: shape_peers)
qed

lemma dispatch_shape:
  assumes "nm_ctx_inv ctx" "i < length (nc_peers ctx)"
  shows "shape (snd (dispatch_message os ctx i json)) = shape ctx"
proof (cases "p_type (nc_peers ctx ! i)")
  case PEER_CLIENT
  let ?p = "nc_peers ctx ! i"
  obtain x ctx1 c where m: "handle_client_message os ctx (p_conn ?p) (p_user ?p) json = (x, ctx1, c)" by (metis prod_cases3)
  have "acts os (p_user ?p) ctx ctx1"
    using message_acts [OF ctx_inv_wf [OF assms(1)] inv_user_short [OF assms], of os "p_conn ?p" json] m by simp
  then have "nc_peers ctx1 = nc_peers ctx" by (simp add: acts_defs)
  then have "shape (set_peer ctx1 i ((nc_peers ctx1 ! i)\<lparr>p_conn := c\<rparr>)) = shape ctx"
    by (subst shape_set_peer) (simp_all add: used_def shape_def)
  then show ?thesis using PEER_CLIENT m by (simp add: dispatch_message_def)
qed (auto simp: dispatch_message_def handle_handshake_def register_shape hello_shape shape_reply
    handle_server_message_def shape_calm [OF update_calm] split: option.split)

lemma disconnect_shape: "shape (handle_server_disconnect os ctx i) = shape ctx"
  by (auto simp: handle_server_disconnect_def Let_def active_user_remove_def shape_calm [OF server_lost_calm]
      split: option.split intro: shape_peers)

lemma round_shape:
  assumes "nm_ctx_inv ctx" "i < length (nc_peers ctx)"
  shows "shape (peer_round os ctx i received) = (if round_ends os i received ctx then (shape ctx)[i := (-1, False)] else shape ctx)"
proof (cases received)
  case (Some json)
  obtain b ctx1 where d: "dispatch_message os ctx i json = (b, ctx1)" by fastforce
  have "shape ctx1 = shape ctx" using dispatch_shape [OF assms, of os json] d by simp
  then show ?thesis using Some d by (simp add: peer_round_def round_ends_def disconnect_shape split: bool.split)
qed (simp add: peer_round_def round_ends_def disconnect_shape)

section \<open>Descriptors\<close>

text \<open>
  The open descriptors are those the program keeps, \<open>base\<close>, and one for every used slot, and
  different slots have different descriptors.
\<close>

definition used_slots :: "(int \<times> bool) list \<Rightarrow> nat set" where
  "used_slots sh = {i. i < length sh \<and> snd (sh ! i)}"

definition slot_fd :: "(int \<times> bool) list \<Rightarrow> nat \<Rightarrow> nat" where
  "slot_fd sh i = nat (fst (sh ! i))"

definition fds_ok :: "nat set \<Rightarrow> (int \<times> bool) list \<Rightarrow> descriptors \<Rightarrow> bool" where
  "fds_ok base sh ds \<longleftrightarrow>
     (\<forall>i < length sh. if snd (sh ! i) then 0 \<le> fst (sh ! i) else fst (sh ! i) = -1) \<and>
     inj_on (slot_fd sh) (used_slots sh) \<and> base \<inter> slot_fd sh ` used_slots sh = {} \<and> set ds = base \<union> slot_fd sh ` used_slots sh"

lemma fds_ok_close:
  assumes "fds_ok base sh ds" "i < length sh" "snd (sh ! i)"
  shows "fds_ok base (sh[i := (-1, False)]) (removeAll (nat (fst (sh ! i))) ds)"
proof -
  let ?sh = "sh[i := (-1, False)]"
  have u: "used_slots ?sh = used_slots sh - {i}" "i \<in> used_slots sh" using assms(2,3) by (auto simp: used_slots_def nth_list_update split: if_splits)
  have same: "slot_fd ?sh ` (used_slots sh - {i}) = slot_fd sh ` (used_slots sh - {i})" by (intro image_cong) (simp_all add: slot_fd_def)
  have inj: "inj_on (slot_fd sh) (used_slots sh)" using assms(1) by (simp add: fds_ok_def)
  have img: "slot_fd ?sh ` used_slots ?sh = slot_fd sh ` used_slots sh - {slot_fd sh i}"
    using inj_on_image_set_diff [OF inj, of "used_slots sh" "{i}"] u unfolding u(1) same by auto
  have "inj_on (slot_fd ?sh) (used_slots ?sh) \<longleftrightarrow> inj_on (slot_fd sh) (used_slots sh - {i})"
    unfolding u(1) by (rule inj_on_cong) (simp add: slot_fd_def)
  then have "inj_on (slot_fd ?sh) (used_slots ?sh)" using inj_on_diff [OF inj] by simp
  moreover have "slot_fd sh i \<notin> base" using assms(1) u(2) by (auto simp: fds_ok_def)
  moreover have "\<forall>j < length ?sh. if snd (?sh ! j) then 0 \<le> fst (?sh ! j) else fst (?sh ! j) = -1"
    using assms(1,2) by (auto simp: fds_ok_def nth_list_update)
  ultimately show ?thesis
    using assms(1) unfolding fds_ok_def img by (auto simp: slot_fd_def)
qed

lemma fds_ok_open:
  assumes "fds_ok base sh ds" "i < length sh" "\<not> snd (sh ! i)" "fd \<notin> set ds"
  shows "fds_ok base (sh[i := (int fd, True)]) (fd # ds)"
proof -
  let ?sh = "sh[i := (int fd, True)]"
  have u: "used_slots ?sh = insert i (used_slots sh)" "i \<notin> used_slots sh"
    using assms(2,3) by (auto simp: used_slots_def nth_list_update split: if_splits)
  have f: "slot_fd ?sh = (slot_fd sh)(i := fd)" using assms(2) by (auto simp: fun_eq_iff slot_fd_def nth_list_update)
  have ds: "set ds = base \<union> slot_fd sh ` used_slots sh" using assms(1) by (simp add: fds_ok_def)
  have img: "slot_fd ?sh ` used_slots ?sh = insert fd (slot_fd sh ` used_slots sh)" unfolding u(1) f using u(2) by (auto simp: image_iff)
  have "inj_on (slot_fd ?sh) (used_slots ?sh)"
    unfolding u(1) f using assms(1,4) u(2) ds by (auto simp: fds_ok_def inj_on_fun_updI)
  moreover have "\<forall>j < length ?sh. if snd (?sh ! j) then 0 \<le> fst (?sh ! j) else fst (?sh ! j) = -1"
    using assms(1,2) by (auto simp: fds_ok_def nth_list_update)
  ultimately show ?thesis using assms(1,4) ds unfolding fds_ok_def img by auto
qed

section \<open>Threads\<close>

text \<open>
  A slot in use has exactly one thread that serves it, the one the slot names; a thread that is about to end has left a slot that nobody uses.
\<close>

definition threads_ok :: "bool list \<Rightarrow> nat option list \<Rightarrow> (nat \<times> peer_phase) list \<Rightarrow> bool" where
  "threads_ok us js ts \<longleftrightarrow> length js = length us \<and> (\<forall>k < length ts. fst (ts ! k) < length us) \<and>
     (\<forall>i < length us. (us ! i \<longleftrightarrow> js ! i \<noteq> None) \<and> (\<forall>k. js ! i = Some k \<longleftrightarrow> k < length ts \<and> ts ! k = (i, Serving)) \<and>
        (\<forall>k < length ts. ts ! k = (i, Parting) \<or> ts ! k = (i, Unmarked) \<longrightarrow> \<not> us ! i))"

lemma threads_ok_slot:
  assumes "threads_ok us js ts" "k < length ts" "ts ! k = (i, ph)"
  shows "i < length us" "ph = Serving \<Longrightarrow> us ! i \<and> js ! i = Some k" "ph = Parting \<or> ph = Unmarked \<Longrightarrow> \<not> us ! i"
  using assms unfolding threads_ok_def by (metis fst_conv option.simps(3))+

lemma threads_ok_add:
  assumes "threads_ok us js ts" "i < length us" "\<not> us ! i" "list_all (\<lambda>(j, ph). j = i \<longrightarrow> ph = Gone) ts"
  shows "threads_ok (us[i := True]) (js[i := Some (length ts)]) (ts @ [(i, Serving)])"
proof -
  have gone: "ph = Gone" if "k < length ts" "ts ! k = (i, ph)" for k ph
    using assms(4) that by (auto simp: list_all_length)
  then have "ts ! k \<noteq> (i, Serving)" "ts ! k \<noteq> (i, Parting)" "ts ! k \<noteq> (i, Unmarked)" if "k < length ts" for k
    using that by blast+
  then show ?thesis using assms(1,2) unfolding threads_ok_def by (auto simp: nth_list_update nth_append less_Suc_eq)
qed

text \<open>The thread of slot \<open>i\<close> leaves it.\<close>

lemma threads_ok_part:
  assumes "threads_ok us js ts" "k < length ts" "ts ! k = (i, Serving)"
  shows "threads_ok (us[i := False]) (js[i := None]) (ts[k := (i, Parting)])"
proof -
  note S = threads_ok_slot [OF assms]
  have only: "l = k" if "l < length ts" "ts ! l = (i, Serving)" for l
    using threads_ok_slot(2) [OF assms(1) that] S(2) by simp
  have nth: "ts[k := (i, Parting)] ! l = (if l = k then (i, Parting) else ts ! l)" for l using assms(2) by (simp add: nth_list_update)
  have len: "length js = length us" using assms(1) by (simp add: threads_ok_def)
  have all: "(us ! j \<longleftrightarrow> js ! j \<noteq> None) \<and> (\<forall>l. js ! j = Some l \<longleftrightarrow> l < length ts \<and> ts ! l = (j, Serving)) \<and>
      (\<forall>l < length ts. ts ! l = (j, Parting) \<or> ts ! l = (j, Unmarked) \<longrightarrow> \<not> us ! j)" if "j < length us" for j
    using assms(1) that unfolding threads_ok_def by blast
  have "(us[i := False] ! j \<longleftrightarrow> js[i := None] ! j \<noteq> None) \<and>
      (\<forall>l. js[i := None] ! j = Some l \<longleftrightarrow> l < length ts \<and> ts[k := (i, Parting)] ! l = (j, Serving)) \<and>
      (\<forall>l < length ts. ts[k := (i, Parting)] ! l = (j, Parting) \<or> ts[k := (i, Parting)] ! l = (j, Unmarked) \<longrightarrow> \<not> us[i := False] ! j)"
    if j: "j < length us" for j
  proof (cases "j = i")
    case True
    then show ?thesis using S(1) only len unfolding nth by auto
  next
    case False
    then have "us[i := False] ! j = us ! j" "js[i := None] ! j = js ! j"
      "ts[k := (i, Parting)] ! l = (j, ph) \<longleftrightarrow> l \<noteq> k \<and> ts ! l = (j, ph)" "ts ! k \<noteq> (j, ph)" for l ph
      using assms(3) by (simp_all add: nth)
    then show ?thesis using all [OF j] by metis
  qed
  moreover have "fst (ts[k := (i, Parting)] ! l) < length us" if "l < length ts" for l
    using assms(1) S(1) that unfolding nth threads_ok_def by simp
  ultimately show ?thesis using len unfolding threads_ok_def length_list_update by blast
qed

lemma threads_ok_move:
  assumes "threads_ok us js ts" "k < length ts" "ts ! k = (i, ph)" "ph = Parting \<or> ph = Unmarked" "ph' \<noteq> Serving"
  shows "threads_ok us (js[i := None]) (ts[k := (i, ph')])"
proof -
  note S = threads_ok_slot [OF assms(1-3)]
  have "js ! i = None" using assms(1,4) S unfolding threads_ok_def by blast
  then have "js[i := None] = js" by (metis list_update_id)
  then show ?thesis using assms S unfolding threads_ok_def by (auto simp: nth_list_update)
qed

lemma threads_ok_free:
  assumes "threads_ok us js ts" "i < length us" "\<not> us ! i"
  shows "js[i := None] = js"
proof -
  have "js ! i = None" using assms unfolding threads_ok_def by blast
  then show ?thesis by (metis list_update_id)
qed

section \<open>The running program\<close>

definition in_use :: "'w nm_context \<Rightarrow> bool list" where
  "in_use ctx = map snd (shape ctx)"

definition proc_ok :: "nat set \<Rightarrow> fault list \<Rightarrow> 'w process \<Rightarrow> bool" where
  "proc_ok base faults pr \<longleftrightarrow> nm_ctx_inv (pr_ctx pr) \<and> length (nc_peers (pr_ctx pr)) = MAX_PEERS \<and> locks_live pr \<and>
     fds_ok base (shape (pr_ctx pr)) (pr_open pr) \<and> threads_ok (in_use (pr_ctx pr)) (pr_joins pr) (pr_threads pr) \<and> pr_faults pr = faults"

lemma length_shape [simp]: "length (shape ctx) = length (nc_peers ctx)"
  by (simp add: shape_def)

lemma nth_shape: "i < length (nc_peers ctx) \<Longrightarrow> shape ctx ! i = (p_fd (nc_peers ctx ! i), used (nc_peers ctx ! i))"
  by (simp add: shape_def)

lemma in_use_simps [simp]:
  "length (in_use ctx) = length (nc_peers ctx)" "i < length (nc_peers ctx) \<Longrightarrow> in_use ctx ! i = used (nc_peers ctx ! i)"
  by (simp_all add: in_use_def nth_shape)

lemma in_use_shape:
  "shape b = shape a \<Longrightarrow> in_use b = in_use a" "shape b = (shape a)[i := (fd, u)] \<Longrightarrow> in_use b = (in_use a)[i := u]"
  by (simp_all add: in_use_def map_update)

lemma live_locks:
  assumes "locks_live pr"
  shows "lock_use PeerLock pr = pr" "lock_use ReplicationLock pr = pr" "lock_use ReplicationCond pr = pr"
    "i < MAX_PEERS \<Longrightarrow> use_io i pr = pr"
  using assms by (auto simp: locks_live_def context_locks_def use_io_def io_locks_def)

lemma locks_live_cong [simp]:
  "locks_live (pr\<lparr>pr_ctx := ctx\<rparr>) = locks_live pr" "locks_live (pr\<lparr>pr_open := ds\<rparr>) = locks_live pr"
  "locks_live (pr\<lparr>pr_listen := fd\<rparr>) = locks_live pr" "locks_live (pr\<lparr>pr_logs := ls\<rparr>) = locks_live pr"
  "locks_live (pr\<lparr>pr_threads := ts\<rparr>) = locks_live pr" "locks_live (pr\<lparr>pr_joins := js\<rparr>) = locks_live pr"
  "locks_live (close_fd x pr) = locks_live pr" "locks_live (set_slot i p pr) = locks_live pr" "locks_live (set_join i j pr) = locks_live pr"
  by (simp_all add: locks_live_def close_fd_def set_slot_def set_join_def)

lemma process_simps [simp]:
  "pr_ctx (close_fd fd pr) = pr_ctx pr" "pr_faults (close_fd fd pr) = pr_faults pr" "pr_faults (set_slot i p pr) = pr_faults pr"
  "pr_open (set_slot i p pr) = pr_open pr" "pr_logs (close_fd fd pr) = pr_logs pr" "pr_logs (set_slot i p pr) = pr_logs pr"
  "pr_listen (close_fd fd pr) = pr_listen pr" "pr_listen (set_slot i p pr) = pr_listen pr"
  "pr_threads (close_fd fd pr) = pr_threads pr" "pr_threads (set_slot i p pr) = pr_threads pr"
  "pr_joins (close_fd fd pr) = pr_joins pr" "pr_joins (set_slot i p pr) = pr_joins pr"
  "pr_locks (close_fd fd pr) = pr_locks pr" "pr_io_ready (close_fd fd pr) = pr_io_ready pr"
  by (simp_all add: close_fd_def set_slot_def)

lemma keeps_rest [simp]:
  "pr_listen (lock_use l pr) = pr_listen pr" "pr_logs (lock_use l pr) = pr_logs pr" "pr_threads (lock_use l pr) = pr_threads pr"
  "pr_listen (use_io i pr) = pr_listen pr" "pr_logs (use_io i pr) = pr_logs pr" "pr_threads (use_io i pr) = pr_threads pr"
  "pr_listen (set_join i j pr) = pr_listen pr" "pr_logs (set_join i j pr) = pr_logs pr" "pr_threads (set_join i j pr) = pr_threads pr"
  by (simp_all add: lock_use_def note_fault_def use_io_def set_join_def)

text \<open>Resetting a slot that nobody uses.\<close>

lemma reset_ok:
  assumes "proc_ok base fs pr" "i < MAX_PEERS" "\<not> used (slot pr i)"
  shows "proc_ok base fs (peer_reset i pr)" "shape (pr_ctx (peer_reset i pr)) = shape (pr_ctx pr)" "pr_joins (peer_reset i pr) = pr_joins pr"
proof -
  let ?ctx = "pr_ctx pr" and ?r = "peer_reset_fields (slot pr i)"
  have inv: "nm_ctx_inv ?ctx" and live: "locks_live pr" and len: "length (nc_peers ?ctx) = MAX_PEERS"
    and fds: "fds_ok base (shape ?ctx) (pr_open pr)" "pr_faults pr = fs" and ts: "threads_ok (in_use ?ctx) (pr_joins pr) (pr_threads pr)"
    using assms(1) by (simp_all add: proc_ok_def)
  have i: "i < length (nc_peers ?ctx)" using assms(2) len by simp
  have js: "(pr_joins pr)[i := None] = pr_joins pr"
    by (rule threads_ok_free [OF ts]) (use i assms(3) in \<open>simp_all add: slot_def\<close>)
  then have run: "peer_reset i pr = pr\<lparr>pr_ctx := set_peer ?ctx i ?r\<rparr>"
    using live_locks [OF live] assms(2) by (simp add: peer_reset_def set_slot_def set_join_def set_peer_def)
  have fd: "p_fd (slot pr i) = -1" using fds(1) i assms(3) by (auto simp: fds_ok_def nth_shape slot_def)
  have "nm_ctx_inv (set_peer ?ctx i ?r)"
    using assms(3) by (intro set_peer_inv [OF inv i]) (simp_all add: peer_reset_fields_def NM_MAX_USER_def used_def slot_def)
  moreover have sh: "shape (set_peer ?ctx i ?r) = shape ?ctx"
    using fd assms(3) by (intro shape_set_peer) (simp_all add: used_def peer_reset_fields_def slot_def)
  ultimately show "proc_ok base fs (peer_reset i pr)" "shape (pr_ctx (peer_reset i pr)) = shape ?ctx" "pr_joins (peer_reset i pr) = pr_joins pr"
    unfolding run using live len fds ts in_use_shape(1) [OF sh] by (simp_all add: proc_ok_def set_peer_def)
qed

lemma reset_keeps [simp]:
  "pr_listen (peer_reset i pr) = pr_listen pr" "pr_logs (peer_reset i pr) = pr_logs pr" "pr_threads (peer_reset i pr) = pr_threads pr"
  by (simp_all add: peer_reset_def)

lemma thread_round_ok:
  assumes "proc_ok base fs pr" "k < length (pr_threads pr)"
  shows "proc_ok base fs (thread_round os k received pr)"
proof (cases "\<exists>i. pr_threads pr ! k = (i, Serving)")
  case True
  then obtain i where k: "pr_threads pr ! k = (i, Serving)" by blast
  let ?ctx = "pr_ctx pr"
  let ?ctx1 = "peer_round os ?ctx i received"
  have inv: "nm_ctx_inv ?ctx" and live: "locks_live pr" and len: "length (nc_peers ?ctx) = MAX_PEERS"
    and fds: "fds_ok base (shape ?ctx) (pr_open pr)" "pr_faults pr = fs" and ts: "threads_ok (in_use ?ctx) (pr_joins pr) (pr_threads pr)"
    using assms by (simp_all add: proc_ok_def)
  note S = threads_ok_slot [OF ts assms(2) k]
  have i: "i < length (nc_peers ?ctx)" "used (nc_peers ?ctx ! i)" "i < MAX_PEERS" using S len by simp_all
  have "nm_step os (Round i received) ?ctx = ?ctx1" using i by (simp add: used_def)
  then have inv1: "nm_ctx_inv ?ctx1" using nm_step_inv [OF inv, of os "Round i received"] by simp
  note sh = round_shape [OF inv i(1), of os received]
  have len1: "length (nc_peers ?ctx1) = MAX_PEERS" using arg_cong [OF sh, of length] len by (simp split: if_splits)
  show ?thesis
  proof (cases "round_ends os i received ?ctx")
    case True
    have fd: "0 \<le> p_fd (slot pr i)" using fds(1) i by (auto simp: fds_ok_def nth_shape slot_def)
    have run: "thread_round os k received pr = pr\<lparr>pr_ctx := ?ctx1, pr_open := removeAll (nat (p_fd (slot pr i))) (pr_open pr),
        pr_joins := (pr_joins pr)[i := None], pr_threads := (pr_threads pr)[k := (i, Parting)]\<rparr>"
      using k True fd live i(3) by (simp add: thread_round_def live_locks close_fd_def set_join_def)
    have sh1: "shape ?ctx1 = (shape ?ctx)[i := (-1, False)]" using sh True by simp
    have "fds_ok base (shape ?ctx1) (removeAll (nat (p_fd (slot pr i))) (pr_open pr))"
      using fds_ok_close [OF fds(1), of i] i unfolding sh1 by (simp add: nth_shape slot_def)
    then show ?thesis unfolding run
      using inv1 live len1 fds(2) threads_ok_part [OF ts assms(2) k] in_use_shape(2) [OF sh1] by (simp add: proc_ok_def)
  next
    case False
    then have "thread_round os k received pr = pr\<lparr>pr_ctx := ?ctx1\<rparr>" using k by (simp add: thread_round_def)
    moreover have "shape ?ctx1 = shape ?ctx" using sh False by simp
    ultimately show ?thesis using inv1 live len1 fds ts in_use_shape(1) [of ?ctx1 ?ctx] by (simp add: proc_ok_def)
  qed
next
  case False
  then have "thread_round os k received pr = pr" by (auto simp: thread_round_def split: prod.split peer_phase.split)
  then show ?thesis using assms(1) by simp
qed

lemma thread_leaves_ok:
  assumes "proc_ok base fs pr" "k < length (pr_threads pr)"
  shows "proc_ok base fs (thread_leaves k pr) \<and> shape (pr_ctx (thread_leaves k pr)) = shape (pr_ctx pr)"
proof -
  obtain i ph where k: "pr_threads pr ! k = (i, ph)" by fastforce
  have live: "locks_live pr" and len: "length (nc_peers (pr_ctx pr)) = MAX_PEERS"
    and ts: "threads_ok (in_use (pr_ctx pr)) (pr_joins pr) (pr_threads pr)" using assms(1) by (simp_all add: proc_ok_def)
  note S = threads_ok_slot [OF ts assms(2) k]
  show ?thesis
  proof (cases "ph = Parting \<or> ph = Unmarked")
    case True
    then have i: "i < MAX_PEERS" "\<not> used (slot pr i)" using S len by (auto simp: slot_def)
    note R = reset_ok [OF assms(1) i]
    have move: "threads_ok (in_use (pr_ctx pr)) (pr_joins pr) ((pr_threads pr)[k := (i, ph')])" if "ph' \<noteq> Serving" for ph'
      using threads_ok_move [OF ts assms(2) k True that] threads_ok_free [OF ts, of i] i len by (simp add: slot_def)
    from True show ?thesis
    proof
      assume "ph = Parting"
      then have "thread_leaves k pr = pr\<lparr>pr_threads := (pr_threads pr)[k := (i, Unmarked)]\<rparr>"
        using k live threads_ok_free [OF ts, of i] i len by (simp add: thread_leaves_def live_locks set_join_def slot_def)
      then show ?thesis using assms(1) move [of Unmarked] by (simp add: proc_ok_def)
    next
      assume "ph = Unmarked"
      then have "thread_leaves k pr = (peer_reset i pr)\<lparr>pr_threads := (pr_threads pr)[k := (i, Gone)]\<rparr>"
        using k by (simp add: thread_leaves_def)
      then show ?thesis using R move [of Gone] in_use_shape(1) [OF R(2)] by (simp add: proc_ok_def)
    qed
  next
    case False
    then have "thread_leaves k pr = pr" using k by (cases ph) (simp_all add: thread_leaves_def)
    then show ?thesis using assms(1) by simp
  qed
qed

lemma thread_keeps [simp]:
  "pr_listen (thread_round os k received pr) = pr_listen pr" "pr_logs (thread_round os k received pr) = pr_logs pr"
  "length (pr_threads (thread_round os k received pr)) = length (pr_threads pr)"
  "pr_listen (thread_leaves k pr) = pr_listen pr" "pr_logs (thread_leaves k pr) = pr_logs pr"
  "length (pr_threads (thread_leaves k pr)) = length (pr_threads pr)"
  by (simp_all add: thread_round_def thread_leaves_def Let_def split: prod.split peer_phase.split)

lemma accept_connection_ok:
  assumes "proc_ok base fs pr" "settled (Connection (Accepted c mem thread)) pr"
  shows "proc_ok base fs (accept_connection c mem thread pr)"
proof -
  let ?ctx = "pr_ctx pr"
  let ?fd = "lowest_free (pr_open pr)"
  have inv: "nm_ctx_inv ?ctx" and live: "locks_live pr" and len: "length (nc_peers ?ctx) = MAX_PEERS"
    and fds: "fds_ok base (shape ?ctx) (pr_open pr)" "pr_faults pr = fs" and ts: "threads_ok (in_use ?ctx) (pr_joins pr) (pr_threads pr)"
    using assms(1) by (simp_all add: proc_ok_def)
  have use: "lock_use PeerLock (pr\<lparr>pr_open := ds\<rparr>) = pr\<lparr>pr_open := ds\<rparr>" for ds using live by (intro live_locks) simp
  have new: "?fd \<notin> set (pr_open pr)" by (rule lowest_free_new)
  show ?thesis
  proof (cases "allocate_peer ?ctx")
    case None
    then have "accept_connection c mem thread pr = pr\<lparr>pr_open := pr_open pr\<rparr>"
      using new by (simp add: accept_connection_def use close_fd_def removeAll_id)
    then show ?thesis using assms by (cases pr) simp
  next
    case (Some i)
    from find_index_SomeD [OF Some [unfolded allocate_peer_def]]
    have i: "i < length (nc_peers ?ctx)" "p_type (nc_peers ?ctx ! i) = PEER_UNUSED" by simp_all
    let ?ctx1 = "accept_peer ?ctx (int ?fd) c"
    let ?pr2 = "pr\<lparr>pr_open := ?fd # pr_open pr, pr_ctx := ?ctx1\<rparr>"
    have sh: "shape ?ctx1 = (shape ?ctx)[i := (int ?fd, True)]" "length (nc_peers ?ctx1) = MAX_PEERS"
      using Some len by (simp_all add: accept_peer_def shape_def map_update used_def)
    have free: "i < length (in_use ?ctx)" "\<not> in_use ?ctx ! i" using i by (simp_all add: used_def)
    have js: "(pr_joins pr)[i := None] = pr_joins pr" by (rule threads_ok_free [OF ts free])
    have gone: "list_all (\<lambda>(j, ph). j = i \<longrightarrow> ph = Gone) (pr_threads pr)" using assms(2) Some by (simp add: settled_def)
    let ?started = "pr\<lparr>pr_open := ?fd # pr_open pr, pr_ctx := ?ctx1, pr_joins := (pr_joins pr)[i := Some (length (pr_threads pr))],
      pr_threads := pr_threads pr @ [(i, Serving)]\<rparr>"
    have "fds_ok base (shape ?ctx1) (?fd # pr_open pr)"
      unfolding sh by (rule fds_ok_open [OF fds(1)]) (use i new in \<open>simp_all add: nth_shape used_def\<close>)
    then have ok: "proc_ok base fs ?started"
      using accept_inv [OF inv] live sh(2) fds(2) threads_ok_add [OF ts free gone] in_use_shape(2) [OF sh(1)] by (simp add: proc_ok_def)
    let ?c = "peer_close ?ctx1 i"
    let ?pr3 = "pr\<lparr>pr_open := pr_open pr, pr_ctx := ?c, pr_joins := pr_joins pr\<rparr>"
    have slot2: "p_fd (slot ?pr2 i) = int ?fd" using Some i by (simp add: slot_def accept_peer_def)
    have shc: "shape ?c = shape ?ctx"
      using fds(1) i by (auto simp: sh fds_ok_def nth_shape used_def intro!: list_update_same_conv [THEN iffD2])
    moreover have "nm_ctx_inv ?c"
      using set_peer_inv [OF accept_inv [OF inv, of "int ?fd" c], of i "(peer_reset_fields (nc_peers ?ctx1 ! i))\<lparr>p_conn := closed_conn\<rparr>"]
        Some i by (simp add: peer_close_def set_peer_def peer_reset_fields_def NM_MAX_USER_def accept_peer_def)
    ultimately have closed: "proc_ok base fs ?pr3"
      using live sh(2) fds ts in_use_shape(1) [OF shc] by (simp add: proc_ok_def peer_close_def)
    have "close_slot i ?pr2 = ?pr3"
      using slot2 live_locks [of ?pr2] live i len new js by (simp add: close_slot_def close_fd_def removeAll_id set_join_def)
    moreover have "proc_ok base fs (peer_reset i ?pr3)"
      by (rule reset_ok(1) [OF closed]) (use i len sh(2) in \<open>simp_all add: slot_def peer_close_def used_def peer_reset_fields_def\<close>)
    ultimately show ?thesis using Some ok by (simp add: accept_connection_def use Let_def set_join_def)
  qed
qed

lemma main_step_ok:
  assumes "proc_ok base fs pr" "settled e pr"
  shows "proc_ok base fs (main_step os e pr)"
proof -
  have "proc_ok base fs (pr\<lparr>pr_ctx := ctx1\<rparr>)" if "nm_ctx_inv ctx1" "nc_peers ctx1 = nc_peers (pr_ctx pr)" for ctx1
    using assms that by (simp add: proc_ok_def shape_def in_use_def)
  moreover have "nc_peers (ticket_prune os ctx) = nc_peers ctx" "nc_peers (replication_worker os ctx) = nc_peers ctx" for ctx
    using worker_calm [of os ctx] by (simp_all add: ticket_prune_def calm_def)
  ultimately have "proc_ok base fs (pr\<lparr>pr_ctx := nm_step os Prune (pr_ctx pr)\<rparr>)" "proc_ok base fs (pr\<lparr>pr_ctx := nm_step os Replicate (pr_ctx pr)\<rparr>)"
    using assms(1) nm_step_inv [of "pr_ctx pr" os Prune] nm_step_inv [of "pr_ctx pr" os Replicate] by (simp_all add: proc_ok_def)
  then show ?thesis
    using assms(1) accept_connection_ok [OF assms(1)] thread_round_ok [OF assms(1)] thread_leaves_ok [OF assms(1)] assms(2)
    by (auto simp: main_step_def split: main_event.split accept_result.split)
qed

lemma main_step_keeps: "pr_listen (main_step os e pr) = pr_listen pr" "pr_logs (main_step os e pr) = pr_logs pr"
  by (auto simp: main_step_def accept_connection_def close_slot_def Let_def split: main_event.split accept_result.split option.split)

text \<open>When the loop has ended, no thread is in between its last steps.\<close>

definition quiet :: "'w process \<Rightarrow> bool" where
  "quiet pr \<longleftrightarrow> list_all (\<lambda>(j, ph). ph = Serving \<or> ph = Gone) (pr_threads pr)"

lemma main_loop_ok:
  assumes "proc_ok base fs pr" and "main_loop es pr = (pr', b)" and "settled_loop es pr"
  shows "proc_ok base fs pr' \<and> pr_listen pr' = pr_listen pr \<and> pr_logs pr' = pr_logs pr \<and> (b \<longrightarrow> quiet pr')"
  using assms
proof (induction es arbitrary: pr)
  case (Cons x es)
  obtain os e where x: "x = (os, e)" by fastforce
  show ?case
  proof (cases "e = Connection AcceptBad")
    case False
    then have "main_loop es (main_step os e pr) = (pr', b)" "settled e pr" "settled_loop es (main_step os e pr)" using Cons.prems(2,3) x by simp_all
    from Cons.IH [OF main_step_ok [OF Cons.prems(1) this(2)] this(1,3)] show ?thesis by (simp add: main_step_keeps)
  qed (use Cons.prems x in \<open>simp add: settled_def quiet_def\<close>)
qed simp

section \<open>The end of the program\<close>

lemma close_fd_filter: "close_fd fd pr = pr\<lparr>pr_open := filter (\<lambda>x. int x \<noteq> fd) (pr_open pr)\<rparr>"
proof (cases "0 \<le> fd")
  case True
  then have "(\<lambda>x. int x \<noteq> fd) = (\<lambda>x. nat fd \<noteq> x)" by auto
  with True show ?thesis by (simp add: close_fd_def removeAll_filter_not_eq)
next
  case False
  then have "filter (\<lambda>x. int x \<noteq> fd) (pr_open pr) = pr_open pr" by (intro filter_True) auto
  with False show ?thesis by (simp add: close_fd_def)
qed

text \<open>The locks that closing the connections uses.\<close>

definition usable :: "'w process \<Rightarrow> nat list \<Rightarrow> bool" where
  "usable pr is \<longleftrightarrow> PeerLock \<in> set (pr_locks pr) \<and> (\<forall>i \<in> set is. pr_io_ready pr ! i \<longrightarrow> IoLock i \<in> set (pr_locks pr))"

lemma close_unused:
  assumes "usable pr is" "distinct is"
    "\<forall>i \<in> set is. i < length (nc_peers (pr_ctx pr)) \<and> \<not> used (slot pr i) \<and> pr_joins pr ! i = None"
  shows "\<exists>ctx. close_connections wakes os is pr =
      Some (pr\<lparr>pr_ctx := ctx, pr_open := filter (\<lambda>fd. \<forall>i \<in> set is. int fd \<noteq> p_fd (slot pr i)) (pr_open pr)\<rparr>) \<and>
    nc_state ctx = nc_state (pr_ctx pr) \<and> nc_disk ctx = nc_disk (pr_ctx pr) \<and> nc_world ctx = nc_world (pr_ctx pr)"
  using assms
proof (induction "is" arbitrary: pr)
  case Nil
  show ?case by (rule exI [of _ "pr_ctx pr"], cases pr) simp
next
  case (Cons i "is")
  let ?p = "peer_reset_fields ((slot pr i)\<lparr>p_fd := -1, p_conn := closed_conn\<rparr>)"
  let ?ctx1 = "(pr_ctx pr)\<lparr>nc_peers := (nc_peers (pr_ctx pr))[i := ?p]\<rparr>"
  let ?ds = "filter (\<lambda>fd. int fd \<noteq> p_fd (slot pr i)) (pr_open pr)"
  let ?pr1 = "pr\<lparr>pr_ctx := ?ctx1, pr_open := ?ds\<rparr>"
  have use: "lock_use PeerLock q = q" "use_io i q = q" if "pr_locks q = pr_locks pr" "pr_io_ready q = pr_io_ready pr" for q :: "'a process"
    using Cons.prems(1) that by (simp_all add: usable_def use_io_def)
  have js: "(pr_joins pr)[i := None] = pr_joins pr" using Cons.prems(3) by (metis list.set_intros(1) list_update_id)
  have "close_connection wakes os i pr =
      Some (set_join i None (set_slot i ?p (set_slot i ((slot pr i)\<lparr>p_fd := -1, p_conn := closed_conn\<rparr>) (close_fd (p_fd (slot pr i)) pr))))"
    using Cons.prems(3) by (simp add: close_connection_def Let_def peer_reset_def close_fd_filter set_slot_def use slot_def)
  then have step: "close_connection wakes os i pr = Some ?pr1" by (simp add: close_fd_filter set_slot_def set_join_def js)
  have other: "\<forall>j \<in> set is. slot ?pr1 j = slot pr j" using Cons.prems(2) by (auto simp: slot_def intro!: nth_list_update_neq)
  then have same: "filter (\<lambda>fd. \<forall>j \<in> set is. int fd \<noteq> p_fd (slot ?pr1 j)) ?ds =
      filter (\<lambda>fd. \<forall>j \<in> set (i # is). int fd \<noteq> p_fd (slot pr j)) (pr_open pr)"
    by (auto intro: filter_cong)
  obtain ctx where "close_connections wakes os is ?pr1 = Some (?pr1\<lparr>pr_ctx := ctx,
      pr_open := filter (\<lambda>fd. \<forall>j \<in> set is. int fd \<noteq> p_fd (slot ?pr1 j)) (pr_open ?pr1)\<rparr>)"
    "nc_state ctx = nc_state ?ctx1" "nc_disk ctx = nc_disk ?ctx1" "nc_world ctx = nc_world ?ctx1"
    using Cons.IH [of ?pr1] Cons.prems other by (auto simp: usable_def)
  then show ?case using step same by (intro exI [of _ ctx]) simp
qed

lemma fold_close_fd: "fold (\<lambda>fd. close_fd (int fd)) ls pr = pr\<lparr>pr_open := filter (\<lambda>x. x \<notin> set ls) (pr_open pr)\<rparr>"
proof (induction ls arbitrary: pr)
  case (Cons l ls)
  have "filter (\<lambda>x. x \<notin> set ls) (filter (\<lambda>x. x \<noteq> l) xs) = filter (\<lambda>x. x \<notin> set (l # ls)) xs" for xs
    by (auto intro: filter_cong)
  then show ?case using Cons [of "close_fd (int l) pr"] by (simp add: close_fd_filter)
qed (cases pr, simp)

text \<open>Closing the connection of a slot, with or without a thread: the program waits without end exactly when the thread is not woken.\<close>

definition awake :: "(nat \<Rightarrow> bool) \<Rightarrow> nat option \<Rightarrow> bool" where
  "awake wakes j \<longleftrightarrow> (case j of None \<Rightarrow> True | Some k \<Rightarrow> wakes k)"

definition closed_ok :: "nat set \<Rightarrow> fault list \<Rightarrow> nat list \<Rightarrow> 'w process \<Rightarrow> 'w process \<Rightarrow> bool" where
  "closed_ok base fs is pr pr' \<longleftrightarrow> proc_ok base fs pr' \<and> quiet pr' \<and> pr_listen pr' = pr_listen pr \<and> pr_logs pr' = pr_logs pr \<and>
     shape (pr_ctx pr') = fold (\<lambda>i sh. sh[i := (-1, False)]) is (shape (pr_ctx pr)) \<and> (\<forall>j. j \<notin> set is \<longrightarrow> pr_joins pr' ! j = pr_joins pr ! j)"

lemma quiet_update: "quiet pr \<Longrightarrow> quiet (q\<lparr>pr_threads := (pr_threads pr)[k := (i, Gone)]\<rparr>)"
  using set_update_subset_insert [of "pr_threads pr" k "(i, Gone)"] by (auto simp: quiet_def list_all_iff)

text \<open>The thread of slot \<open>i\<close> fails to receive from the descriptor that has been closed, and ends.\<close>

lemma join_ok:
  assumes "proc_ok base fs pr" "quiet pr" "k < length (pr_threads pr)" "pr_threads pr ! k = (i, Serving)"
    and "pr2 = pr\<lparr>pr_open := removeAll (nat (p_fd (slot pr i))) (pr_open pr),
      pr_ctx := set_peer (pr_ctx pr) i ((slot pr i)\<lparr>p_fd := -1, p_conn := closed_conn\<rparr>)\<rparr>"
  shows "closed_ok base fs [i] pr (thread_leaves k (thread_leaves k (thread_round os k None pr2)))"
proof -
  let ?ctx = "pr_ctx pr" and ?p = "slot pr i"
  let ?ctx2 = "set_peer ?ctx i (?p\<lparr>p_fd := -1, p_conn := closed_conn\<rparr>)"
  let ?ctx3 = "peer_close (handle_server_disconnect os ?ctx2 i) i"
  let ?pr3 = "pr\<lparr>pr_open := removeAll (nat (p_fd ?p)) (pr_open pr), pr_ctx := ?ctx3,
    pr_joins := (pr_joins pr)[i := None], pr_threads := (pr_threads pr)[k := (i, Parting)]\<rparr>"
  have inv: "nm_ctx_inv ?ctx" and live: "locks_live pr" and len: "length (nc_peers ?ctx) = MAX_PEERS"
    and fds: "fds_ok base (shape ?ctx) (pr_open pr)" "pr_faults pr = fs" and ts: "threads_ok (in_use ?ctx) (pr_joins pr) (pr_threads pr)"
    using assms(1) by (simp_all add: proc_ok_def)
  note S = threads_ok_slot [OF ts assms(3,4)]
  have i: "i < length (nc_peers ?ctx)" "used (nc_peers ?ctx ! i)" "i < MAX_PEERS" using S len by simp_all
  have sh2: "shape ?ctx2 = (shape ?ctx)[i := (-1, used ?p)]" by (simp add: shape_def set_peer_def map_update used_def)
  have inv2: "nm_ctx_inv ?ctx2" using inv_user_short [OF inv i(1)] by (intro set_peer_inv [OF inv i(1)]) (simp_all add: slot_def)
  have sh3: "shape ?ctx3 = (shape ?ctx)[i := (-1, False)]" by (simp add: disconnect_shape sh2)
  have len3: "length (nc_peers ?ctx3) = MAX_PEERS" using arg_cong [OF sh3, of length] len by (simp del: shape_close)
  have inv3: "nm_ctx_inv ?ctx3" using drop_peer_inv [OF inv2] i(1) by (simp add: set_peer_def)
  have "p_fd (slot pr2 i) = -1" using i(1) by (simp add: assms(5) slot_def set_peer_def)
  then have round: "thread_round os k None pr2 = ?pr3"
    using assms(4) live i(3) by (simp add: assms(5) thread_round_def round_ends_def peer_round_def live_locks close_fd_def set_join_def)
  have "fds_ok base ((shape ?ctx)[i := (-1, False)]) (removeAll (nat (p_fd ?p)) (pr_open pr))"
    using fds_ok_close [OF fds(1), of i] i by (simp add: nth_shape slot_def)
  then have ok3: "proc_ok base fs ?pr3"
    using inv3 live len3 fds(2) sh3 threads_ok_part [OF ts assms(3,4)] in_use_shape(2) [OF sh3] by (simp add: proc_ok_def)
  let ?pr4 = "thread_leaves k ?pr3" and ?pr5 = "thread_leaves k (thread_leaves k ?pr3)"
  have t4: "pr_threads ?pr4 = (pr_threads pr)[k := (i, Unmarked)]" using assms(3) by (simp add: thread_leaves_def)
  then have t5: "pr_threads ?pr5 = (pr_threads pr)[k := (i, Gone)]" using assms(3) by (simp add: thread_leaves_def [of k ?pr4])
  have 4: "proc_ok base fs ?pr4" "shape (pr_ctx ?pr4) = shape ?ctx3" using thread_leaves_ok [OF ok3, of k] assms(3) by simp_all
  have 5: "proc_ok base fs ?pr5" "shape (pr_ctx ?pr5) = shape ?ctx3" using thread_leaves_ok [OF 4(1), of k] assms(3) 4(2) by simp_all
  have j5: "pr_joins ?pr5 = ((pr_joins pr)[i := None, i := None])[i := None]" using t4 assms(3)
    by (simp add: thread_leaves_def [of k ?pr4] peer_reset_def set_join_def set_slot_def use_io_def lock_use_def note_fault_def)
      (simp add: thread_leaves_def set_join_def lock_use_def note_fault_def)
  show ?thesis
    unfolding round closed_ok_def using 5 sh3 j5 quiet_update [OF assms(2), where q = pr and k = k and i = i] t5 by (simp add: quiet_def)
qed

lemma close_connection_ok:
  assumes "proc_ok base fs pr" "quiet pr" "i < MAX_PEERS"
  shows "case close_connection wakes os i pr of
      None \<Rightarrow> \<not> awake wakes (pr_joins pr ! i) | Some pr' \<Rightarrow> awake wakes (pr_joins pr ! i) \<and> closed_ok base fs [i] pr pr'"
proof -
  let ?ctx = "pr_ctx pr" and ?p = "slot pr i"
  let ?ctx2 = "set_peer ?ctx i (?p\<lparr>p_fd := -1, p_conn := closed_conn\<rparr>)"
  have inv: "nm_ctx_inv ?ctx" and live: "locks_live pr" and len: "length (nc_peers ?ctx) = MAX_PEERS"
    and fds: "fds_ok base (shape ?ctx) (pr_open pr)" "pr_faults pr = fs" and ts: "threads_ok (in_use ?ctx) (pr_joins pr) (pr_threads pr)"
    using assms(1) by (simp_all add: proc_ok_def)
  have i: "i < length (nc_peers ?ctx)" using assms(3) len by simp
  have reset: "closed_ok base fs [i] pr (peer_reset i q)" if q: "closed_ok base fs [i] pr q" for q
  proof -
    have "shape (pr_ctx q) = (shape ?ctx)[i := (-1, False)]" and "proc_ok base fs q" using q by (simp_all add: closed_ok_def)
    moreover from this have "length (nc_peers (pr_ctx q)) = MAX_PEERS" by (simp add: proc_ok_def)
    ultimately have "\<not> used (slot q i)" using nth_shape [of i "pr_ctx q"] i len by (simp add: slot_def)
    from reset_ok [OF \<open>proc_ok base fs q\<close> assms(3) this] q show ?thesis by (simp add: closed_ok_def quiet_def)
  qed
  show ?thesis
  proof (cases "pr_joins pr ! i")
    case (Some k)
    have k: "k < length (pr_threads pr)" "pr_threads pr ! k = (i, Serving)"
      using ts Some i unfolding threads_ok_def by auto
    have fd: "0 \<le> p_fd ?p" using fds(1) i threads_ok_slot [OF ts k] by (auto simp: fds_ok_def nth_shape slot_def)
    let ?pr2 = "pr\<lparr>pr_open := removeAll (nat (p_fd ?p)) (pr_open pr), pr_ctx := ?ctx2\<rparr>"
    have "close_connection wakes os i pr = map_option (peer_reset i) (join_thread wakes os k ?pr2)"
      using Some fd live_locks [OF live] by (simp add: close_connection_def Let_def close_fd_def set_slot_def set_peer_def)
    then show ?thesis
      using reset [OF join_ok [OF assms(1,2) k refl]] k Some by (simp add: join_thread_def awake_def)
  next
    case None
    then have u: "\<not> used ?p" using ts i unfolding threads_ok_def by (auto simp: slot_def)
    have fd: "p_fd ?p = -1" using fds(1) i u by (auto simp: fds_ok_def nth_shape slot_def)
    have run: "close_connection wakes os i pr = Some (peer_reset i (pr\<lparr>pr_ctx := ?ctx2\<rparr>))"
      using None live_locks [OF live] fd by (simp add: close_connection_def Let_def close_fd_def set_slot_def set_peer_def)
    have "nm_ctx_inv ?ctx2" using inv_user_short [OF inv i] by (intro set_peer_inv [OF inv i]) (simp_all add: slot_def)
    moreover have sh: "shape ?ctx2 = shape ?ctx" using fd by (intro shape_set_peer) (simp_all add: used_def slot_def)
    moreover have "(shape ?ctx)[i := (-1, False)] = shape ?ctx" using fd u i by (simp add: list_update_same_conv nth_shape slot_def)
    ultimately have "closed_ok base fs [i] pr (pr\<lparr>pr_ctx := ?ctx2\<rparr>)"
      using assms(1,2) in_use_shape(1) [OF sh] by (simp add: closed_ok_def proc_ok_def quiet_def set_peer_def)
    from reset [OF this] None show ?thesis unfolding run by (simp add: awake_def)
  qed
qed

lemma close_connections_ok:
  assumes "proc_ok base fs pr" "quiet pr" "\<forall>i \<in> set is. i < MAX_PEERS" "distinct is"
  shows "case close_connections wakes os is pr of
      None \<Rightarrow> \<exists>i \<in> set is. \<not> awake wakes (pr_joins pr ! i)
    | Some pr' \<Rightarrow> (\<forall>i \<in> set is. awake wakes (pr_joins pr ! i)) \<and> closed_ok base fs is pr pr'"
  using assms
proof (induction "is" arbitrary: pr)
  case (Cons i "is")
  have i: "i < MAX_PEERS" using Cons.prems(3) by simp
  note C = close_connection_ok [OF Cons.prems(1,2) i, of wakes os]
  show ?case
  proof (cases "close_connection wakes os i pr")
    case (Some pr1)
    then have 1: "awake wakes (pr_joins pr ! i)" "closed_ok base fs [i] pr pr1" using C by simp_all
    then have "proc_ok base fs pr1" "quiet pr1" by (simp_all add: closed_ok_def)
    note IH = Cons.IH [OF this]
    have "\<forall>j \<in> set is. pr_joins pr1 ! j = pr_joins pr ! j" using 1(2) Cons.prems(4) by (auto simp: closed_ok_def)
    then show ?thesis
      using IH Cons.prems(3,4) Some 1 by (auto simp: closed_ok_def split: option.splits)
  qed (use C in simp)
qed (simp add: closed_ok_def)

text \<open>The threads that still serve a connection.\<close>

definition serving :: "'w process \<Rightarrow> nat set" where
  "serving pr = {k. k < length (pr_threads pr) \<and> snd (pr_threads pr ! k) = Serving}"

lemma serving_joins:
  assumes "proc_ok base fs pr"
  shows "(\<forall>i \<in> set [0..<MAX_PEERS]. awake wakes (pr_joins pr ! i)) \<longleftrightarrow> (\<forall>k \<in> serving pr. wakes k)"
proof -
  have ts: "threads_ok (in_use (pr_ctx pr)) (pr_joins pr) (pr_threads pr)" "length (in_use (pr_ctx pr)) = MAX_PEERS"
    using assms by (simp_all add: proc_ok_def)
  have "k \<in> serving pr \<longleftrightarrow> (\<exists>i < MAX_PEERS. pr_joins pr ! i = Some k)" for k
  proof
    assume "k \<in> serving pr"
    then have k: "k < length (pr_threads pr)" "pr_threads pr ! k = (fst (pr_threads pr ! k), Serving)"
      by (simp_all add: serving_def prod_eq_iff)
    from threads_ok_slot [OF ts(1) k] ts(2) show "\<exists>i < MAX_PEERS. pr_joins pr ! i = Some k" by auto
  next
    assume "\<exists>i < MAX_PEERS. pr_joins pr ! i = Some k"
    then show "k \<in> serving pr" using ts unfolding threads_ok_def serving_def by auto
  qed
  then show ?thesis by (auto simp: awake_def split: option.split)
qed

lemma close_process_ok:
  assumes "proc_ok base fs pr" "quiet pr" "pr_listen pr = int fd" "fd \<in> base"
  shows "case close_process wakes os pr of
      None \<Rightarrow> \<exists>k \<in> serving pr. \<not> wakes k
    | Some pr' \<Rightarrow> (\<forall>k \<in> serving pr. wakes k) \<and> pr_locks pr' = [] \<and> pr_faults pr' = fs \<and>
        set (pr_open pr') = base - {fd} - set (pr_logs pr) \<and> list_all (\<lambda>(i, ph). ph = Gone) (pr_threads pr')"
proof -
  have live: "locks_live pr" and len: "length (nc_peers (pr_ctx pr)) = MAX_PEERS"
    and fds: "fds_ok base (shape (pr_ctx pr)) (pr_open pr)" using assms(1) by (simp_all add: proc_ok_def)
  let ?pr2 = "(close_fd (pr_listen pr) pr)\<lparr>pr_listen := -1\<rparr>"
  have "fds_ok (base - {fd}) (shape (pr_ctx pr)) (pr_open ?pr2)"
    using fds assms(3,4) by (auto simp: fds_ok_def close_fd_def)
  then have ok2: "proc_ok (base - {fd}) fs ?pr2" "quiet ?pr2" using assms(1,2) by (simp_all add: proc_ok_def quiet_def)
  note C = close_connections_ok [OF ok2, of "[0..<MAX_PEERS]" wakes os]
  have run: "close_process wakes os pr = (case close_connections wakes os [0..<MAX_PEERS] ?pr2 of None \<Rightarrow> None
      | Some pr3 \<Rightarrow> Some (destroy_context_locks
          ((fold (\<lambda>fd. close_fd (int fd)) (pr_logs pr) pr3)\<lparr>pr_logs := [], pr_ctx := close_context os (pr_ctx pr3)\<rparr>)))"
    using live live_locks [OF live] by (simp add: close_process_def locks_live_def Let_def)
  note joins = serving_joins [OF assms(1), of wakes]
  show ?thesis
  proof (cases "close_connections wakes os [0..<MAX_PEERS] ?pr2")
    case None
    then show ?thesis using C joins unfolding run by auto
  next
    case (Some pr3)
    let ?pr4 = "(fold (\<lambda>fd. close_fd (int fd)) (pr_logs pr) pr3)\<lparr>pr_logs := [], pr_ctx := close_context os (pr_ctx pr3)\<rparr>"
    have w: "\<forall>k \<in> serving pr. wakes k" and C3: "closed_ok (base - {fd}) fs [0..<MAX_PEERS] ?pr2 pr3" using C Some joins by auto
    have 3: "proc_ok (base - {fd}) fs pr3" "quiet pr3" "shape (pr_ctx pr3) = replicate MAX_PEERS (-1, False)"
      using C3 fold_update_all [of "shape (pr_ctx pr)" MAX_PEERS "(-1, False)"] len by (simp_all add: closed_ok_def)
    have "used_slots (replicate n (-1, False)) = {}" for n by (auto simp: used_slots_def)
    then have open3: "set (pr_open pr3) = base - {fd}" using 3(1,3) by (simp add: proc_ok_def fds_ok_def)
    have ts: "threads_ok (replicate MAX_PEERS False) (pr_joins pr3) (pr_threads pr3)" using 3(1,3) by (simp add: proc_ok_def in_use_def)
    have "ph = Gone" if "k < length (pr_threads pr3)" "pr_threads pr3 ! k = (i, ph)" for k i ph
      using threads_ok_slot [OF ts that] 3(2) that by (auto simp: quiet_def list_all_length)
    then have gone: "list_all (\<lambda>(i, ph). ph = Gone) (pr_threads pr3)" by (auto simp: list_all_length)
    have live4: "locks_live ?pr4" using 3(1) by (simp add: proc_ok_def fold_close_fd)
    show ?thesis
      unfolding run Some using destroy_context_locks_all [OF live4] open3 3(1) gone w by (auto simp: fold_close_fd proc_ok_def)
  qed
qed

section \<open>The start of the program\<close>

text \<open>The locks are initialised twice, before and after the log files are opened.\<close>

lemma boot_prefix:
  assumes "list_all (nb_locks1 b) context_locks" "list_all (nb_locks2 b) context_locks" "nb_log b LOG_GENERAL_PATH" "nb_log b LOG_REQUESTS_PATH"
    and "pr_locks pr = []" "pr_faults pr = []" "pr_logs pr = []"
  shows "\<exists>d l1 l2 pr4. l1 \<notin> set (pr_open pr) \<and> l2 \<notin> set (l1 # pr_open pr) \<and>
    pr_ctx pr4 = (pr_ctx pr)\<lparr>nc_disk := d\<rparr> \<and> set (pr_locks pr4) = set context_locks \<and> pr_ready pr4 \<and> pr_logs pr4 = [l2, l1] \<and>
    pr_open pr4 = l2 # l1 # pr_open pr \<and> pr_faults pr4 = map InitLive context_locks \<and> pr_io_ready pr4 = pr_io_ready pr \<and>
    pr_listen pr4 = pr_listen pr \<and> pr_threads pr4 = pr_threads pr \<and> pr_joins pr4 = pr_joins pr \<and>
    nm_boot_up b port pr =
     (case net_listen (nb_sock b port) (pr_open pr4) of
        None \<Rightarrow> Inl (Running pr4)
      | Some (None, ds) \<Rightarrow> Inl (cleanup b 1 (pr4\<lparr>pr_open := ds\<rparr>))
      | Some (Some fd, ds) \<Rightarrow>
          (case setup_slots (nb_slots b) [0..<MAX_PEERS] (pr4\<lparr>pr_listen := int fd, pr_open := ds\<rparr>) of
             (False, pr5) \<Rightarrow> Inl (cleanup b 1 pr5)
           | (True, pr5) \<Rightarrow> Inr pr5))"
proof -
  obtain L1 where 1: "init_context_locks (nb_locks1 b) pr = (True, pr\<lparr>pr_ready := True, pr_locks := L1, pr_faults := []\<rparr>)" "set L1 = set context_locks"
    using init_locks_ok [OF assms(1) context_locks_distinct, of "[]" pr] assms(5,6) by (auto simp: init_context_locks_def)
  let ?pr1 = "pr\<lparr>pr_ready := True, pr_locks := L1, pr_faults := []\<rparr>"
  have log: "\<exists>d'. open_log b path q = (True, q\<lparr>pr_ctx := (pr_ctx q)\<lparr>nc_disk := d'\<rparr>, pr_logs := lowest_free (pr_open q) # pr_logs q,
      pr_open := lowest_free (pr_open q) # pr_open q\<rparr>)" if "nb_log b path" for path q
    using that by (simp add: open_log_def log_open_def) (rule exI, rule refl)
  let ?l1 = "lowest_free (pr_open pr)" and ?l2 = "lowest_free (lowest_free (pr_open pr) # pr_open pr)"
  let ?pr2 = "\<lambda>d1. pr\<lparr>pr_ready := True, pr_locks := L1, pr_faults := [], pr_ctx := (pr_ctx pr)\<lparr>nc_disk := d1\<rparr>,
    pr_logs := [?l1], pr_open := ?l1 # pr_open pr\<rparr>"
  obtain d1 where 2: "open_log b LOG_GENERAL_PATH ?pr1 = (True, ?pr2 d1)" using log [OF assms(3), of ?pr1] assms(7) by auto
  let ?pr3 = "\<lambda>d2. pr\<lparr>pr_ready := True, pr_locks := L1, pr_faults := [], pr_ctx := (pr_ctx pr)\<lparr>nc_disk := d2\<rparr>,
    pr_logs := [?l2, ?l1], pr_open := ?l2 # ?l1 # pr_open pr\<rparr>"
  obtain d2 where 3: "open_log b LOG_REQUESTS_PATH (?pr2 d1) = (True, ?pr3 d2)" using log [OF assms(4), of "?pr2 d1"] by auto
  have all: "filter (\<lambda>l. l \<in> set L1) context_locks = context_locks" unfolding 1(2) by (rule filter_True) simp
  obtain L where 4: "init_context_locks (nb_locks2 b) (?pr3 d2) =
      (True, (?pr3 d2)\<lparr>pr_ready := True, pr_locks := L, pr_faults := map InitLive context_locks\<rparr>)"
    "set L = set context_locks"
    using init_locks_ok [OF assms(2) context_locks_distinct, of "[]" "?pr3 d2"] 1(2) all by (auto simp: init_context_locks_def)
  define pr4 where "pr4 = (?pr3 d2)\<lparr>pr_ready := True, pr_locks := L, pr_faults := map InitLive context_locks\<rparr>"
  have 5: "init_context_locks (nb_locks2 b) (?pr3 d2) = (True, pr4)" unfolding pr4_def by (rule 4(1))
  have "pr_ctx pr4 = (pr_ctx pr)\<lparr>nc_disk := d2\<rparr>" "set (pr_locks pr4) = set context_locks" "pr_ready pr4" "pr_logs pr4 = [?l2, ?l1]"
    "pr_open pr4 = ?l2 # ?l1 # pr_open pr" "pr_faults pr4 = map InitLive context_locks" "pr_io_ready pr4 = pr_io_ready pr"
    "pr_listen pr4 = pr_listen pr" "pr_threads pr4 = pr_threads pr" "pr_joins pr4 = pr_joins pr"
    unfolding pr4_def by (simp_all add: 4(2))
  then show ?thesis
    by (intro exI [of _ d2] exI [of _ ?l1] exI [of _ ?l2] exI [of _ pr4])
      (simp add: lowest_free_new nm_boot_up_def 1(1) 2 3 5 del: set_simps)
qed

text \<open>When everything succeeds, the loop starts with the invariant.\<close>

definition boots :: "'w nm_boot \<Rightarrow> bool" where
  "boots b \<longleftrightarrow> nb_mem b \<and> list_all (nb_locks1 b) context_locks \<and> list_all (nb_locks2 b) context_locks \<and>
     nb_log b LOG_GENERAL_PATH \<and> nb_log b LOG_REQUESTS_PATH \<and> (\<forall>i < MAX_PEERS. nb_slots b (IoLock i) \<and> nb_slots b (IoCond i))"

lemma first_process_simps [simp]:
  "pr_locks (first_process b p d w) = []" "pr_faults (first_process b p d w) = []" "pr_logs (first_process b p d w) = []"
  "pr_threads (first_process b p d w) = []" "pr_joins (first_process b p d w) = replicate MAX_PEERS None"
  "pr_open (first_process b p d w) = nb_open b" "pr_io_ready (first_process b p d w) = replicate MAX_PEERS False"
  "pr_ctx (first_process b p d w) = (nm_start (nb_read b) d p (nb_sizes b) w)\<lparr>nc_peers := replicate MAX_PEERS zero_peer\<rparr>"
  by (simp_all add: first_process_def)

lemma fresh_shape: "fds_ok base (map (\<lambda>p. (p_fd p, used p)) (replicate n fresh_peer)) ds \<longleftrightarrow> set ds = base"
proof -
  have "used_slots (replicate n (-1, False)) = {}" by (auto simp: used_slots_def)
  then show ?thesis by (auto simp: fds_ok_def fresh_peer_def used_def)
qed

lemma boot_ok:
  assumes "boots b" and "d (buf 256 path) = None"
    and "se_addresses (nb_sock b port) = Some ps" "\<forall>p \<in> set ps. closes (se_close (nb_sock b port) p)"
    and "\<exists>p \<in> set ps. se_socket (nb_sock b port) p \<and> se_bind (nb_sock b port) p \<and> se_listen (nb_sock b port) p"
  shows "\<exists>pr fd l1 l2. nm_boot_up b port (first_process b path d w) = Inr pr \<and>
    proc_ok (set (fd # l2 # l1 # nb_open b)) (map InitLive context_locks) pr \<and> pr_listen pr = int fd \<and> pr_logs pr = [l2, l1] \<and>
    pr_threads pr = [] \<and> distinct [fd, l2, l1] \<and> set [fd, l2, l1] \<inter> set (nb_open b) = {}"
proof -
  let ?pr = "first_process b path d w"
  obtain d1 l1 l2 pr4 where B: "l1 \<notin> set (nb_open b)" "l2 \<notin> set (l1 # nb_open b)"
    "pr_ctx pr4 = (pr_ctx ?pr)\<lparr>nc_disk := d1\<rparr>" "set (pr_locks pr4) = set context_locks"
    and L: "pr_ready pr4" "pr_logs pr4 = [l2, l1]" "pr_open pr4 = l2 # l1 # nb_open b" "pr_faults pr4 = map InitLive context_locks"
      "pr_io_ready pr4 = pr_io_ready ?pr" "pr_threads pr4 = []" "pr_joins pr4 = replicate MAX_PEERS None"
    and run: "nm_boot_up b port ?pr =
     (case net_listen (nb_sock b port) (pr_open pr4) of
        None \<Rightarrow> Inl (Running pr4)
      | Some (None, ds) \<Rightarrow> Inl (cleanup b 1 (pr4\<lparr>pr_open := ds\<rparr>))
      | Some (Some fd, ds) \<Rightarrow>
          (case setup_slots (nb_slots b) [0..<MAX_PEERS] (pr4\<lparr>pr_listen := int fd, pr_open := ds\<rparr>) of
             (False, pr5) \<Rightarrow> Inl (cleanup b 1 pr5)
           | (True, pr5) \<Rightarrow> Inr pr5))"
    using boot_prefix [of b ?pr port] assms(1) by (auto simp: boots_def)
  have len: "length (nc_peers (pr_ctx pr4)) = MAX_PEERS" "length (pr_io_ready pr4) = MAX_PEERS" by (simp_all add: B(3) L(5))
  define fd where "fd = lowest_free (l2 # l1 # nb_open b)"
  have new: "fd \<notin> set (l2 # l1 # nb_open b)" unfolding fd_def by (rule lowest_free_new)
  let ?pr4 = "pr4\<lparr>pr_listen := int fd, pr_open := fd # l2 # l1 # nb_open b\<rparr>"
  have listen: "net_listen (nb_sock b port) (pr_open pr4) = Some (Some fd, fd # l2 # l1 # nb_open b)"
    using net_listen_result [OF assms(3,4)] assms(5) L(3) by (simp add: fd_def)
  have "io_locks [0..<MAX_PEERS] \<inter> set (pr_locks ?pr4) = {}" using B(4) by (auto simp: io_locks_def context_locks_def)
  from setup_slots_ok [OF _ _ this, of "nb_slots b"] assms(1) len
  obtain pr5 where S: "setup_slots (nb_slots b) [0..<MAX_PEERS] ?pr4 = (True, pr5)"
    "set (pr_locks pr5) = io_locks [0..<MAX_PEERS] \<union> set (pr_locks pr4)"
    "nc_peers (pr_ctx pr5) = fold (\<lambda>i ps. ps[i := fresh_peer]) [0..<MAX_PEERS] (nc_peers (pr_ctx pr4))"
    "pr_io_ready pr5 = fold (\<lambda>i bs. bs[i := True]) [0..<MAX_PEERS] (pr_io_ready pr4)"
    "pr5 = ?pr4\<lparr>pr_ctx := (pr_ctx pr4)\<lparr>nc_peers := nc_peers (pr_ctx pr5)\<rparr>, pr_locks := pr_locks pr5, pr_io_ready := pr_io_ready pr5\<rparr>"
    by (auto simp: boots_def)
  note peers = S(3) [unfolded fold_update_all [OF len(1)]] and io = S(4) [unfolded fold_update_all [OF len(2)]]
  have keep: "pr_ready pr5" "pr_open pr5 = fd # l2 # l1 # nb_open b" "pr_listen pr5 = int fd" "pr_logs pr5 = [l2, l1]"
    "pr_faults pr5 = map InitLive context_locks" "pr_ctx pr5 = (pr_ctx pr4)\<lparr>nc_peers := replicate MAX_PEERS fresh_peer\<rparr>"
    "pr_threads pr5 = []" "pr_joins pr5 = replicate MAX_PEERS None"
    by (subst S(5), simp add: L peers)+
  have "nm_ctx_inv (pr_ctx pr5)"
    using nm_start_inv [where d = d, OF assms(2), of "nb_read b" "nb_sizes b" w]
    by (simp add: keep(6) B(3) nm_ctx_inv_def nm_start_def queue_ok_def)
  moreover have no_threads: "threads_ok (map snd (map (\<lambda>p. (p_fd p, used p)) (replicate n fresh_peer))) (replicate n None) []" for n
    by (simp add: threads_ok_def fresh_peer_def used_def)
  ultimately have "proc_ok (set (fd # l2 # l1 # nb_open b)) (map InitLive context_locks) pr5"
    using keep io S(2) B(4) no_threads by (simp add: proc_ok_def locks_live_def shape_def fresh_shape peers Un_commute in_use_def del: set_simps map_replicate)
  moreover have "nm_boot_up b port ?pr = Inr pr5" by (simp add: run listen S(1))
  ultimately show ?thesis using keep(3,4,7) new B(1,2)
    by (intro exI [of _ pr5] exI [of _ fd] exI [of _ l1] exI [of _ l2]) auto
qed

section \<open>A start that fails\<close>

lemma destroy_unset_slots: "\<forall>i \<in> set is. \<not> pr_io_ready pr ! i \<Longrightarrow> fold peer_slot_destroy is pr = pr"
  by (induction "is") (simp_all add: peer_slot_destroy_def)

text \<open>When the slots are not set up yet, their descriptor is still 0.\<close>

lemma close_early:
  assumes "set (pr_locks pr) = set context_locks" "pr_ready pr" "pr_listen pr = -1" "pr_io_ready pr = replicate MAX_PEERS False"
    and "nc_peers (pr_ctx pr) = replicate MAX_PEERS zero_peer" "pr_joins pr = replicate MAX_PEERS None"
  shows "\<exists>pr'. close_process wakes os pr = Some pr' \<and> pr_locks pr' = [] \<and> pr_faults pr' = pr_faults pr \<and>
    set (pr_open pr') = set (pr_open pr) - {0} - set (pr_logs pr) \<and> nc_disk (pr_ctx pr') = nc_disk (nm_save os (pr_ctx pr))"
proof -
  let ?pr2 = "(close_fd (pr_listen pr) pr)\<lparr>pr_listen := -1\<rparr>"
  have zero: "p_fd (slot ?pr2 i) = 0" if "i \<in> set [0..<MAX_PEERS]" for i using that assms(5) by (simp add: slot_def zero_peer_def)
  have pos: "0 \<in> set [0..<MAX_PEERS]" by (simp add: MAX_PEERS_def)
  have "usable ?pr2 [0..<MAX_PEERS]" using assms(1,4) by (simp add: usable_def close_fd_filter context_locks_def)
  moreover have "\<forall>i \<in> set [0..<MAX_PEERS]. i < length (nc_peers (pr_ctx ?pr2)) \<and> \<not> used (slot ?pr2 i) \<and> pr_joins ?pr2 ! i = None"
    using assms(5,6) by (simp add: slot_def used_def zero_peer_def)
  ultimately obtain ctx where C: "close_connections wakes os [0..<MAX_PEERS] ?pr2 =
      Some (?pr2\<lparr>pr_ctx := ctx, pr_open := filter (\<lambda>fd. \<forall>i \<in> set [0..<MAX_PEERS]. int fd \<noteq> p_fd (slot ?pr2 i)) (pr_open ?pr2)\<rparr>)"
    "nc_state ctx = nc_state (pr_ctx pr)" "nc_disk ctx = nc_disk (pr_ctx pr)" "nc_world ctx = nc_world (pr_ctx pr)"
    using close_unused [of ?pr2 "[0..<MAX_PEERS]" wakes os] by auto
  have gone: "(\<forall>i \<in> set [0..<MAX_PEERS]. int fd \<noteq> p_fd (slot ?pr2 i)) \<longleftrightarrow> fd \<noteq> 0" for fd using zero pos by (metis of_nat_0_eq_iff)
  let ?pr3 = "?pr2\<lparr>pr_ctx := ctx, pr_open := filter (\<lambda>fd. \<forall>i \<in> set [0..<MAX_PEERS]. int fd \<noteq> p_fd (slot ?pr2 i)) (pr_open ?pr2)\<rparr>"
  define pr4 where "pr4 = (fold (\<lambda>fd. close_fd (int fd)) (pr_logs pr) ?pr3)
    \<lparr>pr_logs := [], pr_ctx := close_context os ctx\<rparr>"
  have p4: "pr_locks pr4 = pr_locks pr" "pr_io_ready pr4 = replicate MAX_PEERS False" "pr_faults pr4 = pr_faults pr" "pr_ready pr4"
    "pr_open pr4 = filter (\<lambda>x. x \<notin> set (pr_logs pr)) (filter (\<lambda>fd. fd \<noteq> 0) (filter (\<lambda>x. int x \<noteq> -1) (pr_open pr)))"
    "pr_ctx pr4 = close_context os ctx"
    unfolding pr4_def gone fold_close_fd using assms(2-4) by (simp_all add: close_fd_filter)
  have run: "close_process wakes os pr = Some (destroy_context_locks pr4)"
    using assms(1,2) C(1) unfolding pr4_def by (simp add: close_process_def context_locks_def)
  have ls: "set destroy_order = set context_locks" "distinct destroy_order" by (auto simp: context_locks_def destroy_order_def)
  have "filter (\<lambda>l. l \<notin> set destroy_order) (pr_locks pr4) = []" unfolding ls p4(1) using assms(1) by (simp add: filter_empty_conv)
  then have "destroy_context_locks pr4 = pr4\<lparr>pr_locks := [], pr_ready := False\<rparr>"
    using destroy_all [OF ls(2), of pr4] assms(1) p4 destroy_unset_slots [of "[0..<MAX_PEERS]" pr4] ls(1)
    by (simp add: destroy_context_locks_def)
  moreover have "nc_disk (close_context os ctx) = nc_disk (nm_save os (pr_ctx pr))"
    using C(2-4) by (simp add: close_context_def nm_save_def)
  ultimately show ?thesis unfolding run using p4 by auto
qed

lemma load_paths:
  "nm_persist_path (load_server l st) = nm_persist_path st" "nm_persist_path (fst (load_file l ld)) = nm_persist_path (fst ld)"
  "nm_persist_path (fst (load_acl l ld)) = nm_persist_path (fst ld)" "nm_persist_path (load_checkpoint l st) = nm_persist_path st"
  "nm_persist_path (load_request l st) = nm_persist_path st" "nm_persist_path (load_user l st) = nm_persist_path st"
  by (simp_all add: load_server_def load_file_def load_acl_def load_checkpoint_def load_request_def load_user_def push_file_def
      file_hash_insert_def modify_rest Let_def split: option.split prod.split)

lemma load_line_path: "nm_persist_path (fst (load_line raw ld)) = nm_persist_path (fst ld)"
  by (simp add: load_line_def Let_def load_paths)

lemma init_path: "nm_persist_path (nm_state_init rd d (Some p)) = buf 256 p"
proof -
  have "nm_persist_path (fst (load_loop bytes ld)) = nm_persist_path (fst ld)" for bytes ld
  proof (induction bytes ld rule: load_loop.induct)
    case (1 bytes ld)
    then show ?case by (subst load_loop.simps) (simp add: load_line_path)
  qed
  then show ?thesis by (simp add: nm_state_init_def nm_state_load_def clear_state_def split: option.split)
qed

lemma main_loop_ended: "snd (main_loop es pr) \<longleftrightarrow> Connection AcceptBad \<in> snd ` set es"
  by (induction es pr rule: main_loop.induct) (auto simp: image_iff)

section \<open>Properties\<close>


text \<open>A start in which everything succeeds; standard input, output and error are open, and there is one address.\<close>

definition demo_boot :: "bool \<Rightarrow> nat nm_boot" where
  "demo_boot free =
     \<lparr>nb_mem = True, nb_read = (\<lambda>_. True), nb_sizes = (8, 8, 8), nb_open = [0, 1, 2], nb_locks1 = (\<lambda>_. True), nb_locks2 = (\<lambda>_. True),
      nb_slots = (\<lambda>_. True), nb_log = (\<lambda>_. True),
      nb_sock = (\<lambda>_. \<lparr>se_addresses = Some [0], se_socket = (\<lambda>_. True), se_bind = (\<lambda>_. free), se_listen = (\<lambda>_. True),
        se_connect = (\<lambda>_. True), se_close = (\<lambda>_. [CloseDone])\<rparr>),
      nb_end = \<lparr>no_now = 50, no_mem = (\<lambda>_. True), no_save = (\<lambda>_. SaveOk), no_rand = (\<lambda>w. (w, Suc w)),
        no_rpc = (\<lambda>fd payload w. (None, w)), no_fetch = (\<lambda>host port payload w. (None, w)), no_shell = (\<lambda>script w. (None, w)), no_junk = []\<rparr>,
      nb_wakes = (\<lambda>_. True)\<rparr>"

lemma demo_boots: "boots (demo_boot free)"
  by (simp add: boots_def demo_boot_def context_locks_def)

text \<open>One connection arrives, is lost, and its thread ends; then the listening socket is gone.\<close>

definition demo_events :: "(nat nm_os \<times> main_event) list" where
  "demo_events = map (\<lambda>e. (nb_end (demo_boot True), e))
     [Connection (Accepted closed_conn True True), Message 0 None, Leave 0, Leave 0, Connection AcceptBad]"

lemma demo_settled:
  assumes "pr_threads pr = []"
  shows "settled_loop demo_events pr"
proof (cases "allocate_peer (pr_ctx pr)")
  case None
  then show ?thesis using assms
    by (simp add: demo_events_def settled_def main_step_def accept_connection_def thread_round_def round_ends_def thread_leaves_def Let_def)
next
  case (Some i)
  then show ?thesis using assms
    by (simp add: demo_events_def settled_def main_step_def accept_connection_def thread_round_def round_ends_def thread_leaves_def Let_def)
qed


text \<open>C39: A start that fails does harm. When no address of the port can be listened on, because another name manager runs
  there, the program ends with code 1, but before that it closes the descriptor 0, standard input, which it takes for the connection of every
  slot, and it writes the state it has read from the state file back to that file, over what the running name manager has saved in between.\<close>

theorem failed_start_harms:
  assumes "boots b" and "se_addresses (nb_sock b port) = Some ps" "\<forall>p \<in> set ps. closes (se_close (nb_sock b port) p)"
    and "\<forall>p \<in> set ps. \<not> (se_socket (nb_sock b port) p \<and> se_bind (nb_sock b port) p \<and> se_listen (nb_sock b port) p)"
    and "saves (nb_end b)" and "buf 256 path \<noteq> []"
  shows "\<exists>pr. nm_main b [port, path] d w es = Exited 1 pr \<and> set (pr_open pr) = set (nb_open b) - {0} \<and>
    nc_disk (pr_ctx pr) (buf 256 path) = Some (state_text (nm_state_init (nb_read b) d (Some path)))"
proof -
  let ?pr = "first_process b path d w"
  obtain d1 l1 l2 pr4 where B: "l1 \<notin> set (nb_open b)" "l2 \<notin> set (l1 # nb_open b)"
    "pr_ctx pr4 = (pr_ctx ?pr)\<lparr>nc_disk := d1\<rparr>" "set (pr_locks pr4) = set context_locks" "pr_ready pr4" "pr_logs pr4 = [l2, l1]"
    "pr_open pr4 = l2 # l1 # nb_open b" "pr_io_ready pr4 = replicate MAX_PEERS False" "pr_listen pr4 = pr_listen ?pr"
    "pr_joins pr4 = replicate MAX_PEERS None"
    and run: "nm_boot_up b port ?pr =
     (case net_listen (nb_sock b port) (pr_open pr4) of
        None \<Rightarrow> Inl (Running pr4)
      | Some (None, ds) \<Rightarrow> Inl (cleanup b 1 (pr4\<lparr>pr_open := ds\<rparr>))
      | Some (Some fd, ds) \<Rightarrow>
          (case setup_slots (nb_slots b) [0..<MAX_PEERS] (pr4\<lparr>pr_listen := int fd, pr_open := ds\<rparr>) of
             (False, pr5) \<Rightarrow> Inl (cleanup b 1 pr5)
           | (True, pr5) \<Rightarrow> Inr pr5))"
    using boot_prefix [of b ?pr port] assms(1) by (auto simp: boots_def)
  have "net_listen (nb_sock b port) (pr_open pr4) = Some (None, pr_open pr4)"
    using net_listen_result [OF assms(2,3)] assms(4) by auto
  moreover obtain pr5 where "close_process (nb_wakes b) (nb_end b) pr4 = Some pr5"
    and E: "set (pr_open pr5) = set (pr_open pr4) - {0} - set (pr_logs pr4)" "nc_disk (pr_ctx pr5) = nc_disk (nm_save (nb_end b) (pr_ctx pr4))"
    using close_early [of pr4 "nb_wakes b" "nb_end b"] B by (auto simp: first_process_def)
  ultimately have main: "nm_main b [port, path] d w es = Exited 1 pr5"
    using assms(1) by (simp add: nm_main_def nm_run_def boots_def run cleanup_def)
  have "set (pr_open pr5) = set (nb_open b) - {0}" unfolding E(1) B(6,7) using B(1,2) by auto
  moreover have "nc_disk (pr_ctx pr5) (buf 256 path) = Some (state_text (nm_state_init (nb_read b) d (Some path)))"
    unfolding E(2) B(3) using assms(5,6) init_path [of "nb_read b" d path] by (simp add: nm_save_def nm_state_save_def saves_def nm_start_def)
  ultimately show ?thesis using main by blast
qed

theorem failed_start_harms_witness:
  "\<exists>pr. nm_main (demo_boot False) [''9000'', ''nm_state.db''] Map.empty 0 [] = Exited 1 pr \<and> set (pr_open pr) = {1, 2}"
proof -
  let ?s = "nb_sock (demo_boot False) ''9000''"
  have a: "se_addresses ?s = Some [0]" "\<forall>p \<in> set [0]. closes (se_close ?s p)"
    "\<forall>p \<in> set [0]. \<not> (se_socket ?s p \<and> se_bind ?s p \<and> se_listen ?s p)" by (simp_all add: demo_boot_def)
  have "saves (nb_end (demo_boot False))" "buf 256 ''nm_state.db'' \<noteq> []" by (simp_all add: demo_boot_def saves_def)
  moreover have "set (nb_open (demo_boot False)) - {0} = {1, 2}" by (auto simp: demo_boot_def)
  ultimately show ?thesis using failed_start_harms [OF demo_boots a, where path = "''nm_state.db''" and d = Map.empty and w = 0 and es = "[]"] by metis
qed

end
