(* ===== verification/NM_Slots.thy ===== *)
theory NM_Slots
  imports NM_Main
begin

text \<open>
  The slots for connections at the level of threads, \<^verbatim>\<open>allocate_peer\<close>, \<^verbatim>\<open>peer_thread_main\<close>, \<^verbatim>\<open>peer_close\<close> and \<^verbatim>\<open>peer_reset\<close> of
  \<^verbatim>\<open>nm/nm_main.c\<close>. \<open>NM_Main\<close> has the whole program, in runs where every thread ends before its slot is used again. Here are the slots and
  the threads alone, in every order: the thread closes the descriptor and frees the slot, marks itself as inactive, and resets the
  slot once more. In between the main thread may give the slot to another connection.
\<close>

section \<open>Threads and slots\<close>

record conn_slot =
  cs_fd :: int
  cs_used :: bool
  cs_active :: bool

definition reset_slot :: conn_slot where
  "reset_slot = \<lparr>cs_fd = -1, cs_used = False, cs_active = False\<rparr>"

text \<open>Where the thread of a connection is.\<close>

datatype worker = Receiving | Lost | Closed | Inactive | Finished

record slots =
  sl_slots :: "conn_slot list"
  sl_workers :: "(nat \<times> worker) list"
  sl_open :: descriptors

datatype slot_event = Arrive | RecvFails nat | Run nat

definition arrive :: "slots \<Rightarrow> slots" where
  "arrive s =
     (case find_index (\<lambda>c. \<not> cs_used c) (sl_slots s) of
        None \<Rightarrow> s
      | Some i \<Rightarrow>
          let fd = lowest_free (sl_open s) in
          s\<lparr>sl_slots := (sl_slots s)[i := \<lparr>cs_fd = int fd, cs_used = True, cs_active = True\<rparr>],
            sl_workers := sl_workers s @ [(i, Receiving)], sl_open := fd # sl_open s\<rparr>)"

definition run_worker :: "nat \<Rightarrow> slots \<Rightarrow> slots" where
  "run_worker k s =
     (case sl_workers s ! k of
        (i, Lost) \<Rightarrow>
          let fd = cs_fd (sl_slots s ! i) in
          s\<lparr>sl_open := (if 0 \<le> fd then removeAll (nat fd) (sl_open s) else sl_open s),
            sl_slots := (sl_slots s)[i := reset_slot], sl_workers := (sl_workers s)[k := (i, Closed)]\<rparr>
      | (i, Closed) \<Rightarrow>
          s\<lparr>sl_slots := (sl_slots s)[i := (sl_slots s ! i)\<lparr>cs_active := False\<rparr>], sl_workers := (sl_workers s)[k := (i, Inactive)]\<rparr>
      | (i, Inactive) \<Rightarrow> s\<lparr>sl_slots := (sl_slots s)[i := reset_slot], sl_workers := (sl_workers s)[k := (i, Finished)]\<rparr>
      | _ \<Rightarrow> s)"

definition slot_recv_fails :: "nat \<Rightarrow> slots \<Rightarrow> slots" where
  "slot_recv_fails k s =
     (case sl_workers s ! k of (i, Receiving) \<Rightarrow> s\<lparr>sl_workers := (sl_workers s)[k := (i, Lost)]\<rparr> | _ \<Rightarrow> s)"

fun slot_step :: "slot_event \<Rightarrow> slots \<Rightarrow> slots" where
  "slot_step Arrive s = arrive s"
| "slot_step (RecvFails k) s = (if k < length (sl_workers s) then slot_recv_fails k s else s)"
| "slot_step (Run k) s = (if k < length (sl_workers s) then run_worker k s else s)"

definition empty_slots :: "nat \<Rightarrow> descriptors \<Rightarrow> slots" where
  "empty_slots n ds = \<lparr>sl_slots = replicate n reset_slot, sl_workers = [], sl_open = ds\<rparr>"

section \<open>When threads end before their slot is used again\<close>

definition orderly :: "slot_event \<Rightarrow> slots \<Rightarrow> bool" where
  "orderly e s \<longleftrightarrow> (case e of
     Arrive \<Rightarrow>
       (case find_index (\<lambda>c. \<not> cs_used c) (sl_slots s) of
          None \<Rightarrow> True
        | Some i \<Rightarrow> list_all (\<lambda>(j, w). j = i \<longrightarrow> w = Finished) (sl_workers s))
   | _ \<Rightarrow> True)"

fun orderly_run :: "slot_event list \<Rightarrow> slots \<Rightarrow> bool" where
  "orderly_run [] s = True"
| "orderly_run (e # es) s \<longleftrightarrow> orderly e s \<and> orderly_run es (slot_step e s)"

definition slot_shape :: "slots \<Rightarrow> (int \<times> bool) list" where
  "slot_shape s = map (\<lambda>c. (cs_fd c, cs_used c)) (sl_slots s)"

text \<open>A slot in use has exactly one thread that serves it; a thread that ends has left a slot that nobody uses.\<close>

definition slots_ok :: "nat set \<Rightarrow> slots \<Rightarrow> bool" where
  "slots_ok base s \<longleftrightarrow> fds_ok base (slot_shape s) (sl_open s) \<and>
     (\<forall>k < length (sl_workers s). fst (sl_workers s ! k) < length (sl_slots s) \<and>
        (snd (sl_workers s ! k) \<in> {Receiving, Lost} \<longrightarrow> cs_used (sl_slots s ! fst (sl_workers s ! k))) \<and>
        (snd (sl_workers s ! k) \<in> {Closed, Inactive} \<longrightarrow> \<not> cs_used (sl_slots s ! fst (sl_workers s ! k)))) \<and>
     (\<forall>k < length (sl_workers s). \<forall>l < length (sl_workers s).
        fst (sl_workers s ! k) = fst (sl_workers s ! l) \<and> snd (sl_workers s ! k) \<noteq> Finished \<and> snd (sl_workers s ! l) \<noteq> Finished \<longrightarrow> k = l) \<and>
     (\<forall>i < length (sl_slots s). cs_used (sl_slots s ! i) \<longrightarrow>
        (\<exists>k < length (sl_workers s). fst (sl_workers s ! k) = i \<and> snd (sl_workers s ! k) \<in> {Receiving, Lost}))"

lemma length_slot_shape [simp]: "length (slot_shape s) = length (sl_slots s)"
  by (simp add: slot_shape_def)

lemma nth_slot_shape: "i < length (sl_slots s) \<Longrightarrow> slot_shape s ! i = (cs_fd (sl_slots s ! i), cs_used (sl_slots s ! i))"
  by (simp add: slot_shape_def)

lemma slots_ok_idle:
  assumes "slots_ok base s" "list_all (\<lambda>(i, w). w = Finished) (sl_workers s)"
  shows "set (sl_open s) = base"
proof -
  have "snd (sl_workers s ! k) = Finished" if "k < length (sl_workers s)" for k
    using assms(2) that by (auto simp: list_all_length case_prod_unfold)
  then have "\<not> cs_used (sl_slots s ! i)" if "i < length (sl_slots s)" for i
    using assms(1) that unfolding slots_ok_def by force
  then have "used_slots (slot_shape s) = {}" by (auto simp: used_slots_def nth_slot_shape)
  then show ?thesis using assms(1) by (simp add: slots_ok_def fds_ok_def)
qed

lemma arrive_ok:
  assumes "slots_ok base s" "orderly Arrive s"
  shows "slots_ok base (arrive s)"
proof (cases "find_index (\<lambda>c. \<not> cs_used c) (sl_slots s)")
  case None
  then show ?thesis using assms(1) by (simp add: arrive_def)
next
  case (Some i)
  from find_index_SomeD [OF Some] have i: "i < length (sl_slots s)" "\<not> cs_used (sl_slots s ! i)" by simp_all
  let ?fd = "lowest_free (sl_open s)"
  let ?ws = "sl_workers s"
  have free: "fst (?ws ! k) = i \<Longrightarrow> snd (?ws ! k) = Finished" if "k < length ?ws" for k
    using assms(2) Some that by (auto simp: orderly_def list_all_length case_prod_unfold)
  have sh: "slot_shape (arrive s) = (slot_shape s)[i := (int ?fd, True)]" using Some by (simp add: arrive_def slot_shape_def map_update Let_def)
  have "fds_ok base ((slot_shape s)[i := (int ?fd, True)]) (?fd # sl_open s)"
    using assms(1) i lowest_free_new by (intro fds_ok_open) (simp_all add: slots_ok_def nth_slot_shape)
  then have fds: "fds_ok base (slot_shape (arrive s)) (sl_open (arrive s))" using Some by (simp add: sh) (simp add: arrive_def Let_def)
  have ws: "sl_workers (arrive s) = ?ws @ [(i, Receiving)]"
    and sl: "sl_slots (arrive s) = (sl_slots s)[i := \<lparr>cs_fd = int ?fd, cs_used = True, cs_active = True\<rparr>]"
    using Some by (simp_all add: arrive_def Let_def)
  show ?thesis
    using assms(1) fds free i unfolding slots_ok_def ws sl
    by (auto simp: nth_append nth_list_update less_Suc_eq)
qed

text \<open>A step of a thread changes its own place and its own slot.\<close>

lemma slots_ok_worker:
  assumes "slots_ok base s" "k < length (sl_workers s)" "sl_workers s ! k = (i, w)" "w \<noteq> Finished"
    and "fds_ok base (map (\<lambda>c. (cs_fd c, cs_used c)) ((sl_slots s)[i := c])) ds"
    and "w' \<in> {Receiving, Lost} \<longleftrightarrow> cs_used c" and "cs_used c \<longrightarrow> cs_used (sl_slots s ! i)"
  shows "slots_ok base (s\<lparr>sl_open := ds, sl_slots := (sl_slots s)[i := c], sl_workers := (sl_workers s)[k := (i, w')]\<rparr>)"
proof -
  let ?ws = "sl_workers s" and ?ws' = "(sl_workers s)[k := (i, w')]"
  have i: "i < length (sl_slots s)" using assms(1-3) unfolding slots_ok_def by fastforce
  have alone: "snd (?ws ! l) = Finished" if "l < length ?ws" "l \<noteq> k" "fst (?ws ! l) = i" for l
    using assms(1-4) that unfolding slots_ok_def by (metis fst_conv snd_conv)
  have fst: "fst (?ws' ! l) = fst (?ws ! l)" for l using assms(2,3) by (cases "l = k") simp_all
  have 1: "\<forall>l < length ?ws'. fst (?ws' ! l) < length (sl_slots s) \<and>
        (snd (?ws' ! l) \<in> {Receiving, Lost} \<longrightarrow> cs_used ((sl_slots s)[i := c] ! fst (?ws' ! l))) \<and>
        (snd (?ws' ! l) \<in> {Closed, Inactive} \<longrightarrow> \<not> cs_used ((sl_slots s)[i := c] ! fst (?ws' ! l)))"
  proof (intro allI impI)
    fix l assume l: "l < length ?ws'"
    show "fst (?ws' ! l) < length (sl_slots s) \<and>
        (snd (?ws' ! l) \<in> {Receiving, Lost} \<longrightarrow> cs_used ((sl_slots s)[i := c] ! fst (?ws' ! l))) \<and>
        (snd (?ws' ! l) \<in> {Closed, Inactive} \<longrightarrow> \<not> cs_used ((sl_slots s)[i := c] ! fst (?ws' ! l)))"
    proof (cases "l = k")
      case True
      then show ?thesis using l i assms(6) by auto
    next
      case False
      then have "?ws' ! l = ?ws ! l" by simp
      moreover have "fst (?ws ! l) = i \<longrightarrow> snd (?ws ! l) = Finished" using alone l False by simp
      ultimately show ?thesis using assms(1) l unfolding slots_ok_def by (auto simp: nth_list_update i)
    qed
  qed
  have 2: "\<forall>l < length ?ws'. \<forall>m < length ?ws'. fst (?ws' ! l) = fst (?ws' ! m) \<and> snd (?ws' ! l) \<noteq> Finished \<and> snd (?ws' ! m) \<noteq> Finished \<longrightarrow> l = m"
  proof (intro allI impI)
    fix l m
    assume h: "l < length ?ws'" "m < length ?ws'" "fst (?ws' ! l) = fst (?ws' ! m) \<and> snd (?ws' ! l) \<noteq> Finished \<and> snd (?ws' ! m) \<noteq> Finished"
    have fin: "snd (?ws ! l) \<noteq> Finished" if "snd (?ws' ! l) \<noteq> Finished" for l
      using that assms(3,4) by (cases "l = k") simp_all
    from h fin have "fst (?ws ! l) = fst (?ws ! m)" "snd (?ws ! l) \<noteq> Finished" "snd (?ws ! m) \<noteq> Finished" by (simp_all add: fst)
    then show "l = m" using assms(1) h(1,2) unfolding slots_ok_def by simp
  qed
  have 3: "\<exists>l < length ?ws'. fst (?ws' ! l) = j \<and> snd (?ws' ! l) \<in> {Receiving, Lost}"
    if j: "j < length (sl_slots s)" "cs_used ((sl_slots s)[i := c] ! j)" for j
  proof (cases "j = i")
    case True
    then show ?thesis using j assms(2,6) by (intro exI [of _ k]) simp
  next
    case False
    then obtain l where l: "l < length ?ws" "fst (?ws ! l) = j" "snd (?ws ! l) \<in> {Receiving, Lost}"
      using assms(1) j unfolding slots_ok_def by auto
    moreover have "l \<noteq> k" using l(2) False assms(3) by auto
    ultimately show ?thesis by (intro exI [of _ l]) simp
  qed
  show ?thesis using assms(5) 1 2 3 unfolding slots_ok_def slot_shape_def by simp
qed

lemma slot_step_ok:
  assumes "slots_ok base s" "orderly e s"
  shows "slots_ok base (slot_step e s)"
proof -
  have same: "map (\<lambda>c. (cs_fd c, cs_used c)) ((sl_slots s)[i := (sl_slots s ! i)\<lparr>cs_active := a\<rparr>]) = slot_shape s" if "i < length (sl_slots s)" for i a
    using that by (simp add: slot_shape_def map_update list_update_same_conv)
  have reset: "map (\<lambda>c. (cs_fd c, cs_used c)) ((sl_slots s)[i := reset_slot]) = (slot_shape s)[i := (-1, False)]" for i
    by (simp add: slot_shape_def map_update reset_slot_def)
  have fds: "fds_ok base (slot_shape s) (sl_open s)" using assms(1) by (simp add: slots_ok_def)
  have place: "i < length (sl_slots s)" "w \<in> {Receiving, Lost} \<Longrightarrow> cs_used (sl_slots s ! i)" "w \<in> {Closed, Inactive} \<Longrightarrow> \<not> cs_used (sl_slots s ! i)"
    if "k < length (sl_workers s)" "sl_workers s ! k = (i, w)" for k i w
    using assms(1) that unfolding slots_ok_def by fastforce+
  have "slots_ok base (slot_recv_fails k s)" if k: "k < length (sl_workers s)" for k
  proof (cases "\<exists>i. sl_workers s ! k = (i, Receiving)")
    case True
    then obtain i where w: "sl_workers s ! k = (i, Receiving)" by blast
    note P = place [OF k w]
    have "slots_ok base (s\<lparr>sl_open := sl_open s, sl_slots := (sl_slots s)[i := sl_slots s ! i], sl_workers := (sl_workers s)[k := (i, Lost)]\<rparr>)"
      by (rule slots_ok_worker [OF assms(1) k w]) (use P fds in \<open>simp_all add: slot_shape_def\<close>)
    then show ?thesis using w by (simp add: slot_recv_fails_def)
  qed (use assms(1) in \<open>auto simp: slot_recv_fails_def split: prod.split worker.split\<close>)
  moreover have "slots_ok base (run_worker k s)" if k: "k < length (sl_workers s)" for k
  proof -
    obtain i w where w: "sl_workers s ! k = (i, w)" by fastforce
    note P = place [OF k w]
    have "i < length (slot_shape s)" using P(1) by simp
    note close = fds_ok_close [OF fds this]
    show ?thesis
    proof (cases w)
      case Lost
      have fd: "0 \<le> cs_fd (sl_slots s ! i)" using fds P Lost by (auto simp: fds_ok_def nth_slot_shape)
      have "slots_ok base (s\<lparr>sl_open := removeAll (nat (cs_fd (sl_slots s ! i))) (sl_open s), sl_slots := (sl_slots s)[i := reset_slot],
          sl_workers := (sl_workers s)[k := (i, Closed)]\<rparr>)"
        by (rule slots_ok_worker [OF assms(1) k w]) (use P Lost close in \<open>simp_all add: reset nth_slot_shape, simp_all add: reset_slot_def\<close>)
      then show ?thesis using w Lost fd by (simp add: run_worker_def Let_def)
    next
      case Closed
      have "slots_ok base (s\<lparr>sl_open := sl_open s, sl_slots := (sl_slots s)[i := (sl_slots s ! i)\<lparr>cs_active := False\<rparr>],
          sl_workers := (sl_workers s)[k := (i, Inactive)]\<rparr>)"
        by (rule slots_ok_worker [OF assms(1) k w]) (use P Closed fds in \<open>simp_all add: same\<close>)
      then show ?thesis using w Closed by (simp add: run_worker_def)
    next
      case Inactive
      have "(slot_shape s)[i := (-1, False)] = slot_shape s"
        using fds P Inactive by (auto simp: fds_ok_def nth_slot_shape intro!: list_update_same_conv [THEN iffD2])
      then have "slots_ok base (s\<lparr>sl_open := sl_open s, sl_slots := (sl_slots s)[i := reset_slot], sl_workers := (sl_workers s)[k := (i, Finished)]\<rparr>)"
        by (intro slots_ok_worker [OF assms(1) k w]) (use P Inactive fds in \<open>simp_all add: reset, simp_all add: reset_slot_def\<close>)
      then show ?thesis using w Inactive by (simp add: run_worker_def)
    qed (use assms(1) w in \<open>simp_all add: run_worker_def\<close>)
  qed
  ultimately show ?thesis using assms arrive_ok by (cases e) simp_all
qed

lemma orderly_run_ok: "slots_ok base s \<Longrightarrow> orderly_run es s \<Longrightarrow> slots_ok base (fold slot_step es s)"
  by (induction es arbitrary: s) (simp_all add: slot_step_ok)

lemma empty_slots_ok: "slots_ok (set ds) (empty_slots n ds)"
proof -
  have "used_slots (replicate n (-1, False)) = {}" by (auto simp: used_slots_def)
  then show ?thesis by (auto simp: slots_ok_def fds_ok_def slot_shape_def empty_slots_def reset_slot_def)
qed

section \<open>A slot that is reused too early\<close>

text \<open>C38: The slots of connections. When every thread ends before its slot is given to another connection, no descriptor is
  lost: after all threads have ended, exactly the descriptors that were open at the start are open. But the code does
  not wait for that. The thread of a connection that has ended frees the slot before it is done
  with it; when the next connection arrives in between, the old thread resets the slot of the new one: its descriptor is in no
  slot any more, its thread reads from descriptor -1, and after all threads have ended the descriptor is still open.\<close>

theorem slot_reuse_leaks:
  "(\<forall>es s. orderly_run es (empty_slots MAX_PEERS ds) \<and> s = fold slot_step es (empty_slots MAX_PEERS ds) \<and>
      list_all (\<lambda>(i, w). w = Finished) (sl_workers s) \<longrightarrow> set (sl_open s) = set ds) \<and>
   (\<exists>es s. s = fold slot_step es (empty_slots MAX_PEERS [0, 1, 2]) \<and>
      list_all (\<lambda>(i, w). w = Finished) (sl_workers s) \<and> list_all (\<lambda>c. c = reset_slot) (sl_slots s) \<and> set (sl_open s) = {0, 1, 2, 3})"
proof
  let ?es = "[Arrive, RecvFails 0, Run 0, Arrive, Run 0, Run 0, RecvFails 1, Run 1, Run 1, Run 1]"
  have "fold slot_step ?es (empty_slots (Suc n) [0, 1, 2]) =
      \<lparr>sl_slots = replicate (Suc n) reset_slot, sl_workers = [(0, Finished), (0, Finished)], sl_open = [3, 0, 1, 2]\<rparr>" for n
    by (simp add: empty_slots_def arrive_def run_worker_def slot_recv_fails_def reset_slot_def lowest_free_def numeral_2_eq_2 numeral_3_eq_3 Let_def)
  moreover have "MAX_PEERS = Suc (MAX_PEERS - 1)" by (simp add: MAX_PEERS_def)
  ultimately have run: "fold slot_step ?es (empty_slots MAX_PEERS [0, 1, 2]) =
      \<lparr>sl_slots = replicate MAX_PEERS reset_slot, sl_workers = [(0, Finished), (0, Finished)], sl_open = [3, 0, 1, 2]\<rparr>" by metis
  show "\<exists>es s. s = fold slot_step es (empty_slots MAX_PEERS [0, 1, 2]) \<and>
      list_all (\<lambda>(i, w). w = Finished) (sl_workers s) \<and> list_all (\<lambda>c. c = reset_slot) (sl_slots s) \<and> set (sl_open s) = {0, 1, 2, 3}"
    by (rule exI [of _ ?es], rule exI, rule conjI, rule refl, unfold run) (auto simp: list_all_iff)
qed (use slots_ok_idle orderly_run_ok empty_slots_ok in blast)

text \<open>A connection that arrives, is lost, and whose thread ends.\<close>

theorem slot_reuse_leaks_witness:
  "orderly_run [Arrive, RecvFails 0, Run 0, Run 0, Run 0] (empty_slots MAX_PEERS [0, 1, 2]) \<and>
   set (sl_open (fold slot_step [Arrive, RecvFails 0, Run 0, Run 0, Run 0] (empty_slots MAX_PEERS [0, 1, 2]))) = {0, 1, 2}"
proof -
  let ?es = "[Arrive, RecvFails 0, Run 0, Run 0, Run 0]"
  have M: "MAX_PEERS = Suc (MAX_PEERS - 1)" by (simp add: MAX_PEERS_def)
  have "orderly_run ?es (empty_slots (Suc n) [0, 1, 2]) \<and>
      list_all (\<lambda>(i, w). w = Finished) (sl_workers (fold slot_step ?es (empty_slots (Suc n) [0, 1, 2])))" for n
    by (simp add: empty_slots_def orderly_def arrive_def run_worker_def slot_recv_fails_def reset_slot_def Let_def)
  then have o: "orderly_run ?es (empty_slots MAX_PEERS [0, 1, 2])"
    "list_all (\<lambda>(i, w). w = Finished) (sl_workers (fold slot_step ?es (empty_slots MAX_PEERS [0, 1, 2])))" using M by metis+
  then have "set (sl_open (fold slot_step ?es (empty_slots MAX_PEERS [0, 1, 2]))) = set [0, 1, 2]"
    using slot_reuse_leaks [of "[0, 1, 2]"] by blast
  with o(1) show ?thesis by simp
qed

end
