(* ===== verification/System.thy ===== *)
theory System
  imports NM_Props SS_Replication
begin

text \<open>
  The name manager and the storage servers together: the ticket that the manager announces
  is the one the storage server keeps, and a copy ordered by the manager ends with the same
  text on both servers. The commands cross the wire as text, written by the functions of
  \<^verbatim>\<open>nm/nm_main.c\<close> and read by those of \<^verbatim>\<open>ss/ss_main.c\<close>.
\<close>

section \<open>Tokens\<close>

lemma token_chars: "set (fst (randutil_token rnd n w)) \<subseteq> set token_alphabet"
proof (induction n arbitrary: w)
  case (Suc n)
  have "r mod length token_alphabet < length token_alphabet" for r
    by (rule mod_less_divisor) (simp add: token_alphabet_def)
  then have "token_alphabet ! (r mod length token_alphabet) \<in> set token_alphabet" for r by simp
  with Suc show ?case by (auto split: prod.split simp: subset_eq) (metis fst_conv)+
qed simp

lemma length_token [simp]: "length (fst (randutil_token rnd n w)) = n"
  by (induction n arbitrary: w) (auto split: prod.split, metis fst_conv)

lemma plain_text_set: "(\<And>c. c \<in> set s \<Longrightarrow> escape_char c = [c]) \<Longrightarrow> plain_text s"
  by (induction s) (auto simp: plain_text_def)

lemma plain_token: "plain_text (fst (randutil_token rnd n w))"
proof (rule plain_text_set)
  fix c
  assume "c \<in> set (fst (randutil_token rnd n w))"
  then have "c \<in> set token_alphabet" by (rule subsetD [OF token_chars])
  moreover have "list_all (\<lambda>c. escape_char c = [c]) token_alphabet" by code_simp
  ultimately show "escape_char c = [c]" by (simp add: list_all_iff)
qed

section \<open>The ticket command\<close>

definition ticket_object :: "string \<Rightarrow> string \<Rightarrow> (string \<times> json_val) list \<Rightarrow> time_t \<Rightarrow> string" where
  "ticket_object token n rest expiry =
     json_object ([(''type'', JStr ''NM_TICKET''), (''token'', JStr token), (''file'', JStr n)] @ rest @ [(''expiry'', JInt expiry)])"

lemma fmt_plain: "plain_text v \<Longrightarrow> fmt_str k v = member_text (k, JStr v)"
  using fmt_member(1) [of k v] by (simp add: plain_text_def)

lemma ticket_payload_object:
  assumes "plain_text (te_token t)" and "plain_text (te_file t)" and "plain_text (te_user t)" and "plain_text (te_op t)"
  shows "ticket_payload t = ticket_object (te_token t) (te_file t) [(''user'', JStr (te_user t)), (''op'', JStr (te_op t))] (te_expiry t)"
proof -
  have ty: "plain_text ''NM_TICKET''" by (simp add: plain_text_def escape_char_def)
  show ?thesis
    unfolding ticket_payload_def ticket_object_def fmt_plain [OF ty] fmt_plain [OF assms(1)] fmt_plain [OF assms(2)]
      fmt_plain [OF assms(3)] fmt_plain [OF assms(4)] fmt_member(2) braces_object [symmetric]
    by simp
qed

lemma ticket_command_fields:
  assumes "json_get_string json ''token'' 64 = Some token" and "json_get_string json ''file'' SS_NAME_MAX = Some n"
    and "json_get_string json ''user'' SS_USER_MAX = Some u" and "json_get_string json ''op'' 16 = Some op"
    and "json_get_int json ''expiry'' = Some expiry"
    and "ticket_table_add (mem_ok (os_env os)) (sc_tickets ctx) token n u op expiry = Some tbl"
  shows "handle_nm_ticket_command os ctx json = nm_ok (ctx\<lparr>sc_tickets := tbl\<rparr>) (fmt_str ''op'' ''TICKET'')"
  using assms by (simp add: handle_nm_ticket_command_def)

text \<open>What the storage server stores on such a command.\<close>

lemma ticket_command_stores:
  assumes "json_ok rest" and "map_of rest ''user'' = Some (JStr u)" and "map_of rest ''op'' = Some (JStr op)"
    and "{''token'', ''file'', ''expiry''} \<inter> set (map fst rest) = {}"
    and "length token < 64" and "length n < SS_NAME_MAX" and "length u < SS_USER_MAX" and "length op < 16"
    and "int_range expiry" and "\<And>m. mem_ok (os_env os) m"
  shows "\<exists>tbl. ticket_table_add (mem_ok (os_env os)) (sc_tickets ctx) token n u op expiry = Some tbl \<and>
    handle_nm_ticket_command os ctx (ticket_object token n rest expiry) = nm_ok (ctx\<lparr>sc_tickets := tbl\<rparr>) (fmt_str ''op'' ''TICKET'')"
proof -
  let ?kvs = "[(''type'', JStr ''NM_TICKET''), (''token'', JStr token), (''file'', JStr n)] @ rest @ [(''expiry'', JInt expiry)]"
  have ok: "json_ok ?kvs" using assms(1) by (simp add: json_ok_def plain_key_def)
  have k: "plain_key ''token''" "plain_key ''file''" "plain_key ''user''" "plain_key ''op''" "plain_key ''expiry''"
    by (simp_all add: plain_key_def)
  have "map_of rest ''expiry'' = None" using assms(4) by (simp add: map_of_eq_None_iff)
  then have m: "map_of ?kvs ''token'' = Some (JStr token)" "map_of ?kvs ''file'' = Some (JStr n)" "map_of ?kvs ''user'' = Some (JStr u)"
    "map_of ?kvs ''op'' = Some (JStr op)" "map_of ?kvs ''expiry'' = Some (JInt expiry)"
    using assms(2,3) by (simp_all add: map_add_def)
  have token: "json_get_string (json_object ?kvs) ''token'' 64 = Some token"
    unfolding json_get_string_object [OF ok k(1) m(1)] using assms(5) by simp
  have fl: "json_get_string (json_object ?kvs) ''file'' SS_NAME_MAX = Some n"
    unfolding json_get_string_object [OF ok k(2) m(2)] using assms(6) by simp
  have user: "json_get_string (json_object ?kvs) ''user'' SS_USER_MAX = Some u"
    unfolding json_get_string_object [OF ok k(3) m(3)] using assms(7) by simp
  have op: "json_get_string (json_object ?kvs) ''op'' 16 = Some op"
    unfolding json_get_string_object [OF ok k(4) m(4)] using assms(8) by simp
  have r: "LONG_MIN \<le> expiry" "expiry \<le> LONG_MAX" using int_range_long [OF assms(9)] by (simp_all add: long_range_def)
  have expiry: "json_get_int (json_object ?kvs) ''expiry'' = Some expiry"
    unfolding json_get_int_object [OF ok k(5) m(5) r] int32_fits [OF assms(9)] by (rule refl)
  have "\<exists>tbl. ticket_table_add (mem_ok (os_env os)) (sc_tickets ctx) token n u op expiry = Some tbl"
    unfolding ticket_table_add_def by (rule array_push_mem) (rule assms(10))
  then obtain tbl where "ticket_table_add (mem_ok (os_env os)) (sc_tickets ctx) token n u op expiry = Some tbl" ..
  with ticket_command_fields [OF token fl user op expiry this] show ?thesis unfolding ticket_object_def by blast
qed

section \<open>Tickets end to end\<close>

definition issued_entry :: "'w nm_os \<Rightarrow> string \<Rightarrow> string \<Rightarrow> string \<Rightarrow> string \<Rightarrow> int \<Rightarrow> ticket_entry" where
  "issued_entry os token n u op k =
     \<lparr>te_token = token, te_file = buf NM_MAX_NAME n, te_user = buf NM_MAX_USER u, te_op = buf 16 op,
      te_expiry = no_now os + TICKET_TTL, te_ss = k\<rparr>"

lemma issue_ticket_sent:
  assumes "issue_ticket os ctx ss k n u op = (Some token, ctx')"
  shows "length token = 63" and "plain_text token"
    and "\<exists>w response. fst (no_rpc os (ss_ctrl_fd ss) (ticket_payload (issued_entry os token n u op k)) w) = Some response \<and> status_ok response"
    and "issued_entry os token n u op k \<in> set (items (nc_tickets ctx'))"
proof -
  let ?t = "fst (randutil_token (no_rand os) 63 (nc_world (ticket_prune os ctx)))"
  let ?c = "ticket_prune os ctx\<lparr>nc_world := snd (randutil_token (no_rand os) 63 (nc_world (ticket_prune os ctx)))\<rparr>"
  let ?e = "issued_entry os ?t n u op k"
  obtain response ctx3 arr where f: "forward_command os ?c ss (ticket_payload ?e) = (Some response, ctx3)" "status_ok response"
    and a: "array_push (no_mem os) (nc_tickets ctx3) ?e = Some arr" "token = ?t" "ctx' = ctx3\<lparr>nc_tickets := arr\<rparr>"
    using assms unfolding issue_ticket_def Let_def issued_entry_def [symmetric]
    by (auto simp: case_prod_unfold prod_eq_iff split: if_splits option.splits)
  show "length token = 63" "plain_text token" using a(2) by (simp_all add: plain_token)
  show "\<exists>w response. fst (no_rpc os (ss_ctrl_fd ss) (ticket_payload (issued_entry os token n u op k)) w) = Some response \<and> status_ok response"
    using f a(2) by (auto simp: forward_command_def split: option.splits prod.splits intro: exI [of _ "nc_world ?c"])
  show "issued_entry os token n u op k \<in> set (items (nc_tickets ctx'))" using arr.push_view [OF a(1)] a(2,3) by simp
qed

lemma user_op_keys: "json_ok [(''user'', a), (''op'', b)]" "json_ok [(''user'', a), (''op'', b), (''op'', c)]"
  by (simp_all add: json_ok_def plain_key_def)

text \<open>A ticket handed out by the name manager opens the file. When \<^verbatim>\<open>issue_ticket\<close> succeeds for a file, a user
  and an operation whose names need no escaping, it has sent a command to the storage server and got the
  answer \<^verbatim>\<open>OK\<close>; the server that handles this command accepts, until the ticket expires 30 seconds
  later, a connection that presents the token for exactly this user, file and operation.\<close>

theorem issued_ticket_opens:
  assumes "issue_ticket os ctx ss k n u op = (Some token, ctx')"
    and "plain_text n" "plain_text u" "plain_text op" and "length n < NM_MAX_NAME" "length u < NM_MAX_USER" "length op < 16"
    and "int_range (no_now os + TICKET_TTL)" and "now \<le> no_now os + TICKET_TTL" and "\<And>m. mem_ok (os_env ss_os) m"
  shows "\<exists>payload w response tbl. fst (no_rpc os (ss_ctrl_fd ss) payload w) = Some response \<and> status_ok response \<and>
    handle_nm_ticket_command ss_os sctx payload = nm_ok (sctx\<lparr>sc_tickets := tbl\<rparr>) (fmt_str ''op'' ''TICKET'') \<and>
    fst (redeem_ticket_claim (mem_ok (os_env ss_os)) now tbl (token, u, n, op))"
proof -
  note sent = issue_ticket_sent [OF assms(1)]
  let ?e = "issued_entry os token n u op k"
  have e: "te_token ?e = token" "te_file ?e = n" "te_user ?e = u" "te_op ?e = op" "te_expiry ?e = no_now os + TICKET_TTL"
    using assms(5-7) by (simp_all add: issued_entry_def)
  have len: "length token < 64" "length n < SS_NAME_MAX" "length u < SS_USER_MAX"
    using sent(1) assms(5,6) by (simp_all add: SS_NAME_MAX_def SS_USER_MAX_def NM_MAX_NAME_def NM_MAX_USER_def)
  have p: "ticket_payload ?e = ticket_object token n [(''user'', JStr u), (''op'', JStr op)] (no_now os + TICKET_TTL)"
    using ticket_payload_object [of ?e] sent(2) assms(2-4) e by simp
  obtain tbl where tbl: "ticket_table_add (mem_ok (os_env ss_os)) (sc_tickets sctx) token n u op (no_now os + TICKET_TTL) = Some tbl"
    "handle_nm_ticket_command ss_os sctx (ticket_payload ?e) = nm_ok (sctx\<lparr>sc_tickets := tbl\<rparr>) (fmt_str ''op'' ''TICKET'')"
    using ticket_command_stores [OF user_op_keys(1), of "JStr u" "JStr op" u op token n _ ss_os sctx] len assms(7,8,10) unfolding p by auto
  have "fst (redeem_ticket_claim (mem_ok (os_env ss_os)) now tbl (token, u, n, op))"
    by (rule issued_ticket_accepted [OF tbl(1)]) (use len assms(5-7,9,10) in \<open>simp_all add: NM_MAX_NAME_def NM_MAX_USER_def\<close>)
  with sent(3) tbl(2) show ?thesis by blast
qed

text \<open>The manager of the demonstration hands alice a ticket for her file.\<close>

theorem issued_ticket_opens_witness:
  "\<exists>payload tbl. handle_nm_ticket_command demo_os demo_ctx payload =
      nm_ok (demo_ctx\<lparr>sc_tickets := tbl\<rparr>) (fmt_str ''op'' ''TICKET'') \<and>
    fst (redeem_ticket_claim (mem_ok (os_env demo_os)) 70 tbl (demo_token, ''alice'', ''a'', ''READ''))"
proof -
  obtain ctx1 where i: "issue_ticket nm_demo_os nm_demo_ctx (registered ''ss1'' ''host1'' ''9001'' ''9101'' 5) 0
      ''a'' ''alice'' ''READ'' = (Some demo_token, ctx1)"
    using demo_issue [of nm_demo_ctx, OF _ _ _ demo_token_facts(3)] by (auto simp: nm_demo_ctx_def NM_MAX_NAME_def NM_MAX_USER_def)
  have p: "plain_text ''a''" "plain_text ''alice''" "plain_text ''READ''" by (simp_all add: plain_text_def escape_char_def)
  have t: "no_now nm_demo_os + TICKET_TTL = 80" by (simp add: nm_demo_os_def TICKET_TTL_def)
  have m: "mem_ok (os_env demo_os) m" for m by (simp add: demo_os_def good_env_def)
  show ?thesis
    using issued_ticket_opens [OF i p, of 70 demo_os demo_ctx] m
    by (auto simp: t int_range_def INT_MIN_def INT_MAX_def NM_MAX_NAME_def NM_MAX_USER_def)
qed

section \<open>Names that are not escaped\<close>

text \<open>A user name that ends the string and adds a member to the message.\<close>

definition op_suffix :: string where
  "op_suffix = QUOTE # CHR '','' # QUOTE # ''op'' @ QUOTE # CHR '':'' # QUOTE # ''WRITE''"

lemma injected_payload:
  assumes "plain_text (te_token t)" and "plain_text (te_file t)" and "plain_text v" and "te_user t = v @ op_suffix" and "te_op t = ''READ''"
  shows "ticket_payload t =
    ticket_object (te_token t) (te_file t) [(''user'', JStr v), (''op'', JStr ''WRITE''), (''op'', JStr ''READ'')] (te_expiry t)"
proof -
  have lit: "plain_text ''NM_TICKET''" "plain_text ''WRITE''" "plain_text ''READ''" by (simp_all add: plain_text_def escape_char_def)
  have u: "fmt_str ''user'' (v @ op_suffix) = fmt_str ''user'' v @ CHR '','' # fmt_str ''op'' ''WRITE''"
    by (simp add: fmt_str_def op_suffix_def)
  show ?thesis
    unfolding ticket_payload_def assms(4,5) u ticket_object_def fmt_plain [OF lit(1)] fmt_plain [OF lit(2)] fmt_plain [OF lit(3)]
      fmt_plain [OF assms(1)] fmt_plain [OF assms(2)] fmt_plain [OF assms(3)] fmt_member(2) braces_object [symmetric]
    by (simp add: braces_def)
qed

text \<open>C25: A read ticket that is a write ticket. The ticket command is composed without escaping, so a user
  called \<open>v","op":"WRITE\<close>, to whom the manager hands a ticket for reading, makes the storage server
  store a ticket with which \<open>v\<close> may write the file.\<close>

theorem read_ticket_grants_write:
  assumes "issue_ticket os ctx ss k n (v @ op_suffix) ''READ'' = (Some token, ctx')"
    and "plain_text n" "plain_text v" and "length n < NM_MAX_NAME" "length (v @ op_suffix) < NM_MAX_USER"
    and "int_range (no_now os + TICKET_TTL)" and "now \<le> no_now os + TICKET_TTL" and "\<And>m. mem_ok (os_env ss_os) m"
  shows "\<exists>payload w response tbl. fst (no_rpc os (ss_ctrl_fd ss) payload w) = Some response \<and> status_ok response \<and>
    handle_nm_ticket_command ss_os sctx payload = nm_ok (sctx\<lparr>sc_tickets := tbl\<rparr>) (fmt_str ''op'' ''TICKET'') \<and>
    fst (redeem_ticket_claim (mem_ok (os_env ss_os)) now tbl (token, v, n, ''WRITE''))"
proof -
  note sent = issue_ticket_sent [OF assms(1)]
  let ?e = "issued_entry os token n (v @ op_suffix) ''READ'' k"
  have e: "te_token ?e = token" "te_file ?e = n" "te_user ?e = v @ op_suffix" "te_op ?e = ''READ''" "te_expiry ?e = no_now os + TICKET_TTL"
    using assms(4,5) by (simp_all add: issued_entry_def del: length_append)
  have len: "length token < 64" "length n < SS_NAME_MAX" "length v < SS_USER_MAX"
    using sent(1) assms(4,5) by (simp_all add: SS_NAME_MAX_def SS_USER_MAX_def NM_MAX_NAME_def NM_MAX_USER_def)
  have p: "ticket_payload ?e =
      ticket_object token n [(''user'', JStr v), (''op'', JStr ''WRITE''), (''op'', JStr ''READ'')] (no_now os + TICKET_TTL)"
    using injected_payload [of ?e v] sent(2) assms(2,3) e by simp
  obtain tbl where tbl: "ticket_table_add (mem_ok (os_env ss_os)) (sc_tickets sctx) token n v ''WRITE'' (no_now os + TICKET_TTL) = Some tbl"
    "handle_nm_ticket_command ss_os sctx (ticket_payload ?e) = nm_ok (sctx\<lparr>sc_tickets := tbl\<rparr>) (fmt_str ''op'' ''TICKET'')"
    using ticket_command_stores [OF user_op_keys(2), of "JStr v" "JStr ''WRITE''" "JStr ''READ''" v "''WRITE''" token n _ ss_os sctx] len assms(6,8)
    unfolding p by auto
  have "fst (redeem_ticket_claim (mem_ok (os_env ss_os)) now tbl (token, v, n, ''WRITE''))"
    by (rule issued_ticket_accepted [OF tbl(1)]) (use len assms(4,7,8) in \<open>simp_all add: NM_MAX_NAME_def SS_USER_MAX_def\<close>)
  with sent(3) tbl(2) show ?thesis by blast
qed

text \<open>The user \<open>b","op":"WRITE\<close> gets a ticket for reading \<open>a\<close>; \<open>b\<close> can write with it.\<close>

theorem read_ticket_grants_write_witness:
  "\<exists>payload tbl. handle_nm_ticket_command demo_os demo_ctx payload =
      nm_ok (demo_ctx\<lparr>sc_tickets := tbl\<rparr>) (fmt_str ''op'' ''TICKET'') \<and>
    fst (redeem_ticket_claim (mem_ok (os_env demo_os)) 70 tbl (demo_token, ''b'', ''a'', ''WRITE''))"
proof -
  have "length (ticket_payload \<lparr>te_token = demo_token, te_file = ''a'', te_user = ''b'' @ op_suffix, te_op = ''READ'',
      te_expiry = 80, te_ss = 0\<rparr>) < 512" by code_simp
  from demo_issue [of nm_demo_ctx, OF _ _ _ this]
  obtain ctx1 where i: "issue_ticket nm_demo_os nm_demo_ctx (registered ''ss1'' ''host1'' ''9001'' ''9101'' 5) 0
      ''a'' (''b'' @ op_suffix) ''READ'' = (Some demo_token, ctx1)"
    by (auto simp: nm_demo_ctx_def NM_MAX_NAME_def NM_MAX_USER_def op_suffix_def)
  have p: "plain_text ''a''" "plain_text ''b''" by (simp_all add: plain_text_def escape_char_def)
  have t: "no_now nm_demo_os + TICKET_TTL = 80" by (simp add: nm_demo_os_def TICKET_TTL_def)
  have m: "mem_ok (os_env demo_os) m" for m by (simp add: demo_os_def good_env_def)
  show ?thesis
    using read_ticket_grants_write [OF i p, of 70 demo_os demo_ctx] m
    by (auto simp: t int_range_def INT_MIN_def INT_MAX_def NM_MAX_NAME_def NM_MAX_USER_def op_suffix_def)
qed

section \<open>Replication end to end\<close>

text \<open>
  A storage server at the other end of the control connection: it handles one command and
  the first payload it sends back is the answer. The world of the manager holds the state of its random
  source and two servers, the primary at the connection \<open>fd1\<close> and the backup, which fetches from
  the primary; what serving this fetch changes at the primary is left out.
\<close>

definition command :: "os \<Rightarrow> remote \<Rightarrow> ss_context \<Rightarrow> string \<Rightarrow> string option \<times> ss_context" where
  "command os remote ctx payload =
     (case process_nm_command os remote (ctx\<lparr>nm_conn := \<lparr>inbox = [payload], outbox = [], send_limit = 1\<rparr>\<rparr>) of
        (_, ctx') \<Rightarrow> (case outbox (nm_conn ctx') of [] \<Rightarrow> None | r # _ \<Rightarrow> Some r, ctx'))"

type_synonym 'g two_servers = "'g \<times> ss_context \<times> ss_context"

definition server_rpc :: "os \<Rightarrow> os \<Rightarrow> int \<Rightarrow> int \<Rightarrow> string \<Rightarrow> 'g two_servers \<Rightarrow> string option \<times> 'g two_servers" where
  "server_rpc os1 os2 fd1 fd payload w =
     (case w of (g, src, dst) \<Rightarrow>
        if fd = fd1 then (case command os1 (\<lambda>_ _ _. None) src payload of (r, src') \<Rightarrow> (r, g, src', dst))
        else (case command os2 (serve os1 src) dst payload of (r, dst') \<Rightarrow> (r, g, src, dst')))"

definition on_servers :: "('g \<Rightarrow> nat \<times> 'g) \<Rightarrow> 'g two_servers \<Rightarrow> nat \<times> 'g two_servers" where
  "on_servers rnd w = (case rnd (fst w) of (r, g) \<Rightarrow> (r, g, snd w))"

lemma token_servers: "\<exists>t g'. randutil_token (on_servers rnd) n (g, s) = (t, g', s)"
proof (induction n arbitrary: g)
  case (Suc n)
  obtain r g1 where "rnd g = (r, g1)" by fastforce
  with Suc [of g1] show ?case by (auto simp: on_servers_def)
qed simp

abbreviation fresh_conn :: conn where
  "fresh_conn \<equiv> \<lparr>inbox = [], outbox = [], send_limit = 1\<rparr>"

lemma ok_reply:
  assumes "nm_conn ctx = fresh_conn" and "extra = fmt_str ''op'' ''TICKET'' \<or> extra = fmt_str ''op'' ''SYNC''"
  shows "\<exists>r. snd (nm_ok ctx extra) = ctx\<lparr>nm_conn := fresh_conn\<lparr>outbox := [r]\<rparr>\<rparr> \<and> status_ok r"
proof -
  let ?r = "braces [fmt_str ''status'' ''OK'', extra]"
  have "status_ok (braces [fmt_str ''status'' ''OK'', fmt_str ''op'' ''TICKET''])" by code_simp
  moreover have "status_ok (braces [fmt_str ''status'' ''OK'', fmt_str ''op'' ''SYNC''])" by code_simp
  ultimately have "status_ok ?r" using assms(2) by blast
  moreover have "snd (nm_ok ctx extra) = ctx\<lparr>nm_conn := fresh_conn\<lparr>outbox := [?r]\<rparr>\<rparr>"
    using assms by (auto simp: nm_ok_def send_ok_def conn_send_def fmt_str_def braces_def MAX_JSON_def)
  ultimately show ?thesis by blast
qed

lemma command_type:
  assumes "json_get_string payload ''type'' 64 = Some ''NM_TICKET''"
  shows "snd (process_nm_command os remote (ctx\<lparr>nm_conn := \<lparr>inbox = [payload], outbox = [], send_limit = 1\<rparr>\<rparr>)) =
    snd (handle_nm_ticket_command os (ctx\<lparr>nm_conn := fresh_conn\<rparr>) payload)"
  using assms by (simp add: process_nm_command_def Let_def)

lemma command_sync:
  assumes "json_get_string payload ''type'' 64 = Some ''NM_SYNC''"
  shows "snd (process_nm_command os remote (ctx\<lparr>nm_conn := \<lparr>inbox = [payload], outbox = [], send_limit = 1\<rparr>\<rparr>)) =
    snd (handle_nm_sync os remote (ctx\<lparr>nm_conn := fresh_conn\<rparr>) payload)"
  using assms by (simp add: process_nm_command_def Let_def)

lemma ticket_payload_short:
  assumes "length (te_token t) < 64" and "length (te_file t) < 128" and "length (te_user t) < 64" and "length (te_op t) < 16"
    and "int_range (te_expiry t)"
  shows "length (ticket_payload t) < 512"
  using assms length_show_long [OF int_range_long [OF assms(5)]]
  by (simp add: ticket_payload_def braces_def fmt_str_def fmt_int_def)

lemma ticket_object_type: "json_ok rest \<Longrightarrow> json_get_string (ticket_object token n rest e) ''type'' 64 = Some ''NM_TICKET''"
  unfolding ticket_object_def
  by (subst json_get_string_object [where s = "''NM_TICKET''"]) (simp_all add: json_ok_def plain_key_def)

lemma sync_request_type: "json_get_string (sync_request f ow h p t) ''type'' 64 = Some ''NM_SYNC''"
  unfolding sync_request_def
  by (subst json_get_string_object [where s = "''NM_SYNC''"]) (simp_all add: json_ok_def plain_key_def)

text \<open>The operations of tickets.\<close>

definition data_ops :: "string set" where "data_ops = {''READ'', ''WRITE'', ''STREAM''}"

lemma data_op:
  assumes "op \<in> data_ops"
  shows "plain_text op" and "length op < 16"
  using assms by (auto simp: data_ops_def plain_text_def escape_char_def)

text \<open>The primary stores the ticket and answers \<^verbatim>\<open>OK\<close>.\<close>

lemma ticket_at_primary:
  assumes "plain_text token" "plain_text n" "plain_text u" and "length token < 64" "length n < NM_MAX_NAME" "length u < NM_MAX_USER"
    and "int_range (no_now nm + TICKET_TTL)" and "\<And>m. mem_ok (os_env os) m"
    and "op \<in> data_ops"
  shows "\<exists>r tbl t c. command os remote src (ticket_payload (issued_entry nm token n u op k)) =
      (Some r, src\<lparr>nm_conn := c, sc_tickets := tbl\<rparr>) \<and> status_ok r \<and> t \<in> set (items tbl) \<and>
    ticket_matches token u n op t \<and> tk_expiry t = no_now nm + TICKET_TTL"
proof -
  let ?e = "issued_entry nm token n u op k"
  note op = data_op [OF assms(9)]
  let ?x = "no_now nm + TICKET_TTL"
  have e: "te_token ?e = token" "te_file ?e = n" "te_user ?e = u" "te_op ?e = op" "te_expiry ?e = ?x"
    using assms(5,6) op(2) by (simp_all add: issued_entry_def)
  have len: "length n < SS_NAME_MAX" "length u < SS_USER_MAX" "length n < 128" "length u < 64"
    using assms(5,6) by (simp_all add: SS_NAME_MAX_def SS_USER_MAX_def NM_MAX_NAME_def NM_MAX_USER_def)
  have p: "ticket_payload ?e = ticket_object token n [(''user'', JStr u), (''op'', JStr op)] ?x"
    using ticket_payload_object [of ?e] assms(1-3) e op(1) by simp
  let ?s = "src\<lparr>nm_conn := fresh_conn\<rparr>"
  obtain tbl where tbl: "ticket_table_add (mem_ok (os_env os)) (sc_tickets ?s) token n u op ?x = Some tbl"
    "handle_nm_ticket_command os ?s (ticket_payload ?e) = nm_ok (?s\<lparr>sc_tickets := tbl\<rparr>) (fmt_str ''op'' ''TICKET'')"
    using ticket_command_stores [OF user_op_keys(1), of "JStr u" "JStr op" u "op" token n ?x os ?s] assms(4,7,8) op(2) len
    unfolding p by auto
  obtain r where r: "snd (nm_ok (?s\<lparr>sc_tickets := tbl\<rparr>) (fmt_str ''op'' ''TICKET'')) =
      ?s\<lparr>sc_tickets := tbl, nm_conn := fresh_conn\<lparr>outbox := [r]\<rparr>\<rparr>" "status_ok r"
    using ok_reply [of "?s\<lparr>sc_tickets := tbl\<rparr>" "fmt_str ''op'' ''TICKET''"] by auto
  have "command os remote src (ticket_payload ?e) = (Some r, src\<lparr>nm_conn := fresh_conn\<lparr>outbox := [r]\<rparr>, sc_tickets := tbl\<rparr>)"
    using command_type [of "ticket_payload ?e" os remote src] ticket_object_type [OF user_op_keys(1)] tbl(2) r(1)
    by (simp add: command_def p case_prod_unfold)
  moreover have "\<lparr>tk_token = token, tk_file = n, tk_user = u, tk_op = op, tk_expiry = ?x\<rparr> \<in> set (items tbl)"
    using arr.push_view [OF tbl(1) [unfolded ticket_table_add_def]] len assms(4) op(2) by simp
  ultimately show ?thesis using r(2) by (fastforce simp: ticket_matches_def)
qed

lemma sync_payload_request:
  assumes "length n < NM_MAX_NAME" and "length ow < NM_MAX_USER" and "length (ss_host p) < 64" and "length (ss_data_port p) < 16"
    and "plain_text token" and "length token < 64"
  shows "sync_payload n ow p token = Some (sync_request n ow (ss_host p) (ss_data_port p) token)"
proof -
  have len: "length (escape n) < NM_MAX_NAME * 2" "length (escape ow) < NM_MAX_USER * 2" "length (escape (ss_host p)) < 256"
    "length (escape (ss_data_port p)) < 64" "escape token = token"
    using length_escape [of n] length_escape [of ow] length_escape [of "ss_host p"] length_escape [of "ss_data_port p"] assms
    by (simp_all add: plain_text_def)
  have ty: "fmt_str ''type'' ''NM_SYNC'' = member_text (''type'', JStr ''NM_SYNC'')"
    by (rule fmt_plain) (simp add: plain_text_def escape_char_def)
  have obj: "braces [fmt_str ''type'' ''NM_SYNC'', fmt_str ''file'' (escape n), fmt_str ''owner'' (escape ow),
      fmt_str ''sourceHost'' (escape (ss_host p)), fmt_str ''sourcePort'' (escape (ss_data_port p)), fmt_str ''ticket'' (escape token)] =
      sync_request n ow (ss_host p) (ss_data_port p) token"
    unfolding ty fmt_member(1) sync_request_def braces_object [symmetric] by simp
  have "length (sync_request n ow (ss_host p) (ss_data_port p) token) < MAX_JSON"
    unfolding obj [symmetric] using len assms(6)
    by (simp add: MAX_JSON_def NM_MAX_NAME_def NM_MAX_USER_def braces_def fmt_str_def)
  then show ?thesis
    using len assms(6) unfolding sync_payload_def json_escape_string_eq by (simp add: obj [unfolded len(5)])
qed

text \<open>\<open>wired\<close>: the manager reaches the two servers and nothing runs out of memory.\<close>

definition wired :: "'g two_servers nm_os \<Rightarrow> os \<Rightarrow> os \<Rightarrow> ('g \<Rightarrow> nat \<times> 'g) \<Rightarrow> 'g two_servers nm_context \<Rightarrow> storage_server \<Rightarrow> storage_server \<Rightarrow> bool" where
  "wired os os1 os2 rnd ctx primary backup \<longleftrightarrow>
     no_rpc os = server_rpc os1 os2 (ss_ctrl_fd primary) \<and> no_rand os = on_servers rnd \<and>
     (\<forall>m. no_mem os m) \<and> (\<forall>m. mem_ok (os_env os1) m) \<and>
     server_up primary \<and> server_up backup \<and> ss_ctrl_fd primary \<noteq> ss_ctrl_fd backup \<and>
     find_server_peer ctx (ss_ctrl_fd primary) \<noteq> None \<and> find_server_peer ctx (ss_ctrl_fd backup) \<noteq> None"

lemma issue_at_primary:
  assumes "wired os os1 os2 rnd ctx ps bs" and "nc_world ctx = (g, src, dst)" and "plain_text n" "plain_text u"
    and "length n < NM_MAX_NAME" "length u < NM_MAX_USER" and "int_range (no_now os + TICKET_TTL)"
    and "op \<in> data_ops"
  shows "\<exists>token ctx1 g1 tbl t c. issue_ticket os ctx ps k n u op = (Some token, ctx1) \<and>
    nc_world ctx1 = (g1, src\<lparr>nm_conn := c, sc_tickets := tbl\<rparr>, dst) \<and> nc_state ctx1 = nc_state ctx \<and> nc_peers ctx1 = nc_peers ctx \<and> plain_text token \<and>
    length token < 64 \<and> t \<in> set (items tbl) \<and> ticket_matches token u n op t \<and> tk_expiry t = no_now os + TICKET_TTL"
proof -
  let ?c0 = "ticket_prune os ctx"
  obtain token g1 where tok: "randutil_token (no_rand os) 63 (g, src, dst) = (token, g1, src, dst)"
    using token_servers [of rnd 63 g "(src, dst)"] assms(1) unfolding wired_def by auto
  have token: "plain_text token" "length token < 64"
    using plain_token [of "no_rand os" 63 "(g, src, dst)"] length_token [of "no_rand os" 63 "(g, src, dst)"] by (simp_all add: tok)
  let ?e = "issued_entry os token n u op k"
  have mem: "mem_ok (os_env os1) m" "no_mem os m" for m using assms(1) by (simp_all add: wired_def)
  obtain r tbl t c where cmd: "command os1 (\<lambda>_ _ _. None) src (ticket_payload ?e) = (Some r, src\<lparr>nm_conn := c, sc_tickets := tbl\<rparr>)"
    "status_ok r" "t \<in> set (items tbl)" "ticket_matches token u n op t" "tk_expiry t = no_now os + TICKET_TTL"
    using ticket_at_primary [OF token(1) assms(3,4) token(2) assms(5-7), of os1 op "\<lambda>_ _ _. None" src k] mem(1) assms(8) by blast
  let ?c2 = "?c0\<lparr>nc_world := (g1, src, dst)\<rparr>"
  let ?c3 = "?c0\<lparr>nc_world := (g1, src\<lparr>nm_conn := c, sc_tickets := tbl\<rparr>, dst)\<rparr>"
  have "find_server_peer ?c2 (ss_ctrl_fd ps) \<noteq> None"
    using assms(1) by (simp add: wired_def find_server_peer_def ticket_prune_def)
  then have fwd: "forward_command os ?c2 ps (ticket_payload ?e) = (Some r, ?c3)"
    using assms(1) cmd(1) by (auto simp: forward_command_def server_rpc_def wired_def)
  have "\<exists>arr. array_push (no_mem os) (nc_tickets ?c3) ?e = Some arr" by (rule array_push_mem) (rule mem(2))
  then obtain arr where push: "array_push (no_mem os) (nc_tickets ?c3) ?e = Some arr" ..
  have short: "\<not> 512 \<le> length (ticket_payload ?e)"
    using ticket_payload_short [of ?e] token(2) assms(5-7) data_op(2) [OF assms(8)] by (simp add: issued_entry_def NM_MAX_NAME_def NM_MAX_USER_def)
  have w0: "nc_world ?c0 = (g, src, dst)" using assms(2) by (simp add: ticket_prune_def)
  have "issue_ticket os ctx ps k n u op = (Some token, ?c3\<lparr>nc_tickets := arr\<rparr>)"
    unfolding issue_ticket_def Let_def w0 tok prod.case issued_entry_def [symmetric] fwd
    using short cmd(2) push by simp
  then show ?thesis using cmd token by (auto simp: ticket_prune_def)
qed

text \<open>C3: A replica is a copy. The manager and two storage servers: the manager tells the primary of a file about a ticket
  and the backup to fetch the file with it; the backup fetches the text from the primary. For names that
  need no escaping, a document that fits into a message and a backup that can write its disk, the order succeeds, and the backup
  then has exactly the text of the primary on disk and its word and character counts in its table.\<close>

theorem replica_is_copy:
  assumes "wired os os1 os2 rnd ctx ps bs" and "nc_world ctx = (g, src, dst)"
    and "nm_get_server (nc_state ctx) p = Some ps" and "nm_get_server (nc_state ctx) b = Some bs"
    and "plain_text n" "plain_text ow" and "length n < NM_MAX_NAME" "length ow < NM_MAX_USER"
    and "length (ss_host ps) < 64" and "length (ss_data_port ps) < 16"
    and "int_range (no_now os + TICKET_TTL)" and "os_now os1 \<le> no_now os + TICKET_TTL"
    and "ctx_inv src" and "ss_lookup (sc_state src) n = Some f" and "plain_text (sf_name f)"
    and "readable_size f (file_text (os_env os1) (sc_disk src) f)"
    and "ctx_inv dst" and "sync_target os2 (dst\<lparr>nm_conn := fresh_conn\<rparr>) n ow = (Some h, dst1)" and "entry_paths h"
    and "wr_fault (os_env os2) (data_path h) = NoFault" and "wr_fault (os_env os2) (undo_path h) = NoFault"
  shows "\<exists>ctx' g' src' dst' e. replicate_file_to_backup os ctx n ow p b = (True, ctx') \<and> nc_world ctx' = (g', src', dst') \<and>
    sc_disk dst' (data_path h) = Some (file_text (os_env os1) (sc_disk src) f) \<and> ss_lookup (sc_state dst') n = Some e \<and>
    sf_word_count e = length (split_words (file_text (os_env os1) (sc_disk src) f)) \<and>
    sf_char_count e = length (file_text (os_env os1) (sc_disk src) f)"
proof -
  let ?text = "file_text (os_env os1) (sc_disk src) f"
  obtain token ctx1 g1 tbl t c where i: "issue_ticket os ctx ps p n ow ''READ'' = (Some token, ctx1)"
    "nc_world ctx1 = (g1, src\<lparr>nm_conn := c, sc_tickets := tbl\<rparr>, dst)" "nc_peers ctx1 = nc_peers ctx" "plain_text token"
    "length token < 64" "t \<in> set (items tbl)" "ticket_matches token ow n ''READ'' t" "tk_expiry t = no_now os + TICKET_TTL"
    using issue_at_primary [OF assms(1,2,5-8,11), of "''READ''" p] by (auto simp: data_ops_def)
  let ?src = "src\<lparr>nm_conn := c, sc_tickets := tbl\<rparr>" and ?dst = "dst\<lparr>nm_conn := fresh_conn\<rparr>"
  let ?req = "sync_request n ow (ss_host ps) (ss_data_port ps) token"
  have len: "length n < SS_NAME_MAX" "length ow < SS_USER_MAX"
    using assms(7,8) by (simp_all add: SS_NAME_MAX_def SS_USER_MAX_def NM_MAX_NAME_def NM_MAX_USER_def)
  have src: "ctx_inv ?src" "ss_lookup (sc_state ?src) n = Some f" "readable_size f (file_text (os_env os1) (sc_disk ?src) f)"
    "mem_ok (os_env os1) (elem_size (sc_tickets ?src))" "t \<in> set (items (sc_tickets ?src))" "ctx_inv ?dst"
    using assms(1,13,14,16,17) i(6) by (simp_all add: wired_def)
  have fresh: "\<not> ticket_expired (os_now os1) t" using assms(12) i(8) by (simp add: ticket_expired_def)
  obtain dst2 e where cp: "handle_nm_sync os2 (serve os1 ?src) ?dst ?req = nm_ok dst2 (fmt_str ''op'' ''SYNC'')"
    "sc_disk dst2 (data_path h) = Some ?text" "ss_lookup (sc_state dst2) n = Some e" "sf_word_count e = length (split_words ?text)"
    "sf_char_count e = length ?text" "nm_conn dst2 = fresh_conn"
    using sync_copies [OF src(1,2) assms(15) src(3) len assms(9,10) i(5) src(4,5) i(7) fresh src(6) assms(18-21)] by auto
  obtain r where r: "snd (nm_ok dst2 (fmt_str ''op'' ''SYNC'')) = dst2\<lparr>nm_conn := fresh_conn\<lparr>outbox := [r]\<rparr>\<rparr>" "status_ok r"
    using ok_reply [OF cp(6)] by blast
  let ?dst' = "dst2\<lparr>nm_conn := fresh_conn\<lparr>outbox := [r]\<rparr>\<rparr>"
  have "command os2 (serve os1 ?src) dst ?req = (Some r, ?dst')"
    using command_sync [OF sync_request_type, where os = os2 and remote = "serve os1 ?src" and ctx = dst] cp(1) r(1) by (simp add: command_def case_prod_unfold)
  moreover have "find_server_peer ctx1 (ss_ctrl_fd bs) \<noteq> None" using assms(1) i(3) by (simp add: wired_def find_server_peer_def)
  ultimately have fwd: "forward_command os ctx1 bs ?req = (Some r, ctx1\<lparr>nc_world := (g1, ?src, ?dst')\<rparr>)"
    using assms(1) i(2) by (auto simp: forward_command_def server_rpc_def wired_def)
  have "0 \<le> p" "0 \<le> b" "p \<noteq> b" "server_is_available (Some ps)" "server_is_available (Some bs)"
    using assms(1,3,4) by (auto simp: wired_def nm_get_server_def server_is_available_def server_up_def split: if_splits)
  then have "replicate_file_to_backup os ctx n ow p b = (True, ctx1\<lparr>nc_world := (g1, ?src, ?dst')\<rparr>)"
    using assms(3,4) i(1) fwd r(2) sync_payload_request [OF assms(7-10) i(4,5)] by (simp add: replicate_file_to_backup_def)
  then show ?thesis using cp(2-5) by fastforce
qed

text \<open>The document of \<open>demo_ctx\<close> is copied to a server that has lost its files.\<close>

definition pair_os :: "nat two_servers nm_os" where
  "pair_os = \<lparr>no_now = 50, no_mem = (\<lambda>_. True), no_save = (\<lambda>_. SaveOk), no_rand = on_servers (\<lambda>g. (g, Suc g)),
     no_rpc = server_rpc demo_os demo_os 5, no_fetch = (\<lambda>host port payload w. (None, w)),
     no_shell = (\<lambda>script w. (None, w)), no_junk = []\<rparr>"

definition pair_ctx :: "nat two_servers nm_context" where
  "pair_ctx = \<lparr>nc_peers = demo_peers, nc_state = demo_servers, nc_tickets = array_init 8, nc_users = array_init 8,
     nc_queue = array_init 8, nc_disk = Map.empty, nc_world = (0, demo_ctx, demo_ctx\<lparr>sc_disk := Map.empty\<rparr>)\<rparr>"

theorem replica_is_copy_witness:
  "\<exists>ctx' g' src' dst'. replicate_file_to_backup pair_os pair_ctx ''f'' ''ann'' 0 2 = (True, ctx') \<and> nc_world ctx' = (g', src', dst') \<and>
     sc_disk dst' ''files/f'' = Some ''A. B. C.''"
proof -
  let ?ps = "registered ''ss1'' ''host1'' ''9001'' ''9101'' 5" and ?bs = "registered ''ss3'' ''host3'' ''9003'' ''9103'' 7"
  let ?dst = "demo_ctx\<lparr>sc_disk := Map.empty\<rparr>"
  have w: "wired pair_os demo_os demo_os (\<lambda>g. (g, Suc g)) pair_ctx ?ps ?bs"
    by (simp add: wired_def pair_os_def pair_ctx_def demo_os_def good_env_def registered_def server_up_def find_server_peer_def demo_peers_def)
  have world: "nc_world pair_ctx = (0, demo_ctx, ?dst)" by (simp add: pair_ctx_def)
  have sv: "nm_get_server (nc_state pair_ctx) 0 = Some ?ps" "nm_get_server (nc_state pair_ctx) 2 = Some ?bs"
    by (simp_all add: pair_ctx_def nm_get_server_def demo_servers_def)
  have e: "os_env demo_os = good_env" "sc_disk demo_ctx = demo_disk" by (simp_all add: demo_os_def demo_ctx_def)
  have f: "sf_name demo_file = ''f''" "sf_word_count demo_file = 3" "sf_char_count demo_file = 8"
    "data_path demo_file = ''files/f''" by (simp_all add: demo_file_def)
  have p: "plain_text ''f''" "plain_text ''ann''" by (simp_all add: plain_text_def escape_char_def)
  have r: "readable_size demo_file (file_text (os_env demo_os) (sc_disk demo_ctx) demo_file)"
    by (simp add: e demo_text readable_size_def f escape_char_def ULLONG_MAX_def)
  have good: "wr_fault good_env q = NoFault" for q by (simp add: good_env_def)
  have inv: "ctx_inv ?dst" "ctx_inv (?dst\<lparr>nm_conn := fresh_conn\<rparr>)" using demo_inv by simp_all
  have tgt: "sync_target demo_os (?dst\<lparr>nm_conn := fresh_conn\<rparr>) ''f'' ''ann'' = (Some demo_file, ?dst\<lparr>nm_conn := fresh_conn\<rparr>)"
    using snapshot_lookup [OF inv(2), of "''f''"] demo_lookup by (simp add: sync_target_def)
  have t: "no_now pair_os + TICKET_TTL = 80" "os_now demo_os \<le> 80" by (simp_all add: pair_os_def TICKET_TTL_def demo_os_def)
  from replica_is_copy [OF w world sv p _ _ _ _ _ _ demo_inv demo_lookup _ r inv(1) tgt demo_entry_paths] show ?thesis
    using p(1) t by (auto simp: e demo_text f good NM_MAX_NAME_def NM_MAX_USER_def registered_def int_range_def INT_MIN_def INT_MAX_def)
qed

end
