(* ===== verification/Client_Input.thy ===== *)
theory Client_Input
  imports C_Lib Runs
begin

text \<open>
  The line editor of the client, \<^verbatim>\<open>client/cli_input.c\<close>, on a terminal: the history of commands and
  the editing of a line key by key. The output to the terminal is in \<open>Client_Screen\<close>. A key is a byte that
  \<^verbatim>\<open>read\<close> returns; an escape byte comes with what the second \<^verbatim>\<open>read\<close> of two bytes returns.
\<close>

section \<open>History\<close>

definition CLI_HISTORY_MAX :: nat where "CLI_HISTORY_MAX = 128"

definition cli_input_remember :: "string \<Rightarrow> string list \<Rightarrow> string list" where
  "cli_input_remember line history =
     (if line = [] then history
      else (if length history = CLI_HISTORY_MAX then tl history else history) @ [line])"

definition load_history_entry :: "string list \<Rightarrow> nat \<Rightarrow> nat \<Rightarrow> string" where
  "load_history_entry history index buf_size = (if length history \<le> index then [] else buf buf_size (history ! index))"

section \<open>Editing\<close>

datatype key = Byte char | Escape string

record editor =
  ed_buf :: string
  ed_scratch :: "string option"
  ed_index :: nat

datatype edited = More editor | Line string | EndOfInput

definition is_print :: "char \<Rightarrow> bool" where
  "is_print c \<longleftrightarrow> SPACE \<le> c \<and> c \<le> CHR 0x7E"

definition key_up :: "string list \<Rightarrow> nat \<Rightarrow> editor \<Rightarrow> editor" where
  "key_up history buf_size e =
     (if 0 < ed_index e then
        e\<lparr>ed_scratch := (case ed_scratch e of None \<Rightarrow> Some (ed_buf e) | Some s \<Rightarrow> Some s),
          ed_index := ed_index e - 1, ed_buf := load_history_entry history (ed_index e - 1) buf_size\<rparr>
      else e)"

definition key_down :: "string list \<Rightarrow> nat \<Rightarrow> editor \<Rightarrow> editor" where
  "key_down history buf_size e =
     (if ed_index e < length history then
        e\<lparr>ed_index := ed_index e + 1,
          ed_buf := (if ed_index e + 1 = length history then (case ed_scratch e of None \<Rightarrow> [] | Some s \<Rightarrow> s)
                     else load_history_entry history (ed_index e + 1) buf_size)\<rparr>
      else e)"

definition edit_key :: "string list \<Rightarrow> nat \<Rightarrow> key \<Rightarrow> editor \<Rightarrow> edited" where
  "edit_key history buf_size k e =
     (case k of
        Escape seq \<Rightarrow>
          More (if seq = ''[A'' then key_up history buf_size e
                else if seq = ''[B'' then key_down history buf_size e else e)
      | Byte ch \<Rightarrow>
          if ch = NEWLINE \<or> ch = RETURN then
            Line (if length (ed_buf e) + 1 < buf_size then ed_buf e @ [NEWLINE] else ed_buf e)
          else if ch = CHR 0x04 then (if ed_buf e = [] then EndOfInput else More e)
          else if ch = CHR 0x7F \<or> ch = CHR 0x08 then
            More (if ed_buf e \<noteq> [] then e\<lparr>ed_buf := butlast (ed_buf e)\<rparr> else e)
          else if is_print ch \<and> length (ed_buf e) + 1 < buf_size then More (e\<lparr>ed_buf := ed_buf e @ [ch]\<rparr>)
          else More e)"

fun read_keys :: "string list \<Rightarrow> nat \<Rightarrow> key list \<Rightarrow> editor \<Rightarrow> string option \<times> key list" where
  "read_keys history buf_size [] e = (None, [])"
| "read_keys history buf_size (k # ks) e =
     (case edit_key history buf_size k e of
        More e' \<Rightarrow> read_keys history buf_size ks e'
      | Line l \<Rightarrow> (Some l, ks)
      | EndOfInput \<Rightarrow> (None, ks))"

definition new_line :: "string list \<Rightarrow> editor" where
  "new_line history = \<lparr>ed_buf = [], ed_scratch = None, ed_index = length history\<rparr>"

definition cli_input_readline :: "string list \<Rightarrow> nat \<Rightarrow> key list \<Rightarrow> string option \<times> key list" where
  "cli_input_readline history buf_size ks = read_keys history buf_size ks (new_line history)"

section \<open>The history keeps the last commands\<close>

lemma remember_length: "length history \<le> CLI_HISTORY_MAX \<Longrightarrow> length (cli_input_remember line history) \<le> CLI_HISTORY_MAX"
  by (auto simp: cli_input_remember_def CLI_HISTORY_MAX_def)

lemma remember_last:
  "fold cli_input_remember lines [] = (let ls = filter (\<lambda>l. l \<noteq> []) lines in drop (length ls - CLI_HISTORY_MAX) ls)"
proof (induction lines rule: rev_induct)
  case (snoc l lines)
  let ?ls = "filter (\<lambda>l. l \<noteq> []) lines"
  have "tl (drop (length ?ls - CLI_HISTORY_MAX) ?ls) = drop (Suc (length ?ls) - CLI_HISTORY_MAX) ?ls"
    if "CLI_HISTORY_MAX \<le> length ?ls" using that by (simp add: Suc_diff_le tl_drop drop_Suc)
  moreover have "Suc 0 - CLI_HISTORY_MAX = 0" by (simp add: CLI_HISTORY_MAX_def)
  ultimately show ?case using snoc by (auto simp: Let_def cli_input_remember_def)
qed simp

section \<open>Invariant of the editor\<close>

definition editor_ok :: "string list \<Rightarrow> nat \<Rightarrow> editor \<Rightarrow> bool" where
  "editor_ok history buf_size e \<longleftrightarrow>
     length (ed_buf e) < buf_size \<and> ed_index e \<le> length history \<and>
     (case ed_scratch e of None \<Rightarrow> True | Some s \<Rightarrow> length s < buf_size)"

lemma load_short: "0 < n \<Longrightarrow> length (load_history_entry history i n) < n"
  by (simp add: load_history_entry_def length_buf)

lemma edit_key_More:
  assumes "edit_key history n k e = More e'"
  obtains "e' = e" | "e' = key_up history n e" | "e' = key_down history n e" | "e' = e\<lparr>ed_buf := butlast (ed_buf e)\<rparr>"
    | c where "e' = e\<lparr>ed_buf := ed_buf e @ [c]\<rparr>" "length (ed_buf e) + 1 < n"
proof (cases k)
  case (Byte c)
  show ?thesis
  proof (cases "c = NEWLINE \<or> c = RETURN \<or> c = CHR 0x04")
    case True
    then show ?thesis using assms that(1) Byte by (auto simp: edit_key_def split: if_splits)
  next
    case False
    show ?thesis
    proof (cases "c = CHR 0x7F \<or> c = CHR 0x08")
      case True
      then show ?thesis using False assms that(1,4) Byte by (auto simp: edit_key_def split: if_splits)
    next
      case no: False
      show ?thesis
        using False no assms that(1,5) Byte by (cases "is_print c \<and> length (ed_buf e) + 1 < n") (auto simp: edit_key_def)
    qed
  qed
next
  case (Escape s)
  then show ?thesis using assms that(1-3) by (cases "s = ''[A''"; cases "s = ''[B''") (simp_all add: edit_key_def)
qed

lemma edit_key_ok:
  assumes "editor_ok history n e" and "edit_key history n k e = More e'"
  shows "editor_ok history n e'"
proof -
  have n: "0 < n" using assms(1) by (auto simp: editor_ok_def)
  have up: "editor_ok history n (key_up history n e)"
    using assms(1) load_short [OF n] by (auto simp: editor_ok_def key_up_def split: option.split)
  have down: "editor_ok history n (key_down history n e)"
    using assms(1) load_short [OF n] by (auto simp: editor_ok_def key_down_def split: option.split)
  show ?thesis
    using assms(2) by (cases rule: edit_key_More) (use assms(1) up down in \<open>auto simp: editor_ok_def\<close>)
qed

lemma typed_text:
  assumes "list_all is_print t" and "length (ed_buf e) + length t < n"
  shows "read_keys h n (map Byte t @ ks) e = read_keys h n ks (e\<lparr>ed_buf := ed_buf e @ t\<rparr>)"
  using assms
proof (induction t arbitrary: e)
  case (Cons c t)
  then have c: "is_print c" "c \<noteq> NEWLINE" "c \<noteq> RETURN" "c \<noteq> CHR 0x04" "c \<noteq> CHR 0x7F" "c \<noteq> CHR 0x08"
    by (auto simp: is_print_def less_eq_char_def)
  with Cons show ?case by (simp add: edit_key_def)
qed simp

text \<open>Going up and down.\<close>

lemma ups:
  assumes "k \<le> ed_index e" and "ed_index e \<le> length h" and "0 < k"
  shows "(key_up h n ^^ k) e = e\<lparr>ed_buf := load_history_entry h (ed_index e - k) n, ed_index := ed_index e - k,
    ed_scratch := (case ed_scratch e of None \<Rightarrow> Some (ed_buf e) | Some s \<Rightarrow> Some s)\<rparr>"
  using assms
proof (induction k)
  case (Suc k)
  show ?case
  proof (cases "k = 0")
    case True
    then show ?thesis using Suc.prems by (simp add: key_up_def)
  next
    case False
    then show ?thesis using Suc by (simp add: key_up_def split: option.split)
  qed
qed simp

lemma downs:
  assumes "ed_index e + k = length h" and "0 < k" and "ed_scratch e = Some s"
  shows "(key_down h n ^^ k) e = e\<lparr>ed_buf := s, ed_index := length h\<rparr>"
  using assms
proof (induction k arbitrary: e)
  case (Suc k)
  show ?case
  proof (cases "k = 0")
    case True
    then show ?thesis using Suc.prems by (simp add: key_down_def)
  next
    case False
    have "(key_down h n ^^ k) (key_down h n e) = key_down h n e\<lparr>ed_buf := s, ed_index := length h\<rparr>"
      by (rule Suc.IH) (use Suc.prems False in \<open>simp_all add: key_down_def\<close>)
    moreover have "key_down h n e\<lparr>ed_buf := s, ed_index := length h\<rparr> = e\<lparr>ed_buf := s, ed_index := length h\<rparr>"
      using Suc.prems by (simp add: key_down_def)
    ultimately show ?thesis by (simp add: funpow_Suc_right del: funpow.simps)
  qed
qed simp

lemma read_ups: "read_keys h n (replicate k (Escape ''[A'') @ ks) e = read_keys h n ks ((key_up h n ^^ k) e)"
  by (induction k arbitrary: e) (simp_all add: edit_key_def funpow_swap1)

lemma read_downs: "read_keys h n (replicate k (Escape ''[B'') @ ks) e = read_keys h n ks ((key_down h n ^^ k) e)"
  by (induction k arbitrary: e) (simp_all add: edit_key_def funpow_swap1)

section \<open>Properties\<close>

lemma line_short:
  assumes "0 < n" and "cli_input_readline h n ks = (Some l, rest)"
  shows "length l < n"
proof -
  have "length l < n" if "editor_ok h n e" "read_keys h n ks e = (Some l, rest)" for e
    using that
  proof (induction ks arbitrary: e)
    case (Cons x xs)
    show ?case
    proof (cases "edit_key h n x e")
      case (More e')
      then show ?thesis using Cons.IH [OF edit_key_ok [OF Cons.prems(1) More]] Cons.prems(2) by simp
    next
      case (Line l')
      then have "length l' < n"
        using Cons.prems(1) by (auto simp: edit_key_def editor_ok_def split: key.splits if_splits)
      then show ?thesis using Line Cons.prems(2) by simp
    qed (use Cons.prems(2) in simp)
  qed simp
  moreover have "editor_ok h n (new_line h)" using assms(1) by (simp add: editor_ok_def new_line_def)
  ultimately show ?thesis using assms(2) by (simp add: cli_input_readline_def)
qed

text \<open>What is typed is what is read, and browsing the history does not lose it. On a new line, a text of
  printable characters, \<open>k\<close> steps up in the history and \<open>k\<close> steps down, more text and the return key
  give exactly the two texts, if they fit into the buffer.\<close>

theorem browsing_keeps_draft:
  assumes "list_all is_print t" and "list_all is_print u" and "length t + length u + 1 < n" and "k \<le> length h"
  shows "cli_input_readline h n
      (map Byte t @ replicate k (Escape ''[A'') @ replicate k (Escape ''[B'') @ map Byte u @ Byte NEWLINE # later) =
    (Some (t @ u @ [NEWLINE]), later)"
proof -
  let ?e = "new_line h\<lparr>ed_buf := t\<rparr>"
  have "\<exists>e'. (key_down h n ^^ k) ((key_up h n ^^ k) ?e) = e' \<and> ed_buf e' = t"
  proof (cases "k = 0")
    case False
    then have "(key_up h n ^^ k) ?e = ?e\<lparr>ed_buf := load_history_entry h (length h - k) n, ed_index := length h - k, ed_scratch := Some t\<rparr>"
      using ups [of k ?e h n] assms(4) by (simp add: new_line_def)
    then show ?thesis using downs [of _ k h t n] assms(4) False by (simp add: new_line_def)
  qed simp
  then obtain e' where e': "(key_down h n ^^ k) ((key_up h n ^^ k) ?e) = e'" "ed_buf e' = t" by blast
  have "read_keys h n (map Byte u @ Byte NEWLINE # later) e' = (Some (t @ u @ [NEWLINE]), later)"
    using typed_text [OF assms(2), of e' n h "Byte NEWLINE # later"] assms(3) e'(2) by (simp add: edit_key_def)
  then show ?thesis
    using typed_text [OF assms(1), of "new_line h" n h] assms(3) e'(1)
    by (simp add: cli_input_readline_def read_ups read_downs new_line_def)
qed

theorem browsing_keeps_draft_witness:
  "cli_input_readline [''READ a'', ''LIST''] 512
     (map Byte ''RE'' @ replicate 2 (Escape ''[A'') @ replicate 2 (Escape ''[B'') @ map Byte ''AD b'' @ [Byte NEWLINE]) =
   (Some (''READ b'' @ [NEWLINE]), [])"
proof -
  have p: "list_all is_print ''RE''" "list_all is_print ''AD b''" by code_simp+
  from browsing_keeps_draft [OF p, of 512 2 "[''READ a'', ''LIST'']" "[]"] show ?thesis by simp
qed

text \<open>
  The copy of the draft is taken once: after the second visit to the history an older draft comes back.
\<close>

theorem second_draft_lost:
  "cli_input_readline [''LIST''] 16
     [Byte (CHR ''a''), Escape ''[A'', Escape ''[B'', Byte (CHR ''b''), Escape ''[A'', Escape ''[B'', Byte NEWLINE] =
   (Some [CHR ''a'', NEWLINE], [])"
  by code_simp

end
