(* ===== verification/Client_Calls.thy ===== *)
theory Client_Calls
  imports NM_Dispatch
begin

text \<open>
  The client's requests, the first part of \<^verbatim>\<open>client/cli_main.c\<close>. What a command prints is a list of
  outputs; standard input is a text that is consumed. The programs at the other end are parameters:
  \<open>ce_nm_connect\<close> connects to the name manager, \<open>ce_local_ip\<close> is the local address of that connection and
  \<open>ce_call\<close> sends a payload over it and gives the answer, \<open>None\<close> when sending or receiving fails;
  \<open>ce_connect\<close> connects to a storage server and \<open>ce_ss_call\<close> is a request on that connection;
  \<open>ce_ss_stream\<close> sends a payload and gives the messages that arrive until receiving fails. They may
  depend on everything before through the world.
\<close>

datatype printed = Out string | Err string | Perror string

record 'w cli_env =
  ce_nm_connect :: "string \<Rightarrow> string \<Rightarrow> 'w \<Rightarrow> bool \<times> 'w"
  ce_local_ip :: "'w \<Rightarrow> string option"
  ce_call :: "string \<Rightarrow> 'w \<Rightarrow> string option \<times> 'w"
  ce_connect :: "string \<Rightarrow> string \<Rightarrow> 'w \<Rightarrow> bool \<times> 'w"
  ce_ss_call :: "string \<Rightarrow> 'w \<Rightarrow> string option \<times> 'w"
  ce_ss_stream :: "string \<Rightarrow> 'w \<Rightarrow> string list option \<times> 'w"

text \<open>A command prints, returns 0 or not, and changes the world.\<close>

type_synonym 'w outcome = "printed list \<times> bool \<times> 'w"

abbreviation endl :: string where "endl \<equiv> [NEWLINE]"

section \<open>Text\<close>

definition trim_newline :: "string \<Rightarrow> string" where
  "trim_newline s = rev (dropWhile (\<lambda>c. c = NEWLINE \<or> c = RETURN) (rev s))"

definition trim_white :: "string \<Rightarrow> string" where
  "trim_white s = rev (dropWhile is_space (rev (dropWhile is_space s)))"

text \<open>\<^verbatim>\<open>strtok_r\<close>: the next token and what is left, \<open>None\<close> when only separators are left.\<close>

definition strtok :: "string \<Rightarrow> string \<Rightarrow> string option \<times> string" where
  "strtok seps s =
     (let t = dropWhile (\<lambda>c. c \<in> set seps) s in
      if t = [] then (None, [])
      else (Some (takeWhile (\<lambda>c. c \<notin> set seps) t), drop 1 (dropWhile (\<lambda>c. c \<notin> set seps) t)))"

definition to_upper :: "char \<Rightarrow> char" where
  "to_upper c = (if CHR ''a'' \<le> c \<and> c \<le> CHR ''z'' then char_of ((of_char c :: nat) - 32) else c)"

text \<open>Whether \<^verbatim>\<open>strtol\<close> sets \<^verbatim>\<open>errno\<close> to \<^verbatim>\<open>ERANGE\<close>.\<close>

definition range_error :: "string \<Rightarrow> bool" where
  "range_error s =
     (let t = dropWhile is_space s in
      case t of
        [] \<Rightarrow> False
      | c # cs \<Rightarrow>
          if c = CHR ''-'' then - int (read_digits 0 cs) < LONG_MIN
          else LONG_MAX < int (read_digits 0 (if c = CHR ''+'' then cs else t)))"

section \<open>Requests\<close>

definition field_or :: "string \<Rightarrow> string \<Rightarrow> nat \<Rightarrow> string \<Rightarrow> string" where
  "field_or json key n otherwise = (case json_get_string json key n of None \<Rightarrow> otherwise | Some v \<Rightarrow> v)"

definition int_or :: "string \<Rightarrow> string \<Rightarrow> int \<Rightarrow> int" where
  "int_or json key otherwise = (case json_get_int json key of None \<Rightarrow> otherwise | Some v \<Rightarrow> v)"

definition print_error_response :: "string \<Rightarrow> printed list" where
  "print_error_response response =
     (case json_get_string response ''status'' 16 of
        None \<Rightarrow> [Err (''Error: unexpected response '' @ response @ endl)]
      | Some status \<Rightarrow>
          let message = field_or response ''message'' 256 []; code = field_or response ''code'' 32 [] in
          if code \<noteq> [] then [Err (status @ '' ('' @ code @ ''): '' @ message @ endl)]
          else [Err (status @ '': '' @ message @ endl)])"

definition nm_call :: "'w cli_env \<Rightarrow> string \<Rightarrow> string \<Rightarrow> 'w \<Rightarrow> string option \<times> 'w" where
  "nm_call env type body w =
     (let payload = braces (if body \<noteq> [] then [fmt_str ''type'' type, body] else [fmt_str ''type'' type]) in
      if MAX_JSON \<le> length body \<or> MAX_JSON \<le> length payload then (None, w) else ce_call env payload w)"

text \<open>The request, and the reply when its status is \<^verbatim>\<open>OK\<close> or else what is printed.\<close>

definition nm_request :: "'w cli_env \<Rightarrow> string \<Rightarrow> string \<Rightarrow> 'w \<Rightarrow> (printed list + string) \<times> 'w" where
  "nm_request env type body w =
     (case nm_call env type body w of
        (None, w1) \<Rightarrow> (Inl [Err (''Failed to contact NM'' @ endl)], w1)
      | (Some response, w1) \<Rightarrow>
          if status_ok response then (Inr response, w1) else (Inl (print_error_response response), w1))"

text \<open>A request whose success prints one text.\<close>

definition nm_simple :: "'w cli_env \<Rightarrow> string \<Rightarrow> string \<Rightarrow> string \<Rightarrow> 'w \<Rightarrow> 'w outcome" where
  "nm_simple env type body success w =
     (case nm_request env type body w of
        (Inl out, w1) \<Rightarrow> (out, False, w1)
      | (Inr response, w1) \<Rightarrow> ([Out (success @ endl)], True, w1))"

definition file_body :: "string \<Rightarrow> string" where
  "file_body file = fmt_str ''file'' (escape file)"

definition handle_create_cmd :: "'w cli_env \<Rightarrow> string \<Rightarrow> 'w \<Rightarrow> 'w outcome" where
  "handle_create_cmd env file = nm_simple env ''CREATE'' (file_body file) (''Created '' @ file)"

definition handle_delete_cmd :: "'w cli_env \<Rightarrow> string \<Rightarrow> 'w \<Rightarrow> 'w outcome" where
  "handle_delete_cmd env file = nm_simple env ''DELETE'' (file_body file) (''Deleted '' @ file @ ''.'')"

definition handle_addaccess_cmd :: "'w cli_env \<Rightarrow> string \<Rightarrow> string \<Rightarrow> bool \<Rightarrow> 'w \<Rightarrow> 'w outcome" where
  "handle_addaccess_cmd env file user write_perm =
     nm_simple env ''ADDACCESS''
       (commas [file_body file, fmt_str ''user'' (escape user), fmt_str ''mode'' (if write_perm then ''RW'' else ''R'')])
       ''Access granted.''"

definition handle_remaccess_cmd :: "'w cli_env \<Rightarrow> string \<Rightarrow> string \<Rightarrow> 'w \<Rightarrow> 'w outcome" where
  "handle_remaccess_cmd env file user =
     nm_simple env ''REMACCESS'' (commas [file_body file, fmt_str ''user'' (escape user)]) ''Access removed.''"

definition handle_reqaccess_cmd :: "'w cli_env \<Rightarrow> string \<Rightarrow> bool \<Rightarrow> 'w \<Rightarrow> 'w outcome" where
  "handle_reqaccess_cmd env file write_perm =
     nm_simple env ''REQACCESS'' (commas [file_body file, fmt_str ''mode'' (if write_perm then ''W'' else ''R'')])
       ''Access request submitted.''"

definition handle_handlereq_cmd :: "'w cli_env \<Rightarrow> string \<Rightarrow> string \<Rightarrow> string \<Rightarrow> 'w \<Rightarrow> 'w outcome" where
  "handle_handlereq_cmd env file user action =
     nm_simple env ''HANDLEREQ''
       (commas [file_body file, fmt_str ''user'' (escape user), fmt_str ''action'' (escape action)]) ''Request handled.''"

definition handle_undo_cmd :: "'w cli_env \<Rightarrow> string \<Rightarrow> 'w \<Rightarrow> 'w outcome" where
  "handle_undo_cmd env file = nm_simple env ''UNDO'' (file_body file) ''Undo successful.''"

definition handle_exec_cmd :: "'w cli_env \<Rightarrow> string \<Rightarrow> 'w \<Rightarrow> 'w outcome" where
  "handle_exec_cmd env file w =
     (case nm_request env ''EXEC'' (file_body file) w of
        (Inl out, w1) \<Rightarrow> (out, False, w1)
      | (Inr response, w1) \<Rightarrow>
          ([Out (case json_get_string_alloc response ''output'' of None \<Rightarrow> ''EXEC succeeded.'' @ endl | Some s \<Rightarrow> s @ endl)], True, w1))"

definition handle_exit_cmd :: "'w cli_env \<Rightarrow> 'w \<Rightarrow> 'w outcome" where
  "handle_exit_cmd env w =
     (case nm_request env ''CLIENT_EXIT'' [] w of (Inl out, w1) \<Rightarrow> (out, False, w1) | (Inr response, w1) \<Rightarrow> ([], True, w1))"

section \<open>Checkpoints\<close>

text \<open>The fields are escaped into buffers of 256 bytes; \<^verbatim>\<open>CHECKPOINT\<close> does not send the user.\<close>

definition tag_body :: "string \<Rightarrow> string \<Rightarrow> string option \<Rightarrow> string option" where
  "tag_body file tag user =
     (case (json_escape_string 256 file, json_escape_string 256 tag) of
        (Some f, Some t) \<Rightarrow>
          (case user of
             None \<Rightarrow> Some (commas [fmt_str ''file'' f, fmt_str ''tag'' t])
           | Some u \<Rightarrow>
               map_option (\<lambda>ue. commas [fmt_str ''file'' f, fmt_str ''tag'' t, fmt_str ''user'' ue]) (json_escape_string 256 u))
      | _ \<Rightarrow> None)"

abbreviation encoding_error :: "'w \<Rightarrow> 'w outcome" where
  "encoding_error w \<equiv> ([Err (''Encoding error'' @ endl)], False, w)"

definition handle_checkpoint_cmd :: "'w cli_env \<Rightarrow> string \<Rightarrow> string \<Rightarrow> 'w \<Rightarrow> 'w outcome" where
  "handle_checkpoint_cmd env file tag w =
     (case tag_body file tag None of
        None \<Rightarrow> encoding_error w
      | Some body \<Rightarrow> nm_simple env ''CHECKPOINT'' body (''Checkpoint '' @ CHR 0x27 # tag @ CHR 0x27 # '' saved for '' @ file @ ''.'') w)"

definition handle_viewcheckpoint_cmd :: "'w cli_env \<Rightarrow> string \<Rightarrow> string \<Rightarrow> string \<Rightarrow> 'w \<Rightarrow> 'w outcome" where
  "handle_viewcheckpoint_cmd env username file tag w =
     (case tag_body file tag (Some username) of
        None \<Rightarrow> encoding_error w
      | Some body \<Rightarrow>
          (case nm_request env ''VIEWCHECKPOINT'' body w of
             (Inl out, w1) \<Rightarrow> (out, False, w1)
           | (Inr response, w1) \<Rightarrow>
               (case json_get_string_alloc response ''content'' of
                  None \<Rightarrow> ([Err (''Missing checkpoint content'' @ endl)], False, w1)
                | Some content \<Rightarrow>
                    ([Out (''--- checkpoint '' @ file @ ''/'' @ tag @ '' ---'' @ endl @ content @ endl @
                           ''-----------------------'' @ endl)], True, w1))))"

definition handle_revert_cmd :: "'w cli_env \<Rightarrow> string \<Rightarrow> string \<Rightarrow> string \<Rightarrow> 'w \<Rightarrow> 'w outcome" where
  "handle_revert_cmd env username file tag w =
     (case tag_body file tag (Some username) of
        None \<Rightarrow> encoding_error w
      | Some body \<Rightarrow> nm_simple env ''REVERT'' body (''Reverted '' @ file @ '' to checkpoint '' @ CHR 0x27 # tag @ CHR 0x27 # ''.'') w)"

end
