(* ===== verification/Client_Session.thy ===== *)
theory Client_Session
  imports Client_Calls
begin

text \<open>
  The client at a storage server, \<^verbatim>\<open>client/cli_main.c\<close>: reading, streaming and the interactive write
  session, and the commands that ask the name manager for the server first.
\<close>

section \<open>Reading\<close>

definition data_fields :: "string \<Rightarrow> string \<Rightarrow> string \<Rightarrow> string \<Rightarrow> string list" where
  "data_fields type file user ticket =
     [fmt_str ''type'' type, fmt_str ''file'' (escape file), fmt_str ''user'' (escape user), fmt_str ''ticket'' (escape ticket)]"

definition ss_read :: "'w cli_env \<Rightarrow> string \<Rightarrow> string \<Rightarrow> string \<Rightarrow> string \<Rightarrow> string \<Rightarrow> 'w \<Rightarrow> 'w outcome" where
  "ss_read env host port file user ticket w =
     (case ce_connect env host port w of
        (False, w1) \<Rightarrow> ([Perror ''connect storage''], False, w1)
      | (True, w1) \<Rightarrow>
          let payload = braces (data_fields ''READ'' file user ticket) in
          if MAX_JSON \<le> length payload then ([Err (''Payload too large'' @ endl)], False, w1)
          else
            (case ce_ss_call env payload w1 of
               (None, w2) \<Rightarrow> ([Err (''READ failed'' @ endl)], False, w2)
             | (Some response, w2) \<Rightarrow>
                 if \<not> status_ok response then (print_error_response response, False, w2)
                 else
                   (case json_get_string_alloc response ''content'' of
                      None \<Rightarrow> ([Err (''Missing content'' @ endl)], False, w2)
                    | Some content \<Rightarrow>
                        ([Out (''--- '' @ file @ '' ---'' @ endl @ content @ endl @ ''-----------'' @ endl)], True, w2))))"

section \<open>Streaming\<close>

text \<open>The messages that follow the handshake.\<close>

fun stream_messages :: "string list \<Rightarrow> printed list \<times> bool" where
  "stream_messages [] = ([Err (''Stream interrupted'' @ endl)], False)"
| "stream_messages (chunk # chunks) =
     (case json_get_string chunk ''status'' 16 of
        None \<Rightarrow> stream_messages chunks
      | Some status \<Rightarrow>
          if status = ''DATA'' then
            (case json_get_string chunk ''word'' 256 of
               None \<Rightarrow> stream_messages chunks
             | Some word \<Rightarrow> (case stream_messages chunks of (out, b) \<Rightarrow> (Out (word @ '' '') # out, b)))
          else if status = ''DONE'' then ([Out endl], True)
          else (print_error_response chunk @ [Out endl], True))"

definition ss_stream :: "'w cli_env \<Rightarrow> string \<Rightarrow> string \<Rightarrow> string \<Rightarrow> string \<Rightarrow> string \<Rightarrow> 'w \<Rightarrow> 'w outcome" where
  "ss_stream env host port file user ticket w =
     (case ce_connect env host port w of
        (False, w1) \<Rightarrow> ([Perror ''connect storage''], False, w1)
      | (True, w1) \<Rightarrow>
          let payload = braces (data_fields ''STREAM'' file user ticket) in
          if MAX_JSON \<le> length payload then ([Err (''Payload too large'' @ endl)], False, w1)
          else
            (case ce_ss_stream env payload w1 of
               (None, w2) \<Rightarrow> ([Err (''STREAM start failed'' @ endl)], False, w2)
             | (Some [], w2) \<Rightarrow> ([Err (''STREAM handshake failed'' @ endl)], False, w2)
             | (Some (response # chunks), w2) \<Rightarrow>
                 if \<not> status_ok response then (print_error_response response, False, w2)
                 else
                   (case stream_messages chunks of
                      (out, b) \<Rightarrow> (Out (''Streaming '' @ file @ ''...'' @ endl) # out, b, w2))))"

section \<open>Writing\<close>

text \<open>What the user asks for with one line of the write session.\<close>

datatype edit = Nothing | Commit | Complain string | Insert int string

definition parse_edit :: "string \<Rightarrow> edit" where
  "parse_edit line =
     (let ptr = dropWhile is_space (trim_newline line) in
      if ptr = [] then Nothing
      else if same_ignoring_case ptr ''ETIRW'' then Commit
      else
        case strtok [SPACE, TAB] ptr of
          (None, _) \<Rightarrow> Nothing
        | (Some idx_token, save) \<Rightarrow>
            let content = dropWhile is_space save in
            if content = [] then Complain ''Usage: <word_index> <content>''
            else
              (case scan_long idx_token of
                 Some (user_index, []) \<Rightarrow>
                   if range_error idx_token then Complain (''Invalid index: '' @ idx_token)
                   else if user_index < 0 then Complain ''Index must be non-negative''
                   else Insert (int32 user_index) content
               | _ \<Rightarrow> Complain (''Invalid index: '' @ idx_token)))"

definition insert_payload :: "int \<Rightarrow> string \<Rightarrow> string" where
  "insert_payload index content =
     braces [fmt_str ''type'' ''WRITE_INSERT'', fmt_int ''index'' index, fmt_str ''content'' (escape content)]"

text \<open>
  The loop over the lines: whether a commit was asked for, what was printed, the rest of the
  input.
\<close>

function write_lines :: "'w cli_env \<Rightarrow> string \<Rightarrow> 'w \<Rightarrow> bool \<times> printed list \<times> string \<times> 'w" where
  "write_lines env input w =
     (if input = [] then (False, [Out ''write> '', Out endl], [], w)
      else
        let line = fst (fgets 512 input); rest = snd (fgets 512 input); prompt = Out ''write> '' in
        case parse_edit line of
          Nothing \<Rightarrow> (case write_lines env rest w of (b, out, r, w') \<Rightarrow> (b, prompt # out, r, w'))
        | Commit \<Rightarrow> (True, [prompt], rest, w)
        | Complain msg \<Rightarrow>
            (case write_lines env rest w of (b, out, r, w') \<Rightarrow> (b, prompt # Out (msg @ endl) # out, r, w'))
        | Insert index content \<Rightarrow>
            let cmd = insert_payload index content in
            if MAX_JSON \<le> length cmd then
              (case write_lines env rest w of (b, out, r, w') \<Rightarrow> (b, prompt # Err (''Command too large'' @ endl) # out, r, w'))
            else
              (case ce_ss_call env cmd w of
                 (None, w1) \<Rightarrow> (False, [prompt, Err (''WRITE_INSERT failed'' @ endl)], rest, w1)
               | (Some response, w1) \<Rightarrow>
                   (case write_lines env rest w1 of
                      (b, out, r, w') \<Rightarrow>
                        (b, prompt # (if status_ok response then [] else print_error_response response) @ out, r, w'))))"
  by pat_completeness auto
termination
  by (relation "measure (\<lambda>(env, input, w). length input)") (simp_all add: fgets_shorter)

declare write_lines.simps [simp del]

definition finish_write :: "'w cli_env \<Rightarrow> bool \<Rightarrow> 'w \<Rightarrow> 'w outcome" where
  "finish_write env commit_requested w =
     (let committed =
        (if commit_requested then
           (case ce_ss_call env (braces [fmt_str ''type'' ''WRITE_COMMIT'']) w of
              (None, w1) \<Rightarrow> (print_error_response ''WRITE_COMMIT failed'', False, w1)
            | (Some response, w1) \<Rightarrow>
                if status_ok response then ([Out (''Write committed.'' @ endl)], True, w1)
                else (print_error_response response, False, w1))
         else ([], False, w)) in
      case committed of
        (out, True, w1) \<Rightarrow> (out, True, w1)
      | (out, False, w1) \<Rightarrow> (out, False, snd (ce_ss_call env (braces [fmt_str ''type'' ''WRITE_ABORT'']) w1)))"

definition ss_write_session :: "'w cli_env \<Rightarrow> string \<Rightarrow> string \<Rightarrow> string \<Rightarrow> string \<Rightarrow> string \<Rightarrow> int \<Rightarrow> string \<Rightarrow> 'w
    \<Rightarrow> 'w outcome \<times> string" where
  "ss_write_session env host port file user ticket sentence input w =
     (case ce_connect env host port w of
        (False, w1) \<Rightarrow> (([Perror ''connect storage''], False, w1), input)
      | (True, w1) \<Rightarrow>
          let payload = braces (data_fields ''WRITE_BEGIN'' file user ticket @ [fmt_int ''sentence'' sentence]) in
          if MAX_JSON \<le> length payload then (([Err (''Payload too large'' @ endl)], False, w1), input)
          else
            (case ce_ss_call env payload w1 of
               (None, w2) \<Rightarrow> (([Err (''WRITE_BEGIN failed'' @ endl)], False, w2), input)
             | (Some response, w2) \<Rightarrow>
                 if \<not> status_ok response then ((print_error_response response, False, w2), input)
                 else
                   let current = (case json_get_string_alloc response ''current'' of None \<Rightarrow> [] | Some c \<Rightarrow> c) in
                   (case write_lines env input w2 of
                      (commit, out, rest, w3) \<Rightarrow>
                        (case finish_write env commit w3 of
                           (out2, b, w4) \<Rightarrow>
                             (([Out (''Current sentence ('' @ show_int sentence @ ''): '' @ current @ endl),
                                Out (''Enter edits as '' @ CHR 0x27 # ''<word_index> <content>'' @ CHR 0x27 #
                                     '' (use 0 for beginning). Finish with ETIRW.'' @ endl)] @ out @ out2, b, w4), rest)))))"

section \<open>Commands for documents\<close>

text \<open>Host, port and ticket of the reply.\<close>

definition parse_nm_endpoint :: "string \<Rightarrow> (string \<times> string \<times> string) option" where
  "parse_nm_endpoint response =
     (case (json_get_string response ''host'' 128, json_get_string response ''port'' 32, json_get_string response ''ticket'' 128) of
        (Some host, Some port, Some ticket) \<Rightarrow> Some (host, port, ticket)
      | _ \<Rightarrow> None)"

definition with_endpoint :: "'w cli_env \<Rightarrow> string \<Rightarrow> string \<Rightarrow> 'w \<Rightarrow> (string \<Rightarrow> string \<Rightarrow> string \<Rightarrow> string \<Rightarrow> 'w \<Rightarrow> 'r) \<Rightarrow>
    ('w outcome \<Rightarrow> 'r) \<Rightarrow> 'r" where
  "with_endpoint env type body w f failed =
     (case nm_request env type body w of
        (Inl out, w1) \<Rightarrow> failed (out, False, w1)
      | (Inr response, w1) \<Rightarrow>
          (case parse_nm_endpoint response of
             None \<Rightarrow> failed ([Err (''Malformed response'' @ endl)], False, w1)
           | Some (host, port, ticket) \<Rightarrow> f response host port ticket w1))"

definition handle_read_cmd :: "'w cli_env \<Rightarrow> string \<Rightarrow> string \<Rightarrow> 'w \<Rightarrow> 'w outcome" where
  "handle_read_cmd env username file w =
     with_endpoint env ''READ'' (file_body file) w (\<lambda>response host port ticket w1. ss_read env host port file username ticket w1) (\<lambda>r. r)"

definition handle_stream_cmd :: "'w cli_env \<Rightarrow> string \<Rightarrow> string \<Rightarrow> 'w \<Rightarrow> 'w outcome" where
  "handle_stream_cmd env username file w =
     with_endpoint env ''STREAM'' (file_body file) w (\<lambda>response host port ticket w1. ss_stream env host port file username ticket w1) (\<lambda>r. r)"

definition handle_write_cmd :: "'w cli_env \<Rightarrow> string \<Rightarrow> string \<Rightarrow> int \<Rightarrow> string \<Rightarrow> 'w \<Rightarrow> 'w outcome \<times> string" where
  "handle_write_cmd env username file sentence input w =
     with_endpoint env ''WRITE'' (commas [file_body file, fmt_int ''sentence'' sentence]) w
       (\<lambda>response host port ticket w1.
          ss_write_session env host port file username ticket (int_or response ''sentence'' 0) input w1)
       (\<lambda>r. (r, input))"

end
