(* ===== verification/Client_Show.thy ===== *)
theory Client_Show
  imports Client_Calls Calendar
begin

text \<open>
  What the client prints of the answers of the name manager, \<^verbatim>\<open>client/cli_main.c\<close>: time stamps, the
  state of a replica, access lists, and the commands \<^verbatim>\<open>VIEW\<close>, \<^verbatim>\<open>LIST\<close>, \<^verbatim>\<open>INFO\<close>,
  \<^verbatim>\<open>VIEWREQS\<close> and \<^verbatim>\<open>LISTCHECKPOINTS\<close>. The scanners work on the text of the answer as the code does:
  some look for the next closing brace or quote without regard to escapes.
\<close>

section \<open>Values left in buffers\<close>

text \<open>
  The bytes \<^verbatim>\<open>json_get_string\<close> has stored when it returns. The callers below ignore its result: where
  it fails, these bytes stay over what the buffer held before.
\<close>

fun stored_loop :: "nat \<Rightarrow> string \<Rightarrow> string \<Rightarrow> string" where
  "stored_loop out_size out [] = out"
| "stored_loop out_size out (c # p) =
     (if c = BACKSLASH then
        (case p of
           [] \<Rightarrow> out
         | next # p' \<Rightarrow> if out_size \<le> length out + 1 then out else stored_loop out_size (out @ [unescape_char next]) p')
      else if c = QUOTE then out
      else if out_size \<le> length out + 1 then out
      else stored_loop out_size (out @ [c]) p)"

definition get_into :: "string \<Rightarrow> string \<Rightarrow> string \<Rightarrow> nat \<Rightarrow> string" where
  "get_into before json key n =
     (case json_get_string json key n of
        Some v \<Rightarrow> v
      | None \<Rightarrow>
          (case strstr json (string_pattern key) of
             None \<Rightarrow> before
           | Some m \<Rightarrow>
               let out = stored_loop n [] (drop (length (string_pattern key)) m) in out @ drop (length out) before))"

lemma get_into_Some [simp]: "json_get_string json key n = Some v \<Longrightarrow> get_into before json key n = v"
  by (simp add: get_into_def)

section \<open>Time stamps\<close>

text \<open>\<^verbatim>\<open>strftime\<close> gives nothing when the text does not fit.\<close>

definition format_timestamp :: "int \<Rightarrow> nat \<Rightarrow> string" where
  "format_timestamp raw_value buf_len =
     (if raw_value \<le> 0 then buf buf_len ''unknown''
      else
        let ts = nat raw_value + IST_OFFSET_SECONDS; secs = ts mod 86400 in
        case civil (ts div 86400) of
          (y, m, d) \<Rightarrow>
            let s = two_digits d @ ''-'' @ two_digits m @ ''-'' @ show_nat y @ '' '' @ two_digits (secs div 3600) @ '':'' @
                    two_digits (secs mod 3600 div 60) @ '':'' @ two_digits (secs mod 60) in
            if length s < buf_len then s else buf buf_len ''unknown'')"

section \<open>Replicas and access lists\<close>

definition describe_server_status :: "string \<Rightarrow> string \<Rightarrow> string" where
  "describe_server_status sid status =
     (if status = ''offline'' then buf 192 (if sid \<noteq> [] then ''offline (last: '' @ sid @ '')'' else ''offline'')
      else if status = ''none'' then ''none''
      else if status = ''online'' then buf 192 (if sid \<noteq> [] then sid else ''unknown'')
      else if sid \<noteq> [] then buf 192 sid
      else if status \<noteq> [] then buf 192 status
      else ''unknown'')"

fun access_name :: "string \<Rightarrow> string \<Rightarrow> string \<times> string" where
  "access_name acc [] = (acc, [])"
| "access_name acc (c # cs) =
     (if c = BACKSLASH \<and> cs \<noteq> [] then access_name (if length acc + 1 < 128 then acc @ [hd cs] else acc) (tl cs)
      else if c = QUOTE then (acc, c # cs)
      else access_name (if length acc + 1 < 128 then acc @ [c] else acc) cs)"

lemma access_name_shorter: "length (snd (access_name acc s)) \<le> length s"
  by (induction acc s rule: access_name.induct) (auto simp: le_Suc_eq)

function access_names :: "string \<Rightarrow> string list" where
  "access_names pos =
     (case pos of
        [] \<Rightarrow> []
      | c # cs \<Rightarrow>
          if c = CHR '']'' then []
          else if c = QUOTE then (case access_name [] cs of (n, r) \<Rightarrow> n # access_names (drop 1 r))
          else access_names cs)"
  by pat_completeness auto
termination
proof -
  have shorter: "length r - Suc 0 < Suc (length cs)" if "access_name [] cs = (n, r)" for n r cs
    using access_name_shorter [of "[]" cs] that by simp
  show ?thesis by (relation "measure length") (auto dest!: shorter [OF sym])
qed

declare access_names.simps [simp del]

definition name_or_unknown :: "string \<Rightarrow> string" where
  "name_or_unknown n = (if n = [] then ''(unknown)'' else n)"

fun separated :: "string \<Rightarrow> string list \<Rightarrow> string" where
  "separated sep [] = []"
| "separated sep [s] = s"
| "separated sep (s # t # ss) = s @ sep @ separated sep (t # ss)"

definition print_access_list :: "string \<Rightarrow> string \<Rightarrow> string \<Rightarrow> string" where
  "print_access_list json_block key label =
     (let pattern = quoted key @ '':['' in
      if 64 \<le> length pattern then ''  '' @ label @ '': unknown'' @ endl
      else case strstr json_block pattern of
        None \<Rightarrow> ''  '' @ label @ '': unknown'' @ endl
      | Some pos \<Rightarrow>
          let names = access_names (drop (length pattern) pos) in
          ''  '' @ label @ '': '' @
          (if names = [] then ''none'' else separated '', '' (map name_or_unknown names)) @ endl)"

section \<open>VIEW\<close>

text \<open>The text from the start up to and with the first \<open>c\<close>, and the rest.\<close>

definition upto_char :: "char \<Rightarrow> string \<Rightarrow> (string \<times> string) option" where
  "upto_char c s = (case find_index (\<lambda>x. x = c) s of None \<Rightarrow> None | Some i \<Rightarrow> Some (take (i + 1) s, drop (i + 1) s))"

lemma upto_char_shorter: "upto_char c s = Some (a, r) \<Longrightarrow> s \<noteq> [] \<and> length r < length s"
  by (cases s) (auto simp: upto_char_def split: option.splits)

definition view_entry :: "string \<Rightarrow> string" where
  "view_entry object =
     (let chunk = take 511 object in
      case json_get_string chunk ''name'' 128 of
        None \<Rightarrow> []
      | Some name \<Rightarrow>
          (case (json_get_string chunk ''owner'' 128, json_get_int chunk ''words'', json_get_int chunk ''chars'',
                 json_get_string chunk ''lastAccessUser'' 128) of
             (Some owner, Some words, Some chars, Some last_user) \<Rightarrow>
               ''  '' @ name @ '' (owner: '' @ owner @ '', words: '' @ show_int words @ '', chars: '' @ show_int chars @
               '', last user: '' @ last_user @ '')'' @ endl @
               ''    primary: '' @ describe_server_status (get_into [] chunk ''primaryServer'' 128) (get_into [] chunk ''primaryStatus'' 32) @
               '', backup: '' @ describe_server_status (get_into [] chunk ''backupServer'' 128) (get_into [] chunk ''backupStatus'' 32) @ endl
           | _ \<Rightarrow> ''  '' @ name @ endl))"

function view_entries :: "string \<Rightarrow> string" where
  "view_entries pos =
     (case pos of
        [] \<Rightarrow> []
      | c # cs \<Rightarrow>
          if c = CHR ''{'' then
            (case upto_char (CHR ''}'') pos of
               None \<Rightarrow> []
             | Some (object, rest) \<Rightarrow> view_entry object @ view_entries rest)
          else if c = CHR '']'' then []
          else view_entries cs)"
  by pat_completeness auto
termination
  by (relation "measure length") (auto dest: upto_char_shorter)

declare view_entries.simps [simp del]

text \<open>A list in a reply: what follows \<^verbatim>\<open>"key":[\<close>, unless the list is missing or empty.\<close>

definition open_list :: "string \<Rightarrow> string \<Rightarrow> string option" where
  "open_list response key =
     (case strstr response (key_open key ''['') of
        None \<Rightarrow> None
      | Some m \<Rightarrow>
          let pos = drop (length (key_open key ''['')) m in
          if pos \<noteq> [] \<and> hd pos = CHR '']'' then None else Some pos)"

definition handle_view :: "'w cli_env \<Rightarrow> string \<Rightarrow> 'w \<Rightarrow> 'w outcome" where
  "handle_view env flags w =
     (case nm_request env ''VIEW'' (if flags \<noteq> [] then fmt_str ''flags'' flags else []) w of
        (Inl out, w1) \<Rightarrow> (out, False, w1)
      | (Inr response, w1) \<Rightarrow>
          (case open_list response ''files'' of
             None \<Rightarrow> ([Out (''(no files)'' @ endl)], True, w1)
           | Some pos \<Rightarrow> ([Out (''Files:'' @ endl @ view_entries pos)], True, w1)))"

section \<open>LIST\<close>

function user_entries :: "string \<Rightarrow> string" where
  "user_entries pos =
     (case pos of
        [] \<Rightarrow> []
      | c # cs \<Rightarrow>
          if c = CHR '']'' then []
          else if c = QUOTE then
            (case upto_char QUOTE cs of
               None \<Rightarrow> []
             | Some (name, rest) \<Rightarrow> ''  '' @ butlast name @ endl @ user_entries rest)
          else user_entries cs)"
  by pat_completeness auto
termination
  by (relation "measure length") (auto dest: upto_char_shorter)

declare user_entries.simps [simp del]

definition handle_list_users :: "'w cli_env \<Rightarrow> 'w \<Rightarrow> 'w outcome" where
  "handle_list_users env w =
     (case nm_request env ''LIST'' [] w of
        (Inl out, w1) \<Rightarrow> (out, False, w1)
      | (Inr response, w1) \<Rightarrow>
          (case open_list response ''users'' of
             None \<Rightarrow> ([Out (''No users.'' @ endl)], True, w1)
           | Some pos \<Rightarrow> ([Out (''Users:'' @ endl @ user_entries pos)], True, w1)))"

section \<open>INFO\<close>

definition info_lines :: "string \<Rightarrow> string \<Rightarrow> string list" where
  "info_lines file chunk =
     (let name = get_into [] chunk ''name'' 128; last_user = get_into [] chunk ''lastAccessUser'' 128 in
      [''File: '' @ (if name \<noteq> [] then name else file),
       ''  Owner: '' @ get_into [] chunk ''owner'' 128,
       ''  Words: '' @ show_int (int_or chunk ''words'' (-1)),
       ''  Chars: '' @ show_int (int_or chunk ''chars'' (-1)),
       ''  Created: '' @ format_timestamp (int_or chunk ''created'' 0) 32,
       ''  Modified: '' @ format_timestamp (int_or chunk ''modified'' 0) 32,
       ''  Last Access: '' @ format_timestamp (int_or chunk ''lastAccess'' 0) 32 @ '' by '' @
         (if last_user \<noteq> [] then last_user else ''unknown''),
       ''  Primary Server: '' @
         describe_server_status (get_into [] chunk ''primaryServer'' 128) (get_into [] chunk ''primaryStatus'' 32),
       ''  Backup Server: '' @
         describe_server_status (get_into [] chunk ''backupServer'' 128) (get_into [] chunk ''backupStatus'' 32)])"

definition handle_info_cmd :: "'w cli_env \<Rightarrow> string \<Rightarrow> 'w \<Rightarrow> 'w outcome" where
  "handle_info_cmd env file w =
     (case nm_request env ''INFO'' (file_body file) w of
        (Inl out, w1) \<Rightarrow> (out, False, w1)
      | (Inr response, w1) \<Rightarrow>
          (case strstr response (key_open ''file'' ''{'') of
             None \<Rightarrow> ([Out (''No metadata available.'' @ endl)], True, w1)
           | Some m \<Rightarrow>
               (case upto_char (CHR ''}'') (drop (length (key_open ''file'' ''{'')) m) of
                  None \<Rightarrow> ([], True, w1)
                | Some (chunk, _) \<Rightarrow>
                    ([Out (concat (map (\<lambda>l. l @ endl) (info_lines file chunk)) @
                           print_access_list chunk ''readAccess'' ''Read Access'' @
                           print_access_list chunk ''writeAccess'' ''Write Access'')], True, w1))))"

section \<open>VIEWREQS\<close>

text \<open>The end of the object at the start of the text, quotes and escapes respected.\<close>

fun scan_object :: "int \<Rightarrow> bool \<Rightarrow> bool \<Rightarrow> nat \<Rightarrow> string \<Rightarrow> nat option" where
  "scan_object depth in_string esc i [] = None"
| "scan_object depth in_string esc i (ch # cs) =
     (if in_string then
        (if esc then scan_object depth True False (i + 1) cs
         else if ch = BACKSLASH then scan_object depth True True (i + 1) cs
         else if ch = QUOTE then scan_object depth False False (i + 1) cs
         else scan_object depth True False (i + 1) cs)
      else if ch = QUOTE then scan_object depth True esc (i + 1) cs
      else if ch = CHR ''{'' then scan_object (depth + 1) False esc (i + 1) cs
      else if ch = CHR ''}'' then (if depth = 1 then Some i else scan_object (depth - 1) False esc (i + 1) cs)
      else scan_object depth False esc (i + 1) cs)"

definition viewreqs_line :: "bool \<Rightarrow> string \<Rightarrow> string" where
  "viewreqs_line sent object =
     ''  '' @ get_into ''unknown'' object ''file'' 256 @ '' | '' @ get_into ''unknown'' object ''access'' 64 @ '' | '' @
     (if sent then get_into ''unknown'' object ''status'' 64 else get_into ''unknown'' object ''user'' 128) @ endl"

definition skip_separators :: "string \<Rightarrow> string" where
  "skip_separators s = dropWhile (\<lambda>c. is_space c \<or> c = CHR '','') s"

function request_lines :: "bool \<Rightarrow> string \<Rightarrow> string list" where
  "request_lines sent ptr =
     (case skip_separators ptr of
        [] \<Rightarrow> []
      | c # cs \<Rightarrow>
          if c = CHR '']'' then []
          else if c \<noteq> CHR ''{'' then request_lines sent cs
          else
            (case scan_object 0 False False 0 (c # cs) of
               None \<Rightarrow> []
             | Some i \<Rightarrow> viewreqs_line sent (take (i + 1) (c # cs)) # request_lines sent (drop i cs)))"
  by pat_completeness auto
termination
proof -
  have shorter: "length cs < length ptr" if "skip_separators ptr = c # cs" for ptr c cs
    using length_dropWhile_le [of "\<lambda>c. is_space c \<or> c = CHR '',''" ptr] that by (simp add: skip_separators_def)
  show ?thesis by (relation "measure (\<lambda>(sent, ptr). length ptr)") (auto dest: shorter)
qed

declare request_lines.simps [simp del]

definition after_marker :: "string \<Rightarrow> string \<Rightarrow> string option" where
  "after_marker response key =
     (case strstr response (quoted key @ '':'') of
        None \<Rightarrow> None
      | Some block \<Rightarrow> map_option snd (upto_char (CHR ''['') block))"

definition handle_viewreqs_cmd :: "'w cli_env \<Rightarrow> bool \<Rightarrow> 'w \<Rightarrow> 'w outcome" where
  "handle_viewreqs_cmd env sent w =
     (case nm_request env ''VIEWREQS'' (fmt_str ''direction'' (if sent then ''SENT'' else ''RECEIVED'')) w of
        (Inl out, w1) \<Rightarrow> (out, False, w1)
      | (Inr response, w1) \<Rightarrow>
          let lines = (case after_marker response ''requests'' of None \<Rightarrow> [] | Some ptr \<Rightarrow> request_lines sent ptr) in
          ([Out ((if sent then ''Sent'' else ''Received'') @ '' requests:'' @ endl),
            Out (if lines = [] then ''  none'' @ endl else concat lines)], True, w1))"

section \<open>LISTCHECKPOINTS\<close>

definition pad_right :: "nat \<Rightarrow> string \<Rightarrow> string" where
  "pad_right n s = s @ replicate (n - length s) SPACE"

text \<open>A \<^verbatim>\<open>strtol\<close> that converts nothing gives zero.\<close>

definition checkpoint_row :: "string \<Rightarrow> string" where
  "checkpoint_row obj =
     (let timestamp = get_into [] obj ''timestamp'' 32 in
      ''  '' @ pad_right 24 (name_or_unknown (get_into [] obj ''tag'' 128)) @ '' '' @
      pad_right 16 (name_or_unknown (get_into [] obj ''user'' 128)) @ '' '' @
      format_timestamp (int32 (if timestamp \<noteq> [] then atol timestamp else 0)) 32 @ endl)"

function checkpoint_lines :: "string \<Rightarrow> string list" where
  "checkpoint_lines p =
     (if p = [] \<or> hd p = CHR '']'' then []
      else
        let q = skip_separators p in
        if q = [] \<or> hd q \<noteq> CHR ''{'' then []
        else case upto_char (CHR ''}'') q of
          None \<Rightarrow> []
        | Some (obj, rest) \<Rightarrow> checkpoint_row obj # checkpoint_lines rest)"
  by pat_completeness auto
termination
proof -
  have shorter: "length rest < length p" if "upto_char (CHR ''}'') (skip_separators p) = Some (obj, rest)" for p obj rest
    using upto_char_shorter [OF that] length_dropWhile_le [of "\<lambda>c. is_space c \<or> c = CHR '',''" p]
    by (simp add: skip_separators_def)
  show ?thesis by (relation "measure length") (auto dest: shorter)
qed

declare checkpoint_lines.simps [simp del]

definition print_checkpoint_list :: "string \<Rightarrow> string \<Rightarrow> string" where
  "print_checkpoint_list file response =
     (let lines = (case after_marker response ''checkpoints'' of None \<Rightarrow> [] | Some p \<Rightarrow> checkpoint_lines p) in
      if lines = [] then ''No checkpoints for '' @ file @ ''.'' @ endl
      else ''Checkpoints for '' @ file @ '':'' @ endl @ concat lines)"

definition handle_listcheckpoints_cmd :: "'w cli_env \<Rightarrow> string \<Rightarrow> 'w \<Rightarrow> 'w outcome" where
  "handle_listcheckpoints_cmd env file w =
     (case json_escape_string 256 file of
        None \<Rightarrow> encoding_error w
      | Some f \<Rightarrow>
          (case nm_request env ''LISTCHECKPOINTS'' (fmt_str ''file'' f) w of
             (Inl out, w1) \<Rightarrow> (out, False, w1)
           | (Inr response, w1) \<Rightarrow> ([Out (print_checkpoint_list file response)], True, w1)))"

section \<open>HELP\<close>

definition print_help :: string where
  "print_help = concat (map (\<lambda>l. l @ endl)
     [''Commands:'', ''  VIEW [-a] [-l]'', ''  LIST'', ''  INFO <file>'', ''  CREATE <file>'', ''  DELETE <file>'',
      ''  READ <file>'', ''  WRITE <file> [sentence]'',
      ''    After WRITE, enter '' @ CHR 0x27 # ''<word_index> <content>'' @ CHR 0x27 # '' lines and finish with ETIRW.'',
      ''  STREAM <file>'', ''  CHECKPOINT <file> <tag>'', ''  VIEWCHECKPOINT <file> <tag>'', ''  REVERT <file> <tag>'',
      ''  LISTCHECKPOINTS <file>'', ''  ADDACCESS -R|-W <file> <user>'', ''    legacy: ADDACCESS <file> <user> [rw]'',
      ''  REMACCESS <file> <user>'', ''  REQACCESS <file> <-R|-W>'', ''  VIEWREQS <SENT/RECEIVED>'',
      ''  HANDLEREQ <file> <user> <APPROVE/DENY>'', ''  UNDO <file>'', ''  EXEC <file>'', ''  HELP'',
      ''  QUIT / EXIT  (disconnect client)''])"

end
