(* ===== verification/Client_Main.thy ===== *)
theory Client_Main
  imports Client_Input Client_Session Client_Show
begin

text \<open>
  The main program of the client, \<^verbatim>\<open>main\<close> of \<^verbatim>\<open>client/cli_main.c\<close>: the handshake, then a loop that
  reads a line, parses it and runs the command. Standard input is a text, not a terminal; the write
  session reads its lines from the same text. Parsing (\<open>parse_command\<close>) is apart from running
  (\<open>run_request\<close>): in the code each branch parses and calls its handler.
\<close>

section \<open>Parsing a command\<close>

datatype request =
    Help | View string | ListUsers | Info string | Create string | Delete string | Read string | Stream string
  | Checkpoint string string | ViewCheckpoint string string | Revert string string | ListCheckpoints string
  | Write string int | AddAccess string string bool | RemAccess string string | ReqAccess string bool
  | ViewReqs bool | HandleReq string string string | Undo string | Exec string | Quit | Say string

definition usage :: "string \<Rightarrow> request" where
  "usage s = Say (''usage: '' @ s)"

definition cli_valid_checkpoint_tag :: "string \<Rightarrow> bool" where
  "cli_valid_checkpoint_tag tag = valid_filename tag"

definition add_flag :: "string \<Rightarrow> char \<Rightarrow> string" where
  "add_flag flags c =
     (let flag = to_lower c in
      if flag = CHR ''a'' \<and> \<not> strchr flags (CHR ''a'') then flags @ ''a''
      else if flag = CHR ''l'' \<and> \<not> strchr flags (CHR ''l'') then flags @ ''l''
      else flags)"

definition view_flags :: "string \<Rightarrow> string" where
  "view_flags save =
     foldl (\<lambda>flags token. if token \<noteq> [] \<and> hd token = CHR ''-'' then foldl add_flag flags (tl token) else flags) []
       (split_tokens SPACE save)"

text \<open>The rest of the line as one argument.\<close>

definition rest_argument :: "(string \<Rightarrow> request) \<Rightarrow> string \<Rightarrow> string \<Rightarrow> request" where
  "rest_argument build usage_text save =
     (case strtok [] save of (None, _) \<Rightarrow> usage usage_text | (Some file, _) \<Rightarrow> build (dropWhile is_space file))"

definition file_and_tag :: "(string \<Rightarrow> string \<Rightarrow> request) \<Rightarrow> string \<Rightarrow> string \<Rightarrow> request" where
  "file_and_tag build usage_text save =
     (let (file, save1) = strtok '' '' save; (tag, save2) = strtok '' '' save1 in
      case (file, tag) of
        (Some file, Some tag) \<Rightarrow>
          let file = trim_white file; tag = trim_white tag in
          if file = [] \<or> tag = [] \<or> \<not> cli_valid_checkpoint_tag tag then usage usage_text else build file tag
      | _ \<Rightarrow> usage usage_text)"

definition parse_listcheckpoints :: "string \<Rightarrow> request" where
  "parse_listcheckpoints save =
     (let usage_text = ''LISTCHECKPOINTS <file>'' in
      case strtok [] save of
        (None, _) \<Rightarrow> usage usage_text
      | (Some file, _) \<Rightarrow> if trim_white file = [] then usage usage_text else ListCheckpoints (trim_white file))"

definition parse_write :: "string \<Rightarrow> request" where
  "parse_write save =
     (case strtok '' '' save of
        (None, _) \<Rightarrow> usage ''WRITE <file> [sentence]''
      | (Some file, save1) \<Rightarrow>
          (case strtok [] save1 of
             (None, _) \<Rightarrow> Write file 0
           | (Some sentence_tok, _) \<Rightarrow>
               let tok = dropWhile is_space sentence_tok in
               if tok = [] then Write file 0
               else (case scan_long tok of Some (val, []) \<Rightarrow> Write file (int32 val) | _ \<Rightarrow> Say ''Invalid sentence index'')))"

definition is_mode_flag :: "string \<Rightarrow> bool" where
  "is_mode_flag s \<longleftrightarrow> s \<in> {''-R'', ''-r'', ''-W'', ''-w''}"

definition flag_writes :: "string \<Rightarrow> bool" where
  "flag_writes s \<longleftrightarrow> s ! 1 = CHR ''W'' \<or> s ! 1 = CHR ''w''"

definition mode_writes :: "string \<Rightarrow> bool" where
  "mode_writes mode \<longleftrightarrow>
     mode \<noteq> [] \<and>
     (if hd mode = CHR ''r'' \<or> hd mode = CHR ''R'' then strchr mode (CHR ''w'') \<or> strchr mode (CHR ''W'')
      else hd mode = CHR ''w'' \<or> hd mode = CHR ''W'')"

definition parse_addaccess :: "string \<Rightarrow> request" where
  "parse_addaccess save =
     (let usage_text = ''ADDACCESS [-R|-W] <file> <user>'';
          (arg1, save1) = strtok '' '' save; (arg2, save2) = strtok '' '' save1; (arg3, save3) = strtok [] save2 in
      case (arg1, arg2) of
        (Some arg1, Some arg2) \<Rightarrow>
          let (write_perm, file, user) =
                (if is_mode_flag arg1 then (flag_writes arg1, arg2, map_option trim_white arg3)
                 else ((case arg3 of None \<Rightarrow> False | Some m \<Rightarrow> mode_writes (trim_white m)), arg1, Some arg2)) in
          (case user of
             None \<Rightarrow> usage usage_text
           | Some u \<Rightarrow> if trim_white u = [] then usage usage_text else AddAccess file (trim_white u) write_perm)
      | _ \<Rightarrow> usage usage_text)"

definition parse_remaccess :: "string \<Rightarrow> request" where
  "parse_remaccess save =
     (let (file, save1) = strtok '' '' save; (user, save2) = strtok [] save1 in
      case (file, user) of
        (Some file, Some user) \<Rightarrow> RemAccess file (dropWhile is_space user)
      | _ \<Rightarrow> usage ''REMACCESS <file> <user>'')"

definition parse_reqaccess :: "string \<Rightarrow> request" where
  "parse_reqaccess save =
     (let usage_text = ''REQACCESS <file> <-R|-W>'';
          (file, save1) = strtok '' '' save; (mode, save2) = strtok '' '' save1 in
      case (file, mode) of
        (Some file, Some mode) \<Rightarrow>
          let file = trim_white file; mode = trim_white mode in
          if file = [] \<or> \<not> is_mode_flag mode then usage usage_text else ReqAccess file (flag_writes mode)
      | _ \<Rightarrow> usage usage_text)"

definition parse_viewreqs :: "string \<Rightarrow> request" where
  "parse_viewreqs save =
     (case strtok '' '' save of
        (None, _) \<Rightarrow> usage ''VIEWREQS <SENT/RECEIVED>''
      | (Some direction, _) \<Rightarrow>
          let d = trim_white direction in
          if same_ignoring_case d ''SENT'' then ViewReqs True
          else if same_ignoring_case d ''RECEIVED'' then ViewReqs False
          else usage ''VIEWREQS <SENT/RECEIVED>'')"

definition parse_handlereq :: "string \<Rightarrow> request" where
  "parse_handlereq save =
     (let usage_text = ''HANDLEREQ <file> <user> <APPROVE/DENY>'';
          (file, save1) = strtok '' '' save; (user, save2) = strtok '' '' save1; (action, save3) = strtok '' '' save2 in
      case (file, user, action) of
        (Some file, Some user, Some action) \<Rightarrow>
          let file = trim_white file; user = trim_white user; action = trim_white action in
          if file = [] \<or> user = [] \<or> action = [] then usage usage_text
          else if \<not> same_ignoring_case action ''APPROVE'' \<and> \<not> same_ignoring_case action ''DENY'' then usage usage_text
          else HandleReq file user (take 15 (map to_upper action))
      | _ \<Rightarrow> usage usage_text)"

definition parse_request :: "string \<Rightarrow> string \<Rightarrow> request" where
  "parse_request cmd save =
     (if cmd = ''HELP'' then Help
      else if cmd = ''VIEW'' then View (view_flags save)
      else if cmd = ''LIST'' then ListUsers
      else if cmd = ''INFO'' then rest_argument Info ''INFO <file>'' save
      else if cmd = ''CREATE'' then rest_argument Create ''CREATE <file>'' save
      else if cmd = ''DELETE'' then rest_argument Delete ''DELETE <file>'' save
      else if cmd = ''READ'' then rest_argument Read ''READ <file>'' save
      else if cmd = ''STREAM'' then rest_argument Stream ''STREAM <file>'' save
      else if cmd = ''CHECKPOINT'' then file_and_tag Checkpoint ''CHECKPOINT <file> <tag>'' save
      else if cmd = ''VIEWCHECKPOINT'' then file_and_tag ViewCheckpoint ''VIEWCHECKPOINT <file> <tag>'' save
      else if cmd = ''REVERT'' then file_and_tag Revert ''REVERT <file> <tag>'' save
      else if cmd = ''LISTCHECKPOINTS'' then parse_listcheckpoints save
      else if cmd = ''WRITE'' then parse_write save
      else if cmd = ''ADDACCESS'' then parse_addaccess save
      else if cmd = ''REMACCESS'' then parse_remaccess save
      else if cmd = ''REQACCESS'' then parse_reqaccess save
      else if cmd = ''VIEWREQS'' then parse_viewreqs save
      else if cmd = ''HANDLEREQ'' then parse_handlereq save
      else if cmd = ''UNDO'' then rest_argument Undo ''UNDO <file>'' save
      else if cmd = ''EXEC'' then rest_argument Exec ''EXEC <file>'' save
      else if cmd = ''QUIT'' \<or> cmd = ''EXIT'' then Quit
      else Say (''Unknown command. Type '' @ CHR 0x27 # ''help'' @ CHR 0x27 # ''.''))"

text \<open>\<open>None\<close>: a line of spaces.\<close>

definition parse_command :: "string \<Rightarrow> request option" where
  "parse_command line =
     (case strtok '' '' line of (None, _) \<Rightarrow> None | (Some cmd, save) \<Rightarrow> Some (parse_request (map to_upper cmd) save))"

section \<open>Running it\<close>

definition run_simple :: "'w cli_env \<Rightarrow> string \<Rightarrow> request \<Rightarrow> 'w \<Rightarrow> 'w outcome" where
  "run_simple env username req w =
     (case req of
        Help \<Rightarrow> ([Out print_help], True, w)
      | View flags \<Rightarrow> handle_view env flags w
      | ListUsers \<Rightarrow> handle_list_users env w
      | Info f \<Rightarrow> handle_info_cmd env f w
      | Create f \<Rightarrow> handle_create_cmd env f w
      | Delete f \<Rightarrow> handle_delete_cmd env f w
      | Read f \<Rightarrow> handle_read_cmd env username f w
      | Stream f \<Rightarrow> handle_stream_cmd env username f w
      | Checkpoint f t \<Rightarrow> handle_checkpoint_cmd env f t w
      | ViewCheckpoint f t \<Rightarrow> handle_viewcheckpoint_cmd env username f t w
      | Revert f t \<Rightarrow> handle_revert_cmd env username f t w
      | ListCheckpoints f \<Rightarrow> handle_listcheckpoints_cmd env f w
      | AddAccess f u write_perm \<Rightarrow> handle_addaccess_cmd env f u write_perm w
      | RemAccess f u \<Rightarrow> handle_remaccess_cmd env f u w
      | ReqAccess f write_perm \<Rightarrow> handle_reqaccess_cmd env f write_perm w
      | ViewReqs sent \<Rightarrow> handle_viewreqs_cmd env sent w
      | HandleReq f u action \<Rightarrow> handle_handlereq_cmd env f u action w
      | Undo f \<Rightarrow> handle_undo_cmd env f w
      | Exec f \<Rightarrow> handle_exec_cmd env f w
      | Quit \<Rightarrow> handle_exit_cmd env w
      | Say s \<Rightarrow> ([Out (s @ endl)], True, w)
      | Write f sentence \<Rightarrow> ([], True, w))"

text \<open>Only \<^verbatim>\<open>WRITE\<close> reads on from standard input. The results of the handlers are ignored.\<close>

definition run_request :: "'w cli_env \<Rightarrow> string \<Rightarrow> request \<Rightarrow> string \<Rightarrow> 'w \<Rightarrow> printed list \<times> string \<times> 'w" where
  "run_request env username req input w =
     (case req of
        Write f sentence \<Rightarrow>
          (case handle_write_cmd env username f sentence input w of ((out, b, w1), rest) \<Rightarrow> (out, rest, w1))
      | _ \<Rightarrow> (case run_simple env username req w of (out, b, w1) \<Rightarrow> (out, input, w1)))"

lemma write_lines_rest: "write_lines env input w = (b, out, rest, w') \<Longrightarrow> length rest \<le> length input"
proof (induction "length input" arbitrary: input w b out rest w' rule: less_induct)
  case less
  show ?case
  proof (cases "input = []")
    case False
    let ?rest = "snd (fgets 512 input)"
    have short: "length ?rest < length input" using False by (simp add: fgets_shorter)
    have later: "length r \<le> length input" if "write_lines env ?rest w1 = (b1, out1, r, w2)" for b1 out1 r w1 w2
      using less.hyps [OF short that] short by simp
    show ?thesis
      using less.prems False less_imp_le [OF short]
      by (subst (asm) write_lines.simps) (auto simp: Let_def split: edit.splits prod.splits option.splits if_splits dest: later)
  qed (use less.prems in \<open>simp add: write_lines.simps\<close>)
qed

lemma write_session_rest: "length (snd (ss_write_session env host port f u t i input w)) \<le> length input"
  by (auto simp: ss_write_session_def Let_def split: prod.splits bool.splits option.splits dest: write_lines_rest)

lemma run_request_rest: "run_request env username req input w = (out, rest, w') \<Longrightarrow> length rest \<le> length input"
  using write_session_rest [of env _ _ _ username _ _ input]
  by (cases req) (auto simp: run_request_def handle_write_cmd_def with_endpoint_def
      split: prod.splits sum.splits option.splits, metis snd_conv)

text \<open>The loop over the input: what is printed, the history, and the world at the end.\<close>

function client_loop :: "'w cli_env \<Rightarrow> string \<Rightarrow> string \<Rightarrow> string list \<Rightarrow> 'w \<Rightarrow> printed list \<times> string list \<times> 'w" where
  "client_loop env username input history w =
     (if input = [] then ([Out ''docs> '', Out endl], history, w)
      else
        let line = trim_newline (fst (fgets 512 input)); rest = snd (fgets 512 input) in
        if line = [] then (case client_loop env username rest history w of (out, r) \<Rightarrow> (Out ''docs> '' # out, r))
        else
          let history1 = cli_input_remember line history in
          (case parse_command line of
             None \<Rightarrow> (case client_loop env username rest history1 w of (out, r) \<Rightarrow> (Out ''docs> '' # out, r))
           | Some req \<Rightarrow>
               (case run_request env username req rest w of
                  (out, rest1, w1) \<Rightarrow>
                    if req = Quit then (Out ''docs> '' # out, history1, w1)
                    else (case client_loop env username rest1 history1 w1 of (out1, r) \<Rightarrow> (Out ''docs> '' # out @ out1, r)))))"
  by pat_completeness auto
termination
proof -
  have shorter: "length r < length input" if "run_request env u req (snd (fgets 512 input)) w = (out, r, w1)" "input \<noteq> []"
    for env :: "'w cli_env" and u req input w out r w1
    using run_request_rest [OF that(1)] fgets_shorter [OF that(2), of 512] by simp
  show ?thesis
    by (relation "measure (\<lambda>(env, username, input, history, w). length input)") (auto simp: fgets_shorter dest!: shorter [OF sym])
qed

declare client_loop.simps [simp del]

section \<open>The main program\<close>

definition client_hello :: "string \<Rightarrow> string \<Rightarrow> string \<Rightarrow> string \<Rightarrow> string" where
  "client_hello username client_ip nm_port ss_port =
     braces [fmt_str ''type'' ''CLIENT_HELLO'', fmt_str ''user'' (escape username), fmt_str ''clientIp'' (escape client_ip),
             fmt_str ''nmPort'' (escape nm_port), fmt_str ''ssPort'' (escape ss_port)]"

definition handshake :: "'w cli_env \<Rightarrow> string \<Rightarrow> string \<Rightarrow> string \<Rightarrow> 'w \<Rightarrow> 'w outcome" where
  "handshake env username nm_port ss_port w =
     (let payload = client_hello username (case ce_local_ip env w of None \<Rightarrow> ''unknown'' | Some ip \<Rightarrow> ip) nm_port ss_port in
      if MAX_JSON \<le> length payload then ([Err (''Handshake payload too large'' @ endl)], False, w)
      else
        (case ce_call env payload w of
           (None, w1) \<Rightarrow> ([Err (''Handshake failed'' @ endl)], False, w1)
         | (Some response, w1) \<Rightarrow> if status_ok response then ([], True, w1) else (print_error_response response, False, w1)))"

text \<open>The arguments after the program's name; the result is the exit code.\<close>

definition client_main :: "'w cli_env \<Rightarrow> string \<Rightarrow> string list \<Rightarrow> string \<Rightarrow> 'w \<Rightarrow> nat \<times> printed list \<times> 'w" where
  "client_main env program args input w =
     (if length args < 2 \<or> 3 < length args then
        (1, [Err (''Usage: '' @ program @ '' <nm_host> <nm_port> [preferred_ss_port]'' @ endl)], w)
      else
        let ss_port = (if length args = 3 then args ! 2 else ''0'') in
        case ce_nm_connect env (args ! 0) (args ! 1) w of
          (False, w1) \<Rightarrow> (1, [Perror ''net_connect''], w1)
        | (True, w1) \<Rightarrow>
            if input = [] then (1, [Out ''Username: '', Err (''Failed to read username'' @ endl)], w1)
            else
              let username = trim_newline (fst (fgets 64 input)) in
              (case handshake env username (args ! 1) ss_port w1 of
                 (out, False, w2) \<Rightarrow> (1, Out ''Username: '' # out, w2)
               | (out, True, w2) \<Rightarrow>
                   (case client_loop env username (snd (fgets 64 input)) [] w2 of
                      (out1, history, w3) \<Rightarrow>
                        (0, Out ''Username: '' # Out (''Connected as '' @ username @ ''. Type '' @ CHR 0x27 # ''help'' @ CHR 0x27 #
                              '' for commands.'' @ endl) # out1 @ [Out (''Bye.'' @ endl)], w3))))"

end
