(* ===== verification/End_To_End.thy ===== *)
theory End_To_End
  imports System Client_Main
begin

text \<open>
  The three programs together: the commands of the client run against the name manager and the
  storage servers. All requests and answers cross as text, written by one program and read by another.
\<close>

section \<open>The system as the client sees it\<close>

text \<open>
  The world of the client: the context of the manager, whose world holds the storage servers, and the
  messages sent so far on the data connection. The storage server is deterministic, so its answer to the
  last message is found by running it on all of them; \<open>settle\<close> is the state when the connection
  is closed. \<open>limit\<close> bounds the messages the server can send on one connection.
\<close>

type_synonym 'g system = "'g two_servers nm_context \<times> string list"

definition data_run :: "os \<Rightarrow> nat \<Rightarrow> ss_context \<Rightarrow> string list \<Rightarrow> ss_context \<times> conn" where
  "data_run os limit src msgs = handle_data_client os src \<lparr>inbox = msgs, outbox = [], send_limit = limit\<rparr>"

definition primary :: "'g two_servers nm_context \<Rightarrow> ss_context" where
  "primary ctx = fst (snd (nc_world ctx))"

definition settle :: "os \<Rightarrow> nat \<Rightarrow> 'g system \<Rightarrow> 'g two_servers nm_context" where
  "settle os1 limit w =
     (case w of (ctx, msgs) \<Rightarrow> ctx\<lparr>nc_world := (fst (nc_world ctx), fst (data_run os1 limit (primary ctx) msgs), snd (snd (nc_world ctx)))\<rparr>)"

definition system_call :: "'g two_servers nm_os \<Rightarrow> os \<Rightarrow> nat \<Rightarrow> string \<Rightarrow> string \<Rightarrow> 'g system \<Rightarrow> string option \<times> 'g system" where
  "system_call os os1 limit user payload w =
     (case handle_client_message os (settle os1 limit w) fresh_conn user payload of
        (_, ctx, c) \<Rightarrow> (case outbox c of [] \<Rightarrow> None | r # _ \<Rightarrow> Some r, ctx, []))"

definition system_ss_call :: "os \<Rightarrow> nat \<Rightarrow> string \<Rightarrow> 'g system \<Rightarrow> string option \<times> 'g system" where
  "system_ss_call os1 limit payload w =
     (case w of (ctx, msgs) \<Rightarrow>
        let replies = outbox (snd (data_run os1 limit (primary ctx) (msgs @ [payload]))) in
        (if length msgs < length replies then Some (replies ! length msgs) else None, ctx, msgs @ [payload]))"

definition system_env :: "'g two_servers nm_os \<Rightarrow> os \<Rightarrow> nat \<Rightarrow> storage_server \<Rightarrow> string \<Rightarrow> 'g system cli_env" where
  "system_env os os1 limit ps user = \<lparr>ce_nm_connect = (\<lambda>host port w. (True, w)), ce_local_ip = (\<lambda>w. None),
     ce_call = system_call os os1 limit user,
     ce_connect = (\<lambda>host port w. (host = ss_host ps \<and> port = ss_data_port ps, settle os1 limit w, [])),
     ce_ss_call = system_ss_call os1 limit,
     ce_ss_stream = (\<lambda>payload w. (Some (outbox (snd (data_run os1 limit (primary (fst w)) [payload]))), fst w, [payload]))\<rparr>"

lemma settle_empty [simp]: "settle os1 limit (ctx, []) = ctx"
  by (simp add: settle_def data_run_def handle_data_client_def primary_def)

section \<open>The endpoint of a file\<close>

lemma nm_payload:
  assumes "plain_text type"
  shows "braces (fmt_str ''type'' type # map member_text kvs) = json_object ((''type'', JStr type) # kvs)"
  unfolding braces_object [symmetric] by (simp add: fmt_plain [OF assms])

lemma request_fields:
  assumes "json_ok kvs" and "''type'' \<notin> set (map fst kvs)" and "length type < 64"
  shows "json_get_string (json_object ((''type'', JStr type) # kvs)) ''type'' 64 = Some type"
    and "plain_key k \<Longrightarrow> k \<noteq> ''type'' \<Longrightarrow> map_of kvs k = Some (JStr v) \<Longrightarrow> length v < n \<Longrightarrow>
      json_get_string (json_object ((''type'', JStr type) # kvs)) k n = Some v"
proof -
  have ok: "json_ok ((''type'', JStr type) # kvs)" using assms(1) by (simp add: json_ok_def plain_key_def)
  have "plain_key ''type''" by (simp add: plain_key_def)
  from json_get_string_object [OF ok this, of type 64]
  show "json_get_string (json_object ((''type'', JStr type) # kvs)) ''type'' 64 = Some type" using assms(3) by simp
  show "json_get_string (json_object ((''type'', JStr type) # kvs)) k n = Some v"
    if "plain_key k" "k \<noteq> ''type''" "map_of kvs k = Some (JStr v)" "length v < n"
    using json_get_string_object [OF ok that(1), of v n] that(2-4) by simp
qed

definition endpoint_reply :: "string \<Rightarrow> storage_server \<Rightarrow> string \<Rightarrow> string \<Rightarrow> (string \<times> json_val) list \<Rightarrow> string" where
  "endpoint_reply n ss op token rest =
     json_object ([(''status'', JStr ''OK''), (''op'', JStr op), (''file'', JStr n), (''host'', JStr (ss_host ss)),
       (''port'', JStr (ss_data_port ss)), (''server'', JStr (ss_id ss)), (''ticket'', JStr token)] @ rest)"

definition sentence_member :: "int \<Rightarrow> (string \<times> json_val) list" where
  "sentence_member i = (if 0 \<le> i then [(''sentence'', JInt i)] else [])"

text \<open>Names of servers as the manager keeps them.\<close>

definition short_server :: "storage_server \<Rightarrow> bool" where
  "short_server ss \<longleftrightarrow> length (ss_host ss) < 64 \<and> length (ss_data_port ss) < 16 \<and> length (ss_id ss) < 64"

lemma length_ok_reply: "length (braces [fmt_str ''status'' ''OK'', extra]) = length extra + 16"
  by (simp add: braces_def fmt_str_def)

lemma respond_endpoint:
  assumes "short_server ss" and "length n < NM_MAX_NAME" and "op \<in> data_ops" and "plain_text token" "length token < 64" and "int_range i"
  shows "\<exists>extra. respond_with_endpoint n ss op token i = ReplyOk extra \<and> extra \<noteq> [] \<and>
    braces [fmt_str ''status'' ''OK'', extra] = endpoint_reply n ss op token (sentence_member i) \<and>
    length (endpoint_reply n ss op token (sentence_member i)) < MAX_JSON"
proof -
  note op = data_op [OF assms(3)]
  have len: "length (escape (ss_host ss)) < 256" "length (escape (ss_data_port ss)) < 64" "length (escape (ss_id ss)) < 256"
    "length (escape n) < 256" "length (escape token) < 256"
    using assms(1,2,5) length_escape [of "ss_host ss"] length_escape [of "ss_data_port ss"] length_escape [of "ss_id ss"]
      length_escape [of n] length_escape [of token]
    by (simp_all add: short_server_def NM_MAX_NAME_def)
  let ?ms = "[(''op'', JStr op), (''file'', JStr n), (''host'', JStr (ss_host ss)), (''port'', JStr (ss_data_port ss)),
    (''server'', JStr (ss_id ss)), (''ticket'', JStr token)] @ sentence_member i"
  let ?p1 = "commas [fmt_str ''op'' op, fmt_str ''file'' (escape n), fmt_str ''host'' (escape (ss_host ss)),
      fmt_str ''port'' (escape (ss_data_port ss))] @ '',''"
  let ?p2 = "commas [fmt_str ''server'' (escape (ss_id ss)), fmt_str ''ticket'' (escape token)]"
  let ?p3 = "if 0 \<le> i then [CHR '','' # fmt_int ''sentence'' i] else []"
  have digits: "length (show_int i) \<le> 20" by (rule length_show_long [OF int_range_long [OF assms(6)]])
  have body: "?p1 @ ?p2 @ concat ?p3 = members_text ?ms"
    unfolding fmt_plain [OF op(1)] fmt_member by (simp add: sentence_member_def)
  have small: "length ?p1 < 700" "length ?p2 < 600" "length (concat ?p3) < 50"
    using len op(2) digits by (simp_all add: fmt_str_def fmt_int_def)
  have app: "append_all (Some []) ([?p1, ?p2] @ ?p3) = Some (?p1 @ ?p2 @ concat ?p3)"
  proof (cases "0 \<le> i")
    case True
    then show ?thesis using small by (simp add: append_all_def MAX_JSON_def del: commas.simps)
  next
    case False
    then show ?thesis using small by (simp add: append_all_def MAX_JSON_def del: commas.simps)
  qed
  have "respond_with_endpoint n ss op token i = ReplyOk (members_text ?ms)"
    unfolding respond_with_endpoint_def json_escape_string_eq body [symmetric] using len app by (simp del: commas.simps)
  moreover have "members_text ?ms \<noteq> []" by (simp add: member_text_def)
  moreover have eq: "braces [fmt_str ''status'' ''OK'', members_text ?ms] = endpoint_reply n ss op token (sentence_member i)"
    unfolding fmt_plain [OF plain_text_literals(1)] endpoint_reply_def json_object_def braces_def by simp
  moreover have "length (endpoint_reply n ss op token (sentence_member i)) < MAX_JSON"
    unfolding eq [symmetric] body [symmetric] length_ok_reply length_append using small by (simp add: MAX_JSON_def del: commas.simps)
  ultimately show ?thesis by blast
qed

lemma endpoint_parses:
  assumes "short_server ss" and "length token < 64"
  shows "status_ok (endpoint_reply n ss op token (sentence_member i))"
    and "parse_nm_endpoint (endpoint_reply n ss op token (sentence_member i)) = Some (ss_host ss, ss_data_port ss, token)"
    and "0 \<le> i \<Longrightarrow> int_range i \<Longrightarrow> int_or (endpoint_reply n ss op token (sentence_member i)) ''sentence'' 0 = i"
proof -
  let ?kvs = "[(''status'', JStr ''OK''), (''op'', JStr op), (''file'', JStr n), (''host'', JStr (ss_host ss)),
       (''port'', JStr (ss_data_port ss)), (''server'', JStr (ss_id ss)), (''ticket'', JStr token)] @ sentence_member i"
  have ok: "json_ok ?kvs" by (simp add: json_ok_def plain_key_def sentence_member_def)
  have k: "plain_key ''status''" "plain_key ''host''" "plain_key ''port''" "plain_key ''ticket''" "plain_key ''sentence''"
    by (simp_all add: plain_key_def)
  show "status_ok (endpoint_reply n ss op token (sentence_member i))"
    using json_get_string_object [OF ok k(1)] by (simp add: status_ok_def endpoint_reply_def)
  have "json_get_string (endpoint_reply n ss op token (sentence_member i)) ''host'' 128 = Some (ss_host ss)"
    "json_get_string (endpoint_reply n ss op token (sentence_member i)) ''port'' 32 = Some (ss_data_port ss)"
    "json_get_string (endpoint_reply n ss op token (sentence_member i)) ''ticket'' 128 = Some token"
    using json_get_string_object [OF ok k(2)] json_get_string_object [OF ok k(3)] json_get_string_object [OF ok k(4)] assms
    by (simp_all add: endpoint_reply_def short_server_def)
  then show "parse_nm_endpoint (endpoint_reply n ss op token (sentence_member i)) = Some (ss_host ss, ss_data_port ss, token)"
    by (simp add: parse_nm_endpoint_def)
  show "int_or (endpoint_reply n ss op token (sentence_member i)) ''sentence'' 0 = i" if "0 \<le> i" "int_range i"
    using json_get_int_object [OF ok k(5), of i] that int32_fits [OF that(2)] int_range_long [OF that(2)]
    by (simp add: int_or_def endpoint_reply_def sentence_member_def long_range_def)
qed

text \<open>
  \<open>opens\<close>: the manager reaches the primary of the file, the user has the permission, and the names are
  short and need no escaping.
\<close>

definition opens :: "'g two_servers nm_os \<Rightarrow> os \<Rightarrow> os \<Rightarrow> ('g \<Rightarrow> nat \<times> 'g) \<Rightarrow> 'g two_servers nm_context \<Rightarrow> storage_server \<Rightarrow> storage_server
    \<Rightarrow> string \<Rightarrow> string \<Rightarrow> 32 word \<Rightarrow> bool" where
  "opens os os1 os2 rnd ctx ps bs n u perm \<longleftrightarrow>
     wired os os1 os2 rnd ctx ps bs \<and> short_server ps \<and>
     (case nm_find_file (nc_state ctx) n of
        None \<Rightarrow> False
      | Some e \<Rightarrow> file_has_access e u perm \<and> nm_get_server (nc_state ctx) (fe_ss e) = Some ps) \<and>
     plain_text n \<and> plain_text u \<and> length n < NM_MAX_NAME \<and> length u < NM_MAX_USER \<and>
     int_range (no_now os + TICKET_TTL) \<and> os_now os1 \<le> no_now os + TICKET_TTL"

text \<open>The ticket is at the primary when the manager answers.\<close>

definition ticket_ready :: "os \<Rightarrow> ss_context \<Rightarrow> string \<Rightarrow> string \<Rightarrow> string \<Rightarrow> string \<Rightarrow> bool" where
  "ticket_ready os1 src token u n op \<longleftrightarrow> length token < 64 \<and>
     (\<exists>t \<in> set (items (sc_tickets src)). ticket_matches token u n op t \<and> \<not> ticket_expired (os_now os1) t)"

lemma obtain_at_primary:
  assumes "opens os os1 os2 rnd ctx ps bs n u perm" and "nc_world ctx = (g, src, dst)" and "op \<in> data_ops"
  shows "\<exists>token ctx2 g1 tbl c. obtain_ticket_for_file os ctx n u perm op = (Inr (token, ps), ctx2) \<and>
    nc_world ctx2 = (g1, src\<lparr>nm_conn := c, sc_tickets := tbl\<rparr>, dst) \<and> plain_text token \<and>
    ticket_ready os1 (src\<lparr>nm_conn := c, sc_tickets := tbl\<rparr>) token u n op"
proof -
  obtain e where e: "nm_find_file (nc_state ctx) n = Some e" "file_has_access e u perm" "nm_get_server (nc_state ctx) (fe_ss e) = Some ps"
    and o: "wired os os1 os2 rnd ctx ps bs" "plain_text n" "plain_text u" "length n < NM_MAX_NAME" "length u < NM_MAX_USER"
      "int_range (no_now os + TICKET_TTL)" "os_now os1 \<le> no_now os + TICKET_TTL"
    using assms(1) by (auto simp: opens_def split: option.splits)
  obtain token ctx1 g1 tbl t c where i: "issue_ticket os ctx ps (fe_ss e) n u op = (Some token, ctx1)"
    "nc_world ctx1 = (g1, src\<lparr>nm_conn := c, sc_tickets := tbl\<rparr>, dst)" "nc_state ctx1 = nc_state ctx" "plain_text token"
    "length token < 64" "t \<in> set (items tbl)" "ticket_matches token u n op t" "tk_expiry t = no_now os + TICKET_TTL"
    using issue_at_primary [OF o(1) assms(2) o(2-6) assms(3), of "fe_ss e"] by blast
  have sel: "select_storage_server os ctx e = (Some (fe_ss e), ctx)" "nm_servers (nc_state ctx) ! nat (fe_ss e) = ps"
    using e(3) o(1) by (auto simp: select_storage_server_def nm_get_server_def wired_def server_is_available_def server_up_def split: if_splits)
  have "obtain_ticket_for_file os ctx n u perm op =
      (Inr (token, ps), set_state ctx1 (nm_cache_put (no_now os) (nc_state ctx1) n (fe_ss e)))"
    using e sel i(1) by (simp add: obtain_ticket_for_file_def numeral_2_eq_2)
  moreover have "\<not> ticket_expired (os_now os1) t" using o(7) i(8) by (simp add: ticket_expired_def)
  ultimately show ?thesis using i by (auto simp: set_state_def ticket_ready_def)
qed

lemma lookup_endpoint:
  assumes "opens os os1 os2 rnd ctx ps bs n u perm" and "nc_world ctx = (g, src, dst)" and "op \<in> data_ops"
    and "json_get_string json ''file'' NM_MAX_NAME = Some n"
    and "i = (if inc then case json_get_int json ''sentence'' of None \<Rightarrow> 0 | Some v \<Rightarrow> v else -1)" and "int_range i"
  shows "\<exists>token ctx2 g1 tbl c. nc_world ctx2 = (g1, src\<lparr>nm_conn := c, sc_tickets := tbl\<rparr>, dst) \<and>
    ticket_ready os1 (src\<lparr>nm_conn := c, sc_tickets := tbl\<rparr>) token u n op \<and>
    finish fresh_conn (handle_lookup_common os ctx u json op perm inc) =
      (True, ctx2, fresh_conn\<lparr>outbox := [endpoint_reply n ps op token (sentence_member i)]\<rparr>)"
proof -
  obtain token ctx2 g1 tbl c where t: "obtain_ticket_for_file os ctx n u perm op = (Inr (token, ps), ctx2)"
    "nc_world ctx2 = (g1, src\<lparr>nm_conn := c, sc_tickets := tbl\<rparr>, dst)" "plain_text token"
    "ticket_ready os1 (src\<lparr>nm_conn := c, sc_tickets := tbl\<rparr>) token u n op"
    using obtain_at_primary [OF assms(1-3)] by blast
  have o: "short_server ps" "length n < NM_MAX_NAME" "length token < 64"
    using assms(1) t(4) by (auto simp: opens_def ticket_ready_def)
  obtain extra where x: "respond_with_endpoint n ps op token i = ReplyOk extra" "extra \<noteq> []"
    "braces [fmt_str ''status'' ''OK'', extra] = endpoint_reply n ps op token (sentence_member i)"
    "length (endpoint_reply n ps op token (sentence_member i)) < MAX_JSON"
    using respond_endpoint [OF o(1,2) assms(3) t(3) o(3) assms(6)] by blast
  have "handle_lookup_common os ctx u json op perm inc = (ctx2, ReplyOk extra)"
    using t(1) x(1) assms(4,5) by (simp add: handle_lookup_common_def)
  moreover have "send_ok fresh_conn extra = (True, fresh_conn\<lparr>outbox := [endpoint_reply n ps op token (sentence_member i)]\<rparr>)"
    using x(2-4) by (simp add: send_ok_def conn_send_def)
  ultimately show ?thesis using t(2,4) by (auto simp: finish_def)
qed

definition op_perm :: "string \<Rightarrow> 32 word" where
  "op_perm op = (if op = ''WRITE'' then NM_PERM_WRITE else NM_PERM_READ)"

text \<open>The request of the client for the endpoint; a write names the sentence.\<close>

definition endpoint_members :: "string \<Rightarrow> string \<Rightarrow> int \<Rightarrow> (string \<times> json_val) list" where
  "endpoint_members op n i = (''file'', JStr n) # (if op = ''WRITE'' then [(''sentence'', JInt i)] else [])"

lemma endpoint_request_fields:
  assumes "op \<in> data_ops" and "length n < NM_MAX_NAME" and "int_range i"
  shows "json_get_string (json_object ((''type'', JStr op) # endpoint_members op n i)) ''type'' 64 = Some op"
    and "json_get_string (json_object ((''type'', JStr op) # endpoint_members op n i)) ''file'' NM_MAX_NAME = Some n"
    and "op = ''WRITE'' \<Longrightarrow> json_get_int (json_object ((''type'', JStr op) # endpoint_members op n i)) ''sentence'' = Some i"
proof -
  have ok: "json_ok ((''type'', JStr op) # endpoint_members op n i)"
    by (simp add: json_ok_def plain_key_def endpoint_members_def)
  have k: "plain_key ''type''" "plain_key ''file''" "plain_key ''sentence''" by (simp_all add: plain_key_def)
  show "json_get_string (json_object ((''type'', JStr op) # endpoint_members op n i)) ''type'' 64 = Some op"
    using json_get_string_object [OF ok k(1)] data_op(2) [OF assms(1)] by simp
  show "json_get_string (json_object ((''type'', JStr op) # endpoint_members op n i)) ''file'' NM_MAX_NAME = Some n"
    using json_get_string_object [OF ok k(2)] assms(2) by (simp add: endpoint_members_def)
  show "json_get_int (json_object ((''type'', JStr op) # endpoint_members op n i)) ''sentence'' = Some i" if "op = ''WRITE''"
    using json_get_int_object [OF ok k(3), of i] that int_range_long [OF assms(3)] int32_fits [OF assms(3)]
    by (simp add: endpoint_members_def long_range_def)
qed

lemma endpoint_body:
  assumes "op \<in> data_ops" and "length n < NM_MAX_NAME" and "int_range i"
  shows "nm_call env op (members_text (endpoint_members op n i)) w =
    ce_call env (json_object ((''type'', JStr op) # endpoint_members op n i)) w"
proof -
  note op = data_op [OF assms(1)]
  have eq: "braces [fmt_str ''type'' op, members_text (endpoint_members op n i)] = json_object ((''type'', JStr op) # endpoint_members op n i)"
    unfolding fmt_plain [OF op(1)] by (simp add: json_object_def braces_def endpoint_members_def)
  have "length (member_text (''file'', JStr n)) < 300" "length (member_text (''sentence'', JInt i)) < 100"
    using length_escape [of n] assms(2) length_show_long [OF int_range_long [OF assms(3)]]
    by (simp_all add: member_text_def NM_MAX_NAME_def)
  then have l: "length (members_text (endpoint_members op n i)) < 500" by (simp add: endpoint_members_def)
  then have "length (braces [fmt_str ''type'' op, members_text (endpoint_members op n i)]) < MAX_JSON"
    using op(2) by (simp add: braces_def fmt_str_def MAX_JSON_def)
  moreover have "members_text (endpoint_members op n i) \<noteq> []" by (simp add: endpoint_members_def member_text_def)
  ultimately show ?thesis using l unfolding nm_call_def Let_def by (simp add: eq MAX_JSON_def)
qed

lemma dispatch_lookup:
  assumes "json_get_string json ''type'' 64 = Some op" and "op \<in> data_ops"
  shows "handle_client_message os ctx c u json = finish c (handle_lookup_common os ctx u json op (op_perm op) (op = ''WRITE''))"
proof -
  consider "op = ''READ''" | "op = ''WRITE''" | "op = ''STREAM''" using assms(2) by (auto simp: data_ops_def)
  then show ?thesis
    by cases (simp_all add: assms(1) handle_client_message_def handle_client_read_def handle_client_write_def
        handle_client_stream_def op_perm_def)
qed

lemma endpoint_request:
  assumes "opens os os1 os2 rnd ctx ps bs n u (op_perm op)" and "nc_world ctx = (g, src, dst)" and "op \<in> data_ops" and "int_range i"
  shows "\<exists>token ctx2 g1 tbl c. nc_world ctx2 = (g1, src\<lparr>nm_conn := c, sc_tickets := tbl\<rparr>, dst) \<and>
    ticket_ready os1 (src\<lparr>nm_conn := c, sc_tickets := tbl\<rparr>) token u n op \<and>
    nm_request (system_env os os1 limit ps u) op (members_text (endpoint_members op n i)) (ctx, []) =
      (Inr (endpoint_reply n ps op token (sentence_member (if op = ''WRITE'' then i else -1))), ctx2, [])"
proof -
  let ?json = "json_object ((''type'', JStr op) # endpoint_members op n i)" and ?i = "if op = ''WRITE'' then i else -1"
  have n: "length n < NM_MAX_NAME" "short_server ps" using assms(1) by (auto simp: opens_def)
  note f = endpoint_request_fields [OF assms(3) n(1) assms(4)]
  have i: "?i = (if op = ''WRITE'' then case json_get_int ?json ''sentence'' of None \<Rightarrow> 0 | Some v \<Rightarrow> v else -1)"
    "int_range ?i" using f(3) assms(4) by (simp_all add: int_range_def INT_MIN_def INT_MAX_def)
  note msg = dispatch_lookup [OF f(1) assms(3), of os ctx fresh_conn u]
  obtain token ctx2 g1 tbl c where t: "nc_world ctx2 = (g1, src\<lparr>nm_conn := c, sc_tickets := tbl\<rparr>, dst)"
    "ticket_ready os1 (src\<lparr>nm_conn := c, sc_tickets := tbl\<rparr>) token u n op"
    "handle_client_message os ctx fresh_conn u ?json = (True, ctx2, fresh_conn\<lparr>outbox := [endpoint_reply n ps op token (sentence_member ?i)]\<rparr>)"
    using lookup_endpoint [OF assms(1-3) f(2) i] unfolding msg by metis
  have "ce_call (system_env os os1 limit ps u) ?json (ctx, []) = (Some (endpoint_reply n ps op token (sentence_member ?i)), ctx2, [])"
    using t(3) by (simp add: system_env_def system_call_def)
  moreover have "status_ok (endpoint_reply n ps op token (sentence_member ?i))"
    using endpoint_parses(1) [OF n(2)] t(2) unfolding ticket_ready_def by blast
  ultimately have "nm_request (system_env os os1 limit ps u) op (members_text (endpoint_members op n i)) (ctx, []) =
      (Inr (endpoint_reply n ps op token (sentence_member ?i)), ctx2, [])"
    unfolding nm_request_def endpoint_body [OF assms(3) n(1) assms(4)] by simp
  then show ?thesis using t(1,2) by blast
qed

lemma with_endpoint_at_primary:
  assumes "opens os os1 os2 rnd ctx ps bs n u (op_perm op)" and "nc_world ctx = (g, src, dst)" and "op \<in> data_ops" and "int_range i"
  shows "\<exists>token ctx2 g1 tbl c. nc_world ctx2 = (g1, src\<lparr>nm_conn := c, sc_tickets := tbl\<rparr>, dst) \<and>
    ticket_ready os1 (src\<lparr>nm_conn := c, sc_tickets := tbl\<rparr>) token u n op \<and>
    with_endpoint (system_env os os1 limit ps u) op (members_text (endpoint_members op n i)) (ctx, []) f failed =
      f (endpoint_reply n ps op token (sentence_member (if op = ''WRITE'' then i else -1))) (ss_host ps) (ss_data_port ps) token (ctx2, [])"
proof -
  obtain token ctx2 g1 tbl c where t: "nc_world ctx2 = (g1, src\<lparr>nm_conn := c, sc_tickets := tbl\<rparr>, dst)"
    "ticket_ready os1 (src\<lparr>nm_conn := c, sc_tickets := tbl\<rparr>) token u n op"
    "nm_request (system_env os os1 limit ps u) op (members_text (endpoint_members op n i)) (ctx, []) =
      (Inr (endpoint_reply n ps op token (sentence_member (if op = ''WRITE'' then i else -1))), ctx2, [])"
    using endpoint_request [OF assms, of limit] by blast
  have p: "short_server ps" "length token < 64" using assms(1) t(2) by (auto simp: opens_def ticket_ready_def)
  have "with_endpoint (system_env os os1 limit ps u) op (members_text (endpoint_members op n i)) (ctx, []) f failed =
      f (endpoint_reply n ps op token (sentence_member (if op = ''WRITE'' then i else -1))) (ss_host ps) (ss_data_port ps) token (ctx2, [])"
    unfolding with_endpoint_def t(3) by (simp only: endpoint_parses(2) [OF p] prod.case sum.case option.case)
  with t(1,2) show ?thesis by blast
qed

section \<open>Reading\<close>

lemma read_members: "members_text (endpoint_members ''READ'' n i) = file_body n" "members_text (endpoint_members ''STREAM'' n i) = file_body n"
  by (simp_all add: endpoint_members_def file_body_def fmt_member)

text \<open>C2: Reading end to end. A user who may read a file types \<^verbatim>\<open>READ\<close> with its name: the name manager issues a
  ticket and gives the address of the storage server, the client connects there and presents the ticket, and prints
  exactly the text that the server has on disk between two marks. The manager reaches the server, names
  are short and plain, and the document fits into a message.\<close>

theorem read_end_to_end:
  assumes "opens os os1 os2 rnd ctx ps bs n u NM_PERM_READ" and "nc_world ctx = (g, src, dst)" and "0 < limit"
    and "ctx_inv src" and "ss_lookup (sc_state src) n = Some f" and "plain_text (sf_name f)"
    and "readable_size f (file_text (os_env os1) (sc_disk src) f)"
  shows "\<exists>w. handle_read_cmd (system_env os os1 limit ps u) u n (ctx, []) =
    ([Out (''--- '' @ n @ '' ---'' @ endl @ file_text (os_env os1) (sc_disk src) f @ endl @ ''-----------'' @ endl)], True, w)"
proof -
  let ?env = "system_env os os1 limit ps u" and ?t = "file_text (os_env os1) (sc_disk src) f"
  have op: "''READ'' \<in> data_ops" "op_perm ''READ'' = NM_PERM_READ" "int_range 0"
    by (simp_all add: data_ops_def op_perm_def int_range_def INT_MIN_def INT_MAX_def)
  obtain token ctx2 g1 tbl c r where t: "nc_world ctx2 = (g1, src\<lparr>nm_conn := c, sc_tickets := tbl\<rparr>, dst)"
    "ticket_ready os1 (src\<lparr>nm_conn := c, sc_tickets := tbl\<rparr>) token u n ''READ''"
    "handle_read_cmd ?env u n (ctx, []) = ss_read ?env (ss_host ps) (ss_data_port ps) n u token (ctx2, [])"
    using with_endpoint_at_primary [OF assms(1) [folded op(2)] assms(2) op(1,3), of limit
        "\<lambda>response host port ticket w1. ss_read ?env host port n u ticket w1" "\<lambda>r. r"]
    unfolding handle_read_cmd_def read_members by blast
  let ?src = "src\<lparr>nm_conn := c, sc_tickets := tbl\<rparr>"
  obtain tk where tk: "length token < 64" "tk \<in> set (items (sc_tickets ?src))" "ticket_matches token u n ''READ'' tk"
    "\<not> ticket_expired (os_now os1) tk" using t(2) by (auto simp: ticket_ready_def)
  have len: "length n < SS_NAME_MAX" "length u < SS_USER_MAX" "mem_ok (os_env os1) (elem_size (sc_tickets ?src))"
    using assms(1) by (auto simp: opens_def wired_def SS_NAME_MAX_def SS_USER_MAX_def NM_MAX_NAME_def NM_MAX_USER_def)
  have out: "outbox (snd (data_run os1 limit ?src [read_payload n u token])) = [read_reply f ?t]"
    using data_client_read [OF _ _ assms(6) _ len(1,2) tk(1) len(3) tk(2-4) assms(3)] assms(4,5,7) by (simp add: data_run_def)
  have "ce_ss_call ?env (read_payload n u token) (ctx2, []) = (Some (read_reply f ?t), ctx2, [read_payload n u token])"
    using out t(1) by (simp add: system_env_def system_ss_call_def primary_def)
  moreover have "braces (data_fields ''READ'' n u token) = read_payload n u token"
    by (simp add: data_fields_def read_payload_format)
  moreover have "ce_connect ?env (ss_host ps) (ss_data_port ps) (ctx2, []) = (True, ctx2, [])" by (simp add: system_env_def)
  ultimately show ?thesis
    unfolding t(3) ss_read_def using read_payload_short [OF len(1,2) tk(1)] read_reply_parses [of f ?t] by (simp add: status_ok_def)
qed

text \<open>
  A small system: the servers of \<open>pair_ctx\<close>, and a manager that knows the file \<open>f\<close> of \<open>ann\<close> on the first
  of them.
\<close>

definition whole_ctx :: "nat two_servers nm_context" where
  "whole_ctx = pair_ctx\<lparr>nc_state := push_file demo_servers (new_file_entry ''f'' ''ann'' 0 2 7)\<rparr>"

abbreviation first_server :: storage_server where
  "first_server \<equiv> registered ''ss1'' ''host1'' ''9001'' ''9101'' 5"

abbreviation third_server :: storage_server where
  "third_server \<equiv> registered ''ss3'' ''host3'' ''9003'' ''9103'' 7"

lemma whole_entry:
  obtains e where "nm_find_file (nc_state whole_ctx) ''f'' = Some e" "strip e = new_file_entry ''f'' ''ann'' 0 2 7"
    "fe_owner e = ''ann''" "fe_ss e = 0"
proof -
  let ?e = "new_file_entry ''f'' ''ann'' 0 2 7"
  have e: "strip ?e = ?e" "fe_name ?e = ''f''" by (simp_all add: strip_def new_file_entry_def NM_MAX_NAME_def)
  obtain f where f: "nm_find_file (nc_state whole_ctx) ''f'' = Some f" "strip f = ?e"
    using push_demo(4) [OF e(1)] e(2) by (auto simp: whole_ctx_def)
  moreover have "fe_owner f = ''ann''" "fe_ss f = 0"
    using arg_cong [OF f(2), of fe_owner] arg_cong [OF f(2), of fe_ss] by (simp_all add: strip_def new_file_entry_def NM_MAX_USER_def)
  ultimately show thesis by (rule that)
qed

lemma whole_servers:
  "nm_get_server (nc_state whole_ctx) 0 = Some first_server" "nm_get_server (nc_state whole_ctx) 2 = Some third_server"
proof -
  have "strip (new_file_entry ''f'' ''ann'' 0 2 7) = new_file_entry ''f'' ''ann'' 0 2 7" by (simp add: strip_def new_file_entry_def)
  then have "nm_servers (nc_state whole_ctx) = nm_servers demo_servers"
    using arg_cong [OF push_demo(2), of _ nm_servers] by (simp add: whole_ctx_def tables_only_def)
  then show "nm_get_server (nc_state whole_ctx) 0 = Some first_server" "nm_get_server (nc_state whole_ctx) 2 = Some third_server"
    by (simp_all add: nm_get_server_def demo_servers_def)
qed

lemma whole_opens:
  assumes "perm = NM_PERM_READ \<or> perm = NM_PERM_WRITE"
  shows "opens pair_os demo_os demo_os (\<lambda>g. (g, Suc g)) whole_ctx first_server third_server ''f'' ''ann'' perm"
proof -
  obtain f where f: "nm_find_file (nc_state whole_ctx) ''f'' = Some f" "fe_owner f = ''ann''" "fe_ss f = 0" by (rule whole_entry)
  have "wired pair_os demo_os demo_os (\<lambda>g. (g, Suc g)) whole_ctx first_server third_server"
    by (simp add: wired_def pair_os_def pair_ctx_def whole_ctx_def demo_os_def good_env_def registered_def server_up_def
        find_server_peer_def demo_peers_def)
  moreover have "plain_text ''f''" "plain_text ''ann''" by (simp_all add: plain_text_def escape_char_def)
  moreover have "no_now pair_os + TICKET_TTL = 80" "os_now demo_os = 10" by (simp_all add: pair_os_def TICKET_TTL_def demo_os_def)
  ultimately show ?thesis
    using f whole_servers(1) assms
    by (auto simp: opens_def short_server_def registered_def file_has_access_def NM_MAX_NAME_def NM_MAX_USER_def int_range_def INT_MIN_def INT_MAX_def)
qed

lemma whole_world: "nc_world whole_ctx = (0, demo_ctx, demo_ctx\<lparr>sc_disk := Map.empty\<rparr>)"
  by (simp add: whole_ctx_def pair_ctx_def)

theorem read_end_to_end_witness:
  "\<exists>w. handle_read_cmd (system_env pair_os demo_os 9 first_server ''ann'') ''ann'' ''f'' (whole_ctx, []) =
    ([Out (''--- f ---'' @ endl @ ''A. B. C.'' @ endl @ ''-----------'' @ endl)], True, w)"
proof -
  have e: "os_env demo_os = good_env" "sc_disk demo_ctx = demo_disk" by (simp_all add: demo_os_def demo_ctx_def)
  have f: "sf_name demo_file = ''f''" "sf_word_count demo_file = 3" "sf_char_count demo_file = 8" by (simp_all add: demo_file_def)
  have p: "plain_text (sf_name demo_file)" by (simp add: f)
  have r: "readable_size demo_file (file_text (os_env demo_os) (sc_disk demo_ctx) demo_file)"
    by (simp add: e demo_text readable_size_def f escape_char_def ULLONG_MAX_def)
  from read_end_to_end [OF whole_opens whole_world _ demo_inv demo_lookup p r, of 9] show ?thesis by (auto simp: e demo_text)
qed

end
