(* ===== verification/Write_Session.thy ===== *)
theory Write_Session
  imports End_To_End
begin

text \<open>
  A write session end to end: the lines the user types at the client, the messages they
  become, and what the storage server does with them.
\<close>

section \<open>The lines of a session\<close>

definition insert_text :: "nat \<Rightarrow> string \<Rightarrow> string \<Rightarrow> string" where
  "insert_text k content t = join_words (insert_relocated (split_words t) k (split_words content))"

text \<open>The sentence after the edits, \<open>None\<close> when an index is out of range.\<close>

fun apply_edits :: "(nat \<times> string) list \<Rightarrow> string \<Rightarrow> string option" where
  "apply_edits [] t = Some t"
| "apply_edits ((k, content) # es) t =
     (if length (split_words t) < k then None else apply_edits es (insert_text k content t))"

definition edit_line :: "nat \<times> string \<Rightarrow> string" where
  "edit_line e = (case e of (k, content) \<Rightarrow> show_nat k @ SPACE # content @ [NEWLINE])"

text \<open>An edit that can be typed in a line of the client.\<close>

definition typable :: "nat \<times> string \<Rightarrow> bool" where
  "typable e \<longleftrightarrow> (case e of (k, content) \<Rightarrow>
     int k \<le> INT_MAX \<and> content \<noteq> [] \<and> \<not> is_space (hd content) \<and> NEWLINE \<notin> set content \<and> last content \<noteq> RETURN \<and>
     length content < 480)"

lemma small_digits: "int k \<le> INT_MAX \<Longrightarrow> length (show_nat k) \<le> 10"
  using length_show_nat [of k 9] by (simp add: INT_MAX_def)

lemma trim_newline_line: "s \<noteq> [] \<Longrightarrow> last s \<noteq> NEWLINE \<Longrightarrow> last s \<noteq> RETURN \<Longrightarrow> trim_newline (s @ [NEWLINE]) = s"
  by (cases s rule: rev_cases) (simp_all add: trim_newline_def)

lemma number_token:
  assumes "show_nat k = d # ds"
  shows "strtok [SPACE, TAB] (show_nat k @ SPACE # content) = (Some (show_nat k), content)"
proof -
  have nd: "c \<noteq> SPACE \<and> c \<noteq> TAB" if "c \<in> set (show_nat k)" for c
    using digit_chars [OF that] by (auto simp: is_digit_def)
  then have "dropWhile (\<lambda>c. c \<in> set [SPACE, TAB]) (show_nat k @ SPACE # content) = show_nat k @ SPACE # content"
    using assms by simp
  moreover have "takeWhile (\<lambda>c. c \<notin> set [SPACE, TAB]) (show_nat k @ SPACE # content) = show_nat k"
    using nd by (simp add: takeWhile_append)
  moreover have "dropWhile (\<lambda>c. c \<notin> set [SPACE, TAB]) (show_nat k @ SPACE # content) = SPACE # content"
    using nd by (simp add: dropWhile_append)
  ultimately show ?thesis by (simp add: strtok_def Let_def)
qed

lemma scan_number:
  assumes "int k \<le> INT_MAX"
  shows "scan_long (show_nat k) = Some (int k, [])" and "\<not> range_error (show_nat k)"
proof -
  have b: "LONG_MIN \<le> int k" "int k \<le> LONG_MAX" using assms by (simp_all add: INT_MAX_def LONG_MIN_def LONG_MAX_def)
  obtain d ds where d: "show_nat k = d # ds" "is_digit d"
    using show_nat_digits [of k] show_nat_nonempty [of k] by (cases "show_nat k") auto
  note nd = digit_not_space [OF d(2)]
  have drop: "dropWhile is_space (show_nat k) = show_nat k" using d nd by simp
  have "after_number (show_nat k) = []"
    using d nd show_nat_digits [of k] by (simp add: after_number_def list_all_iff dropWhile_eq_Nil_conv)
  then show "scan_long (show_nat k) = Some (int k, [])"
    using strtol_show_int [OF b, of "[]"] drop by (simp add: scan_long_def show_int_def starts_digit_def)
  show "\<not> range_error (show_nat k)"
    using d nd read_digits_show_nat [of k] b(2) by (simp add: range_error_def Let_def)
qed

lemma parse_edit_line:
  assumes "typable (k, content)"
  shows "parse_edit (edit_line (k, content)) = Insert (int k) content"
proof -
  obtain d ds where d: "show_nat k = d # ds" "is_digit d"
    using show_nat_digits [of k] show_nat_nonempty [of k] by (cases "show_nat k") auto
  have t: "int k \<le> INT_MAX" "content \<noteq> []" "\<not> is_space (hd content)" "last content \<noteq> NEWLINE" "last content \<noteq> RETURN"
    using assms by (auto simp: typable_def dest: last_in_set)
  let ?ptr = "show_nat k @ SPACE # content"
  have trim: "trim_newline (edit_line (k, content)) = ?ptr"
    using trim_newline_line [of ?ptr] t(2,4,5) by (simp add: edit_line_def)
  have ptr: "dropWhile is_space ?ptr = ?ptr" "?ptr \<noteq> []" using d digit_not_space by simp_all
  have big_e: "to_lower (CHR ''E'') = CHR ''e''" by code_simp
  have "to_lower d \<noteq> CHR ''e''" using d(2) by (auto simp: is_digit_def to_lower_def less_eq_char_def)
  then have no: "\<not> same_ignoring_case ?ptr ''ETIRW''"
    using d(1) big_e by (simp add: same_ignoring_case_def)
  have "int32 (int k) = int k" by (rule int32_fits) (use t(1) in \<open>simp add: int_range_def INT_MIN_def\<close>)
  moreover have skip: "dropWhile is_space content = content" using t(2,3) by (cases content) simp_all
  ultimately show ?thesis
    unfolding parse_edit_def trim Let_def ptr(1) number_token [OF d(1)] prod.case option.case skip
    using ptr(2) no t(2) scan_number [OF t(1)] by simp
qed

lemma parse_etirw: "parse_edit (''ETIRW'' @ [NEWLINE]) = Commit"
  by code_simp

lemma edit_line_read:
  assumes "typable e"
  shows "fgets 512 (edit_line e @ s) = (edit_line e, s)"
proof -
  obtain k content where e: "e = (k, content)" by fastforce
  have "NEWLINE \<notin> set (show_nat k)" using show_nat_plain by simp
  moreover have "NEWLINE \<notin> set content" "length (show_nat k) \<le> 10" "length content < 480"
    using assms e by (auto simp: typable_def dest: small_digits)
  ultimately show ?thesis
    using fgets_line [of "show_nat k @ SPACE # content" 512 s] by (simp add: e edit_line_def)
qed

section \<open>The messages\<close>

lemma insert_payload_object:
  "insert_payload k content = json_object [(''type'', JStr ''WRITE_INSERT''), (''index'', JInt k), (''content'', JStr content)]"
proof -
  have "plain_text ''WRITE_INSERT''" by (simp add: plain_text_def escape_char_def)
  from fmt_plain [OF this] show ?thesis
    unfolding insert_payload_def fmt_member braces_object [symmetric] by simp
qed

lemma insert_payload_fields:
  assumes "int k \<le> INT_MAX"
  shows "json_get_string (insert_payload (int k) content) ''type'' 64 = Some ''WRITE_INSERT''"
    and "json_get_int (insert_payload (int k) content) ''index'' = Some (int k)"
    and "json_get_string_alloc (insert_payload (int k) content) ''content'' = Some content"
proof -
  let ?kvs = "[(''type'', JStr ''WRITE_INSERT''), (''index'', JInt (int k)), (''content'', JStr content)]"
  have ok: "json_ok ?kvs" by (simp add: json_ok_def plain_key_def)
  have key: "plain_key ''type''" "plain_key ''index''" "plain_key ''content''" by (simp_all add: plain_key_def)
  have b: "LONG_MIN \<le> int k" "int k \<le> LONG_MAX" "int_range (int k)"
    using assms by (simp_all add: INT_MAX_def LONG_MIN_def LONG_MAX_def int_range_def INT_MIN_def)
  show "json_get_string (insert_payload (int k) content) ''type'' 64 = Some ''WRITE_INSERT''"
    unfolding insert_payload_object using json_get_string_object [OF ok key(1)] by simp
  show "json_get_int (insert_payload (int k) content) ''index'' = Some (int k)"
    unfolding insert_payload_object using json_get_int_object [OF ok key(2) _ b(1,2)] int32_fits [OF b(3)] by simp
  show "json_get_string_alloc (insert_payload (int k) content) ''content'' = Some content"
    unfolding insert_payload_object using json_get_string_alloc_object [OF ok key(3)] by simp
qed

lemma insert_payload_short:
  assumes "typable (k, content)"
  shows "length (insert_payload (int k) content) < MAX_JSON"
  using assms length_escape [of content] small_digits [of k]
  by (simp add: typable_def insert_payload_def braces_def fmt_str_def fmt_int_def show_int_def MAX_JSON_def)

section \<open>The server\<close>

definition step_reply :: "string \<Rightarrow> string" where
  "step_reply step = braces [fmt_str ''status'' ''OK'', fmt_str ''step'' step]"

lemma insert_step_ok: "status_ok (step_reply ''INSERT'')"
  by code_simp

lemma insert_message:
  assumes "ws_active s" and "int k \<le> INT_MAX" and "k \<le> length (split_words (sentence_text s))" and "length (outbox c) < send_limit c"
  shows "write_message os ctx c n u view s (insert_payload (int k) content) =
    (True, ctx, c\<lparr>outbox := outbox c @ [step_reply ''INSERT'']\<rparr>, s\<lparr>sentence_text := insert_text k content (sentence_text s)\<rparr>)"
proof -
  have "write_session_apply_insert s (int k) content = Ok (s\<lparr>sentence_text := insert_text k content (sentence_text s)\<rparr>)"
    using assms(1,3) by (simp add: write_session_apply_insert_def insert_text_def Let_def)
  moreover have "send_ok c (fmt_str ''step'' ''INSERT'') = (True, c\<lparr>outbox := outbox c @ [step_reply ''INSERT'']\<rparr>)"
    using assms(4) by (simp add: send_ok_def conn_send_def step_reply_def Let_def) (simp add: fmt_str_def braces_def MAX_JSON_def)
  ultimately show ?thesis
    by (simp add: write_message_def insert_payload_fields [OF assms(2)] edit_reply_def)
qed

abbreviation edit_payloads :: "(nat \<times> string) list \<Rightarrow> string list" where
  "edit_payloads es \<equiv> map (\<lambda>(k, content). insert_payload (int k) content) es"

lemma insert_messages:
  assumes "ws_active s" and "list_all typable es" and "apply_edits es (sentence_text s) = Some t"
    and "length (outbox c) + length es \<le> send_limit c"
  shows "write_loop os ctx c n u view s (edit_payloads es @ more_msgs) =
    write_loop os ctx (c\<lparr>outbox := outbox c @ replicate (length es) (step_reply ''INSERT'')\<rparr>) n u view (s\<lparr>sentence_text := t\<rparr>) more_msgs"
  using assms
proof (induction es arbitrary: s c)
  case (Cons e es)
  obtain k content where e: "e = (k, content)" by fastforce
  let ?s = "s\<lparr>sentence_text := insert_text k content (sentence_text s)\<rparr>" and ?c = "c\<lparr>outbox := outbox c @ [step_reply ''INSERT'']\<rparr>"
  have p: "int k \<le> INT_MAX" "k \<le> length (split_words (sentence_text s))" "length (outbox c) < send_limit c"
    "apply_edits es (sentence_text ?s) = Some t"
    using Cons.prems(2-4) e by (auto simp: typable_def split: if_splits)
  have "write_loop os ctx c n u view s (edit_payloads (e # es) @ more_msgs) =
      write_loop os ctx ?c n u view ?s (edit_payloads es @ more_msgs)"
    using insert_message [OF Cons.prems(1) p(1-3)] by (simp add: e)
  also have "\<dots> = write_loop os ctx (?c\<lparr>outbox := outbox ?c @ replicate (length es) (step_reply ''INSERT'')\<rparr>) n u view
      (?s\<lparr>sentence_text := t\<rparr>) more_msgs"
    by (rule Cons.IH) (use Cons.prems p in simp_all)
  finally show ?case by simp
next
  case Nil
  then have "s\<lparr>sentence_text := t\<rparr> = s" by auto
  then show ?case by simp
qed

lemma commit_own_disk:
  assumes "write_session_begin env d file user i = Ok s0"
    and "i < int (length (split_sentences (file_text env d file)))"
    and "int (length (split_sentences (file_text env d file))) < 2 ^ 27"
    and "wr_fault env (data_path file) = NoFault" and "wr_fault env (undo_path file) = NoFault"
    and "txt = join_sentences (take (nat i) (split_sentences (file_text env d file)) @ split_sentences t @
      drop (nat i + 1) (split_sentences (file_text env d file)))"
  shows "write_session_commit env d (s0\<lparr>sentence_text := t\<rparr>) file = (Ok (txt, count_words_in_text txt, length txt),
    d(tmp_path (undo_path file) := None, undo_path file := Some (file_text env d file),
      tmp_path (data_path file) := None, data_path file := Some txt))"
proof -
  let ?old = "file_text env d file"
  let ?d1 = "d(tmp_path (undo_path file) := None, undo_path file := Some ?old)"
  have st: "store_text_atomic env d (undo_path file) ?old = (?d1, True)"
    "store_text_atomic env ?d1 (data_path file) txt = (?d1(tmp_path (data_path file) := None, data_path file := Some txt), True)"
    using assms(4,5) by (simp_all add: store_ok_disk)
  have merged: "join_sentences (merge_sentences (split_sentences ?old) (split_sentences t) (nat i) True) = txt"
    using assms(6) by (simp add: merge_sentences_eq)
  show ?thesis
    unfolding write_session_commit_def Let_def begun_session_index(1) [OF assms(1-3)]
    using begun_session_index(2) [OF assms(1-3), of t] by (simp add: merged st)
qed

lemma session_begun:
  assumes "0 \<le> i" and "i < int (length (split_sentences (file_text env d f)))"
  shows "\<exists>s0. write_session_begin env d f u i = Ok s0 \<and> ws_active s0 \<and> sentence_text s0 = split_sentences (file_text env d f) ! nat i"
  using assms by (simp add: write_session_begin_def Let_def file_text_def)

definition begin_reply :: "int \<Rightarrow> string \<Rightarrow> string" where
  "begin_reply i sentence = json_object [(''status'', JStr ''OK''), (''mode'', JStr ''WRITE''), (''current'', JStr sentence), (''sentence'', JInt i)]"

lemma begin_reply_format:
  "braces [fmt_str ''status'' ''OK'', commas [fmt_str ''mode'' ''WRITE'', fmt_str ''current'' (escape s), fmt_int ''sentence'' i]] = begin_reply i s"
proof -
  have p: "plain_text ''OK''" "plain_text ''WRITE''" by (simp_all add: plain_text_def escape_char_def)
  show ?thesis
    unfolding begin_reply_def fmt_plain [OF p(1)] fmt_plain [OF p(2)] fmt_member by (simp add: braces_def json_object_def)
qed

lemma begin_reply_parses:
  "status_ok (begin_reply i s)" "json_get_string_alloc (begin_reply i s) ''current'' = Some s"
proof -
  let ?kvs = "[(''status'', JStr ''OK''), (''mode'', JStr ''WRITE''), (''current'', JStr s), (''sentence'', JInt i)]"
  have ok: "json_ok ?kvs" by (simp add: json_ok_def plain_key_def)
  have k: "plain_key ''status''" "plain_key ''current''" by (simp_all add: plain_key_def)
  show "status_ok (begin_reply i s)"
    unfolding status_ok_def begin_reply_def using json_get_string_object [OF ok k(1)] by simp
  show "json_get_string_alloc (begin_reply i s) ''current'' = Some s"
    unfolding begin_reply_def using json_get_string_alloc_object [OF ok k(2)] by simp
qed

text \<open>The state of the server while the sentence is locked.\<close>

definition locked_ctx :: "ss_context \<Rightarrow> sentence_lock array \<Rightarrow> string \<Rightarrow> string \<Rightarrow> int \<Rightarrow> ss_context" where
  "locked_ctx ctx locks n u i = set_file_lock_state (ctx\<lparr>sc_locks := locks\<rparr>) n True i (Some u)"

lemma locked_ctx_facts:
  assumes "ctx_inv ctx" and "ss_lookup (sc_state ctx) n = Some f"
    and "sentence_lock_acquire mem (sc_locks ctx) n i u = Ok locks" and "length n < 128"
  shows "ctx_inv (locked_ctx ctx locks n u i)" and "sc_disk (locked_ctx ctx locks n u i) = sc_disk ctx"
    and "\<exists>f1. ss_lookup (sc_state (locked_ctx ctx locks n u i)) n = Some f1 \<and> meta_path f1 = meta_path f"
proof -
  have inv: "ctx_inv (ctx\<lparr>sc_locks := locks\<rparr>)" by (rule acquire_inv [OF assms(1,3,4)])
  then show "ctx_inv (locked_ctx ctx locks n u i)" unfolding locked_ctx_def by (rule set_lock_inv)
  show "sc_disk (locked_ctx ctx locks n u i) = sc_disk ctx" by (simp add: locked_ctx_def set_file_lock_state_def)
  show "\<exists>f1. ss_lookup (sc_state (locked_ctx ctx locks n u i)) n = Some f1 \<and> meta_path f1 = meta_path f"
    using inv assms(2) by (simp add: locked_ctx_def set_file_lock_state_def ctx_inv_def ss_modify_lookup(2))
qed

lemma write_opens:
  assumes "ctx_inv ctx" and "ss_lookup (sc_state ctx) n = Some f"
    and "sentence_lock_acquire (mem_ok (os_env os)) (sc_locks ctx) n i u = Ok locks" and "length n < 128"
    and "write_session_begin (os_env os) (sc_disk ctx) f u i = Ok s0" and "int_range i"
    and "length (escape (sentence_text s0)) < 3800" and "length (outbox c) < send_limit c"
  shows "write_open os ctx c n u i =
    (locked_ctx ctx locks n u i, Inr (f, s0, c\<lparr>outbox := outbox c @ [begin_reply i (sentence_text s0)]\<rparr>))"
proof -
  let ?s = "sentence_text s0"
  let ?extra = "commas [fmt_str ''mode'' ''WRITE'', fmt_str ''current'' (escape ?s), fmt_int ''sentence'' i]"
  have snap: "snapshot_file ctx n = Some f" using assms(1,2) by (simp add: snapshot_lookup)
  have len: "length (show_int i) \<le> 20" by (rule length_show_long [OF int_range_long [OF assms(6)]])
  have small: "length ?extra < 3900" using assms(7) len by (simp add: fmt_str_def fmt_int_def)
  have "?extra \<noteq> []" by (simp add: fmt_str_def)
  moreover have "length (begin_reply i ?s) < MAX_JSON"
    unfolding begin_reply_format [symmetric] length_ok_reply using small by (simp add: MAX_JSON_def del: commas.simps)
  ultimately have send: "send_ok c ?extra = (True, c\<lparr>outbox := outbox c @ [begin_reply i ?s]\<rparr>)"
    using assms(8) by (simp add: send_ok_def conn_send_def Let_def begin_reply_format del: commas.simps)
  note disk = locked_ctx_facts(2) [OF assms(1-4)]
  show ?thesis
    unfolding write_open_def Let_def locked_ctx_def [symmetric]
    using small send by (simp add: snap assms(3,5) disk MAX_JSON_def del: commas.simps)
qed

text \<open>The reply to a commit.\<close>

definition commit_reply :: "string \<Rightarrow> string" where
  "commit_reply txt = json_object [(''status'', JStr ''OK''), (''step'', JStr ''COMMIT''), (''words'', JInt (int (count_words_in_text txt))),
     (''chars'', JInt (int (length txt))), (''content'', JStr txt)]"

lemma commit_reply_ok: "status_ok (commit_reply txt)"
  unfolding status_ok_def commit_reply_def
  by (subst json_get_string_object [where s = "''OK''"]) (simp_all add: json_ok_def plain_key_def)

lemma commit_reply_format:
  "braces [fmt_str ''status'' ''OK'', commas [fmt_str ''step'' ''COMMIT'', fmt_int ''words'' (int (count_words_in_text txt)),
     fmt_int ''chars'' (int (length txt)), fmt_str ''content'' (escape txt)]] = commit_reply txt"
proof -
  have p: "plain_text ''OK''" "plain_text ''COMMIT''" by (simp_all add: plain_text_def escape_char_def)
  show ?thesis
    unfolding commit_reply_def fmt_plain [OF p(1)] fmt_plain [OF p(2)] fmt_member by (simp add: braces_def json_object_def)
qed

lemma split_words_length: "length (split_words p) \<le> length p"
proof (induction p rule: split_words.induct)
  case (1 p)
  let ?start = "dropWhile is_blank p"
  show ?case
  proof (cases "?start = []")
    case False
    then obtain c cs where c: "?start = c # cs" "\<not> is_blank c" by (metis hd_dropWhile list.exhaust list.sel(1))
    have "length (split_words (dropWhile (\<lambda>c. \<not> is_blank c) ?start)) \<le> length (dropWhile (\<lambda>c. \<not> is_blank c) ?start)"
      by (rule "1.IH" [OF refl False])
    also have "\<dots> \<le> length cs" using c length_dropWhile_le [of "\<lambda>c. \<not> is_blank c" cs] by simp
    finally show ?thesis
      using False c length_dropWhile_le [of is_blank p] by (subst split_words.simps) simp
  qed (simp add: split_words.simps)
qed

lemma write_commits:
  assumes "ctx_inv ctx" and "ss_lookup (sc_state ctx) n = Some f1" "meta_path f1 = meta_path f" and "entry_paths f"
    and "write_session_begin (os_env os) (sc_disk ctx) f u i = Ok s0"
    and "i < int (length (split_sentences (file_text (os_env os) (sc_disk ctx) f)))"
    and "int (length (split_sentences (file_text (os_env os) (sc_disk ctx) f))) < 2 ^ 27"
    and "wr_fault (os_env os) (data_path f) = NoFault" and "wr_fault (os_env os) (undo_path f) = NoFault"
    and "txt = join_sentences (take (nat i) (split_sentences (file_text (os_env os) (sc_disk ctx) f)) @ split_sentences t @
      drop (nat i + 1) (split_sentences (file_text (os_env os) (sc_disk ctx) f)))"
    and "length (escape txt) < 3800" and "length (outbox c) < send_limit c"
  shows "\<exists>ctx2. write_commit os ctx c n u f (s0\<lparr>sentence_text := t\<rparr>) = (ctx2, c\<lparr>outbox := outbox c @ [commit_reply txt]\<rparr>) \<and>
    sc_disk ctx2 (data_path f) = Some txt"
proof -
  let ?d = "(sc_disk ctx)(tmp_path (undo_path f) := None, undo_path f := Some (file_text (os_env os) (sc_disk ctx) f),
      tmp_path (data_path f) := None, data_path f := Some txt)"
  let ?g = "\<lambda>file. (touch_content os u (count_words_in_text txt) (length txt) file)\<lparr>lock_active := False, lock_sentence := -1\<rparr>"
  have com: "write_session_commit (os_env os) (sc_disk ctx) (s0\<lparr>sentence_text := t\<rparr>) f = (Ok (txt, count_words_in_text txt, length txt), ?d)"
    by (rule commit_own_disk [OF assms(5-10)])
  obtain copy ctx1 where up: "update_entry os (ctx\<lparr>sc_disk := ?d\<rparr>) n ?g = (copy, ctx1)" by fastforce
  have inv: "ctx_inv (ctx\<lparr>sc_disk := ?d\<rparr>)" using assms(1) by simp
  have "copy \<noteq> None \<and> sc_disk ctx1 (data_path f) = Some txt"
  proof (rule update_entry_cases [OF inv _ up], goal_cases)
    case 1
    then show ?case by simp
  next
    case 2
    then show ?case using assms(2) by simp
  next
    case (3 f')
    then have "meta_path (?g f') = meta_path f" using assms(2,3) by (simp add: touch_content_def touch_def)
    with 3(1,6) assms(4) show ?case by (auto simp: entry_paths_def disk_simps)
  qed
  then obtain g where g: "copy = Some g" "sc_disk ctx1 (data_path f) = Some txt" by blast
  let ?extra = "commas [fmt_str ''step'' ''COMMIT'', fmt_int ''words'' (int (count_words_in_text txt)),
     fmt_int ''chars'' (int (length txt)), fmt_str ''content'' (escape txt)]"
  have len: "length txt < 3800" using length_escape [of "txt"] assms(11) by simp
  moreover have "count_words_in_text txt < 3800" using len split_words_length [of "txt"] by (simp add: count_words_split)
  ultimately have "length (show_int (int (length txt))) < 100" "length (show_int (int (count_words_in_text txt))) < 100"
    by (simp_all add: show_size ULLONG_MAX_def)
  then have small: "length ?extra < 4060" using assms(11) by (simp add: fmt_str_def fmt_int_def)
  have "?extra \<noteq> []" by (simp add: fmt_str_def)
  moreover have "length (commit_reply txt) < MAX_JSON"
    unfolding commit_reply_format [symmetric] length_ok_reply using small by (simp add: MAX_JSON_def del: commas.simps)
  ultimately have send: "send_ok c ?extra = (True, c\<lparr>outbox := outbox c @ [commit_reply txt]\<rparr>)"
    using assms(12) by (simp add: send_ok_def conn_send_def Let_def commit_reply_format del: commas.simps)
  have "write_commit os ctx c n u f (s0\<lparr>sentence_text := t\<rparr>) = (notify_nm_file_update ctx1 g, c\<lparr>outbox := outbox c @ [commit_reply txt]\<rparr>)"
    unfolding write_commit_def com prod.case res.case Let_def up g(1)
    using small send by (simp add: MAX_JSON_def del: commas.simps)
  with g(2) show ?thesis by auto
qed

section \<open>A session at the server\<close>

definition begin_payload :: "string \<Rightarrow> string \<Rightarrow> string \<Rightarrow> int \<Rightarrow> string" where
  "begin_payload n u token i =
     json_object [(''type'', JStr ''WRITE_BEGIN''), (''file'', JStr n), (''user'', JStr u), (''ticket'', JStr token), (''sentence'', JInt i)]"

lemma begin_payload_format: "braces (data_fields ''WRITE_BEGIN'' n u token @ [fmt_int ''sentence'' i]) = begin_payload n u token i"
proof -
  have p: "plain_text ''WRITE_BEGIN''" by (simp add: plain_text_def escape_char_def)
  show ?thesis unfolding data_fields_def fmt_plain [OF p] fmt_member begin_payload_def braces_object [symmetric] by simp
qed

lemma begin_payload_fields:
  assumes "length n < SS_NAME_MAX" and "length u < SS_USER_MAX" and "length token < 64" and "int_range i"
  shows "json_get_string (begin_payload n u token i) ''type'' 64 = Some ''WRITE_BEGIN''"
    and "json_get_string (begin_payload n u token i) ''file'' SS_NAME_MAX = Some n"
    and "json_get_string (begin_payload n u token i) ''user'' SS_USER_MAX = Some u"
    and "json_get_string (begin_payload n u token i) ''ticket'' 64 = Some token"
    and "json_get_int (begin_payload n u token i) ''sentence'' = Some i"
proof -
  let ?kvs = "[(''type'', JStr ''WRITE_BEGIN''), (''file'', JStr n), (''user'', JStr u), (''ticket'', JStr token), (''sentence'', JInt i)]"
  have ok: "json_ok ?kvs" by (simp add: json_ok_def plain_key_def)
  have k: "plain_key ''type''" "plain_key ''file''" "plain_key ''user''" "plain_key ''ticket''" "plain_key ''sentence''"
    by (simp_all add: plain_key_def)
  show "json_get_string (begin_payload n u token i) ''type'' 64 = Some ''WRITE_BEGIN''"
    unfolding begin_payload_def using json_get_string_object [OF ok k(1)] by simp
  show "json_get_string (begin_payload n u token i) ''file'' SS_NAME_MAX = Some n"
    unfolding begin_payload_def using json_get_string_object [OF ok k(2)] assms(1) by simp
  show "json_get_string (begin_payload n u token i) ''user'' SS_USER_MAX = Some u"
    unfolding begin_payload_def using json_get_string_object [OF ok k(3)] assms(2) by simp
  show "json_get_string (begin_payload n u token i) ''ticket'' 64 = Some token"
    unfolding begin_payload_def using json_get_string_object [OF ok k(4)] assms(3) by simp
  show "json_get_int (begin_payload n u token i) ''sentence'' = Some i"
    unfolding begin_payload_def
    using json_get_int_object [OF ok k(5), of i] int_range_long [OF assms(4)] int32_fits [OF assms(4)] by (simp add: long_range_def)
qed

lemma begin_payload_short:
  assumes "length n < SS_NAME_MAX" and "length u < SS_USER_MAX" and "length token < 64" and "int_range i"
  shows "length (begin_payload n u token i) < MAX_JSON"
  using assms(1-3) length_escape [of n] length_escape [of u] length_escape [of token] length_show_long [OF int_range_long [OF assms(4)]]
  unfolding begin_payload_format [symmetric]
  by (simp add: MAX_JSON_def SS_NAME_MAX_def SS_USER_MAX_def braces_def fmt_str_def fmt_int_def data_fields_def)

text \<open>\<open>session_at\<close>: the sentence can be locked and edited, and the answers fit.\<close>

definition session_at :: "os \<Rightarrow> ss_context \<Rightarrow> string \<Rightarrow> string \<Rightarrow> int \<Rightarrow> ss_file \<Rightarrow> bool" where
  "session_at os src n u i f \<longleftrightarrow>
     ctx_inv src \<and> ss_lookup (sc_state src) n = Some f \<and> length n < 128 \<and> length u < SS_USER_MAX \<and> 0 \<le> i \<and> int_range i \<and>
     i < int (length (split_sentences (file_text (os_env os) (sc_disk src) f))) \<and>
     int (length (split_sentences (file_text (os_env os) (sc_disk src) f))) < 2 ^ 27 \<and>
     length (escape (split_sentences (file_text (os_env os) (sc_disk src) f) ! nat i)) < 3800 \<and>
     sentence_lock_find (sc_locks src) n i = None \<and> (\<forall>m. mem_ok (os_env os) m)"

lemma session_at_tickets [simp]:
  "session_at os (src\<lparr>nm_conn := c\<rparr>) n u i f = session_at os src n u i f"
  "session_at os (src\<lparr>sc_tickets := tbl\<rparr>) n u i f = session_at os src n u i f"
  by (simp_all add: session_at_def)

lemma server_session:
  assumes "session_at os src n u i f" and "ticket_ready os src token u n ''WRITE''" and "0 < limit"
  obtains tbl locks s0 where "sentence_lock_acquire (mem_ok (os_env os)) (sc_locks src) n i u = Ok locks"
    "write_session_begin (os_env os) (sc_disk src) f u i = Ok s0" "ws_active s0"
    "sentence_text s0 = split_sentences (file_text (os_env os) (sc_disk src) f) ! nat i"
    "\<And>msgs. data_run os limit src (begin_payload n u token i # msgs) =
      (case write_loop os (locked_ctx (src\<lparr>sc_tickets := tbl\<rparr>) locks n u i)
         \<lparr>inbox = msgs, outbox = [begin_reply i (sentence_text s0)], send_limit = limit\<rparr> n u f s0 msgs of
         (ctx2, ok, c2) \<Rightarrow> (write_close ctx2 n u i, c2))"
proof -
  have a: "ctx_inv src" "ss_lookup (sc_state src) n = Some f" "length n < 128" "length u < SS_USER_MAX" "0 \<le> i" "int_range i"
    "i < int (length (split_sentences (file_text (os_env os) (sc_disk src) f)))"
    "length (escape (split_sentences (file_text (os_env os) (sc_disk src) f) ! nat i)) < 3800"
    "sentence_lock_find (sc_locks src) n i = None" "\<And>m. mem_ok (os_env os) m"
    using assms(1) by (auto simp: session_at_def)
  obtain tk where tk: "length token < 64" "tk \<in> set (items (sc_tickets src))" "ticket_matches token u n ''WRITE'' tk"
    "\<not> ticket_expired (os_now os) tk" using assms(2) by (auto simp: ticket_ready_def)
  obtain t' tbl where v: "validate_ticket (mem_ok (os_env os)) (os_now os) (sc_tickets src) token u n ''WRITE'' = (Ok t', tbl)"
    using ticket_validates [OF a(10) tk(2-4)] by blast
  have "\<exists>locks. array_push (mem_ok (os_env os)) (sc_locks src) \<lparr>sl_file = buf 128 n, sl_sentence = i, sl_user = buf 64 u\<rparr> = Some locks"
    by (rule array_push_mem) (rule a(10))
  then obtain locks where "array_push (mem_ok (os_env os)) (sc_locks src) \<lparr>sl_file = buf 128 n, sl_sentence = i, sl_user = buf 64 u\<rparr> = Some locks" ..
  then have locks: "sentence_lock_acquire (mem_ok (os_env os)) (sc_locks src) n i u = Ok locks"
    using a(9) by (simp add: sentence_lock_acquire_def)
  obtain s0 where s0: "write_session_begin (os_env os) (sc_disk src) f u i = Ok s0" "ws_active s0"
    "sentence_text s0 = split_sentences (file_text (os_env os) (sc_disk src) f) ! nat i"
    using session_begun [OF a(5,7)] by blast
  let ?src = "src\<lparr>sc_tickets := tbl\<rparr>"
  have n: "length n < SS_NAME_MAX" using a(3) by (simp add: SS_NAME_MAX_def)
  have "data_run os limit src (begin_payload n u token i # msgs) =
      (case write_loop os (locked_ctx ?src locks n u i)
         \<lparr>inbox = msgs, outbox = [begin_reply i (sentence_text s0)], send_limit = limit\<rparr> n u f s0 msgs of
         (ctx2, ok, c2) \<Rightarrow> (write_close ctx2 n u i, c2))" for msgs
  proof -
    let ?c = "\<lparr>inbox = msgs, outbox = [], send_limit = limit\<rparr>"
    have "write_open os ?src ?c n u i = (locked_ctx ?src locks n u i, Inr (f, s0, ?c\<lparr>outbox := outbox ?c @ [begin_reply i (sentence_text s0)]\<rparr>))"
      by (rule write_opens) (use a locks s0 assms(3) in simp_all)
    then have "handle_write os ?src ?c n u i =
        (case write_loop os (locked_ctx ?src locks n u i)
           \<lparr>inbox = msgs, outbox = [begin_reply i (sentence_text s0)], send_limit = limit\<rparr> n u f s0 msgs of
           (ctx2, ok, c2) \<Rightarrow> (write_close ctx2 n u i, ok, c2))"
      by (simp add: handle_write_def)
    moreover have "data_run os limit src (begin_payload n u token i # msgs) =
        with_ticket os src ?c token u n ''WRITE'' (\<lambda>x. handle_write os x ?c n u i)"
      by (simp add: data_run_def handle_data_client_def Let_def begin_payload_fields [OF n a(4) tk(1) a(6)])
    ultimately show ?thesis by (simp add: with_ticket_def v case_prod_unfold)
  qed
  with locks s0 show ?thesis by (rule that)
qed

lemma apply_edits_append: "apply_edits (a @ b) t = Option.bind (apply_edits a t) (apply_edits b)"
  by (induction a t rule: apply_edits.induct) auto

abbreviation commit_msg :: string where
  "commit_msg \<equiv> braces [fmt_str ''type'' ''WRITE_COMMIT'']"

lemma commit_msg_type: "json_get_string commit_msg ''type'' 64 = Some ''WRITE_COMMIT''"
  by code_simp

lemma run_edits:
  assumes "session_at os src n u i f" and "ticket_ready os src token u n ''WRITE''" and "list_all typable es"
    and "apply_edits es (split_sentences (file_text (os_env os) (sc_disk src) f) ! nat i) = Some t" and "length es < limit"
  shows "outbox (snd (data_run os limit src (begin_payload n u token i # edit_payloads es))) =
    begin_reply i (split_sentences (file_text (os_env os) (sc_disk src) f) ! nat i) # replicate (length es) (step_reply ''INSERT'')"
proof -
  have "0 < limit" using assms(5) by simp
  from server_session [OF assms(1,2) this]
  obtain tbl locks s0 where s: "sentence_text s0 = split_sentences (file_text (os_env os) (sc_disk src) f) ! nat i" "ws_active s0"
    and run: "\<And>msgs. data_run os limit src (begin_payload n u token i # msgs) =
      (case write_loop os (locked_ctx (src\<lparr>sc_tickets := tbl\<rparr>) locks n u i)
         \<lparr>inbox = msgs, outbox = [begin_reply i (sentence_text s0)], send_limit = limit\<rparr> n u f s0 msgs of
         (ctx2, ok, c2) \<Rightarrow> (write_close ctx2 n u i, c2))" by metis
  have es: "apply_edits es (sentence_text s0) = Some t" using assms(4) s(1) by simp
  show ?thesis
    using insert_messages [OF s(2) assms(3) es, where more_msgs = "[]"] assms(5)
    unfolding run by (simp add: s(1))
qed

lemma run_commit:
  assumes "session_at os src n u i f" and "ticket_ready os src token u n ''WRITE''" and "list_all typable es"
    and "apply_edits es (split_sentences (file_text (os_env os) (sc_disk src) f) ! nat i) = Some t" and "length es + 1 < limit"
    and "entry_paths f" and "wr_fault (os_env os) (data_path f) = NoFault" and "wr_fault (os_env os) (undo_path f) = NoFault"
    and "txt = join_sentences (take (nat i) (split_sentences (file_text (os_env os) (sc_disk src) f)) @ split_sentences t @
      drop (nat i + 1) (split_sentences (file_text (os_env os) (sc_disk src) f)))" and "length (escape txt) < 3800"
  shows "outbox (snd (data_run os limit src (begin_payload n u token i # edit_payloads es @ [commit_msg]))) =
      begin_reply i (split_sentences (file_text (os_env os) (sc_disk src) f) ! nat i) # replicate (length es) (step_reply ''INSERT'') @
      [commit_reply txt]"
    and "sc_disk (fst (data_run os limit src (begin_payload n u token i # edit_payloads es @ [commit_msg]))) (data_path f) = Some txt"
proof -
  have pos: "0 < limit" using assms(5) by simp
  from server_session [OF assms(1,2) this]
  obtain tbl locks s0 where s: "sentence_lock_acquire (mem_ok (os_env os)) (sc_locks src) n i u = Ok locks"
      "write_session_begin (os_env os) (sc_disk src) f u i = Ok s0" "ws_active s0"
      "sentence_text s0 = split_sentences (file_text (os_env os) (sc_disk src) f) ! nat i"
    and run: "\<And>msgs. data_run os limit src (begin_payload n u token i # msgs) =
      (case write_loop os (locked_ctx (src\<lparr>sc_tickets := tbl\<rparr>) locks n u i)
         \<lparr>inbox = msgs, outbox = [begin_reply i (sentence_text s0)], send_limit = limit\<rparr> n u f s0 msgs of
         (ctx2, ok, c2) \<Rightarrow> (write_close ctx2 n u i, c2))" by metis
  let ?ctx = "locked_ctx (src\<lparr>sc_tickets := tbl\<rparr>) locks n u i"
  let ?outs = "begin_reply i (sentence_text s0) # replicate (length es) (step_reply ''INSERT'')"
  let ?msgs = "edit_payloads es @ [commit_msg]"
  let ?c = "\<lparr>inbox = ?msgs, outbox = ?outs, send_limit = limit\<rparr>"
  have a: "ctx_inv (src\<lparr>sc_tickets := tbl\<rparr>)" "ss_lookup (sc_state (src\<lparr>sc_tickets := tbl\<rparr>)) n = Some f" "length n < 128"
    "i < int (length (split_sentences (file_text (os_env os) (sc_disk src) f)))"
    "int (length (split_sentences (file_text (os_env os) (sc_disk src) f))) < 2 ^ 27"
    using assms(1) by (simp_all add: session_at_def)
  have acq: "sentence_lock_acquire (mem_ok (os_env os)) (sc_locks (src\<lparr>sc_tickets := tbl\<rparr>)) n i u = Ok locks" using s(1) by simp
  note lk = locked_ctx_facts [OF a(1,2) acq a(3)]
  have d: "sc_disk ?ctx = sc_disk src" using lk(2) by simp
  obtain f1 where f1: "ss_lookup (sc_state ?ctx) n = Some f1" "meta_path f1 = meta_path f" using lk(3) by blast
  obtain ctx2 where ctx2: "write_commit os ?ctx ?c n u f (s0\<lparr>sentence_text := t\<rparr>) = (ctx2, ?c\<lparr>outbox := outbox ?c @ [commit_reply txt]\<rparr>)"
    "sc_disk ctx2 (data_path f) = Some txt"
    using write_commits [OF lk(1) f1 assms(6), where os = os and u = u and i = i and c = ?c and t = t]
      s(2) a(4,5) assms(5,7-10) unfolding d by auto
  have es: "apply_edits es (sentence_text s0) = Some t" using assms(4) s(4) by simp
  have loop: "write_loop os ?ctx \<lparr>inbox = ?msgs, outbox = [begin_reply i (sentence_text s0)], send_limit = limit\<rparr> n u f s0 ?msgs =
      (ctx2, True, ?c\<lparr>outbox := outbox ?c @ [commit_reply txt], inbox := []\<rparr>)"
    using insert_messages [OF s(3) assms(3) es, where more_msgs = "[commit_msg]"] assms(5) ctx2(1)
    by (simp add: write_message_def commit_msg_type)
  show "outbox (snd (data_run os limit src (begin_payload n u token i # ?msgs))) =
      begin_reply i (split_sentences (file_text (os_env os) (sc_disk src) f) ! nat i) # replicate (length es) (step_reply ''INSERT'') @
      [commit_reply txt]"
    unfolding run loop by (simp add: s(4))
  show "sc_disk (fst (data_run os limit src (begin_payload n u token i # ?msgs))) (data_path f) = Some txt"
    unfolding run loop using ctx2(2) by (simp add: write_close_def set_file_lock_state_def)
qed

section \<open>A session at the client\<close>

lemma edit_call:
  assumes "primary ctx = src" and "session_at os1 src n u i f" and "ticket_ready os1 src token u n ''WRITE''" and "list_all typable (pre @ [(k, content)])"
    and "apply_edits (pre @ [(k, content)]) (split_sentences (file_text (os_env os1) (sc_disk src) f) ! nat i) = Some t" and "length pre + 1 < limit"
  shows "ce_ss_call (system_env os os1 limit ps u) (insert_payload (int k) content) (ctx, begin_payload n u token i # edit_payloads pre) =
    (Some (step_reply ''INSERT''), ctx, begin_payload n u token i # edit_payloads (pre @ [(k, content)]))"
  using run_edits [OF assms(2-5), of limit] assms(1,6) by (simp add: system_env_def system_ss_call_def nth_append nth_Cons')

lemma client_lines:
  assumes "primary ctx = src" and "session_at os1 src n u i f" and "ticket_ready os1 src token u n ''WRITE''" and "list_all typable (pre @ es)"
    and "apply_edits (pre @ es) (split_sentences (file_text (os_env os1) (sc_disk src) f) ! nat i) = Some t" and "length (pre @ es) < limit"
  shows "write_lines (system_env os os1 limit ps u) (concat (map edit_line es) @ ''ETIRW'' @ NEWLINE # rest)
      (ctx, begin_payload n u token i # edit_payloads pre) =
    (True, replicate (length es + 1) (Out ''write> ''), rest, ctx, begin_payload n u token i # edit_payloads (pre @ es))"
  using assms(4-6)
proof (induction es arbitrary: pre)
  case Nil
  have "fgets 512 (''ETIRW'' @ NEWLINE # rest) = (''ETIRW'' @ [NEWLINE], rest)" by (rule fgets_line) simp_all
  then show ?case by (subst write_lines.simps) (simp add: Let_def parse_etirw [simplified])
next
  case (Cons e es)
  obtain k content where e: "e = (k, content)" by fastforce
  let ?env = "system_env os os1 limit ps u" and ?b = "begin_payload n u token i"
  let ?input = "concat (map edit_line es) @ ''ETIRW'' @ NEWLINE # rest"
  have ty: "typable (k, content)" using Cons.prems(1) e by simp
  obtain t1 where t1: "apply_edits (pre @ [(k, content)]) (split_sentences (file_text (os_env os1) (sc_disk src) f) ! nat i) = Some t1"
    using Cons.prems(2) e apply_edits_append [of "pre @ [e]" es] by (auto simp: bind_eq_Some_conv)
  have call: "ce_ss_call ?env (insert_payload (int k) content) (ctx, ?b # edit_payloads pre) =
      (Some (step_reply ''INSERT''), ctx, ?b # edit_payloads (pre @ [(k, content)]))"
    by (rule edit_call [OF assms(1-3) _ t1]) (use Cons.prems(1,3) e in simp_all)
  have IH: "write_lines ?env ?input (ctx, ?b # edit_payloads (pre @ [(k, content)])) =
      (True, replicate (length es + 1) (Out ''write> ''), rest, ctx, ?b # edit_payloads ((pre @ [(k, content)]) @ es))"
    by (rule Cons.IH) (use Cons.prems e in simp_all)
  have ne: "edit_line e @ ?input \<noteq> []" by (simp add: e edit_line_def)
  have "write_lines ?env (edit_line e @ ?input) (ctx, ?b # edit_payloads pre) =
      (True, replicate (length (e # es) + 1) (Out ''write> ''), rest, ctx, ?b # edit_payloads (pre @ e # es))"
    unfolding write_lines.simps [of ?env "edit_line e @ ?input"] edit_line_read [OF ty, folded e] Let_def fst_conv snd_conv
      parse_edit_line [OF ty, folded e] edit.case
    using ne insert_payload_short [OF ty] call IH insert_step_ok e by simp
  then show ?case by simp
qed

lemma ends_with: "\<exists>out. a # b # ys @ [c] = out @ [c]"
  by (rule exI [of _ "a # b # ys"]) simp

text \<open>The session of the client once it has its ticket.\<close>

lemma client_session:
  assumes "primary ctx = src" and "session_at os1 src n u i f" and "ticket_ready os1 src token u n ''WRITE''" and "list_all typable es"
    and "length es + 1 < limit" and "ss = split_sentences (file_text (os_env os1) (sc_disk src) f)" and "apply_edits es (ss ! nat i) = Some t"
    and "new = join_sentences (take (nat i) ss @ split_sentences t @ drop (nat i + 1) ss)" and "length (escape new) < 3800"
    and "entry_paths f" and "wr_fault (os_env os1) (data_path f) = NoFault" and "wr_fault (os_env os1) (undo_path f) = NoFault"
    and "input = concat (map edit_line es) @ ''ETIRW'' @ NEWLINE # rest"
  shows "\<exists>out w. ss_write_session (system_env os os1 limit ps u) (ss_host ps) (ss_data_port ps) n u token i input (ctx, []) =
      ((out @ [Out (''Write committed.'' @ endl)], True, w), rest) \<and>
    sc_disk (primary (settle os1 limit w)) (data_path f) = Some new"
proof -
  let ?env = "system_env os os1 limit ps u" and ?b = "begin_payload n u token i"
  note p = assms(1)
  have i: "0 \<le> i" "int_range i" "length n < SS_NAME_MAX" "length u < SS_USER_MAX" "length token < 64"
    using assms(2,3) by (auto simp: session_at_def ticket_ready_def SS_NAME_MAX_def)
  have start: "ce_ss_call ?env ?b (ctx, []) = (Some (begin_reply i (ss ! nat i)), ctx, [?b])"
    using run_edits [OF assms(2,3), of "[]" "ss ! nat i" limit] assms(5,6) by (simp add: system_env_def system_ss_call_def p)
  have lines: "write_lines ?env input (ctx, [?b]) =
      (True, replicate (length es + 1) (Out ''write> ''), rest, ctx, ?b # edit_payloads es)"
    using client_lines [OF p assms(2,3), of "[]" es t limit os ps rest] assms(4-7,13) by simp
  note com = run_commit [OF assms(2,3,4) _ assms(5,10-12), of t new, folded assms(6)]
  have fin: "ce_ss_call ?env commit_msg (ctx, ?b # edit_payloads es) = (Some (commit_reply new), ctx, ?b # edit_payloads es @ [commit_msg])"
    using com(1) assms(7-9) by (simp add: system_env_def system_ss_call_def p nth_append)
  have conn: "ce_connect ?env (ss_host ps) (ss_data_port ps) (ctx, []) = (True, ctx, [])" by (simp add: system_env_def)
  have "finish_write ?env True (ctx, ?b # edit_payloads es) =
      ([Out (''Write committed.'' @ endl)], True, ctx, ?b # edit_payloads es @ [commit_msg])"
    by (simp add: finish_write_def fin commit_reply_ok)
  then have "\<exists>out. ss_write_session ?env (ss_host ps) (ss_data_port ps) n u token i input (ctx, []) =
      ((out @ [Out (''Write committed.'' @ endl)], True, ctx, ?b # edit_payloads es @ [commit_msg]), rest)"
    unfolding ss_write_session_def conn Let_def begin_payload_format
    using begin_payload_short [OF i(3,4,5,2)] by (simp add: start begin_reply_parses lines ends_with del: replicate.simps)
  moreover have "sc_disk (primary (settle os1 limit (ctx, ?b # edit_payloads es @ [commit_msg]))) (data_path f) = Some new"
    using com(2) assms(7-9) by (simp add: settle_def primary_def [of "_\<lparr>nc_world := _\<rparr>"] p)
  ultimately show ?thesis by blast
qed

text \<open>C1: Writing end to end. A user who may write a file types \<^verbatim>\<open>WRITE\<close>, then lines \<open><index> <text>\<close> and
  \<^verbatim>\<open>ETIRW\<close>. The client asks the name manager for the server and a ticket, opens the
  session there, sends each line and commits; the command succeeds, reads exactly these lines from its input, and
  the storage server then has the document with exactly the chosen sentence replaced by the edited one. The
  sentence is free, the indices are in range, and names, lines and the document are of moderate size.\<close>

theorem write_end_to_end:
  assumes "opens os os1 os2 rnd ctx ps bs n u NM_PERM_WRITE" and "nc_world ctx = (g, src, dst)"
    and "session_at os1 src n u i f" and "list_all typable es" and "length es + 1 < limit"
    and "ss = split_sentences (file_text (os_env os1) (sc_disk src) f)" and "apply_edits es (ss ! nat i) = Some t"
    and "new = join_sentences (take (nat i) ss @ split_sentences t @ drop (nat i + 1) ss)" and "length (escape new) < 3800"
    and "entry_paths f" and "wr_fault (os_env os1) (data_path f) = NoFault" and "wr_fault (os_env os1) (undo_path f) = NoFault"
  shows "\<exists>out w. handle_write_cmd (system_env os os1 limit ps u) u n i (concat (map edit_line es) @ ''ETIRW'' @ NEWLINE # rest) (ctx, []) =
      ((out @ [Out (''Write committed.'' @ endl)], True, w), rest) \<and>
    sc_disk (primary (settle os1 limit w)) (data_path f) = Some new"
proof -
  let ?env = "system_env os os1 limit ps u"
  define input where "input = concat (map edit_line es) @ ''ETIRW'' @ NEWLINE # rest"
  have op: "''WRITE'' \<in> data_ops" "op_perm ''WRITE'' = NM_PERM_WRITE" by (simp_all add: data_ops_def op_perm_def)
  have i: "0 \<le> i" "int_range i" using assms(3) by (auto simp: session_at_def)
  have body: "members_text (endpoint_members ''WRITE'' n i) = commas [file_body n, fmt_int ''sentence'' i]"
    by (simp add: endpoint_members_def file_body_def fmt_member)
  obtain token ctx2 g1 tbl c where t: "nc_world ctx2 = (g1, src\<lparr>nm_conn := c, sc_tickets := tbl\<rparr>, dst)"
    "ticket_ready os1 (src\<lparr>nm_conn := c, sc_tickets := tbl\<rparr>) token u n ''WRITE''"
    "handle_write_cmd ?env u n i input (ctx, []) =
      ss_write_session ?env (ss_host ps) (ss_data_port ps) n u token (int_or (endpoint_reply n ps ''WRITE'' token (sentence_member i)) ''sentence'' 0) input (ctx2, [])"
    using with_endpoint_at_primary [OF assms(1) [folded op(2)] assms(2) op(1) i(2), of limit
        "\<lambda>response host port ticket w1. ss_write_session ?env host port n u ticket (int_or response ''sentence'' 0) input w1" "\<lambda>r. (r, input)"]
    unfolding handle_write_cmd_def body simp_thms if_True by blast
  have tk: "length token < 64" "short_server ps" using t(2) assms(1) by (auto simp: ticket_ready_def opens_def)
  have sentence: "int_or (endpoint_reply n ps ''WRITE'' token (sentence_member i)) ''sentence'' 0 = i"
    by (rule endpoint_parses(3) [OF tk(2,1) i])
  have p: "primary ctx2 = src\<lparr>nm_conn := c, sc_tickets := tbl\<rparr>" using t(1) by (simp add: primary_def)
  show ?thesis
    unfolding input_def [symmetric] t(3) sentence
    by (rule client_session [OF p _ t(2) assms(4,5) _ assms(7-12) input_def]) (use assms(3,6) in simp_all)
qed

text \<open>\<open>ann\<close> puts a word before the second sentence of her file.\<close>

theorem write_end_to_end_witness:
  "\<exists>out w. handle_write_cmd (system_env pair_os demo_os 9 first_server ''ann'') ''ann'' ''f'' 1
      (''0 X'' @ NEWLINE # ''ETIRW'' @ NEWLINE # ''HELP'') (whole_ctx, []) =
      ((out @ [Out (''Write committed.'' @ endl)], True, w), ''HELP'') \<and>
    sc_disk (primary (settle demo_os 9 w)) ''files/f'' = Some (''A.'' @ NEWLINE # ''X B.'' @ NEWLINE # ''C.'')"
proof -
  let ?new = "''A.'' @ NEWLINE # ''X B.'' @ NEWLINE # ''C.''"
  have e: "os_env demo_os = good_env" "sc_disk demo_ctx = demo_disk" by (simp_all add: demo_os_def demo_ctx_def)
  have good: "wr_fault good_env q = NoFault" for q by (simp add: good_env_def)
  have mem: "\<forall>m. mem_ok good_env m" by (simp add: good_env_def)
  have ss: "[''A.'', ''B.'', ''C.''] = split_sentences (file_text (os_env demo_os) (sc_disk demo_ctx) demo_file)"
    by (simp add: e demo_text demo_sentences)
  have "sentence_lock_find (sc_locks demo_ctx) ''f'' 1 = None" by (simp add: demo_ctx_def sentence_lock_find_def)
  then have at: "session_at demo_os demo_ctx ''f'' ''ann'' 1 demo_file"
    unfolding session_at_def ss [symmetric]
    using demo_inv demo_lookup mem by (simp add: e SS_USER_MAX_def int_range_def INT_MIN_def INT_MAX_def escape_char_def)
  have ty: "list_all typable [(0, ''X'')]" by (simp add: typable_def INT_MAX_def is_space_def)
  have edits: "apply_edits [(0, ''X'')] ([''A.'', ''B.'', ''C.''] ! nat 1) = Some ''X B.''" by code_simp
  have new: "?new = join_sentences (take (nat 1) [''A.'', ''B.'', ''C.''] @ split_sentences ''X B.'' @ drop (nat 1 + 1) [''A.'', ''B.'', ''C.''])"
    by code_simp
  have short: "length (escape ?new) < 3800" by (simp add: escape_char_def)
  have input: "concat (map edit_line [(0, ''X'')]) @ ''ETIRW'' @ NEWLINE # ''HELP'' = ''0 X'' @ NEWLINE # ''ETIRW'' @ NEWLINE # ''HELP''"
    by code_simp
  have path: "data_path demo_file = ''files/f''" by (simp add: demo_file_def)
  from write_end_to_end [OF whole_opens whole_world at ty _ ss edits new short demo_entry_paths, of 9 "''HELP''"]
  show ?thesis unfolding input path e(1) by (simp only: good) simp
qed

end
