(* ===== verification/Client_Time.thy ===== *)
theory Client_Time
  imports Client_Show
begin

text \<open>
  The time stamps the client prints, \<^verbatim>\<open>format_timestamp\<close> of \<^verbatim>\<open>client/cli_main.c\<close>: the date and time of day in
  India determine the time stamp.
\<close>

section \<open>Reading the text\<close>

text \<open>The time stamp of a text \<open>dd-mm-yyyy HH:MM:SS\<close> in Indian time.\<close>

definition number_at :: "nat \<Rightarrow> nat \<Rightarrow> string \<Rightarrow> nat" where
  "number_at i n s = read_digits 0 (take n (drop i s))"

definition read_timestamp :: "string \<Rightarrow> int" where
  "read_timestamp s =
     int (day_number (number_at 6 4 s) (number_at 3 2 s) (number_at 0 2 s) * 86400 +
          number_at 11 2 s * 3600 + number_at 14 2 s * 60 + number_at 17 2 s) - int IST_OFFSET_SECONDS"

abbreviation stamp_text :: "nat \<Rightarrow> nat \<Rightarrow> string \<Rightarrow> nat \<Rightarrow> nat \<Rightarrow> nat \<Rightarrow> string" where
  "stamp_text d m yy h mi s \<equiv>
     two_digits d @ ''-'' @ two_digits m @ ''-'' @ yy @ '' '' @ two_digits h @ '':'' @ two_digits mi @ '':'' @ two_digits s"

lemma stamp_numbers:
  assumes "length yy = 4"
  shows "number_at 0 2 (stamp_text d m yy h mi s) = read_digits 0 (two_digits d)"
    and "number_at 3 2 (stamp_text d m yy h mi s) = read_digits 0 (two_digits m)"
    and "number_at 6 4 (stamp_text d m yy h mi s) = read_digits 0 yy"
    and "number_at 11 2 (stamp_text d m yy h mi s) = read_digits 0 (two_digits h)"
    and "number_at 14 2 (stamp_text d m yy h mi s) = read_digits 0 (two_digits mi)"
    and "number_at 17 2 (stamp_text d m yy h mi s) = read_digits 0 (two_digits s)"
proof -
  obtain a b c e where yy: "yy = [a, b, c, e]" using assms by (auto simp: length_Suc_conv numeral_eq_Suc)
  show "number_at 0 2 (stamp_text d m yy h mi s) = read_digits 0 (two_digits d)"
    "number_at 3 2 (stamp_text d m yy h mi s) = read_digits 0 (two_digits m)"
    "number_at 6 4 (stamp_text d m yy h mi s) = read_digits 0 yy"
    "number_at 11 2 (stamp_text d m yy h mi s) = read_digits 0 (two_digits h)"
    "number_at 14 2 (stamp_text d m yy h mi s) = read_digits 0 (two_digits mi)"
    "number_at 17 2 (stamp_text d m yy h mi s) = read_digits 0 (two_digits s)"
    by (simp_all add: yy number_at_def two_digits_def)
qed

text \<open>The date the client shows is the time stamp. For every time stamp that an \<^verbatim>\<open>int\<close> can hold and that is
  not before 1970, the text has 19 characters, so it fits its buffer, and reading it as a date and
  time of the Gregorian calendar in Indian time gives back the time stamp.\<close>

theorem timestamp_roundtrip:
  assumes "0 < raw" and "raw \<le> INT_MAX"
  shows "length (format_timestamp raw 32) = 19 \<and> read_timestamp (format_timestamp raw 32) = raw"
proof -
  let ?ts = "nat raw + IST_OFFSET_SECONDS"
  let ?secs = "?ts mod 86400"
  obtain y m d where c: "civil (?ts div 86400) = (y, m, d)" by (metis prod_cases3)
  have small: "?ts div 86400 < 100000" using assms by (simp add: INT_MAX_def IST_OFFSET_SECONDS_def)
  note C = civil_correct [OF c small]
  let ?text = "stamp_text d m (show_nat y) (?secs div 3600) (?secs mod 3600 div 60) (?secs mod 60)"
  have y: "length (show_nat y) = 4" using C(2,3) by (intro year_digits) auto
  have len: "length ?text = 19" using y by simp
  have stamp: "format_timestamp raw 32 = ?text" using assms(1) len c by (simp add: format_timestamp_def Let_def)
  have "?secs div 3600 < 100" "?secs mod 3600 div 60 < 100" "?secs mod 60 < 100" "d < 100" "m < 100"
    using C(4,5) by (auto simp: less_mult_imp_div_less)
  then have "read_timestamp ?text = int (?ts div 86400 * 86400 + ?secs div 3600 * 3600 + ?secs mod 3600 div 60 * 60 + ?secs mod 60) - int IST_OFFSET_SECONDS"
    unfolding read_timestamp_def stamp_numbers [OF y] read_digits_show_nat
    by (simp add: two_digits_read C(1))
  moreover have "?ts div 86400 * 86400 + ?secs div 3600 * 3600 + ?secs mod 3600 div 60 * 60 + ?secs mod 60 = ?ts"
    by (rule seconds_split)
  ultimately have "read_timestamp (format_timestamp raw 32) = int ?ts - int IST_OFFSET_SECONDS" using stamp by metis
  moreover have "int ?ts - int IST_OFFSET_SECONDS = raw" using assms(1) by simp
  ultimately show ?thesis using stamp len by metis
qed

theorem timestamp_roundtrip_witness:
  "format_timestamp 1700000000 32 = ''15-11-2023 03:43:20'' \<and> read_timestamp ''15-11-2023 03:43:20'' = 1700000000"
proof -
  have f: "format_timestamp 1700000000 32 = ''15-11-2023 03:43:20''"
    by (simp add: format_timestamp_def civil_def year_from.simps year_days_def leap_year_def month_lengths_def IST_OFFSET_SECONDS_def
        two_digits_def digit_char_def show_nat.simps)
  have "(0 :: int) < 1700000000" "1700000000 \<le> INT_MAX" by (simp_all add: INT_MAX_def)
  from timestamp_roundtrip [OF this] f show ?thesis by simp
qed

end
