(* ===== verification/Client_Info.thy ===== *)
theory Client_Info
  imports End_To_End Client_Time
begin

text \<open>
  \<^verbatim>\<open>INFO\<close> end to end: the entry of a file as the name manager writes it and as the client prints it. The
  client reads the members with the functions of \<^verbatim>\<open>common/json_util.c\<close> and scans the access lists itself.
\<close>

section \<open>Members followed by other text\<close>

definition listed :: "(string \<times> json_val) list \<Rightarrow> string \<Rightarrow> string" where
  "listed kvs rest = concat (map (\<lambda>kv. member_text kv @ '','') kvs) @ rest"

lemma listed_simps [simp]:
  "listed [] rest = rest" "listed (kv # kvs) rest = member_text kv @ CHR '','' # listed kvs rest"
  by (simp_all add: listed_def)

lemma strstr_comma: "strstr (CHR '','' # s) (QUOTE # p) = strstr s (QUOTE # p)"
  by simp

text \<open>Members with other keys do not hide a key.\<close>

lemma listed_skip:
  assumes "json_ok kvs" and "plain_key k" and "k \<notin> set (map fst kvs)" and "\<And>x. prefix (QUOTE # p) x \<Longrightarrow> key_start k x"
  shows "strstr (listed kvs rest) (QUOTE # p) = strstr rest (QUOTE # p)"
  using assms(1,3)
proof (induction kvs)
  case (Cons kv kvs)
  obtain k' v where kv: "kv = (k', v)" by fastforce
  have "strstr (member_text (k', v) @ CHR '','' # listed kvs rest) (QUOTE # p) = strstr (CHR '','' # listed kvs rest) (QUOTE # p)"
    by (rule strstr_member_skip [OF assms(2)]) (use Cons.prems kv assms(4) in \<open>auto simp: json_ok_def\<close>)
  with Cons kv show ?case by (simp add: json_ok_def)
qed simp

lemma listed_at:
  assumes "json_ok (a @ (k, v) # b)" and "k \<notin> set (map fst a)" and "\<And>x. prefix (QUOTE # p) x \<Longrightarrow> key_start k x"
    and "prefix (QUOTE # p) (member_text (k, v) @ CHR '','' # listed b rest)"
  shows "strstr (listed (a @ (k, v) # b) rest) (QUOTE # p) = Some (member_text (k, v) @ CHR '','' # listed b rest)"
proof -
  have "strstr (listed a (listed ((k, v) # b) rest)) (QUOTE # p) = strstr (listed ((k, v) # b) rest) (QUOTE # p)"
    by (rule listed_skip) (use assms in \<open>simp_all add: json_ok_def\<close>)
  moreover have "strstr (listed ((k, v) # b) rest) (QUOTE # p) = Some (member_text (k, v) @ CHR '','' # listed b rest)"
    using strstr_prefix [OF assms(4)] by simp
  ultimately show ?thesis by (simp add: listed_def)
qed

lemma first_member:
  assumes "map_of kvs k = Some v"
  obtains a b where "kvs = a @ (k, v) # b" "k \<notin> set (map fst a)"
  using assms
proof (induction kvs arbitrary: thesis)
  case (Cons kv kvs)
  show ?case
  proof (cases "fst kv = k")
    case True
    then show ?thesis using Cons.prems(1) [of "[]" kvs] Cons.prems(2) by (cases kv) auto
  next
    case False
    then have "map_of kvs k = Some v" using Cons.prems(2) by (cases kv) auto
    from Cons.IH [OF _ this] obtain a b where "kvs = a @ (k, v) # b" "k \<notin> set (map fst a)" by blast
    then show ?thesis using Cons.prems(1) [of "kv # a" b] False by simp
  qed
qed simp

lemma json_get_string_listed:
  assumes "json_ok kvs" and "plain_key k" and "map_of kvs k = Some (JStr s)" and "length s < n"
  shows "json_get_string (listed kvs rest) k n = Some s"
proof -
  obtain a b where ab: "kvs = a @ (k, JStr s) # b" "k \<notin> set (map fst a)" by (rule first_member [OF assms(3)])
  obtain p where p: "string_pattern k = QUOTE # p" by (simp add: string_pattern_def)
  have eq: "member_text (k, JStr s) @ CHR '','' # listed b rest = string_pattern k @ escape s @ QUOTE # CHR '','' # listed b rest"
    by (simp add: member_text_def string_pattern_def)
  have "strstr (listed kvs rest) (QUOTE # p) = Some (member_text (k, JStr s) @ CHR '','' # listed b rest)"
    unfolding ab(1)
  proof (rule listed_at [OF _ ab(2)])
    show "prefix (QUOTE # p) (member_text (k, JStr s) @ CHR '','' # listed b rest)" unfolding eq p [symmetric] by simp
    show "key_start k x" if "prefix (QUOTE # p) x" for x using that string_pattern_key_start unfolding p [symmetric] by blast
  qed (use assms(1) ab(1) in simp)
  then have "strstr (listed kvs rest) (string_pattern k) = Some (string_pattern k @ escape s @ QUOTE # CHR '','' # listed b rest)"
    unfolding p [symmetric] eq .
  then show ?thesis
    using plain_key_patterns [OF assms(2)] assms(4) by (simp add: json_get_string_def get_string_loop_eq decode_escape)
qed

lemma skip_to_number: "dropWhile is_space (show_int i @ r) = show_int i @ r"
proof (cases "i < 0")
  case False
  then show ?thesis
    using show_nat_digits [of "nat i"] show_nat_nonempty [of "nat i"] digit_not_space
    by (cases "show_nat (nat i)") (auto simp: show_int_def)
qed (simp add: show_int_def is_space_def)

lemma json_get_int_listed:
  assumes "json_ok kvs" and "plain_key k" and "map_of kvs k = Some (JInt i)" and "int_range i"
  shows "json_get_int (listed kvs rest) k = Some i"
proof -
  obtain a b where ab: "kvs = a @ (k, JInt i) # b" "k \<notin> set (map fst a)" by (rule first_member [OF assms(3)])
  obtain p where p: "int_pattern k = QUOTE # p" by (simp add: int_pattern_def)
  let ?r = "CHR '','' # listed b rest"
  have eq: "member_text (k, JInt i) @ ?r = int_pattern k @ show_int i @ ?r"
    by (simp add: member_text_def int_pattern_def)
  have "strstr (listed kvs rest) (QUOTE # p) = Some (member_text (k, JInt i) @ ?r)"
    unfolding ab(1)
  proof (rule listed_at [OF _ ab(2)])
    show "prefix (QUOTE # p) (member_text (k, JInt i) @ ?r)" unfolding eq p [symmetric] by simp
    show "key_start k x" if "prefix (QUOTE # p) x" for x using that by (simp add: key_start_def p)
  qed (use assms(1) ab(1) in simp)
  then have "strstr (listed kvs rest) (int_pattern k) = Some (int_pattern k @ show_int i @ ?r)" unfolding p [symmetric] eq .
  moreover have "\<not> starts_digit ?r" by (simp add: starts_digit_def is_digit_def)
  ultimately show ?thesis
    using plain_key_patterns [OF assms(2)] strtol_show_int [of i ?r] int_range_long [OF assms(4)] int32_fits [OF assms(4)]
    by (simp add: json_get_int_def skip_to_number long_range_def)
qed

section \<open>Access lists\<close>

definition array_text :: "string \<Rightarrow> string list \<Rightarrow> string" where
  "array_text key names = key_open key ''['' @ (case names of [] \<Rightarrow> [] | n # ns \<Rightarrow> quoted n @ concat (map (\<lambda>n. CHR '','' # quoted n) ns)) @ '']''"

text \<open>Names the client shows as they are.\<close>

definition plain_name :: "string \<Rightarrow> bool" where
  "plain_name s \<longleftrightarrow> plain_text s \<and> CHR ''}'' \<notin> set s \<and> length s < 128"

lemma name_chars:
  assumes "plain_text s" and "c \<in> set s"
  shows "escape_char c = [c]"
  using assms
proof (induction s)
  case (Cons d s)
  have "escape_char d = [d] \<and> escape s = s"
  proof (cases d rule: escape_char_cases)
    case (escaped e)
    then have "length (escape (d # s)) = length (escape s) + 2" by simp
    moreover have "length (escape (d # s)) = length (d # s)" using Cons.prems(1) by (simp only: plain_text_def)
    ultimately show ?thesis using length_escape [of s] by simp
  qed (use Cons.prems(1) in \<open>simp_all add: plain_text_def\<close>)
  then show ?case using Cons by (auto simp: plain_text_def)
qed simp

lemma plain_no_special: "plain_text s \<Longrightarrow> QUOTE \<notin> set s \<and> BACKSLASH \<notin> set s"
  using name_chars [of s QUOTE] name_chars [of s BACKSLASH] by (auto simp: escape_char_def)

lemma access_name_plain:
  assumes "QUOTE \<notin> set n \<and> BACKSLASH \<notin> set n" and "length acc + length n < 128"
  shows "access_name acc (n @ QUOTE # r) = (acc @ n, QUOTE # r)"
  using assms by (induction n arbitrary: acc) auto

lemma access_names_quoted:
  assumes "plain_name n"
  shows "access_names (quoted n @ r) = n # access_names r"
  using access_name_plain [of n "[]" r] plain_no_special [of n] assms
  by (subst access_names.simps) (simp add: quoted_def plain_name_def)

lemma access_names_tail:
  "list_all plain_name ns \<Longrightarrow> access_names (concat (map (\<lambda>n. CHR '','' # quoted n) ns) @ CHR '']'' # r) = ns"
proof (induction ns)
  case Nil
  then show ?case by (simp add: access_names.simps)
next
  case (Cons n ns)
  have "access_names (CHR '','' # s) = access_names s" for s by (subst access_names.simps) simp
  with Cons show ?case by (simp add: access_names_quoted)
qed

lemma access_names_array:
  assumes "list_all plain_name (n # ns)"
  shows "access_names (drop (length (key_open key ''['')) (array_text key (n # ns) @ r)) = n # ns"
  using assms by (simp add: array_text_def access_names_quoted access_names_tail)

text \<open>No key is found inside a list of names.\<close>

lemma quoted_skip:
  assumes "plain_text s" and "plain_key k" and "\<And>x. prefix pat x \<Longrightarrow> key_start k x"
    and "r = c # r'" and "c = CHR '','' \<or> c = CHR '']''" and "hd k \<noteq> c"
  shows "strstr (quoted s @ r) pat = strstr r pat"
proof (rule strstr_append_skip)
  fix a b
  assume ab: "quoted s = a @ b" "b \<noteq> []"
  have no: "QUOTE \<notin> set s" "BACKSLASH \<notin> set s" using plain_no_special [OF assms(1)] by simp_all
  show "\<not> prefix pat (b @ r)"
  proof
    assume "prefix pat (b @ r)"
    then have ks: "prefix (QUOTE # k @ QUOTE # [CHR '':'']) (b @ r)" using assms(3) by (simp add: key_start_def int_pattern_def)
    show False
    proof (cases a)
      case Nil
      then have "prefix (k @ QUOTE # [CHR '':'']) (s @ QUOTE # c # r')"
        using ks ab(1) [symmetric] assms(4) by (simp add: quoted_def)
      then obtain z where z: "s @ QUOTE # c # r' = k @ QUOTE # CHR '':'' # z" by (auto simp: prefix_def)
      have "QUOTE \<notin> set k" using assms(2) by (auto simp: plain_key_def)
      then have "takeWhile (\<lambda>x. x \<noteq> QUOTE) (s @ QUOTE # c # r') = s" "takeWhile (\<lambda>x. x \<noteq> QUOTE) (k @ QUOTE # CHR '':'' # z) = k"
        using no(1) by (auto simp: takeWhile_append)
      then have "s = k" using z by simp
      then show False using z assms(5) by auto
    next
      case (Cons x a')
      have sfx: "s @ [QUOTE] = a' @ b" using arg_cong [OF ab(1) [unfolded Cons], of tl] by (simp add: quoted_def)
      have "b = [QUOTE]"
      proof (cases b rule: rev_cases)
        case (snoc b' y)
        have "s @ [QUOTE] = (a' @ b') @ [y]" using sfx snoc by simp
        then have "s = a' @ b'" "y = QUOTE" unfolding append1_eq_conv by simp_all
        moreover have "hd b = QUOTE" using ks ab(2) by (cases b) auto
        ultimately show ?thesis using snoc no(1) by (cases b') auto
      qed (use ab(2) in simp)
      then have "prefix (k @ QUOTE # [CHR '':'']) (c # r')" using ks assms(4) by simp
      then show False using assms(2,6) by (cases k) (auto simp: plain_key_def)
    qed
  qed
qed

lemma names_skip:
  assumes "list_all plain_name ns" and "plain_key k" and "\<And>x. prefix (QUOTE # p) x \<Longrightarrow> key_start k x"
    and "hd k \<noteq> CHR '','' \<and> hd k \<noteq> CHR '']''"
  shows "strstr (concat (map (\<lambda>n. CHR '','' # quoted n) ns) @ CHR '']'' # r) (QUOTE # p) = strstr r (QUOTE # p)"
  using assms(1)
proof (induction ns)
  case (Cons n ns)
  let ?r = "concat (map (\<lambda>n. CHR '','' # quoted n) ns) @ CHR '']'' # r"
  obtain c r' where c: "?r = c # r'" "c = CHR '','' \<or> c = CHR '']''" by (cases ns) auto
  have "strstr (quoted n @ ?r) (QUOTE # p) = strstr ?r (QUOTE # p)"
    by (rule quoted_skip [OF _ assms(2,3) c]) (use Cons.prems assms(4) c(2) in \<open>auto simp: plain_name_def\<close>)
  with Cons show ?case by simp
qed simp

lemma read_access_skip:
  assumes "list_all plain_name ns"
  shows "strstr (array_text ''readAccess'' ns @ r) (key_open ''writeAccess'' ''['') = strstr r (key_open ''writeAccess'' ''['')"
proof -
  obtain p where p: "key_open ''writeAccess'' ''['' = QUOTE # p" "p = ''writeAccess'' @ QUOTE # '':[''"
    by (simp add: key_open_def quoted_def)
  have k: "plain_key ''writeAccess''" by (simp add: plain_key_def)
  have ks: "key_start ''writeAccess'' x" if "prefix (QUOTE # p) x" for x
    using that by (auto simp: key_start_def int_pattern_def p(2) prefix_def)
  have "strstr (key_open ''readAccess'' ''['' @ s) (QUOTE # p) = strstr s (QUOTE # p)" for s
    by (simp add: key_open_def quoted_def p(2))
  moreover have "strstr (concat (map (\<lambda>n. CHR '','' # quoted n) ms) @ CHR '']'' # r) (QUOTE # p) = strstr r (QUOTE # p)"
    if "list_all plain_name ms" for ms by (rule names_skip [OF that k ks]) simp_all
  moreover have "strstr (quoted m @ concat (map (\<lambda>n. CHR '','' # quoted n) ms) @ CHR '']'' # r) (QUOTE # p) = strstr r (QUOTE # p)"
    if "list_all plain_name (m # ms)" for m ms
    using names_skip [OF that k, of p r] ks by simp
  ultimately show ?thesis
    using assms unfolding p(1) array_text_def by (cases ns) (simp_all add: array_text_def)
qed

lemma print_access_list_array:
  assumes "list_all plain_name (n # ns)" and "key_open key ''['' = pat" and "length key < 50"
    and "strstr t pat = Some (array_text key (n # ns) @ r)"
  shows "print_access_list t key label = ''  '' @ label @ '': '' @ separated '', '' (map name_or_unknown (n # ns)) @ endl"
proof -
  have pat: "quoted key @ '':['' = key_open key ''[''" by (simp add: key_open_def)
  have "\<not> 64 \<le> length (key_open key ''['')" using assms(3) by (simp add: key_open_def quoted_def)
  then show ?thesis
    unfolding print_access_list_def Let_def pat
    using assms(4) access_names_array [OF assms(1), of key r] by (simp add: assms(2))
qed

section \<open>The entry as the manager writes it\<close>

lemma append_all_Some: "append_all (Some a) ps = Some t \<Longrightarrow> t = a @ concat ps"
  unfolding append_all_def
proof (induction ps arbitrary: a)
  case (Cons p ps)
  show ?case
  proof (cases "json_append MAX_JSON (Some a) p")
    case None
    have "foldl (json_append MAX_JSON) None xs = None" for xs by (induction xs) simp_all
    with None Cons.prems show ?thesis by simp
  next
    case (Some b)
    then have "b = a @ p" by (simp split: if_splits)
    with Some Cons.prems Cons.IH [of b] show ?thesis by simp
  qed
qed simp

definition users_with :: "file_entry \<Rightarrow> 32 word \<Rightarrow> string list" where
  "users_with e perm = map acl_user (filter (\<lambda>a. acl_perm a AND perm = perm) (fe_acl e))"

lemma plain_escape: "plain_text s \<Longrightarrow> length s < 256 \<Longrightarrow> json_escape_string 256 s = Some s"
  by (simp add: json_escape_string_eq plain_text_def)

lemma acl_append_text:
  assumes "list_all (\<lambda>a. plain_name (acl_user a)) as" and "acl_append (Some acc) as perm = Some t"
  shows "t = acc @ concat (map (\<lambda>n. CHR '','' # quoted n) (map acl_user (filter (\<lambda>a. acl_perm a AND perm = perm) as)))"
  using assms
proof (induction as arbitrary: acc)
  case (Cons a as)
  show ?case
  proof (cases "acl_perm a AND perm = perm")
    case True
    let ?acc = "json_append MAX_JSON (Some acc) (CHR '','' # quoted (acl_user a))"
    have "json_escape_string 256 (acl_user a) = Some (acl_user a)"
      by (rule plain_escape) (use Cons.prems(1) in \<open>simp_all add: plain_name_def\<close>)
    then have t: "acl_append ?acc as perm = Some t" using Cons.prems(2) True by simp
    have none: "acl_append None as perm = None" for as by (induction as) (auto split: option.split)
    have "?acc = Some (acc @ CHR '','' # quoted (acl_user a))" using t none by (auto split: if_splits)
    with t Cons.IH [of "acc @ CHR '','' # quoted (acl_user a)"] Cons.prems(1) True show ?thesis by simp
  qed (use Cons in simp)
qed simp

lemma access_array_text:
  assumes "plain_name (fe_owner e)" and "list_all (\<lambda>a. plain_name (acl_user a)) (fe_acl e)"
    and "append_access_array (Some acc) key e perm = Some t"
  shows "t = acc @ array_text key (fe_owner e # users_with e perm)"
proof -
  have "json_escape_string 256 (fe_owner e) = Some (fe_owner e)"
    by (rule plain_escape) (use assms(1) in \<open>simp_all add: plain_name_def\<close>)
  then have t: "json_append MAX_JSON (acl_append (append_all (Some acc) [key_open key ''['', quoted (fe_owner e)]) (fe_acl e) perm) '']'' = Some t"
    using assms(3) by (simp add: append_access_array_def)
  then obtain b where b: "acl_append (append_all (Some acc) [key_open key ''['', quoted (fe_owner e)]) (fe_acl e) perm = Some b" "t = b @ '']''"
    by (cases "acl_append (append_all (Some acc) [key_open key ''['', quoted (fe_owner e)]) (fe_acl e) perm") (auto split: if_splits)
  have none: "acl_append None as perm = None" for as by (induction as) (auto split: option.split)
  obtain a where a: "append_all (Some acc) [key_open key ''['', quoted (fe_owner e)] = Some a" using b(1) none by fastforce
  have "b = a @ concat (map (\<lambda>n. CHR '','' # quoted n) (users_with e perm))"
    unfolding users_with_def by (rule acl_append_text [OF assms(2)]) (use b(1) a in simp)
  with append_all_Some [OF a] b(2) show ?thesis by (simp add: array_text_def)
qed

definition server_label :: "nm_state \<Rightarrow> int \<Rightarrow> string" where
  "server_label st i = (case nm_get_server st i of None \<Rightarrow> [] | Some ss \<Rightarrow> ss_id ss)"

text \<open>\<open>shown_entry\<close>: the names of the entry and of its servers are plain, its numbers fit an \<^verbatim>\<open>int\<close>.\<close>

definition shown_entry :: "nm_state \<Rightarrow> file_entry \<Rightarrow> bool" where
  "shown_entry st e \<longleftrightarrow>
     list_all plain_name ([fe_name e, fe_owner e, fe_last_user e, server_label st (fe_ss e), server_label st (fe_backup e)] @ map acl_user (fe_acl e)) \<and>
     list_all int_range [int (fe_words e), int (fe_chars e), fe_created e, fe_modified e, fe_last_access e]"

definition entry_members :: "nm_state \<Rightarrow> file_entry \<Rightarrow> (string \<times> json_val) list" where
  "entry_members st e =
     [(''name'', JStr (fe_name e)), (''owner'', JStr (fe_owner e)), (''words'', JInt (int (fe_words e))), (''chars'', JInt (int (fe_chars e))),
      (''created'', JInt (fe_created e)), (''modified'', JInt (fe_modified e)), (''lastAccess'', JInt (fe_last_access e)),
      (''lastAccessUser'', JStr (fe_last_user e)), (''primaryServer'', JStr (server_label st (fe_ss e))),
      (''primaryStatus'', JStr (replica_status st (fe_ss e))), (''backupServer'', JStr (server_label st (fe_backup e))),
      (''backupStatus'', JStr (replica_status st (fe_backup e)))]"

lemma status_plain: "plain_text (replica_status st i)" "length (replica_status st i) < 32" "CHR ''}'' \<notin> set (replica_status st i)"
  by (auto simp: replica_status_def plain_text_def escape_char_def split: option.split)

lemma replica_label:
  assumes "plain_name (server_label st i)"
  shows "replica_id st i = server_label st i"
  using assms plain_escape [of "server_label st i"]
  by (cases "nm_get_server st i") (simp_all add: replica_id_def server_label_def plain_name_def)

lemma json_append_Some: "json_append n acc s = Some t \<Longrightarrow> \<exists>a. acc = Some a \<and> t = a @ s"
  by (cases acc) (auto split: if_splits)

lemma access_array_None: "append_access_array None key e perm = None"
proof -
  have "acl_append None as perm = None" for as by (induction as) (auto split: option.split)
  then show ?thesis by (simp add: append_access_array_def append_all_def split: option.split)
qed

lemma entry_text:
  assumes "shown_entry st e"
  shows "commas [fmt_str ''name'' (fe_name e), fmt_str ''owner'' (fe_owner e), fmt_int ''words'' (int (fe_words e))] @ '','' @
    (commas [fmt_int ''chars'' (int (fe_chars e)), fmt_int ''created'' (fe_created e), fmt_int ''modified'' (fe_modified e)] @ '','') @
    (commas [fmt_int ''lastAccess'' (fe_last_access e), fmt_str ''lastAccessUser'' (fe_last_user e)] @ '','') @
    replica_fields st e @ '','' = listed (entry_members st e) []"
proof -
  have p: "plain_text (fe_name e)" "plain_text (fe_owner e)" "plain_text (fe_last_user e)"
    "plain_name (server_label st (fe_ss e))" "plain_name (server_label st (fe_backup e))"
    using assms by (simp_all add: shown_entry_def plain_name_def)
  have q: "plain_text (server_label st (fe_ss e))" "plain_text (server_label st (fe_backup e))" using p(4,5) by (simp_all add: plain_name_def)
  show ?thesis
    unfolding replica_fields_def replica_label [OF p(4)] replica_label [OF p(5)] fmt_plain [OF p(1)] fmt_plain [OF p(2)] fmt_plain [OF p(3)]
      fmt_plain [OF q(1)] fmt_plain [OF q(2)] fmt_plain [OF status_plain(1)] fmt_member(2) entry_members_def
    by simp
qed

lemma info_text_shape:
  assumes "shown_entry st e" and "info_text st e (fe_name e) (fe_owner e) (fe_last_user e) = Some extra"
  shows "extra = key_open ''file'' ''{'' @ listed (entry_members st e)
    (array_text ''readAccess'' (fe_owner e # users_with e NM_PERM_READ) @ CHR '','' #
     array_text ''writeAccess'' (fe_owner e # users_with e NM_PERM_WRITE)) @ ''}''"
proof -
  let ?ps = "[key_open ''file'' ''{'' @ commas [fmt_str ''name'' (fe_name e), fmt_str ''owner'' (fe_owner e), fmt_int ''words'' (int (fe_words e))] @ '','',
    commas [fmt_int ''chars'' (int (fe_chars e)), fmt_int ''created'' (fe_created e), fmt_int ''modified'' (fe_modified e)] @ '','',
    commas [fmt_int ''lastAccess'' (fe_last_access e), fmt_str ''lastAccessUser'' (fe_last_user e)] @ '','', replica_fields st e @ '','']"
  let ?acc1 = "append_all (Some []) ?ps"
  let ?acc2 = "json_append MAX_JSON (append_access_array ?acc1 ''readAccess'' e NM_PERM_READ) '',''"
  have o: "plain_name (fe_owner e)" "list_all (\<lambda>a. plain_name (acl_user a)) (fe_acl e)"
    using assms(1) by (simp_all add: shown_entry_def list_all_iff)
  obtain c where c: "append_access_array ?acc2 ''writeAccess'' e NM_PERM_WRITE = Some c" "extra = c @ ''}''"
    using json_append_Some [OF assms(2) [unfolded info_text_def Let_def]] by blast
  obtain b where b: "?acc2 = Some b" using c(1) access_array_None by (cases ?acc2) auto
  obtain d where d: "append_access_array ?acc1 ''readAccess'' e NM_PERM_READ = Some d" "b = d @ '',''"
    using json_append_Some [OF b] by blast
  obtain a where a: "?acc1 = Some a" using d(1) access_array_None by (cases ?acc1) auto
  have "a = concat ?ps" using append_all_Some [OF a] by simp
  also have "\<dots> = key_open ''file'' ''{'' @ listed (entry_members st e) []"
    unfolding entry_text [OF assms(1), symmetric] by simp
  finally have "a = key_open ''file'' ''{'' @ listed (entry_members st e) []" .
  moreover have "d = a @ array_text ''readAccess'' (fe_owner e # users_with e NM_PERM_READ)"
    by (rule access_array_text [OF o d(1) [unfolded a]])
  moreover have "c = b @ array_text ''writeAccess'' (fe_owner e # users_with e NM_PERM_WRITE)"
    by (rule access_array_text [OF o c(1) [unfolded b]])
  ultimately show ?thesis using c(2) d(2) by (simp add: listed_def)
qed

section \<open>The entry as the client prints it\<close>

abbreviation access_arrays :: "file_entry \<Rightarrow> string" where
  "access_arrays e \<equiv> array_text ''readAccess'' (fe_owner e # users_with e NM_PERM_READ) @ CHR '','' #
     array_text ''writeAccess'' (fe_owner e # users_with e NM_PERM_WRITE)"

lemma users_plain:
  assumes "shown_entry st e"
  shows "list_all plain_name (fe_owner e # users_with e perm)"
  using assms by (auto simp: shown_entry_def users_with_def list_all_iff)

lemma no_brace_int: "CHR ''}'' \<notin> set (show_int i)"
  by (auto simp: show_int_def is_digit_def dest!: digit_chars split: if_splits)

lemma no_brace_member:
  assumes "case v of JStr s \<Rightarrow> plain_text s \<and> CHR ''}'' \<notin> set s | JInt i \<Rightarrow> True" and "CHR ''}'' \<notin> set k"
  shows "CHR ''}'' \<notin> set (member_text (k, v))"
  using assms no_brace_int by (cases v) (auto simp: member_text_def plain_text_def)

lemma no_brace_array:
  assumes "list_all plain_name ns" and "CHR ''}'' \<notin> set key"
  shows "CHR ''}'' \<notin> set (array_text key ns)"
  using assms by (cases ns) (auto simp: array_text_def key_open_def quoted_def plain_name_def list_all_iff)

lemma no_brace_entry:
  assumes "shown_entry st e"
  shows "CHR ''}'' \<notin> set (listed (entry_members st e) (access_arrays e))"
proof -
  have "CHR ''}'' \<notin> set (member_text kv)" if "kv \<in> set (entry_members st e)" for kv
  proof (cases kv)
    case (Pair k v)
    show ?thesis unfolding Pair
      by (rule no_brace_member) (use that Pair assms status_plain in \<open>auto simp: entry_members_def shown_entry_def plain_name_def\<close>)
  qed
  moreover have "CHR ''}'' \<notin> set (access_arrays e)"
    using no_brace_array [OF users_plain [OF assms]] by simp
  ultimately show ?thesis by (auto simp: listed_def)
qed

lemma upto_char_found: "c \<notin> set s \<Longrightarrow> upto_char c (s @ c # r) = Some (s @ [c], r)"
proof -
  assume "c \<notin> set s"
  then have "find_index (\<lambda>x. x = c) (s @ c # r) = Some (length s)"
    using find_index_None_iff [of "\<lambda>x. x = c" s] by (auto simp: find_index_append)
  then show ?thesis by (simp add: upto_char_def)
qed

definition entry_lines :: "nm_state \<Rightarrow> file_entry \<Rightarrow> string list" where
  "entry_lines st e =
     [''File: '' @ fe_name e, ''  Owner: '' @ fe_owner e, ''  Words: '' @ show_int (int (fe_words e)),
      ''  Chars: '' @ show_int (int (fe_chars e)), ''  Created: '' @ format_timestamp (fe_created e) 32,
      ''  Modified: '' @ format_timestamp (fe_modified e) 32,
      ''  Last Access: '' @ format_timestamp (fe_last_access e) 32 @ '' by '' @ (if fe_last_user e \<noteq> [] then fe_last_user e else ''unknown''),
      ''  Primary Server: '' @ describe_server_status (server_label st (fe_ss e)) (replica_status st (fe_ss e)),
      ''  Backup Server: '' @ describe_server_status (server_label st (fe_backup e)) (replica_status st (fe_backup e)),
      ''  Read Access: '' @ separated '', '' (map name_or_unknown (fe_owner e # users_with e NM_PERM_READ)),
      ''  Write Access: '' @ separated '', '' (map name_or_unknown (fe_owner e # users_with e NM_PERM_WRITE))]"

lemma entry_keys: "json_ok (entry_members st e)" and entry_plain_keys: "kv \<in> set (entry_members st e) \<Longrightarrow> plain_key (fst kv)"
  by (auto simp: json_ok_def entry_members_def plain_key_def)

lemma entry_string:
  assumes "map_of (entry_members st e) k = Some (JStr s)" and "length s < n"
  shows "get_into before (listed (entry_members st e) rest) k n = s"
proof -
  have "plain_key k" using entry_plain_keys [OF map_of_SomeD [OF assms(1)]] by simp
  from json_get_string_listed [OF entry_keys this assms] show ?thesis by simp
qed

lemma entry_int:
  assumes "map_of (entry_members st e) k = Some (JInt i)" and "int_range i"
  shows "int_or (listed (entry_members st e) rest) k other = i"
proof -
  have "plain_key k" using entry_plain_keys [OF map_of_SomeD [OF assms(1)]] by simp
  from json_get_int_listed [OF entry_keys this assms] show ?thesis by (simp add: int_or_def)
qed

lemma info_lines_entry:
  assumes "shown_entry st e" and "fe_name e \<noteq> []"
  shows "info_lines n (listed (entry_members st e) rest) = take 9 (entry_lines st e)"
proof -
  have l: "length (fe_name e) < 128" "length (fe_owner e) < 128" "length (fe_last_user e) < 128"
    "length (server_label st (fe_ss e)) < 128" "length (server_label st (fe_backup e)) < 128"
    and i: "int_range (int (fe_words e))" "int_range (int (fe_chars e))" "int_range (fe_created e)" "int_range (fe_modified e)" "int_range (fe_last_access e)"
    using assms(1) by (simp_all add: shown_entry_def plain_name_def)
  have m: "map_of (entry_members st e) ''name'' = Some (JStr (fe_name e))" "map_of (entry_members st e) ''owner'' = Some (JStr (fe_owner e))"
    "map_of (entry_members st e) ''words'' = Some (JInt (int (fe_words e)))" "map_of (entry_members st e) ''chars'' = Some (JInt (int (fe_chars e)))"
    "map_of (entry_members st e) ''created'' = Some (JInt (fe_created e))" "map_of (entry_members st e) ''modified'' = Some (JInt (fe_modified e))"
    "map_of (entry_members st e) ''lastAccess'' = Some (JInt (fe_last_access e))"
    "map_of (entry_members st e) ''lastAccessUser'' = Some (JStr (fe_last_user e))"
    "map_of (entry_members st e) ''primaryServer'' = Some (JStr (server_label st (fe_ss e)))"
    "map_of (entry_members st e) ''primaryStatus'' = Some (JStr (replica_status st (fe_ss e)))"
    "map_of (entry_members st e) ''backupServer'' = Some (JStr (server_label st (fe_backup e)))"
    "map_of (entry_members st e) ''backupStatus'' = Some (JStr (replica_status st (fe_backup e)))"
    by (simp_all add: entry_members_def)
  show ?thesis
    unfolding info_lines_def Let_def entry_string [OF m(1) l(1)] entry_string [OF m(2) l(2)] entry_string [OF m(8) l(3)]
      entry_string [OF m(9) l(4)] entry_string [OF m(10) status_plain(2)] entry_string [OF m(11) l(5)] entry_string [OF m(12) status_plain(2)]
      entry_int [OF m(3) i(1)] entry_int [OF m(4) i(2)] entry_int [OF m(5) i(3)] entry_int [OF m(6) i(4)] entry_int [OF m(7) i(5)]
    using assms(2) by (simp add: entry_lines_def)
qed

lemma access_lists_entry:
  assumes "shown_entry st e" and "t = listed (entry_members st e) (access_arrays e @ ''}'')"
  shows "print_access_list t ''readAccess'' ''Read Access'' =
      ''  Read Access: '' @ separated '', '' (map name_or_unknown (fe_owner e # users_with e NM_PERM_READ)) @ endl"
    and "print_access_list t ''writeAccess'' ''Write Access'' =
      ''  Write Access: '' @ separated '', '' (map name_or_unknown (fe_owner e # users_with e NM_PERM_WRITE)) @ endl"
proof -
  let ?R = "array_text ''readAccess'' (fe_owner e # users_with e NM_PERM_READ)"
  let ?W = "array_text ''writeAccess'' (fe_owner e # users_with e NM_PERM_WRITE)"
  have skip: "strstr (listed (entry_members st e) x) (key_open k ''['') = strstr x (key_open k ''['')"
    if k: "k = ''readAccess'' \<or> k = ''writeAccess''" for k x
  proof -
    obtain p where p: "key_open k ''['' = QUOTE # p" "p = k @ QUOTE # '':[''" by (simp add: key_open_def quoted_def)
    show ?thesis unfolding p(1)
      by (rule listed_skip [OF entry_keys, of k]) (use k p(2) in \<open>auto simp: plain_key_def entry_members_def key_start_def int_pattern_def prefix_def\<close>)
  qed
  have "strstr (?R @ CHR '','' # ?W @ ''}'') (key_open ''readAccess'' ''['') = Some (?R @ CHR '','' # ?W @ ''}'')"
    by (rule strstr_prefix) (simp add: array_text_def)
  then have r: "strstr t (key_open ''readAccess'' ''['') = Some (?R @ CHR '','' # ?W @ ''}'')"
    using assms(2) skip [of "''readAccess''"] by simp
  show "print_access_list t ''readAccess'' ''Read Access'' =
      ''  Read Access: '' @ separated '', '' (map name_or_unknown (fe_owner e # users_with e NM_PERM_READ)) @ endl"
    using print_access_list_array [OF users_plain [OF assms(1)] refl _ r, of "''Read Access''"] by simp
  have "strstr (?W @ ''}'') (key_open ''writeAccess'' ''['') = Some (?W @ ''}'')"
    by (rule strstr_prefix) (simp add: array_text_def)
  moreover have "strstr (?R @ CHR '','' # ?W @ ''}'') (key_open ''writeAccess'' ''['') = strstr (CHR '','' # ?W @ ''}'') (key_open ''writeAccess'' ''['')"
    by (rule read_access_skip [OF users_plain [OF assms(1)]])
  moreover have "strstr (CHR '','' # x) (key_open ''writeAccess'' ''['') = strstr x (key_open ''writeAccess'' ''['')" for x
    by (simp add: key_open_def quoted_def)
  ultimately have w: "strstr t (key_open ''writeAccess'' ''['') = Some (?W @ ''}'')"
    using assms(2) skip [of "''writeAccess''"] by simp
  show "print_access_list t ''writeAccess'' ''Write Access'' =
      ''  Write Access: '' @ separated '', '' (map name_or_unknown (fe_owner e # users_with e NM_PERM_WRITE)) @ endl"
    using print_access_list_array [OF users_plain [OF assms(1)] refl _ w, of "''Write Access''"] by simp
qed

section \<open>INFO end to end\<close>

lemma file_marker:
  "strstr (braces [fmt_str ''status'' ''OK'', key_open ''file'' ''{'' @ x]) (key_open ''file'' ''{'') = Some (key_open ''file'' ''{'' @ x @ ''}'')"
  by (simp add: braces_def fmt_str_def key_open_def quoted_def)

lemma ok_status: "extra \<noteq> [] \<Longrightarrow> status_ok (braces [fmt_str ''status'' ''OK'', extra])"
  by (simp add: status_ok_def json_get_string_def string_pattern_def braces_def fmt_str_def)

lemma info_request:
  assumes "length n < NM_MAX_NAME" and "nm_find_file (nc_state ctx) n = Some e" and "file_has_access e u NM_PERM_READ"
    and "shown_entry (nc_state ctx) e"
    and "info_text (nc_state ctx) e (fe_name e) (fe_owner e) (fe_last_user e) = Some extra" and "length extra + 16 < MAX_JSON"
  shows "nm_request (system_env os os1 limit ps u) ''INFO'' (file_body n) (ctx, []) = (Inr (braces [fmt_str ''status'' ''OK'', extra]), ctx, [])"
proof -
  let ?json = "json_object [(''type'', JStr ''INFO''), (''file'', JStr n)]"
  have t: "plain_text ''INFO''" by (simp add: plain_text_def escape_char_def)
  have payload: "braces [fmt_str ''type'' ''INFO'', file_body n] = ?json"
    using nm_payload [OF t, of "[(''file'', JStr n)]"] by (simp add: file_body_def fmt_member)
  have ok: "json_ok [(''file'', JStr n)]" by (simp add: json_ok_def plain_key_def)
  have f: "json_get_string ?json ''type'' 64 = Some ''INFO''" "json_get_string ?json ''file'' NM_MAX_NAME = Some n"
    using request_fields [OF ok, of "''INFO''"] assms(1) by (simp_all add: plain_key_def)
  have names: "json_escape_string 256 (fe_name e) = Some (fe_name e)" "json_escape_string 256 (fe_owner e) = Some (fe_owner e)"
    "json_escape_string 256 (fe_last_user e) = Some (fe_last_user e)"
    using assms(4) by (simp_all add: plain_escape shown_entry_def plain_name_def)
  have ne: "extra \<noteq> []" using info_text_shape [OF assms(4,5)] by (simp add: key_open_def quoted_def)
  have "handle_client_info (nc_state ctx) u ?json = ReplyOk extra"
    using assms(2,3,5) f(2) names by (simp add: handle_client_info_def)
  moreover have "send_ok fresh_conn extra = (True, fresh_conn\<lparr>outbox := [braces [fmt_str ''status'' ''OK'', extra]]\<rparr>)"
    using ne assms(6) by (simp add: send_ok_def conn_send_def length_ok_reply)
  ultimately have call: "ce_call (system_env os os1 limit ps u) ?json (ctx, []) = (Some (braces [fmt_str ''status'' ''OK'', extra]), ctx, [])"
    by (simp add: system_env_def system_call_def handle_client_message_def f(1) finish_def)
  have "length (file_body n) < 300" using length_escape [of n] assms(1) by (simp add: file_body_def fmt_str_def NM_MAX_NAME_def)
  moreover have "length ?json < MAX_JSON"
    unfolding payload [symmetric] using calculation by (simp add: braces_def fmt_str_def MAX_JSON_def)
  moreover have "file_body n \<noteq> []" by (simp add: file_body_def fmt_str_def)
  ultimately show ?thesis
    using call ok_status [OF ne] unfolding nm_request_def nm_call_def Let_def by (simp add: payload MAX_JSON_def)
qed

text \<open>C12: \<^verbatim>\<open>INFO\<close> shows what the manager knows. For a file the user may read, the client prints exactly the name, the owner,
  the counts, the times, the last user, the servers with their state and the users with read and with write access of
  the manager's entry. Names are plain and free of braces, numbers fit an \<^verbatim>\<open>int\<close> and the reply fits its buffer.\<close>

theorem info_end_to_end:
  assumes "length n < NM_MAX_NAME" and "nm_find_file (nc_state ctx) n = Some e" and "file_has_access e u NM_PERM_READ"
    and "shown_entry (nc_state ctx) e" and "fe_name e \<noteq> []"
    and "info_text (nc_state ctx) e (fe_name e) (fe_owner e) (fe_last_user e) = Some extra" and "length extra + 16 < MAX_JSON"
  shows "handle_info_cmd (system_env os os1 limit ps u) n (ctx, []) =
    ([Out (concat (map (\<lambda>l. l @ endl) (entry_lines (nc_state ctx) e)))], True, ctx, [])"
proof -
  let ?st = "nc_state ctx"
  let ?body = "listed (entry_members ?st e) (access_arrays e)"
  have extra: "extra = key_open ''file'' ''{'' @ ?body @ ''}''" by (rule info_text_shape [OF assms(4,6)])
  have chunk: "?body @ ''}'' = listed (entry_members ?st e) (access_arrays e @ ''}'')" by (simp add: listed_def)
  have m: "strstr (braces [fmt_str ''status'' ''OK'', extra]) (key_open ''file'' ''{'') = Some (key_open ''file'' ''{'' @ ?body @ CHR ''}'' # ''}'')"
    unfolding extra file_marker by simp
  have up: "upto_char (CHR ''}'') (?body @ CHR ''}'' # ''}'') = Some (?body @ ''}'', ''}'')"
    using upto_char_found [OF no_brace_entry [OF assms(4)]] by simp
  have drop: "drop (length (key_open ''file'' ''{'')) (key_open ''file'' ''{'' @ ?body @ CHR ''}'' # ''}'') = ?body @ CHR ''}'' # ''}''" by simp
  have split: "entry_lines ?st e = take 9 (entry_lines ?st e) @
      [''  Read Access: '' @ separated '', '' (map name_or_unknown (fe_owner e # users_with e NM_PERM_READ)),
       ''  Write Access: '' @ separated '', '' (map name_or_unknown (fe_owner e # users_with e NM_PERM_WRITE))]"
    by (simp add: entry_lines_def)
  have lines: "concat (map (\<lambda>l. l @ endl) (entry_lines ?st e)) = concat (map (\<lambda>l. l @ endl) (take 9 (entry_lines ?st e))) @
      (''  Read Access: '' @ separated '', '' (map name_or_unknown (fe_owner e # users_with e NM_PERM_READ)) @ endl) @
      (''  Write Access: '' @ separated '', '' (map name_or_unknown (fe_owner e # users_with e NM_PERM_WRITE)) @ endl)"
    using arg_cong [OF split, of "\<lambda>ls. concat (map (\<lambda>l. l @ endl) ls)"]
    by (simp only: map_append concat_append list.map concat.simps append_Nil2 append.assoc)
  show ?thesis
    unfolding handle_info_cmd_def info_request [OF assms(1-4,6,7)] prod.case sum.case m option.case drop up chunk
      info_lines_entry [OF assms(4,5)] access_lists_entry [OF assms(4) refl] lines by (rule refl)
qed

text \<open>\<open>ann\<close> asks about her file.\<close>

theorem info_end_to_end_witness:
  "handle_info_cmd (system_env pair_os demo_os 9 first_server ''ann'') ''f'' (whole_ctx, []) =
    ([Out (concat (map (\<lambda>l. l @ endl) [''File: f'', ''  Owner: ann'', ''  Words: 0'', ''  Chars: 0'', ''  Created: 01-01-1970 05:30:07'',
       ''  Modified: 01-01-1970 05:30:07'', ''  Last Access: 01-01-1970 05:30:07 by ann'', ''  Primary Server: ss1'',
       ''  Backup Server: ss3'', ''  Read Access: ann'', ''  Write Access: ann'']))], True, whole_ctx, [])"
proof -
  let ?st = "nc_state whole_ctx"
  obtain e where e: "nm_find_file ?st ''f'' = Some e" "strip e = new_file_entry ''f'' ''ann'' 0 2 7" "fe_owner e = ''ann''" "fe_ss e = 0"
    by (rule whole_entry)
  have f: "fe_name e = ''f''" "fe_backup e = 2" "fe_words e = 0" "fe_chars e = 0" "fe_created e = 7" "fe_modified e = 7" "fe_last_access e = 7"
    "fe_last_user e = ''ann''" "fe_acl e = []"
    using arg_cong [OF e(2), of fe_name] arg_cong [OF e(2), of fe_backup] arg_cong [OF e(2), of fe_words] arg_cong [OF e(2), of fe_chars]
      arg_cong [OF e(2), of fe_created] arg_cong [OF e(2), of fe_modified] arg_cong [OF e(2), of fe_last_access]
      arg_cong [OF e(2), of fe_last_user] arg_cong [OF e(2), of fe_acl]
    by (simp_all add: strip_def new_file_entry_def NM_MAX_NAME_def NM_MAX_USER_def)
  have sv: "server_label ?st 0 = ''ss1''" "server_label ?st 2 = ''ss3''" "replica_status ?st 0 = ''online''" "replica_status ?st 2 = ''online''"
    by (simp_all add: server_label_def replica_status_def whole_servers registered_def server_is_available_def)
  have p: "plain_name ''f''" "plain_name ''ann''" "plain_name ''ss1''" "plain_name ''ss3''"
    by (simp_all add: plain_name_def plain_text_def escape_char_def)
  have shown: "shown_entry ?st e"
    using p by (simp add: shown_entry_def e f sv int_range_def INT_MIN_def INT_MAX_def)
  have ids: "replica_id ?st 0 = ''ss1''" "replica_id ?st 2 = ''ss3''" using p(3,4) sv(1,2) by (simp_all add: replica_label)
  have esc: "json_escape_string 256 ''ann'' = Some ''ann''" by code_simp
  have n: "show_int 0 = ''0''" "show_int 7 = ''7''" by code_simp+
  obtain extra where extra: "info_text ?st e (fe_name e) (fe_owner e) (fe_last_user e) = Some extra" "length extra + 16 < MAX_JSON"
    by (simp add: info_text_def e f append_all_def append_access_array_def esc replica_fields_def ids sv fmt_str_def fmt_int_def n
        key_open_def quoted_def MAX_JSON_def)
  have acc: "file_has_access e ''ann'' NM_PERM_READ" using e(3) by (simp add: file_has_access_def)
  have ts: "format_timestamp 7 32 = ''01-01-1970 05:30:07''"
    by (simp add: format_timestamp_def civil_def year_from.simps year_days_def leap_year_def month_lengths_def IST_OFFSET_SECONDS_def
        two_digits_def digit_char_def show_nat.simps)
  have "entry_lines ?st e = [''File: f'', ''  Owner: ann'', ''  Words: 0'', ''  Chars: 0'', ''  Created: 01-01-1970 05:30:07'',
       ''  Modified: 01-01-1970 05:30:07'', ''  Last Access: 01-01-1970 05:30:07 by ann'', ''  Primary Server: ss1'',
       ''  Backup Server: ss3'', ''  Read Access: ann'', ''  Write Access: ann'']"
    by (simp add: entry_lines_def e f sv ts n users_with_def describe_server_status_def name_or_unknown_def)
  moreover have "fe_name e \<noteq> []" by (simp add: f)
  ultimately show ?thesis
    using info_end_to_end [OF _ e(1) acc shown _ extra, of pair_os demo_os 9 first_server] by (simp add: NM_MAX_NAME_def)
qed

end
