(* ===== verification/Client_Stream.thy ===== *)
theory Client_Stream
  imports End_To_End
begin

text \<open>
  \<^verbatim>\<open>STREAM\<close> end to end: the words of a document, one message each, from the disk of the storage server to the
  output of the client.
\<close>

section \<open>The messages\<close>

definition word_message :: "string \<Rightarrow> string" where
  "word_message w = json_object [(''status'', JStr ''DATA''), (''word'', JStr w)]"

lemma word_message_format: "braces [fmt_str ''status'' ''DATA'', fmt_str ''word'' (escape w)] = word_message w"
proof -
  have p: "plain_text ''DATA''" by (simp add: plain_text_def escape_char_def)
  show ?thesis unfolding fmt_plain [OF p] fmt_member word_message_def braces_object [symmetric] by simp
qed

lemma word_message_fields:
  assumes "length w < 256"
  shows "json_get_string (word_message w) ''status'' 16 = Some ''DATA''" and "json_get_string (word_message w) ''word'' 256 = Some w"
    and "length (word_message w) < 1024"
proof -
  let ?kvs = "[(''status'', JStr ''DATA''), (''word'', JStr w)]"
  have ok: "json_ok ?kvs" by (simp add: json_ok_def plain_key_def)
  have k: "plain_key ''status''" "plain_key ''word''" by (simp_all add: plain_key_def)
  show "json_get_string (word_message w) ''status'' 16 = Some ''DATA''" "json_get_string (word_message w) ''word'' 256 = Some w"
    unfolding word_message_def using json_get_string_object [OF ok k(1)] json_get_string_object [OF ok k(2)] assms by simp_all
  show "length (word_message w) < 1024"
    unfolding word_message_format [symmetric] using assms length_escape [of w] by (simp add: braces_def fmt_str_def)
qed

lemma stream_loop_sends:
  assumes "\<forall>w \<in> set ws. length w < 256" and "length (outbox c) + length ws \<le> send_limit c"
  shows "stream_loop c ws = c\<lparr>outbox := outbox c @ map word_message ws\<rparr>"
  using assms
proof (induction ws arbitrary: c)
  case (Cons w ws)
  have "stream_loop c (w # ws) = stream_loop (c\<lparr>outbox := outbox c @ [word_message w]\<rparr>) ws"
    using Cons.prems word_message_fields(3) [of w] by (simp add: json_escape_dup_total word_message_format conn_send_def Let_def)
  with Cons show ?case by simp
qed simp

abbreviation done_message :: string where
  "done_message \<equiv> braces [fmt_str ''status'' ''DONE'']"

lemma stream_messages_words:
  assumes "\<forall>w \<in> set ws. length w < 256"
  shows "stream_messages (map word_message ws @ [done_message]) = (map (\<lambda>w. Out (w @ '' '')) ws @ [Out endl], True)"
  using assms
proof (induction ws)
  case Nil
  have "json_get_string done_message ''status'' 16 = Some ''DONE''" by code_simp
  then show ?case by simp
qed (simp add: word_message_fields)

section \<open>The server\<close>

definition stream_payload :: "string \<Rightarrow> string \<Rightarrow> string \<Rightarrow> string" where
  "stream_payload n u token =
     json_object [(''type'', JStr ''STREAM''), (''file'', JStr n), (''user'', JStr u), (''ticket'', JStr token)]"

lemma stream_payload_format: "braces (data_fields ''STREAM'' n u token) = stream_payload n u token"
proof -
  have p: "plain_text ''STREAM''" by (simp add: plain_text_def escape_char_def)
  show ?thesis unfolding data_fields_def fmt_plain [OF p] fmt_member stream_payload_def braces_object [symmetric] by simp
qed

lemma stream_payload_fields:
  assumes "length n < SS_NAME_MAX" and "length u < SS_USER_MAX" and "length token < 64"
  shows "json_get_string (stream_payload n u token) ''type'' 64 = Some ''STREAM''"
    and "json_get_string (stream_payload n u token) ''file'' SS_NAME_MAX = Some n"
    and "json_get_string (stream_payload n u token) ''user'' SS_USER_MAX = Some u"
    and "json_get_string (stream_payload n u token) ''ticket'' 64 = Some token"
    and "length (stream_payload n u token) < MAX_JSON"
proof -
  let ?kvs = "[(''type'', JStr ''STREAM''), (''file'', JStr n), (''user'', JStr u), (''ticket'', JStr token)]"
  have ok: "json_ok ?kvs" by (simp add: json_ok_def plain_key_def)
  have k: "plain_key ''type''" "plain_key ''file''" "plain_key ''user''" "plain_key ''ticket''" by (simp_all add: plain_key_def)
  note get = json_get_string_object [OF ok]
  show "json_get_string (stream_payload n u token) ''type'' 64 = Some ''STREAM''"
    "json_get_string (stream_payload n u token) ''file'' SS_NAME_MAX = Some n"
    "json_get_string (stream_payload n u token) ''user'' SS_USER_MAX = Some u"
    "json_get_string (stream_payload n u token) ''ticket'' 64 = Some token"
    unfolding stream_payload_def using get [OF k(1)] get [OF k(2)] get [OF k(3)] get [OF k(4)] assms by simp_all
  show "length (stream_payload n u token) < MAX_JSON"
    using assms length_escape [of n] length_escape [of u] length_escape [of token]
    unfolding stream_payload_format [symmetric]
    by (simp add: MAX_JSON_def SS_NAME_MAX_def SS_USER_MAX_def braces_def fmt_str_def data_fields_def)
qed

definition stream_header :: "nat \<Rightarrow> string" where
  "stream_header k = braces [fmt_str ''status'' ''OK'', commas [fmt_str ''mode'' ''STREAM'', fmt_int ''words'' (int k)]]"

lemma handle_stream_sends:
  assumes "ctx_inv ctx" and "ss_lookup (sc_state ctx) n = Some f" and "ws = split_words (file_text (os_env os) (sc_disk ctx) f)"
    and "\<forall>w \<in> set ws. length w < 256" and "int_range (int (length ws))" and "length (outbox c) + length ws + 2 \<le> send_limit c"
  shows "snd (snd (handle_stream os ctx c n u)) = c\<lparr>outbox := outbox c @ stream_header (length ws) # map word_message ws @ [done_message]\<rparr>"
proof -
  let ?header = "commas [fmt_str ''mode'' ''STREAM'', fmt_int ''words'' (int (length ws))]"
  let ?c1 = "c\<lparr>outbox := outbox c @ [stream_header (length ws)]\<rparr>"
  have h: "length ?header < 60"
    using length_show_long [OF int_range_long [OF assms(5)]] by (simp add: fmt_str_def fmt_int_def)
  have s: "send_ok c ?header = (True, ?c1)"
    using h assms(6) by (simp add: send_ok_def conn_send_def stream_header_def Let_def fmt_str_def fmt_int_def braces_def MAX_JSON_def)
  have l: "stream_loop ?c1 ws = ?c1\<lparr>outbox := outbox ?c1 @ map word_message ws\<rparr>"
    by (rule stream_loop_sends [OF assms(4)]) (use assms(6) in simp)
  have view: "snapshot_file ctx n = Some f" using assms(1,2) by (simp add: snapshot_lookup)
  show ?thesis
    unfolding handle_stream_def view option.case assms(3) [symmetric] Let_def s prod.case l
    using h assms(6) by (simp add: conn_send_def case_prod_unfold del: commas.simps)
qed

lemma data_client_stream:
  assumes "ctx_inv ctx" and "ss_lookup (sc_state ctx) n = Some f" and "ws = split_words (file_text (os_env os) (sc_disk ctx) f)"
    and "\<forall>w \<in> set ws. length w < 256" and "int_range (int (length ws))" and "length ws + 2 \<le> limit"
    and "length n < SS_NAME_MAX" and "length u < SS_USER_MAX" and "length tk < 64" and "mem_ok (os_env os) (elem_size (sc_tickets ctx))"
    and "t \<in> set (items (sc_tickets ctx))" and "ticket_matches tk u n ''STREAM'' t" and "\<not> ticket_expired (os_now os) t"
  shows "outbox (snd (data_run os limit ctx [stream_payload n u tk])) = stream_header (length ws) # map word_message ws @ [done_message]"
proof -
  let ?c1 = "\<lparr>inbox = [], outbox = [], send_limit = limit\<rparr>"
  obtain t' tbl where v: "validate_ticket (mem_ok (os_env os)) (os_now os) (sc_tickets ctx) tk u n ''STREAM'' = (Ok t', tbl)"
    using ticket_validates [OF assms(10-13)] by blast
  have "snd (snd (handle_stream os (ctx\<lparr>sc_tickets := tbl\<rparr>) ?c1 n u)) =
      ?c1\<lparr>outbox := outbox ?c1 @ stream_header (length ws) # map word_message ws @ [done_message]\<rparr>"
    by (rule handle_stream_sends) (use assms in simp_all)
  then have "snd (with_ticket os ctx ?c1 tk u n ''STREAM'' (\<lambda>x. handle_stream os x ?c1 n u)) =
      ?c1\<lparr>outbox := stream_header (length ws) # map word_message ws @ [done_message]\<rparr>"
    by (simp add: with_ticket_def v case_prod_unfold)
  moreover have "data_run os limit ctx [stream_payload n u tk] = with_ticket os ctx ?c1 tk u n ''STREAM'' (\<lambda>x. handle_stream os x ?c1 n u)"
    by (simp add: data_run_def handle_data_client_def Let_def stream_payload_fields [OF assms(7-9)])
  ultimately show ?thesis by simp
qed

section \<open>Both ends\<close>

text \<open>C13: Streaming end to end. A user who may read a file types \<^verbatim>\<open>STREAM\<close> with its name: the client prints every
  word of the document that the storage server has on disk, in order and each followed by a blank, and ends the line.
  Words are shorter than 256 characters, and the connection carries one message per word.\<close>

theorem stream_end_to_end:
  assumes "opens os os1 os2 rnd ctx ps bs n u NM_PERM_READ" and "nc_world ctx = (g, src, dst)"
    and "ctx_inv src" and "ss_lookup (sc_state src) n = Some f" and "ws = split_words (file_text (os_env os1) (sc_disk src) f)"
    and "\<forall>w \<in> set ws. length w < 256" and "int_range (int (length ws))" and "length ws + 2 \<le> limit"
  shows "\<exists>w. handle_stream_cmd (system_env os os1 limit ps u) u n (ctx, []) =
    (Out (''Streaming '' @ n @ ''...'' @ endl) # map (\<lambda>w. Out (w @ '' '')) ws @ [Out endl], True, w)"
proof -
  let ?env = "system_env os os1 limit ps u"
  have op: "''STREAM'' \<in> data_ops" "op_perm ''STREAM'' = NM_PERM_READ" "int_range 0"
    by (simp_all add: data_ops_def op_perm_def int_range_def INT_MIN_def INT_MAX_def)
  obtain token ctx2 g1 tbl c where t: "nc_world ctx2 = (g1, src\<lparr>nm_conn := c, sc_tickets := tbl\<rparr>, dst)"
    "ticket_ready os1 (src\<lparr>nm_conn := c, sc_tickets := tbl\<rparr>) token u n ''STREAM''"
    "handle_stream_cmd ?env u n (ctx, []) = ss_stream ?env (ss_host ps) (ss_data_port ps) n u token (ctx2, [])"
    using with_endpoint_at_primary [OF assms(1) [folded op(2)] assms(2) op(1,3), of limit
        "\<lambda>response host port ticket w1. ss_stream ?env host port n u ticket w1" "\<lambda>r. r"]
    unfolding handle_stream_cmd_def read_members by blast
  let ?src = "src\<lparr>nm_conn := c, sc_tickets := tbl\<rparr>"
  obtain tk where tk: "length token < 64" "tk \<in> set (items (sc_tickets ?src))" "ticket_matches token u n ''STREAM'' tk"
    "\<not> ticket_expired (os_now os1) tk" using t(2) by (auto simp: ticket_ready_def)
  have len: "length n < SS_NAME_MAX" "length u < SS_USER_MAX" "mem_ok (os_env os1) (elem_size (sc_tickets ?src))"
    using assms(1) by (auto simp: opens_def wired_def SS_NAME_MAX_def SS_USER_MAX_def NM_MAX_NAME_def NM_MAX_USER_def)
  have "outbox (snd (data_run os1 limit ?src [stream_payload n u token])) = stream_header (length ws) # map word_message ws @ [done_message]"
    by (rule data_client_stream [OF _ _ _ assms(6-8) len(1,2) tk(1) len(3) tk(2-4)]) (use assms(3-5) in simp_all)
  then have st: "ce_ss_stream ?env (stream_payload n u token) (ctx2, []) =
      (Some (stream_header (length ws) # map word_message ws @ [done_message]), ctx2, [stream_payload n u token])"
    using t(1) by (simp add: system_env_def primary_def)
  have conn: "ce_connect ?env (ss_host ps) (ss_data_port ps) (ctx2, []) = (True, ctx2, [])" by (simp add: system_env_def)
  have ok: "status_ok (stream_header k)" for k
    by (simp add: stream_header_def status_ok_def json_get_string_def string_pattern_def braces_def fmt_str_def)
  show ?thesis
    unfolding t(3) ss_stream_def stream_payload_format Let_def
    using stream_payload_fields(5) [OF len(1,2) tk(1)] by (simp add: conn st ok stream_messages_words [OF assms(6)])
qed

theorem stream_end_to_end_witness:
  "\<exists>w. handle_stream_cmd (system_env pair_os demo_os 9 first_server ''ann'') ''ann'' ''f'' (whole_ctx, []) =
    ([Out (''Streaming f...'' @ endl), Out ''A. '', Out ''B. '', Out ''C. '', Out endl], True, w)"
proof -
  have e: "os_env demo_os = good_env" "sc_disk demo_ctx = demo_disk" by (simp_all add: demo_os_def demo_ctx_def)
  have ws: "[''A.'', ''B.'', ''C.''] = split_words (file_text (os_env demo_os) (sc_disk demo_ctx) demo_file)"
    unfolding e demo_text by code_simp
  have "int_range (int (length [''A.'', ''B.'', ''C.'']))" by (simp add: int_range_def INT_MIN_def INT_MAX_def)
  from stream_end_to_end [OF whole_opens whole_world demo_inv demo_lookup ws _ this, of 9] show ?thesis by simp
qed

end
