(* ===== verification/Client_Commands.thy ===== *)
theory Client_Commands
  imports End_To_End
begin

text \<open>
  From the command line to the tables of the name manager: a line typed at the client, the
  request it becomes, and what the manager does.
\<close>

section \<open>Words of a command\<close>

definition a_word :: "string \<Rightarrow> bool" where
  "a_word w \<longleftrightarrow> w \<noteq> [] \<and> list_all (\<lambda>c. \<not> is_space c) w"

lemma a_word_chars:
  assumes "a_word w" and "c \<in> set w"
  shows "c \<noteq> SPACE \<and> c \<noteq> NEWLINE \<and> c \<noteq> RETURN"
proof -
  have "is_space SPACE" "is_space NEWLINE" "is_space RETURN" by (simp_all add: is_space_def)
  moreover have "\<not> is_space c" using assms by (simp add: a_word_def list_all_iff)
  ultimately show ?thesis by metis
qed

lemma strtok_word:
  assumes "a_word w"
  shows "strtok '' '' (w @ SPACE # rest) = (Some w, rest)"
proof -
  have sep: "set '' '' = {SPACE}" by simp
  have no: "\<forall>x \<in> set w. x \<noteq> SPACE" using a_word_chars [OF assms] by blast
  have ne: "w \<noteq> []" using assms by (simp add: a_word_def)
  have "takeWhile (\<lambda>x. x \<notin> {SPACE}) (w @ SPACE # rest) = w" "dropWhile (\<lambda>x. x \<notin> {SPACE}) (w @ SPACE # rest) = SPACE # rest"
    using no by (simp_all add: takeWhile_append dropWhile_append)
  moreover have "dropWhile (\<lambda>x. x \<in> {SPACE}) (w @ SPACE # rest) = w @ SPACE # rest"
    using no ne by (simp add: dropWhile_eq_self_iff)
  ultimately show ?thesis using ne unfolding strtok_def Let_def sep by simp
qed

lemma strtok_rest: "s \<noteq> [] \<Longrightarrow> strtok [] s = (Some s, [])"
proof -
  have all: "takeWhile (\<lambda>c. c \<notin> set []) s = s" "dropWhile (\<lambda>c. c \<notin> set []) s = []" "dropWhile (\<lambda>c. c \<in> set []) s = s"
    by (induction s) simp_all
  show "s \<noteq> [] \<Longrightarrow> strtok [] s = (Some s, [])" unfolding strtok_def Let_def all by simp
qed

lemma trim_word: "a_word w \<Longrightarrow> trim_white w = w"
proof -
  assume w: "a_word w"
  then have "dropWhile is_space w = w" by (cases w) (auto simp: a_word_def)
  moreover have "dropWhile is_space (rev w) = rev w"
    using w by (cases w rule: rev_cases) (auto simp: a_word_def)
  ultimately show ?thesis by (simp add: trim_white_def)
qed

text \<open>The line \<^verbatim>\<open>ADDACCESS -W <file> <user>\<close>.\<close>

definition grant_line :: "string \<Rightarrow> string \<Rightarrow> string" where
  "grant_line n v = ''ADDACCESS -W '' @ n @ SPACE # v"

lemma parse_grant_line:
  assumes "a_word n" and "a_word v"
  shows "parse_command (grant_line n v) = Some (AddAccess n v True)"
proof -
  have w: "a_word ''ADDACCESS''" "a_word ''-W''" by (simp_all add: a_word_def is_space_def)
  have line: "grant_line n v = ''ADDACCESS'' @ SPACE # ''-W'' @ SPACE # n @ SPACE # v" by (simp add: grant_line_def)
  have cmd: "map to_upper ''ADDACCESS'' = ''ADDACCESS''" by code_simp
  have v: "v \<noteq> []" using assms(2) by (simp add: a_word_def)
  have "parse_addaccess (''-W'' @ SPACE # n @ SPACE # v) = AddAccess n v True"
    unfolding parse_addaccess_def Let_def strtok_word [OF w(2)] prod.case strtok_word [OF assms(1)] strtok_rest [OF v]
    using v by (simp add: is_mode_flag_def flag_writes_def trim_word [OF assms(2)])
  then show ?thesis
    unfolding parse_command_def line strtok_word [OF w(1)] prod.case option.case cmd by (simp add: parse_request_def)
qed

section \<open>Granting access\<close>

definition grant_request :: "string \<Rightarrow> string \<Rightarrow> string" where
  "grant_request n v = json_object [(''type'', JStr ''ADDACCESS''), (''file'', JStr n), (''user'', JStr v), (''mode'', JStr ''RW'')]"

lemma grant_request_fields:
  assumes "length n < NM_MAX_NAME" and "length v < NM_MAX_USER"
  shows "json_get_string (grant_request n v) ''type'' 64 = Some ''ADDACCESS''"
    and "json_get_string (grant_request n v) ''file'' NM_MAX_NAME = Some n"
    and "json_get_string (grant_request n v) ''user'' NM_MAX_USER = Some v"
    and "json_get_string (grant_request n v) ''mode'' 8 = Some ''RW''"
proof -
  let ?kvs = "[(''file'', JStr n), (''user'', JStr v), (''mode'', JStr ''RW'')]"
  have ok: "json_ok ?kvs" by (simp add: json_ok_def plain_key_def)
  show "json_get_string (grant_request n v) ''type'' 64 = Some ''ADDACCESS''"
    unfolding grant_request_def using request_fields(1) [OF ok] by simp
  show "json_get_string (grant_request n v) ''file'' NM_MAX_NAME = Some n"
    unfolding grant_request_def using request_fields(2) [OF ok] assms(1) by (simp add: plain_key_def)
  show "json_get_string (grant_request n v) ''user'' NM_MAX_USER = Some v"
    unfolding grant_request_def using request_fields(2) [OF ok] assms(2) by (simp add: plain_key_def)
  show "json_get_string (grant_request n v) ''mode'' 8 = Some ''RW''"
    unfolding grant_request_def using request_fields(2) [OF ok] by (simp add: plain_key_def)
qed

lemma grant_call:
  assumes "length n < NM_MAX_NAME" and "length v < NM_MAX_USER"
  shows "nm_call env ''ADDACCESS'' (commas [file_body n, fmt_str ''user'' (escape v), fmt_str ''mode'' ''RW'']) w = ce_call env (grant_request n v) w"
proof -
  have p: "plain_text ''ADDACCESS''" "plain_text ''RW''" by (simp_all add: plain_text_def escape_char_def)
  let ?body = "commas [file_body n, fmt_str ''user'' (escape v), fmt_str ''mode'' ''RW'']"
  have eq: "braces [fmt_str ''type'' ''ADDACCESS'', ?body] = grant_request n v"
    unfolding file_body_def fmt_plain [OF p(1)] fmt_plain [OF p(2)] fmt_member grant_request_def by (simp add: braces_def json_object_def)
  have len: "length ?body < 600"
    using length_escape [of n] length_escape [of v] assms by (simp add: file_body_def fmt_str_def NM_MAX_NAME_def NM_MAX_USER_def)
  moreover have "?body \<noteq> []" by (simp add: file_body_def fmt_str_def)
  moreover have "length (braces [fmt_str ''type'' ''ADDACCESS'', ?body]) = length ?body + 21" by (simp add: braces_def fmt_str_def)
  ultimately show ?thesis unfolding nm_call_def Let_def by (simp add: eq MAX_JSON_def del: commas.simps)
qed

text \<open>A typed line that is a command other than \<^verbatim>\<open>QUIT\<close>.\<close>

lemma one_command:
  assumes "NEWLINE \<notin> set l" "l \<noteq> []" "last l \<noteq> RETURN" and "length l + 1 < 512"
    and "parse_command l = Some req" "req \<noteq> Quit" and "run_request env u req [] w = (out, [], w')"
  shows "client_loop env u (l @ [NEWLINE]) h w = (Out ''docs> '' # out @ [Out ''docs> '', Out endl], cli_input_remember l h, w')"
proof -
  have line: "fgets 512 (l @ [NEWLINE]) = (l @ [NEWLINE], [])" using fgets_line [OF assms(1,4), of "[]"] by simp
  have "last l \<noteq> NEWLINE" using assms(1,2) by (metis last_in_set)
  then have trim: "trim_newline (l @ [NEWLINE]) = l"
    using assms(2,3) by (cases l rule: rev_cases) (simp_all add: trim_newline_def)
  have stop: "client_loop env u [] h' w = ([Out ''docs> '', Out endl], h', w)" for h' w by (simp add: client_loop.simps)
  show ?thesis by (subst client_loop.simps) (simp add: line trim assms stop)
qed

lemma grant_line_typed:
  assumes "a_word n" "a_word v" and "length n < NM_MAX_NAME" "length v < NM_MAX_USER"
  shows "NEWLINE \<notin> set (grant_line n v)" "grant_line n v \<noteq> []" "last (grant_line n v) \<noteq> RETURN" "length (grant_line n v) + 1 < 512"
  using a_word_chars [OF assms(1)] a_word_chars [OF assms(2)] assms(2-4) last_in_set [of v]
  by (auto simp: grant_line_def a_word_def NM_MAX_NAME_def NM_MAX_USER_def)

text \<open>The command at the name manager.\<close>

lemma grant_runs:
  assumes "length n < NM_MAX_NAME" "length v < NM_MAX_USER" and "nm_find_file (nc_state ctx) n = Some e" "fe_owner e = u"
    and "nm_grant_access (nc_state ctx) n v (NM_PERM_READ OR NM_PERM_WRITE) = (Ok (), st')"
  shows "run_request (system_env os os1 limit ps u) u (AddAccess n v True) [] (ctx, []) =
    ([Out (''Access granted.'' @ endl)], [], nm_save os (set_state ctx st'), [])"
proof -
  let ?ctx = "nm_save os (set_state ctx st')" and ?reply = "braces [fmt_str ''status'' ''OK'', fmt_str ''op'' ''ADDACCESS'']"
  note f = grant_request_fields [OF assms(1,2)]
  have add: "handle_client_addaccess os ctx u (grant_request n v) = (?ctx, ReplyOk (fmt_str ''op'' ''ADDACCESS''))"
    using f(2-4) assms(3-5) by (simp add: handle_client_addaccess_def wants_def)
  have "send_ok fresh_conn (fmt_str ''op'' ''ADDACCESS'') = (True, fresh_conn\<lparr>outbox := [?reply]\<rparr>)" by code_simp
  then have call: "ce_call (system_env os os1 limit ps u) (grant_request n v) (ctx, []) = (Some ?reply, ?ctx, [])"
    by (simp add: system_env_def system_call_def handle_client_message_def f(1) add finish_def)
  have "status_ok ?reply" by code_simp
  then show ?thesis
    by (simp add: run_request_def run_simple_def handle_addaccess_cmd_def nm_simple_def nm_request_def grant_call [OF assms(1,2)] call
        del: commas.simps)
qed

text \<open>C14: Granting access from the command line. The owner of a file types \<^verbatim>\<open>ADDACCESS -W <file> <user>\<close>: the client
  answers that access was granted, and in the tables of the manager this user then has read and write access to this file,
  while nobody else's rights to any file change. The words have no blanks, the names fit and the access
  list of the file is not full.\<close>

theorem grant_typed:
  assumes "nm_acl_inv (nc_state ctx)" and "nm_find_file (nc_state ctx) n = Some e" and "fe_owner e = u" and "u \<noteq> v"
    and "a_word n" "a_word v" and "length n < NM_MAX_NAME" "length v < NM_MAX_USER"
    and "length (fe_acl e) < NM_MAX_ACL"
  shows "\<exists>ctx'. client_loop (system_env os os1 limit ps u) u (grant_line n v @ [NEWLINE]) h (ctx, []) =
      ([Out ''docs> '', Out (''Access granted.'' @ endl), Out ''docs> '', Out endl], cli_input_remember (grant_line n v) h, ctx', []) \<and>
    nm_check_access (nc_state ctx') n v (NM_PERM_READ OR NM_PERM_WRITE) = Ok () \<and>
    (\<forall>m w. (m, w) \<noteq> (n, v) \<longrightarrow> nm_rights (nc_state ctx') m w = nm_rights (nc_state ctx) m w)"
proof -
  let ?p = "NM_PERM_READ OR NM_PERM_WRITE"
  obtain st' where g: "nm_grant_access (nc_state ctx) n v ?p = (Ok (), st')"
    "\<forall>m w. nm_rights st' m w = (if m = n \<and> w = v then Some (case nm_rights (nc_state ctx) n v of None \<Rightarrow> ?p OR NM_PERM_READ | Some q \<Rightarrow> q OR ?p)
        else nm_rights (nc_state ctx) m w)"
    using nm_grant_access_result [OF assms(1,2,8), of ?p] assms(3,4,9) by auto
  have loop: "client_loop (system_env os os1 limit ps u) u (grant_line n v @ [NEWLINE]) h (ctx, []) =
      ([Out ''docs> '', Out (''Access granted.'' @ endl), Out ''docs> '', Out endl], cli_input_remember (grant_line n v) h,
       nm_save os (set_state ctx st'), [])"
    using one_command [OF grant_line_typed [OF assms(5-8)] parse_grant_line [OF assms(5,6)] _ grant_runs [OF assms(7,8,2,3) g(1)]] by simp
  obtain q where q: "nm_rights st' n v = Some (q OR ?p)"
    using g(2) that [of 0] that by (cases "nm_rights (nc_state ctx) n v") (auto simp: or.commute)
  have "(q OR ?p) AND ?p = ?p" by (simp add: bit_eq_iff bit_simps)
  with q have "nm_check_access st' n v ?p = Ok ()" by (auto simp: nm_check_access_eq nm_rights_def split: option.splits)
  with loop g(2) show ?thesis by (auto simp: nm_save_def set_state_def)
qed

theorem grant_typed_witness:
  "\<exists>ctx'. client_loop (system_env pair_os demo_os 9 first_server ''ann'') ''ann'' (''ADDACCESS -W f bob'' @ [NEWLINE]) [] (whole_ctx, []) =
      ([Out ''docs> '', Out (''Access granted.'' @ endl), Out ''docs> '', Out endl], [''ADDACCESS -W f bob''], ctx', []) \<and>
    nm_check_access (nc_state ctx') ''f'' ''bob'' (NM_PERM_READ OR NM_PERM_WRITE) = Ok ()"
proof -
  obtain e where e: "nm_find_file (nc_state whole_ctx) ''f'' = Some e" "strip e = new_file_entry ''f'' ''ann'' 0 2 7" "fe_owner e = ''ann''"
    by (rule whole_entry)
  have s: "strip (new_file_entry ''f'' ''ann'' 0 2 7) = new_file_entry ''f'' ''ann'' 0 2 7" by (simp add: strip_def new_file_entry_def)
  have none: "fe_acl x = []" if "strip x = new_file_entry ''f'' ''ann'' 0 2 7" for x
    using arg_cong [OF that, of fe_acl] by (simp add: strip_def new_file_entry_def)
  have "strip x = new_file_entry ''f'' ''ann'' 0 2 7" if "x \<in> set (nm_files (nc_state whole_ctx))" for x
    using push_demo(3) [OF s] that by (cases "nm_files (nc_state whole_ctx)") (auto simp: whole_ctx_def)
  then have inv: "nm_acl_inv (nc_state whole_ctx)"
    using push_demo(1) [OF s] none by (auto simp: nm_acl_inv_def acl_ok_def whole_ctx_def)
  have w: "a_word ''f''" "a_word ''bob''" by (simp_all add: a_word_def is_space_def)
  have l: "length ''f'' < NM_MAX_NAME" "length ''bob'' < NM_MAX_USER" "length (fe_acl e) < NM_MAX_ACL" "''ann'' \<noteq> ''bob''"
    using none [OF e(2)] by (simp_all add: NM_MAX_NAME_def NM_MAX_USER_def NM_MAX_ACL_def)
  have h: "grant_line ''f'' ''bob'' = ''ADDACCESS -W f bob''" "cli_input_remember ''ADDACCESS -W f bob'' [] = [''ADDACCESS -W f bob'']" by code_simp+
  from grant_typed [OF inv e(1,3) l(4) w l(1-3), of pair_os demo_os 9 first_server "[]"] show ?thesis unfolding h by blast
qed

end
