(* ===== verification/Client_World.thy ===== *)
theory Client_World
  imports Client_Main
begin

text \<open>
  What the client relies on, as a contract: an invariant of the world that every answer of the servers
  keeps. Then no input whatsoever breaks it: every command, and the whole session, keeps it too.
\<close>

locale client_world =
  fixes env :: "'w cli_env" and inv :: "'w \<Rightarrow> bool"
  assumes call_inv: "inv w \<Longrightarrow> ce_call env payload w = (r, w') \<Longrightarrow> inv w'"
    and connect_inv: "inv w \<Longrightarrow> ce_connect env host port w = (b, w') \<Longrightarrow> inv w'"
    and ss_call_inv: "inv w \<Longrightarrow> ce_ss_call env payload w = (r, w') \<Longrightarrow> inv w'"
    and ss_stream_inv: "inv w \<Longrightarrow> ce_ss_stream env payload w = (rs, w') \<Longrightarrow> inv w'"
begin

section \<open>Requests to the name manager\<close>

lemma nm_request_inv: "inv w \<Longrightarrow> nm_request env type body w = (r, w') \<Longrightarrow> inv w'"
  by (auto simp: nm_request_def nm_call_def Let_def split: prod.splits option.splits if_splits dest: call_inv)

lemma nm_simple_inv: "inv w \<Longrightarrow> nm_simple env type body s w = (out, b, w') \<Longrightarrow> inv w'"
  by (auto simp: nm_simple_def split: prod.splits sum.splits dest: nm_request_inv)

lemmas simple_defs = handle_create_cmd_def handle_delete_cmd_def handle_addaccess_cmd_def handle_remaccess_cmd_def
  handle_reqaccess_cmd_def handle_handlereq_cmd_def handle_undo_cmd_def handle_checkpoint_cmd_def handle_revert_cmd_def

lemmas shown_defs = handle_exec_cmd_def handle_exit_cmd_def handle_viewcheckpoint_cmd_def handle_view_def handle_list_users_def
  handle_info_cmd_def handle_viewreqs_cmd_def handle_listcheckpoints_cmd_def

section \<open>Data connections\<close>

lemma ss_read_inv: "inv w \<Longrightarrow> ss_read env host port file user ticket w = (out, b, w') \<Longrightarrow> inv w'"
  by (auto simp: ss_read_def Let_def split: prod.splits bool.splits option.splits if_splits dest: connect_inv ss_call_inv)

lemma ss_stream_cmd_inv: "inv w \<Longrightarrow> ss_stream env host port file user ticket w = (out, b, w') \<Longrightarrow> inv w'"
  by (auto simp: ss_stream_def Let_def split: prod.splits bool.splits option.splits list.splits if_splits dest: connect_inv ss_stream_inv)

lemma write_lines_inv: "inv w \<Longrightarrow> write_lines env input w = (b, out, rest, w') \<Longrightarrow> inv w'"
proof (induction "length input" arbitrary: input w b out rest w' rule: less_induct)
  case less
  show ?case
  proof (cases "input = []")
    case False
    let ?rest = "snd (fgets 512 input)"
    have later: "inv w2" if "inv w1" "write_lines env ?rest w1 = (b1, out1, r1, w2)" for b1 out1 r1 w1 w2
      using less.hyps [OF _ that] False by (simp add: fgets_shorter)
    show ?thesis
      using less.prems later False
      by (subst (asm) write_lines.simps) (auto simp: Let_def split: edit.splits prod.splits option.splits if_splits dest: ss_call_inv)
  qed (use less.prems in \<open>simp add: write_lines.simps\<close>)
qed

lemma finish_write_inv:
  assumes "inv w" and "finish_write env c w = (out, b, w')"
  shows "inv w'"
proof -
  have aborted: "inv (snd (ce_ss_call env p w1))" if "inv w1" for p w1 using ss_call_inv [OF that, of p] by (simp add: prod_eq_iff)
  show ?thesis
  proof (cases c)
    case True
    obtain r w1 where c1: "ce_ss_call env (braces [fmt_str ''type'' ''WRITE_COMMIT'']) w = (r, w1)" by fastforce
    with ss_call_inv [OF assms(1)] have "inv w1" by blast
    then show ?thesis using assms(2) True c1 aborted [of w1] by (auto simp: finish_write_def split: option.splits if_splits)
  qed (use assms aborted in \<open>auto simp: finish_write_def\<close>)
qed

lemma ss_write_session_inv:
  assumes "inv w" and "ss_write_session env host port file user ticket i input w = ((out, b, w'), rest)"
  shows "inv w'"
proof -
  obtain ok w1 where c: "ce_connect env host port w = (ok, w1)" by fastforce
  obtain r w2 where o: "ce_ss_call env (braces (data_fields ''WRITE_BEGIN'' file user ticket @ [fmt_int ''sentence'' i])) w1 = (r, w2)" by fastforce
  obtain cm out3 rest3 w3 where l: "write_lines env input w2 = (cm, out3, rest3, w3)" by (metis prod_cases4)
  obtain out4 b4 w4 where f: "finish_write env cm w3 = (out4, b4, w4)" by (metis prod_cases3)
  have i1: "inv w1" by (rule connect_inv [OF assms(1) c])
  have i2: "inv w2" by (rule ss_call_inv [OF i1 o])
  have "inv w4" by (rule finish_write_inv [OF write_lines_inv [OF i2 l] f])
  then show ?thesis
    using assms(2) c o l f i1 i2 unfolding ss_write_session_def Let_def by (auto split: bool.splits option.splits if_splits)
qed

section \<open>Commands and sessions\<close>

lemma run_simple_inv: "inv w \<Longrightarrow> run_simple env u req w = (out, b, w') \<Longrightarrow> inv w'"
  by (cases req; auto simp: run_simple_def simple_defs shown_defs handle_read_cmd_def handle_stream_cmd_def with_endpoint_def Let_def
      split: prod.splits option.splits sum.splits if_splits
      dest: nm_simple_inv nm_request_inv ss_read_inv ss_stream_cmd_inv)

lemma run_request_inv: "inv w \<Longrightarrow> run_request env u req input w = (out, rest, w') \<Longrightarrow> inv w'"
proof (cases req)
  case (Write f i)
  assume "inv w" "run_request env u req input w = (out, rest, w')"
  then show ?thesis
    using Write by (auto simp: run_request_def handle_write_cmd_def with_endpoint_def split: prod.splits option.splits sum.splits
        dest: nm_request_inv ss_write_session_inv)
qed (auto simp: run_request_def split: prod.splits dest: run_simple_inv)

theorem client_loop_inv: "inv w \<Longrightarrow> client_loop env u input h w = (out, h', w') \<Longrightarrow> inv w'"
proof (induction "length input" arbitrary: input h w out h' w' rule: less_induct)
  case less
  show ?case
  proof (cases "input = []")
    case False
    have short: "length (snd (fgets 512 input)) < length input" using False by (simp add: fgets_shorter)
    have more: "inv w2" if "length r \<le> length (snd (fgets 512 input))" "inv w1" "client_loop env u r h1 w1 = (out1, h2, w2)"
      for r h1 w1 out1 h2 w2 using less.hyps [OF _ that(2,3)] that(1) short by simp
    note next_line = more [OF order_refl less.prems(1)]
    have next_command: "inv w2"
      if "run_request env u req (snd (fgets 512 input)) w = (out1, r, w1)" "client_loop env u r h1 w1 = (out2, h2, w2)"
      for req out1 r w1 h1 out2 h2 w2
      using more [OF run_request_rest [OF that(1)] run_request_inv [OF less.prems(1) that(1)] that(2)] .
    show ?thesis
      using less.prems(2) False run_request_inv [OF less.prems(1)]
      by (subst (asm) client_loop.simps)
        (auto simp: Let_def split: prod.splits option.splits if_splits dest: next_line next_command)
  qed (use less.prems in \<open>simp add: client_loop.simps\<close>)
qed

end

end
