(* ===== verification/Client_Rights.thy ===== *)
theory Client_Rights
  imports Client_World End_To_End
begin

text \<open>
  The whole system keeps the rights on a foreign file, whatever a user types: the contract \<open>client_world\<close>
  holds for the system with this invariant.
\<close>

definition guarded :: "name \<Rightarrow> name \<times> file_acl_entry list \<Rightarrow> string \<Rightarrow> 'g system \<Rightarrow> bool" where
  "guarded n g u w \<longleftrightarrow> length u < NM_MAX_USER \<and> nm_wf (nc_state (fst w)) \<and> fst g \<noteq> u \<and> \<not> may_write (snd g) u \<and>
     grants (nc_state (fst w)) n = Some g"

lemma settle_state [simp]: "nc_state (settle os1 limit w) = nc_state (fst w)"
  by (simp add: settle_def split: prod.split)

lemma message_guarded:
  assumes "guarded n g u w" and "nc_state ctx = nc_state (fst w)"
  shows "guarded n g u (fst (snd (handle_client_message os ctx c u json)), msgs)"
proof -
  have wf: "nm_wf (nc_state ctx)" "length u < NM_MAX_USER" using assms by (simp_all add: guarded_def)
  have act: "acts os u ctx (fst (snd (handle_client_message os ctx c u json)))" by (rule message_acts [OF wf])
  obtain ow acl where g: "g = (ow, acl)" by fastforce
  have "grants (nc_state ctx) n = Some (ow, acl)" "ow \<noteq> u" "\<not> may_write acl u" using assms g by (simp_all add: guarded_def)
  then show ?thesis using act wf assms(1) g unfolding acts_defs guarded_def by auto
qed

interpretation user: client_world "system_env os os1 limit ps u" "guarded n g u"
  for os :: "'g two_servers nm_os" and os1 limit ps u n g
proof unfold_locales
  show "guarded n g u w'" if "guarded n g u w" "ce_call (system_env os os1 limit ps u) payload w = (r, w')" for w payload r w'
    using that message_guarded [OF that(1), of "settle os1 limit w" os fresh_conn payload "[]"]
    by (auto simp: system_env_def system_call_def split: prod.splits)
  show "guarded n g u w'" if "guarded n g u w" "ce_connect (system_env os os1 limit ps u) host port w = (b, w')" for w host port b w'
    using that by (auto simp: system_env_def guarded_def)
  show "guarded n g u w'" if "guarded n g u w" "ce_ss_call (system_env os os1 limit ps u) payload w = (r, w')" for w payload r w'
    using that by (auto simp: system_env_def system_ss_call_def guarded_def Let_def split: prod.splits)
  show "guarded n g u w'" if "guarded n g u w" "ce_ss_stream (system_env os os1 limit ps u) payload w = (rs, w')" for w payload rs w'
    using that by (auto simp: system_env_def guarded_def)
qed

text \<open>C9: No input gives rights. Whatever a user types during a whole session, whatever the commands do and
  however the servers answer, a file of somebody else on which the user has no write access is still there at the end,
  with the same owner and the same access list, and the user still has no write access.\<close>

theorem session_keeps_foreign_rights:
  assumes "nm_wf (nc_state ctx)" and "length u < NM_MAX_USER" and "nm_find_file (nc_state ctx) n = Some f"
    and "u \<noteq> []" and "fe_owner f \<noteq> u" and "\<not> file_has_access f u NM_PERM_WRITE"
    and "client_loop (system_env os os1 limit ps u) u input h (ctx, msgs) = (out, h', ctx', msgs')"
  shows "nm_wf (nc_state ctx') \<and>
    (\<exists>f'. nm_find_file (nc_state ctx') n = Some f' \<and> fe_owner f' = fe_owner f \<and> fe_acl f' = fe_acl f \<and>
       \<not> file_has_access f' u NM_PERM_WRITE)"
proof -
  have no: "\<not> may_write (fe_acl f) u" using assms(4-6) by (auto simp: has_access_iff file_rights_def may_write_def split: option.splits)
  then have "guarded n (fe_owner f, fe_acl f) u (ctx, msgs)" using assms by (simp add: guarded_def grants_def)
  from user.client_loop_inv [OF this assms(7)]
  obtain f' where "nm_wf (nc_state ctx')" "nm_find_file (nc_state ctx') n = Some f'" "fe_owner f' = fe_owner f" "fe_acl f' = fe_acl f"
    by (auto simp: guarded_def grants_def)
  with no assms(5) show ?thesis by (auto simp: has_access_iff file_rights_def may_write_def)
qed

text \<open>Bob, who may read the file of Alice, tries to delete it and to give himself write access.\<close>

theorem session_keeps_foreign_rights_witness:
  "\<exists>f'. nm_find_file (nc_state (fst (snd (snd (client_loop (system_env pair_os demo_os 9 first_server ''bob'') ''bob''
      (''DELETE a'' @ NEWLINE # ''ADDACCESS -W a bob'' @ [NEWLINE]) [] (pair_ctx\<lparr>nc_state := nm_demo_state\<rparr>, [])))))) ''a'' = Some f' \<and>
    fe_owner f' = ''alice'' \<and> \<not> file_has_access f' ''bob'' NM_PERM_WRITE"
proof -
  let ?ctx = "pair_ctx\<lparr>nc_state := nm_demo_state\<rparr>"
  let ?run = "client_loop (system_env pair_os demo_os 9 first_server ''bob'') ''bob''
      (''DELETE a'' @ NEWLINE # ''ADDACCESS -W a bob'' @ [NEWLINE]) [] (?ctx, [])"
  obtain f where f: "nm_find_file (nc_state ?ctx) ''a'' = Some f" "strip f = demo_shared" using nm_demo_state_facts(4) by auto
  have e: "fe_owner f = ''alice''" "fe_acl f = [\<lparr>acl_user = ''bob'', acl_perm = 1\<rparr>]"
    using arg_cong [OF f(2), of fe_owner] arg_cong [OF f(2), of fe_acl]
    by (simp_all add: strip_def demo_shared_def new_file_entry_def NM_MAX_USER_def)
  have n: "\<not> file_has_access f ''bob'' NM_PERM_WRITE" using e by (simp add: has_access_iff file_rights_def NM_PERM_WRITE_def)
  have h: "nm_wf (nc_state ?ctx)" "length ''bob'' < NM_MAX_USER" "''bob'' \<noteq> []" "fe_owner f \<noteq> ''bob''"
    using nm_demo_state_facts(1) e by (simp_all add: NM_MAX_USER_def)
  obtain out h' ctx' msgs' where r: "?run = (out, h', ctx', msgs')" by (metis prod_cases4)
  from session_keeps_foreign_rights [OF h(1,2) f(1) h(3,4) n r] r e(1) show ?thesis by auto
qed

end
