(* ===== verification/Client_Screen.thy ===== *)
theory Client_Screen
  imports Client_Input
begin

text \<open>
  What the line editor of the client does to the terminal, the rest of \<^verbatim>\<open>client/cli_input.c\<close>: its modes and what is written to it
  key by key. The terminal itself is a parameter: \<open>terminal\<close> states what it does with the characters and control sequences the editor uses.
\<close>

section \<open>Modes\<close>

datatype tty_mode = Cooked | Raw

record tty =
  ty_is_tty :: bool
  ty_saved :: bool
  ty_mode :: tty_mode

text \<open>What \<^verbatim>\<open>isatty\<close> and \<^verbatim>\<open>tcgetattr\<close> answer.\<close>

definition cli_input_init :: "bool \<Rightarrow> bool \<Rightarrow> tty" where
  "cli_input_init is_tty attr_ok = \<lparr>ty_is_tty = (is_tty \<and> attr_ok), ty_saved = (is_tty \<and> attr_ok), ty_mode = Cooked\<rparr>"

definition enable_raw_mode :: "bool \<Rightarrow> tty \<Rightarrow> bool \<times> tty" where
  "enable_raw_mode set_ok t =
     (if \<not> ty_is_tty t \<or> \<not> ty_saved t then (True, t) else if set_ok then (True, t\<lparr>ty_mode := Raw\<rparr>) else (False, t))"

text \<open>Setting the mode back may fail as well, and nobody notices: the terminal stays in raw mode.\<close>

definition disable_raw_mode :: "bool \<Rightarrow> tty \<Rightarrow> tty" where
  "disable_raw_mode restore_ok t = (if ty_is_tty t \<and> ty_saved t \<and> restore_ok then t\<lparr>ty_mode := Cooked\<rparr> else t)"

section \<open>Output\<close>

abbreviation BACKSPACE :: char where "BACKSPACE \<equiv> CHR 0x08"

abbreviation ESC :: char where "ESC \<equiv> CHR 0x1B"

definition ERASE :: string where "ERASE = [ESC, CHR ''['', CHR ''K'']"

definition redraw_prompt :: "string \<Rightarrow> string \<Rightarrow> string" where
  "redraw_prompt prompt line = [RETURN] @ prompt @ line @ ERASE"

text \<open>\<^verbatim>\<open>reset_line\<close>: the line that has been loaded is drawn.\<close>

definition reset_line :: "string \<Rightarrow> editor \<Rightarrow> string" where
  "reset_line prompt e = redraw_prompt prompt (ed_buf e)"

definition key_output :: "string \<Rightarrow> string list \<Rightarrow> nat \<Rightarrow> key \<Rightarrow> editor \<Rightarrow> string" where
  "key_output prompt history buf_size k e =
     (case k of
        Escape seq \<Rightarrow>
          (if seq = ''[A'' then (if 0 < ed_index e then reset_line prompt (key_up history buf_size e) else [])
           else if seq = ''[B'' then (if ed_index e < length history then reset_line prompt (key_down history buf_size e) else [])
           else [])
      | Byte ch \<Rightarrow>
          if ch = NEWLINE \<or> ch = RETURN then [RETURN, NEWLINE]
          else if ch = CHR 0x04 then []
          else if ch = CHR 0x7F \<or> ch = CHR 0x08 then (if ed_buf e \<noteq> [] then [BACKSPACE, SPACE, BACKSPACE] else [])
          else if is_print ch \<and> length (ed_buf e) + 1 < buf_size then [ch]
          else [])"

fun read_shown :: "string \<Rightarrow> string list \<Rightarrow> nat \<Rightarrow> key list \<Rightarrow> editor \<Rightarrow> string option \<times> string \<times> key list" where
  "read_shown prompt history buf_size [] e = (None, [], [])"
| "read_shown prompt history buf_size (k # ks) e =
     (case edit_key history buf_size k e of
        More e' \<Rightarrow>
          (case read_shown prompt history buf_size ks e' of
             (r, out, rest) \<Rightarrow> (r, key_output prompt history buf_size k e @ out, rest))
      | Line l \<Rightarrow> (Some l, key_output prompt history buf_size k e, ks)
      | EndOfInput \<Rightarrow> (None, key_output prompt history buf_size k e, ks))"

datatype line_result = ReadLine string | ReadEnd | ReadError

text \<open>
  The whole of \<^verbatim>\<open>cli_input_readline\<close>. Standard input: what \<^verbatim>\<open>fgets\<close> reads of it when it is not a terminal, and the keys that are read when it
  is one. The two flags say whether the mode of the terminal can be set and whether it can be set back. The result is the line, the output, the
  terminal and what is left of the input.
\<close>

record stdin =
  si_text :: string
  si_keys :: "key list"

definition tty_readline ::
    "bool \<Rightarrow> bool \<Rightarrow> string \<Rightarrow> string list \<Rightarrow> nat \<Rightarrow> stdin \<Rightarrow> tty \<Rightarrow> line_result \<times> string \<times> tty \<times> stdin" where
  "tty_readline set_ok restore_ok prompt history buf_size inp t =
     (if buf_size = 0 then (ReadError, [], t, inp)
      else if \<not> ty_is_tty t then
        (if si_text inp = [] then (ReadEnd, prompt, t, inp)
         else case fgets buf_size (si_text inp) of (line, rest) \<Rightarrow> (ReadLine line, prompt, t, inp\<lparr>si_text := rest\<rparr>))
      else case enable_raw_mode set_ok t of
        (False, t1) \<Rightarrow> (ReadError, [], t1, inp)
      | (True, t1) \<Rightarrow>
          (case read_shown prompt history buf_size (si_keys inp) (new_line history) of
             (r, out, rest) \<Rightarrow>
               (case r of Some l \<Rightarrow> ReadLine l | None \<Rightarrow> ReadEnd, prompt @ out, disable_raw_mode restore_ok t1, inp\<lparr>si_keys := rest\<rparr>)))"

section \<open>The editor on the terminal\<close>

lemma read_shown_keys:
  "fst (read_shown p h n ks e) = fst (read_keys h n ks e) \<and> snd (snd (read_shown p h n ks e)) = snd (read_keys h n ks e)"
proof (induction ks arbitrary: e)
  case (Cons k ks)
  then show ?case by (cases "edit_key h n k e") (simp_all add: case_prod_unfold)
qed simp

text \<open>The editor after keys that do not end the line, and what has been written.\<close>

fun edit_keys :: "string \<Rightarrow> string list \<Rightarrow> nat \<Rightarrow> key list \<Rightarrow> editor \<Rightarrow> (editor \<times> string) option" where
  "edit_keys p h n [] e = Some (e, [])"
| "edit_keys p h n (k # ks) e =
     (case edit_key h n k e of
        More e' \<Rightarrow> map_option (\<lambda>(e2, out). (e2, key_output p h n k e @ out)) (edit_keys p h n ks e')
      | _ \<Rightarrow> None)"

text \<open>
  A line of a terminal: the text left of the cursor and the text from the cursor on. A printable character overwrites what is under
  the cursor, a backspace moves it to the left, a carriage return to the start of the line, and the
  control sequence \<open>EL\<close> erases what is behind it (ECMA-48). The line is wide enough. Output may be split anywhere but inside a
  control sequence.
\<close>

fun complete :: "string \<Rightarrow> bool" where
  "complete [] = True"
| "complete (c # cs) = (if c = ESC then (take 2 cs = ''[K'' \<and> complete (drop 2 cs)) else complete cs)"

definition terminal :: "('t \<Rightarrow> string \<times> string) \<Rightarrow> (string \<Rightarrow> 't \<Rightarrow> 't) \<Rightarrow> bool" where
  "terminal shown feed \<longleftrightarrow>
     (\<forall>t a b. complete a \<longrightarrow> feed (a @ b) t = feed b (feed a t)) \<and>
     (\<forall>t. feed [] t = t) \<and>
     (\<forall>t c l r. is_print c \<and> shown t = (l, r) \<longrightarrow> shown (feed [c] t) = (l @ [c], tl r)) \<and>
     (\<forall>t c l r. shown t = (l @ [c], r) \<longrightarrow> shown (feed [BACKSPACE] t) = (l, c # r)) \<and>
     (\<forall>t l r. shown t = (l, r) \<longrightarrow> shown (feed [RETURN] t) = ([], l @ r)) \<and>
     (\<forall>t l r. shown t = (l, r) \<longrightarrow> shown (feed ERASE t) = (l, []))"

lemma print_not_esc: "is_print c \<Longrightarrow> c \<noteq> ESC"
  by (auto simp: is_print_def less_eq_char_def)

lemma complete_plain: "ESC \<notin> set s \<Longrightarrow> complete s"
  by (induction s) auto

lemma plain_print: "list_all is_print s \<Longrightarrow> ESC \<notin> set s"
  using print_not_esc by (auto simp: list_all_iff)

lemma complete_erase: "ESC \<notin> set s \<Longrightarrow> complete (s @ ERASE)"
  by (induction s) (auto simp: ERASE_def)

lemma terminal_feed: "terminal shown feed \<Longrightarrow> complete a \<Longrightarrow> feed (a @ b) t = feed b (feed a t)"
  by (simp add: terminal_def)

lemma terminal_laws:
  assumes "terminal shown feed"
  shows "is_print c \<Longrightarrow> shown t = (l, r) \<Longrightarrow> shown (feed [c] t) = (l @ [c], tl r)"
    and "shown t = (l @ [c], r) \<Longrightarrow> shown (feed [BACKSPACE] t) = (l, c # r)"
    and "shown t = (l, r) \<Longrightarrow> shown (feed [RETURN] t) = ([], l @ r)"
    and "shown t = (l, r) \<Longrightarrow> shown (feed ERASE t) = (l, [])"
  using assms unfolding terminal_def by blast+

lemma terminal_text:
  assumes "terminal shown feed" "list_all is_print s" "shown t = (l, r)"
  shows "shown (feed s t) = (l @ s, drop (length s) r)"
  using assms(2,3)
proof (induction s arbitrary: t l r)
  case Nil
  then show ?case using assms(1) by (simp add: terminal_def)
next
  case (Cons c s)
  have "feed (c # s) t = feed s (feed [c] t)"
    using terminal_feed [OF assms(1), of "[c]" s t] print_not_esc [of c] Cons.prems(1) by simp
  moreover have "shown (feed [c] t) = (l @ [c], tl r)" using terminal_laws(1) [OF assms(1)] Cons.prems by simp
  ultimately show ?case using Cons.IH Cons.prems(1) by (simp add: drop_Suc)
qed

lemma terminal_redraw:
  assumes "terminal shown feed" "list_all is_print p" "list_all is_print s" "shown t = (l, r)"
  shows "shown (feed (redraw_prompt p s) t) = (p @ s, [])"
proof -
  have "feed (redraw_prompt p s) t = feed ERASE (feed (p @ s) (feed [RETURN] t))"
    using terminal_feed [OF assms(1), of "[RETURN]" "p @ s @ ERASE" t] terminal_feed [OF assms(1), of "p @ s" ERASE "feed [RETURN] t"]
      plain_print [OF assms(2)] plain_print [OF assms(3)]
    by (simp add: redraw_prompt_def complete_plain)
  moreover have "shown (feed [RETURN] t) = ([], l @ r)" by (rule terminal_laws(3) [OF assms(1,4)])
  then have "shown (feed (p @ s) (feed [RETURN] t)) = (p @ s, drop (length (p @ s)) (l @ r))"
    using terminal_text [OF assms(1), of "p @ s"] assms(2,3) by simp
  ultimately show ?thesis using terminal_laws(4) [OF assms(1)] by metis
qed

lemma terminal_rub:
  assumes "terminal shown feed" "shown t = (l @ [c], r)"
  shows "shown (feed [BACKSPACE, SPACE, BACKSPACE] t) = (l, SPACE # r)"
proof -
  have "feed [BACKSPACE, SPACE, BACKSPACE] t = feed [BACKSPACE] (feed [SPACE] (feed [BACKSPACE] t))"
    using terminal_feed [OF assms(1), of "[BACKSPACE]" "[SPACE, BACKSPACE]" t]
      terminal_feed [OF assms(1), of "[SPACE]" "[BACKSPACE]" "feed [BACKSPACE] t"] by simp
  moreover have "shown (feed [BACKSPACE] t) = (l, c # r)" by (rule terminal_laws(2) [OF assms])
  then have "shown (feed [SPACE] (feed [BACKSPACE] t)) = (l @ [SPACE], tl (c # r))"
    by (intro terminal_laws(1) [OF assms(1)]) (simp add: is_print_def less_eq_char_def)
  then have "shown (feed [BACKSPACE] (feed [SPACE] (feed [BACKSPACE] t))) = (l, SPACE # tl (c # r))" by (rule terminal_laws(2) [OF assms(1)])
  ultimately show ?thesis by simp
qed

section \<open>The terminal shows the line\<close>

text \<open>What is edited is printable: the keys are, and so is the history.\<close>

definition printable :: "string list \<Rightarrow> editor \<Rightarrow> bool" where
  "printable h e \<longleftrightarrow> list_all (list_all is_print) h \<and> list_all is_print (ed_buf e) \<and>
     (case ed_scratch e of None \<Rightarrow> True | Some s \<Rightarrow> list_all is_print s)"

lemma load_printable: "list_all (list_all is_print) h \<Longrightarrow> list_all is_print (load_history_entry h i n)"
  by (auto simp: load_history_entry_def list_all_iff buf_def dest!: in_set_takeD)

lemma key_printable:
  assumes "printable h e"
  shows "printable h (key_up h n e)" "printable h (key_down h n e)"
  using assms load_printable [of h] by (auto simp: printable_def key_up_def key_down_def split: option.split)

definition blanks :: "string \<Rightarrow> bool" where
  "blanks s \<longleftrightarrow> (\<forall>c \<in> set s. c = SPACE)"

text \<open>What a key does to the line and to the terminal.\<close>

lemma key_effect:
  assumes "edit_key h n k e = More e'"
  obtains (draw) "key_output p h n k e = reset_line p e'" "e' = key_up h n e \<or> e' = key_down h n e"
    | (rub) b x where "ed_buf e = b @ [x]" "e' = e\<lparr>ed_buf := b\<rparr>" "key_output p h n k e = [BACKSPACE, SPACE, BACKSPACE]"
    | (put) c where "is_print c" "e' = e\<lparr>ed_buf := ed_buf e @ [c]\<rparr>" "key_output p h n k e = [c]"
    | (skip) "e' = e" "key_output p h n k e = []"
proof (cases k)
  case (Escape s)
  have up: "key_up h n e = e" if "\<not> 0 < ed_index e" using that by (simp add: key_up_def)
  have down: "key_down h n e = e" if "\<not> ed_index e < length h" using that by (simp add: key_down_def)
  consider "s = ''[A''" | "s = ''[B''" "s \<noteq> ''[A''" | "s \<noteq> ''[A''" "s \<noteq> ''[B''" by blast
  then show thesis
  proof cases
    case 1
    have e': "e' = key_up h n e" using Escape 1 assms by (simp add: edit_key_def)
    have out: "key_output p h n k e = (if 0 < ed_index e then reset_line p (key_up h n e) else [])"
      using Escape 1 by (simp add: key_output_def)
    show thesis
    proof (cases "0 < ed_index e")
      case True
      show thesis by (rule draw) (use e' out True in simp_all)
    next
      case False
      show thesis by (rule skip) (use e' out False up in simp_all)
    qed
  next
    case 2
    have e': "e' = key_down h n e" using Escape 2 assms by (simp add: edit_key_def)
    have out: "key_output p h n k e = (if ed_index e < length h then reset_line p (key_down h n e) else [])"
      using Escape 2 by (simp add: key_output_def)
    show thesis
    proof (cases "ed_index e < length h")
      case True
      show thesis by (rule draw) (use e' out True in simp_all)
    next
      case False
      show thesis by (rule skip) (use e' out False down in simp_all)
    qed
  next
    case 3
    show thesis by (rule skip) (use Escape assms 3 in \<open>simp_all add: edit_key_def key_output_def\<close>)
  qed
next
  case (Byte c)
  consider (ret) "c = NEWLINE \<or> c = RETURN" | (eof) "c = CHR 0x04" | (del) "c = CHR 0x7F \<or> c = CHR 0x08"
    | (other) "c \<noteq> NEWLINE" "c \<noteq> RETURN" "c \<noteq> CHR 0x04" "c \<noteq> CHR 0x7F" "c \<noteq> CHR 0x08" by blast
  then show thesis
  proof cases
    case ret
    then have "\<exists>l. edit_key h n k e = Line l" using Byte by (simp add: edit_key_def)
    then show thesis using assms by auto
  next
    case eof
    show thesis by (rule skip) (use eof Byte assms in \<open>simp_all add: edit_key_def key_output_def split: if_splits\<close>)
  next
    case del
    then have c: "c \<noteq> NEWLINE" "c \<noteq> RETURN" "c \<noteq> CHR 0x04" by auto
    have eq: "edit_key h n k e = More (if ed_buf e \<noteq> [] then e\<lparr>ed_buf := butlast (ed_buf e)\<rparr> else e)"
      "key_output p h n k e = (if ed_buf e \<noteq> [] then [BACKSPACE, SPACE, BACKSPACE] else [])"
      using c del Byte by (simp_all add: edit_key_def key_output_def)
    show thesis
    proof (cases "ed_buf e" rule: rev_cases)
      case Nil
      show thesis by (rule skip) (use eq assms Nil in simp_all)
    next
      case (snoc b x)
      show thesis by (rule rub [OF snoc]) (use eq assms snoc in simp_all)
    qed
  next
    case other
    have eq: "edit_key h n k e = More (if is_print c \<and> length (ed_buf e) + 1 < n then e\<lparr>ed_buf := ed_buf e @ [c]\<rparr> else e)"
      "key_output p h n k e = (if is_print c \<and> length (ed_buf e) + 1 < n then [c] else [])"
      using other Byte by (simp_all add: edit_key_def key_output_def)
    show thesis
    proof (cases "is_print c \<and> length (ed_buf e) + 1 < n")
      case True
      show thesis by (rule put [of c]) (use eq assms True in simp_all)
    next
      case False
      show thesis by (rule skip) (use eq assms False in auto)
    qed
  qed
qed

lemma key_shown:
  assumes "terminal shown feed" "list_all is_print p" "printable h e" "edit_key h n k e = More e'"
    and "shown t = (p @ ed_buf e, r)" "blanks r"
  shows "printable h e' \<and> complete (key_output p h n k e) \<and> (\<exists>r'. shown (feed (key_output p h n k e) t) = (p @ ed_buf e', r') \<and> blanks r')"
proof -
  have unchanged: "shown (feed [] t) = (p @ ed_buf e, r)" using assms(1,5) unfolding terminal_def by simp
  have redraw: "shown (feed (reset_line p x) t) = (p @ ed_buf x, [])" if "printable h x" for x
    using terminal_redraw [OF assms(1,2) _ assms(5)] that by (simp add: reset_line_def printable_def)
  have whole: "complete (reset_line p x)" if "printable h x" for x
    using complete_erase [of "RETURN # p @ ed_buf x"] plain_print [OF assms(2)] plain_print [of "ed_buf x"] that
    by (simp add: reset_line_def redraw_prompt_def printable_def)
  have no: "blanks []" by (simp add: blanks_def)
  from assms(4) show ?thesis
  proof (cases rule: key_effect [where p = p])
    case draw
    then have "printable h e'" using key_printable [OF assms(3)] by auto
    then show ?thesis unfolding draw(1) using no redraw whole by blast
  next
    case (rub b x)
    have "shown (feed [BACKSPACE, SPACE, BACKSPACE] t) = (p @ b, SPACE # r)"
      using terminal_rub [OF assms(1), of t "p @ b" x r] assms(5) rub(1) by simp
    then show ?thesis unfolding rub(3) using assms(3,6) rub(1,2) by (auto simp: printable_def blanks_def)
  next
    case (put c)
    have "shown (feed [c] t) = ((p @ ed_buf e) @ [c], tl r)" by (rule terminal_laws(1) [OF assms(1) put(1) assms(5)])
    moreover have "blanks (tl r)" using assms(6) by (cases r) (simp_all add: blanks_def)
    ultimately show ?thesis unfolding put(3) using assms(3) put(1,2) print_not_esc [OF put(1)] by (simp add: printable_def)
  next
    case skip
    then show ?thesis unfolding skip(2) using unchanged assms(3,6) by auto
  qed
qed

lemma keys_shown:
  assumes "terminal shown feed" "list_all is_print p" "printable h e" "edit_keys p h n ks e = Some (e', out)"
    and "shown t = (p @ ed_buf e, r)" "blanks r"
  shows "\<exists>r'. shown (feed out t) = (p @ ed_buf e', r') \<and> blanks r'"
  using assms(3-6)
proof (induction ks arbitrary: e t r out)
  case Nil
  then show ?case using assms(1) by (auto simp: terminal_def)
next
  case (Cons k ks)
  obtain e1 out1 where k: "edit_key h n k e = More e1" "edit_keys p h n ks e1 = Some (e', out1)" "out = key_output p h n k e @ out1"
    using Cons.prems(2) by (auto split: edited.splits)
  from key_shown [OF assms(1,2) Cons.prems(1) k(1) Cons.prems(3,4)]
  obtain r1 where k1: "complete (key_output p h n k e)" and "printable h e1" "shown (feed (key_output p h n k e) t) = (p @ ed_buf e1, r1)" "blanks r1" by blast
  from Cons.IH [OF this(2) k(2) this(3,4)] show ?case using terminal_feed [OF assms(1) k1] unfolding k(3) by simp
qed

lemma edit_keys_ok: "editor_ok h n e \<Longrightarrow> edit_keys p h n ks e = Some (e', out) \<Longrightarrow> editor_ok h n e'"
proof (induction ks arbitrary: e out)
  case (Cons k ks)
  then show ?case by (auto split: edited.splits dest: edit_key_ok)
qed simp

text \<open>Reading goes on where the keys that do not end the line have left the editor.\<close>

lemma read_after:
  assumes "edit_keys p h n ks e = Some (e', out)"
  shows "read_shown p h n (ks @ ks') e = (case read_shown p h n ks' e' of (r, out', rest) \<Rightarrow> (r, out @ out', rest))"
  using assms
proof (induction ks arbitrary: e out)
  case (Cons k ks)
  then show ?case by (cases "edit_key h n k e") (auto split: prod.split)
qed (simp split: prod.split)

lemma readline_after:
  assumes "edit_keys p h n ks (new_line h) = Some (e, out)" and "0 < n"
  shows "tty_readline True restore_ok p h n (inp\<lparr>si_keys := ks @ ks'\<rparr>) (cli_input_init True True) =
    (case read_shown p h n ks' e of (r, out', rest) \<Rightarrow>
       (case r of Some l \<Rightarrow> ReadLine l | None \<Rightarrow> ReadEnd, p @ out @ out',
        (cli_input_init True True)\<lparr>ty_mode := if restore_ok then Cooked else Raw\<rparr>, inp\<lparr>si_keys := rest\<rparr>))"
  using assms(2) read_after [OF assms(1), of ks']
  by (auto simp: tty_readline_def cli_input_init_def enable_raw_mode_def disable_raw_mode_def split: prod.split)

lemma readline_keys:
  "fst (read_shown p h n ks (new_line h)) = fst (cli_input_readline h n ks)"
  "snd (snd (read_shown p h n ks (new_line h))) = snd (cli_input_readline h n ks)"
  using read_shown_keys by (simp_all add: cli_input_readline_def)

text \<open>C37: The editor shows what it holds and returns what it shows. On every terminal that obeys the control sequences and whose line is
  wide enough, after any keys that do not end the line (text, backspaces, steps through the history, other keys), the cursor is behind the prompt and
  the line being edited, there is nothing but blanks behind it, and the line fits its buffer. A return key then returns exactly this
  line, with a newline if there is room for it, and moves to the next line; the end of the input returns no line, and so does Ctrl-D when
  the line is empty, while it is ignored otherwise. The keys behind the end of the line are left for the next call, and the terminal is in the
  mode it was in before, unless it cannot be set back. When the mode cannot be set at first, there is an error, no output and nothing is read.\<close>

theorem editor_shows_line:
  assumes "terminal shown feed" and "list_all is_print prompt" and "list_all (list_all is_print) history" and "0 < buf_size"
    and "edit_keys prompt history buf_size ks (new_line history) = Some (e, out)" and "shown t = ([], [])"
  shows "(\<exists>r. shown (feed (prompt @ out) t) = (prompt @ ed_buf e, r) \<and> (\<forall>c \<in> set r. c = SPACE)) \<and> length (ed_buf e) < buf_size \<and>
    (\<forall>ret \<in> {NEWLINE, RETURN}.
       tty_readline True restore_ok prompt history buf_size (inp\<lparr>si_keys := ks @ Byte ret # later\<rparr>) (cli_input_init True True) =
       (ReadLine (if length (ed_buf e) + 1 < buf_size then ed_buf e @ [NEWLINE] else ed_buf e), prompt @ out @ [RETURN, NEWLINE],
        (cli_input_init True True)\<lparr>ty_mode := if restore_ok then Cooked else Raw\<rparr>, inp\<lparr>si_keys := later\<rparr>)) \<and>
    tty_readline True restore_ok prompt history buf_size (inp\<lparr>si_keys := ks\<rparr>) (cli_input_init True True) =
       (ReadEnd, prompt @ out, (cli_input_init True True)\<lparr>ty_mode := if restore_ok then Cooked else Raw\<rparr>, inp\<lparr>si_keys := []\<rparr>) \<and>
    tty_readline True restore_ok prompt history buf_size (inp\<lparr>si_keys := ks @ Byte (CHR 0x04) # later\<rparr>) (cli_input_init True True) =
       (if ed_buf e = []
        then (ReadEnd, prompt @ out, (cli_input_init True True)\<lparr>ty_mode := if restore_ok then Cooked else Raw\<rparr>, inp\<lparr>si_keys := later\<rparr>)
        else tty_readline True restore_ok prompt history buf_size (inp\<lparr>si_keys := ks @ later\<rparr>) (cli_input_init True True)) \<and>
    tty_readline False restore_ok prompt history buf_size inp (cli_input_init True True) = (ReadError, [], cli_input_init True True, inp)"
proof -
  have p: "printable history (new_line history)" using assms(3) by (simp add: printable_def new_line_def)
  have "shown (feed prompt t) = (prompt, [])" using terminal_text [OF assms(1,2,6)] by simp
  then have "shown (feed prompt t) = (prompt @ ed_buf (new_line history), [])" "blanks []" by (simp_all add: new_line_def blanks_def)
  from keys_shown [OF assms(1,2) p assms(5) this]
  obtain r where r: "shown (feed out (feed prompt t)) = (prompt @ ed_buf e, r)" "blanks r" by blast
  have "feed (prompt @ out) t = feed out (feed prompt t)"
    by (rule terminal_feed [OF assms(1) complete_plain [OF plain_print [OF assms(2)]]])
  with r have 1: "\<exists>r. shown (feed (prompt @ out) t) = (prompt @ ed_buf e, r) \<and> (\<forall>c \<in> set r. c = SPACE)" by (auto simp: blanks_def)
  have "editor_ok history buf_size (new_line history)" using assms(4) by (simp add: editor_ok_def new_line_def)
  from edit_keys_ok [OF this assms(5)] have 2: "length (ed_buf e) < buf_size" by (simp add: editor_ok_def)
  note after = readline_after [OF assms(5,4), where restore_ok = restore_ok and inp = inp]
  have 3: "read_shown prompt history buf_size (Byte ret # later) e =
      (Some (if length (ed_buf e) + 1 < buf_size then ed_buf e @ [NEWLINE] else ed_buf e), [RETURN, NEWLINE], later)"
    if "ret \<in> {NEWLINE, RETURN}" for ret using that by (auto simp: edit_key_def key_output_def)
  have 4: "read_shown prompt history buf_size (Byte (CHR 0x04) # later) e =
      (if ed_buf e = [] then (None, [], later) else read_shown prompt history buf_size later e)"
    by (simp add: edit_key_def key_output_def split: prod.split)
  have 5: "tty_readline False restore_ok prompt history buf_size inp (cli_input_init True True) = (ReadError, [], cli_input_init True True, inp)"
    using assms(4) by (simp add: tty_readline_def cli_input_init_def enable_raw_mode_def)
  show ?thesis using 1 2 3 4 5 after after [where ks' = "[]"] by (simp split: prod.split)
qed

text \<open>A terminal: one line, the control sequences as stated.\<close>

definition put_char :: "char \<Rightarrow> string \<times> string \<Rightarrow> string \<times> string" where
  "put_char c t =
     (if c = BACKSPACE then (if fst t = [] then t else (butlast (fst t), last (fst t) # snd t))
      else if c = RETURN then ([], fst t @ snd t) else (fst t @ [c], tl (snd t)))"

fun line_feed :: "string \<Rightarrow> string \<times> string \<Rightarrow> string \<times> string" where
  "line_feed [] t = t"
| "line_feed (c # cs) t =
     (if c = ESC then (if take 2 cs = ''[K'' then line_feed (drop 2 cs) (fst t, []) else t) else line_feed cs (put_char c t))"

lemma line_feed_append: "complete a \<Longrightarrow> line_feed (a @ b) t = line_feed b (line_feed a t)"
proof (induction a arbitrary: t rule: complete.induct)
  case (2 c cs)
  show ?case
  proof (cases "c = ESC")
    case True
    then have c: "take 2 cs = ''[K''" "complete (drop 2 cs)" using "2.prems" by simp_all
    have "length (take 2 cs) = length ''[K''" using c(1) by (rule arg_cong)
    then have "2 \<le> length cs" by simp
    then show ?thesis using True c "2.IH"(1) [OF True c(2)] by simp
  next
    case False
    then show ?thesis using "2.IH"(2) "2.prems" by simp
  qed
qed simp

lemma line_terminal: "terminal (\<lambda>t. t) line_feed"
proof -
  have "put_char c (l, r) = (l @ [c], tl r)" if "is_print c" for c l r
    using that by (auto simp: put_char_def is_print_def less_eq_char_def)
  moreover have "c \<noteq> ESC" if "is_print c" for c by (rule print_not_esc [OF that])
  ultimately show ?thesis by (auto simp: terminal_def line_feed_append put_char_def ERASE_def)
qed

text \<open>The user types a character, rubs it out and goes back to the last command.\<close>

theorem editor_shows_line_witness:
  "\<exists>out. line_feed (''> '' @ out) ([], []) = (''> LIST'', []) \<and>
     tty_readline True True ''> '' [''LIST''] 512
       \<lparr>si_text = [], si_keys = [Byte (CHR ''x''), Byte (CHR 0x7F), Escape ''[A'', Byte NEWLINE]\<rparr> (cli_input_init True True) =
     (ReadLine (''LIST'' @ [NEWLINE]), ''> '' @ out @ [RETURN, NEWLINE], cli_input_init True True, \<lparr>si_text = [], si_keys = []\<rparr>)"
proof -
  let ?ks = "[Byte (CHR ''x''), Byte (CHR 0x7F), Escape ''[A'']"
  have p: "list_all is_print ''> ''" "list_all (list_all is_print) [''LIST'']" by code_simp+
  obtain e out where e: "edit_keys ''> '' [''LIST''] 512 ?ks (new_line [''LIST'']) = Some (e, out)" "ed_buf e = ''LIST''"
    "line_feed (''> '' @ out) ([], []) = (''> LIST'', [])"
  proof -
    have "map_option (\<lambda>(e, out). (ed_buf e, line_feed (''> '' @ out) ([], []))) (edit_keys ''> '' [''LIST''] 512 ?ks (new_line [''LIST''])) =
        Some (''LIST'', ''> LIST'', [])" by code_simp
    then show thesis using that by auto
  qed
  have t: "(cli_input_init True True)\<lparr>ty_mode := Cooked\<rparr> = cli_input_init True True" by (simp add: cli_input_init_def)
  from editor_shows_line [OF line_terminal p _ e(1), where t = "([], [])" and restore_ok = True and inp = "\<lparr>si_text = [], si_keys = []\<rparr>" and later = "[]"] e(2,3) t
  show ?thesis by (intro exI [of _ out]) simp
qed

end
