(* ===== verification/Spec2Isabelle.thy ===== *)
theory Spec2Isabelle
  imports Common_Props SS_Store_Props SS_Concurrency SS_Main NM_Rpc NM_Durable NM_Answers NM_Slots Write_Session Client_Info Client_Stream Client_Commands Client_Rights Client_Screen
begin

text \<open>
  CoWrite, a collaborative file system: a name manager (\<^verbatim>\<open>nm/\<close>), storage servers (\<^verbatim>\<open>ss/\<close>) and a command line
  client (\<^verbatim>\<open>client/\<close>) that exchange framed JSON messages (\<^verbatim>\<open>common/\<close>). The name manager knows the
  files, their owners, access lists, checkpoints and locations; it issues a ticket for every access, and
  the client presents the ticket to the storage server that has the document. A document is a text split
  into sentences; a client locks one sentence, edits its words and commits, and the server merges the
  edit with what others committed meanwhile. Undo, checkpoints and replication work on whole documents.

  \<^bold>\<open>Shared layers.\<close> \<open>Prelude\<close>: types, fact collections, list lemmas. \<open>C_Lib\<close>: what the code uses of the C library
  (strings cut at a terminator, bounded buffers as \<open>buf\<close>, \<^verbatim>\<open>strtol\<close>, \<^verbatim>\<open>fgets\<close>, decimal output).
  \<open>Common_Error\<close>, \<open>Common_Array\<close>, \<open>Common_Json\<close>, \<open>Common_Net\<close>: the files of \<^verbatim>\<open>common/\<close> of the same name;
  \<open>Common_Sock\<close>: the sockets of \<^verbatim>\<open>net_proto.c\<close> over the list of open descriptors. \<open>Common_Log\<close>: \<^verbatim>\<open>log.c\<close> and the logging functions of
  both servers. \<open>Common_Rand\<close>: \<^verbatim>\<open>randutil.c\<close>. \<open>Calendar\<close>: the date of a number of seconds. \<open>Common_Props\<close>: what they promise to the servers. \<open>Tables\<close>: the contract of a table of named entries.
  \<open>Disk\<close>: files as a map from paths to texts, \<^verbatim>\<open>load_text\<close> and \<^verbatim>\<open>store_text_atomic\<close>, and the contract of a store.

  \<^bold>\<open>Storage server.\<close> \<open>SS_Text\<close> (sentences, words, file names), \<open>SS_State\<close> and \<open>SS_Persist\<close> (\<^verbatim>\<open>ss_state.c\<close>: the sorted
  table, metadata files, start-up), \<open>SS_Tickets\<close>, \<open>SS_Locks\<close>, \<open>SS_Session\<close> (edits and the merge at commit),
  \<open>SS_Server\<close> (replies, undo, checkpoints), \<open>SS_Handlers\<close> (data connections), \<open>SS_Control\<close> (commands of the
  name manager, replication, registration), \<open>SS_Paths\<close> and \<open>SS_Main\<close> (\<^verbatim>\<open>main\<close>: directories, start, the loop over what
  \<^verbatim>\<open>select\<close> reports). \<open>SS_Correct\<close>, \<open>SS_Props\<close>, \<open>SS_Store_Props\<close> and \<open>SS_Replication\<close> hold
  the lemmas and properties of the handlers. The state is the record \<open>ss_context\<close> with the disk in it;
  a handler maps it, the connection and what the system decides (\<open>os\<close>: time, faults, memory) to the new
  state and connection. A connection is the list of messages still to be received, those sent, and how many
  can be sent before an error. A commit that finds a conflict reads a variable that is not initialised: the handlers take 0 for it, \<open>commit_on_stack\<close> has
  every value. \<open>SS_Concurrency\<close> interleaves the write connections as a step relation: a step is one critical section, one access to a
  file or one message of a write handler, and the runs of the handlers are schedules of these steps.

  \<^bold>\<open>Name manager.\<close> \<open>NM_State\<close>: \<^verbatim>\<open>nm_state.h\<close> and the tables of \<^verbatim>\<open>nm_state.c\<close>. \<open>NM_Hash\<close> and \<open>NM_Files\<close>: the chained hash table is
  well formed, walks end, and the files are a finite map of bounded size. \<open>NM_Access\<close>: access lists as
  rights. \<open>NM_Servers\<close>: registration, round robin, and the location cache. \<open>NM_Persist\<close> and \<open>NM_Restart\<close>: the state file, as it is
  written and read. \<^verbatim>\<open>nm_main.c\<close> in the order of the file: \<open>NM_Context\<close> (connections, active users, tickets, the choice of
  a server), \<open>NM_Clients\<close> and \<open>NM_Dispatch\<close> (the requests of clients), \<open>NM_Replication\<close> (the worker, messages of storage
  servers, handshake, loss of a connection, start and end). The state is the record \<open>nm_context\<close>; \<open>nm_os\<close> is what the
  system and the other programs decide: the time, memory, faults of saving, random numbers, the answer of a
  storage server to a command, the output of a shell. A world of any type is threaded through these
  answers, so that they may depend on everything that happened. \<open>NM_Inv\<close>, \<open>NM_Steps\<close> and \<open>NM_Authority\<close> are the lemmas on single
  operations (what is kept, who may change what), \<open>NM_Run\<close> the invariant over all events, \<open>NM_Props\<close> the properties, \<open>NM_Durable\<close> the state file over all runs;
  \<open>NM_Answers\<close>: every request gets one reply of the form the client reads.
  \<open>NM_Rpc\<close> is a finer model of one part: the threads that call a storage server over one connection, with the shared
  fields, the condition variable and every interleaving of their critical sections. \<open>NM_Main\<close> is \<^verbatim>\<open>main\<close>: locks, descriptors and the threads of connections from the
  start over the accept loop to the end, with every failure of the start. The end of a thread is three steps there, and a property of the whole run assumes that
  a slot is not used again in between; \<open>NM_Slots\<close> has the slots and threads alone, in every order, and shows what happens otherwise. At the end the program
  waits for threads in a receive; whether closing the descriptor wakes them is a parameter.

  \<^bold>\<open>Client.\<close> \<^verbatim>\<open>cli_input.c\<close> is \<open>Client_Input\<close> (history, editing of a line key by key) and \<open>Client_Screen\<close> (the modes of the
  terminal and what is written to it). \<^verbatim>\<open>cli_main.c\<close> in four parts: \<open>Client_Calls\<close>
  (requests to the name manager), \<open>Client_Session\<close> (reading, streaming and the write session at a storage server), \<open>Client_Show\<close> (what the
  listing commands print: time stamps, access lists, entries cut out of the reply by scanning), \<open>Client_Main\<close> (parsing of
  every command, the handshake and the loop). The other programs are the record \<open>cli_env\<close>: what connecting, a request
  and a stream of messages return, with a world threaded through; what is printed is a list, standard input a text.
  \<open>Client_Time\<close>: the printed time stamps. \<open>Client_World\<close>: the contract between the client and the servers.

  \<^bold>\<open>Together.\<close> \<open>System\<close> runs the commands that the name manager writes through the parser and the handlers of the storage
  server: tickets, and the copy of a document from a primary to a backup. \<open>End_To_End\<close> closes the circle: \<open>system_env\<close> answers the
  client's requests by the handlers of the name manager, which sends its commands to the storage servers, and the
  client's data connection by the handlers of the storage server. A data connection is a list of messages, so the answer to
  the last one is found by running the handler on all of them. There \<^verbatim>\<open>READ\<close> is followed from the typed file name to the printed document,
  in \<open>Client_Stream\<close> \<^verbatim>\<open>STREAM\<close> to the printed words, in \<open>Write_Session\<close> a write session from the typed edits to the stored document, in \<open>Client_Info\<close> \<^verbatim>\<open>INFO\<close> from the
  tables to the printed lines, in \<open>Client_Commands\<close> a typed grant to the access list; \<open>Client_Rights\<close> holds for every input.

  \<^bold>\<open>What is shown.\<close> What a user types has the effect it should have, through all three programs, and no input changes
  the rights on a foreign file. A commit merges the edited sentence into the current document and loses nothing else, detects a
  conflict, and is atomic on failure; undo and checkpoints restore; one writer per sentence index under every interleaving
  and no lock left behind; no access without a ticket, tickets are single use, and the ticket that the name manager
  hands out is the one the storage server accepts; a replica is a copy; a backup is recorded only after a copy; a
  lost server fails over; only the owner changes rights, and a request without rights has no effect; the invariant of
  the name manager over all runs; the tables refine finite maps and survive a restart, and the state file holds the rights in force after every event; messages survive quoting and framing;
  access lists grant and revoke exactly what they say; in an orderly run the name manager ends without an open descriptor or a live lock, or waits for a
  thread that is not woken; the terminal shows the line that the editor holds and returns. Where the code does not do what it means to, the theorem says
  what it does (a lost flag, a lost update, two writers of one sentence under two indices, a conflict that reads what is on the stack, temporary files over documents, unreadable large documents, names with spaces in the
  state file, tickets for names with quotation marks, crossed answers of overlapping calls, a start that fails, slots
  used again too early).

  \<^bold>\<open>Contracts.\<close> \<open>dyn_array\<close>, \<open>framing\<close>, \<open>name_table\<close>, \<open>text_store\<close>, \<open>ticket_store\<close>, \<open>lock_table\<close>, \<open>event_loop\<close>, \<open>client_world\<close>, each interpreted on the
  definitions of its component; \<open>name_table\<close> twice, on the sorted array and on the hash table, \<open>event_loop\<close> (of the theory \<open>Runs\<close>)
  twice, on the events of the name manager and on the steps of calls.

  \<^bold>\<open>Bounds and fuel.\<close> Only the walks along hash chains take fuel, one more than the number of files; \<open>NM_Hash\<close> shows
  that this suffices in every well formed state. The two attempts of \<^verbatim>\<open>obtain_ticket_for_file\<close> are the code's own bound. Buffers
  are cut at their size as in the code. Integers are unbounded except where the code relies on their width (frame
  lengths, the hash, permissions, \<^verbatim>\<open>(int)\<close> casts of parsed numbers).

  \<^bold>\<open>Not modelled.\<close> Memory for short-lived strings is taken to be granted (growing tables is not). The handlers do not write their log lines:
  the log functions are a component of their own, and nothing reads a log. Text on standard error; the options of sockets; the creation of the prune and
  replication threads, which are taken to run. A request to the name manager is one step: its handlers release the state lock
  while they wait for a storage server, and what other requests do in these gaps is not interleaved. At the end of the name manager all threads of connections wait
  for a message or have ended. The loop of the storage server, \<open>ss_loop\<close>, serves a data connection in one step; \<open>SS_Concurrency\<close> is the model of their
  interleaving. A failed write of a metadata file leaves a prefix of it; that of a document is noticed by the code. The line of the terminal is wide enough for what is
  edited. In the end-to-end theorems the system is at rest but for
  the one client.
\<close>

end
